(* ===== verification/Gcx_Prelude.thy ===== *)
theory Gcx_Prelude
  imports Main "HOL-Library.Multiset" "HOL-Library.List_Lexorder" "HOL-Library.Char_ord"
    "HOL-Library.Product_Lexorder" "HOL-Library.AList"
begin

text \<open>
  The shared vocabulary of the development: the part of Go's \<^verbatim>\<open>strings\<close> package the
  modelled code calls, Go maps as association lists with distinct keys, the iteration order of
  a Go map (and the scheduling order of an \<^verbatim>\<open>errgroup\<close>) as an explicit schedule, and
  the lemma collections the component theories simplify with.

  Go strings are byte sequences and \<open>char\<close> is a byte, so \<open>string\<close> models them exactly.
\<close>

named_theorems go_string "rewriting rules for the strings package"
named_theorems go_map "rewriting rules for maps kept as association lists"

section \<open>The strings package\<close>

text \<open>\<^verbatim>\<open>strings.Split(s, string(c))\<close>: never empty, for a one byte separator.\<close>

fun go_split :: "char \<Rightarrow> string \<Rightarrow> string list" where
  "go_split c [] = [[]]"
| "go_split c (x # xs) =
     (if x = c then [] # go_split c xs
      else (case go_split c xs of [] \<Rightarrow> [[x]] | p # ps \<Rightarrow> (x # p) # ps))"

text \<open>\<^verbatim>\<open>strings.Cut(s, string(c))\<close>: \<open>None\<close> when the separator does not occur.\<close>

fun go_cut :: "char \<Rightarrow> string \<Rightarrow> (string \<times> string) option" where
  "go_cut c [] = None"
| "go_cut c (x # xs) =
     (if x = c then Some ([], xs) else map_option (\<lambda>(a, b). (x # a, b)) (go_cut c xs))"

text \<open>\<^verbatim>\<open>strings.CutLast(s, string(c))\<close>: around the last occurrence.\<close>

definition go_cut_last :: "char \<Rightarrow> string \<Rightarrow> (string \<times> string) option" where
  "go_cut_last c s = map_option (\<lambda>(a, b). (rev b, rev a)) (go_cut c (rev s))"

text \<open>\<^verbatim>\<open>strings.SplitN(s, string(c), n)\<close> for \<open>n \<ge> 0\<close>: at most \<open>n\<close> parts, the last
  one unsplit.\<close>

fun go_splitn :: "nat \<Rightarrow> char \<Rightarrow> string \<Rightarrow> string list" where
  "go_splitn 0 c s = []"
| "go_splitn (Suc 0) c s = [s]"
| "go_splitn (Suc (Suc n)) c s =
     (case go_cut c s of None \<Rightarrow> [s] | Some (a, b) \<Rightarrow> a # go_splitn (Suc n) c b)"

text \<open>\<^verbatim>\<open>strings.Join\<close>.\<close>

fun go_join :: "string \<Rightarrow> string list \<Rightarrow> string" where
  "go_join sep [] = []"
| "go_join sep [x] = x"
| "go_join sep (x # y # ys) = x @ sep @ go_join sep (y # ys)"

lemma go_split_neq_Nil [simp]: "go_split c s \<noteq> []"
  by (induction s) (auto split: list.splits)

lemma go_split_parts: "p \<in> set (go_split c s) \<Longrightarrow> c \<notin> set p"
  by (induction s arbitrary: p) (auto split: list.splits if_splits)

lemma go_join_Cons [simp]: "ys \<noteq> [] \<Longrightarrow> go_join sep (x # ys) = x @ sep @ go_join sep ys"
  by (cases ys) auto

lemma go_join_first: "go_join sep ((x # p) # ps) = x # go_join sep (p # ps)"
  by (cases ps) auto

lemma go_join_split [go_string]: "go_join [c] (go_split c s) = s"
proof (induction s)
  case (Cons x xs)
  then show ?case
    by (cases "go_split c xs") (auto simp: go_join_first simp del: go_join.simps)
qed simp

lemma go_split_free: "c \<notin> set s \<Longrightarrow> go_split c s = [s]"
  by (induction s) auto

lemma go_split_append: "c \<notin> set a \<Longrightarrow> go_split c (a @ c # b) = a # go_split c b"
  by (induction a) auto

lemma go_split_join:
  "xs \<noteq> [] \<Longrightarrow> \<forall>x \<in> set xs. c \<notin> set x \<Longrightarrow> go_split c (go_join [c] xs) = xs"
proof (induction xs)
  case (Cons x xs)
  then show ?case
    by (cases "xs = []") (auto simp: go_split_free go_split_append)
qed simp

lemma go_cut_None [go_string]: "go_cut c s = None \<longleftrightarrow> c \<notin> set s"
  by (induction s) auto

lemma go_cut_Some [go_string]: "go_cut c s = Some (a, b) \<longleftrightarrow> s = a @ c # b \<and> c \<notin> set a"
proof (induction s arbitrary: a)
  case (Cons x xs)
  then show ?case by (cases a) auto
qed simp

lemma go_cut_append: "c \<notin> set a \<Longrightarrow> go_cut c (a @ c # b) = Some (a, b)"
  by (simp add: go_cut_Some)

lemma go_cut_free: "c \<notin> set s \<Longrightarrow> go_cut c s = None"
  by (simp add: go_cut_None)

lemma go_cut_last_Some: "go_cut_last c s = Some (a, b) \<longleftrightarrow> s = a @ c # b \<and> c \<notin> set b"
proof -
  have "go_cut_last c s = Some (a, b) \<longleftrightarrow> go_cut c (rev s) = Some (rev b, rev a)"
    by (auto simp: go_cut_last_def)
  also have "\<dots> \<longleftrightarrow> rev s = rev (a @ c # b) \<and> c \<notin> set b"
    by (simp add: go_cut_Some)
  finally show ?thesis by (simp only: rev_is_rev_conv)
qed

lemma go_cut_last_None: "go_cut_last c s = None \<longleftrightarrow> c \<notin> set s"
  by (simp add: go_cut_last_def go_cut_None)

lemma go_splitn_neq_Nil [simp]: "go_splitn (Suc n) c s \<noteq> []"
  by (cases n) (auto split: option.splits)

lemma go_splitn_length: "length (go_splitn n c s) \<le> n"
  by (induction n c s rule: go_splitn.induct) (auto split: option.splits)

lemma go_join_splitn [go_string]: "0 < n \<Longrightarrow> go_join [c] (go_splitn n c s) = s"
  by (induction n c s rule: go_splitn.induct) (auto simp: go_string split: option.splits)

lemma go_join_eq_Nil: "go_join [c] xs = [] \<longleftrightarrow> xs = [] \<or> xs = [[]]"
  by (cases xs; cases "tl xs") auto

lemma in_set_go_join:
  "x \<in> set (go_join [c] ps) \<Longrightarrow> x = c \<or> (\<exists>p \<in> set ps. x \<in> set p)"
  by (induction "[c]" ps rule: go_join.induct) auto

lemma set_go_join_mem: "p \<in> set ps \<Longrightarrow> x \<in> set p \<Longrightarrow> x \<in> set (go_join [c] ps)"
  by (induction "[c]" ps rule: go_join.induct) auto

lemma go_join_free: "x \<noteq> c \<Longrightarrow> \<forall>p \<in> set ps. x \<notin> set p \<Longrightarrow> x \<notin> set (go_join [c] ps)"
  using in_set_go_join by fast

text \<open>
  \<^verbatim>\<open>strings.TrimSpace\<close>: the white space of Unicode at both ends, each character given by the
  bytes that encode it.
\<close>

definition space_chars :: "string list" where
  "space_chars =
     map (map (char_of :: nat \<Rightarrow> char))
       ([[9], [10], [11], [12], [13], [32], [194, 133], [194, 160], [225, 154, 128]]
        @ map (\<lambda>n. [226, 128, n]) [128, 129, 130, 131, 132, 133, 134, 135, 136, 137, 138, 168, 169, 175]
        @ [[226, 129, 159], [227, 128, 128]])"

function trim_first :: "string list \<Rightarrow> string \<Rightarrow> string" where
  "trim_first ps s =
     (case find (\<lambda>p. p \<noteq> [] \<and> take (length p) s = p) ps of
        None \<Rightarrow> s
      | Some p \<Rightarrow> trim_first ps (drop (length p) s))"
  by pat_completeness auto
termination
proof (relation "measure (length \<circ> snd)", simp)
  fix ps :: "string list" and s p
  assume "find (\<lambda>p. p \<noteq> [] \<and> take (length p) s = p) ps = Some p"
  then have "p \<noteq> []" and "take (length p) s = p"
    by (auto simp: find_Some_iff)
  then show "((ps, drop (length p) s), ps, s) \<in> measure (length \<circ> snd)"
    by (cases s; cases p) auto
qed

declare trim_first.simps [simp del]

definition go_trim_space :: "string \<Rightarrow> string" where
  "go_trim_space s = rev (trim_first (map rev space_chars) (rev (trim_first space_chars s)))"

lemma trim_first_Nil [simp]: "trim_first ps [] = []"
proof -
  have "find (\<lambda>p. p \<noteq> [] \<and> take (length p) [] = p) ps = None"
    by (auto simp: find_None_iff)
  then show ?thesis
    by (subst trim_first.simps) simp
qed

lemma go_trim_space_Nil [simp]: "go_trim_space [] = []"
  by (simp add: go_trim_space_def)

lemma trim_first_plain:
  "s \<noteq> [] \<Longrightarrow> \<forall>p \<in> set ps. p \<noteq> [] \<and> hd p \<noteq> hd s \<Longrightarrow> trim_first ps s = s"
proof -
  assume s: "s \<noteq> []" and ps: "\<forall>p \<in> set ps. p \<noteq> [] \<and> hd p \<noteq> hd s"
  have "find (\<lambda>p. p \<noteq> [] \<and> take (length p) s = p) ps = None"
  proof -
    have "take (length p) s \<noteq> p" if "p \<in> set ps" for p
      using that s ps by (metis hd_take length_greater_0_conv)
    then show ?thesis by (auto simp: find_None_iff)
  qed
  then show ?thesis by (simp add: trim_first.simps[of ps s])
qed

definition printable :: "char \<Rightarrow> bool" where
  "printable c \<longleftrightarrow> (33 :: nat) \<le> of_char c \<and> of_char c \<le> (126 :: nat)"

lemma go_trim_space_printable:
  assumes "s \<noteq> []" and "printable (hd s)" and "printable (last s)"
  shows "go_trim_space s = s"
proof -
  have "list_all (\<lambda>p. p \<noteq> [] \<and> \<not> printable (hd p) \<and> \<not> printable (last p)) space_chars" by code_simp
  then have spaces: "\<forall>p \<in> set space_chars. p \<noteq> [] \<and> \<not> printable (hd p) \<and> \<not> printable (hd (rev p))"
    by (simp add: list_all_iff hd_rev)
  have "trim_first space_chars s = s" using assms spaces by (intro trim_first_plain) auto
  moreover have "trim_first (map rev space_chars) (rev s) = rev s"
    using assms spaces by (intro trim_first_plain) (auto simp: hd_rev)
  ultimately show ?thesis by (simp add: go_trim_space_def)
qed

lemma go_trim_space_nonempty: "go_trim_space s \<noteq> [] \<Longrightarrow> s \<noteq> []"
  by auto

section \<open>Go maps\<close>

text \<open>
  A Go map is an association list whose keys are distinct: \<open>map_of m k\<close> is the lookup,
  \<open>AList.update k v m\<close> the assignment \<^verbatim>\<open>m[k] = v\<close>. A map of slices returns the
  empty (nil) slice for a missing key, so \<^verbatim>\<open>m[k] = append(m[k], v)\<close> is \<open>append_to\<close>.
\<close>

definition bucket :: "('k \<times> 'v list) list \<Rightarrow> 'k \<Rightarrow> 'v list" where
  "bucket m k = (case map_of m k of None \<Rightarrow> [] | Some vs \<Rightarrow> vs)"

definition append_to :: "'k \<Rightarrow> 'v \<Rightarrow> ('k \<times> 'v list) list \<Rightarrow> ('k \<times> 'v list) list" where
  "append_to k v m = AList.update k (bucket m k @ [v]) m"

lemma map_of_update [go_map]: "map_of (AList.update k v m) = (map_of m)(k \<mapsto> v)"
  by (rule update_conv')

text \<open>The keys, kept folded so that proofs reason about \<open>insert\<close> and not about pairs.\<close>

definition keys_of :: "('k \<times> 'v) list \<Rightarrow> 'k set" where
  "keys_of m = fst ` set m"

lemma keys_of_update [go_map]: "keys_of (AList.update k v m) = insert k (keys_of m)"
  by (simp add: keys_of_def dom_update)

lemma keys_of_Nil [simp]: "keys_of [] = {}"
  by (simp add: keys_of_def)

lemma map_of_None_iff_keys: "map_of m k = None \<longleftrightarrow> k \<notin> keys_of m"
  by (simp add: keys_of_def map_of_eq_None_iff)

lemma update_absent: "map_of m k = None \<Longrightarrow> AList.update k v m = m @ [(k, v)]"
  by (induction m) (auto split: if_splits)

lemma map_of_SomeD_keys: "map_of m k = Some v \<Longrightarrow> k \<in> keys_of m"
  by (metis map_of_None_iff_keys option.distinct(1))

lemma bucket_append_to [go_map]:
  "bucket (append_to k v m) k' = (if k' = k then bucket m k @ [v] else bucket m k')"
  by (simp add: bucket_def append_to_def go_map)

lemma bucket_update [go_map]:
  "bucket (AList.update k vs m) k' = (if k' = k then vs else bucket m k')"
  by (simp add: bucket_def go_map)

lemma bucket_Nil [simp]: "bucket [] k = []"
  by (simp add: bucket_def)

lemma distinct_append_to: "distinct (map fst m) \<Longrightarrow> distinct (map fst (append_to k v m))"
  by (simp add: append_to_def distinct_update)

lemma bucket_SomeD: "map_of m k = Some vs \<Longrightarrow> bucket m k = vs"
  by (simp add: bucket_def)

lemma in_bucket_iff:
  "distinct (map fst m) \<Longrightarrow> v \<in> set (bucket m k) \<longleftrightarrow> (\<exists>vs. (k, vs) \<in> set m \<and> v \<in> set vs)"
  by (auto simp: bucket_def split: option.splits dest: map_of_SomeD)

lemma in_bucketD: "v \<in> set (bucket m k) \<Longrightarrow> \<exists>vs. (k, vs) \<in> set m \<and> v \<in> set vs"
  by (cases "map_of m k") (auto simp: bucket_def dest: map_of_SomeD)

lemma in_bucket_key: "v \<in> set (bucket m k) \<Longrightarrow> k \<in> keys_of m"
  by (cases "map_of m k") (auto simp: bucket_def dest: map_of_SomeD_keys)

section \<open>Unspecified orders\<close>

text \<open>
  \<^verbatim>\<open>for k, v := range m\<close> visits a map in an unspecified order, and an errgroup runs its
  callbacks in an unspecified order. Every definition that depends on such an order takes a
  schedule, a list of choices: \<open>go_range cs xs\<close> repeatedly takes the element of \<open>xs\<close>
  that the next choice names, and the rest in list order. Each schedule gives a permutation
  (\<open>mset_go_range\<close>) and each permutation is given by a schedule (\<open>go_range_complete\<close>),
  so a statement about all schedules is a statement about all orders.
\<close>

fun go_range :: "nat list \<Rightarrow> 'a list \<Rightarrow> 'a list" where
  "go_range [] xs = xs"
| "go_range (c # cs) xs =
     (if xs = [] then []
      else (let i = c mod length xs in xs ! i # go_range cs (take i xs @ drop (Suc i) xs)))"

lemma go_range_Nil [simp]: "go_range cs [] = []"
  by (cases cs) auto

lemma mset_go_range [simp]: "mset (go_range cs xs) = mset xs"
proof (induction cs xs rule: go_range.induct)
  case (2 c cs xs)
  show ?case
  proof (cases "xs = []")
    case False
    define i where "i = c mod length xs"
    have i: "i < length xs" using False by (simp add: i_def)
    have "mset (go_range (c # cs) xs) =
        add_mset (xs ! i) (mset (take i xs @ drop (Suc i) xs))"
      using "2.IH" [OF False i_def] False by (simp add: i_def Let_def)
    also have "\<dots> = mset (take i xs @ xs ! i # drop (Suc i) xs)" by simp
    also have "\<dots> = mset xs" using id_take_nth_drop [OF i] by simp
    finally show ?thesis .
  qed simp
qed simp

lemma set_go_range [simp]: "set (go_range cs xs) = set xs"
  by (metis mset_go_range set_mset_mset)

lemma length_go_range [simp]: "length (go_range cs xs) = length xs"
  by (metis mset_go_range size_mset)

lemma distinct_go_range [simp]: "distinct (go_range cs xs) = distinct xs"
  by (metis mset_go_range mset_eq_imp_distinct_iff)

lemma go_range_complete: "mset ys = mset xs \<Longrightarrow> \<exists>cs. go_range cs xs = ys"
proof (induction ys arbitrary: xs)
  case Nil
  then show ?case by (auto intro: exI [of _ "[]"])
next
  case (Cons y ys)
  have "y \<in> set xs" using Cons.prems by (metis list.set_intros(1) mset_eq_setD)
  then obtain i where i: "i < length xs" "xs ! i = y" by (auto simp: in_set_conv_nth)
  let ?r = "take i xs @ drop (Suc i) xs"
  have "mset xs = add_mset y (mset ?r)"
    using id_take_nth_drop [OF i(1)] i(2)
    by (metis (no_types) mset.simps(2) mset_append union_mset_add_mset_right)
  then have "mset ys = mset ?r" using Cons.prems by simp
  then obtain cs where "go_range cs ?r = ys" using Cons.IH by blast
  then have "go_range (i # cs) xs = y # ys" using i by (auto simp: Let_def)
  then show ?case by blast
qed

lemma go_range_two: "go_range cs [x, y] = [x, y] \<or> go_range cs [x, y] = [y, x]"
proof -
  obtain a b where ab: "go_range cs [x, y] = [a, b]"
    using length_go_range [of cs "[x, y]"]
    by (auto simp: numeral_2_eq_2 length_Suc_conv simp del: length_go_range)
  then have "mset [a, b] = mset [x, y]" by (metis mset_go_range)
  then show ?thesis using ab by (auto simp: add_eq_conv_ex)
qed

section \<open>Lists\<close>

text \<open>The first hit of a partial function, the shape of a Go loop with an early return.\<close>

fun first_some :: "('a \<Rightarrow> 'b option) \<Rightarrow> 'a list \<Rightarrow> 'b option" where
  "first_some f [] = None"
| "first_some f (x # xs) = (case f x of None \<Rightarrow> first_some f xs | Some y \<Rightarrow> Some y)"

lemma first_some_None: "first_some f xs = None \<longleftrightarrow> (\<forall>x \<in> set xs. f x = None)"
  by (induction xs) (auto split: option.splits)

lemma first_some_SomeD: "first_some f xs = Some y \<Longrightarrow> \<exists>x \<in> set xs. f x = Some y"
  by (induction xs) (auto split: option.splits)

text \<open>The results of a partial function, the shape of a Go loop that appends or continues.\<close>

fun collect_some :: "('a \<Rightarrow> 'b option) \<Rightarrow> 'a list \<Rightarrow> 'b list" where
  "collect_some f [] = []"
| "collect_some f (x # xs) =
     (case f x of None \<Rightarrow> collect_some f xs | Some y \<Rightarrow> y # collect_some f xs)"

lemma in_collect_some: "y \<in> set (collect_some f xs) \<longleftrightarrow> (\<exists>x \<in> set xs. f x = Some y)"
  by (induction xs) (auto split: option.splits)

lemma collect_some_append [simp]: "collect_some f (xs @ ys) = collect_some f xs @ collect_some f ys"
  by (induction xs) (auto split: option.splits)

lemma distinct_collect_some:
  "distinct (map h xs) \<Longrightarrow> (\<And>x y. x \<in> set xs \<Longrightarrow> f x = Some y \<Longrightarrow> g y = h x) \<Longrightarrow>
     distinct (map g (collect_some f xs))"
proof (induction xs)
  case (Cons x xs)
  have IH: "distinct (map g (collect_some f xs))" using Cons by simp
  show ?case
  proof (cases "f x")
    case (Some y)
    have "g y \<notin> set (map g (collect_some f xs))"
    proof
      assume "g y \<in> set (map g (collect_some f xs))"
      then obtain x' y' where x': "x' \<in> set xs" "f x' = Some y'" "g y = g y'"
        by (auto simp: in_collect_some)
      then have "h x = h x'" using Cons.prems(2) [of x y] Cons.prems(2) [of x' y'] Some by simp
      then show False using Cons.prems(1) x'(1) by (metis distinct.simps(2) image_eqI list.simps(9) set_map)
    qed
    then show ?thesis using IH Some by simp
  qed (simp add: IH)
qed simp

text \<open>Inserting under different keys keeps the order of a list.\<close>

lemma update_fresh: "k \<notin> set (map fst m) \<Longrightarrow> AList.update k v m = m @ [(k, v)]"
  by (induction m) auto

lemma fold_update_distinct:
  assumes "distinct (map h xs)"
  shows "fold (\<lambda>x. AList.update (h x) (v x)) xs [] = map (\<lambda>x. (h x, v x)) xs"
  using assms
proof (induction xs rule: rev_induct)
  case (snoc x xs)
  then show ?case by (simp add: update_fresh comp_def)
qed simp

text \<open>Deduplication with a \<^verbatim>\<open>seen\<close> set: the first occurrence of each element stays.\<close>

fun dedup_seen :: "'a list \<Rightarrow> 'a list \<Rightarrow> 'a list" where
  "dedup_seen seen [] = []"
| "dedup_seen seen (x # xs) =
     (if x \<in> set seen then dedup_seen seen xs else x # dedup_seen (x # seen) xs)"

lemma set_dedup_seen: "set (dedup_seen seen xs) = set xs - set seen"
  by (induction xs arbitrary: seen) auto

lemma distinct_dedup_seen: "distinct (dedup_seen seen xs)"
  by (induction xs arbitrary: seen) (auto simp: set_dedup_seen)

lemma find_dedup_seen:
  "\<forall>x \<in> set seen. \<not> P x \<Longrightarrow> find P (dedup_seen seen xs) = find P xs"
  by (induction xs arbitrary: seen) auto

lemma find_append_left: "\<exists>x \<in> set xs. P x \<Longrightarrow> find P (xs @ ys) = find P xs"
  by (induction xs) auto

lemma find_SomeD: "find P xs = Some x \<Longrightarrow> x \<in> set xs \<and> P x"
  by (metis find_Some_iff nth_mem)

lemma find_exists: "\<exists>x \<in> set xs. P x \<Longrightarrow> \<exists>y. find P xs = Some y"
  by (metis find_None_iff option.exhaust)

section \<open>Callbacks\<close>

text \<open>
  A loop that calls a fallible callback on explicit state and stops at the first error
  (\<^verbatim>\<open>ForEach\<close>), and an \<^verbatim>\<open>errgroup\<close>: every callback runs, one after the other in
  the order of the list (a schedule of the caller), the first error is kept and cancels the shared
  context, which is part of the state.
\<close>

fun for_each :: "('a \<Rightarrow> 's \<Rightarrow> 'e option \<times> 's) \<Rightarrow> 'a list \<Rightarrow> 's \<Rightarrow> 'e option \<times> 's" where
  "for_each f [] s = (None, s)"
| "for_each f (x # xs) s =
     (case f x s of (Some e, s') \<Rightarrow> (Some e, s') | (None, s') \<Rightarrow> for_each f xs s')"

fun run_group ::
    "('s \<Rightarrow> 's) \<Rightarrow> ('a \<Rightarrow> 's \<Rightarrow> 'e option \<times> 's) \<Rightarrow> 'e option \<Rightarrow> 'a list \<Rightarrow> 's \<Rightarrow> 'e option \<times> 's" where
  "run_group cancel f err [] s = (err, s)"
| "run_group cancel f err (x # xs) s =
     (case f x s of
        (None, s') \<Rightarrow> run_group cancel f err xs s'
      | (Some e, s') \<Rightarrow>
          (case err of
             None \<Rightarrow> run_group cancel f (Some e) xs (cancel s')
           | Some e' \<Rightarrow> run_group cancel f (Some e') xs s'))"

lemma run_group_quiet:
  "(\<And>x s. x \<in> set xs \<Longrightarrow> fst (f x s) = None) \<Longrightarrow> fst (run_group cancel f err xs s) = err"
proof (induction xs arbitrary: s)
  case (Cons x xs)
  obtain s' where "f x s = (None, s')" using Cons.prems [of x s] by (cases "f x s") auto
  then show ?case using Cons by simp
qed simp

text \<open>A loop or a group that reports no error is the fold of its callbacks.\<close>

definition run_all :: "('a \<Rightarrow> 's \<Rightarrow> 'e option \<times> 's) \<Rightarrow> 'a list \<Rightarrow> 's \<Rightarrow> 's" where
  "run_all f xs s = fold (\<lambda>x s. snd (f x s)) xs s"

lemma run_all_simps [simp]:
  "run_all f [] s = s" "run_all f (x # xs) s = run_all f xs (snd (f x s))"
  "run_all f (xs @ ys) s = run_all f ys (run_all f xs s)"
  by (simp_all add: run_all_def)

lemma run_group_err: "fst (run_group cancel f (Some e) xs s) \<noteq> None"
  by (induction xs arbitrary: s) (auto split: prod.split option.split)

lemma run_group_run_all:
  "run_group cancel f None xs s = (None, s') \<Longrightarrow> s' = run_all f xs s"
proof (induction xs arbitrary: s)
  case (Cons x xs)
  obtain r t where r: "f x s = (r, t)" by (rule prod.exhaust)
  show ?case
  proof (cases r)
    case (Some e)
    then show ?thesis using Cons.prems r run_group_err [of cancel f e xs "cancel t"] by simp
  next
    case None
    then show ?thesis using Cons r by simp
  qed
qed simp

lemma run_all_filter:
  "(\<And>x s. \<not> P x \<Longrightarrow> snd (f x s) = s) \<Longrightarrow> (\<And>x s. P x \<Longrightarrow> snd (f x s) = snd (g x s)) \<Longrightarrow>
     run_all f xs s = run_all g (filter P xs) s"
  by (induction xs arbitrary: s) auto

text \<open>The interface of a group of callbacks that all keep an invariant.\<close>

locale keeping_step =
  fixes step :: "'p \<Rightarrow> 'a \<Rightarrow> 's \<Rightarrow> 'e option \<times> 's"
    and cancel :: "'p \<Rightarrow> 's \<Rightarrow> 's"
    and inv :: "'p \<Rightarrow> 's \<Rightarrow> 's \<Rightarrow> bool"
  assumes inv_refl: "inv p s s"
    and inv_trans: "inv p s t \<Longrightarrow> inv p t u \<Longrightarrow> inv p s u"
    and step_inv: "inv p s (snd (step p x s))"
    and cancel_inv: "inv p s (cancel p s)"
begin

lemma group_inv: "inv p s (snd (run_group (cancel p) (step p) err xs s))"
proof (induction xs arbitrary: s err)
  case (Cons x xs)
  obtain r s' where fx: "step p x s = (r, s')" by force
  have i: "inv p s s'" using step_inv [of p s x] fx by simp
  have c: "inv p s (cancel p s')" using i cancel_inv inv_trans by blast
  show ?case
    using fx by (cases r; cases err) (auto intro: inv_trans [OF i] inv_trans [OF c] Cons.IH)
qed (simp add: inv_refl)

lemma each_inv: "inv p s (snd (for_each (step p) xs s))"
proof (induction xs arbitrary: s)
  case (Cons x xs)
  obtain r s' where fx: "step p x s = (r, s')" by force
  have "inv p s s'" using step_inv [of p s x] fx by simp
  then show ?case using fx by (cases r) (auto intro: inv_trans Cons.IH)
qed (simp add: inv_refl)

text \<open>The error of a group is the error of one of its callbacks, whose effect the final state keeps.\<close>

lemma group_error:
  assumes "run_group (cancel p) (step p) None xs s = (Some e, s')"
  shows "\<exists>x t u. x \<in> set xs \<and> step p x t = (Some e, u) \<and> inv p u s'"
  using assms
proof (induction xs arbitrary: s)
  case (Cons x xs)
  obtain r t where fx: "step p x s = (r, t)" by (rule prod.exhaust)
  show ?case
  proof (cases r)
    case None
    then have "run_group (cancel p) (step p) None xs t = (Some e, s')" using Cons.prems fx by simp
    then obtain x' t' u where "x' \<in> set xs" "step p x' t' = (Some e, u)" "inv p u s'" using Cons.IH by metis
    then show ?thesis by (metis list.set_intros(2))
  next
    case (Some e')
    then have g: "run_group (cancel p) (step p) (Some e') xs (cancel p t) = (Some e, s')" using Cons.prems fx by simp
    have "fst (run_group (cancel p) (step p) (Some e') ys u) = Some e'" for ys u
      by (induction ys arbitrary: u) (auto split: prod.split option.split)
    then have "e' = e" using g by (metis fst_conv option.inject)
    moreover have "inv p (cancel p t) s'" using group_inv [of p "cancel p t" "Some e'" xs] g by simp
    ultimately show ?thesis using fx Some inv_trans [OF cancel_inv] by (metis list.set_intros(1))
  qed
qed simp

lemma run_all_inv: "inv p s (run_all (step p) xs s)"
  by (induction xs arbitrary: s) (auto intro: inv_refl inv_trans step_inv)

end

end
