(* ===== verification/Gcx_Selectors.thy ===== *)
theory Gcx_Selectors
  imports Gcx_Prelude
begin

text \<open>
  The addressing vocabulary of \<^verbatim>\<open>internal/resources\<close>: group/version/kind records of the
  Kubernetes schema package, descriptors (\<^verbatim>\<open>descriptor.go\<close>), the canonicalisation of
  alternate API groups (\<^verbatim>\<open>gvk_normalize.go\<close>), command line selectors and their parser
  (\<^verbatim>\<open>selector.go\<close>) and resolved filters (\<^verbatim>\<open>filter.go\<close>). The lemmas show that
  parsing and printing of selectors are inverse to each other, which inputs are rejected, and
  that normalisation is insensitive to the alias used.
\<close>

section \<open>Group, version, kind\<close>

record group_version =
  gv_group :: string
  gv_version :: string

lemma group_version_eta [simp]:
  "\<lparr>gv_group = gv_group gv, gv_version = gv_version gv\<rparr> = (gv :: group_version)"
  by (cases gv) simp

record group_kind =
  gk_group :: string
  gk_kind :: string

record group_version_kind =
  gvk_group :: string
  gvk_version :: string
  gvk_kind :: string

section \<open>Descriptors\<close>

record descriptor =
  d_gv :: group_version
  d_kind :: string
  d_singular :: string
  d_plural :: string

definition Descriptor_GroupVersionKind :: "descriptor \<Rightarrow> group_version_kind" where
  "Descriptor_GroupVersionKind d =
     \<lparr>gvk_group = gv_group (d_gv d), gvk_version = gv_version (d_gv d), gvk_kind = d_kind d\<rparr>"

definition Descriptor_String :: "descriptor \<Rightarrow> string" where
  "Descriptor_String d =
     d_plural d @ ''.'' @ gv_version (d_gv d) @ ''.'' @ gv_group (d_gv d)"

text \<open>\<^verbatim>\<open>Sorted\<close>: a stable sort by group, version and kind.\<close>

definition Descriptors_Sorted :: "descriptor list \<Rightarrow> descriptor list" where
  "Descriptors_Sorted ds =
     sort_key (\<lambda>d. (gv_group (d_gv d), gv_version (d_gv d), d_kind d)) ds"

section \<open>Canonical groups\<close>

text \<open>
  The package variables of \<^verbatim>\<open>gvk_normalize.go\<close>: the registered normalizers (functions of
  providers, in registration order) and the alias map.
\<close>

record gvk_registry =
  gvkNormalizers :: "(group_version_kind \<Rightarrow> group_version_kind option) list"
  groupAliases :: "(group_version_kind \<times> group_version_kind) list"

definition empty_gvk_registry :: gvk_registry where
  "empty_gvk_registry = \<lparr>gvkNormalizers = [], groupAliases = []\<rparr>"

fun RegisterGroupAliases ::
    "group_version_kind \<Rightarrow> string list \<Rightarrow> gvk_registry \<Rightarrow> gvk_registry" where
  "RegisterGroupAliases canonical [] reg = reg"
| "RegisterGroupAliases canonical (grp # groups) reg =
     (let alias = canonical\<lparr>gvk_group := grp\<rparr>
      in RegisterGroupAliases canonical groups
           (reg\<lparr>groupAliases := AList.update alias canonical (groupAliases reg)\<rparr>))"

definition RegisterGVKNormalizer ::
    "(group_version_kind \<Rightarrow> group_version_kind option) \<Rightarrow> gvk_registry \<Rightarrow> gvk_registry" where
  "RegisterGVKNormalizer fn reg = reg\<lparr>gvkNormalizers := gvkNormalizers reg @ [fn]\<rparr>"

definition MatchesGroupAlias :: "gvk_registry \<Rightarrow> group_version_kind \<Rightarrow> string \<Rightarrow> bool" where
  "MatchesGroupAlias reg canonical grp \<longleftrightarrow>
     list_ex (\<lambda>(alias, target). target = canonical \<and>
        (grp = gvk_group alias \<or> grp = hd (go_splitn 2 (CHR ''.'') (gvk_group alias))))
       (groupAliases reg)"

definition normalizeGroupAlias :: "gvk_registry \<Rightarrow> group_version_kind \<Rightarrow> group_version_kind" where
  "normalizeGroupAlias reg gvk =
     (case map_of (groupAliases reg) gvk of Some target \<Rightarrow> target | None \<Rightarrow> gvk)"

definition NormalizeGVK :: "gvk_registry \<Rightarrow> group_version_kind \<Rightarrow> group_version_kind" where
  "NormalizeGVK reg gvk =
     (let target = normalizeGroupAlias reg gvk in
      if target \<noteq> gvk then target
      else (case first_some (\<lambda>fn. fn gvk) (gvkNormalizers reg) of
              Some canonical \<Rightarrow> canonical | None \<Rightarrow> gvk))"

definition Descriptor_Matches :: "gvk_registry \<Rightarrow> descriptor \<Rightarrow> group_version_kind \<Rightarrow> bool" where
  "Descriptor_Matches reg d gvk \<longleftrightarrow>
     NormalizeGVK reg (Descriptor_GroupVersionKind d) = NormalizeGVK reg gvk"

section \<open>Partial identifiers\<close>

record partial_gvk =
  p_group :: string
  p_version :: string
  p_resource :: string
  p_fallback :: string

definition PartialGVK_String :: "partial_gvk \<Rightarrow> string" where
  "PartialGVK_String g =
     p_resource g
       @ (if p_version g \<noteq> [] then ''.'' @ p_version g else [])
       @ (if p_group g \<noteq> [] then ''.'' @ p_group g else [])"

definition GroupOnlyCandidate :: "partial_gvk \<Rightarrow> string \<times> bool" where
  "GroupOnlyCandidate g = (p_fallback g, p_fallback g \<noteq> [])"

text \<open>
  \<^verbatim>\<open>PartialGVK.ParseString\<close>. The receiver is written only on success, so the result is
  the error or the written receiver.
\<close>

definition PartialGVK_ParseString :: "string \<Rightarrow> string + partial_gvk" where
  "PartialGVK_ParseString src =
     (case go_splitn 3 (CHR ''.'') src of
        [r] \<Rightarrow>
          if r = [] then Inl ''must specify API resource identifier''
          else Inr \<lparr>p_group = [], p_version = [], p_resource = r, p_fallback = []\<rparr>
      | [r, g] \<Rightarrow>
          if r = [] then Inl ''must specify API resource identifier''
          else if g = [] then Inl ''must specify API resource group''
          else Inr \<lparr>p_group = g, p_version = [], p_resource = r, p_fallback = []\<rparr>
      | [r, v, g] \<Rightarrow>
          if r = [] then Inl ''must specify API resource identifier''
          else if v = [] then Inl ''must specify API resource version''
          else if g = [] then Inl ''must specify API resource group''
          else Inr \<lparr>p_group = g, p_version = v, p_resource = r, p_fallback = v @ ''.'' @ g\<rparr>
      | _ \<Rightarrow> Inl ''invalid API resource identifier'')"

definition parseUIDs :: "string \<Rightarrow> string + string list" where
  "parseUIDs uids =
     (if uids = [] then Inl ''missing resource UID(s)''
      else (let res = go_split (CHR '','') uids in
            if [] \<in> set res then Inl ''missing resource UID'' else Inr res))"

section \<open>Selectors\<close>

datatype filter_type =
    FilterTypeUnknown | FilterTypeAll | FilterTypeMultiple | FilterTypeSingle

record selector =
  sel_type :: filter_type
  sel_gvk :: partial_gvk
  sel_uids :: "string list"

record selector_error =
  se_command :: string
  se_err :: string

definition IsNamedSelector :: "selector \<Rightarrow> bool" where
  "IsNamedSelector sel \<longleftrightarrow> length (sel_uids sel) \<noteq> 0"

definition Selector_String :: "selector \<Rightarrow> string" where
  "Selector_String sel =
     PartialGVK_String (sel_gvk sel)
       @ (if length (sel_uids sel) > 0 then ''/'' @ go_join '','' (sel_uids sel) else [])"

text \<open>
  \<^verbatim>\<open>Selector.ParseString\<close>, with the receiver it fills: \<^verbatim>\<open>ParseSelectors\<close> calls it on a
  zero selector and drops the receiver on an error.
\<close>

definition Selector_ParseString :: "string \<Rightarrow> selector_error + selector" where
  "Selector_ParseString src =
     (let err = (\<lambda>e. Inl \<lparr>se_command = src, se_err = e\<rparr>) in
      case go_split (CHR ''/'') src of
        [] \<Rightarrow> err ''missing resource type''
      | [t] \<Rightarrow>
          (case PartialGVK_ParseString t of
             Inl e \<Rightarrow> err e
           | Inr g \<Rightarrow> Inr \<lparr>sel_type = FilterTypeAll, sel_gvk = g, sel_uids = []\<rparr>)
      | [t, u] \<Rightarrow>
          if u = [] then err ''missing resource UID(s)''
          else (case PartialGVK_ParseString t of
             Inl e \<Rightarrow> err e
           | Inr g \<Rightarrow>
               (case parseUIDs u of
                  Inl e \<Rightarrow> err e
                | Inr uids \<Rightarrow>
                    Inr \<lparr>sel_type = (if length uids > 1 then FilterTypeMultiple else FilterTypeSingle),
                         sel_gvk = g, sel_uids = uids\<rparr>))
      | _ \<Rightarrow> err ''expected a resource type optionally followed by /UID or /UID,UID; too many slash-separated segments'')"

fun ParseSelectors :: "string list \<Rightarrow> selector_error + selector list" where
  "ParseSelectors [] = Inr []"
| "ParseSelectors (src # srcs) =
     (case Selector_ParseString src of
        Inl e \<Rightarrow> Inl e
      | Inr sel \<Rightarrow> (case ParseSelectors srcs of Inl e \<Rightarrow> Inl e | Inr sels \<Rightarrow> Inr (sel # sels)))"

definition HasNamedSelectorsOnly :: "selector list \<Rightarrow> bool" where
  "HasNamedSelectorsOnly s \<longleftrightarrow> (if length s = 0 then False else list_all IsNamedSelector s)"

definition IsSingleTarget :: "selector list \<Rightarrow> bool" where
  "IsSingleTarget s \<longleftrightarrow> (case s of [sel] \<Rightarrow> sel_type sel = FilterTypeSingle | _ \<Rightarrow> False)"

section \<open>Filters\<close>

record filter_rec =
  f_type :: filter_type
  f_desc :: descriptor
  f_uids :: "string list"

fun FilterType_String :: "filter_type \<Rightarrow> string" where
  "FilterType_String FilterTypeAll = ''GetAll''"
| "FilterType_String FilterTypeMultiple = ''GetMultiple''"
| "FilterType_String FilterTypeSingle = ''GetSingle''"
| "FilterType_String FilterTypeUnknown = ''Unknown''"

definition Filter_String :: "filter_rec \<Rightarrow> string" where
  "Filter_String f =
     FilterType_String (f_type f) @ '':'' @ Descriptor_String (f_desc f)
       @ (if length (f_uids f) > 0 then ''/'' @ go_join '','' (f_uids f) else [])"

text \<open>The two attributes of a resource that \<^verbatim>\<open>Filter.Matches\<close> reads are its arguments.\<close>

definition Filter_Matches ::
    "gvk_registry \<Rightarrow> filter_rec \<Rightarrow> group_version_kind \<Rightarrow> string \<Rightarrow> bool" where
  "Filter_Matches reg f gvk name \<longleftrightarrow>
     (if \<not> Descriptor_Matches reg (f_desc f) gvk then False
      else (case f_type f of
              FilterTypeAll \<Rightarrow> True
            | FilterTypeMultiple \<Rightarrow> name \<in> set (f_uids f)
            | FilterTypeSingle \<Rightarrow> name \<in> set (f_uids f)
            | FilterTypeUnknown \<Rightarrow> False))"

definition Filters_Matches ::
    "gvk_registry \<Rightarrow> filter_rec list \<Rightarrow> group_version_kind \<Rightarrow> string \<Rightarrow> bool" where
  "Filters_Matches reg fs gvk name \<longleftrightarrow>
     (if fs = [] then True else list_ex (\<lambda>f. Filter_Matches reg f gvk name) fs)"

section \<open>Parsing and printing\<close>

text \<open>
  The identifiers the parser can produce: \<open>partial_wf\<close> for a type, \<open>selector_wf\<close> for a whole
  selector. A dot may occur only in the group of a versioned identifier, a slash nowhere.
\<close>

definition partial_wf :: "partial_gvk \<Rightarrow> bool" where
  "partial_wf g \<longleftrightarrow>
     p_resource g \<noteq> [] \<and> CHR ''.'' \<notin> set (p_resource g) \<and>
     (if p_version g = [] then CHR ''.'' \<notin> set (p_group g) \<and> p_fallback g = []
      else CHR ''.'' \<notin> set (p_version g) \<and> p_group g \<noteq> [] \<and>
           p_fallback g = p_version g @ ''.'' @ p_group g)"

definition selector_wf :: "selector \<Rightarrow> bool" where
  "selector_wf sel \<longleftrightarrow>
     partial_wf (sel_gvk sel) \<and> CHR ''/'' \<notin> set (PartialGVK_String (sel_gvk sel)) \<and>
     (\<forall>u \<in> set (sel_uids sel). u \<noteq> [] \<and> CHR '','' \<notin> set u \<and> CHR ''/'' \<notin> set u) \<and>
     sel_type sel = (if sel_uids sel = [] then FilterTypeAll
       else if length (sel_uids sel) > 1 then FilterTypeMultiple else FilterTypeSingle)"

lemma go_splitn_3:
  "go_splitn 3 c s =
     (case go_cut c s of None \<Rightarrow> [s]
      | Some (a, b) \<Rightarrow> a # (case go_cut c b of None \<Rightarrow> [b] | Some (b1, b2) \<Rightarrow> [b1, b2]))"
  by (simp add: numeral_3_eq_3 split: option.splits)

lemma PartialGVK_ParseString_sound:
  assumes "PartialGVK_ParseString src = Inr g"
  shows "partial_wf g \<and> PartialGVK_String g = src"
proof (cases "go_cut (CHR ''.'') src")
  case None
  then have "go_splitn 3 (CHR ''.'') src = [src]" "CHR ''.'' \<notin> set src"
    by (simp_all add: go_splitn_3 go_cut_None go_cut_free)
  then show ?thesis using assms
    by (auto simp: PartialGVK_ParseString_def partial_wf_def PartialGVK_String_def split: if_splits)
next
  case (Some ab)
  then obtain a b where ab: "go_cut (CHR ''.'') src = Some (a, b)" by (cases ab) auto
  then have a: "src = a @ CHR ''.'' # b" "CHR ''.'' \<notin> set a" by (simp_all add: go_cut_Some)
  show ?thesis
  proof (cases "go_cut (CHR ''.'') b")
    case None
    then have "go_splitn 3 (CHR ''.'') src = [a, b]" "CHR ''.'' \<notin> set b"
      using ab by (auto simp: go_splitn_3 go_cut_None go_cut_free)
    then show ?thesis using assms a
      by (auto simp: PartialGVK_ParseString_def partial_wf_def PartialGVK_String_def split: if_splits)
  next
    case (Some cd)
    then obtain c d where cd: "go_cut (CHR ''.'') b = Some (c, d)" by (cases cd) auto
    then have "b = c @ CHR ''.'' # d" "CHR ''.'' \<notin> set c" by (simp_all add: go_cut_Some)
    moreover have "go_splitn 3 (CHR ''.'') src = [a, c, d]" using ab cd by (simp add: go_splitn_3)
    ultimately show ?thesis using assms a
      by (auto simp: PartialGVK_ParseString_def partial_wf_def PartialGVK_String_def split: if_splits)
  qed
qed

lemma PartialGVK_ParseString_complete:
  assumes "partial_wf g"
  shows "PartialGVK_ParseString (PartialGVK_String g) = Inr g"
proof -
  have eq: "g = \<lparr>p_group = p_group g, p_version = p_version g, p_resource = p_resource g,
      p_fallback = p_fallback g\<rparr>" by simp
  show ?thesis
  proof (cases "p_version g = []")
    case True
    then show ?thesis using assms
      by (cases "p_group g = []")
        (auto simp: PartialGVK_ParseString_def go_splitn_3 partial_wf_def PartialGVK_String_def
          go_cut_append go_cut_free)
  next
    case False
    then show ?thesis using assms
      by (auto simp: PartialGVK_ParseString_def go_splitn_3 partial_wf_def PartialGVK_String_def
          go_cut_append go_cut_free)
  qed
qed

lemma PartialGVK_parse_iff:
  "PartialGVK_ParseString src = Inr g \<longleftrightarrow> partial_wf g \<and> PartialGVK_String g = src"
  using PartialGVK_ParseString_sound PartialGVK_ParseString_complete by blast

lemma parseUIDs_iff:
  "parseUIDs u = Inr us \<longleftrightarrow>
     us \<noteq> [] \<and> (\<forall>x \<in> set us. x \<noteq> [] \<and> CHR '','' \<notin> set x) \<and> go_join '','' us = u"
  (is "?l \<longleftrightarrow> ?r")
proof
  assume ?l
  then have us: "us = go_split (CHR '','') u" "[] \<notin> set us"
    by (auto simp: parseUIDs_def Let_def split: if_splits)
  then show ?r by (auto simp: go_string dest: go_split_parts)
next
  assume r: ?r
  then have "go_split (CHR '','') u = us" by (metis go_split_join)
  moreover have "u \<noteq> []" using r by (auto simp: go_join_eq_Nil)
  ultimately show ?l using r by (auto simp: parseUIDs_def)
qed

lemma Selector_ParseString_sound:
  assumes "Selector_ParseString src = Inr sel"
  shows "selector_wf sel \<and> Selector_String sel = src"
proof -
  have src: "go_join ''/'' (go_split (CHR ''/'') src) = src" by (rule go_join_split)
  have parts: "\<forall>p \<in> set (go_split (CHR ''/'') src). CHR ''/'' \<notin> set p"
    by (auto dest: go_split_parts)
  consider t where "go_split (CHR ''/'') src = [t]"
    | t u where "go_split (CHR ''/'') src = [t, u]" "u \<noteq> []"
    using assms by (auto simp: Selector_ParseString_def Let_def split: list.splits if_splits)
  then show ?thesis
  proof cases
    case 1
    then show ?thesis using assms src parts
      by (auto simp: Selector_ParseString_def PartialGVK_parse_iff selector_wf_def
          Selector_String_def split: sum.splits)
  next
    case 2
    then obtain us g where g: "PartialGVK_ParseString t = Inr g" and us: "parseUIDs u = Inr us"
      and sel: "sel = \<lparr>sel_type = (if length us > 1 then FilterTypeMultiple else FilterTypeSingle),
        sel_gvk = g, sel_uids = us\<rparr>"
      using assms by (auto simp: Selector_ParseString_def Let_def split: sum.splits)
    have "\<forall>x \<in> set us. CHR ''/'' \<notin> set x"
      using us parts 2 set_go_join_mem by (auto simp: parseUIDs_iff)
    then show ?thesis using g us sel src parts 2
      by (auto simp: PartialGVK_parse_iff parseUIDs_iff selector_wf_def Selector_String_def)
  qed
qed

lemma Selector_ParseString_complete:
  assumes "selector_wf sel"
  shows "Selector_ParseString (Selector_String sel) = Inr sel"
proof -
  let ?t = "PartialGVK_String (sel_gvk sel)" and ?us = "sel_uids sel"
  have t: "PartialGVK_ParseString ?t = Inr (sel_gvk sel)" "CHR ''/'' \<notin> set ?t"
    using assms by (auto simp: selector_wf_def PartialGVK_ParseString_complete)
  show ?thesis
  proof (cases "?us = []")
    case True
    then show ?thesis using t assms
      by (auto simp: Selector_ParseString_def Selector_String_def go_split_free selector_wf_def)
  next
    case False
    then have u: "parseUIDs (go_join '','' ?us) = Inr ?us" "go_join '','' ?us \<noteq> []"
      using assms by (auto simp: parseUIDs_iff selector_wf_def go_join_eq_Nil)
    have "CHR ''/'' \<notin> set (go_join '','' ?us)"
      using assms by (intro go_join_free) (auto simp: selector_wf_def)
    then have "go_split (CHR ''/'') (Selector_String sel) = [?t, go_join '','' ?us]"
      using t False by (simp add: Selector_String_def go_split_append go_split_free)
    then show ?thesis using t u False assms
      by (auto simp: Selector_ParseString_def selector_wf_def)
  qed
qed

text \<open>C1. The selector parser and printer are inverse: a string parses to a selector exactly when
  that selector is well formed and prints back to the very same string. So every accepted selector
  is printed as it was typed, distinct selectors print differently, and everything that is not the
  print of a well formed selector is rejected.\<close>

theorem Selector_parse_iff:
  "Selector_ParseString src = Inr sel \<longleftrightarrow> selector_wf sel \<and> Selector_String sel = src"
  using Selector_ParseString_sound Selector_ParseString_complete by blast

section \<open>Group aliases\<close>

lemma alias_eq_iff:
  "(x :: group_version_kind) = c\<lparr>gvk_group := g\<rparr> \<longleftrightarrow>
     gvk_group x = g \<and> gvk_version x = gvk_version c \<and> gvk_kind x = gvk_kind c"
  by (cases x; cases c) auto

lemma map_of_RegisterGroupAliases:
  "map_of (groupAliases (RegisterGroupAliases c gs reg)) x =
     (if gvk_version x = gvk_version c \<and> gvk_kind x = gvk_kind c \<and> gvk_group x \<in> set gs
      then Some c else map_of (groupAliases reg) x)"
proof (induction gs arbitrary: reg)
  case (Cons g gs)
  show ?case
    by (auto simp: Cons.IH go_map alias_eq_iff Let_def fun_upd_apply)
qed simp

lemma gvkNormalizers_RegisterGroupAliases [simp]:
  "gvkNormalizers (RegisterGroupAliases c gs reg) = gvkNormalizers reg"
  by (induction gs arbitrary: reg) (auto simp: Let_def)

lemma normalizeGroupAlias_RegisterGroupAliases:
  "normalizeGroupAlias (RegisterGroupAliases c gs reg) x =
     (if gvk_version x = gvk_version c \<and> gvk_kind x = gvk_kind c \<and> gvk_group x \<in> set gs
      then c else normalizeGroupAlias reg x)"
  by (simp add: normalizeGroupAlias_def map_of_RegisterGroupAliases)

text \<open>Registering group aliases for a canonical identifier changes the normalisation of exactly
  the identifiers with one of these groups and the canonical version and kind: each other one of
  them is mapped to the canonical identifier, which itself still passes through the normalizers, and
  every identifier of another group, version or kind is normalised as before.\<close>

theorem NormalizeGVK_RegisterGroupAliases:
  "NormalizeGVK (RegisterGroupAliases c gs reg) x =
     (if gvk_version x = gvk_version c \<and> gvk_kind x = gvk_kind c \<and> gvk_group x \<in> set gs
      then (if x = c
            then (case first_some (\<lambda>fn. fn c) (gvkNormalizers reg) of Some k \<Rightarrow> k | None \<Rightarrow> c)
            else c)
      else NormalizeGVK reg x)"
proof (cases "gvk_version x = gvk_version c \<and> gvk_kind x = gvk_kind c \<and> gvk_group x \<in> set gs")
  case True
  then have n: "normalizeGroupAlias (RegisterGroupAliases c gs reg) x = c"
    by (simp add: normalizeGroupAlias_RegisterGroupAliases)
  show ?thesis
  proof (cases "x = c")
    case eq: True
    have "NormalizeGVK (RegisterGroupAliases c gs reg) c =
        (case first_some (\<lambda>fn. fn c) (gvkNormalizers reg) of Some k \<Rightarrow> k | None \<Rightarrow> c)"
      using n unfolding eq by (simp add: NormalizeGVK_def)
    then show ?thesis using True unfolding eq by simp
  next
    case False
    then have "NormalizeGVK (RegisterGroupAliases c gs reg) x = c"
      using n by (simp add: NormalizeGVK_def Let_def)
    then show ?thesis using True False by simp
  qed
next
  case False
  then show ?thesis
    by (simp only: NormalizeGVK_def normalizeGroupAlias_RegisterGroupAliases if_False
        gvkNormalizers_RegisterGroupAliases)
qed

end
