(* ===== verification/Gcx_Discovery.thy ===== *)
theory Gcx_Discovery
  imports Gcx_Selectors
begin

text \<open>
  The discovery index of \<^verbatim>\<open>internal/resources/discovery/registry_index.go\<close>: its eight maps,
  static registration, the two-pass update from a server answer and the lookups of partial
  identifiers. Loops over a map or a set take a schedule (see \<^verbatim>\<open>Gcx_Prelude\<close>). The
  invariant \<open>index_inv\<close> ties the maps of groups and names to the descriptor map; the lemmas show that every
  operation keeps it, that lookups only return supported descriptors and that a registered kind
  is found again. The read-write lock of the index makes every operation atomic.
\<close>

section \<open>The index\<close>

record registry_index =
  shortGroups :: "(string \<times> string) list"
  longGroups :: "string list"
  preferredVersions :: "(string \<times> group_version) list"
  staticFallbacks :: "(group_kind \<times> descriptor) list"
  descriptors :: "(group_version \<times> descriptor list) list"
  singularNames :: "(string \<times> group_kind list) list"
  pluralNames :: "(string \<times> group_kind list) list"
  kindNames :: "(string \<times> group_kind list) list"

definition NewRegistryIndex :: registry_index where
  "NewRegistryIndex =
     \<lparr>shortGroups = [], longGroups = [], preferredVersions = [], staticFallbacks = [],
      descriptors = [], singularNames = [], pluralNames = [], kindNames = []\<rparr>"

definition makeShortName :: "string \<Rightarrow> string" where
  "makeShortName name = hd (go_split (CHR ''.'') name)"

definition descriptor_gk :: "descriptor \<Rightarrow> group_kind" where
  "descriptor_gk d = \<lparr>gk_group = gv_group (d_gv d), gk_kind = d_kind d\<rparr>"

definition GetDescriptors :: "nat list \<Rightarrow> registry_index \<Rightarrow> descriptor list" where
  "GetDescriptors cs r = concat (map snd (go_range cs (descriptors r)))"

definition GetPreferredVersions :: "nat list \<Rightarrow> nat list \<Rightarrow> registry_index \<Rightarrow> descriptor list" where
  "GetPreferredVersions cs cs' r =
     (let res = concat (map (\<lambda>(g, gv).
                  case map_of (descriptors r) gv of None \<Rightarrow> [] | Some desc \<Rightarrow> desc)
                (go_range cs (preferredVersions r)));
          seen = map descriptor_gk res
      in res @ concat (map (\<lambda>(gk, desc). if gk \<in> set seen then [] else [desc])
                (go_range cs' (staticFallbacks r))))"

text \<open>\<^verbatim>\<open>RegisterStatic\<close>; \<open>register_aliases\<close> is its last loop.\<close>

fun register_aliases ::
    "descriptor \<Rightarrow> string list \<Rightarrow> (string \<times> group_kind list) list \<Rightarrow> (string \<times> group_kind list) list" where
  "register_aliases desc [] m = m"
| "register_aliases desc (alias # aliases) m =
     (if alias = d_singular desc \<or> alias = d_plural desc \<or> alias = d_kind desc
      then register_aliases desc aliases m
      else register_aliases desc aliases (append_to alias (descriptor_gk desc) m))"

definition RegisterStatic :: "descriptor \<Rightarrow> string list \<Rightarrow> registry_index \<Rightarrow> registry_index" where
  "RegisterStatic desc aliases r =
     (let gv = d_gv desc; gk = descriptor_gk desc in
      \<lparr>shortGroups = AList.update (makeShortName (gv_group gv)) (gv_group gv) (shortGroups r),
       longGroups = List.insert (gv_group gv) (longGroups r),
       preferredVersions =
         (if map_of (preferredVersions r) (gv_group gv) = None
          then AList.update (gv_group gv) gv (preferredVersions r) else preferredVersions r),
       staticFallbacks =
         (if map_of (staticFallbacks r) gk = None
          then AList.update gk desc (staticFallbacks r) else staticFallbacks r),
       descriptors = append_to gv desc (descriptors r),
       singularNames =
         register_aliases desc aliases
           (if d_singular desc \<noteq> [] then append_to (d_singular desc) gk (singularNames r)
            else singularNames r),
       pluralNames =
         (if d_plural desc \<noteq> [] then append_to (d_plural desc) gk (pluralNames r)
          else pluralNames r),
       kindNames = append_to (d_kind desc) gk (kindNames r)\<rparr>)"

section \<open>Update from a server answer\<close>

text \<open>The part of \<^verbatim>\<open>metav1.APIGroup\<close>, \<^verbatim>\<open>metav1.APIResourceList\<close> and
  \<^verbatim>\<open>metav1.APIResource\<close> the code reads.\<close>

record api_group =
  ag_name :: string
  ag_preferred :: string
  ag_versions :: "string list"

record api_resource =
  ar_name :: string
  ar_singular :: string
  ar_kind :: string
  ar_group :: string
  ar_version :: string
  ar_namespaced :: bool

record api_resource_list =
  al_groupVersion :: string
  al_resources :: "api_resource list"

datatype discovery_error =
    InvalidGroupVersion string
  | DuplicateGroupVersion group_version
  | ResourceNotListed group_version

definition parseGroupVersion :: "string \<Rightarrow> discovery_error + group_version" where
  "parseGroupVersion src =
     (case go_split (CHR ''/'') src of
        [g, v] \<Rightarrow>
          if g = [] then Inl (InvalidGroupVersion src)
          else if v = [] then Inl (InvalidGroupVersion src)
          else Inr \<lparr>gv_group = g, gv_version = v\<rparr>
      | _ \<Rightarrow> Inl (InvalidGroupVersion src))"

fun update_versions ::
    "string \<Rightarrow> string list \<Rightarrow> (group_version \<times> descriptor list) list
      \<Rightarrow> discovery_error + (group_version \<times> descriptor list) list" where
  "update_versions name [] descs = Inr descs"
| "update_versions name (v # vs) descs =
     (let gv = \<lparr>gv_group = name, gv_version = v\<rparr> in
      if map_of descs gv \<noteq> None then Inl (DuplicateGroupVersion gv)
      else update_versions name vs (AList.update gv [] descs))"

text \<open>The first pass, over the groups; the index under construction starts empty.\<close>

fun update_groups :: "api_group list \<Rightarrow> registry_index \<Rightarrow> discovery_error + registry_index" where
  "update_groups [] r = Inr r"
| "update_groups (grp # grps) r =
     (let name = ag_name grp in
      case update_versions name (ag_versions grp) (descriptors r) of
        Inl e \<Rightarrow> Inl e
      | Inr descs \<Rightarrow>
          update_groups grps
            (r\<lparr>longGroups := List.insert name (longGroups r),
               shortGroups := AList.update (makeShortName name) name (shortGroups r),
               preferredVersions :=
                 (if ag_preferred grp \<noteq> []
                  then AList.update name \<lparr>gv_group = name, gv_version = ag_preferred grp\<rparr>
                         (preferredVersions r)
                  else preferredVersions r),
               descriptors := descs\<rparr>))"

text \<open>The body of the second pass, for one resource of a list.\<close>

definition update_resource ::
    "string \<Rightarrow> api_resource \<Rightarrow> registry_index \<Rightarrow> discovery_error + registry_index" where
  "update_resource listGV res r =
     (case parseGroupVersion listGV of
        Inl e \<Rightarrow> Inl e
      | Inr gv0 \<Rightarrow>
          (let gv = \<lparr>gv_group = (if ar_group res \<noteq> [] then ar_group res else gv_group gv0),
                     gv_version = (if ar_version res \<noteq> [] then ar_version res else gv_version gv0)\<rparr>
           in case map_of (descriptors r) gv of
                None \<Rightarrow> Inl (ResourceNotListed gv)
              | Some desc \<Rightarrow>
                  (let d = \<lparr>d_gv = gv, d_kind = ar_kind res, d_singular = ar_singular res,
                            d_plural = ar_name res\<rparr>;
                       gk = \<lparr>gk_group = gv_group gv, gk_kind = ar_kind res\<rparr>
                   in Inr (r\<lparr>descriptors := AList.update gv (desc @ [d]) (descriptors r),
                             kindNames := append_to (ar_kind res) gk (kindNames r),
                             singularNames := append_to (ar_singular res) gk (singularNames r),
                             pluralNames := append_to (ar_name res) gk (pluralNames r)\<rparr>))))"

fun update_resources ::
    "string \<Rightarrow> api_resource list \<Rightarrow> registry_index \<Rightarrow> discovery_error + registry_index" where
  "update_resources listGV [] r = Inr r"
| "update_resources listGV (res # ress) r =
     (case update_resource listGV res r of
        Inl e \<Rightarrow> Inl e | Inr r' \<Rightarrow> update_resources listGV ress r')"

fun update_lists :: "api_resource_list list \<Rightarrow> registry_index \<Rightarrow> discovery_error + registry_index" where
  "update_lists [] r = Inr r"
| "update_lists (l # ls) r =
     (case update_resources (al_groupVersion l) (al_resources l) r of
        Inl e \<Rightarrow> Inl e | Inr r' \<Rightarrow> update_lists ls r')"

text \<open>\<^verbatim>\<open>Update\<close>: the new maps are built aside and swapped in on success, the static fallbacks
  are emptied; on an error the index stays as it was.\<close>

definition Update ::
    "api_group list \<Rightarrow> api_resource_list list \<Rightarrow> registry_index
      \<Rightarrow> discovery_error option \<times> registry_index" where
  "Update groups apiLists r =
     (case update_groups groups NewRegistryIndex of
        Inl e \<Rightarrow> (Some e, r)
      | Inr r1 \<Rightarrow> (case update_lists apiLists r1 of Inl e \<Rightarrow> (Some e, r) | Inr r2 \<Rightarrow> (None, r2)))"

section \<open>Lookups\<close>

definition getKindCandidates :: "registry_index \<Rightarrow> string \<Rightarrow> group_kind list" where
  "getKindCandidates r resource =
     dedup_seen [] (bucket (kindNames r) resource @ bucket (singularNames r) resource
       @ bucket (pluralNames r) resource)"

definition resolveDescriptor :: "registry_index \<Rightarrow> group_kind \<Rightarrow> string \<Rightarrow> descriptor option" where
  "resolveDescriptor r gk version =
     (let at = (\<lambda>v. find (\<lambda>desc. d_kind desc = gk_kind gk)
                 (bucket (descriptors r) \<lparr>gv_group = gk_group gk, gv_version = v\<rparr>))
      in if version = []
         then (case map_of (preferredVersions r) (gk_group gk) of
                 None \<Rightarrow> None
               | Some gv \<Rightarrow>
                   (case at (gv_version gv) of
                      Some desc \<Rightarrow> Some desc | None \<Rightarrow> map_of (staticFallbacks r) gk))
         else at version)"

text \<open>\<^verbatim>\<open>filterCandidates\<close>: the group as resolved by the two tests at its head, then its
  loop for a given group.\<close>

definition resolved_group :: "registry_index \<Rightarrow> string \<Rightarrow> string" where
  "resolved_group r grp =
     (if grp \<in> set (longGroups r) then grp
      else (case map_of (shortGroups r) grp of Some g \<Rightarrow> g | None \<Rightarrow> []))"

fun filter_group ::
    "gvk_registry \<Rightarrow> registry_index \<Rightarrow> string \<Rightarrow> string \<Rightarrow> string \<Rightarrow> group_kind list
      \<Rightarrow> descriptor option" where
  "filter_group reg r resolved grp version [] = None"
| "filter_group reg r resolved grp version (gk # gks) =
     (if resolved \<noteq> [] \<and> gk_group gk = resolved then resolveDescriptor r gk version
      else (case resolveDescriptor r gk version of
              Some desc \<Rightarrow>
                if MatchesGroupAlias reg (Descriptor_GroupVersionKind desc) grp then Some desc
                else filter_group reg r resolved grp version gks
            | None \<Rightarrow> filter_group reg r resolved grp version gks))"

definition filterCandidates ::
    "gvk_registry \<Rightarrow> registry_index \<Rightarrow> group_kind list \<Rightarrow> string \<Rightarrow> string \<Rightarrow> descriptor option" where
  "filterCandidates reg r cands grp version =
     (if grp \<noteq> [] then filter_group reg r (resolved_group r grp) grp version cands
      else first_some (\<lambda>gk. resolveDescriptor r gk version) cands)"

definition LookupPartialGVK ::
    "gvk_registry \<Rightarrow> registry_index \<Rightarrow> partial_gvk \<Rightarrow> descriptor option" where
  "LookupPartialGVK reg r gvk =
     (let cands = getKindCandidates r (p_resource gvk) in
      if cands = [] then None
      else (case filterCandidates reg r cands (p_group gvk) (p_version gvk) of
              Some desc \<Rightarrow> Some desc
            | None \<Rightarrow>
                (let (groupOnly, ok) = GroupOnlyCandidate gvk in
                 if ok then filterCandidates reg r cands groupOnly [] else None)))"

fun preferred_per_group :: "registry_index \<Rightarrow> string list \<Rightarrow> group_kind list \<Rightarrow> descriptor list" where
  "preferred_per_group r seen [] = []"
| "preferred_per_group r seen (gk # gks) =
     (if gk_group gk \<in> set seen then preferred_per_group r seen gks
      else (case resolveDescriptor r gk [] of
              Some desc \<Rightarrow> desc # preferred_per_group r (gk_group gk # seen) gks
            | None \<Rightarrow> preferred_per_group r (gk_group gk # seen) gks))"

text \<open>A Go result pair of a slice and a success flag is an option; a slice in \<open>Some\<close> is not
  empty.\<close>

definition LookupPreferredPerGroup ::
    "gvk_registry \<Rightarrow> registry_index \<Rightarrow> partial_gvk \<Rightarrow> descriptor list option" where
  "LookupPreferredPerGroup reg r gvk =
     (if p_group gvk \<noteq> [] \<or> p_version gvk \<noteq> []
      then map_option (\<lambda>desc. [desc]) (LookupPartialGVK reg r gvk)
      else (let cands = getKindCandidates r (p_resource gvk) in
            if cands = [] then None
            else (let result = preferred_per_group r [] cands in
                  if length result = 0 then None else Some result)))"

text \<open>\<^verbatim>\<open>filterAllCandidates\<close>. The schedules order the set of target groups and, for each
  target group, the descriptor map.\<close>

definition target_groups ::
    "nat list \<Rightarrow> registry_index \<Rightarrow> group_kind list \<Rightarrow> string \<Rightarrow> string list \<times> bool" where
  "target_groups cs r cands grp =
     (let known = (if grp \<noteq> []
                   then (case map_of (shortGroups r) grp of
                           Some g \<Rightarrow> [g]
                         | None \<Rightarrow> if grp \<in> set (longGroups r) then [grp] else [])
                   else [])
      in if known \<noteq> [] then (known, True)
         else (go_range cs (remdups (map gk_group cands)), False))"

definition version_of_entry ::
    "gvk_registry \<Rightarrow> string \<Rightarrow> bool \<Rightarrow> string \<Rightarrow> string \<Rightarrow> group_version \<times> descriptor list
      \<Rightarrow> descriptor option" where
  "version_of_entry reg grp knownGroup kind target e =
     (if gv_group (fst e) \<noteq> target then None
      else find (\<lambda>desc. d_kind desc = kind \<and>
             (grp = [] \<or> knownGroup \<or>
              MatchesGroupAlias reg (Descriptor_GroupVersionKind desc) grp)) (snd e))"

definition versions_of_group ::
    "gvk_registry \<Rightarrow> nat list \<Rightarrow> registry_index \<Rightarrow> group_kind list \<Rightarrow> string \<Rightarrow> bool \<Rightarrow> string
      \<Rightarrow> descriptor list" where
  "versions_of_group reg cs r cands grp knownGroup target =
     (case find (\<lambda>gk. gk_group gk = target) cands of
        None \<Rightarrow> []
      | Some gk \<Rightarrow>
          if gk_kind gk = [] then []
          else collect_some (version_of_entry reg grp knownGroup (gk_kind gk) target)
                 (go_range cs (descriptors r)))"

definition filterAllCandidates ::
    "gvk_registry \<Rightarrow> nat list \<Rightarrow> (string \<Rightarrow> nat list) \<Rightarrow> registry_index \<Rightarrow> group_kind list
      \<Rightarrow> string \<Rightarrow> string \<Rightarrow> descriptor list option" where
  "filterAllCandidates reg cs dcs r cands grp version =
     (if version \<noteq> []
      then map_option (\<lambda>desc. [desc]) (filterCandidates reg r cands grp version)
      else (let (targets, knownGroup) = target_groups cs r cands grp;
                result = concat (map (\<lambda>t. versions_of_group reg (dcs t) r cands grp knownGroup t) targets)
            in if length result = 0 then None else Some result))"

definition LookupAllVersionsForPartialGVK ::
    "gvk_registry \<Rightarrow> nat list \<Rightarrow> (string \<Rightarrow> nat list) \<Rightarrow> registry_index \<Rightarrow> partial_gvk
      \<Rightarrow> descriptor list option" where
  "LookupAllVersionsForPartialGVK reg cs dcs r gvk =
     (let cands = getKindCandidates r (p_resource gvk) in
      if cands = [] then None
      else (case filterAllCandidates reg cs dcs r cands (p_group gvk) (p_version gvk) of
              Some descs \<Rightarrow> Some descs
            | None \<Rightarrow>
                (let (groupOnly, ok) = GroupOnlyCandidate gvk in
                 if ok then filterAllCandidates reg cs dcs r cands groupOnly [] else None)))"

section \<open>The invariant\<close>

definition supported :: "registry_index \<Rightarrow> descriptor \<Rightarrow> bool" where
  "supported r d \<longleftrightarrow> d \<in> set (bucket (descriptors r) (d_gv d))"

definition descriptors_ok :: "registry_index \<Rightarrow> bool" where
  "descriptors_ok r \<longleftrightarrow>
     distinct (map fst (descriptors r)) \<and>
     (\<forall>gv. \<forall>d \<in> set (bucket (descriptors r) gv). d_gv d = gv) \<and>
     (\<forall>gv \<in> keys_of (descriptors r). gv_group gv \<in> set (longGroups r))"

definition groups_ok :: "registry_index \<Rightarrow> bool" where
  "groups_ok r \<longleftrightarrow>
     (\<forall>g gv. map_of (preferredVersions r) g = Some gv \<longrightarrow> gv_group gv = g) \<and>
     (\<forall>gk d. map_of (staticFallbacks r) gk = Some d \<longrightarrow> descriptor_gk d = gk \<and> supported r d)"

definition names_ok :: "registry_index \<Rightarrow> bool" where
  "names_ok r \<longleftrightarrow>
     (\<forall>n gk. gk \<in> set (bucket (kindNames r) n @ bucket (singularNames r) n @ bucket (pluralNames r) n)
        \<longrightarrow> (\<exists>d. supported r d \<and> descriptor_gk d = gk)) \<and>
     (\<forall>n. \<forall>gk \<in> set (bucket (kindNames r) n). gk_kind gk = n) \<and>
     (\<forall>d. supported r d \<longrightarrow> descriptor_gk d \<in> set (bucket (kindNames r) (d_kind d)))"

text \<open>A short name leads to a known group of this short name, every known group has one, and preferred versions are
  those of known groups.\<close>

definition short_ok :: "registry_index \<Rightarrow> bool" where
  "short_ok r \<longleftrightarrow>
     (\<forall>s g. map_of (shortGroups r) s = Some g \<longrightarrow> makeShortName g = s \<and> g \<in> set (longGroups r)) \<and>
     (\<forall>g \<in> set (longGroups r). map_of (shortGroups r) (makeShortName g) \<noteq> None) \<and>
     keys_of (preferredVersions r) \<subseteq> set (longGroups r)"

text \<open>A supported descriptor is found under its singular and its plural name, and what is found under a plural name
  has this plural name (the singular names also hold aliases).\<close>

definition words_ok :: "registry_index \<Rightarrow> bool" where
  "words_ok r \<longleftrightarrow>
     (\<forall>d. supported r d \<longrightarrow>
        (d_singular d = [] \<or> descriptor_gk d \<in> set (bucket (singularNames r) (d_singular d))) \<and>
        (d_plural d = [] \<or> descriptor_gk d \<in> set (bucket (pluralNames r) (d_plural d)))) \<and>
     (\<forall>n. \<forall>gk \<in> set (bucket (pluralNames r) n). \<exists>d. supported r d \<and> descriptor_gk d = gk \<and> d_plural d = n)"

definition index_inv :: "registry_index \<Rightarrow> bool" where
  "index_inv r \<longleftrightarrow> descriptors_ok r \<and> groups_ok r \<and> names_ok r \<and> short_ok r \<and> words_ok r"

lemma set_GetDescriptors:
  assumes "descriptors_ok r"
  shows "set (GetDescriptors cs r) = {d. supported r d}"
proof -
  have dk: "distinct (map fst (descriptors r))" using assms by (simp add: descriptors_ok_def)
  have "d \<in> set (GetDescriptors cs r) \<longleftrightarrow> (\<exists>gv. d \<in> set (bucket (descriptors r) gv))" for d
    by (simp add: GetDescriptors_def in_bucket_iff [OF dk]) force
  then show ?thesis using assms by (auto simp: supported_def descriptors_ok_def)
qed

lemma NewRegistryIndex_inv: "index_inv NewRegistryIndex"
  by (simp add: index_inv_def descriptors_ok_def groups_ok_def names_ok_def short_ok_def words_ok_def NewRegistryIndex_def
      supported_def)

subsection \<open>Static registration\<close>

lemma bucket_register_aliases:
  "set (bucket (register_aliases d als m) n) \<subseteq> insert (descriptor_gk d) (set (bucket m n))"
proof (induction d als m rule: register_aliases.induct)
  case (2 desc al als m)
  then show ?case by (auto simp: go_map split: if_splits)
qed auto

lemma supported_RegisterStatic:
  "supported (RegisterStatic d als r) d' \<longleftrightarrow> supported r d' \<or> d' = d"
  by (auto simp: supported_def RegisterStatic_def Let_def go_map)

lemma RegisterStatic_descriptors_ok: "descriptors_ok r \<Longrightarrow> descriptors_ok (RegisterStatic d als r)"
  by (auto simp: descriptors_ok_def RegisterStatic_def Let_def go_map distinct_update
      append_to_def split: if_splits)

lemma RegisterStatic_groups_ok:
  assumes "groups_ok r"
  shows "groups_ok (RegisterStatic d als r)"
proof -
  have "map_of (preferredVersions (RegisterStatic d als r)) g = Some gv \<Longrightarrow> gv_group gv = g" for g gv
    using assms by (auto simp: groups_ok_def RegisterStatic_def Let_def go_map split: if_splits)
  moreover have "descriptor_gk d' = gk \<and> supported (RegisterStatic d als r) d'"
    if "map_of (staticFallbacks (RegisterStatic d als r)) gk = Some d'" for gk d'
    using assms that unfolding supported_RegisterStatic
    by (auto simp: groups_ok_def RegisterStatic_def Let_def go_map split: if_splits)
  ultimately show ?thesis by (simp add: groups_ok_def)
qed

lemma RegisterStatic_names:
  "gk \<in> set (bucket (kindNames (RegisterStatic d als r)) n @ bucket (singularNames (RegisterStatic d als r)) n
       @ bucket (pluralNames (RegisterStatic d als r)) n) \<Longrightarrow>
   gk = descriptor_gk d \<or>
   gk \<in> set (bucket (kindNames r) n @ bucket (singularNames r) n @ bucket (pluralNames r) n)"
  using bucket_register_aliases [of d als _ n]
  by (fastforce simp: RegisterStatic_def Let_def go_map split: if_splits)

lemma kindNames_RegisterStatic:
  "bucket (kindNames (RegisterStatic d als r)) n =
     (if n = d_kind d then bucket (kindNames r) n @ [descriptor_gk d] else bucket (kindNames r) n)"
  by (simp add: RegisterStatic_def Let_def go_map)

lemma RegisterStatic_names_ok:
  assumes "names_ok r"
  shows "names_ok (RegisterStatic d als r)"
proof -
  have k: "gk_kind (descriptor_gk d) = d_kind d" by (simp add: descriptor_gk_def)
  show ?thesis
    unfolding names_ok_def supported_RegisterStatic
  proof (intro conjI allI impI ballI)
    fix n gk
    assume "gk \<in> set (bucket (kindNames (RegisterStatic d als r)) n
        @ bucket (singularNames (RegisterStatic d als r)) n
        @ bucket (pluralNames (RegisterStatic d als r)) n)"
    then show "\<exists>d'. (supported r d' \<or> d' = d) \<and> descriptor_gk d' = gk"
      using RegisterStatic_names assms unfolding names_ok_def by blast
  next
    fix n gk
    assume "gk \<in> set (bucket (kindNames (RegisterStatic d als r)) n)"
    then show "gk_kind gk = n"
      using assms k by (auto simp: kindNames_RegisterStatic names_ok_def split: if_splits)
  next
    fix d'
    assume "supported r d' \<or> d' = d"
    then show "descriptor_gk d' \<in> set (bucket (kindNames (RegisterStatic d als r)) (d_kind d'))"
      using assms by (auto simp: kindNames_RegisterStatic names_ok_def)
  qed
qed

lemma RegisterStatic_short_ok: "short_ok r \<Longrightarrow> short_ok (RegisterStatic d als r)"
  by (auto simp: short_ok_def RegisterStatic_def Let_def go_map split: if_splits)

lemma register_aliases_keeps: "gk \<in> set (bucket m n) \<Longrightarrow> gk \<in> set (bucket (register_aliases d als m) n)"
proof (induction d als m rule: register_aliases.induct)
  case (2 desc al als m)
  then show ?case by (cases "n = al") (simp_all add: go_map)
qed simp

lemma RegisterStatic_words_ok:
  assumes "words_ok r"
  shows "words_ok (RegisterStatic d als r)"
  unfolding words_ok_def supported_RegisterStatic
proof (intro conjI allI impI ballI)
  fix d'
  assume d': "supported r d' \<or> d' = d"
  then have old: "d' = d \<or> (d_singular d' = [] \<or> descriptor_gk d' \<in> set (bucket (singularNames r) (d_singular d'))) \<and>
      (d_plural d' = [] \<or> descriptor_gk d' \<in> set (bucket (pluralNames r) (d_plural d')))"
    using assms unfolding words_ok_def by blast
  then have "d_singular d' = [] \<or> descriptor_gk d' \<in> set (bucket
      (if d_singular d \<noteq> [] then append_to (d_singular d) (descriptor_gk d) (singularNames r) else singularNames r) (d_singular d'))"
    by (auto simp: go_map)
  then show "d_singular d' = [] \<or> descriptor_gk d' \<in> set (bucket (singularNames (RegisterStatic d als r)) (d_singular d'))"
    using register_aliases_keeps by (simp only: RegisterStatic_def Let_def registry_index.simps) blast
  show "d_plural d' = [] \<or> descriptor_gk d' \<in> set (bucket (pluralNames (RegisterStatic d als r)) (d_plural d'))"
    using old by (auto simp: RegisterStatic_def Let_def go_map)
next
  fix n gk
  assume "gk \<in> set (bucket (pluralNames (RegisterStatic d als r)) n)"
  then have "gk \<in> set (bucket (pluralNames r) n) \<or> gk = descriptor_gk d \<and> n = d_plural d"
    by (auto simp: RegisterStatic_def Let_def go_map split: if_splits)
  then show "\<exists>d'. (supported r d' \<or> d' = d) \<and> descriptor_gk d' = gk \<and> d_plural d' = n"
    using assms unfolding words_ok_def by blast
qed

lemma RegisterStatic_inv: "index_inv r \<Longrightarrow> index_inv (RegisterStatic d als r)"
  by (simp add: index_inv_def RegisterStatic_descriptors_ok RegisterStatic_groups_ok
      RegisterStatic_names_ok RegisterStatic_short_ok RegisterStatic_words_ok)

subsection \<open>Update\<close>

text \<open>The index under construction: no descriptor yet (\<open>blank\<close>), or the invariant without static
  fallbacks.\<close>

definition blank :: "registry_index \<Rightarrow> bool" where
  "blank r \<longleftrightarrow>
     descriptors_ok r \<and> short_ok r \<and> (\<forall>gv. bucket (descriptors r) gv = []) \<and>
     (\<forall>g gv. map_of (preferredVersions r) g = Some gv \<longrightarrow> gv_group gv = g) \<and>
     staticFallbacks r = [] \<and> kindNames r = [] \<and> singularNames r = [] \<and> pluralNames r = []"

lemma blank_inv: "blank r \<Longrightarrow> index_inv r"
  by (simp add: blank_def index_inv_def groups_ok_def names_ok_def words_ok_def supported_def)

lemma update_versions_ok:
  assumes "update_versions name vs ds = Inr ds'" "distinct (map fst ds)"
    "\<And>gv. bucket ds gv = []"
  shows "distinct (map fst ds') \<and> (\<forall>gv. bucket ds' gv = []) \<and>
    (\<forall>gv \<in> keys_of ds'. gv \<in> keys_of ds \<or> gv_group gv = name)"
  using assms
proof (induction name vs ds rule: update_versions.induct)
  case (2 name v vs ds)
  let ?gv = "\<lparr>gv_group = name, gv_version = v\<rparr>"
  from "2.prems"(1) have none: "map_of ds ?gv = None"
    and rest: "update_versions name vs (AList.update ?gv [] ds) = Inr ds'"
    by (auto simp: Let_def split: if_splits)
  have "distinct (map fst ds') \<and> (\<forall>gv. bucket ds' gv = []) \<and>
      (\<forall>gv \<in> keys_of ds'. gv \<in> keys_of (AList.update ?gv [] ds) \<or> gv_group gv = name)"
    using "2.IH" [OF refl _ rest] none "2.prems"(2,3) by (simp add: distinct_update go_map)
  then show ?case by (auto simp: go_map)
qed simp

lemma update_groups_blank: "update_groups gs r = Inr r' \<Longrightarrow> blank r \<Longrightarrow> blank r'"
proof (induction gs r rule: update_groups.induct)
  case (2 g gs r)
  from "2.prems"(1) obtain ds where
    ds: "update_versions (ag_name g) (ag_versions g) (descriptors r) = Inr ds"
    by (auto simp: Let_def split: sum.splits)
  have "blank (r\<lparr>longGroups := List.insert (ag_name g) (longGroups r),
      shortGroups := AList.update (makeShortName (ag_name g)) (ag_name g) (shortGroups r),
      preferredVersions := (if ag_preferred g \<noteq> []
        then AList.update (ag_name g) \<lparr>gv_group = ag_name g, gv_version = ag_preferred g\<rparr>
               (preferredVersions r)
        else preferredVersions r),
      descriptors := ds\<rparr>)"
    using update_versions_ok [OF ds] "2.prems"(2)
    by (auto simp: blank_def descriptors_ok_def short_ok_def go_map split: if_splits)
  then show ?case using "2.IH" [OF refl ds] "2.prems"(1) ds by (simp add: Let_def)
qed simp

lemma update_resource_inv:
  assumes upd: "update_resource lgv res r = Inr r'" and inv: "index_inv r"
    and st: "staticFallbacks r = []"
  shows "index_inv r' \<and> staticFallbacks r' = []"
proof -
  obtain gv0 where gv0: "parseGroupVersion lgv = Inr gv0"
    using upd by (auto simp: update_resource_def split: sum.splits)
  define gv where "gv = \<lparr>gv_group = (if ar_group res \<noteq> [] then ar_group res else gv_group gv0),
    gv_version = (if ar_version res \<noteq> [] then ar_version res else gv_version gv0)\<rparr>"
  note upd' = upd [unfolded update_resource_def gv0 sum.case Let_def gv_def [symmetric]]
  obtain desc where desc: "map_of (descriptors r) gv = Some desc"
    using upd' by (auto split: option.splits)
  define d where "d = \<lparr>d_gv = gv, d_kind = ar_kind res, d_singular = ar_singular res,
    d_plural = ar_name res\<rparr>"
  define gk where "gk = descriptor_gk d"
  have d: "map_of (descriptors r) gv = Some desc" "d_gv d = gv" "gk = descriptor_gk d"
    by (simp_all add: desc d_def gk_def)
  have r': "r' = r\<lparr>descriptors := AList.update gv (desc @ [d]) (descriptors r),
        kindNames := append_to (d_kind d) gk (kindNames r),
        singularNames := append_to (d_singular d) gk (singularNames r),
        pluralNames := append_to (d_plural d) gk (pluralNames r)\<rparr>"
    using upd' desc by (simp add: d_def gk_def descriptor_gk_def)
  have b: "bucket (descriptors r) gv = desc" using d(1) by (rule bucket_SomeD)
  have sup: "supported r' d' \<longleftrightarrow> supported r d' \<or> d' = d" for d'
    using b d(2) by (auto simp: supported_def r' go_map)
  have k: "gk_kind gk = d_kind d" by (simp add: d(3) descriptor_gk_def)
  have key: "gv \<in> keys_of (descriptors r)" using d(1) by (rule map_of_SomeD_keys)
  have dok: "descriptors_ok r'"
    using inv b d(2) key by (auto simp: index_inv_def descriptors_ok_def r' go_map distinct_update split: if_splits)
  have "groups_ok r'" using inv st by (simp add: index_inv_def groups_ok_def r')
  moreover have "names_ok r'"
    unfolding names_ok_def sup
  proof (intro conjI allI impI ballI)
    fix n g
    assume "g \<in> set (bucket (kindNames r') n @ bucket (singularNames r') n @ bucket (pluralNames r') n)"
    then have "g = gk \<or>
        g \<in> set (bucket (kindNames r) n @ bucket (singularNames r) n @ bucket (pluralNames r) n)"
      by (auto simp: r' go_map split: if_splits)
    then show "\<exists>d'. (supported r d' \<or> d' = d) \<and> descriptor_gk d' = g"
      using inv d(3) unfolding index_inv_def names_ok_def by blast
  next
    fix n g
    assume "g \<in> set (bucket (kindNames r') n)"
    then show "gk_kind g = n"
      using inv k by (auto simp: r' go_map index_inv_def names_ok_def split: if_splits)
  next
    fix d'
    assume "supported r d' \<or> d' = d"
    then show "descriptor_gk d' \<in> set (bucket (kindNames r') (d_kind d'))"
      using inv d(3) by (auto simp: r' go_map index_inv_def names_ok_def)
  qed
  moreover have "short_ok r'" using inv by (simp add: index_inv_def short_ok_def r')
  moreover have "words_ok r'"
    unfolding words_ok_def sup
  proof (intro conjI allI impI ballI)
    fix d'
    assume d': "supported r d' \<or> d' = d"
    show "d_singular d' = [] \<or> descriptor_gk d' \<in> set (bucket (singularNames r') (d_singular d'))"
      "d_plural d' = [] \<or> descriptor_gk d' \<in> set (bucket (pluralNames r') (d_plural d'))"
      using inv d(3) d' by (auto simp: r' go_map index_inv_def words_ok_def)
  next
    fix n g
    assume "g \<in> set (bucket (pluralNames r') n)"
    then have "g \<in> set (bucket (pluralNames r) n) \<or> g = gk \<and> n = d_plural d" by (auto simp: r' go_map split: if_splits)
    then show "\<exists>d'. (supported r d' \<or> d' = d) \<and> descriptor_gk d' = g \<and> d_plural d' = n"
      using inv d(3) unfolding index_inv_def words_ok_def by blast
  qed
  ultimately show ?thesis using dok st by (simp add: index_inv_def r')
qed

lemma update_resources_inv:
  "update_resources lgv ress r = Inr r' \<Longrightarrow> index_inv r \<Longrightarrow> staticFallbacks r = [] \<Longrightarrow>
     index_inv r' \<and> staticFallbacks r' = []"
  by (induction lgv ress r rule: update_resources.induct)
    (auto split: sum.splits dest: update_resource_inv)

lemma update_lists_inv:
  "update_lists ls r = Inr r' \<Longrightarrow> index_inv r \<Longrightarrow> staticFallbacks r = [] \<Longrightarrow>
     index_inv r' \<and> staticFallbacks r' = []"
  by (induction ls r rule: update_lists.induct)
    (auto split: sum.splits dest: update_resources_inv)

lemma Update_inv: "index_inv r \<Longrightarrow> index_inv (snd (Update groups ls r))"
proof -
  have "blank NewRegistryIndex"
    by (simp add: blank_def descriptors_ok_def short_ok_def NewRegistryIndex_def)
  then show "index_inv r \<Longrightarrow> ?thesis"
    by (auto simp: Update_def blank_def split: sum.splits
        dest!: update_groups_blank update_lists_inv [OF _ blank_inv])
qed

subsection \<open>Reachable indexes\<close>

inductive index_reachable :: "registry_index \<Rightarrow> bool" where
  new: "index_reachable NewRegistryIndex"
| update: "index_reachable r \<Longrightarrow> index_reachable (snd (Update groups ls r))"
| static: "index_reachable r \<Longrightarrow> index_reachable (RegisterStatic d als r)"

lemma index_reachable_inv: "index_reachable r \<Longrightarrow> index_inv r"
  by (induction rule: index_reachable.induct)
    (simp_all add: NewRegistryIndex_inv Update_inv RegisterStatic_inv)

text \<open>C3. Whatever sequence of server updates (successful or failed) and static registrations built
  the index, its eight maps agree: every descriptor sits under its own group version, whose group is known;
  a short name leads to a known group of this short name and every known group has one; every candidate a
  name leads to is the group and kind of a supported descriptor, with this name where it is a kind or a plural; every
  supported descriptor is a candidate under its kind, its singular and its plural; preferred versions belong to their
  group, which is known; static fallbacks are supported and under their own group and kind; and in every iteration
  order the listing returns exactly the supported descriptors.\<close>

theorem index_reachable_consistent:
  assumes "index_reachable r"
  shows "index_inv r \<and> set (GetDescriptors cs r) = {d. supported r d} \<and>
    (\<forall>n. \<forall>gk \<in> set (getKindCandidates r n). \<exists>d. supported r d \<and> descriptor_gk d = gk)"
proof -
  have inv: "index_inv r" using assms by (rule index_reachable_inv)
  then have "set (GetDescriptors cs r) = {d. supported r d}"
    by (simp add: index_inv_def set_GetDescriptors)
  moreover have "\<exists>d. supported r d \<and> descriptor_gk d = gk"
    if "gk \<in> set (getKindCandidates r n)" for n gk
  proof -
    have "gk \<in> set (bucket (kindNames r) n @ bucket (singularNames r) n @ bucket (pluralNames r) n)"
      using that by (auto simp: getKindCandidates_def set_dedup_seen)
    then show ?thesis using inv by (simp only: index_inv_def names_ok_def)
  qed
  ultimately show ?thesis using inv by blast
qed

text \<open>Two kinds of one group in two versions, the index of the witnesses below.\<close>

definition sample_dashboard :: "string \<Rightarrow> descriptor" where
  "sample_dashboard v =
     \<lparr>d_gv = \<lparr>gv_group = ''dash.app'', gv_version = v\<rparr>, d_kind = ''Board'',
      d_singular = ''board'', d_plural = ''boards''\<rparr>"

definition sample_index :: registry_index where
  "sample_index =
     RegisterStatic (sample_dashboard ''v2'') [] (RegisterStatic (sample_dashboard ''v1'') [''b''] NewRegistryIndex)"

lemma sample_index_reachable: "index_reachable sample_index"
  by (simp add: sample_index_def index_reachable.intros)

lemma index_reachable_consistent_witness:
  "index_inv sample_index \<and> set (GetDescriptors [1] sample_index) = {d. supported sample_index d}"
  using index_reachable_consistent [OF sample_index_reachable] by blast

section \<open>Lookups are sound and complete\<close>

text \<open>\<open>serves reg r d grp ver\<close>: the descriptor satisfies the group and version constraints of an
  identifier; an empty constraint is no constraint.\<close>

definition serves ::
    "gvk_registry \<Rightarrow> registry_index \<Rightarrow> descriptor \<Rightarrow> string \<Rightarrow> string \<Rightarrow> bool" where
  "serves reg r d grp version \<longleftrightarrow>
     (version \<noteq> [] \<longrightarrow> gv_version (d_gv d) = version) \<and>
     (grp \<noteq> [] \<longrightarrow>
        resolved_group r grp \<noteq> [] \<and> gv_group (d_gv d) = resolved_group r grp \<or>
        MatchesGroupAlias reg (Descriptor_GroupVersionKind d) grp)"

lemma resolveDescriptor_sound:
  assumes inv: "index_inv r" and res: "resolveDescriptor r gk version = Some d"
  shows "supported r d \<and> descriptor_gk d = gk \<and> (version \<noteq> [] \<longrightarrow> gv_version (d_gv d) = version)"
proof -
  have at: "supported r d \<and> descriptor_gk d = gk \<and> gv_version (d_gv d) = v"
    if "find (\<lambda>desc. d_kind desc = gk_kind gk)
          (bucket (descriptors r) \<lparr>gv_group = gk_group gk, gv_version = v\<rparr>) = Some d" for v
  proof -
    let ?gv = "\<lparr>gv_group = gk_group gk, gv_version = v\<rparr>"
    from find_SomeD [OF that] have d: "d \<in> set (bucket (descriptors r) ?gv)" "d_kind d = gk_kind gk"
      by auto
    then have "d_gv d = ?gv" using inv by (simp add: index_inv_def descriptors_ok_def)
    then show ?thesis using d by (simp add: supported_def descriptor_gk_def)
  qed
  have st: "supported r d \<and> descriptor_gk d = gk" if "map_of (staticFallbacks r) gk = Some d"
    using inv that by (simp add: index_inv_def groups_ok_def)
  show ?thesis
  proof (cases "version = []")
    case True
    then show ?thesis using res at st
      by (auto simp: resolveDescriptor_def Let_def split: option.splits)
  next
    case False
    then show ?thesis using res at by (auto simp: resolveDescriptor_def Let_def)
  qed
qed

lemma filter_group_sound:
  assumes "index_inv r" "filter_group reg r resolved grp version gks = Some d"
  shows "supported r d \<and> descriptor_gk d \<in> set gks \<and>
    (version \<noteq> [] \<longrightarrow> gv_version (d_gv d) = version) \<and>
    (resolved \<noteq> [] \<and> gv_group (d_gv d) = resolved \<or>
     MatchesGroupAlias reg (Descriptor_GroupVersionKind d) grp)"
  using assms(2)
proof (induction gks)
  case (Cons gk gks)
  show ?case
  proof (cases "resolved \<noteq> [] \<and> gk_group gk = resolved")
    case True
    then have "resolveDescriptor r gk version = Some d" using Cons.prems by simp
    from resolveDescriptor_sound [OF assms(1) this] True show ?thesis
      by (auto simp: descriptor_gk_def)
  next
    case False
    show ?thesis
    proof (cases "resolveDescriptor r gk version")
      case None
      then show ?thesis using Cons False by auto
    next
      case (Some d')
      from resolveDescriptor_sound [OF assms(1) this] show ?thesis
        using Cons False Some by (auto split: if_splits)
    qed
  qed
qed simp

lemma filterCandidates_sound:
  assumes "index_inv r" "filterCandidates reg r cands grp version = Some d"
  shows "supported r d \<and> descriptor_gk d \<in> set cands \<and> serves reg r d grp version"
proof (cases "grp = []")
  case True
  then obtain gk where "gk \<in> set cands" "resolveDescriptor r gk version = Some d"
    using assms(2) by (auto simp: filterCandidates_def dest: first_some_SomeD)
  with resolveDescriptor_sound [OF assms(1) this(2)] True show ?thesis
    by (auto simp: serves_def)
next
  case False
  then show ?thesis
    using filter_group_sound [OF assms(1)] assms(2)
    by (auto simp: filterCandidates_def serves_def)
qed

text \<open>C4. A lookup never invents a resource: what it returns is a supported descriptor whose kind
  is a candidate for the given name and which satisfies the group and version constraints of the
  identifier; the alternative reading of an ambiguous identifier is used only when the identifier has
  one and its versioned reading found nothing.\<close>

theorem LookupPartialGVK_sound:
  assumes "index_reachable r" and "LookupPartialGVK reg r p = Some d"
  shows "supported r d \<and> descriptor_gk d \<in> set (getKindCandidates r (p_resource p)) \<and>
    (serves reg r d (p_group p) (p_version p) \<or>
     p_fallback p \<noteq> [] \<and> serves reg r d (p_fallback p) [] \<and>
     filterCandidates reg r (getKindCandidates r (p_resource p)) (p_group p) (p_version p) = None)"
  using assms filterCandidates_sound [OF index_reachable_inv]
  by (auto simp: LookupPartialGVK_def GroupOnlyCandidate_def Let_def split: if_splits option.splits)

lemma sample_lookup:
  "LookupPartialGVK empty_gvk_registry sample_index
     \<lparr>p_group = ''dash'', p_version = [], p_resource = ''b'', p_fallback = []\<rparr> =
   Some (sample_dashboard ''v1'')"
  by code_simp

lemma LookupPartialGVK_sound_witness:
  "supported sample_index (sample_dashboard ''v1'') \<and>
   descriptor_gk (sample_dashboard ''v1'') \<in> set (getKindCandidates sample_index ''b'') \<and>
   serves empty_gvk_registry sample_index (sample_dashboard ''v1'') ''dash'' []"
  using LookupPartialGVK_sound [OF sample_index_reachable sample_lookup] by simp

lemma filter_group_no_alias:
  assumes inv: "index_inv r" and "resolved \<noteq> []"
    and other: "\<And>c. supported r c \<Longrightarrow> descriptor_gk c \<in> set gks \<Longrightarrow> gv_group (d_gv c) \<noteq> resolved \<Longrightarrow>
      \<not> MatchesGroupAlias reg (Descriptor_GroupVersionKind c) grp"
  shows "filter_group reg r resolved grp version gks =
    (case find (\<lambda>gk. gk_group gk = resolved) gks of
       None \<Rightarrow> None | Some gk \<Rightarrow> resolveDescriptor r gk version)"
  using other
proof (induction gks)
  case (Cons gk gks)
  have "\<not> MatchesGroupAlias reg (Descriptor_GroupVersionKind c) grp"
    if "gk_group gk \<noteq> resolved" "resolveDescriptor r gk version = Some c" for c
    using resolveDescriptor_sound [OF inv that(2)] that(1) Cons.prems [of c] by (auto simp: descriptor_gk_def)
  then show ?case using assms(2) Cons by (auto split: option.splits)
qed simp

lemma first_candidate_of_kind:
  assumes inv: "index_inv r" and sup: "supported r d"
  shows "find (\<lambda>gk. gk_group gk = gv_group (d_gv d)) (getKindCandidates r (d_kind d))
    = Some (descriptor_gk d)"
proof -
  let ?k = "bucket (kindNames r) (d_kind d)" and ?P = "\<lambda>gk. gk_group gk = gv_group (d_gv d)"
  have ex: "\<exists>gk \<in> set ?k. ?P gk"
  proof
    show "descriptor_gk d \<in> set ?k" using inv sup by (simp add: index_inv_def names_ok_def)
    show "?P (descriptor_gk d)" by (simp add: descriptor_gk_def)
  qed
  from find_exists [OF ex] obtain gk where gk: "find ?P ?k = Some gk" ..
  have "gk_kind gk = d_kind d" "?P gk"
    using find_SomeD [OF gk] inv by (auto simp: index_inv_def names_ok_def)
  then have "gk = descriptor_gk d" by (cases gk) (simp add: descriptor_gk_def)
  then show ?thesis
    using gk ex by (simp add: getKindCandidates_def find_dedup_seen find_append_left)
qed

text \<open>C5. Every supported kind is addressable: the fully qualified identifier kind, version and group
  of a supported descriptor finds a descriptor with this very identity, whatever else is registered, if its group
  and version have names and no supported resource of another group that the kind also names has this group as an alias
  (such a resource, if it comes first, is found instead).\<close>

theorem LookupPartialGVK_complete:
  assumes "index_reachable r" and "supported r d"
    and "gv_group (d_gv d) \<noteq> []" and "gv_version (d_gv d) \<noteq> []"
    and "\<And>c. supported r c \<Longrightarrow> descriptor_gk c \<in> set (getKindCandidates r (d_kind d)) \<Longrightarrow>
      gv_group (d_gv c) \<noteq> gv_group (d_gv d) \<Longrightarrow> \<not> MatchesGroupAlias reg (Descriptor_GroupVersionKind c) (gv_group (d_gv d))"
  shows "\<exists>d'. LookupPartialGVK reg r \<lparr>p_group = gv_group (d_gv d), p_version = gv_version (d_gv d),
            p_resource = d_kind d, p_fallback = fb\<rparr> = Some d' \<and>
          Descriptor_GroupVersionKind d' = Descriptor_GroupVersionKind d"
proof -
  have inv: "index_inv r" using assms(1) by (rule index_reachable_inv)
  have key: "d_gv d \<in> keys_of (descriptors r)"
    using assms(2) unfolding supported_def by (rule in_bucket_key)
  then have long: "resolved_group r (gv_group (d_gv d)) = gv_group (d_gv d)"
    using inv by (simp add: resolved_group_def index_inv_def descriptors_ok_def)
  let ?cands = "getKindCandidates r (d_kind d)"
  have cand: "find (\<lambda>gk. gk_group gk = gv_group (d_gv d)) ?cands = Some (descriptor_gk d)"
    using first_candidate_of_kind [OF inv assms(2)] .
  have ex: "\<exists>x \<in> set (bucket (descriptors r) (d_gv d)). d_kind x = d_kind d"
    using assms(2) by (auto simp: supported_def)
  from find_exists [OF ex]
  obtain d' where d': "find (\<lambda>x. d_kind x = d_kind d) (bucket (descriptors r) (d_gv d)) = Some d'" ..
  then have "d_kind d' = d_kind d" "d_gv d' = d_gv d"
    using find_SomeD [OF d'] inv by (auto simp: index_inv_def descriptors_ok_def)
  moreover have "LookupPartialGVK reg r \<lparr>p_group = gv_group (d_gv d), p_version = gv_version (d_gv d),
      p_resource = d_kind d, p_fallback = fb\<rparr> = Some d'"
  proof -
    have "resolveDescriptor r (descriptor_gk d) (gv_version (d_gv d)) = Some d'"
      using d' assms(4) by (simp add: resolveDescriptor_def descriptor_gk_def)
    then have "filterCandidates reg r ?cands (gv_group (d_gv d)) (gv_version (d_gv d)) = Some d'"
      by (simp add: filterCandidates_def assms(3) long cand
          filter_group_no_alias [OF inv assms(3,5)])
    moreover have "?cands \<noteq> []" using cand by auto
    ultimately show ?thesis by (simp add: LookupPartialGVK_def Let_def)
  qed
  ultimately show ?thesis by (simp add: Descriptor_GroupVersionKind_def)
qed

lemma LookupPartialGVK_complete_witness:
  "\<exists>d'. LookupPartialGVK empty_gvk_registry sample_index
        \<lparr>p_group = ''dash.app'', p_version = ''v2'', p_resource = ''Board'', p_fallback = ''v2.dash.app''\<rparr> = Some d' \<and>
      Descriptor_GroupVersionKind d' = Descriptor_GroupVersionKind (sample_dashboard ''v2'')"
proof -
  have s: "supported sample_index (sample_dashboard ''v2'')"
    by (simp add: sample_index_def supported_RegisterStatic)
  have a: "\<not> MatchesGroupAlias empty_gvk_registry c g" for c g
    by (simp add: MatchesGroupAlias_def empty_gvk_registry_def)
  show ?thesis
    using LookupPartialGVK_complete [OF sample_index_reachable s, of empty_gvk_registry "''v2.dash.app''"] a
    by (simp add: sample_dashboard_def)
qed

section \<open>All versions of a resource\<close>

lemma version_of_entry_Some:
  assumes "descriptors_ok r" "e \<in> set (descriptors r)" "version_of_entry reg grp known kk t e = Some d"
  shows "d_gv d = fst e \<and> d_kind d = kk \<and> gv_group (d_gv d) = t"
proof -
  obtain gv ds where e: "e = (gv, ds)" by (cases e)
  have "map_of (descriptors r) gv = Some ds" using assms(1,2) e by (simp add: descriptors_ok_def)
  then have b: "bucket (descriptors r) gv = ds" by (rule bucket_SomeD)
  have t: "gv_group gv = t" and f: "find (\<lambda>desc. d_kind desc = kk \<and>
      (grp = [] \<or> known \<or> MatchesGroupAlias reg (Descriptor_GroupVersionKind desc) grp)) ds = Some d"
    using assms(3) e by (auto simp: version_of_entry_def split: if_splits)
  show ?thesis using find_SomeD [OF f] assms(1) b t e by (auto simp: descriptors_ok_def)
qed

lemma in_versions_of_group:
  assumes ok: "descriptors_ok r"
  shows "d \<in> set (versions_of_group reg cs r cands [] known t) \<longleftrightarrow>
    gv_group (d_gv d) = t \<and> d_kind d \<noteq> [] \<and>
    (\<exists>gk. find (\<lambda>gk. gk_group gk = t) cands = Some gk \<and> gk_kind gk = d_kind d) \<and>
    find (\<lambda>x. d_kind x = d_kind d) (bucket (descriptors r) (d_gv d)) = Some d"
proof (cases "find (\<lambda>gk. gk_group gk = t) cands")
  case (Some gk)
  have entry: "(d_gv d, ds) \<in> set (descriptors r) \<longleftrightarrow>
      map_of (descriptors r) (d_gv d) = Some ds" for ds
    using ok by (simp add: descriptors_ok_def)
  have "(\<exists>e \<in> set (descriptors r). version_of_entry reg [] known (gk_kind gk) t e = Some d) \<longleftrightarrow>
      gv_group (d_gv d) = t \<and> gk_kind gk = d_kind d \<and>
      find (\<lambda>x. d_kind x = d_kind d) (bucket (descriptors r) (d_gv d)) = Some d" (is "?l \<longleftrightarrow> ?r")
  proof
    assume ?l
    then obtain e where e: "e \<in> set (descriptors r)"
        "version_of_entry reg [] known (gk_kind gk) t e = Some d" by blast
    from version_of_entry_Some [OF ok e] have d: "d_gv d = fst e" "d_kind d = gk_kind gk"
        "gv_group (d_gv d) = t" by auto
    then have "bucket (descriptors r) (d_gv d) = snd e"
      using entry [of "snd e"] e(1) by (simp add: bucket_SomeD)
    then show ?r using e(2) d by (simp add: version_of_entry_def split: if_splits)
  next
    assume r: ?r
    then have "d \<in> set (bucket (descriptors r) (d_gv d))" using find_SomeD by fast
    then obtain ds where ds: "(d_gv d, ds) \<in> set (descriptors r)" using in_bucketD by fast
    then have "bucket (descriptors r) (d_gv d) = ds" using entry by (simp add: bucket_SomeD)
    then have "version_of_entry reg [] known (gk_kind gk) t (d_gv d, ds) = Some d"
      using r by (simp add: version_of_entry_def)
    then show ?l using ds by blast
  qed
  then show ?thesis
    by (cases "gk_kind gk = []") (auto simp: versions_of_group_def Some in_collect_some)
qed (simp add: versions_of_group_def)

lemma distinct_versions_of_group:
  assumes ok: "descriptors_ok r"
  shows "distinct (map d_gv (versions_of_group reg cs r cands grp known t)) \<and>
    (\<forall>d \<in> set (versions_of_group reg cs r cands grp known t). gv_group (d_gv d) = t)"
proof -
  have "mset (map fst (go_range cs (descriptors r))) = mset (map fst (descriptors r))" by simp
  then have "distinct (map fst (go_range cs (descriptors r)))"
    using ok mset_eq_imp_distinct_iff unfolding descriptors_ok_def by blast
  then have "distinct (map d_gv (collect_some (version_of_entry reg grp known kk t)
      (go_range cs (descriptors r))))" for kk
    by (rule distinct_collect_some) (use version_of_entry_Some [OF ok] in simp)
  moreover have "gv_group (d_gv d) = t"
    if *: "d \<in> set (versions_of_group reg cs r cands grp known t)" for d
  proof -
    obtain kk e where "e \<in> set (descriptors r)" "version_of_entry reg grp known kk t e = Some d"
    proof (cases "find (\<lambda>gk. gk_group gk = t) cands")
      case (Some gk)
      then show ?thesis using that * by (auto simp: versions_of_group_def in_collect_some split: if_splits)
    qed (use * in \<open>simp add: versions_of_group_def\<close>)
    then show ?thesis using version_of_entry_Some [OF ok] by blast
  qed
  ultimately show ?thesis by (simp add: versions_of_group_def split: option.split)
qed

lemma distinct_concat_versions:
  assumes "descriptors_ok r" "distinct ts"
  shows "distinct (map d_gv (concat (map (\<lambda>t. versions_of_group reg (dcs t) r cands grp known t) ts)))"
  using assms(2)
proof (induction ts)
  case (Cons t ts)
  let ?v = "\<lambda>t. versions_of_group reg (dcs t) r cands grp known t"
  have "set (map d_gv (?v t)) \<inter> set (map d_gv (concat (map ?v ts))) = {}"
  proof (rule equals0I)
    fix gv
    assume gv: "gv \<in> set (map d_gv (?v t)) \<inter> set (map d_gv (concat (map ?v ts)))"
    then have "gv_group gv = t"
      using distinct_versions_of_group [OF assms(1), of reg "dcs t" cands grp known t] by auto
    moreover obtain t' where t': "t' \<in> set ts" "gv \<in> set (map d_gv (?v t'))" using gv by auto
    then have "gv_group gv = t'"
      using distinct_versions_of_group [OF assms(1), of reg "dcs t'" cands grp known t'] by auto
    ultimately show False using t'(1) Cons.prems by simp
  qed
  then show ?case
    using Cons distinct_versions_of_group [OF assms(1), of reg "dcs t" cands grp known t] by simp
qed simp

text \<open>Asking for all versions of a bare resource name returns, in any iteration order of the
  maps, exactly one descriptor for every group version that serves it: for each candidate group the
  first registered descriptor of the group's first candidate kind, in each of its versions.\<close>

theorem LookupAllVersions_exact:
  assumes "index_reachable r" and "p_group p = []" and "p_version p = []"
    and "LookupAllVersionsForPartialGVK reg cs dcs r p = Some ds"
    and "p_fallback p = []"
  shows "distinct (map d_gv ds) \<and>
    set ds = {d. d_kind d \<noteq> [] \<and>
      find (\<lambda>gk. gk_group gk = gv_group (d_gv d)) (getKindCandidates r (p_resource p)) = Some (descriptor_gk d) \<and>
      find (\<lambda>x. d_kind x = d_kind d) (bucket (descriptors r) (d_gv d)) = Some d}"
proof -
  let ?c = "getKindCandidates r (p_resource p)"
  let ?ts = "go_range cs (remdups (map gk_group ?c))"
  have ok: "descriptors_ok r" using index_reachable_inv [OF assms(1)] by (simp add: index_inv_def)
  have ds: "ds = concat (map (\<lambda>t. versions_of_group reg (dcs t) r ?c [] False t) ?ts)"
    using assms(2-5)
    by (auto simp: LookupAllVersionsForPartialGVK_def filterAllCandidates_def target_groups_def
        GroupOnlyCandidate_def Let_def split: if_splits option.splits)
  have "distinct (map d_gv ds)" unfolding ds by (rule distinct_concat_versions [OF ok]) simp
  moreover have "d \<in> set ds \<longleftrightarrow> d_kind d \<noteq> [] \<and>
      find (\<lambda>gk. gk_group gk = gv_group (d_gv d)) ?c = Some (descriptor_gk d) \<and>
      find (\<lambda>x. d_kind x = d_kind d) (bucket (descriptors r) (d_gv d)) = Some d" for d
  proof -
    have grp: "gv_group (d_gv d) \<in> gk_group ` set ?c"
      if "find (\<lambda>gk. gk_group gk = gv_group (d_gv d)) ?c = Some gk" for gk
      using find_SomeD [OF that] by force
    have gk: "gk = descriptor_gk d \<longleftrightarrow> gk_kind gk = d_kind d"
      if "find (\<lambda>gk. gk_group gk = gv_group (d_gv d)) ?c = Some gk" for gk
      using find_SomeD [OF that] by (cases gk) (auto simp: descriptor_gk_def)
    have "d \<in> set ds \<longleftrightarrow> gv_group (d_gv d) \<in> gk_group ` set ?c \<and>
        d \<in> set (versions_of_group reg (dcs (gv_group (d_gv d))) r ?c [] False (gv_group (d_gv d)))"
      unfolding ds using distinct_versions_of_group [OF ok] by auto
    also have "\<dots> \<longleftrightarrow> d_kind d \<noteq> [] \<and>
      find (\<lambda>gk. gk_group gk = gv_group (d_gv d)) ?c = Some (descriptor_gk d) \<and>
      find (\<lambda>x. d_kind x = d_kind d) (bucket (descriptors r) (d_gv d)) = Some d"
      unfolding in_versions_of_group [OF ok] using grp gk by metis
    finally show ?thesis .
  qed
  ultimately show ?thesis by blast
qed

lemma LookupAllVersions_exact_witness:
  "\<exists>ds. LookupAllVersionsForPartialGVK empty_gvk_registry [0] (\<lambda>_. [1]) sample_index
       \<lparr>p_group = [], p_version = [], p_resource = ''boards'', p_fallback = []\<rparr> = Some ds \<and>
     distinct (map d_gv ds) \<and> length ds = 2"
proof -
  let ?p = "\<lparr>p_group = [], p_version = [], p_resource = ''boards'', p_fallback = []\<rparr>"
  have l: "LookupAllVersionsForPartialGVK empty_gvk_registry [0] (\<lambda>_. [1]) sample_index ?p =
      Some [sample_dashboard ''v2'', sample_dashboard ''v1'']"
    by code_simp
  show ?thesis
    using LookupAllVersions_exact [OF sample_index_reachable _ _ l] l by simp
qed

end
