(* ===== verification/Gcx_Registry.thy ===== *)
theory Gcx_Registry
  imports Gcx_Discovery
begin

text \<open>
  The registry of \<^verbatim>\<open>internal/resources/discovery/registry.go\<close>: discovery with its
  filtering of hidden groups, adapter registration, and the translation of selectors into filters.
  The lookup interface the translation relies on is the locale \<open>descriptor_lookup\<close>, interpreted
  on both lookups of the index. The lemmas show which resources discovery can expose and that filters
  only name supported descriptors.
\<close>

section \<open>Hidden groups\<close>

definition ignoredResourceGroups :: "string list" where
  "ignoredResourceGroups =
     [''apiregistration.k8s.io'', ''featuretoggle.grafana.app'', ''service.grafana.app'',
      ''userstorage.grafana.app'', ''iam.grafana.app'']"

definition partiallyExposedGroups :: "(string \<times> string list) list" where
  "partiallyExposedGroups =
     [(''notifications.alerting.grafana.app'', [''routingtrees'', ''timeintervals'', ''templategroups''])]"

text \<open>\<^verbatim>\<open>FilterDiscoveryResults\<close>: \<open>keep_resource\<close> is the body of its inner loop, \<open>filter_lists\<close>
  the loop over the resource lists.\<close>

definition keep_resource :: "string list option \<Rightarrow> api_resource \<Rightarrow> bool" where
  "keep_resource allowed res \<longleftrightarrow>
     ar_namespaced res \<and>
     (case allowed of None \<Rightarrow> True | Some names \<Rightarrow> ar_name res \<in> set names) \<and>
     CHR ''/'' \<notin> set (ar_name res)"

fun filter_lists ::
    "string list \<Rightarrow> (string \<times> string list) list \<Rightarrow> api_resource_list list
      \<Rightarrow> discovery_error + api_resource_list list" where
  "filter_lists ignored partial [] = Inr []"
| "filter_lists ignored partial (l # ls) =
     (case parseGroupVersion (al_groupVersion l) of
        Inl e \<Rightarrow> Inl e
      | Inr gv \<Rightarrow>
          (if gv_group gv \<in> set ignored then filter_lists ignored partial ls
           else (case filter_lists ignored partial ls of
                   Inl e \<Rightarrow> Inl e
                 | Inr ls' \<Rightarrow>
                     Inr (l\<lparr>al_resources :=
                            filter (keep_resource (map_of partial (gv_group gv))) (al_resources l)\<rparr>
                          # ls'))))"

definition FilterDiscoveryResults ::
    "string list \<Rightarrow> (string \<times> string list) list \<Rightarrow> api_group list \<Rightarrow> api_resource_list list
      \<Rightarrow> discovery_error + api_group list \<times> api_resource_list list" where
  "FilterDiscoveryResults ignored partial apiGroups apiLists =
     (case filter_lists ignored partial apiLists of
        Inl e \<Rightarrow> Inl e
      | Inr ls \<Rightarrow> Inr (filter (\<lambda>g. ag_name g \<notin> set ignored) apiGroups, ls))"

section \<open>The registry\<close>

text \<open>An adapter factory is a value of a type \<open>'f\<close> of providers, which the registry only stores.\<close>

record 'f registry =
  reg_index :: registry_index
  reg_adapters :: "(group_version_kind \<times> 'f) list"

definition NewStaticRegistry :: "'f registry" where
  "NewStaticRegistry = \<lparr>reg_index = NewRegistryIndex, reg_adapters = []\<rparr>"

definition RegisterAdapter :: "'f \<Rightarrow> descriptor \<Rightarrow> string list \<Rightarrow> 'f registry \<Rightarrow> 'f registry" where
  "RegisterAdapter factory desc aliases r =
     \<lparr>reg_index = RegisterStatic desc aliases (reg_index r),
      reg_adapters = AList.update (Descriptor_GroupVersionKind desc) factory (reg_adapters r)\<rparr>"

definition GetAdapter :: "'f registry \<Rightarrow> group_version_kind \<Rightarrow> 'f option" where
  "GetAdapter r gvk = map_of (reg_adapters r) gvk"

definition HasAdapter :: "'f registry \<Rightarrow> group_version_kind \<Rightarrow> bool" where
  "HasAdapter r gvk \<longleftrightarrow> map_of (reg_adapters r) gvk \<noteq> None"

text \<open>\<^verbatim>\<open>Discover\<close>. The answer of the discovery client is an argument.\<close>

datatype 'e discover_error = ClientFailed 'e | DiscoveryFailed discovery_error

definition Discover ::
    "'e + api_group list \<times> api_resource_list list \<Rightarrow> 'f registry
      \<Rightarrow> 'e discover_error option \<times> 'f registry" where
  "Discover answer r =
     (case answer of
        Inl e \<Rightarrow> (Some (ClientFailed e), r)
      | Inr (apiGroups, apiLists) \<Rightarrow>
          (case FilterDiscoveryResults ignoredResourceGroups partiallyExposedGroups apiGroups apiLists of
             Inl e \<Rightarrow> (Some (DiscoveryFailed e), r)
           | Inr (grps, ls) \<Rightarrow>
               (let (err, idx) = Update grps ls (reg_index r)
                in (map_option DiscoveryFailed err, r\<lparr>reg_index := idx\<rparr>))))"

section \<open>From selectors to filters\<close>

text \<open>
  \<^verbatim>\<open>UnsupportedResourceError\<close>: the printed selector and, for an ambiguous identifier, the four
  names its explanation quotes.
\<close>

record unsupported_error =
  un_selector :: string
  un_reason :: "(string \<times> string \<times> string \<times> string) option"

text \<open>\<^verbatim>\<open>makeFiltersForSelector\<close> over the lookup it selects by \<^verbatim>\<open>PreferredVersionOnly\<close>.\<close>

definition filters_with ::
    "(partial_gvk \<Rightarrow> descriptor list option) \<Rightarrow> selector \<Rightarrow> unsupported_error + filter_rec list" where
  "filters_with look sel =
     (case look (sel_gvk sel) of
        None \<Rightarrow>
          (let gvk = sel_gvk sel; (groupOnly, ambiguous) = GroupOnlyCandidate gvk in
           Inl \<lparr>un_selector = Selector_String sel,
                un_reason = (if ambiguous
                  then Some (p_resource gvk, p_group gvk, p_version gvk, groupOnly) else None)\<rparr>)
      | Some descs \<Rightarrow>
          Inr (map (\<lambda>desc. \<lparr>f_type = sel_type sel, f_desc = desc, f_uids = sel_uids sel\<rparr>) descs))"

definition makeFiltersForSelector ::
    "gvk_registry \<Rightarrow> nat list \<Rightarrow> (string \<Rightarrow> nat list) \<Rightarrow> 'f registry \<Rightarrow> selector \<Rightarrow> bool
      \<Rightarrow> unsupported_error + filter_rec list" where
  "makeFiltersForSelector reg cs dcs r sel preferredVersionOnly =
     filters_with
       (if preferredVersionOnly then LookupPreferredPerGroup reg (reg_index r)
        else LookupAllVersionsForPartialGVK reg cs dcs (reg_index r)) sel"

text \<open>
  \<^verbatim>\<open>MakeFilters\<close>: the warnings it prints (the deprecated group and its replacement), then the
  result. \<open>warned\<close> is the set of canonical groups already reported. The schedules may differ from
  one selector to the next.
\<close>

fun warn_filters ::
    "gvk_registry \<Rightarrow> bool \<Rightarrow> string \<Rightarrow> filter_rec list \<Rightarrow> string list
      \<Rightarrow> (string \<times> string) list \<times> string list" where
  "warn_filters reg warn grp [] warned = ([], warned)"
| "warn_filters reg warn grp (f # fs) warned =
     (let canonicalGroup = gv_group (d_gv (f_desc f)) in
      if warn \<and> canonicalGroup \<notin> set warned \<and>
         MatchesGroupAlias reg (Descriptor_GroupVersionKind (f_desc f)) grp
      then (let (ws, warned') = warn_filters reg warn grp fs (canonicalGroup # warned)
            in ((grp, canonicalGroup) # ws, warned'))
      else warn_filters reg warn grp fs warned)"

fun MakeFilters_from ::
    "gvk_registry \<Rightarrow> (nat \<Rightarrow> nat list) \<Rightarrow> (nat \<Rightarrow> string \<Rightarrow> nat list) \<Rightarrow> 'f registry \<Rightarrow> bool \<Rightarrow> bool
      \<Rightarrow> string list \<Rightarrow> selector list
      \<Rightarrow> (string \<times> string) list \<times> (unsupported_error + filter_rec list)" where
  "MakeFilters_from reg cs dcs r preferred warn warned [] = ([], Inr [])"
| "MakeFilters_from reg cs dcs r preferred warn warned (sel # sels) =
     (let k = length sels in
      case makeFiltersForSelector reg (cs k) (dcs k) r sel preferred of
        Inl e \<Rightarrow> ([], Inl e)
      | Inr fs \<Rightarrow>
          (let (ws, warned') = warn_filters reg warn (p_group (sel_gvk sel)) fs warned;
               (ws', res) = MakeFilters_from reg cs dcs r preferred warn warned' sels
           in (ws @ ws', case res of Inl e \<Rightarrow> Inl e | Inr fs' \<Rightarrow> Inr (fs @ fs'))))"

definition MakeFilters ::
    "gvk_registry \<Rightarrow> (nat \<Rightarrow> nat list) \<Rightarrow> (nat \<Rightarrow> string \<Rightarrow> nat list) \<Rightarrow> 'f registry \<Rightarrow> bool \<Rightarrow> bool
      \<Rightarrow> selector list \<Rightarrow> (string \<times> string) list \<times> (unsupported_error + filter_rec list)" where
  "MakeFilters reg cs dcs r preferred warn sels =
     MakeFilters_from reg cs dcs r preferred warn [] sels"

section \<open>The lookup interface\<close>

text \<open>
  What the registry needs of a lookup: on a well formed index a success is a nonempty list of
  supported descriptors.
\<close>

locale descriptor_lookup =
  fixes inv :: "registry_index \<Rightarrow> bool"
    and look :: "registry_index \<Rightarrow> partial_gvk \<Rightarrow> descriptor list option"
  assumes look_sound: "inv r \<Longrightarrow> look r p = Some ds \<Longrightarrow> ds \<noteq> [] \<and> (\<forall>d \<in> set ds. supported r d)"
begin

lemma filters_supported:
  assumes "inv r" "filters_with (look r) sel = Inr fs"
  shows "fs \<noteq> [] \<and> (\<forall>f \<in> set fs. supported r (f_desc f) \<and> f_type f = sel_type sel \<and> f_uids f = sel_uids sel)"
proof -
  obtain ds where ds: "look r (sel_gvk sel) = Some ds"
    and fs: "fs = map (\<lambda>d. \<lparr>f_type = sel_type sel, f_desc = d, f_uids = sel_uids sel\<rparr>) ds"
    using assms(2) by (auto simp: filters_with_def Let_def split: option.splits prod.splits)
  show ?thesis using look_sound [OF assms(1) ds] by (auto simp: fs)
qed

lemma filters_error:
  "filters_with (look r) sel = Inl e \<longleftrightarrow>
     look r (sel_gvk sel) = None \<and>
     e = \<lparr>un_selector = Selector_String sel,
          un_reason = (if p_fallback (sel_gvk sel) = [] then None
            else Some (p_resource (sel_gvk sel), p_group (sel_gvk sel), p_version (sel_gvk sel),
                       p_fallback (sel_gvk sel)))\<rparr>"
  by (auto simp: filters_with_def GroupOnlyCandidate_def Let_def split: option.splits)

end

lemma LookupPartialGVK_supported:
  "index_inv r \<Longrightarrow> LookupPartialGVK reg r p = Some d \<Longrightarrow> supported r d"
  using filterCandidates_sound
  by (fastforce simp: LookupPartialGVK_def Let_def split: if_splits option.splits prod.splits)

lemma preferred_per_group_supported:
  "index_inv r \<Longrightarrow> d \<in> set (preferred_per_group r seen gks) \<Longrightarrow> supported r d"
proof (induction gks arbitrary: seen)
  case (Cons gk gks)
  then show ?case
    by (auto split: if_splits option.splits dest: resolveDescriptor_sound)
qed simp

lemma versions_of_group_supported:
  assumes "index_inv r" "d \<in> set (versions_of_group reg cs r cands grp known t)"
  shows "supported r d"
proof -
  have ok: "descriptors_ok r" using assms(1) by (simp add: index_inv_def)
  obtain kk e where e: "e \<in> set (descriptors r)" "version_of_entry reg grp known kk t e = Some d"
  proof (cases "find (\<lambda>gk. gk_group gk = t) cands")
    case (Some gk)
    then show ?thesis
      using that assms(2) by (auto simp: versions_of_group_def in_collect_some split: if_splits)
  qed (use assms(2) in \<open>simp add: versions_of_group_def\<close>)
  have "d \<in> set (snd e)"
    using e(2) find_SomeD by (fastforce simp: version_of_entry_def split: if_splits)
  then show ?thesis
    using version_of_entry_Some [OF ok e] e(1) ok
    by (cases e) (auto simp: supported_def in_bucket_iff descriptors_ok_def)
qed

lemma filterAllCandidates_supported:
  assumes "index_inv r" "filterAllCandidates reg cs dcs r cands grp version = Some ds"
  shows "ds \<noteq> [] \<and> (\<forall>d \<in> set ds. supported r d)"
proof (cases "version = []")
  case True
  then show ?thesis
    using assms by (auto simp: filterAllCandidates_def Let_def split: prod.splits if_splits
        intro: versions_of_group_supported)
next
  case False
  then show ?thesis
    using assms by (auto simp: filterAllCandidates_def dest: filterCandidates_sound)
qed

interpretation pref: descriptor_lookup index_inv "LookupPreferredPerGroup reg" for reg
proof
  fix r p ds
  assume "index_inv r" "LookupPreferredPerGroup reg r p = Some ds"
  then show "ds \<noteq> [] \<and> (\<forall>d \<in> set ds. supported r d)"
    by (auto simp: LookupPreferredPerGroup_def Let_def split: if_splits
        intro: LookupPartialGVK_supported preferred_per_group_supported)
qed

interpretation allv: descriptor_lookup index_inv "LookupAllVersionsForPartialGVK reg cs dcs" for reg cs dcs
proof
  fix r p ds
  assume "index_inv r" "LookupAllVersionsForPartialGVK reg cs dcs r p = Some ds"
  then show "ds \<noteq> [] \<and> (\<forall>d \<in> set ds. supported r d)"
    using filterAllCandidates_supported
    by (fastforce simp: LookupAllVersionsForPartialGVK_def Let_def
        split: if_splits option.splits prod.splits)
qed

lemma makeFiltersForSelector_supported:
  assumes "index_inv (reg_index r)" "makeFiltersForSelector reg cs dcs r sel preferred = Inr fs"
  shows "fs \<noteq> [] \<and> (\<forall>f \<in> set fs. supported (reg_index r) (f_desc f) \<and>
    f_type f = sel_type sel \<and> f_uids f = sel_uids sel)"
proof (cases preferred)
  case True
  then show ?thesis using pref.filters_supported [OF assms(1)] assms(2)
    by (simp add: makeFiltersForSelector_def)
next
  case False
  then show ?thesis using allv.filters_supported [OF assms(1)] assms(2)
    by (simp add: makeFiltersForSelector_def)
qed

lemma warn_filters_fresh:
  "warn_filters reg warn grp fs warned = (ws, warned') \<Longrightarrow>
     distinct (map snd ws) \<and> set (map snd ws) \<inter> set warned = {} \<and>
     set warned' = set (map snd ws) \<union> set warned"
proof (induction fs arbitrary: warned ws warned')
  case (Cons f fs)
  let ?c = "gv_group (d_gv (f_desc f))"
  show ?case
  proof (cases "warn \<and> ?c \<notin> set warned \<and> MatchesGroupAlias reg (Descriptor_GroupVersionKind (f_desc f)) grp")
    case True
    then obtain ws1 where ws1: "warn_filters reg warn grp fs (?c # warned) = (ws1, warned')"
        "ws = (grp, ?c) # ws1"
      using Cons.prems by (auto simp: Let_def split: prod.splits)
    show ?thesis using Cons.IH [OF ws1(1)] ws1(2) True by auto
  next
    case False
    then have "warn_filters reg warn grp fs warned = (ws, warned')"
      using Cons.prems by (auto simp: Let_def)
    then show ?thesis by (rule Cons.IH)
  qed
qed simp

lemma MakeFilters_from_warnings:
  "distinct (map snd (fst (MakeFilters_from reg cs dcs r preferred warn warned sels))) \<and>
   set (map snd (fst (MakeFilters_from reg cs dcs r preferred warn warned sels))) \<inter> set warned = {}"
proof (induction sels arbitrary: warned)
  case (Cons sel sels)
  show ?case
  proof (cases "makeFiltersForSelector reg (cs (length sels)) (dcs (length sels)) r sel preferred")
    case (Inr fs)
    obtain ws warned' where w: "warn_filters reg warn (p_group (sel_gvk sel)) fs warned = (ws, warned')"
      by force
    obtain ws' res where m: "MakeFilters_from reg cs dcs r preferred warn warned' sels = (ws', res)"
      by force
    have "distinct (map snd ws') \<and> set (map snd ws') \<inter> set warned' = {}"
      using Cons.IH [of warned'] m by simp
    then show ?thesis using warn_filters_fresh [OF w] w m Inr by (auto simp: Let_def)
  qed (simp add: Let_def)
qed simp

lemma MakeFilters_from_blocks:
  "index_inv (reg_index r) \<Longrightarrow>
   snd (MakeFilters_from reg cs dcs r preferred warn warned sels) = Inr fs \<Longrightarrow>
   \<exists>fss. fs = concat fss \<and> list_all2 (\<lambda>sel fs. fs \<noteq> [] \<and> (\<forall>f \<in> set fs.
     supported (reg_index r) (f_desc f) \<and> f_type f = sel_type sel \<and> f_uids f = sel_uids sel)) sels fss"
proof (induction sels arbitrary: warned fs)
  case (Cons sel sels)
  obtain fs1 where fs1: "makeFiltersForSelector reg (cs (length sels)) (dcs (length sels)) r sel preferred = Inr fs1"
    using Cons.prems(2) by (auto simp: Let_def split: sum.splits)
  obtain ws warned' where w: "warn_filters reg warn (p_group (sel_gvk sel)) fs1 warned = (ws, warned')"
    by force
  obtain fs2 where fs2: "snd (MakeFilters_from reg cs dcs r preferred warn warned' sels) = Inr fs2"
      "fs = fs1 @ fs2"
    using Cons.prems(2) fs1 w by (auto simp: Let_def split: sum.splits prod.splits)
  from Cons.IH [OF Cons.prems(1) fs2(1)] obtain fss where
    "fs2 = concat fss" "list_all2 (\<lambda>sel fs. fs \<noteq> [] \<and> (\<forall>f \<in> set fs.
     supported (reg_index r) (f_desc f) \<and> f_type f = sel_type sel \<and> f_uids f = sel_uids sel)) sels fss" by blast
  then show ?case using makeFiltersForSelector_supported [OF Cons.prems(1) fs1] fs2(2)
    by (intro exI [of _ "fs1 # fss"]) simp
qed simp

text \<open>C7. Translating selectors into filters yields, when it succeeds, one nonempty block of filters
  for each selector, in order; every filter of a block names a resource the index supports and carries
  the type and the identifiers of its selector. In every case the deprecation warning of a canonical
  group is printed at most once.\<close>

theorem MakeFilters_supported:
  assumes "index_reachable (reg_index r)"
  shows "distinct (map snd (fst (MakeFilters reg cs dcs r preferred warn sels))) \<and>
    (\<forall>fs. snd (MakeFilters reg cs dcs r preferred warn sels) = Inr fs \<longrightarrow>
      (\<exists>fss. fs = concat fss \<and> list_all2 (\<lambda>sel fs. fs \<noteq> [] \<and> (\<forall>f \<in> set fs.
         supported (reg_index r) (f_desc f) \<and> f_type f = sel_type sel \<and> f_uids f = sel_uids sel)) sels fss))"
  using MakeFilters_from_blocks [OF index_reachable_inv [OF assms]] MakeFilters_from_warnings
  unfolding MakeFilters_def by blast

definition sample_registry :: "nat registry" where
  "sample_registry = RegisterAdapter 7 (sample_dashboard ''v1'') [''b''] NewStaticRegistry"

definition sample_selector :: selector where
  "sample_selector = \<lparr>sel_type = FilterTypeSingle,
     sel_gvk = \<lparr>p_group = ''dash'', p_version = [], p_resource = ''boards'', p_fallback = []\<rparr>,
     sel_uids = [''x'']\<rparr>"

lemma MakeFilters_supported_witness:
  "\<exists>fss. [\<lparr>f_type = FilterTypeSingle, f_desc = sample_dashboard ''v1'', f_uids = [''x'']\<rparr>] = concat fss \<and>
     length fss = length [sample_selector]"
proof -
  have r: "index_reachable (reg_index sample_registry)"
    by (simp add: sample_registry_def RegisterAdapter_def NewStaticRegistry_def index_reachable.intros)
  have m: "snd (MakeFilters empty_gvk_registry (\<lambda>_. []) (\<lambda>_ _. []) sample_registry True True [sample_selector]) =
      Inr [\<lparr>f_type = FilterTypeSingle, f_desc = sample_dashboard ''v1'', f_uids = [''x'']\<rparr>]"
    by code_simp
  from conjunct2 [OF MakeFilters_supported [OF r], THEN spec, THEN mp, OF m]
  show ?thesis by (fastforce dest: list_all2_lengthD)
qed

section \<open>What discovery exposes\<close>

text \<open>The descriptor a listed resource gives: \<open>listed l res\<close> for the list \<open>l\<close> it stands in.\<close>

definition listed :: "group_version \<Rightarrow> api_resource \<Rightarrow> descriptor" where
  "listed gv0 res =
     \<lparr>d_gv = \<lparr>gv_group = (if ar_group res \<noteq> [] then ar_group res else gv_group gv0),
              gv_version = (if ar_version res \<noteq> [] then ar_version res else gv_version gv0)\<rparr>,
      d_kind = ar_kind res, d_singular = ar_singular res, d_plural = ar_name res\<rparr>"

lemma update_resource_supported:
  assumes "update_resource lgv res r = Inr r'"
  shows "\<exists>gv0. parseGroupVersion lgv = Inr gv0 \<and>
    (\<forall>d. supported r' d \<longleftrightarrow> supported r d \<or> d = listed gv0 res) \<and>
    keys_of (descriptors r') = keys_of (descriptors r)"
proof -
  obtain gv0 where gv0: "parseGroupVersion lgv = Inr gv0"
    using assms by (auto simp: update_resource_def split: sum.splits)
  let ?gv = "d_gv (listed gv0 res)"
  obtain desc where desc: "map_of (descriptors r) ?gv = Some desc"
    using assms gv0 by (auto simp: update_resource_def listed_def Let_def split: option.splits)
  have r': "descriptors r' = AList.update ?gv (desc @ [listed gv0 res]) (descriptors r)"
    using assms gv0 desc by (auto simp: update_resource_def listed_def Let_def)
  have "supported r' d \<longleftrightarrow> supported r d \<or> d = listed gv0 res" for d
    using bucket_SomeD [OF desc] by (auto simp: supported_def r' go_map)
  then show ?thesis using gv0 map_of_SomeD_keys [OF desc] by (auto simp: r' go_map)
qed

lemma update_resources_supported:
  "update_resources lgv ress r = Inr r' \<Longrightarrow> parseGroupVersion lgv = Inr gv0 \<Longrightarrow>
     (supported r' d \<longleftrightarrow> supported r d \<or> d \<in> listed gv0 ` set ress) \<and>
     keys_of (descriptors r') = keys_of (descriptors r)"
proof (induction lgv ress r rule: update_resources.induct)
  case (2 lgv res ress r)
  then obtain r1 where r1: "update_resource lgv res r = Inr r1" "update_resources lgv ress r1 = Inr r'"
    by (auto split: sum.splits)
  show ?case using "2.IH" [OF r1] update_resource_supported [OF r1(1)] "2.prems"(2) by auto
qed simp

lemma update_lists_supported:
  "update_lists ls r = Inr r' \<Longrightarrow> \<forall>l \<in> set ls. \<exists>gv. parseGroupVersion (al_groupVersion l) = Inr gv \<Longrightarrow>
     (supported r' d \<longleftrightarrow> supported r d \<or>
       (\<exists>l \<in> set ls. \<exists>gv res. parseGroupVersion (al_groupVersion l) = Inr gv \<and>
          res \<in> set (al_resources l) \<and> d = listed gv res)) \<and>
     keys_of (descriptors r') = keys_of (descriptors r)"
proof (induction ls r rule: update_lists.induct)
  case (2 l ls r)
  then obtain r1 where r1: "update_resources (al_groupVersion l) (al_resources l) r = Inr r1"
      "update_lists ls r1 = Inr r'"
    by (auto split: sum.splits)
  obtain gv where gv: "parseGroupVersion (al_groupVersion l) = Inr gv" using "2.prems"(2) by auto
  have IH: "(supported r' d \<longleftrightarrow> supported r1 d \<or>
       (\<exists>l \<in> set ls. \<exists>gv res. parseGroupVersion (al_groupVersion l) = Inr gv \<and>
          res \<in> set (al_resources l) \<and> d = listed gv res)) \<and>
     keys_of (descriptors r') = keys_of (descriptors r1)"
    using "2.IH" [OF r1] "2.prems"(2) by simp
  show ?case using IH update_resources_supported [OF r1(1) gv, of d] gv by auto
qed simp

lemma filter_lists_kept:
  "filter_lists ignored partial ls = Inr ls' \<Longrightarrow>
     l' \<in> set ls' \<longleftrightarrow> (\<exists>l \<in> set ls. \<exists>gv. parseGroupVersion (al_groupVersion l) = Inr gv \<and>
       gv_group gv \<notin> set ignored \<and>
       l' = l\<lparr>al_resources := filter (keep_resource (map_of partial (gv_group gv))) (al_resources l)\<rparr>)"
  by (induction ls arbitrary: ls') (auto split: sum.splits if_splits)

lemma update_versions_keys:
  "update_versions name vs ds = Inr ds' \<Longrightarrow> gv \<in> keys_of ds' \<Longrightarrow> gv \<in> keys_of ds \<or> gv_group gv = name"
  by (induction name vs ds rule: update_versions.induct) (auto simp: Let_def go_map split: if_splits)

lemma update_groups_keys:
  "update_groups gs r = Inr r' \<Longrightarrow> gv \<in> keys_of (descriptors r') \<Longrightarrow>
     gv \<in> keys_of (descriptors r) \<or> gv_group gv \<in> ag_name ` set gs"
proof (induction gs r rule: update_groups.induct)
  case (2 g gs r)
  from "2.prems"(1) obtain ds where
    ds: "update_versions (ag_name g) (ag_versions g) (descriptors r) = Inr ds"
    by (auto simp: Let_def split: sum.splits)
  have "gv \<in> keys_of ds \<or> gv_group gv \<in> ag_name ` set gs"
    using "2.IH" [OF refl ds] "2.prems" ds by (simp add: Let_def)
  then show ?case using update_versions_keys [OF ds] by auto
qed simp

text \<open>C8. After a successful discovery the index supports exactly the descriptors of the listed
  resources that are namespaced, are not subresources, stand in a list whose group is not hidden and,
  in a partially exposed group, are named there; and no descriptor of a hidden group is supported,
  even when a resource overrides the group of its list.\<close>

theorem Discover_exposes:
  assumes "Discover (Inr (apiGroups, apiLists)) r = (None, r')"
  shows "(supported (reg_index r') d \<longleftrightarrow>
      (\<exists>l \<in> set apiLists. \<exists>gv res.
         parseGroupVersion (al_groupVersion l) = Inr gv \<and> gv_group gv \<notin> set ignoredResourceGroups \<and>
         res \<in> set (al_resources l) \<and> ar_namespaced res \<and> CHR ''/'' \<notin> set (ar_name res) \<and>
         (\<forall>names. map_of partiallyExposedGroups (gv_group gv) = Some names \<longrightarrow> ar_name res \<in> set names) \<and>
         d = listed gv res)) \<and>
    (supported (reg_index r') d \<longrightarrow> gv_group (d_gv d) \<notin> set ignoredResourceGroups)"
proof -
  obtain ls where ls: "filter_lists ignoredResourceGroups partiallyExposedGroups apiLists = Inr ls"
    using assms by (auto simp: Discover_def FilterDiscoveryResults_def split: sum.splits)
  let ?gs = "filter (\<lambda>g. ag_name g \<notin> set ignoredResourceGroups) apiGroups"
  have upd: "Update ?gs ls (reg_index r) = (None, reg_index r')"
    using assms ls by (auto simp: Discover_def FilterDiscoveryResults_def split: prod.splits)
  obtain r1 where r1: "update_groups ?gs NewRegistryIndex = Inr r1" "update_lists ls r1 = Inr (reg_index r')"
    using upd by (auto simp: Update_def split: sum.splits)
  have "blank NewRegistryIndex" by (simp add: blank_def descriptors_ok_def short_ok_def words_ok_def NewRegistryIndex_def)
  then have none: "\<not> supported r1 d" using update_groups_blank [OF r1(1)] by (simp add: blank_def supported_def)
  note kept = filter_lists_kept [OF ls]
  have parse: "\<forall>l \<in> set ls. \<exists>gv. parseGroupVersion (al_groupVersion l) = Inr gv"
    by (auto simp: kept)
  note sup = update_lists_supported [OF r1(2) parse, of d]
  have "supported (reg_index r') d \<longleftrightarrow> (\<exists>l \<in> set ls. \<exists>gv res. parseGroupVersion (al_groupVersion l) = Inr gv \<and>
          res \<in> set (al_resources l) \<and> d = listed gv res)"
    using sup none by blast
  moreover have "supported (reg_index r') d \<longrightarrow> gv_group (d_gv d) \<notin> set ignoredResourceGroups"
  proof
    assume "supported (reg_index r') d"
    then have "d_gv d \<in> keys_of (descriptors r1)"
      using sup unfolding supported_def by (auto dest: in_bucket_key)
    then show "gv_group (d_gv d) \<notin> set ignoredResourceGroups"
      using update_groups_keys [OF r1(1), of "d_gv d"] by (auto simp: NewRegistryIndex_def)
  qed
  moreover have "(\<exists>l \<in> set ls. \<exists>gv res. parseGroupVersion (al_groupVersion l) = Inr gv \<and>
          res \<in> set (al_resources l) \<and> d = listed gv res) \<longleftrightarrow>
      (\<exists>l \<in> set apiLists. \<exists>gv res.
         parseGroupVersion (al_groupVersion l) = Inr gv \<and> gv_group gv \<notin> set ignoredResourceGroups \<and>
         res \<in> set (al_resources l) \<and> keep_resource (map_of partiallyExposedGroups (gv_group gv)) res \<and>
         d = listed gv res)" (is "?l \<longleftrightarrow> ?r")
  proof
    assume ?l
    then obtain l' gv res where l': "l' \<in> set ls" "parseGroupVersion (al_groupVersion l') = Inr gv"
        "res \<in> set (al_resources l')" "d = listed gv res" by blast
    then obtain l where "l \<in> set apiLists" "parseGroupVersion (al_groupVersion l) = Inr gv"
        "gv_group gv \<notin> set ignoredResourceGroups"
        "al_resources l' = filter (keep_resource (map_of partiallyExposedGroups (gv_group gv))) (al_resources l)"
      unfolding kept by auto
    then show ?r using l' by auto
  next
    assume ?r
    then obtain l gv res where l: "l \<in> set apiLists" "parseGroupVersion (al_groupVersion l) = Inr gv"
        "gv_group gv \<notin> set ignoredResourceGroups" "res \<in> set (al_resources l)"
        "keep_resource (map_of partiallyExposedGroups (gv_group gv)) res" "d = listed gv res" by blast
    let ?l' = "l\<lparr>al_resources :=
      filter (keep_resource (map_of partiallyExposedGroups (gv_group gv))) (al_resources l)\<rparr>"
    have "?l' \<in> set ls" unfolding kept using l by blast
    moreover have "parseGroupVersion (al_groupVersion ?l') = Inr gv" "res \<in> set (al_resources ?l')"
      using l by simp_all
    ultimately show ?l using l(6) by blast
  qed
  moreover have "keep_resource (map_of partiallyExposedGroups g) res \<longleftrightarrow>
      ar_namespaced res \<and> CHR ''/'' \<notin> set (ar_name res) \<and>
      (\<forall>names. map_of partiallyExposedGroups g = Some names \<longrightarrow> ar_name res \<in> set names)" for g res
    by (auto simp: keep_resource_def split: option.split)
  ultimately show ?thesis by simp
qed

lemma Discover_exposes_witness:
  "\<exists>r'. Discover (Inr ([\<lparr>ag_name = ''g.app'', ag_preferred = ''v1'', ag_versions = [''v1'']\<rparr>,
                        \<lparr>ag_name = ''iam.grafana.app'', ag_preferred = ''v1'', ag_versions = [''v1'']\<rparr>],
                       [\<lparr>al_groupVersion = ''g.app/v1'', al_resources =
                          [\<lparr>ar_name = ''as'', ar_singular = ''a'', ar_kind = ''A'', ar_group = [],
                            ar_version = [], ar_namespaced = True\<rparr>,
                           \<lparr>ar_name = ''as/status'', ar_singular = ''a'', ar_kind = ''A'', ar_group = [],
                            ar_version = [], ar_namespaced = True\<rparr>]\<rparr>]))
        (NewStaticRegistry :: nat registry) = (None :: unit discover_error option, r') \<and>
     supported (reg_index r') \<lparr>d_gv = \<lparr>gv_group = ''g.app'', gv_version = ''v1''\<rparr>, d_kind = ''A'',
       d_singular = ''a'', d_plural = ''as''\<rparr> \<and>
     \<not> supported (reg_index r') \<lparr>d_gv = \<lparr>gv_group = ''g.app'', gv_version = ''v1''\<rparr>, d_kind = ''A'',
       d_singular = ''a'', d_plural = ''as/status''\<rparr>"
proof -
  let ?res = "\<lambda>n. \<lparr>ar_name = n, ar_singular = ''a'', ar_kind = ''A'', ar_group = [],
    ar_version = [], ar_namespaced = True\<rparr>"
  let ?gs = "[\<lparr>ag_name = ''g.app'', ag_preferred = ''v1'', ag_versions = [''v1'']\<rparr>,
    \<lparr>ag_name = ''iam.grafana.app'', ag_preferred = ''v1'', ag_versions = [''v1'']\<rparr>]"
  let ?ls = "[\<lparr>al_groupVersion = ''g.app/v1'', al_resources = [?res ''as'', ?res ''as/status'']\<rparr>]"
  let ?d = "\<lambda>n. \<lparr>d_gv = \<lparr>gv_group = ''g.app'', gv_version = ''v1''\<rparr>, d_kind = ''A'',
       d_singular = ''a'', d_plural = n\<rparr>"
  have "fst (Discover (Inr (?gs, ?ls)) (NewStaticRegistry :: nat registry)) = (None :: unit discover_error option)"
    by code_simp
  then obtain r' where d: "Discover (Inr (?gs, ?ls)) (NewStaticRegistry :: nat registry) =
      (None :: unit discover_error option, r')"
    by (metis prod.collapse)
  have p: "parseGroupVersion ''g.app/v1'' = Inr \<lparr>gv_group = ''g.app'', gv_version = ''v1''\<rparr>"
    by code_simp
  have neg: "\<not> supported (reg_index r') (?d ''as/status'')"
  proof
    assume "supported (reg_index r') (?d ''as/status'')"
    then obtain gv res where "CHR ''/'' \<notin> set (ar_name res)" "?d ''as/status'' = listed gv res"
      unfolding Discover_exposes [OF d, THEN conjunct1] by blast
    moreover from this(2) have "ar_name res = ''as/status''" by (simp add: listed_def)
    ultimately show False by simp
  qed
  have "supported (reg_index r') (?d ''as'')"
  proof (rule iffD2 [OF Discover_exposes [OF d, THEN conjunct1]], intro bexI exI conjI allI impI)
    show "parseGroupVersion (al_groupVersion (hd ?ls)) = Inr \<lparr>gv_group = ''g.app'', gv_version = ''v1''\<rparr>"
      by (simp add: p)
    show "?res ''as'' \<in> set (al_resources (hd ?ls))" by simp
  qed (simp_all add: listed_def ignoredResourceGroups_def partiallyExposedGroups_def)
  note this neg
  then show ?thesis using d by blast
qed

section \<open>Two readings of one group name\<close>

text \<open>The two lookups read a group name differently when it is both the long name of one group
  and the short name of another: after registering a kind in a group \<open>g\<close> and then in \<open>g.s\<close>,
  \<open>LookupPartialGVK\<close> resolves the group \<open>g\<close> to \<open>g\<close> itself while the lookup of all versions
  returns only the descriptors of \<open>g.s\<close>, so the same selector names different resources depending on
  the command's version option.\<close>

theorem lookups_disagree_on_group:
  fixes g s v v' k :: string
  defines "dA \<equiv> \<lparr>d_gv = \<lparr>gv_group = g, gv_version = v\<rparr>, d_kind = k, d_singular = [], d_plural = []\<rparr>"
    and "dB \<equiv> \<lparr>d_gv = \<lparr>gv_group = g @ CHR ''.'' # s, gv_version = v'\<rparr>, d_kind = k, d_singular = [], d_plural = []\<rparr>"
  assumes "g \<noteq> []" and "CHR ''.'' \<notin> set g" and "k \<noteq> []"
  shows "LookupPartialGVK empty_gvk_registry (RegisterStatic dB [] (RegisterStatic dA [] NewRegistryIndex))
       \<lparr>p_group = g, p_version = [], p_resource = k, p_fallback = []\<rparr> = Some dA \<and>
     LookupAllVersionsForPartialGVK empty_gvk_registry cs dcs
       (RegisterStatic dB [] (RegisterStatic dA [] NewRegistryIndex))
       \<lparr>p_group = g, p_version = [], p_resource = k, p_fallback = []\<rparr> = Some [dB]"
proof -
  define r where r: "r = RegisterStatic dB [] (RegisterStatic dA [] NewRegistryIndex)"
  have ne: "g @ CHR ''.'' # s \<noteq> g" "g \<noteq> g @ CHR ''.'' # s" by auto
  have short: "makeShortName g = g" "makeShortName (g @ CHR ''.'' # s) = g"
    using assms(4) by (simp_all add: makeShortName_def go_split_free go_split_append)
  have cands: "getKindCandidates r k = [descriptor_gk dA, descriptor_gk dB]"
  proof -
    have "bucket (kindNames r) k = [descriptor_gk dA, descriptor_gk dB]"
      unfolding r kindNames_RegisterStatic by (simp add: dA_def dB_def NewRegistryIndex_def)
    moreover have "singularNames r = []" "pluralNames r = []"
      by (simp_all add: r RegisterStatic_def Let_def NewRegistryIndex_def dA_def dB_def)
    ultimately show ?thesis
      by (simp add: getKindCandidates_def descriptor_gk_def dA_def dB_def)
  qed
  have fields: "shortGroups r = [(g, g @ CHR ''.'' # s)]" "set (longGroups r) = {g, g @ CHR ''.'' # s}"
      "preferredVersions r = [(g, d_gv dA), (g @ CHR ''.'' # s, d_gv dB)]"
      "descriptors r = [(d_gv dA, [dA]), (d_gv dB, [dB])]"
    using ne by (auto simp: r RegisterStatic_def NewRegistryIndex_def Let_def short dA_def dB_def
        append_to_def bucket_def)
  have "LookupPartialGVK empty_gvk_registry r
       \<lparr>p_group = g, p_version = [], p_resource = k, p_fallback = []\<rparr> = Some dA"
    using assms(3) ne
    by (simp add: LookupPartialGVK_def cands filterCandidates_def resolved_group_def fields Let_def
        resolveDescriptor_def descriptor_gk_def dA_def bucket_def)
  moreover have "go_range (dcs (g @ CHR ''.'' # s)) (descriptors r) \<in>
      {[(d_gv dA, [dA]), (d_gv dB, [dB])], [(d_gv dB, [dB]), (d_gv dA, [dA])]}"
    unfolding fields(4) insert_iff empty_iff simp_thms by (rule go_range_two)
  then have "LookupAllVersionsForPartialGVK empty_gvk_registry cs dcs r
       \<lparr>p_group = g, p_version = [], p_resource = k, p_fallback = []\<rparr> = Some [dB]"
    using assms(3,5) ne
    by (auto simp: LookupAllVersionsForPartialGVK_def cands filterAllCandidates_def target_groups_def
        fields(1) Let_def versions_of_group_def descriptor_gk_def version_of_entry_def dA_def dB_def)
  ultimately show ?thesis unfolding r ..
qed

lemma lookups_disagree_on_group_witness:
  "LookupPartialGVK empty_gvk_registry
       (RegisterStatic \<lparr>d_gv = \<lparr>gv_group = ''a.b'', gv_version = ''v2''\<rparr>, d_kind = ''K'', d_singular = [], d_plural = []\<rparr> []
         (RegisterStatic \<lparr>d_gv = \<lparr>gv_group = ''a'', gv_version = ''v1''\<rparr>, d_kind = ''K'', d_singular = [], d_plural = []\<rparr> []
           NewRegistryIndex))
       \<lparr>p_group = ''a'', p_version = [], p_resource = ''K'', p_fallback = []\<rparr> =
   Some \<lparr>d_gv = \<lparr>gv_group = ''a'', gv_version = ''v1''\<rparr>, d_kind = ''K'', d_singular = [], d_plural = []\<rparr>"
  using lookups_disagree_on_group [of "''a''" "''K''" "''b''" "''v2''" "''v1''"] by simp

end
