(* ===== verification/Gcx_Slugs.thy ===== *)
theory Gcx_Slugs
  imports Gcx_Prelude
begin

text \<open>
  Names derived from human text: the slugs of \<^verbatim>\<open>internal/resources/adapter/slug.go\<close> and the
  title slugs of \<^verbatim>\<open>internal/resources/local/title_namer.go\<close>, with the composite names and
  the numeric identifiers read back from them. The lemmas show that both slug routines compute the
  same function, that slugs are exactly the fixed points of the routine, and the round trip of
  identifiers.
\<close>

section \<open>Characters\<close>

definition is_lower :: "char \<Rightarrow> bool" where
  "is_lower c \<longleftrightarrow> 97 \<le> (of_char c :: nat) \<and> of_char c \<le> (122 :: nat)"

definition is_upper :: "char \<Rightarrow> bool" where
  "is_upper c \<longleftrightarrow> 65 \<le> (of_char c :: nat) \<and> of_char c \<le> (90 :: nat)"

definition is_digit :: "char \<Rightarrow> bool" where
  "is_digit c \<longleftrightarrow> 48 \<le> (of_char c :: nat) \<and> of_char c \<le> (57 :: nat)"

definition slug_char :: "char \<Rightarrow> bool" where
  "slug_char c \<longleftrightarrow> is_lower c \<or> is_digit c"

text \<open>
  \<^verbatim>\<open>strings.ToLower\<close> on the bytes of a string. Two characters outside ASCII have an ASCII lower
  case: U+0130 (the bytes C4 B0) becomes i, U+212A (E2 84 AA) becomes k. Every other character
  outside ASCII has a lower case outside ASCII, which the code modelled here treats like the
  character itself, so its bytes stay.
\<close>

fun go_lower :: "string \<Rightarrow> string" where
  "go_lower [] = []"
| "go_lower (x # xs) =
     (if is_upper x then char_of ((of_char x :: nat) + 32) # go_lower xs
      else if x = char_of (196 :: nat) \<and> take 1 xs = [char_of (176 :: nat)]
      then CHR ''i'' # go_lower (drop 1 xs)
      else if x = char_of (226 :: nat) \<and> take 2 xs = [char_of (132 :: nat), char_of (170 :: nat)]
      then CHR ''k'' # go_lower (drop 2 xs)
      else x # go_lower xs)"

text \<open>\<^verbatim>\<open>strings.TrimRight\<close> and \<^verbatim>\<open>strings.Trim\<close> with a one byte cutset.\<close>

definition trim_right :: "char \<Rightarrow> string \<Rightarrow> string" where
  "trim_right c s = rev (dropWhile (\<lambda>x. x = c) (rev s))"

definition go_trim :: "char \<Rightarrow> string \<Rightarrow> string" where
  "go_trim c s = trim_right c (dropWhile (\<lambda>x. x = c) s)"

text \<open>\<^verbatim>\<open>ReplaceAllString\<close> of a regular expression \<^verbatim>\<open>[...]+\<close> by a hyphen: \<open>inrun\<close> tells
  that the hyphen of the current run is already written.\<close>

fun replace_runs :: "(char \<Rightarrow> bool) \<Rightarrow> bool \<Rightarrow> string \<Rightarrow> string" where
  "replace_runs P inrun [] = []"
| "replace_runs P inrun (x # xs) =
     (if P x then (if inrun then replace_runs P True xs else CHR ''-'' # replace_runs P True xs)
      else x # replace_runs P False xs)"

section \<open>Slugs\<close>

definition SlugifyName :: "string \<Rightarrow> string" where
  "SlugifyName name =
     (let s = go_lower name;
          s = replace_runs (\<lambda>c. \<not> (slug_char c \<or> c = CHR ''-'')) False s;
          s = replace_runs (\<lambda>c. c = CHR ''-'') False s;
          s = go_trim (CHR ''-'') s
      in if s = [] then ''resource'' else s)"

fun slug_loop :: "string \<Rightarrow> bool \<Rightarrow> string \<Rightarrow> string" where
  "slug_loop slug separator [] = slug"
| "slug_loop slug separator (r # rs) =
     (if slug_char r
      then slug_loop ((if separator \<and> length slug > 0 then slug @ ''-'' else slug) @ [r]) False rs
      else slug_loop slug True rs)"

definition slugOrEmpty :: "string \<Rightarrow> string" where
  "slugOrEmpty value = slug_loop [] False (go_lower value)"

definition titleSlug :: "string \<Rightarrow> string" where
  "titleSlug title = trim_right (CHR ''-'') (take 100 (slugOrEmpty title))"

definition windowsDeviceName :: "string \<Rightarrow> bool" where
  "windowsDeviceName stem =
     (let low = go_lower stem;
          base = (case go_cut (CHR ''.'') low of None \<Rightarrow> low | Some (b, rest) \<Rightarrow> b)
      in if base \<in> {''con'', ''prn'', ''aux'', ''nul''} then True
         else length base = 4 \<and> (take 3 base = ''com'' \<or> take 3 base = ''lpt'') \<and>
              49 \<le> (of_char (base ! 3) :: nat) \<and> of_char (base ! 3) \<le> (57 :: nat))"

definition ComposeName :: "string \<Rightarrow> string \<Rightarrow> string" where
  "ComposeName slug ident = (if slug = [] then ident else slug @ ''-'' @ ident)"

text \<open>\<^verbatim>\<open>strconv.Atoi\<close> and \<^verbatim>\<open>strconv.ParseInt(s, 10, 64)\<close> agree on 64 bit platforms: an
  optional sign, at least one digit, and a value in range.\<close>

fun digits_value :: "nat \<Rightarrow> string \<Rightarrow> nat option" where
  "digits_value acc [] = Some acc"
| "digits_value acc (c # cs) =
     (if is_digit c then digits_value (10 * acc + ((of_char c :: nat) - 48)) cs else None)"

definition parse_int :: "string \<Rightarrow> int option" where
  "parse_int s =
     (let (neg, ds) = (case s of c # cs \<Rightarrow>
              if c = CHR ''-'' then (True, cs) else if c = CHR ''+'' then (False, cs) else (False, s)
            | [] \<Rightarrow> (False, []))
      in if ds = [] then None
         else (case digits_value 0 ds of
                 None \<Rightarrow> None
               | Some n \<Rightarrow>
                   (let v = (if neg then - int n else int n)
                    in if - (2 ^ 63) \<le> v \<and> v < 2 ^ 63 then Some v else None)))"

definition ExtractIDFromSlug :: "string \<Rightarrow> string option" where
  "ExtractIDFromSlug name =
     (if parse_int name \<noteq> None then Some name
      else (case go_cut_last (CHR ''-'') name of
              Some (prefix, suffix) \<Rightarrow> if parse_int suffix \<noteq> None then Some suffix else None
            | None \<Rightarrow> None))"

definition ExtractInt64IDFromSlug :: "string \<Rightarrow> int option" where
  "ExtractInt64IDFromSlug name =
     (case ExtractIDFromSlug name of None \<Rightarrow> None | Some s \<Rightarrow> parse_int s)"

section \<open>Both routines agree\<close>

lemma slug_char_hyphen [simp]: "\<not> slug_char (CHR ''-'')"
  by (simp add: slug_char_def is_lower_def is_digit_def)

lemma slug_char_neq [simp]: "slug_char x \<Longrightarrow> x \<noteq> CHR ''-''"
  by auto

lemma replace_runs_twice:
  "\<not> Q h \<Longrightarrow> h = CHR ''-'' \<Longrightarrow> (f \<longrightarrow> b) \<Longrightarrow>
   replace_runs (\<lambda>c. c = h) b (replace_runs Q f xs) = replace_runs (\<lambda>c. Q c \<or> c = h) b xs"
proof (induction xs arbitrary: f b)
  case (Cons x xs)
  then show ?case by (cases "Q x"; cases "x = h"; cases f; cases b) auto
qed simp

lemma trim_right_Cons: "x \<noteq> c \<Longrightarrow> trim_right c (x # ys) = x # trim_right c ys"
  by (simp add: trim_right_def dropWhile_append3 dropWhile_append)

lemma trim_right_Cons2: "x \<noteq> c \<Longrightarrow> trim_right c (c # x # ys) = c # x # trim_right c ys"
  by (simp add: trim_right_def dropWhile_append)

text \<open>The loop without its accumulator: \<open>started\<close> tells that something is written.\<close>

fun slug_core :: "bool \<Rightarrow> bool \<Rightarrow> string \<Rightarrow> string" where
  "slug_core started sep [] = []"
| "slug_core started sep (x # xs) =
     (if slug_char x
      then (if sep \<and> started then [CHR ''-'', x] else [x]) @ slug_core True False xs
      else slug_core started True xs)"

lemma slug_loop_core: "slug_loop acc sep xs = acc @ slug_core (acc \<noteq> []) sep xs"
  by (induction xs arbitrary: acc sep) auto

lemma trim_replace_started:
  "trim_right (CHR ''-'') ((if sep then [CHR ''-''] else []) @ replace_runs (\<lambda>c. \<not> slug_char c) sep xs)
    = slug_core True sep xs"
proof (induction xs arbitrary: sep)
  case Nil
  then show ?case by (simp add: trim_right_def)
next
  case (Cons x xs)
  show ?case
  proof (cases "slug_char x")
    case True
    then have "x \<noteq> CHR ''-''" by auto
    then show ?thesis using True Cons.IH [of False]
      by (auto simp: trim_right_Cons trim_right_Cons2)
  next
    case False
    then show ?thesis using Cons.IH [of True] by auto
  qed
qed

lemma trim_replace:
  "go_trim (CHR ''-'') (replace_runs (\<lambda>c. \<not> slug_char c) sep xs) = slug_core False sep xs"
proof (induction xs arbitrary: sep)
  case Nil
  then show ?case by (simp add: go_trim_def trim_right_def)
next
  case (Cons x xs)
  show ?case
  proof (cases "slug_char x")
    case True
    then have "x \<noteq> CHR ''-''" by auto
    then show ?thesis using True trim_replace_started [of False xs]
      by (simp add: go_trim_def trim_right_Cons)
  next
    case False
    then show ?thesis using Cons.IH [of True] by (auto simp: go_trim_def)
  qed
qed

lemma SlugifyName_core:
  "SlugifyName name =
     (let s = slug_core False False (go_lower name) in if s = [] then ''resource'' else s)"
proof -
  have "(\<lambda>c. \<not> (slug_char c \<or> c = CHR ''-'') \<or> c = CHR ''-'') = (\<lambda>c. \<not> slug_char c)"
    by auto
  then show ?thesis
    using replace_runs_twice [of "\<lambda>c. \<not> (slug_char c \<or> c = CHR ''-'')" "CHR ''-''" False False "go_lower name"]
    by (simp add: SlugifyName_def trim_replace Let_def)
qed

text \<open>C10. The single pass routine of the title namer and the regular expression pipeline of the
  adapters compute the same slug; they differ only on text without any letter or digit, where the
  pipeline answers with a fixed word and the title namer with the empty string.\<close>

theorem SlugifyName_slugOrEmpty:
  "SlugifyName s = (if slugOrEmpty s = [] then ''resource'' else slugOrEmpty s)"
  by (simp add: SlugifyName_core slugOrEmpty_def slug_loop_core Let_def)

section \<open>Slugs are the fixed points\<close>

text \<open>Lower case letters and digits in groups separated by single hyphens; \<open>prev\<close> tells that the
  previous character was a letter or digit.\<close>

fun slug_ok :: "bool \<Rightarrow> string \<Rightarrow> bool" where
  "slug_ok prev [] = prev"
| "slug_ok prev (x # xs) =
     (if slug_char x then slug_ok True xs else x = CHR ''-'' \<and> prev \<and> slug_ok False xs)"

lemma slug_core_ok: "slug_ok True (slug_core True sep xs)"
  by (induction xs arbitrary: sep) (auto split: if_splits)

lemma slug_core_ok_start:
  "slug_core False sep xs = [] \<or> slug_ok False (slug_core False sep xs)"
proof (induction xs arbitrary: sep)
  case (Cons x xs)
  then show ?case using slug_core_ok by auto
qed simp

lemma slug_core_fixed:
  "slug_ok True xs \<Longrightarrow> slug_core True False xs = xs"
  "slug_ok False xs \<Longrightarrow> slug_core True True xs = CHR ''-'' # xs"
  "slug_ok False xs \<Longrightarrow> slug_core False False xs = xs"
  by (induction xs) (auto split: if_splits)

lemma slug_char_ascii: "slug_char c \<Longrightarrow> \<not> is_upper c \<and> (of_char c :: nat) < 128"
  by (auto simp: slug_char_def is_lower_def is_digit_def is_upper_def)

lemma go_lower_slug: "slug_ok b xs \<Longrightarrow> go_lower xs = xs"
proof (induction xs arbitrary: b)
  case (Cons x xs)
  have x: "slug_char x \<or> x = CHR ''-''" using Cons.prems by (auto split: if_splits)
  then have "\<not> is_upper x \<and> (of_char x :: nat) < 128"
    using slug_char_ascii by (auto simp: is_upper_def)
  then have "\<not> is_upper x" "x \<noteq> char_of (196 :: nat)" "x \<noteq> char_of (226 :: nat)" by auto
  then show ?case using Cons by (auto split: if_splits)
qed simp

text \<open>The names \<open>SlugifyName\<close> leaves unchanged are exactly the nonempty groups of lower case
  letters and digits separated by single hyphens, and every name it returns is one of them: slugs
  are valid Kubernetes names and slugifying twice changes nothing.\<close>

theorem SlugifyName_fixed_points:
  "(SlugifyName s = s \<longleftrightarrow> slug_ok False s) \<and> slug_ok False (SlugifyName s) \<and>
   SlugifyName (SlugifyName s) = SlugifyName s"
proof -
  have res: "slug_ok False ''resource''" by code_simp
  have ok: "slug_ok False (SlugifyName s)" for s
    using slug_core_ok_start [of False "go_lower s"] res
    by (auto simp: SlugifyName_core Let_def simp del: slug_ok.simps)
  moreover have fixed: "SlugifyName s = s" if "slug_ok False s" for s
    using that by (auto simp: SlugifyName_core go_lower_slug slug_core_fixed)
  ultimately show ?thesis by metis
qed

lemma slug_ok_char: "slug_ok b xs \<Longrightarrow> x \<in> set xs \<Longrightarrow> slug_char x \<or> x = CHR ''-''"
  by (induction xs arbitrary: b) (auto split: if_splits)

lemma trim_right_take_ok:
  "slug_ok True xs \<Longrightarrow> slug_ok True (trim_right (CHR ''-'') (take n xs))"
  "slug_ok False xs \<Longrightarrow>
     slug_ok True (trim_right (CHR ''-'') (CHR ''-'' # take n xs))"
proof (induction xs arbitrary: n)
  case (Cons x xs)
  {
    case 1
    show ?case
    proof (cases n)
      case 0
      then show ?thesis by (simp add: trim_right_def)
    next
      case (Suc m)
      then show ?thesis using 1 Cons.IH [of m] by (auto simp: trim_right_Cons split: if_splits)
    qed
  next
    case 2
    then have x: "slug_char x" "slug_ok True xs" by (auto split: if_splits)
    then have "x \<noteq> CHR ''-''" by auto
    then show ?case using x Cons.IH(1)
      by (cases n) (auto simp: trim_right_Cons2, simp add: trim_right_def)
  }
qed (auto simp: trim_right_def)

text \<open>The stem of a title based filename has at most 100 characters and is either empty, so
  that the caller falls back to the resource name, or a valid slug: the truncation never leaves a
  trailing hyphen, and the file name never contains a separator, a dot or an upper case letter.\<close>

theorem titleSlug_safe:
  "length (titleSlug title) \<le> 100 \<and> (titleSlug title = [] \<or> slug_ok False (titleSlug title)) \<and>
   CHR ''/'' \<notin> set (titleSlug title) \<and> CHR ''.'' \<notin> set (titleSlug title)"
proof -
  let ?s = "slugOrEmpty title"
  have len: "length (trim_right c s) \<le> length s" for c s
    using length_dropWhile_le [of "\<lambda>x. x = c" "rev s"] by (simp add: trim_right_def)
  have l: "length (titleSlug title) \<le> 100"
    using len [of "CHR ''-''" "take 100 ?s"] by (simp add: titleSlug_def)
  have "?s = [] \<or> slug_ok False ?s"
    using slug_core_ok_start [of False "go_lower title"] by (simp add: slugOrEmpty_def slug_loop_core)
  then have ok: "titleSlug title = [] \<or> slug_ok False (titleSlug title)"
  proof
    assume "slug_ok False ?s"
    then obtain x xs where s: "?s = x # xs" "slug_char x" "slug_ok True xs"
      by (cases ?s) (auto split: if_splits)
    then have "x \<noteq> CHR ''-''" by auto
    then have "titleSlug title = x # trim_right (CHR ''-'') (take 99 xs)"
      by (simp add: titleSlug_def s(1) trim_right_Cons)
    then show ?thesis using s trim_right_take_ok(1) [OF s(3), of 99] by simp
  qed (simp add: titleSlug_def trim_right_def)
  have "\<not> slug_char (CHR ''/'')" "\<not> slug_char (CHR ''.'')"
    by (simp_all add: slug_char_def is_lower_def is_digit_def)
  then show ?thesis using l ok slug_ok_char [of False "titleSlug title"] by auto
qed

section \<open>Identifiers in names\<close>

lemma digits_value_None_char: "c \<in> set ds \<Longrightarrow> \<not> is_digit c \<Longrightarrow> digits_value acc ds = None"
  by (induction ds arbitrary: acc) auto

lemma digits_value_digit: "digits_value acc ds = Some n \<Longrightarrow> c \<in> set ds \<Longrightarrow> is_digit c"
  using digits_value_None_char by fastforce

lemma not_digit_sign [simp]: "\<not> is_digit (CHR ''-'')" "\<not> is_digit (CHR ''+'')"
  by (simp_all add: is_digit_def)

lemma digits_value_hyphen [simp]: "digits_value acc (s @ CHR ''-'' # t) = None"
  by (rule digits_value_None_char [of "CHR ''-''"]) simp_all

lemma parse_int_inner_hyphen: "s \<noteq> [] \<Longrightarrow> parse_int (s @ CHR ''-'' # t) = None"
  using digits_value_hyphen [of 0 s t] by (cases s) (auto simp: parse_int_def)

text \<open>A numeric identifier survives its composition with any slug: extracting from the composed
  name returns exactly the identifier and its value, for every identifier in the range of a 64 bit
  integer that is written without a minus sign.\<close>

theorem ExtractID_ComposeName:
  assumes "parse_int ident = Some v" and "CHR ''-'' \<notin> set ident"
  shows "ExtractIDFromSlug (ComposeName slug ident) = Some ident \<and>
    ExtractInt64IDFromSlug (ComposeName slug ident) = Some v"
proof (cases "slug = []")
  case True
  then show ?thesis using assms
    by (simp add: ExtractIDFromSlug_def ExtractInt64IDFromSlug_def ComposeName_def)
next
  case False
  have "go_cut_last (CHR ''-'') (slug @ CHR ''-'' # ident) = Some (slug, ident)"
    using assms(2) by (simp add: go_cut_last_Some)
  then show ?thesis using False assms parse_int_inner_hyphen [OF False, of ident]
    by (simp add: ExtractIDFromSlug_def ExtractInt64IDFromSlug_def ComposeName_def)
qed

lemma ExtractID_ComposeName_witness:
  "ExtractIDFromSlug (ComposeName ''web-check'' ''8127'') = Some ''8127'' \<and>
   ExtractInt64IDFromSlug (ComposeName ''web-check'' ''8127'') = Some 8127"
proof -
  have "parse_int ''8127'' = Some 8127" by code_simp
  from ExtractID_ComposeName [OF this, of "''web-check''"] show ?thesis by simp
qed

end
