(* ===== verification/Gcx_Objects.thy ===== *)
theory Gcx_Objects
  imports Gcx_Selectors Gcx_Slugs
begin

text \<open>
  The objects gcx moves: the unstructured Kubernetes object, the resource built on it and the
  collection of resources (\<^verbatim>\<open>internal/resources/resources.go\<close>), the identity of native
  alerting objects whose API names the server derives (\<^verbatim>\<open>native_identity.go\<close>), the natural
  keys of providers (\<^verbatim>\<open>adapter/natural_key.go\<close>) and the processors of
  \<^verbatim>\<open>internal/resources/process\<close>. The lemmas show which objects share an identity, that adding
  distinct resources loses none, and that pulling removes what pushing adds.
\<close>

section \<open>Unstructured objects\<close>

text \<open>
  The content of an \<^verbatim>\<open>unstructured.Unstructured\<close>: apiVersion and kind, the metadata fnames,
  annotations and labels, the spec, and the other top level fnames. A value is a string or something
  else. Keys that are constants of the Grafana library are constructors, since their text is not part
  of this code.
\<close>

datatype anno_key =
    AnnoKeyCreatedBy | AnnoKeyUpdatedBy | AnnoKeyUpdatedTimestamp
  | AnnoKeyManagerKind | AnnoKeyManagerIdentity | AnnoKeyManagerSuspended | AnnoKeyManagerAllowsEdits
  | AnnoKeySourcePath | AnnoKeySourceChecksum | AnnoKeySourceTimestamp
  | AnnoKeyFolder | AnnoOther string

datatype label_key = LabelKeyDeprecatedInternalID | LabelOther string

datatype field_value = StrValue string | OtherValue nat

datatype spec_value = NoSpec | SpecMap "(string \<times> field_value) list" | SpecOther nat

record uobj =
  u_gvk :: group_version_kind
  u_meta :: "(string \<times> field_value) list"
  u_annotations :: "(anno_key \<times> string) list"
  u_labels :: "(label_key \<times> string) list"
  u_spec :: spec_value
  u_extra :: "(string \<times> field_value) list"

definition meta_string :: "string \<Rightarrow> uobj \<Rightarrow> string" where
  "meta_string field u = (case map_of (u_meta u) field of Some (StrValue s) \<Rightarrow> s | _ \<Rightarrow> [])"

definition set_meta :: "string \<Rightarrow> string \<Rightarrow> uobj \<Rightarrow> uobj" where
  "set_meta field s u =
     u\<lparr>u_meta := (if s = [] then AList.delete field (u_meta u)
                  else AList.update field (StrValue s) (u_meta u))\<rparr>"

abbreviation GetName :: "uobj \<Rightarrow> string" where "GetName \<equiv> meta_string ''name''"
abbreviation GetNamespace :: "uobj \<Rightarrow> string" where "GetNamespace \<equiv> meta_string ''namespace''"
abbreviation GetResourceVersion :: "uobj \<Rightarrow> string" where "GetResourceVersion \<equiv> meta_string ''resourceVersion''"
abbreviation GetUID :: "uobj \<Rightarrow> string" where "GetUID \<equiv> meta_string ''uid''"

text \<open>\<^verbatim>\<open>unstructured.NestedString(obj, "spec", field)\<close>: absent, a string, or an error.\<close>

datatype nested_string = NotFound | Found string | Malformed

definition spec_string :: "uobj \<Rightarrow> string \<Rightarrow> nested_string" where
  "spec_string u field =
     (case u_spec u of
        NoSpec \<Rightarrow> NotFound
      | SpecOther n \<Rightarrow> Malformed
      | SpecMap m \<Rightarrow>
          (case map_of m field of
             None \<Rightarrow> NotFound | Some (StrValue s) \<Rightarrow> Found s | Some (OtherValue n) \<Rightarrow> Malformed))"

text \<open>The string result alone, as code that ignores the other results reads it.\<close>

definition spec_string_or_empty :: "uobj \<Rightarrow> string \<Rightarrow> string" where
  "spec_string_or_empty u field = (case spec_string u field of Found s \<Rightarrow> s | _ \<Rightarrow> [])"

definition annotation :: "uobj \<Rightarrow> anno_key \<Rightarrow> string" where
  "annotation u k = (case map_of (u_annotations u) k of Some v \<Rightarrow> v | None \<Rightarrow> [])"

lemma meta_string_set_meta [simp]:
  "meta_string f (set_meta g s u) = (if f = g then s else meta_string f u)"
  by (auto simp: meta_string_def set_meta_def go_map delete_conv' restrict_map_def split: option.splits)

lemma set_meta_other [simp]:
  "u_gvk (set_meta f s u) = u_gvk u" "u_spec (set_meta f s u) = u_spec u"
  "u_annotations (set_meta f s u) = u_annotations u" "u_labels (set_meta f s u) = u_labels u"
  by (simp_all add: set_meta_def)

section \<open>Native identities\<close>

definition HasServerDerivedName :: "group_version_kind \<Rightarrow> bool" where
  "HasServerDerivedName gvk \<longleftrightarrow>
     gvk_group gvk = ''notifications.alerting.grafana.app'' \<and>
     (gvk_kind gvk = ''TimeInterval'' \<or> gvk_kind gvk = ''TemplateGroup'')"

definition provenance_key :: anno_key where
  "provenance_key = AnnoOther ''grafana.com/provenance''"

definition IsReadOnlyNative :: "uobj \<Rightarrow> bool" where
  "IsReadOnlyNative obj \<longleftrightarrow>
     (if \<not> HasServerDerivedName (u_gvk obj) then False
      else if spec_string_or_empty obj ''kind'' = ''mimir'' then True
      else annotation obj provenance_key \<in> {''system'', ''converted_prometheus'', ''file''})"

definition native_field :: "uobj \<Rightarrow> string" where
  "native_field obj = (if gvk_kind (u_gvk obj) = ''TemplateGroup'' then ''title'' else ''name'')"

datatype native_error = NoIdentityPolicy group_version_kind | FieldMustBeString string | KindMustBeKnown

text \<open>\<^verbatim>\<open>NativeIdentity\<close>: an error, or the identity and the read-only flag.\<close>

definition NativeIdentity :: "uobj \<Rightarrow> native_error + string \<times> bool" where
  "NativeIdentity obj =
     (if \<not> HasServerDerivedName (u_gvk obj) then Inl (NoIdentityPolicy (u_gvk obj))
      else (case spec_string obj (native_field obj) of
              Found title \<Rightarrow>
                if title = [] then Inl (FieldMustBeString (native_field obj))
                else if gvk_kind (u_gvk obj) = ''TimeInterval'' then Inr (title, IsReadOnlyNative obj)
                else (case spec_string obj ''kind'' of
                        Malformed \<Rightarrow> Inl KindMustBeKnown
                      | found \<Rightarrow>
                          (let kind = (case found of Found k \<Rightarrow> k | _ \<Rightarrow> ''grafana'') in
                           if kind \<noteq> ''grafana'' \<and> kind \<noteq> ''mimir'' then Inl KindMustBeKnown
                           else Inr (kind @ CHR 0x00 # title, IsReadOnlyNative obj)))
            | _ \<Rightarrow> Inl (FieldMustBeString (native_field obj))))"

definition PrepareNativeCreate :: "uobj \<Rightarrow> uobj" where
  "PrepareNativeCreate obj =
     (if \<not> HasServerDerivedName (u_gvk obj) then obj
      else obj\<lparr>u_meta := fold AList.delete
             [''name'', ''generateName'', ''resourceVersion'', ''uid'', ''generation'',
              ''creationTimestamp'', ''deletionTimestamp'', ''deletionGracePeriodSeconds'',
              ''managedFields''] (u_meta obj)\<rparr>)"

text \<open>\<^verbatim>\<open>ReadOnlyNativeError\<close>: kind, title and guidance of its message.\<close>

definition ReadOnlyNativeError :: "uobj \<Rightarrow> string \<times> string \<times> string" where
  "ReadOnlyNativeError obj =
     (let provenance = annotation obj provenance_key in
      (gvk_kind (u_gvk obj), spec_string_or_empty obj (native_field obj),
       if provenance = ''system'' then ''it is built into Grafana and cannot be changed''
       else if provenance = ''file'' then ''it is provisioned from a file; change the provisioning file''
       else ''it was imported from an external Alertmanager configuration; change it there or finish the import in Grafana''))"

text \<open>The kind of template group an object denotes, \<^verbatim>\<open>grafana\<close> when the spec has none.\<close>

definition template_kind :: "uobj \<Rightarrow> string" where
  "template_kind obj = (case spec_string obj ''kind'' of Found k \<Rightarrow> k | _ \<Rightarrow> ''grafana'')"

lemma NativeIdentity_Inr:
  "NativeIdentity obj = Inr (i, ro) \<longleftrightarrow>
     HasServerDerivedName (u_gvk obj) \<and> ro = IsReadOnlyNative obj \<and>
     (\<exists>title. spec_string obj (native_field obj) = Found title \<and> title \<noteq> [] \<and>
       (if gvk_kind (u_gvk obj) = ''TimeInterval'' then i = title
        else spec_string obj ''kind'' \<noteq> Malformed \<and> template_kind obj \<in> {''grafana'', ''mimir''} \<and>
             i = template_kind obj @ CHR 0x00 # title))"
  by (auto simp: NativeIdentity_def template_kind_def Let_def split: nested_string.splits)

lemma kind_prefix_inj:
  assumes "k \<in> {''grafana'', ''mimir''}" "k' \<in> {''grafana'', ''mimir''}"
    and "k @ CHR 0x00 # t = k' @ CHR 0x00 # t'"
  shows "k = k' \<and> t = t'"
proof -
  have k: "CHR 0x00 \<notin> set k" and k': "CHR 0x00 \<notin> set k'"
    using assms(1,2) by auto
  have "Some (k, t) = go_cut (CHR 0x00) (k @ CHR 0x00 # t)" by (rule go_cut_append [OF k, symmetric])
  also have "\<dots> = go_cut (CHR 0x00) (k' @ CHR 0x00 # t')" by (rule arg_cong [OF assms(3)])
  also have "\<dots> = Some (k', t')" by (rule go_cut_append [OF k'])
  finally show ?thesis by (simp only: option.inject prod.inject)
qed

text \<open>Native identities are collision free: two objects of the same server named kind have the
  same identity exactly when they have the same title and, for template groups, the same kind of
  group, where a group without a kind counts as a Grafana group.\<close>

theorem NativeIdentity_injective:
  assumes "NativeIdentity a = Inr (i, ra)" and "NativeIdentity b = Inr (j, rb)"
    and "gvk_kind (u_gvk a) = gvk_kind (u_gvk b)"
  shows "i = j \<longleftrightarrow>
    spec_string a (native_field a) = spec_string b (native_field b) \<and>
    (gvk_kind (u_gvk a) = ''TemplateGroup'' \<longrightarrow> template_kind a = template_kind b)"
proof -
  obtain s t where s: "spec_string a (native_field a) = Found s" and t: "spec_string b (native_field b) = Found t"
    using assms(1,2) unfolding NativeIdentity_Inr by blast
  show ?thesis
  proof (cases "gvk_kind (u_gvk a) = ''TimeInterval''")
    case True
    then show ?thesis using assms s t unfolding NativeIdentity_Inr by auto
  next
    case False
    then have k: "gvk_kind (u_gvk a) = ''TemplateGroup''"
      using assms(1) by (auto simp: NativeIdentity_Inr HasServerDerivedName_def)
    then have ab: "template_kind a \<in> {''grafana'', ''mimir''}" "template_kind b \<in> {''grafana'', ''mimir''}"
        "i = template_kind a @ CHR 0x00 # s" "j = template_kind b @ CHR 0x00 # t"
      using assms s t unfolding NativeIdentity_Inr by (auto split: if_splits)
    have "i = j \<longleftrightarrow> template_kind a = template_kind b \<and> s = t"
      using kind_prefix_inj [OF ab(1,2), of s t] unfolding ab(3,4) by blast
    then show ?thesis unfolding s t using k by auto
  qed
qed

definition sample_group :: "string \<Rightarrow> string \<Rightarrow> uobj" where
  "sample_group nm title =
     \<lparr>u_gvk = \<lparr>gvk_group = ''notifications.alerting.grafana.app'', gvk_version = ''v1'', gvk_kind = ''TemplateGroup''\<rparr>,
      u_meta = (if nm = [] then [] else [(''name'', StrValue nm)]), u_annotations = [], u_labels = [],
      u_spec = SpecMap [(''title'', StrValue title)], u_extra = []\<rparr>"

lemma NativeIdentity_injective_witness:
  "NativeIdentity (sample_group [] ''a'') \<noteq> NativeIdentity (sample_group [] ''b'')"
proof -
  have a: "NativeIdentity (sample_group [] ''a'') = Inr (''grafana'' @ CHR 0x00 # ''a'', False)"
    by code_simp
  have b: "NativeIdentity (sample_group [] ''b'') = Inr (''grafana'' @ CHR 0x00 # ''b'', False)"
    by code_simp
  have s: "spec_string (sample_group [] t) (native_field (sample_group [] t)) = Found t" for t
    by (simp add: sample_group_def spec_string_def native_field_def)
  show ?thesis using NativeIdentity_injective [OF a b] a b
    by (simp add: s)
qed

section \<open>Resources\<close>

text \<open>
  A resource points to an object; \<open>res_id\<close> is the identity of the Go pointer, which
  \<^verbatim>\<open>Ref\<close> prints for one kind of invalid object. An empty resource is one without accessor.
\<close>

record resource =
  res_id :: nat
  res_empty :: bool
  res_obj :: uobj
  res_source :: string

text \<open>
  The manager and source accessors of the Grafana library: the kind of the manager the annotations
  declare, and the annotations after declaring a manager (kind, identity, allowed edits) or a source
  path. \<open>pf_kubectl\<close> is the library's constant \<^verbatim>\<open>ManagerKindKubectl\<close>.
\<close>

record platform =
  pf_kubectl :: string
  pf_manager_kind :: "(anno_key \<times> string) list \<Rightarrow> string option"
  pf_set_manager :: "string \<Rightarrow> string \<Rightarrow> bool \<Rightarrow> (anno_key \<times> string) list \<Rightarrow> (anno_key \<times> string) list"
  pf_set_source :: "string \<Rightarrow> (anno_key \<times> string) list \<Rightarrow> (anno_key \<times> string) list"

definition res_gvk :: "resource \<Rightarrow> group_version_kind" where
  "res_gvk r = u_gvk (res_obj r)"

definition res_name :: "resource \<Rightarrow> string" where
  "res_name r = GetName (res_obj r)"

definition res_namespace :: "resource \<Rightarrow> string" where
  "res_namespace r = GetNamespace (res_obj r)"

definition GetManagerKind :: "platform \<Rightarrow> resource \<Rightarrow> string" where
  "GetManagerKind pf r =
     (case pf_manager_kind pf (u_annotations (res_obj r)) of None \<Rightarrow> pf_kubectl pf | Some k \<Rightarrow> k)"

definition IsManaged :: "platform \<Rightarrow> resource \<Rightarrow> bool" where
  "IsManaged pf r \<longleftrightarrow> GetManagerKind pf r = pf_kubectl pf"

definition IsFolder :: "resource \<Rightarrow> bool" where
  "IsFolder r \<longleftrightarrow> gvk_group (res_gvk r) = ''folder.grafana.app'' \<and> gvk_kind (res_gvk r) = ''Folder''"

definition GetFolder :: "resource \<Rightarrow> string" where
  "GetFolder r = annotation (res_obj r) AnnoKeyFolder"

text \<open>
  \<^verbatim>\<open>ResourceRef\<close>: one constructor for each format. The printed forms of different
  constructors differ (all but the first start with a NUL byte), quoting makes each form injective
  in its parts, and the first one joins namespace and name with a hyphen, as the code does.
  \<open>RefDistinct\<close> is the numbered reference of \<^verbatim>\<open>AddDistinct\<close>.
\<close>

datatype resource_ref =
    RefObject group_version_kind string
  | RefInvalidSource string
  | RefInvalidInstance nat
  | RefNative group_version_kind string string
  | RefDistinct resource_ref nat

definition Ref :: "resource \<Rightarrow> resource_ref" where
  "Ref r =
     (if res_name r = [] \<and> HasServerDerivedName (res_gvk r)
      then (case NativeIdentity (res_obj r) of
              Inl e \<Rightarrow>
                if res_source r \<noteq> [] then RefInvalidSource (res_source r)
                else RefInvalidInstance (res_id r)
            | Inr (identity, ro) \<Rightarrow> RefNative (res_gvk r) (res_namespace r) identity)
      else RefObject (res_gvk r) (res_namespace r @ ''-'' @ res_name r))"

section \<open>Collections\<close>

type_synonym resources = "(resource_ref \<times> resource) list"

text \<open>\<^verbatim>\<open>Add\<close> of one resource; several are added in turn.\<close>

definition Add1 :: "resource \<Rightarrow> resources \<Rightarrow> resources" where
  "Add1 r coll = AList.update (Ref r) r coll"

definition Add :: "resource list \<Rightarrow> resources \<Rightarrow> resources" where
  "Add rs coll = fold Add1 rs coll"

definition NewResources :: "resource list \<Rightarrow> resources" where
  "NewResources rs = Add rs []"

text \<open>The search of \<^verbatim>\<open>AddDistinct\<close> for an unused key, with fuel; one more than the size of the
  collection is enough (\<open>fresh_key_total\<close>).\<close>

fun fresh_key :: "nat \<Rightarrow> resources \<Rightarrow> resource_ref \<Rightarrow> resource_ref \<Rightarrow> nat \<Rightarrow> resource_ref option" where
  "fresh_key 0 coll ref key n = None"
| "fresh_key (Suc fuel) coll ref key n =
     (if map_of coll key = None then Some key
      else fresh_key fuel coll ref (RefDistinct ref n) (Suc n))"

definition AddDistinct :: "resource \<Rightarrow> resources \<Rightarrow> resources option" where
  "AddDistinct r coll =
     (case fresh_key (length coll + 2) coll (Ref r) (Ref r) 1 of
        None \<Rightarrow> None | Some key \<Rightarrow> Some (AList.update key r coll))"

definition Find :: "nat list \<Rightarrow> resources \<Rightarrow> string \<Rightarrow> string \<Rightarrow> resource option" where
  "Find cs coll kind name =
     find (\<lambda>r. gvk_kind (res_gvk r) = kind \<and> res_name r = name) (map snd (go_range cs coll))"

definition ForEach ::
    "nat list \<Rightarrow> (resource \<Rightarrow> 's \<Rightarrow> 'e option \<times> 's) \<Rightarrow> resources \<Rightarrow> 's \<Rightarrow> 'e option \<times> 's" where
  "ForEach cs callback coll s = for_each callback (map snd (go_range cs coll)) s"

definition Merge :: "nat list \<Rightarrow> resources \<Rightarrow> resources \<Rightarrow> resources" where
  "Merge cs coll other =
     snd (ForEach cs (\<lambda>r c. (None :: unit option, Add1 r c)) other coll)"

text \<open>\<^verbatim>\<open>ForEachConcurrently\<close> runs an errgroup; the schedule orders the callbacks, the limit on
  callbacks in flight restricts which orders occur and is left out.\<close>

definition ForEachConcurrently ::
    "nat list \<Rightarrow> ('s \<Rightarrow> 's) \<Rightarrow> (resource \<Rightarrow> 's \<Rightarrow> 'e option \<times> 's) \<Rightarrow> resources \<Rightarrow> 's \<Rightarrow> 'e option \<times> 's" where
  "ForEachConcurrently cs cancel callback coll s =
     run_group cancel callback None (map snd (go_range cs coll)) s"

definition compareResources_key :: "uobj \<Rightarrow> string \<times> string \<times> string \<times> string" where
  "compareResources_key u =
     (gvk_group (u_gvk u), gvk_version (u_gvk u), gvk_kind (u_gvk u), GetName u)"

definition AsList :: "nat list \<Rightarrow> resources \<Rightarrow> resource list" where
  "AsList cs coll = sort_key (\<lambda>r. compareResources_key (res_obj r)) (map snd (go_range cs coll))"

definition GroupByKind :: "nat list \<Rightarrow> resources \<Rightarrow> (string \<times> resources) list" where
  "GroupByKind cs coll =
     snd (ForEach cs (\<lambda>r m.
       (None :: unit option,
        AList.update (gvk_kind (res_gvk r)) (Add1 r (bucket m (gvk_kind (res_gvk r)))) m)) coll [])"

definition ToUnstructuredList :: "nat list \<Rightarrow> resources \<Rightarrow> uobj list" where
  "ToUnstructuredList cs coll =
     snd (ForEach cs (\<lambda>r items. (None :: unit option, items @ [res_obj r])) coll [])"

definition SortUnstructured :: "uobj list \<Rightarrow> uobj list" where
  "SortUnstructured items = sort_key compareResources_key items"

section \<open>Natural keys\<close>

record natural_key_policy =
  RequireUnique :: bool
  IDLabel :: string

record natural_key_registration =
  nk_extractor :: "uobj \<Rightarrow> string option"
  nk_policy :: natural_key_policy

type_synonym natural_key_registry = "(group_version_kind \<times> natural_key_registration) list"

definition default_policy :: natural_key_policy where
  "default_policy = \<lparr>RequireUnique = False, IDLabel = []\<rparr>"

definition RegisterNaturalKeyWithPolicy ::
    "group_version_kind \<Rightarrow> (uobj \<Rightarrow> string option) \<Rightarrow> natural_key_policy \<Rightarrow> natural_key_registry
      \<Rightarrow> natural_key_registry" where
  "RegisterNaturalKeyWithPolicy gvk fn policy m =
     AList.update gvk \<lparr>nk_extractor = fn, nk_policy = policy\<rparr> m"

definition RegisterNaturalKey ::
    "group_version_kind \<Rightarrow> (uobj \<Rightarrow> string option) \<Rightarrow> natural_key_registry \<Rightarrow> natural_key_registry" where
  "RegisterNaturalKey gvk fn m = RegisterNaturalKeyWithPolicy gvk fn default_policy m"

definition GetNaturalKeyExtractor ::
    "natural_key_registry \<Rightarrow> group_version_kind \<Rightarrow> (uobj \<Rightarrow> string option) option" where
  "GetNaturalKeyExtractor m gvk = map_option nk_extractor (map_of m gvk)"

definition GetNaturalKeyPolicy :: "natural_key_registry \<Rightarrow> group_version_kind \<Rightarrow> natural_key_policy" where
  "GetNaturalKeyPolicy m gvk =
     (case map_of m gvk of Some reg \<Rightarrow> nk_policy reg | None \<Rightarrow> default_policy)"

fun spec_field_parts :: "(string \<times> field_value) list \<Rightarrow> string list \<Rightarrow> string list option" where
  "spec_field_parts spec [] = Some []"
| "spec_field_parts spec (field # fnames) =
     (case map_of spec field of
        Some (StrValue s) \<Rightarrow>
          if s = [] then None
          else map_option (\<lambda>parts. SlugifyName s # parts) (spec_field_parts spec fnames)
      | _ \<Rightarrow> None)"

definition SpecFieldKey :: "string list \<Rightarrow> uobj \<Rightarrow> string option" where
  "SpecFieldKey fnames obj =
     (case u_spec obj of
        SpecMap spec \<Rightarrow> map_option (go_join ''/'') (spec_field_parts spec fnames)
      | _ \<Rightarrow> None)"

section \<open>Processors\<close>

text \<open>A processor returns an error or the processed resource.\<close>

type_synonym 'e processor = "resource \<Rightarrow> 'e + resource"

definition ManagerIdentity :: string where
  "ManagerIdentity = ''gcx''"

definition ManagerFieldsAppender :: "platform \<Rightarrow> 'e processor" where
  "ManagerFieldsAppender pf r =
     (if res_empty r then Inr r
      else if \<not> IsManaged pf r then Inr r
      else Inr (r\<lparr>res_obj := (res_obj r)\<lparr>u_annotations :=
             pf_set_source pf (''file://'' @ res_source r)
               (pf_set_manager pf (pf_kubectl pf) ManagerIdentity True (u_annotations (res_obj r)))\<rparr>\<rparr>))"

definition NamespaceOverrider :: "string \<Rightarrow> 'e processor" where
  "NamespaceOverrider targetNamespace r =
     (if res_empty r then Inr r
      else Inr (r\<lparr>res_obj := set_meta ''namespace'' targetNamespace (res_obj r)\<rparr>))"

definition server_anno_keys :: "anno_key list" where
  "server_anno_keys = [AnnoKeyCreatedBy, AnnoKeyUpdatedBy, AnnoKeyUpdatedTimestamp]"

definition manager_anno_keys :: "anno_key list" where
  "manager_anno_keys =
     [AnnoKeyManagerKind, AnnoKeyManagerIdentity, AnnoKeyManagerSuspended, AnnoKeyManagerAllowsEdits,
      AnnoKeySourcePath, AnnoKeySourceChecksum, AnnoKeySourceTimestamp]"

text \<open>
  \<^verbatim>\<open>ServerFieldsStripper\<close>. The accessor \<open>spec\<close> (third party) may fail; it is an argument.
  Metadata fields with empty name or namespace read back as empty strings.
\<close>

definition ServerFieldsStripper :: "platform \<Rightarrow> (uobj \<Rightarrow> 'e + spec_value) \<Rightarrow> 'e processor" where
  "ServerFieldsStripper pf get_spec r =
     (if res_empty r then Inr r
      else (case get_spec (res_obj r) of
              Inl e \<Rightarrow> Inl e
            | Inr spec \<Rightarrow>
                (let obj = res_obj r;
                     annotations = fold AList.delete server_anno_keys (u_annotations obj);
                     annotations =
                       (if pf_manager_kind pf (u_annotations obj) = Some (pf_kubectl pf)
                        then fold AList.delete manager_anno_keys annotations else annotations);
                     labels = AList.delete LabelKeyDeprecatedInternalID (u_labels obj)
                 in Inr (r\<lparr>res_obj :=
                      \<lparr>u_gvk = u_gvk obj,
                       u_meta = [(''name'', StrValue (GetName obj)),
                                 (''namespace'', StrValue (GetNamespace obj))],
                       u_annotations = annotations, u_labels = labels, u_spec = spec, u_extra = []\<rparr>\<rparr>))))"

section \<open>References\<close>

text \<open>The reference of an ordinary resource does not separate its namespace from its name:
  resources of one type in the namespaces \<open>a-b\<close> and \<open>a\<close> with the names \<open>c\<close> and \<open>b-c\<close> have the same
  reference, so that adding the second silently drops the first.\<close>

theorem Ref_collision:
  assumes "res_gvk r = res_gvk r'" and "\<not> HasServerDerivedName (res_gvk r)"
    and "res_namespace r = a @ ''-'' @ b" and "res_name r = c"
    and "res_namespace r' = a" and "res_name r' = b @ ''-'' @ c"
  shows "Ref r = Ref r' \<and> map_of (Add [r, r'] []) (Ref r) = Some r' \<and> length (Add [r, r'] []) = 1"
proof -
  have "Ref r = Ref r'" using assms by (simp add: Ref_def)
  then show ?thesis by (simp add: Add_def Add1_def)
qed

definition sample_resource :: "string \<Rightarrow> string \<Rightarrow> resource" where
  "sample_resource ns nm =
     \<lparr>res_id = 0, res_empty = False,
      res_obj = \<lparr>u_gvk = \<lparr>gvk_group = ''dash.app'', gvk_version = ''v1'', gvk_kind = ''Board''\<rparr>,
        u_meta = [(''name'', StrValue nm), (''namespace'', StrValue ns)], u_annotations = [], u_labels = [],
        u_spec = NoSpec, u_extra = []\<rparr>,
      res_source = []\<rparr>"

lemma Ref_collision_witness:
  "Ref (sample_resource ''stacks-1'' ''x'') = Ref (sample_resource ''stacks'' ''1-x'')"
proof -
  have "\<not> HasServerDerivedName (res_gvk (sample_resource ''stacks-1'' ''x''))" by code_simp
  then show ?thesis
    using Ref_collision [of "sample_resource ''stacks-1'' ''x''" "sample_resource ''stacks'' ''1-x''"
        "''stacks''" "''1''" "''x''"]
    by (simp add: res_gvk_def res_name_def res_namespace_def sample_resource_def meta_string_def)
qed

section \<open>Adding distinct resources\<close>

lemma fresh_key_Some: "fresh_key fuel coll ref key n = Some k \<Longrightarrow> map_of coll k = None"
  by (induction fuel coll ref key n rule: fresh_key.induct) (auto split: if_splits)

lemma fresh_key_numbered:
  "card {m. n \<le> m \<and> RefDistinct ref m \<in> keys_of coll} < fuel \<Longrightarrow>
   fresh_key fuel coll ref (RefDistinct ref n) (Suc n) \<noteq> None"
proof (induction fuel arbitrary: n)
  case (Suc fuel)
  show ?case
  proof (cases "RefDistinct ref n \<in> keys_of coll")
    case True
    let ?S = "\<lambda>n. {m. n \<le> m \<and> RefDistinct ref m \<in> keys_of coll}"
    have "RefDistinct ref ` ?S n \<subseteq> keys_of coll" by auto
    moreover have "finite (keys_of coll)" by (simp add: keys_of_def)
    ultimately have fin: "finite (?S n)"
      by (meson finite_imageD finite_subset inj_onI resource_ref.inject(5))
    have "?S n = insert n (?S (Suc n))" "n \<notin> ?S (Suc n)" using True by (auto simp: Suc_le_eq)
    then have "card (?S n) = Suc (card (?S (Suc n)))" using fin by simp
    then show ?thesis using Suc True map_of_None_iff_keys by fastforce
  qed (simp add: map_of_None_iff_keys)
qed simp

lemma fresh_key_total: "fresh_key (length coll + 2) coll ref ref 1 \<noteq> None"
proof -
  let ?S = "{m. 1 \<le> m \<and> RefDistinct ref m \<in> keys_of coll}"
  have "card ?S = card (RefDistinct ref ` ?S)" by (intro card_image [symmetric] inj_onI) simp
  also have "\<dots> \<le> card (keys_of coll)"
    by (intro card_mono) (auto simp: keys_of_def)
  also have "\<dots> \<le> length coll"
    by (simp add: keys_of_def) (metis card_length length_map set_map)
  finally have "card ?S < length coll + 1" by simp
  from fresh_key_numbered [OF this] show ?thesis
    by (simp add: numeral_2_eq_2)
qed

lemma fresh_key_cases:
  "fresh_key fuel coll ref key n = Some k \<Longrightarrow> k = key \<or> (\<exists>m. k = RefDistinct ref m)"
  by (induction fuel coll ref key n rule: fresh_key.induct) (auto split: if_splits)

lemma AddDistinct_fresh:
  "\<exists>key. AddDistinct r coll = Some (coll @ [(key, r)]) \<and> AddDistinct r coll = Some (AList.update key r coll) \<and>
     map_of coll key = None \<and> fresh_key (length coll + 2) coll (Ref r) (Ref r) 1 = Some key"
proof -
  obtain key where key: "fresh_key (length coll + 2) coll (Ref r) (Ref r) 1 = Some key"
    using fresh_key_total by blast
  then show ?thesis using update_absent[OF fresh_key_Some[OF key], of r] fresh_key_Some[OF key]
    by (auto simp: AddDistinct_def)
qed

text \<open>The key search of \<open>AddDistinct\<close> always ends, and the call adds the resource under a new
  key, its own reference when that is free: no resource of the collection is replaced, whatever
  references they share.\<close>

theorem AddDistinct_keeps_all:
  "\<exists>key. AddDistinct r coll = Some (AList.update key r coll) \<and> map_of coll key = None \<and>
    (case map_of coll (Ref r) of None \<Rightarrow> key = Ref r | Some r' \<Rightarrow> key \<noteq> Ref r) \<and>
    mset (map snd (AList.update key r coll)) = add_mset r (mset (map snd coll))"
proof -
  obtain key where key: "AddDistinct r coll = Some (coll @ [(key, r)])" "AddDistinct r coll = Some (AList.update key r coll)"
    "map_of coll key = None" "fresh_key (length coll + 2) coll (Ref r) (Ref r) 1 = Some key"
    using AddDistinct_fresh by blast
  then have "mset (map snd (AList.update key r coll)) = add_mset r (mset (map snd coll))" by simp
  moreover have "case map_of coll (Ref r) of None \<Rightarrow> key = Ref r | Some r' \<Rightarrow> key \<noteq> Ref r"
    using key(3,4) by (auto split: option.split)
  ultimately show ?thesis using key(2,3) by blast
qed

lemma AsList_sorted:
  "sorted (map (\<lambda>r. compareResources_key (res_obj r)) (AsList cs coll)) \<and>
   mset (AsList cs coll) = mset (map snd coll)"
  by (simp add: AsList_def)

section \<open>Pulling removes what pushing adds\<close>

text \<open>What the manager accessors of the library promise: declaring a manager makes it the manager,
  and both setters touch only the manager and source annotations.\<close>

definition platform_ok :: "platform \<Rightarrow> bool" where
  "platform_ok pf \<longleftrightarrow>
     (\<forall>an p ident b. pf_manager_kind pf (pf_set_source pf p (pf_set_manager pf (pf_kubectl pf) ident b an))
        = Some (pf_kubectl pf)) \<and>
     (\<forall>an p ident b. filter (\<lambda>e. fst e \<notin> set manager_anno_keys)
          (pf_set_source pf p (pf_set_manager pf (pf_kubectl pf) ident b an))
        = filter (\<lambda>e. fst e \<notin> set manager_anno_keys) an)"

lemma fold_delete: "fold AList.delete ks an = filter (\<lambda>e. fst e \<notin> set ks) an"
proof (induction ks arbitrary: an)
  case (Cons k ks)
  have "AList.delete k an = filter (\<lambda>e. fst e \<noteq> k) an"
    by (simp add: AList.delete_eq split_def eq_commute)
  then show ?case by (simp add: Cons.IH)
qed simp

text \<open>For a resource gcx manages, stripping the server fnames after adding the manager fnames gives
  what stripping the original gives, up to manager and source annotations the original carried: the
  metadata a push adds never reaches the files of a later pull. The stripped object has only its
  identity, its own annotations and labels and its spec.\<close>

theorem strip_after_manage:
  assumes "platform_ok pf" and "IsManaged pf r" and "\<not> res_empty r"
    and "get_spec = (\<lambda>u. Inr (u_spec u))"
  shows "\<exists>m s. ManagerFieldsAppender pf r = (Inr m :: 'e + resource) \<and>
    ServerFieldsStripper pf get_spec m = (Inr s :: 'e + resource) \<and>
    u_annotations (res_obj s) =
      filter (\<lambda>e. fst e \<notin> set manager_anno_keys \<and> fst e \<notin> set server_anno_keys) (u_annotations (res_obj r)) \<and>
    u_gvk (res_obj s) = res_gvk r \<and> res_name s = res_name r \<and> res_namespace s = res_namespace r \<and>
    u_spec (res_obj s) = u_spec (res_obj r) \<and> keys_of (u_meta (res_obj s)) = {''name'', ''namespace''} \<and>
    u_extra (res_obj s) = []"
proof -
  let ?an = "u_annotations (res_obj r)"
  let ?an' = "pf_set_source pf (''file://'' @ res_source r)
    (pf_set_manager pf (pf_kubectl pf) ManagerIdentity True ?an)"
  define m where m: "m = r\<lparr>res_obj := (res_obj r)\<lparr>u_annotations := ?an'\<rparr>\<rparr>"
  have app: "ManagerFieldsAppender pf r = (Inr m :: 'e + resource)"
    using assms by (simp add: ManagerFieldsAppender_def m)
  have kind: "pf_manager_kind pf ?an' = Some (pf_kubectl pf)"
    and keep: "filter (\<lambda>e. fst e \<notin> set manager_anno_keys) ?an' = filter (\<lambda>e. fst e \<notin> set manager_anno_keys) ?an"
    using assms(1) by (simp_all add: platform_ok_def)
  have "filter (\<lambda>e. fst e \<notin> set manager_anno_keys) (filter (\<lambda>e. fst e \<notin> set server_anno_keys) ?an')
      = filter (\<lambda>e. fst e \<notin> set server_anno_keys) (filter (\<lambda>e. fst e \<notin> set manager_anno_keys) ?an')"
    by (simp add: conj_commute)
  also have "\<dots> = filter (\<lambda>e. fst e \<notin> set manager_anno_keys \<and> fst e \<notin> set server_anno_keys) ?an"
    unfolding keep by (simp add: conj_commute)
  finally have annos: "fold AList.delete manager_anno_keys (fold AList.delete server_anno_keys ?an')
      = filter (\<lambda>e. fst e \<notin> set manager_anno_keys \<and> fst e \<notin> set server_anno_keys) ?an"
    unfolding fold_delete .
  show ?thesis
    using app annos kind assms(3,4)
    by (simp add: ServerFieldsStripper_def m Let_def res_gvk_def res_name_def res_namespace_def
        meta_string_def keys_of_def)
qed

definition sample_platform :: platform where
  "sample_platform =
     \<lparr>pf_kubectl = ''kubectl'',
      pf_manager_kind = (\<lambda>an. case map_of an AnnoKeyManagerIdentity of
         None \<Rightarrow> None | Some i \<Rightarrow> (if i = [] then None else map_of an AnnoKeyManagerKind)),
      pf_set_manager = (\<lambda>k i b an. AList.update AnnoKeyManagerIdentity (if i = [] then ''x'' else i)
         (AList.update AnnoKeyManagerKind k an)),
      pf_set_source = (\<lambda>p an. AList.update AnnoKeySourcePath p an)\<rparr>"

lemma filter_update_key:
  "\<not> P k \<Longrightarrow> filter (\<lambda>e. P (fst e)) (AList.update k v m) = filter (\<lambda>e. P (fst e)) m"
  by (induction m) auto

lemma sample_platform_ok: "platform_ok sample_platform"
proof -
  have "filter (\<lambda>e. fst e \<notin> set manager_anno_keys)
      (pf_set_source sample_platform p (pf_set_manager sample_platform k i b an))
    = filter (\<lambda>e. fst e \<notin> set manager_anno_keys) an" for p k i b an
  proof -
    have "AnnoKeySourcePath \<in> set manager_anno_keys" "AnnoKeyManagerKind \<in> set manager_anno_keys"
      "AnnoKeyManagerIdentity \<in> set manager_anno_keys" by (simp_all add: manager_anno_keys_def)
    then show ?thesis
      by (simp add: sample_platform_def filter_update_key [of "\<lambda>k. k \<notin> set manager_anno_keys"])
  qed
  moreover have "pf_manager_kind sample_platform
      (pf_set_source sample_platform p (pf_set_manager sample_platform k i b an)) = Some k" for p k i b an
    by (simp add: sample_platform_def go_map)
  ultimately show ?thesis by (simp add: platform_ok_def)
qed

lemma strip_after_manage_witness:
  "\<exists>m s. ManagerFieldsAppender sample_platform (sample_resource ''ns'' ''x'') = (Inr m :: string + resource) \<and>
    ServerFieldsStripper sample_platform (\<lambda>u. Inr (u_spec u)) m = (Inr s :: string + resource) \<and>
    u_annotations (res_obj s) = [] \<and> res_name s = ''x''"
proof -
  have "IsManaged sample_platform (sample_resource ''ns'' ''x'')" "\<not> res_empty (sample_resource ''ns'' ''x'')"
    by (simp_all add: IsManaged_def GetManagerKind_def sample_platform_def sample_resource_def)
  from strip_after_manage [OF sample_platform_ok this refl, where 'e = string] show ?thesis
    by (simp add: sample_resource_def res_name_def meta_string_def) blast
qed

end
