(* ===== verification/Gcx_Adapters.thy ===== *)
theory Gcx_Adapters
  imports Gcx_Objects
begin

text \<open>
  The clients resources move through: errors as the code classifies them, the dynamic client
  interface, provider adapters and their registrations (\<^verbatim>\<open>adapter/register.go\<close>,
  \<^verbatim>\<open>adapter/pull.go\<close>), the adapter built from typed functions (\<^verbatim>\<open>adapter/typed.go\<close>) and
  the router that picks one of them by kind (\<^verbatim>\<open>adapter/router.go\<close>). The outside world is an
  explicit state of a type \<open>'s\<close> on which every operation acts. The lemmas show that a typed adapter
  and the router keep a dry run free of effects and that an adapter is initialised once.
\<close>

section \<open>Errors\<close>

text \<open>
  An error as its classifications: the message and, for every test the code makes on errors
  (\<^verbatim>\<open>errors.Is\<close>, \<^verbatim>\<open>errors.As\<close>, the predicates of \<^verbatim>\<open>apierrors\<close>), its answer. Wrapping
  changes only the message.
\<close>

record go_error =
  e_msg :: string
  e_not_found :: bool
  e_adapter_not_found :: bool
  e_method_not_supported :: bool
  e_conflict :: bool
  e_unsupported :: bool
  e_unavailable :: bool
  e_dry_run_unverified :: bool
  e_read_only :: bool
  e_canceled :: bool
  e_saved :: bool
  e_warnings :: "string list option"
  e_partial :: "((uobj option \<times> string) list \<times> nat) option"

definition plain_error :: "string \<Rightarrow> go_error" where
  "plain_error msg =
     \<lparr>e_msg = msg, e_not_found = False, e_adapter_not_found = False, e_method_not_supported = False,
      e_conflict = False, e_unsupported = False, e_unavailable = False, e_dry_run_unverified = False,
      e_read_only = False, e_canceled = False, e_saved = False, e_warnings = None, e_partial = None\<rparr>"

definition wrap_error :: "string \<Rightarrow> go_error \<Rightarrow> go_error" where
  "wrap_error prefix e = e\<lparr>e_msg := prefix @ e_msg e\<rparr>"

definition ErrUnsupported :: go_error where
  "ErrUnsupported = (plain_error ''unsupported operation'')\<lparr>e_unsupported := True\<rparr>"

definition ErrNotFound :: go_error where
  "ErrNotFound = (plain_error ''not found'')\<lparr>e_adapter_not_found := True\<rparr>"

definition ErrDryRunUnverified :: go_error where
  "ErrDryRunUnverified =
     (plain_error ''server-side dry-run not supported; checked client-side only (not verified)'')
       \<lparr>e_dry_run_unverified := True\<rparr>"

definition api_not_found :: "string \<Rightarrow> go_error" where
  "api_not_found name = (plain_error (name @ '' not found''))\<lparr>e_not_found := True\<rparr>"

text \<open>\<^verbatim>\<open>adapter.Unavailable\<close>.\<close>

definition Unavailable :: "go_error option \<Rightarrow> go_error option" where
  "Unavailable err = map_option (\<lambda>e. e\<lparr>e_unavailable := True\<rparr>) err"

section \<open>Clients and adapters\<close>

record uobj_list =
  ul_items :: "uobj list"
  ul_continue :: string

definition isDryRun :: "string list \<Rightarrow> bool" where
  "isDryRun dryRun \<longleftrightarrow> ''All'' \<in> set dryRun"

record 's dynamic_client =
  c_create :: "descriptor \<Rightarrow> uobj \<Rightarrow> string list \<Rightarrow> 's \<Rightarrow> (go_error + uobj) \<times> 's"
  c_update :: "descriptor \<Rightarrow> uobj \<Rightarrow> string list \<Rightarrow> 's \<Rightarrow> (go_error + uobj) \<times> 's"
  c_get :: "descriptor \<Rightarrow> string \<Rightarrow> 's \<Rightarrow> (go_error + uobj) \<times> 's"
  c_get_multiple :: "descriptor \<Rightarrow> string list \<Rightarrow> 's \<Rightarrow> (uobj list \<times> go_error option) \<times> 's"
  c_list :: "descriptor \<Rightarrow> nat \<Rightarrow> 's \<Rightarrow> (uobj_list option \<times> go_error option) \<times> 's"
  c_delete :: "descriptor \<Rightarrow> string \<Rightarrow> string list \<Rightarrow> 's \<Rightarrow> go_error option \<times> 's"

record pull_selection =
  pls_filter :: filter_rec
  pls_items :: "uobj list"

record push_selection =
  pss_descriptor :: descriptor
  pss_items :: "resource list"

type_synonym 's pull_check = "filter_rec \<Rightarrow> uobj \<Rightarrow> 's \<Rightarrow> go_error option \<times> 's"
type_synonym 's push_check = "resource \<Rightarrow> 's \<Rightarrow> (go_error option \<times> resource) \<times> 's"

text \<open>An adapter with its optional interfaces; a check that may be nil is an option.\<close>

record 's adapter =
  a_create :: "uobj \<Rightarrow> string list \<Rightarrow> 's \<Rightarrow> (go_error + uobj) \<times> 's"
  a_update :: "uobj \<Rightarrow> string list \<Rightarrow> 's \<Rightarrow> (go_error + uobj) \<times> 's"
  a_get :: "string \<Rightarrow> 's \<Rightarrow> (go_error + uobj) \<times> 's"
  a_list :: "nat \<Rightarrow> 's \<Rightarrow> (uobj_list option \<times> go_error option) \<times> 's"
  a_delete :: "string \<Rightarrow> string list \<Rightarrow> 's \<Rightarrow> go_error option \<times> 's"
  a_get_multiple :: "(string list \<Rightarrow> 's \<Rightarrow> (uobj list \<times> go_error option) \<times> 's) option"
  a_pull_preflight :: "(pull_selection list \<Rightarrow> 's pull_check option) option"
  a_push_preflight :: "(push_selection list \<Rightarrow> 's \<Rightarrow> (go_error + 's push_check option) \<times> 's) option"
  a_push_envelope :: "(uobj \<Rightarrow> string list \<Rightarrow> 's \<Rightarrow> go_error option \<times> 's) option"
  a_select_delete :: "(filter_rec \<Rightarrow> uobj list option \<Rightarrow> 's \<Rightarrow> (go_error + uobj list) \<times> 's) option"

section \<open>Registrations\<close>

text \<open>The policies of a registration; schema, example and operation hints are static data.\<close>

record 'f registration =
  rg_factory :: 'f
  rg_descriptor :: descriptor
  rg_aliases :: "string list"
  rg_group_aliases :: "string list"
  rg_gvk :: group_version_kind
  rg_check_mutation :: "(string \<Rightarrow> go_error option) option"
  rg_retain_duplicates :: bool
  rg_pull_strip_fields :: "string list"

definition Register ::
    "'f registration \<Rightarrow> gvk_registry \<times> 'f registration list \<Rightarrow> gvk_registry \<times> 'f registration list" where
  "Register reg st =
     (RegisterGroupAliases (Descriptor_GroupVersionKind (rg_descriptor reg)) (rg_group_aliases reg) (fst st),
      snd st @ [reg])"

definition CheckMutation ::
    "gvk_registry \<Rightarrow> 'f registration list \<Rightarrow> descriptor \<Rightarrow> string \<Rightarrow> go_error option" where
  "CheckMutation reg regs desc operation =
     (case find (\<lambda>r. rg_gvk r = NormalizeGVK reg (Descriptor_GroupVersionKind desc) \<and>
                     rg_check_mutation r \<noteq> None) regs of
        Some r \<Rightarrow> (case rg_check_mutation r of Some check \<Rightarrow> check operation | None \<Rightarrow> None)
      | None \<Rightarrow> None)"

definition RetainsLocalDuplicates ::
    "gvk_registry \<Rightarrow> 'f registration list \<Rightarrow> group_version_kind \<Rightarrow> bool" where
  "RetainsLocalDuplicates reg regs gvk =
     (case find (\<lambda>r. rg_gvk r = NormalizeGVK reg gvk) regs of
        Some r \<Rightarrow> rg_retain_duplicates r | None \<Rightarrow> False)"

definition remove_spec_field :: "string \<Rightarrow> uobj \<Rightarrow> uobj" where
  "remove_spec_field field u =
     (case u_spec u of SpecMap m \<Rightarrow> u\<lparr>u_spec := SpecMap (AList.delete field m)\<rparr> | _ \<Rightarrow> u)"

definition PullFieldsStripper :: "gvk_registry \<Rightarrow> 'f registration list \<Rightarrow> 'e processor" where
  "PullFieldsStripper reg regs r =
     (case find (\<lambda>g. rg_gvk g = NormalizeGVK reg (res_gvk r)) regs of
        Some g \<Rightarrow> Inr (r\<lparr>res_obj := fold remove_spec_field (rg_pull_strip_fields g) (res_obj r)\<rparr>)
      | None \<Rightarrow> Inr r)"

section \<open>Typed adapters\<close>

text \<open>
  \<^verbatim>\<open>TypedCRUD\<close> over domain items of a type \<open>'i\<close>. A nil function is \<open>None\<close>. The JSON codec of
  the item type and its identity methods are the last four fields.
\<close>

record ('i, 's) typed_crud =
  tc_list :: "(nat \<Rightarrow> 's \<Rightarrow> ('i list option \<times> go_error option) \<times> 's) option"
  tc_get :: "(string \<Rightarrow> 's \<Rightarrow> (go_error + 'i option) \<times> 's) option"
  tc_create :: "('i \<Rightarrow> 's \<Rightarrow> (go_error + 'i) \<times> 's) option"
  tc_update :: "(string \<Rightarrow> 'i \<Rightarrow> 's \<Rightarrow> (go_error + 'i) \<times> 's) option"
  tc_delete :: "(string \<Rightarrow> 's \<Rightarrow> go_error option \<times> 's) option"
  tc_validate :: "('i list \<Rightarrow> 's \<Rightarrow> go_error option \<times> 's) option"
  tc_namespace :: string
  tc_strip :: "string list"
  tc_metadata :: "('i \<Rightarrow> (string \<times> field_value) list) option"
  tc_descriptor :: descriptor
  tc_name :: "'i \<Rightarrow> string"
  tc_restore :: "string \<Rightarrow> 'i \<Rightarrow> 'i"
  tc_marshal :: "'i \<Rightarrow> go_error + (string \<times> field_value) list"
  tc_unmarshal :: "(string \<times> field_value) list \<Rightarrow> go_error + 'i"

fun merge_metadata ::
    "(string \<times> field_value) list \<Rightarrow> (string \<times> field_value) list \<Rightarrow> (string \<times> field_value) list" where
  "merge_metadata [] m = m"
| "merge_metadata ((k, v) # kvs) m =
     (if k = ''name'' \<or> k = ''namespace'' then merge_metadata kvs m
      else merge_metadata kvs (AList.update k v m))"

definition crud_ToUnstructured :: "('i, 's) typed_crud \<Rightarrow> 'i \<Rightarrow> go_error + uobj" where
  "crud_ToUnstructured c item =
     (case tc_marshal c item of
        Inl e \<Rightarrow> Inl (wrap_error ''failed to marshal item: '' e)
      | Inr specMap \<Rightarrow>
          Inr \<lparr>u_gvk = Descriptor_GroupVersionKind (tc_descriptor c),
               u_meta = merge_metadata (case tc_metadata c of None \<Rightarrow> [] | Some f \<Rightarrow> f item)
                  [(''name'', StrValue (tc_name c item)), (''namespace'', StrValue (tc_namespace c))],
               u_annotations = [], u_labels = [],
               u_spec = SpecMap (fold AList.delete (tc_strip c) specMap), u_extra = []\<rparr>)"

definition crud_fromUnstructured :: "('i, 's) typed_crud \<Rightarrow> uobj \<Rightarrow> go_error + string \<times> 'i" where
  "crud_fromUnstructured c obj =
     (case u_spec obj of
        NoSpec \<Rightarrow> Inl (plain_error ''object has no spec field'')
      | SpecOther n \<Rightarrow> Inl (plain_error ''object spec is not a map'')
      | SpecMap m \<Rightarrow>
          (case tc_unmarshal c m of
             Inl e \<Rightarrow> Inl (wrap_error ''failed to unmarshal spec into typed object: '' e)
           | Inr item \<Rightarrow> Inr (GetName obj, tc_restore c (GetName obj) item)))"

definition crud_not_found :: "string \<Rightarrow> go_error" where
  "crud_not_found name = wrap_error (''resource '' @ name @ '': '') ErrNotFound"

definition crud_Get :: "('i, 's) typed_crud \<Rightarrow> string \<Rightarrow> 's \<Rightarrow> (go_error + 'i) \<times> 's" where
  "crud_Get c name s =
     (case tc_get c of
        Some get \<Rightarrow>
          (case get name s of
             (Inl e, s') \<Rightarrow> (Inl e, s')
           | (Inr None, s') \<Rightarrow> (Inl (crud_not_found name), s')
           | (Inr (Some item), s') \<Rightarrow> (Inr item, s'))
      | None \<Rightarrow>
          (case tc_list c of
             None \<Rightarrow> (Inl ErrUnsupported, s)
           | Some list \<Rightarrow>
               (case list 0 s of
                  ((items, Some e), s') \<Rightarrow> (Inl e, s')
                | ((items, None), s') \<Rightarrow>
                    (case find (\<lambda>item. tc_name c item = name) (case items of None \<Rightarrow> [] | Some xs \<Rightarrow> xs) of
                       Some item \<Rightarrow> (Inr item, s')
                     | None \<Rightarrow> (Inl (crud_not_found name), s')))))"

fun to_unstructured_all :: "('i, 's) typed_crud \<Rightarrow> 'i list \<Rightarrow> go_error + uobj list" where
  "to_unstructured_all c [] = Inr []"
| "to_unstructured_all c (item # items) =
     (case crud_ToUnstructured c item of
        Inl e \<Rightarrow> Inl e
      | Inr u \<Rightarrow> (case to_unstructured_all c items of Inl e \<Rightarrow> Inl e | Inr us \<Rightarrow> Inr (u # us)))"

definition typed_List ::
    "('i, 's) typed_crud \<Rightarrow> nat \<Rightarrow> 's \<Rightarrow> (uobj_list option \<times> go_error option) \<times> 's" where
  "typed_List c limit s =
     (case tc_list c of
        None \<Rightarrow> ((None, Some ErrUnsupported), s)
      | Some list \<Rightarrow>
          (case list limit s of
             ((None, Some e), s') \<Rightarrow> ((None, Some e), s')
           | ((items, err), s') \<Rightarrow>
               (case to_unstructured_all c (case items of None \<Rightarrow> [] | Some xs \<Rightarrow> xs) of
                  Inl e \<Rightarrow> ((None, Some e), s')
                | Inr us \<Rightarrow> ((Some \<lparr>ul_items = us, ul_continue = []\<rparr>, err), s'))))"

definition typed_Get :: "('i, 's) typed_crud \<Rightarrow> string \<Rightarrow> 's \<Rightarrow> (go_error + uobj) \<times> 's" where
  "typed_Get c name s =
     (case crud_Get c name s of
        (Inl e, s') \<Rightarrow> (Inl (if e_adapter_not_found e then api_not_found name else e), s')
      | (Inr item, s') \<Rightarrow> (crud_ToUnstructured c item, s'))"

definition dryRunValidate :: "('i, 's) typed_crud \<Rightarrow> 'i \<Rightarrow> 's \<Rightarrow> (go_error + uobj) \<times> 's" where
  "dryRunValidate c item s =
     (case tc_validate c of
        None \<Rightarrow> (Inl ErrDryRunUnverified, s)
      | Some validate \<Rightarrow>
          (case validate [item] s of
             (Some e, s') \<Rightarrow> (Inl e, s') | (None, s') \<Rightarrow> (crud_ToUnstructured c item, s')))"

definition typed_Create ::
    "('i, 's) typed_crud \<Rightarrow> uobj \<Rightarrow> string list \<Rightarrow> 's \<Rightarrow> (go_error + uobj) \<times> 's" where
  "typed_Create c obj dryRun s =
     (case tc_create c of
        None \<Rightarrow> (Inl ErrUnsupported, s)
      | Some create \<Rightarrow>
          (case crud_fromUnstructured c obj of
             Inl e \<Rightarrow> (Inl e, s)
           | Inr (name, item) \<Rightarrow>
               if isDryRun dryRun then dryRunValidate c item s
               else (case create item s of
                       (Inl e, s') \<Rightarrow> (Inl e, s')
                     | (Inr created, s') \<Rightarrow> (crud_ToUnstructured c created, s'))))"

definition typed_Update ::
    "('i, 's) typed_crud \<Rightarrow> uobj \<Rightarrow> string list \<Rightarrow> 's \<Rightarrow> (go_error + uobj) \<times> 's" where
  "typed_Update c obj dryRun s =
     (case tc_update c of
        None \<Rightarrow> (Inl ErrUnsupported, s)
      | Some upd \<Rightarrow>
          (case crud_fromUnstructured c obj of
             Inl e \<Rightarrow> (Inl e, s)
           | Inr (name, item) \<Rightarrow>
               if isDryRun dryRun then dryRunValidate c item s
               else (case upd name item s of
                       (Inl e, s') \<Rightarrow> (Inl e, s')
                     | (Inr updated, s') \<Rightarrow> (crud_ToUnstructured c updated, s'))))"

definition typed_Delete ::
    "('i, 's) typed_crud \<Rightarrow> string \<Rightarrow> string list \<Rightarrow> 's \<Rightarrow> go_error option \<times> 's" where
  "typed_Delete c name dryRun s =
     (case tc_delete c of
        None \<Rightarrow> (Some ErrUnsupported, s)
      | Some del \<Rightarrow> if isDryRun dryRun then (None, s) else del name s)"

definition AsAdapter :: "('i, 's) typed_crud \<Rightarrow> 's adapter" where
  "AsAdapter c =
     \<lparr>a_create = typed_Create c, a_update = typed_Update c, a_get = typed_Get c, a_list = typed_List c,
      a_delete = typed_Delete c, a_get_multiple = None, a_pull_preflight = None, a_push_preflight = None,
      a_push_envelope = None, a_select_delete = None\<rparr>"

text \<open>\<^verbatim>\<open>TruncateSlice\<close> and \<^verbatim>\<open>LimitedListFn\<close>; a limit of zero (or below) is no limit.\<close>

definition TruncateSlice :: "'i list \<Rightarrow> nat \<Rightarrow> 'i list" where
  "TruncateSlice items limit = (if limit > 0 \<and> limit < length items then take limit items else items)"

definition LimitedListFn ::
    "('s \<Rightarrow> ('i list option \<times> go_error option) \<times> 's) \<Rightarrow> nat \<Rightarrow> 's
      \<Rightarrow> ('i list option \<times> go_error option) \<times> 's" where
  "LimitedListFn fn limit s =
     (case fn s of
        ((None, Some e), s') \<Rightarrow> ((None, Some e), s')
      | ((items, err), s') \<Rightarrow> ((map_option (\<lambda>xs. TruncateSlice xs limit) items, err), s'))"

section \<open>The router\<close>

text \<open>
  The state of the router around the world: which factories ran (the \<^verbatim>\<open>sync.Once\<close> of a
  kind) and what they returned. \<open>Descriptor_GroupVersionKind\<close> selects the entry.
\<close>

record 's routed =
  rt_world :: 's
  rt_done :: "group_version_kind list"
  rt_instances :: "(group_version_kind \<times> 's adapter) list"
  rt_initErrs :: "(group_version_kind \<times> go_error) list"

type_synonym 's factory = "'s \<Rightarrow> (go_error + 's adapter) \<times> 's"

record 's router =
  r_dynamic :: "'s dynamic_client"
  r_factories :: "(group_version_kind \<times> 's factory) list"
  r_cancel :: "'s \<Rightarrow> 's"
  r_schedule :: "string list \<Rightarrow> nat list"

definition run_factory :: "group_version_kind \<Rightarrow> 's factory \<Rightarrow> 's routed \<Rightarrow> 's routed" where
  "run_factory gvk factory st =
     (case factory (rt_world st) of
        (Inl e, w) \<Rightarrow> st\<lparr>rt_world := w, rt_done := gvk # rt_done st,
                         rt_initErrs := AList.update gvk e (rt_initErrs st)\<rparr>
      | (Inr a, w) \<Rightarrow> st\<lparr>rt_world := w, rt_done := gvk # rt_done st,
                         rt_instances := AList.update gvk a (rt_instances st)\<rparr>)"

definition getAdapter ::
    "'s router \<Rightarrow> group_version_kind \<Rightarrow> 's routed \<Rightarrow> (go_error + 's adapter option) \<times> 's routed" where
  "getAdapter r gvk st =
     (case map_of (r_factories r) gvk of
        None \<Rightarrow> (Inr None, st)
      | Some factory \<Rightarrow>
          (let st' = (if gvk \<in> set (rt_done st) then st else run_factory gvk factory st)
           in case map_of (rt_initErrs st') gvk of
                Some e \<Rightarrow> (Inl (wrap_error ''initializing adapter: '' e), st')
              | None \<Rightarrow> (Inr (map_of (rt_instances st') gvk), st')))"

definition on_world :: "('s \<Rightarrow> 'r \<times> 's) \<Rightarrow> 's routed \<Rightarrow> 'r \<times> 's routed" where
  "on_world f st = (case f (rt_world st) of (r, w) \<Rightarrow> (r, st\<lparr>rt_world := w\<rparr>))"

text \<open>The shape all operations of the router share: the error of the initialisation, the adapter, or
  the dynamic client.\<close>

definition route ::
    "'s router \<Rightarrow> group_version_kind \<Rightarrow> (go_error \<Rightarrow> 'r) \<Rightarrow> ('s adapter \<Rightarrow> 's \<Rightarrow> 'r \<times> 's)
      \<Rightarrow> ('s \<Rightarrow> 'r \<times> 's) \<Rightarrow> 's routed \<Rightarrow> 'r \<times> 's routed" where
  "route r gvk fail via_adapter via_dynamic st =
     (case getAdapter r gvk st of
        (Inl e, st') \<Rightarrow> (fail e, st')
      | (Inr (Some a), st') \<Rightarrow> on_world (via_adapter a) st'
      | (Inr None, st') \<Rightarrow> on_world via_dynamic st')"

text \<open>The concurrent loop of \<^verbatim>\<open>GetMultiple\<close>, for an adapter without the optional interface.\<close>

definition get_one :: "'s adapter \<Rightarrow> nat \<times> string \<Rightarrow> 's \<times> uobj option list \<Rightarrow> go_error option \<times> ('s \<times> uobj option list)" where
  "get_one a job st =
     (case a_get a (snd job) (fst st) of
        (Inl e, w) \<Rightarrow> (Some e, (w, snd st))
      | (Inr u, w) \<Rightarrow> (None, (w, (snd st)[fst job := Some u])))"

definition get_concurrently ::
    "('s \<Rightarrow> 's) \<Rightarrow> nat list \<Rightarrow> 's adapter \<Rightarrow> string list \<Rightarrow> 's \<Rightarrow> (uobj list \<times> go_error option) \<times> 's" where
  "get_concurrently cancel cs a names w =
     (case run_group (\<lambda>(w, res). (cancel w, res)) (get_one a) None
             (go_range cs (enumerate 0 names)) (w, replicate (length names) None) of
        (Some e, (w', res)) \<Rightarrow> (([], Some e), w')
      | (None, (w', res)) \<Rightarrow> ((collect_some (\<lambda>x. x) res, None), w'))"

definition router_Create :: "'s router \<Rightarrow> descriptor \<Rightarrow> uobj \<Rightarrow> string list \<Rightarrow> 's routed \<Rightarrow> (go_error + uobj) \<times> 's routed" where
  "router_Create r desc obj opts =
     route r (Descriptor_GroupVersionKind desc) Inl (\<lambda>a. a_create a obj opts) (c_create (r_dynamic r) desc obj opts)"

definition router_Update :: "'s router \<Rightarrow> descriptor \<Rightarrow> uobj \<Rightarrow> string list \<Rightarrow> 's routed \<Rightarrow> (go_error + uobj) \<times> 's routed" where
  "router_Update r desc obj opts =
     route r (Descriptor_GroupVersionKind desc) Inl (\<lambda>a. a_update a obj opts) (c_update (r_dynamic r) desc obj opts)"

definition router_Get :: "'s router \<Rightarrow> descriptor \<Rightarrow> string \<Rightarrow> 's routed \<Rightarrow> (go_error + uobj) \<times> 's routed" where
  "router_Get r desc name =
     route r (Descriptor_GroupVersionKind desc) Inl (\<lambda>a. a_get a name) (c_get (r_dynamic r) desc name)"

definition router_GetMultiple ::
    "'s router \<Rightarrow> descriptor \<Rightarrow> string list \<Rightarrow> 's routed \<Rightarrow> (uobj list \<times> go_error option) \<times> 's routed" where
  "router_GetMultiple r desc names =
     route r (Descriptor_GroupVersionKind desc) (\<lambda>e. ([], Some e))
       (\<lambda>a. case a_get_multiple a of
              Some getter \<Rightarrow> getter names
            | None \<Rightarrow> get_concurrently (r_cancel r) (r_schedule r names) a names)
       (c_get_multiple (r_dynamic r) desc names)"

definition router_List ::
    "'s router \<Rightarrow> descriptor \<Rightarrow> nat \<Rightarrow> 's routed \<Rightarrow> (uobj_list option \<times> go_error option) \<times> 's routed" where
  "router_List r desc limit =
     route r (Descriptor_GroupVersionKind desc) (\<lambda>e. (None, Some e)) (\<lambda>a. a_list a limit)
       (c_list (r_dynamic r) desc limit)"

definition router_Delete ::
    "'s router \<Rightarrow> descriptor \<Rightarrow> string \<Rightarrow> string list \<Rightarrow> 's routed \<Rightarrow> go_error option \<times> 's routed" where
  "router_Delete r desc name opts =
     route r (Descriptor_GroupVersionKind desc) Some (\<lambda>a. a_delete a name opts)
       (c_delete (r_dynamic r) desc name opts)"

definition router_PushEnvelope ::
    "'s router \<Rightarrow> descriptor \<Rightarrow> uobj \<Rightarrow> string list \<Rightarrow> 's routed \<Rightarrow> (bool \<times> go_error option) \<times> 's routed" where
  "router_PushEnvelope r desc obj opts =
     route r (Descriptor_GroupVersionKind desc) (\<lambda>e. (True, Some e))
       (\<lambda>a s. case a_push_envelope a of
                Some push \<Rightarrow> (case push obj opts s of (err, s') \<Rightarrow> ((True, err), s'))
              | None \<Rightarrow> ((False, None), s))
       (\<lambda>s. ((False, None), s))"

definition router_SelectDelete ::
    "'s router \<Rightarrow> filter_rec \<Rightarrow> uobj list option \<Rightarrow> 's routed \<Rightarrow> (bool \<times> (go_error + uobj list)) \<times> 's routed" where
  "router_SelectDelete r filt manifests =
     route r (Descriptor_GroupVersionKind (f_desc filt)) (\<lambda>e. (True, Inl e))
       (\<lambda>a s. case a_select_delete a of
                Some select \<Rightarrow> (case select filt manifests s of (res, s') \<Rightarrow> ((True, res), s'))
              | None \<Rightarrow> ((False, Inr []), s))
       (\<lambda>s. ((False, Inr []), s))"

text \<open>The check a preflight builds, per kind; checks act on the world of the router.\<close>

fun pull_checks ::
    "'s router \<Rightarrow> pull_selection list \<Rightarrow> pull_selection list \<Rightarrow> group_version_kind list
      \<Rightarrow> (group_version_kind \<times> 's pull_check) list \<Rightarrow> 's routed
      \<Rightarrow> (go_error + (group_version_kind \<times> 's pull_check) list) \<times> 's routed" where
  "pull_checks r all [] seen checks st = (Inr checks, st)"
| "pull_checks r all (sel # sels) seen checks st =
     (let gvk = Descriptor_GroupVersionKind (f_desc (pls_filter sel)) in
      if length (pls_items sel) = 0 \<or> gvk \<in> set seen then pull_checks r all sels seen checks st
      else (case getAdapter r gvk st of
              (Inl e, st') \<Rightarrow> (Inl e, st')
            | (Inr a, st') \<Rightarrow>
                pull_checks r all sels (gvk # seen)
                  (case Option.bind a a_pull_preflight of
                     None \<Rightarrow> checks
                   | Some preflight \<Rightarrow>
                       (case preflight all of None \<Rightarrow> checks | Some check \<Rightarrow> AList.update gvk check checks))
                  st'))"

definition router_NewPullPreflight ::
    "'s router \<Rightarrow> pull_selection list \<Rightarrow> 's routed
      \<Rightarrow> (go_error + (filter_rec \<Rightarrow> uobj \<Rightarrow> 's routed \<Rightarrow> go_error option \<times> 's routed)) \<times> 's routed" where
  "router_NewPullPreflight r selections st =
     (case pull_checks r selections selections [] [] st of
        (Inl e, st') \<Rightarrow> (Inl e, st')
      | (Inr checks, st') \<Rightarrow>
          (Inr (\<lambda>filt item. case map_of checks (Descriptor_GroupVersionKind (f_desc filt)) of
                  Some check \<Rightarrow> on_world (check filt item) | None \<Rightarrow> (\<lambda>st. (None, st))), st'))"

definition failing_check :: "go_error \<Rightarrow> 's push_check" where
  "failing_check e res s = ((Some e, res), s)"

fun push_checks ::
    "'s router \<Rightarrow> push_selection list \<Rightarrow> push_selection list
      \<Rightarrow> (group_version_kind \<times> 's push_check option) list \<Rightarrow> 's routed
      \<Rightarrow> (group_version_kind \<times> 's push_check option) list \<times> 's routed" where
  "push_checks r all [] checks st = (checks, st)"
| "push_checks r all (sel # sels) checks st =
     (let gvk = Descriptor_GroupVersionKind (pss_descriptor sel) in
      if length (pss_items sel) = 0 \<or> map_of checks gvk \<noteq> None then push_checks r all sels checks st
      else (case getAdapter r gvk st of
              (Inl e, st') \<Rightarrow>
                push_checks r all sels (AList.update gvk (Some (failing_check e)) checks) st'
            | (Inr a, st') \<Rightarrow>
                (case Option.bind a a_push_preflight of
                   None \<Rightarrow> push_checks r all sels (AList.update gvk None checks) st'
                 | Some preflight \<Rightarrow>
                     (case on_world (preflight all) st' of
                        (Inl e, st'') \<Rightarrow>
                          push_checks r all sels (AList.update gvk (Some (failing_check e)) checks) st''
                      | (Inr check, st'') \<Rightarrow>
                          push_checks r all sels (AList.update gvk check checks) st''))))"

definition router_NewPushPreflight ::
    "gvk_registry \<Rightarrow> 's router \<Rightarrow> push_selection list \<Rightarrow> 's routed
      \<Rightarrow> (resource \<Rightarrow> 's routed \<Rightarrow> (go_error option \<times> resource) \<times> 's routed) \<times> 's routed" where
  "router_NewPushPreflight reg r selections st =
     (case push_checks r selections selections [] st of
        (checks, st') \<Rightarrow>
          (\<lambda>item. case map_of checks (NormalizeGVK reg (res_gvk item)) of
             Some (Some check) \<Rightarrow> on_world (check item) | _ \<Rightarrow> (\<lambda>st. ((None, item), st)), st'))"

definition NewResourceClientRouter :: "'s \<Rightarrow> 's routed" where
  "NewResourceClientRouter w = \<lparr>rt_world = w, rt_done = [], rt_instances = [], rt_initErrs = []\<rparr>"

definition router_client :: "'s router \<Rightarrow> 's routed dynamic_client" where
  "router_client r =
     \<lparr>c_create = router_Create r, c_update = router_Update r, c_get = router_Get r,
      c_get_multiple = router_GetMultiple r, c_list = router_List r, c_delete = router_Delete r\<rparr>"

section \<open>Operations without effects\<close>

text \<open>\<open>keeps I store f\<close>: from a state satisfying \<open>I\<close> the operation keeps \<open>I\<close> and the observation \<open>store\<close>.\<close>

definition keeps :: "('s \<Rightarrow> bool) \<Rightarrow> ('s \<Rightarrow> 'o) \<Rightarrow> ('s \<Rightarrow> 'r \<times> 's) \<Rightarrow> bool" where
  "keeps I store f \<longleftrightarrow> (\<forall>s. I s \<longrightarrow> I (snd (f s)) \<and> store (snd (f s)) = store s)"

text \<open>A client whose reads have no effect and whose dry runs have none for the descriptors \<open>D\<close>.\<close>

definition client_safe ::
    "('s \<Rightarrow> bool) \<Rightarrow> ('s \<Rightarrow> 'o) \<Rightarrow> (descriptor \<Rightarrow> bool) \<Rightarrow> 's dynamic_client \<Rightarrow> bool" where
  "client_safe I store D c \<longleftrightarrow>
     (\<forall>d n. keeps I store (c_get c d n)) \<and> (\<forall>d ns. keeps I store (c_get_multiple c d ns)) \<and>
     (\<forall>d n. keeps I store (c_list c d n)) \<and>
     (\<forall>d u dr. D d \<longrightarrow> isDryRun dr \<longrightarrow> keeps I store (c_create c d u dr)) \<and>
     (\<forall>d u dr. D d \<longrightarrow> isDryRun dr \<longrightarrow> keeps I store (c_update c d u dr)) \<and>
     (\<forall>d n dr. D d \<longrightarrow> isDryRun dr \<longrightarrow> keeps I store (c_delete c d n dr))"

definition adapter_safe :: "('s \<Rightarrow> bool) \<Rightarrow> ('s \<Rightarrow> 'o) \<Rightarrow> 's adapter \<Rightarrow> bool" where
  "adapter_safe I store a \<longleftrightarrow>
     (\<forall>n. keeps I store (a_get a n)) \<and> (\<forall>n. keeps I store (a_list a n)) \<and>
     (\<forall>f ns. a_get_multiple a = Some f \<longrightarrow> keeps I store (f ns)) \<and>
     (\<forall>u dr. isDryRun dr \<longrightarrow> keeps I store (a_create a u dr)) \<and>
     (\<forall>u dr. isDryRun dr \<longrightarrow> keeps I store (a_update a u dr)) \<and>
     (\<forall>n dr. isDryRun dr \<longrightarrow> keeps I store (a_delete a n dr)) \<and>
     (\<forall>f u dr. a_push_envelope a = Some f \<longrightarrow> isDryRun dr \<longrightarrow> keeps I store (f u dr)) \<and>
     (\<forall>f filt us. a_select_delete a = Some f \<longrightarrow> keeps I store (f filt us))"

text \<open>The functions a typed adapter may call in a dry run.\<close>

definition crud_reads_safe :: "('s \<Rightarrow> bool) \<Rightarrow> ('s \<Rightarrow> 'o) \<Rightarrow> ('i, 's) typed_crud \<Rightarrow> bool" where
  "crud_reads_safe I store c \<longleftrightarrow>
     (\<forall>f n. tc_list c = Some f \<longrightarrow> keeps I store (f n)) \<and>
     (\<forall>f n. tc_get c = Some f \<longrightarrow> keeps I store (f n)) \<and>
     (\<forall>f xs. tc_validate c = Some f \<longrightarrow> keeps I store (f xs))"

lemma keepsD: "keeps I store f \<Longrightarrow> f s = (r, s') \<Longrightarrow> I s \<Longrightarrow> I s' \<and> store s' = store s"
  unfolding keeps_def by (metis snd_conv)

lemma keepsI: "(\<And>s r s'. I s \<Longrightarrow> f s = (r, s') \<Longrightarrow> I s' \<and> store s' = store s) \<Longrightarrow> keeps I store f"
  unfolding keeps_def by (metis prod.collapse)

lemma keeps_return: "keeps I store (\<lambda>s. (r s, s))"
  by (simp add: keeps_def)

lemma crud_Get_keeps:
  assumes "crud_reads_safe I store c"
  shows "keeps I store (crud_Get c name)"
proof (cases "tc_get c")
  case (Some get)
  then have "keeps I store (get name)" using assms by (simp add: crud_reads_safe_def)
  then show ?thesis
    by (auto simp: keeps_def crud_Get_def Some split: prod.split sum.split option.split dest: keepsD)
next
  case None
  show ?thesis
  proof (cases "tc_list c")
    case (Some list)
    then have k: "keeps I store (list 0)" using assms by (simp add: crud_reads_safe_def)
    have "snd (crud_Get c name s) = snd (list 0 s)" for s
      by (simp add: crud_Get_def \<open>tc_get c = None\<close> Some split: prod.split option.split)
    then show ?thesis using k by (simp add: keeps_def)
  qed (simp add: keeps_def crud_Get_def \<open>tc_get c = None\<close>)
qed

lemma dryRunValidate_keeps:
  assumes "crud_reads_safe I store c"
  shows "keeps I store (dryRunValidate c item)"
proof (cases "tc_validate c")
  case (Some f)
  have "snd (dryRunValidate c item s) = snd (f [item] s)" for s
    by (simp add: dryRunValidate_def Some split: prod.split option.split)
  then show ?thesis using assms Some by (simp add: keeps_def crud_reads_safe_def)
qed (simp add: keeps_def dryRunValidate_def)

lemma AsAdapter_safe:
  assumes "crud_reads_safe I store c"
  shows "adapter_safe I store (AsAdapter c)"
proof -
  have "snd (typed_Get c n s) = snd (crud_Get c n s)" for n s
    by (simp add: typed_Get_def split: prod.split sum.split)
  then have "keeps I store (typed_Get c n)" for n
    using crud_Get_keeps [OF assms] by (simp add: keeps_def)
  moreover have "keeps I store (typed_List c n)" for n
  proof (cases "tc_list c")
    case (Some f)
    have "snd (typed_List c n s) = snd (f n s)" for s
      by (simp add: typed_List_def Some split: prod.split sum.split option.split)
    then show ?thesis using assms Some by (simp add: keeps_def crud_reads_safe_def)
  qed (simp add: keeps_def typed_List_def)
  moreover have "keeps I store (typed_Create c u dr)" "keeps I store (typed_Update c u dr)"
    if "isDryRun dr" for u dr
    using that dryRunValidate_keeps [OF assms]
    by (auto simp: keeps_def typed_Create_def typed_Update_def split: option.split sum.split)
  moreover have "keeps I store (typed_Delete c n dr)" if "isDryRun dr" for n dr
    using that by (simp add: keeps_def typed_Delete_def split: option.split)
  ultimately show ?thesis by (simp add: adapter_safe_def AsAdapter_def)
qed

text \<open>An adapter built from typed functions never creates, updates or deletes during a dry run: if
  listing, reading and validating leave the store alone, so does every operation with the dry run
  option, whatever the mutating functions do; and without a validation function a dry run of a
  decodable object reports itself as unverified and does not touch the state at all.\<close>

theorem typed_adapter_dry_run:
  assumes "crud_reads_safe I store c"
  shows "adapter_safe I store (AsAdapter c) \<and>
    (tc_validate c = None \<longrightarrow> isDryRun dr \<longrightarrow> tc_create c \<noteq> None \<longrightarrow>
       crud_fromUnstructured c u = Inr x \<longrightarrow>
       a_create (AsAdapter c) u dr s = (Inl ErrDryRunUnverified, s))"
  using AsAdapter_safe [OF assms]
  by (auto simp: AsAdapter_def typed_Create_def dryRunValidate_def)

definition sample_crud :: "(string, string list) typed_crud" where
  "sample_crud =
     \<lparr>tc_list = Some (\<lambda>n s. ((Some s, None), s)), tc_get = None,
      tc_create = Some (\<lambda>i s. (Inr i, i # s)), tc_update = None,
      tc_delete = Some (\<lambda>n s. (None, filter (\<lambda>i. i \<noteq> n) s)), tc_validate = None, tc_namespace = ''ns'',
      tc_strip = [], tc_metadata = None,
      tc_descriptor = \<lparr>d_gv = \<lparr>gv_group = ''g'', gv_version = ''v1''\<rparr>, d_kind = ''K'', d_singular = ''k'', d_plural = ''ks''\<rparr>,
      tc_name = (\<lambda>i. i), tc_restore = (\<lambda>n i. n), tc_marshal = (\<lambda>i. Inr [(''v'', StrValue i)]),
      tc_unmarshal = (\<lambda>m. Inr [])\<rparr>"

lemma typed_adapter_dry_run_witness:
  "a_create (AsAdapter sample_crud) (sample_group ''x'' ''t'') [''All''] [''a''] =
     (Inl ErrDryRunUnverified, [''a''])"
proof -
  have "crud_reads_safe (\<lambda>_. True) (\<lambda>s. s) sample_crud"
    by (simp add: crud_reads_safe_def sample_crud_def keeps_def)
  from typed_adapter_dry_run [OF this, of "[''All'']" "sample_group ''x'' ''t''" "(''x'', ''x'')" "[''a'']"]
  show ?thesis
    by (simp add: sample_crud_def isDryRun_def crud_fromUnstructured_def sample_group_def meta_string_def)
qed

text \<open>Every adapter factory runs at most once: after the first request for a kind its adapter or
  its error is final, so a repeated request changes nothing and gives the same answer, and no request
  disturbs the answer for another kind.\<close>

theorem getAdapter_once:
  "case getAdapter r gvk st of (res, st') \<Rightarrow>
     getAdapter r gvk st' = (res, st') \<and>
     (map_of (rt_instances st'))(gvk := None) = (map_of (rt_instances st))(gvk := None) \<and>
     (map_of (rt_initErrs st'))(gvk := None) = (map_of (rt_initErrs st))(gvk := None) \<and>
     set (rt_done st') - {gvk} = set (rt_done st) - {gvk}"
proof -
  have run: "gvk \<in> set (rt_done (run_factory gvk f st))"
    "(map_of (rt_instances (run_factory gvk f st)))(gvk := None) = (map_of (rt_instances st))(gvk := None)"
    "(map_of (rt_initErrs (run_factory gvk f st)))(gvk := None) = (map_of (rt_initErrs st))(gvk := None)"
    "set (rt_done (run_factory gvk f st)) - {gvk} = set (rt_done st) - {gvk}"
    for f
    by (auto simp: run_factory_def go_map split: prod.split sum.split)
  show ?thesis
  proof (cases "map_of (r_factories r) gvk")
    case (Some f)
    define st' where "st' = (if gvk \<in> set (rt_done st) then st else run_factory gvk f st)"
    have d: "gvk \<in> set (rt_done st')" using run(1) by (simp add: st'_def)
    have eq: "getAdapter r gvk st = (case map_of (rt_initErrs st') gvk of
        Some e \<Rightarrow> (Inl (wrap_error ''initializing adapter: '' e), st')
      | None \<Rightarrow> (Inr (map_of (rt_instances st') gvk), st'))"
      unfolding st'_def by (simp only: getAdapter_def Some option.case Let_def)
    have "getAdapter r gvk st' = (case map_of (rt_initErrs st') gvk of
        Some e \<Rightarrow> (Inl (wrap_error ''initializing adapter: '' e), st')
      | None \<Rightarrow> (Inr (map_of (rt_instances st') gvk), st'))"
      by (simp add: getAdapter_def Some d)
    then have "getAdapter r gvk st' = getAdapter r gvk st" unfolding eq .
    moreover have "snd (getAdapter r gvk st) = st'" unfolding eq by (simp split: option.split)
    ultimately show ?thesis using run
      by (cases "getAdapter r gvk st") (auto simp: st'_def)
  qed (simp add: getAdapter_def)
qed

section \<open>Routing keeps dry runs safe\<close>

text \<open>The state invariant of a router whose factories only build safe adapters.\<close>

definition routed_inv :: "('s \<Rightarrow> bool) \<Rightarrow> ('s \<Rightarrow> 'o) \<Rightarrow> 's routed \<Rightarrow> bool" where
  "routed_inv I store st \<longleftrightarrow>
     I (rt_world st) \<and> (\<forall>g a. map_of (rt_instances st) g = Some a \<longrightarrow> adapter_safe I store a)"

definition factories_safe :: "('s \<Rightarrow> bool) \<Rightarrow> ('s \<Rightarrow> 'o) \<Rightarrow> 's router \<Rightarrow> bool" where
  "factories_safe I store r \<longleftrightarrow>
     (\<forall>g f. map_of (r_factories r) g = Some f \<longrightarrow>
        keeps I store f \<and> (\<forall>s a s'. I s \<longrightarrow> f s = (Inr a, s') \<longrightarrow> adapter_safe I store a)) \<and>
     (\<forall>s. I s \<longrightarrow> I (r_cancel r s) \<and> store (r_cancel r s) = store s)"

lemma getAdapter_keeps:
  assumes f: "factories_safe I store r"
  shows "keeps (routed_inv I store) (\<lambda>st. store (rt_world st)) (getAdapter r gvk)"
    and "routed_inv I store st \<Longrightarrow> getAdapter r gvk st = (Inr (Some a), st') \<Longrightarrow> adapter_safe I store a"
proof -
  have run: "routed_inv I store (run_factory gvk fac st) \<and> store (rt_world (run_factory gvk fac st)) = store (rt_world st)"
    if "map_of (r_factories r) gvk = Some fac" "routed_inv I store st" for fac st
  proof -
    obtain res w where res: "fac (rt_world st) = (res, w)" by force
    have "I w \<and> store w = store (rt_world st)"
      using f that res by (meson factories_safe_def keepsD routed_inv_def)
    moreover have "adapter_safe I store a" if "res = Inr a" for a
      using f \<open>map_of (r_factories r) gvk = Some fac\<close> \<open>routed_inv I store st\<close> res that
      unfolding factories_safe_def routed_inv_def by blast
    ultimately show ?thesis using that(2)
      by (cases res) (auto simp: run_factory_def res routed_inv_def go_map)
  qed
  have state: "routed_inv I store (snd (getAdapter r gvk st)) \<and>
      store (rt_world (snd (getAdapter r gvk st))) = store (rt_world st)" if "routed_inv I store st" for st
    using run that by (auto simp: getAdapter_def Let_def split: option.split)
  then show "keeps (routed_inv I store) (\<lambda>st. store (rt_world st)) (getAdapter r gvk)"
    by (simp add: keeps_def)
  show "adapter_safe I store a" if inv: "routed_inv I store st" and g: "getAdapter r gvk st = (Inr (Some a), st')"
  proof -
    have "map_of (rt_instances st') gvk = Some a"
      using g by (auto simp: getAdapter_def Let_def split: option.splits)
    moreover have "routed_inv I store st'" using state [OF inv] g by simp
    ultimately show ?thesis unfolding routed_inv_def by blast
  qed
qed

lemma on_world_keeps:
  assumes "keeps I store f"
  shows "keeps (routed_inv I store) (\<lambda>st. store (rt_world st)) (on_world f)"
  using assms by (auto simp: keeps_def on_world_def routed_inv_def split: prod.split)

lemma route_keeps:
  assumes f: "factories_safe I store r" and dyn: "keeps I store via_dynamic"
    and ad: "\<And>a. adapter_safe I store a \<Longrightarrow> keeps I store (via_adapter a)"
  shows "keeps (routed_inv I store) (\<lambda>st. store (rt_world st)) (route r gvk fail via_adapter via_dynamic)"
proof (rule keepsI)
  fix st res st'
  assume inv: "routed_inv I store st" and res: "route r gvk fail via_adapter via_dynamic st = (res, st')"
  obtain x st1 where g: "getAdapter r gvk st = (x, st1)" by force
  have st1: "routed_inv I store st1 \<and> store (rt_world st1) = store (rt_world st)"
    using keepsD [OF getAdapter_keeps(1) [OF f] g inv] .
  consider e where "x = Inl e" | "x = Inr None" | a where "x = Inr (Some a)"
    by (cases x) auto
  then show "routed_inv I store st' \<and> store (rt_world st') = store (rt_world st)"
  proof cases
    case 1
    then show ?thesis using res g st1 by (simp add: route_def)
  next
    case 2
    then have "on_world via_dynamic st1 = (res, st')" using res g by (simp add: route_def)
    then show ?thesis using keepsD [OF on_world_keeps [OF dyn]] st1 by metis
  next
    case 3
    then have "on_world (via_adapter a) st1 = (res, st')" using res g by (simp add: route_def)
    moreover have "adapter_safe I store a" using getAdapter_keeps(2) [OF f inv] g 3 by blast
    ultimately show ?thesis using keepsD [OF on_world_keeps [OF ad]] st1 by metis
  qed
qed

lemma get_concurrently_keeps:
  assumes a: "adapter_safe I store a" and c: "\<And>s. I s \<Longrightarrow> I (cancel s) \<and> store (cancel s) = store s"
  shows "keeps I store (get_concurrently cancel cs a names)"
proof -
  let ?c = "\<lambda>(w, res :: uobj option list). (cancel w, res)"
  have one: "I (fst (snd (get_one a job st))) \<and> store (fst (snd (get_one a job st))) = store (fst st)"
    if "I (fst st)" for job st
  proof -
    have "keeps I store (a_get a (snd job))" using a by (simp add: adapter_safe_def)
    then show ?thesis using that
      by (auto simp: get_one_def split: prod.split sum.split dest: keepsD)
  qed
  have "I (fst (snd (run_group ?c (get_one a) err jobs st))) \<and>
      store (fst (snd (run_group ?c (get_one a) err jobs st))) = store (fst st)" if "I (fst st)" for err jobs st
    using that
  proof (induction jobs arbitrary: st err)
    case (Cons job jobs)
    obtain e st1 where s: "get_one a job st = (e, st1)" by (rule prod.exhaust)
    have k: "I (fst st1) \<and> store (fst st1) = store (fst st)" using one [OF Cons.prems, of job] s by simp
    have k': "I (fst (?c st1)) \<and> store (fst (?c st1)) = store (fst st)"
      using k c by (simp add: split_def)
    show ?case
      using s Cons.IH [of st1] Cons.IH [of "?c st1"] k k' by (cases e; cases err) simp_all
  qed simp
  then have "I (fst st') \<and> store (fst st') = store s"
    if "run_group ?c (get_one a) None jobs (s, xs) = (e, st')" "I s" for jobs s xs e st'
    using that by (metis fst_conv snd_conv)
  then show ?thesis
    by (auto intro!: keepsI simp: get_concurrently_def split: prod.splits option.splits)
qed

lemma router_client_safe:
  assumes f: "factories_safe I store r" and dyn: "client_safe I store (\<lambda>_. True) (r_dynamic r)"
  shows "client_safe (routed_inv I store) (\<lambda>st. store (rt_world st)) (\<lambda>_. True) (router_client r)"
proof -
  have c: "I s \<Longrightarrow> I (r_cancel r s) \<and> store (r_cancel r s) = store s" for s
    using f by (simp add: factories_safe_def)
  have gm: "keeps I store (case a_get_multiple a of Some getter \<Rightarrow> getter names
      | None \<Rightarrow> get_concurrently (r_cancel r) (r_schedule r names) a names)"
    if "adapter_safe I store a" for a names
    using that get_concurrently_keeps [OF that c] by (auto simp: adapter_safe_def split: option.split)
  show ?thesis
    unfolding client_safe_def
    using dyn gm
    by (auto simp: router_client_def router_Create_def router_Update_def router_Get_def
        router_GetMultiple_def router_List_def router_Delete_def client_safe_def adapter_safe_def
        intro!: route_keeps [OF f])
qed

end
