(* ===== verification/Gcx_Summary.thy ===== *)
theory Gcx_Summary
  imports Gcx_Adapters
begin

text \<open>
  The summary of a batch operation (\<^verbatim>\<open>remote/summary.go\<close>) and the globals that pushing,
  pulling and deleting share: the group aliases, the adapter registrations, the natural keys and the
  metadata accessors. Counters are 64 bit in the code; they count operations of one run and are
  naturals here. The lemmas say how the records of a summary count.
\<close>

section \<open>Operation summaries\<close>

record operation_failure =
  of_resource :: "resource option"
  of_error :: go_error

record operation_success =
  os_requested :: string
  os_source :: string
  os_action :: string
  os_kind :: string
  os_name :: string
  os_uid :: string
  os_namespace :: string

record summary =
  successCount :: nat
  failedCount :: nat
  skippedCount :: nat
  truncated :: bool
  failures :: "operation_failure list"
  skipReasons :: "(string \<times> nat) list"
  warnings :: "string list"
  successes :: "operation_success list"

definition empty_summary :: summary where
  "empty_summary =
     \<lparr>successCount = 0, failedCount = 0, skippedCount = 0, truncated = False, failures = [],
      skipReasons = [], warnings = [], successes = []\<rparr>"

definition RecordSuccess :: "summary \<Rightarrow> summary" where
  "RecordSuccess s = s\<lparr>successCount := successCount s + 1\<rparr>"

definition skip_count :: "(string \<times> nat) list \<Rightarrow> string \<Rightarrow> nat" where
  "skip_count m reason = (case map_of m reason of None \<Rightarrow> 0 | Some n \<Rightarrow> n)"

definition RecordSkipped :: "string \<Rightarrow> summary \<Rightarrow> summary" where
  "RecordSkipped reason s =
     s\<lparr>skippedCount := skippedCount s + 1,
       skipReasons := AList.update reason (skip_count (skipReasons s) reason + 1) (skipReasons s)\<rparr>"

definition RecordFailure :: "resource option \<Rightarrow> go_error \<Rightarrow> summary \<Rightarrow> summary" where
  "RecordFailure res err s =
     s\<lparr>failedCount := failedCount s + 1,
       failures := failures s @ [\<lparr>of_resource = res, of_error = err\<rparr>]\<rparr>"

definition RecordTruncated :: "summary \<Rightarrow> summary" where
  "RecordTruncated s = s\<lparr>truncated := True\<rparr>"

definition RecordWarnings :: "string list \<Rightarrow> summary \<Rightarrow> summary" where
  "RecordWarnings ws s = s\<lparr>warnings := warnings s @ ws\<rparr>"

definition RecordApplied :: "operation_success \<Rightarrow> summary \<Rightarrow> summary" where
  "RecordApplied result s = s\<lparr>successes := successes s @ [result]\<rparr>"

text \<open>\<^verbatim>\<open>HasSavedMutationFailure\<close>; a nil summary is \<open>None\<close>. An error that implements
  \<^verbatim>\<open>SavedMutationError\<close> and answers true has \<open>e_saved\<close>.\<close>

definition HasSavedMutationFailure :: "summary option \<Rightarrow> bool" where
  "HasSavedMutationFailure s =
     (case s of None \<Rightarrow> False | Some s \<Rightarrow> list_ex (\<lambda>f. e_saved (of_error f)) (failures s))"

text \<open>The bookkeeping invariant: counters and lists agree. \<open>total_skips\<close> adds up the reasons.\<close>

definition total_skips :: "(string \<times> nat) list \<Rightarrow> nat" where
  "total_skips m = sum_list (map snd m)"

definition summary_ok :: "summary \<Rightarrow> bool" where
  "summary_ok s \<longleftrightarrow>
     failedCount s = length (failures s) \<and> skippedCount s = total_skips (skipReasons s) \<and>
     distinct (map fst (skipReasons s)) \<and> length (successes s) \<le> successCount s"

lemma total_skips_update:
  "distinct (map fst m) \<Longrightarrow>
     total_skips (AList.update r (Suc (skip_count m r)) m) = Suc (total_skips m)"
proof (induction m)
  case (Cons e m)
  obtain k n where e: "e = (k, n)" by force
  show ?case
  proof (cases "k = r")
    case False
    then have "skip_count (e # m) r = skip_count m r" by (simp add: e skip_count_def)
    then show ?thesis using False Cons by (simp add: e total_skips_def)
  qed (simp add: e skip_count_def total_skips_def)
qed (simp add: skip_count_def total_skips_def)

lemma summary_ok_empty: "summary_ok empty_summary"
  by (simp add: summary_ok_def empty_summary_def total_skips_def)

lemma summary_ok_record:
  assumes "summary_ok s"
  shows "summary_ok (RecordSuccess s)" "summary_ok (RecordSkipped reason s)" "summary_ok (RecordFailure res err s)"
    "summary_ok (RecordTruncated s)" "summary_ok (RecordWarnings ws s)"
    "summary_ok (RecordApplied result (RecordSuccess s))"
  using assms
  by (simp_all add: summary_ok_def RecordSuccess_def RecordSkipped_def RecordFailure_def RecordTruncated_def
      RecordWarnings_def RecordApplied_def total_skips_update distinct_update)

text \<open>How many outcomes a summary has recorded.\<close>

definition outcomes :: "summary \<Rightarrow> nat" where
  "outcomes s = successCount s + failedCount s + skippedCount s"

lemma outcomes_record [simp]:
  "outcomes (RecordSuccess s) = Suc (outcomes s)" "outcomes (RecordSkipped reason s) = Suc (outcomes s)"
  "outcomes (RecordFailure res err s) = Suc (outcomes s)" "outcomes (RecordTruncated s) = outcomes s"
  "outcomes (RecordWarnings ws s) = outcomes s" "outcomes (RecordApplied result s) = outcomes s"
  "outcomes empty_summary = 0"
  by (simp_all add: outcomes_def RecordSuccess_def RecordSkipped_def RecordFailure_def RecordTruncated_def
      RecordWarnings_def RecordApplied_def empty_summary_def)

section \<open>Globals\<close>

record 'f globals =
  gl_gvks :: gvk_registry
  gl_regs :: "'f registration list"
  gl_keys :: natural_key_registry
  gl_platform :: platform

text \<open>The processors run in turn on the resource; a failing one leaves the resource as it received it.\<close>

fun run_processors :: "'e processor list \<Rightarrow> resource \<Rightarrow> 'e option \<times> resource" where
  "run_processors [] res = (None, res)"
| "run_processors (p # ps) res =
     (case p res of Inl e \<Rightarrow> (Some e, res) | Inr res' \<Rightarrow> run_processors ps res')"

definition errReadOnlyNative :: "uobj \<Rightarrow> go_error" where
  "errReadOnlyNative u =
     (case ReadOnlyNativeError u of (kind, title, guidance) \<Rightarrow>
        (plain_error (''read-only native resource: '' @ kind @ '' '' @ title @ '' is read-only: '' @ guidance))\<lparr>e_read_only := True\<rparr>)"

text \<open>\<^verbatim>\<open>supportedDescriptors\<close>: a later descriptor of a kind replaces an earlier one.\<close>

definition supportedDescriptors :: "descriptor list \<Rightarrow> (group_version_kind \<times> descriptor) list" where
  "supportedDescriptors ds = fold (\<lambda>d m. AList.update (Descriptor_GroupVersionKind d) d m) ds []"

lemma supportedDescriptors_gvk:
  assumes "map_of (supportedDescriptors ds) gvk = Some d"
  shows "Descriptor_GroupVersionKind d = gvk \<and> d \<in> set ds"
proof -
  have "map_of (fold (\<lambda>d m. AList.update (Descriptor_GroupVersionKind d) d m) ds m) gvk = Some d \<Longrightarrow>
      (Descriptor_GroupVersionKind d = gvk \<and> d \<in> set ds) \<or> map_of m gvk = Some d" for m
  proof (induction ds arbitrary: m)
    case (Cons e ds)
    from Cons.IH [of "AList.update (Descriptor_GroupVersionKind e) e m"] Cons.prems
    show ?case by (auto simp: go_map split: if_splits)
  qed simp
  from this [of "[]"] assms show ?thesis by (simp add: supportedDescriptors_def)
qed

text \<open>\<^verbatim>\<open>buildRouter\<close>: the factories of the registrations that the registry serves.\<close>

definition buildRouter_factories ::
    "'g registration list \<Rightarrow> (group_version_kind \<Rightarrow> 'f option) \<Rightarrow> (group_version_kind \<times> 'f) list" where
  "buildRouter_factories regs get_adapter =
     fold (\<lambda>r m. case get_adapter (rg_gvk r) of
                   None \<Rightarrow> m | Some f \<Rightarrow> AList.update (rg_gvk r) f m) regs []"

end
