(* ===== verification/Gcx_Folders.thy ===== *)
theory Gcx_Folders
  imports Gcx_Objects
begin

text \<open>
  The ordering of folders before a push (\<^verbatim>\<open>internal/resources/remote/folder_hierarchy.go\<close>):
  the dependency graph, the traversal that numbers the levels and the grouping. The traversal is
  recursive over pointers, so it takes fuel; the number of folders is enough
  (\<open>assignLevels_levels\<close>). The lemmas show that the traversal numbers exactly the folders reachable
  from a root, each with its distance, and that the rest lies on or below a cycle.
\<close>

section \<open>The graph\<close>

record folder_node =
  n_resource :: resource
  n_children :: "resource list"
  n_level :: int

type_synonym folder_nodes = "(string \<times> folder_node) list"

definition folder_map :: "resource list \<Rightarrow> folder_nodes" where
  "folder_map folders =
     fold (\<lambda>f. AList.update (res_name f) \<lparr>n_resource = f, n_children = [], n_level = -1\<rparr>) folders []"

text \<open>The second loop of \<^verbatim>\<open>buildFolderHierarchy\<close>, over the nodes in the order of a schedule.\<close>

fun link_folders :: "resource list \<Rightarrow> folder_nodes \<times> string list \<Rightarrow> folder_nodes \<times> string list" where
  "link_folders [] st = st"
| "link_folders (f # fs) (nodes, roots) =
     (if GetFolder f = [] then link_folders fs (nodes, roots @ [res_name f])
      else (case map_of nodes (GetFolder f) of
              Some p \<Rightarrow>
                link_folders fs
                  (AList.update (GetFolder f) (p\<lparr>n_children := n_children p @ [f]\<rparr>) nodes, roots)
            | None \<Rightarrow> link_folders fs (nodes, roots @ [res_name f])))"

definition buildFolderHierarchy :: "nat list \<Rightarrow> resource list \<Rightarrow> folder_nodes \<times> string list" where
  "buildFolderHierarchy cs folders =
     (let nodes = folder_map folders
      in link_folders (map (\<lambda>e. n_resource (snd e)) (go_range cs nodes)) (nodes, []))"

text \<open>\<^verbatim>\<open>traverse\<close> and its loop over the children. \<open>None\<close> is a missing node (a nil dereference) or
  exhausted fuel.\<close>

fun traverse :: "nat \<Rightarrow> string \<Rightarrow> int \<Rightarrow> folder_nodes \<Rightarrow> folder_nodes option"
and traverse_all :: "nat \<Rightarrow> string list \<Rightarrow> int \<Rightarrow> folder_nodes \<Rightarrow> folder_nodes option" where
  "traverse 0 uid level nodes = None"
| "traverse (Suc fuel) uid level nodes =
     (case map_of nodes uid of
        None \<Rightarrow> None
      | Some node \<Rightarrow>
          traverse_all fuel (map res_name (n_children node)) (level + 1)
            (AList.update uid (node\<lparr>n_level := level\<rparr>) nodes))"
| "traverse_all fuel [] level nodes = Some nodes"
| "traverse_all fuel (uid # uids) level nodes =
     (case traverse fuel uid level nodes of
        None \<Rightarrow> None | Some nodes' \<Rightarrow> traverse_all fuel uids level nodes')"

definition assignLevels :: "folder_nodes \<Rightarrow> string list \<Rightarrow> folder_nodes option" where
  "assignLevels nodes rootUIDs = traverse_all (length nodes) rootUIDs 0 nodes"

text \<open>The last loop of \<^verbatim>\<open>SortFoldersByDependency\<close>; an error carries the name of the folder.\<close>

fun group_levels :: "folder_node list \<Rightarrow> resource list list \<Rightarrow> string + resource list list" where
  "group_levels [] levels = Inr levels"
| "group_levels (node # nodes) levels =
     (if n_level node < 0 then Inl (res_name (n_resource node))
      else (let i = nat (n_level node)
            in group_levels nodes (levels[i := levels ! i @ [n_resource node]])))"

definition SortFoldersByDependency ::
    "nat list \<Rightarrow> nat list \<Rightarrow> resource list \<Rightarrow> (string + resource list list) option" where
  "SortFoldersByDependency cs cs' folders =
     (if length folders = 0 then Some (Inr [])
      else (let (nodes, roots) = buildFolderHierarchy cs folders in
            case assignLevels nodes roots of
              None \<Rightarrow> None
            | Some nodes' \<Rightarrow>
                (let maxLevel = fold max (map (\<lambda>e. n_level (snd e)) nodes') 0
                 in Some (group_levels (map snd (go_range cs' nodes'))
                      (replicate (nat (maxLevel + 1)) [])))))"

section \<open>The traversal of a forest\<close>

definition kids :: "folder_nodes \<Rightarrow> string \<Rightarrow> string list" where
  "kids nodes u = (case map_of nodes u of None \<Rightarrow> [] | Some nd \<Rightarrow> map res_name (n_children nd))"

definition level_of :: "folder_nodes \<Rightarrow> string \<Rightarrow> int" where
  "level_of nodes u = (case map_of nodes u of None \<Rightarrow> -1 | Some nd \<Rightarrow> n_level nd)"

definition edges :: "folder_nodes \<Rightarrow> (string \<times> string) set" where
  "edges nodes = {(u, v). v \<in> set (kids nodes u)}"

text \<open>The shape the graph has: children are nodes, listed once, below one parent only.\<close>

definition forest :: "folder_nodes \<Rightarrow> bool" where
  "forest nodes \<longleftrightarrow>
     (\<forall>u v. (u, v) \<in> edges nodes \<longrightarrow> v \<in> keys_of nodes) \<and>
     (\<forall>u. distinct (kids nodes u)) \<and>
     (\<forall>u u' v. (u, v) \<in> edges nodes \<longrightarrow> (u', v) \<in> edges nodes \<longrightarrow> u = u')"

text \<open>Two node maps with the same nodes and links.\<close>

definition same_graph :: "folder_nodes \<Rightarrow> folder_nodes \<Rightarrow> bool" where
  "same_graph a b \<longleftrightarrow>
     kids a = kids b \<and> map fst a = map fst b \<and>
     (\<forall>u. map_option n_resource (map_of a u) = map_option n_resource (map_of b u))"

lemma same_graph_refl: "same_graph a a"
  by (simp add: same_graph_def)

lemma same_graph_trans: "same_graph a b \<Longrightarrow> same_graph b c \<Longrightarrow> same_graph a c"
  by (simp add: same_graph_def)

lemma same_graph_edges: "same_graph a b \<Longrightarrow> edges a = edges b \<and> keys_of a = keys_of b \<and> forest a = forest b"
proof -
  assume g: "same_graph a b"
  then have e: "edges a = edges b" by (simp add: same_graph_def edges_def)
  have "set (map fst a) = set (map fst b)" using g by (simp add: same_graph_def)
  then have "keys_of a = keys_of b" by (simp add: keys_of_def)
  then show ?thesis using e g by (simp add: forest_def same_graph_def)
qed

lemma update_present: "k \<in> keys_of m \<Longrightarrow> map fst (AList.update k v m) = map fst m"
  by (induction m) (auto simp: keys_of_def)

lemma same_graph_level:
  assumes "map_of nodes u = Some nd"
  shows "same_graph nodes (AList.update u (nd\<lparr>n_level := l\<rparr>) nodes)"
proof -
  have "u \<in> keys_of nodes" using assms by (rule map_of_SomeD_keys)
  then show ?thesis using assms
    by (auto simp: same_graph_def kids_def fun_eq_iff go_map update_present)
qed

text \<open>The traversal only assigns levels.\<close>

lemma traverse_same_graph:
  "traverse fuel u l nodes = Some nodes' \<Longrightarrow> same_graph nodes nodes'"
  "traverse_all fuel us l nodes = Some nodes' \<Longrightarrow> same_graph nodes nodes'"
proof (induction fuel u l nodes and fuel us l nodes arbitrary: nodes' and nodes'
    rule: traverse_traverse_all.induct)
  case (2 fuel uid level nodes)
  then obtain nd where nd: "map_of nodes uid = Some nd"
      "traverse_all fuel (map res_name (n_children nd)) (level + 1)
         (AList.update uid (nd\<lparr>n_level := level\<rparr>) nodes) = Some nodes'"
    by (auto split: option.splits)
  show ?case using "2.IH" [OF nd] same_graph_level [OF nd(1)] same_graph_trans by blast
next
  case (4 fuel uid uids level nodes)
  then show ?case by (auto split: option.splits intro: same_graph_trans)
qed (auto simp: same_graph_refl)

definition below :: "folder_nodes \<Rightarrow> string \<Rightarrow> string \<Rightarrow> bool" where
  "below nodes u v \<longleftrightarrow> (\<exists>k. (u, v) \<in> edges nodes ^^ k)"

text \<open>What a traversal from \<open>u\<close> at level \<open>l\<close> does to the levels.\<close>

definition numbered :: "folder_nodes \<Rightarrow> string \<Rightarrow> int \<Rightarrow> folder_nodes \<Rightarrow> bool" where
  "numbered nodes u l nodes' \<longleftrightarrow>
     (\<forall>v k. (u, v) \<in> edges nodes ^^ k \<longrightarrow> level_of nodes' v = l + int k) \<and>
     (\<forall>v. \<not> below nodes u v \<longrightarrow> level_of nodes' v = level_of nodes v)"

lemma below_same_graph: "same_graph a b \<Longrightarrow> below a = below b"
  using same_graph_edges by (fastforce simp: below_def fun_eq_iff)

lemma traverse_all_numbered:
  assumes "\<And>u nodes1 l. u \<in> set us \<Longrightarrow> same_graph nodes nodes1 \<Longrightarrow>
      \<exists>nodes'. traverse fuel u l nodes1 = Some nodes' \<and> numbered nodes1 u l nodes'"
    and "distinct us"
    and "\<And>u u' v. u \<in> set us \<Longrightarrow> u' \<in> set us \<Longrightarrow> u \<noteq> u' \<Longrightarrow> below nodes u v \<Longrightarrow> \<not> below nodes u' v"
    and "same_graph nodes nodes0"
  shows "\<exists>nodes'. traverse_all fuel us l nodes0 = Some nodes' \<and>
    (\<forall>u \<in> set us. \<forall>v k. (u, v) \<in> edges nodes ^^ k \<longrightarrow> level_of nodes' v = l + int k) \<and>
    (\<forall>v. (\<forall>u \<in> set us. \<not> below nodes u v) \<longrightarrow> level_of nodes' v = level_of nodes0 v)"
  using assms
proof (induction us arbitrary: nodes0)
  case (Cons u us)
  obtain n1 where n1: "traverse fuel u l nodes0 = Some n1" "numbered nodes0 u l n1"
    using Cons.prems(1) [of u nodes0 l] Cons.prems(4) by auto
  have g0: "edges nodes0 = edges nodes" "below nodes0 = below nodes"
    using Cons.prems(4) same_graph_edges below_same_graph by auto
  have g1: "same_graph nodes n1"
    using Cons.prems(4) traverse_same_graph(1) [OF n1(1)] by (rule same_graph_trans)
  have rest: "\<exists>n2. traverse_all fuel us l n1 = Some n2 \<and>
      (\<forall>u \<in> set us. \<forall>v k. (u, v) \<in> edges nodes ^^ k \<longrightarrow> level_of n2 v = l + int k) \<and>
      (\<forall>v. (\<forall>u \<in> set us. \<not> below nodes u v) \<longrightarrow> level_of n2 v = level_of n1 v)"
  proof (rule Cons.IH [OF _ _ _ g1])
    show "distinct us" using Cons.prems(2) by simp
  next
    fix w n l'
    assume "w \<in> set us" "same_graph nodes n"
    then show "\<exists>nodes'. traverse fuel w l' n = Some nodes' \<and> numbered n w l' nodes'"
      by (intro Cons.prems(1)) simp_all
  next
    fix w w' v
    assume "w \<in> set us" "w' \<in> set us" "w \<noteq> w'" "below nodes w v"
    then show "\<not> below nodes w' v" by (intro Cons.prems(3) [of w w' v]) simp_all
  qed
  obtain n2 where n2: "traverse_all fuel us l n1 = Some n2"
      "\<forall>u \<in> set us. \<forall>v k. (u, v) \<in> edges nodes ^^ k \<longrightarrow> level_of n2 v = l + int k"
      "\<forall>v. (\<forall>u \<in> set us. \<not> below nodes u v) \<longrightarrow> level_of n2 v = level_of n1 v"
    using rest by blast
  have "level_of n2 v = l + int k" if v: "(u, v) \<in> edges nodes ^^ k" for v k
  proof -
    have "below nodes u v" using v by (auto simp: below_def)
    have "\<not> below nodes u' v" if "u' \<in> set us" for u'
    proof (rule Cons.prems(3) [of u u' v])
      show "u \<noteq> u'" using that Cons.prems(2) by auto
    qed (use that \<open>below nodes u v\<close> in simp_all)
    then show ?thesis using n2(3) n1(2) v g0 by (simp add: numbered_def)
  qed
  then show ?case using n1 n2 g0 by (auto simp: numbered_def)
qed simp

lemma relpow_back:
  "forest nodes \<Longrightarrow> (u, v) \<in> edges nodes ^^ k \<Longrightarrow> (w, v) \<in> edges nodes ^^ (k + d) \<Longrightarrow> (w, u) \<in> edges nodes ^^ d"
proof (induction k arbitrary: v)
  case (Suc k)
  from Suc.prems(2) obtain x where x: "(u, x) \<in> edges nodes ^^ k" "(x, v) \<in> edges nodes" by auto
  have "(w, v) \<in> edges nodes ^^ Suc (k + d)" using Suc.prems(3) by simp
  then obtain y where y: "(w, y) \<in> edges nodes ^^ (k + d)" "(y, v) \<in> edges nodes" by auto
  have "x = y" using Suc.prems(1) x(2) y(2) unfolding forest_def by blast
  then show ?case using Suc.IH [OF Suc.prems(1) x(1)] y(1) by blast
qed simp

lemma unbounded_cycle: "(u, u) \<in> R ^^ Suc k \<Longrightarrow> (u, u) \<in> R ^^ (Suc k * m)"
proof (induction m)
  case (Suc m)
  have "(u, u) \<in> R ^^ Suc k O R ^^ (Suc k * m)" using Suc by blast
  then have "(u, u) \<in> R ^^ (Suc k + Suc k * m)" by (simp only: relpow_add)
  then show ?case by simp
qed simp

text \<open>When every path from \<open>u\<close> is shorter than the fuel, the traversal ends and numbers exactly what is
  below \<open>u\<close>.\<close>

lemma traverse_numbered:
  assumes "forest nodes" "u \<in> keys_of nodes" "\<forall>v k. (u, v) \<in> edges nodes ^^ k \<longrightarrow> k < fuel"
  shows "\<exists>nodes'. traverse fuel u l nodes = Some nodes' \<and> numbered nodes u l nodes'"
  using assms
proof (induction fuel arbitrary: u l nodes)
  case 0
  then show ?case by (metis less_zeroE relpow_0_I)
next
  case (Suc fuel)
  let ?E = "edges nodes"
  obtain nd where nd: "map_of nodes u = Some nd"
    using Suc.prems(2) map_of_None_iff_keys by fastforce
  define n1 where "n1 = AList.update u (nd\<lparr>n_level := l\<rparr>) nodes"
  have g: "same_graph nodes n1" unfolding n1_def using nd by (rule same_graph_level)
  let ?c = "map res_name (n_children nd)"
  have cs: "c \<in> set ?c \<longleftrightarrow> (u, c) \<in> ?E" for c by (simp add: edges_def kids_def nd)
  have acyc: "(u, u) \<notin> ?E ^^ Suc k" for k
  proof
    assume "(u, u) \<in> ?E ^^ Suc k"
    then have "(u, u) \<in> ?E ^^ (Suc k * Suc fuel)" by (rule unbounded_cycle)
    then have "Suc k * Suc fuel < Suc fuel" using Suc.prems(3) by blast
    then show False by simp
  qed
  have step: "\<exists>nodes'. traverse fuel c l' n2 = Some nodes' \<and> numbered n2 c l' nodes'"
    if "c \<in> set ?c" "same_graph n1 n2" for c n2 l'
  proof -
    have g2: "same_graph nodes n2" using g that(2) by (rule same_graph_trans)
    have "c \<in> keys_of nodes" using Suc.prems(1) that(1) cs unfolding forest_def by blast
    moreover have "k < fuel" if "(c, v) \<in> ?E ^^ k" for v k
    proof -
      have "(u, v) \<in> ?E ^^ Suc k" using cs \<open>c \<in> set ?c\<close> that by (meson relpow_Suc_I2)
      then show ?thesis using Suc.prems(3) by blast
    qed
    ultimately show ?thesis
      using Suc.IH [of n2 c l'] Suc.prems(1) same_graph_edges [OF g2] by simp
  qed
  have disj: "\<not> below n1 c' v" if c: "c \<in> set ?c" "c' \<in> set ?c" "c \<noteq> c'" "below n1 c v" for c c' v
  proof
    assume "below n1 c' v"
    then obtain k k' where k: "(c, v) \<in> ?E ^^ k" "(c', v) \<in> ?E ^^ k'"
      using c(4) below_same_graph [OF g] unfolding below_def by metis
    have False if le: "k \<le> k'" and a: "a \<in> set ?c" "(a, v) \<in> ?E ^^ k" and b: "b \<in> set ?c" "(b, v) \<in> ?E ^^ k'"
      and ab: "a \<noteq> b" for a b k k'
    proof -
      obtain d where d: "k' = k + d" using le le_Suc_ex by blast
      have ba: "(b, a) \<in> ?E ^^ d" using relpow_back [OF Suc.prems(1) a(2)] b(2) d by blast
      then obtain e where e: "d = Suc e" using ab by (cases d) auto
      obtain x where x: "(b, x) \<in> ?E ^^ e" "(x, a) \<in> ?E" using ba e by auto
      have "x = u" using Suc.prems(1) x(2) a(1) cs unfolding forest_def by blast
      then have "(u, u) \<in> ?E ^^ Suc e" using x(1) b(1) cs by (meson relpow_Suc_I2)
      then show False using acyc by blast
    qed
    then show False using k c(1-3) nat_le_linear by metis
  qed
  have dist: "distinct ?c" using Suc.prems(1) unfolding forest_def kids_def by (metis nd option.simps(5))
  have all: "\<exists>n'. traverse_all fuel ?c (l + 1) n1 = Some n' \<and>
      (\<forall>c \<in> set ?c. \<forall>v k. (c, v) \<in> edges n1 ^^ k \<longrightarrow> level_of n' v = l + 1 + int k) \<and>
      (\<forall>v. (\<forall>c \<in> set ?c. \<not> below n1 c v) \<longrightarrow> level_of n' v = level_of n1 v)"
    by (rule traverse_all_numbered [OF step dist _ same_graph_refl]) (assumption | rule disj)+
  obtain n' where n': "traverse_all fuel ?c (l + 1) n1 = Some n'"
      "\<forall>c \<in> set ?c. \<forall>v k. (c, v) \<in> edges n1 ^^ k \<longrightarrow> level_of n' v = l + 1 + int k"
      "\<forall>v. (\<forall>c \<in> set ?c. \<not> below n1 c v) \<longrightarrow> level_of n' v = level_of n1 v"
    using all by blast
  have E1: "edges n1 = ?E" "below n1 = below nodes" using same_graph_edges [OF g] below_same_graph [OF g] by auto
  have lu: "level_of n1 v = (if v = u then l else level_of nodes v)" for v
    by (simp add: level_of_def n1_def go_map)
  have up: "below nodes u v \<longleftrightarrow> v = u \<or> (\<exists>c \<in> set ?c. below nodes c v)" for v
  proof
    assume "below nodes u v"
    then obtain k where k: "(u, v) \<in> ?E ^^ k" by (auto simp: below_def)
    then show "v = u \<or> (\<exists>c \<in> set ?c. below nodes c v)"
    proof (cases k)
      case (Suc j)
      then obtain c where "(u, c) \<in> ?E" "(c, v) \<in> ?E ^^ j" using k by (meson relpow_Suc_D2)
      then show ?thesis using cs unfolding below_def by blast
    qed (use k in simp)
  next
    assume "v = u \<or> (\<exists>c \<in> set ?c. below nodes c v)"
    then show "below nodes u v" unfolding below_def by (metis cs relpow_0_I relpow_Suc_I2)
  qed
  have notu: "\<forall>c \<in> set ?c. \<not> below nodes c u"
  proof (intro ballI notI)
    fix c
    assume "c \<in> set ?c" "below nodes c u"
    then obtain k where "(u, u) \<in> ?E ^^ Suc k" unfolding below_def by (meson cs relpow_Suc_I2)
    then show False using acyc by blast
  qed
  have "level_of n' v = l + int k" if k: "(u, v) \<in> ?E ^^ k" for v k
  proof (cases k)
    case 0
    then have "v = u" using k by simp
    then show ?thesis using n'(3) notu 0 by (simp add: E1 lu)
  next
    case (Suc j)
    then obtain c where "c \<in> set ?c" "(c, v) \<in> ?E ^^ j" using k cs by (meson relpow_Suc_D2)
    then show ?thesis using n'(2) [rule_format, of c v j] Suc by (simp add: E1)
  qed
  moreover have "level_of n' v = level_of nodes v" if "\<not> below nodes u v" for v
    using n'(3) that by (simp add: E1 lu up)
  ultimately show ?case using n'(1) nd by (auto simp: numbered_def n1_def)
qed

section \<open>Building the graph\<close>

definition has_parent :: "folder_nodes \<Rightarrow> resource \<Rightarrow> bool" where
  "has_parent nodes f \<longleftrightarrow> GetFolder f \<noteq> [] \<and> GetFolder f \<in> keys_of nodes"

lemma link_folders_spec:
  "link_folders fs (nodes, roots) = (nodes', roots') \<Longrightarrow>
     map fst nodes' = map fst nodes \<and>
     (\<forall>u. map_option n_resource (map_of nodes' u) = map_option n_resource (map_of nodes u)) \<and>
     (\<forall>u. level_of nodes' u = level_of nodes u) \<and>
     (\<forall>u. kids nodes' u = kids nodes u @
        (if u \<noteq> [] \<and> u \<in> keys_of nodes then map res_name (filter (\<lambda>f. GetFolder f = u) fs) else [])) \<and>
     roots' = roots @ map res_name (filter (\<lambda>f. \<not> has_parent nodes f) fs)"
proof (induction fs arbitrary: nodes roots)
  case Nil
  then show ?case by auto
next
  case (Cons f fs)
  show ?case
  proof (cases "GetFolder f \<noteq> [] \<and> map_of nodes (GetFolder f) \<noteq> None")
    case False
    then have np: "\<not> has_parent nodes f" by (auto simp: has_parent_def map_of_None_iff_keys)
    have "link_folders fs (nodes, roots @ [res_name f]) = (nodes', roots')"
      using Cons.prems False by (auto split: if_splits option.splits)
    from Cons.IH [OF this] np show ?thesis
      by (auto simp: has_parent_def)
  next
    case True
    then obtain p where p: "map_of nodes (GetFolder f) = Some p" "GetFolder f \<noteq> []" by auto
    define n1 where "n1 = AList.update (GetFolder f) (p\<lparr>n_children := n_children p @ [f]\<rparr>) nodes"
    have key: "GetFolder f \<in> keys_of nodes" using p(1) by (rule map_of_SomeD_keys)
    have n1: "map fst n1 = map fst nodes" "keys_of n1 = keys_of nodes"
      "map_option n_resource (map_of n1 u) = map_option n_resource (map_of nodes u)"
      "level_of n1 u = level_of nodes u"
      "kids n1 u = kids nodes u @ (if u = GetFolder f then [res_name f] else [])" for u
      using key p by (auto simp: n1_def go_map update_present level_of_def kids_def insert_absorb)
    have hp: "has_parent n1 = has_parent nodes" "has_parent nodes f"
      using n1(2) p(2) key by (auto simp: has_parent_def fun_eq_iff)
    have "link_folders fs (n1, roots) = (nodes', roots')"
      using Cons.prems p by (simp add: n1_def)
    from Cons.IH [OF this] show ?thesis using n1 hp p(2) key by auto
  qed
qed

definition named_nodes :: "folder_nodes \<Rightarrow> bool" where
  "named_nodes nodes \<longleftrightarrow> distinct (map fst nodes) \<and> (\<forall>(u, nd) \<in> set nodes. res_name (n_resource nd) = u)"

lemma named_nodes_update:
  "named_nodes m \<Longrightarrow> res_name (n_resource nd) = u \<Longrightarrow> named_nodes (AList.update u nd m)"
proof -
  assume m: "named_nodes m" "res_name (n_resource nd) = u"
  have "set (AList.update u nd m) \<subseteq> insert (u, nd) (set m)"
    by (induction m) auto
  then show ?thesis using m by (auto simp: named_nodes_def distinct_update)
qed

lemma folder_map_nodes:
  "named_nodes (folder_map fs) \<and> keys_of (folder_map fs) = res_name ` set fs \<and>
   (\<forall>(u, nd) \<in> set (folder_map fs). n_children nd = [] \<and> n_level nd = -1 \<and> n_resource nd \<in> set fs)"
proof -
  let ?nd = "\<lambda>f. \<lparr>n_resource = f, n_children = [], n_level = -1\<rparr>"
  have upd: "set (AList.update u nd m) \<subseteq> insert (u, nd) (set m)" for u nd and m :: folder_nodes
    by (induction m) auto
  have "named_nodes (fold (\<lambda>f. AList.update (res_name f) (?nd f)) fs m) \<and>
      keys_of (fold (\<lambda>f. AList.update (res_name f) (?nd f)) fs m) = res_name ` set fs \<union> keys_of m \<and>
      (\<forall>(u, nd) \<in> set (fold (\<lambda>f. AList.update (res_name f) (?nd f)) fs m).
         n_children nd = [] \<and> n_level nd = -1 \<and> n_resource nd \<in> set fs \<union> S)"
    if "named_nodes m" "\<forall>(u, nd) \<in> set m. n_children nd = [] \<and> n_level nd = -1 \<and> n_resource nd \<in> S" for m S
    using that
  proof (induction fs arbitrary: m S)
    case (Cons f fs)
    let ?m = "AList.update (res_name f) (?nd f) m"
    have "\<forall>(u, nd) \<in> set ?m. n_children nd = [] \<and> n_level nd = -1 \<and> n_resource nd \<in> insert f S"
      using Cons.prems(2) upd [of "res_name f" "?nd f" m] by fastforce
    from Cons.IH [OF named_nodes_update [OF Cons.prems(1)] this] show ?case
      by (simp add: go_map)
  qed auto
  from this [of "[]" "{}"] show ?thesis by (simp add: folder_map_def named_nodes_def)
qed

lemma named_map_of: "named_nodes m \<Longrightarrow> map_of m u = Some nd \<Longrightarrow> res_name (n_resource nd) = u"
  by (auto simp: named_nodes_def dest: map_of_SomeD)

text \<open>The folders of a node map, by name.\<close>

definition folders_of :: "folder_nodes \<Rightarrow> resource list" where
  "folders_of nodes = map (\<lambda>e. n_resource (snd e)) nodes"

lemma buildFolderHierarchy_graph:
  assumes "buildFolderHierarchy cs folders = (nodes, roots)"
  shows "folders_of nodes = folders_of (folder_map folders) \<and> named_nodes nodes \<and> forest nodes \<and>
    keys_of nodes = res_name ` set folders \<and>
    (\<forall>u. level_of nodes u = -1) \<and>
    (\<forall>u v. (u, v) \<in> edges nodes \<longleftrightarrow> u \<noteq> [] \<and> u \<in> keys_of nodes \<and>
       (\<exists>f \<in> set (folders_of nodes). res_name f = v \<and> GetFolder f = u)) \<and>
    distinct roots \<and> set roots = res_name ` {f \<in> set (folders_of nodes). \<not> has_parent nodes f}"
proof -
  let ?m = "folder_map folders"
  let ?fs = "map (\<lambda>e. n_resource (snd e)) (go_range cs ?m)"
  note fm = folder_map_nodes [of folders]
  note ls = link_folders_spec [of ?fs ?m "[]" nodes roots]
  have l: "map fst nodes = map fst ?m" "\<forall>u. map_option n_resource (map_of nodes u) = map_option n_resource (map_of ?m u)"
      "\<forall>u. level_of nodes u = level_of ?m u"
      "\<forall>u. kids nodes u = kids ?m u @ (if u \<noteq> [] \<and> u \<in> keys_of ?m then map res_name (filter (\<lambda>f. GetFolder f = u) ?fs) else [])"
      "roots = map res_name (filter (\<lambda>f. \<not> has_parent ?m f) ?fs)"
    using ls assms by (simp_all add: buildFolderHierarchy_def Let_def)
  have keys: "keys_of nodes = keys_of ?m" unfolding keys_of_def using l(1) by (metis set_map)
  have dm: "distinct (map fst ?m)" "distinct (map fst nodes)" using fm l(1) by (simp_all add: named_nodes_def)
  have res: "n_resource (snd e) = n_resource (snd e')" if "e \<in> set nodes" "e' \<in> set ?m" "fst e = fst e'" for e e'
  proof -
    have "map_of nodes (fst e) = Some (snd e)" "map_of ?m (fst e) = Some (snd e')"
      using that dm by (metis map_of_is_SomeI prod.collapse)+
    then show ?thesis using l(2) by (metis option.simps(9) option.inject)
  qed
  have fo: "folders_of nodes = folders_of ?m"
  proof (rule nth_equalityI)
    show len: "length (folders_of nodes) = length (folders_of ?m)"
      using l(1) by (metis folders_of_def length_map)
    fix i
    assume "i < length (folders_of nodes)"
    then have i: "i < length nodes" "i < length ?m" using len by (simp_all add: folders_of_def)
    then have "fst (nodes ! i) = fst (?m ! i)" using l(1) by (metis nth_map)
    then show "folders_of nodes ! i = folders_of ?m ! i"
      using res [of "nodes ! i" "?m ! i"] i by (simp add: folders_of_def)
  qed
  have named: "named_nodes nodes"
    unfolding named_nodes_def
  proof (intro conjI ballI)
    fix e
    assume e: "e \<in> set nodes"
    then have "fst e \<in> fst ` set ?m" using l(1) by (metis image_eqI set_map)
    then obtain e' where e': "e' \<in> set ?m" "fst e = fst e'" by auto
    then show "case e of (u, nd) \<Rightarrow> res_name (n_resource nd) = u"
      using res [OF e e'] fm by (fastforce simp: named_nodes_def)
  qed (rule dm)
  have k0: "kids ?m u = []" for u
    using fm by (auto simp: kids_def split: option.split dest!: map_of_SomeD)
  have lv: "level_of nodes u = -1" for u
    using fm l(3) by (auto simp: level_of_def split: option.split dest!: map_of_SomeD)
  have setfs: "set ?fs = set (folders_of ?m)" by (simp add: folders_of_def)
  have edges: "(u, v) \<in> edges nodes \<longleftrightarrow> u \<noteq> [] \<and> u \<in> keys_of nodes \<and>
       (\<exists>f \<in> set (folders_of nodes). res_name f = v \<and> GetFolder f = u)" for u v
    unfolding fo keys edges_def using l(4) setfs by (auto simp: k0)
  have names: "map res_name (folders_of ?m) = map fst ?m"
    using fm by (auto simp: folders_of_def named_nodes_def)
  then have inj: "f = f'" if "f \<in> set (folders_of ?m)" "f' \<in> set (folders_of ?m)" "res_name f = res_name f'" for f f'
    using that dm(1) by (metis distinct_map inj_onD)
  have "mset (map res_name ?fs) = mset (map fst ?m)"
    unfolding names [symmetric] folders_of_def by (simp add: mset_map [symmetric] del: mset_map)
      (metis mset_go_range mset_map)
  then have dfs: "distinct (map res_name ?fs)" using dm(1) mset_eq_imp_distinct_iff by blast
  have "forest nodes"
    unfolding forest_def
  proof (intro conjI allI impI)
    fix u v
    assume "(u, v) \<in> edges nodes"
    then obtain f where "f \<in> set (folders_of ?m)" "res_name f = v" using edges fo by auto
    then have "v \<in> set (map fst ?m)" using names by (metis image_eqI set_map)
    then have "v \<in> keys_of ?m" by (simp add: keys_of_def)
    then show "v \<in> keys_of nodes" by (simp only: keys)
  next
    fix u
    show "distinct (kids nodes u)" using l(4) k0 dfs by (simp add: distinct_map_filter)
  next
    fix u u' v
    assume "(u, v) \<in> edges nodes" "(u', v) \<in> edges nodes"
    then show "u = u'" unfolding edges fo using inj by blast
  qed
  moreover have "has_parent ?m = has_parent nodes" using keys by (simp add: has_parent_def fun_eq_iff)
  then have "distinct roots" "set roots = res_name ` {f \<in> set (folders_of nodes). \<not> has_parent nodes f}"
    using l(5) dfs setfs fo by (auto simp: distinct_map_filter)
  ultimately show ?thesis using fo named fm keys lv edges by auto
qed

section \<open>The levels\<close>

lemma path_length:
  assumes f: "forest nodes" and r: "r \<in> keys_of nodes" "\<And>u. (u, r) \<notin> edges nodes"
    and p: "(r, v) \<in> edges nodes ^^ k"
  shows "k < length nodes"
proof -
  obtain g where g: "g 0 = r" "g k = v" "\<forall>i<k. (g i, g (Suc i)) \<in> edges nodes"
    using p by (auto simp: relpow_fun_conv)
  have path: "(r, g i) \<in> edges nodes ^^ i" if "i \<le> k" for i
    using that
  proof (induction i)
    case (Suc i)
    then show ?case using g(3) by (meson Suc_leD Suc_le_lessD relpow_Suc_I)
  qed (simp add: g(1))
  have "i = j" if "i \<le> j" "j \<le> k" "g i = g j" for i j
  proof (rule ccontr)
    assume "i \<noteq> j"
    then have "i < j" using that(1) by simp
    then obtain d where d: "j = i + Suc d" using less_imp_Suc_add [of i j] by auto
    have "(r, g j) \<in> edges nodes ^^ i" using path [of i] that by simp
    moreover have "(r, g j) \<in> edges nodes ^^ (i + Suc d)" using path [of j] that d by simp
    ultimately have "(r, r) \<in> edges nodes ^^ Suc d" using relpow_back [OF f] by blast
    then show False using r(2) by auto
  qed
  then have inj: "inj_on g {..k}" unfolding inj_on_def by (metis atMost_iff nle_le)
  have "g i \<in> keys_of nodes" if "i \<le> k" for i
  proof (cases i)
    case (Suc j)
    then show ?thesis using g(3) f that unfolding forest_def by (metis Suc_le_eq)
  qed (simp add: g(1) r(1))
  then have "card (g ` {..k}) \<le> card (keys_of nodes)"
    by (intro card_mono) (auto simp: keys_of_def)
  also have "\<dots> \<le> length nodes" by (metis card_length keys_of_def length_map set_map)
  finally show ?thesis using card_image [OF inj] by simp
qed

text \<open>Enough fuel: the assignment always ends, and numbers exactly the folders below a root.\<close>

lemma assignLevels_levels:
  assumes f: "forest nodes" and roots: "distinct roots"
      "\<And>r. r \<in> set roots \<Longrightarrow> r \<in> keys_of nodes \<and> (\<forall>u. (u, r) \<notin> edges nodes)"
    and lv: "\<And>u. level_of nodes u = -1"
  shows "\<exists>nodes'. assignLevels nodes roots = Some nodes' \<and> same_graph nodes nodes' \<and>
    (\<forall>r \<in> set roots. \<forall>v k. (r, v) \<in> edges nodes ^^ k \<longrightarrow> level_of nodes' v = int k) \<and>
    (\<forall>v. (\<forall>r \<in> set roots. \<not> below nodes r v) \<longrightarrow> level_of nodes' v = -1)"
proof -
  have step: "\<exists>nodes'. traverse (length nodes) r l n1 = Some nodes' \<and> numbered n1 r l nodes'"
    if "r \<in> set roots" "same_graph nodes n1" for r n1 l
  proof (rule traverse_numbered)
    note e = same_graph_edges [OF that(2)]
    show "forest n1" "r \<in> keys_of n1" using e f roots(2) [OF that(1)] by auto
    show "\<forall>v k. (r, v) \<in> edges n1 ^^ k \<longrightarrow> k < length nodes"
      using e path_length [OF f] roots(2) [OF that(1)] by auto
  qed
  have disj: "\<not> below nodes r' v"
    if r: "r \<in> set roots" "r' \<in> set roots" "r \<noteq> r'" "below nodes r v" for r r' v
  proof
    assume "below nodes r' v"
    then obtain k k' where k: "(r, v) \<in> edges nodes ^^ k" "(r', v) \<in> edges nodes ^^ k'"
      using r(4) by (auto simp: below_def)
    have False if le: "i \<le> j" and a: "a \<in> set roots" "(a, v) \<in> edges nodes ^^ i"
      and b: "(b, v) \<in> edges nodes ^^ j" "a \<noteq> b" for a b i j
    proof -
      obtain d where "j = i + d" using le le_Suc_ex by blast
      then have ba: "(b, a) \<in> edges nodes ^^ d" using relpow_back [OF f a(2)] b(1) by blast
      then obtain e where "d = Suc e" using b(2) by (cases d) auto
      then show False using ba roots(2) [OF a(1)] by auto
    qed
    then show False using k r(1-3) nat_le_linear by metis
  qed
  have "\<exists>n'. traverse_all (length nodes) roots 0 nodes = Some n' \<and>
      (\<forall>r \<in> set roots. \<forall>v k. (r, v) \<in> edges nodes ^^ k \<longrightarrow> level_of n' v = 0 + int k) \<and>
      (\<forall>v. (\<forall>r \<in> set roots. \<not> below nodes r v) \<longrightarrow> level_of n' v = level_of nodes v)"
    by (rule traverse_all_numbered [OF step roots(1) _ same_graph_refl]) (assumption | rule disj)+
  then show ?thesis using lv traverse_same_graph(2) unfolding assignLevels_def by fastforce
qed

lemma group_levels_Inl:
  "group_levels ns levels = Inl e \<Longrightarrow> \<exists>nd \<in> set ns. n_level nd < 0 \<and> res_name (n_resource nd) = e"
  by (induction ns levels rule: group_levels.induct) (auto simp: Let_def split: if_splits)

lemma group_levels_Inr:
  "group_levels ns levels = Inr levels' \<Longrightarrow> \<forall>nd \<in> set ns. n_level nd < int (length levels) \<Longrightarrow>
     length levels' = length levels \<and> (\<forall>nd \<in> set ns. 0 \<le> n_level nd) \<and>
     (\<forall>i < length levels. levels' ! i = levels ! i @ map n_resource (filter (\<lambda>nd. n_level nd = int i) ns))"
proof (induction ns levels rule: group_levels.induct)
  case (2 nd ns levels)
  have lv: "0 \<le> n_level nd" using "2.prems"(1) by (auto split: if_splits)
  let ?i = "nat (n_level nd)"
  let ?ls = "levels[?i := levels ! ?i @ [n_resource nd]]"
  have i: "?i < length levels" "int ?i = n_level nd" using "2.prems"(2) lv by auto
  have "group_levels ns ?ls = Inr levels'" using "2.prems"(1) lv by (simp add: Let_def)
  then have IH: "length levels' = length ?ls \<and> (\<forall>nd \<in> set ns. 0 \<le> n_level nd) \<and>
     (\<forall>i < length ?ls. levels' ! i = ?ls ! i @ map n_resource (filter (\<lambda>nd. n_level nd = int i) ns))"
    using "2.IH" [OF _ refl] "2.prems"(2) lv by simp
  have "levels' ! j = levels ! j @ map n_resource (filter (\<lambda>nd. n_level nd = int j) (nd # ns))"
    if "j < length levels" for j
    using IH that i by (cases "j = ?i") auto
  then show ?case using IH lv by simp
qed simp

lemma fold_max_bound: "fold max xs (m :: int) \<ge> m \<and> (\<forall>x \<in> set xs. x \<le> fold max xs m)"
proof (induction xs arbitrary: m)
  case (Cons x xs)
  show ?case using Cons.IH [of "max x m"] by auto
qed simp

lemma mset_concat_upt: "mset (concat (map F [0..<n])) = (\<Sum>i<n. mset (F i))"
  by (induction n) (simp_all add: lessThan_Suc add.commute)

lemma mset_levels:
  assumes "\<forall>nd \<in> set ns. 0 \<le> n_level nd \<and> n_level nd < int n"
  shows "mset (concat (map (\<lambda>i. map n_resource (filter (\<lambda>nd. n_level nd = int i) ns)) [0..<n]))
    = mset (map n_resource ns)"
  using assms
proof (induction ns)
  case Nil
  show ?case by (simp add: mset_concat_upt)
next
  case (Cons nd ns)
  obtain k where k: "n_level nd = int k" "k < n"
    using Cons.prems by (metis list.set_intros(1) nonneg_int_cases of_nat_less_iff)
  let ?F = "\<lambda>ns i. mset (map n_resource (filter (\<lambda>nd. n_level nd = int i) ns))"
  have "(\<Sum>i<n. ?F (nd # ns) i) = (\<Sum>i<n. (if i = k then {#n_resource nd#} else {#}) + ?F ns i)"
    by (rule sum.cong) (auto simp: k(1))
  also have "\<dots> = {#n_resource nd#} + (\<Sum>i<n. ?F ns i)"
    using k(2) by (simp only: sum.distrib sum.delta finite_lessThan) simp
  also have "(\<Sum>i<n. ?F ns i) = mset (map n_resource ns)"
    using Cons unfolding mset_concat_upt by simp
  finally show ?case unfolding mset_concat_upt by simp
qed

text \<open>The parent relation among the given folders; of several folders with one name the last counts.\<close>

definition parent_in :: "resource list \<Rightarrow> resource \<Rightarrow> bool" where
  "parent_in folders f \<longleftrightarrow> GetFolder f \<noteq> [] \<and> GetFolder f \<in> res_name ` set folders"

definition folder_edges :: "resource list \<Rightarrow> (string \<times> string) set" where
  "folder_edges folders =
     {(GetFolder f, res_name f) |f. f \<in> set (folders_of (folder_map folders)) \<and> parent_in folders f}"

lemma unreachable_cycle:
  assumes e: "finite E" and v: "v \<in> U" and up: "\<And>w. w \<in> U \<Longrightarrow> \<exists>u \<in> U. (u, w) \<in> E"
  shows "\<not> acyclic E"
proof
  assume "acyclic E"
  then have "wf E" using e finite_acyclic_wf by blast
  then obtain z where "z \<in> U" "\<And>y. (y, z) \<in> E \<Longrightarrow> y \<notin> U" using v by (metis wfE_min)
  then show False using up by blast
qed

text \<open>The graph of the given folders, as \<open>buildFolderHierarchy\<close> builds it.\<close>

definition graph_of :: "resource list \<Rightarrow> folder_nodes \<Rightarrow> string list \<Rightarrow> bool" where
  "graph_of folders nodes roots \<longleftrightarrow>
     named_nodes nodes \<and> forest nodes \<and> folders_of nodes = folders_of (folder_map folders) \<and>
     edges nodes = folder_edges folders \<and> distinct roots \<and>
     set roots = res_name ` {f \<in> set (folders_of nodes). \<not> parent_in folders f}"

lemma named_keys:
  assumes "named_nodes nodes"
  shows "map res_name (folders_of nodes) = map fst nodes"
    and "keys_of nodes = res_name ` set (folders_of nodes)"
    and "f \<in> set (folders_of nodes) \<Longrightarrow> f' \<in> set (folders_of nodes) \<Longrightarrow> res_name f = res_name f' \<Longrightarrow> f = f'"
proof -
  show names: "map res_name (folders_of nodes) = map fst nodes"
    using assms by (auto simp: folders_of_def named_nodes_def)
  then show "keys_of nodes = res_name ` set (folders_of nodes)"
    by (metis keys_of_def set_map)
  have "distinct (map res_name (folders_of nodes))" using assms by (simp add: names named_nodes_def)
  then show "f \<in> set (folders_of nodes) \<Longrightarrow> f' \<in> set (folders_of nodes) \<Longrightarrow> res_name f = res_name f' \<Longrightarrow> f = f'"
    by (metis distinct_map inj_onD)
qed

lemma buildFolderHierarchy_graph_of:
  assumes "buildFolderHierarchy cs folders = (nodes, roots)"
  shows "graph_of folders nodes roots \<and> (\<forall>u. level_of nodes u = -1)"
proof -
  note graph = buildFolderHierarchy_graph [OF assms]
  have keys: "keys_of nodes = res_name ` set folders" using graph by (elim conjE)
  have par: "has_parent nodes = parent_in folders"
    by (simp add: has_parent_def parent_in_def keys fun_eq_iff)
  have "(u, v) \<in> edges nodes \<longleftrightarrow>
      (\<exists>f \<in> set (folders_of nodes). parent_in folders f \<and> res_name f = v \<and> GetFolder f = u)" for u v
  proof -
    have "(u, v) \<in> edges nodes \<longleftrightarrow> u \<noteq> [] \<and> u \<in> keys_of nodes \<and>
       (\<exists>f \<in> set (folders_of nodes). res_name f = v \<and> GetFolder f = u)"
      using graph by (elim conjE allE) assumption
    then show ?thesis unfolding parent_in_def keys by (auto simp only: Bex_def)
  qed
  then have "edges nodes = folder_edges folders"
    using conjunct1 [OF graph] unfolding folder_edges_def by auto
  then show ?thesis using graph unfolding graph_of_def par by (elim conjE, intro conjI)
qed

lemma graph_of_edge:
  assumes "graph_of folders nodes roots" "f \<in> set (folders_of nodes)" "parent_in folders f"
  shows "(GetFolder f, res_name f) \<in> edges nodes"
  using assms by (auto simp: graph_of_def folder_edges_def)

lemma graph_of_root:
  assumes g: "graph_of folders nodes roots" and r: "r \<in> set roots"
  shows "r \<in> keys_of nodes \<and> (\<forall>u. (u, r) \<notin> edges nodes)"
proof -
  have named: "named_nodes nodes" using g by (simp add: graph_of_def)
  obtain f where f: "f \<in> set (folders_of nodes)" "res_name f = r" "\<not> parent_in folders f"
    using g r by (auto simp: graph_of_def)
  have "(u, r) \<notin> edges nodes" for u
  proof
    assume "(u, r) \<in> edges nodes"
    then obtain f' where "f' \<in> set (folders_of nodes)" "res_name f' = r" "parent_in folders f'"
      using g by (auto simp: graph_of_def folder_edges_def)
    then show False using named_keys(3) [OF named f(1)] f by metis
  qed
  then show ?thesis using f named_keys(2) [OF named] by blast
qed

lemma same_graph_folders:
  assumes "same_graph nodes nodes'" "named_nodes nodes"
  shows "named_nodes nodes' \<and> folders_of nodes' = folders_of nodes"
proof -
  have keys: "map fst nodes' = map fst nodes" and dn: "distinct (map fst nodes)"
    using assms by (simp_all add: same_graph_def named_nodes_def)
  have dn': "distinct (map fst nodes')" using keys dn by simp
  have eq: "n_resource nd' = n_resource nd" if "(u, nd) \<in> set nodes" "(u, nd') \<in> set nodes'" for u nd nd'
  proof -
    have "map_of nodes u = Some nd" "map_of nodes' u = Some nd'" using that dn dn' by simp_all
    then show ?thesis using assms(1) by (simp add: same_graph_def) (metis option.simps(9) option.inject)
  qed
  have fo: "folders_of nodes' = folders_of nodes"
  proof (rule nth_equalityI)
    show len: "length (folders_of nodes') = length (folders_of nodes)"
      using keys by (metis folders_of_def length_map)
    fix i
    assume "i < length (folders_of nodes')"
    then have i: "i < length nodes'" "i < length nodes" using len by (simp_all add: folders_of_def)
    have "fst (nodes' ! i) = fst (nodes ! i)" using keys i by (metis nth_map)
    then show "folders_of nodes' ! i = folders_of nodes ! i"
      using i eq [of "fst (nodes ! i)" "snd (nodes ! i)" "snd (nodes' ! i)"]
      by (simp add: folders_of_def) (metis nth_mem prod.collapse)
  qed
  have "map res_name (folders_of nodes') = map fst nodes'"
    unfolding fo keys by (rule named_keys(1) [OF assms(2)])
  then have "\<forall>(u, nd) \<in> set nodes'. res_name (n_resource nd) = u"
    by (auto simp: folders_of_def)
  then show ?thesis using fo dn' by (simp add: named_nodes_def)
qed

lemma node_level:
  assumes "named_nodes nodes" "(u, nd) \<in> set nodes"
  shows "level_of nodes (res_name (n_resource nd)) = n_level nd \<and> n_resource nd \<in> set (folders_of nodes)"
proof -
  have "res_name (n_resource nd) = u" "map_of nodes u = Some nd"
    using assms by (auto simp: named_nodes_def)
  then show ?thesis using assms(2) by (force simp: level_of_def folders_of_def)
qed

lemma folder_node_exists:
  assumes "f \<in> set (folders_of nodes)"
  shows "\<exists>u nd. (u, nd) \<in> set nodes \<and> n_resource nd = f"
  using assms by (auto simp: folders_of_def) blast

text \<open>What the numbering of the whole graph says: \<open>lv\<close> is the distance from a root, or \<open>-1\<close>.\<close>

definition levelled :: "folder_nodes \<Rightarrow> string list \<Rightarrow> (string \<Rightarrow> int) \<Rightarrow> bool" where
  "levelled nodes roots lv \<longleftrightarrow>
     (\<forall>r \<in> set roots. \<forall>v k. (r, v) \<in> edges nodes ^^ k \<longrightarrow> lv v = int k) \<and>
     (\<forall>v. (\<forall>r \<in> set roots. \<not> below nodes r v) \<longrightarrow> lv v = -1)"

lemma levelled_reached:
  assumes "levelled nodes roots lv" "lv v = int k"
  shows "\<exists>r \<in> set roots. (r, v) \<in> edges nodes ^^ k"
proof -
  obtain r where r: "r \<in> set roots" "below nodes r v" using assms unfolding levelled_def by fastforce
  then obtain j where "(r, v) \<in> edges nodes ^^ j" by (auto simp: below_def)
  then show ?thesis using assms r(1) unfolding levelled_def by (metis of_nat_eq_iff)
qed

lemma unreached_cycle:
  assumes g: "graph_of folders nodes roots" and lv: "levelled nodes roots lv"
    and v: "v \<in> keys_of nodes" "lv v < 0"
  shows "\<not> acyclic (edges nodes)"
proof -
  let ?U = "{v \<in> keys_of nodes. \<forall>r \<in> set roots. \<not> below nodes r v}"
  have named: "named_nodes nodes" using g by (simp add: graph_of_def)
  have fin: "finite (edges nodes)"
  proof (rule finite_subset)
    show "edges nodes \<subseteq> (GetFolder ` set (folders_of nodes)) \<times> (res_name ` set (folders_of nodes))"
      using g by (auto simp: graph_of_def folder_edges_def)
  qed simp
  have "v \<in> ?U" using lv v unfolding levelled_def below_def by fastforce
  moreover have "\<exists>u \<in> ?U. (u, w) \<in> edges nodes" if w: "w \<in> ?U" for w
  proof -
    obtain f where f: "f \<in> set (folders_of nodes)" "res_name f = w" using w named_keys(2) [OF named] by auto
    have "w \<notin> set roots" using w by (metis (mono_tags, lifting) below_def mem_Collect_eq relpow_0_I)
    then have par: "parent_in folders f" using g f by (auto simp: graph_of_def)
    then have pe: "(GetFolder f, w) \<in> edges nodes" using graph_of_edge [OF g] f by blast
    have "\<not> below nodes r (GetFolder f)" if r: "r \<in> set roots" for r
    proof
      assume "below nodes r (GetFolder f)"
      then have "below nodes r w" using pe unfolding below_def by (meson relpow_Suc_I)
      then show False using w r by blast
    qed
    moreover have "GetFolder f \<in> keys_of nodes"
      using par folder_map_nodes [of folders] g named_keys(2) [OF named]
      by (metis (no_types, lifting) folders_of_def graph_of_def named_keys(2) parent_in_def)
    ultimately show ?thesis using pe by blast
  qed
  ultimately show ?thesis by (rule unreachable_cycle [OF fin])
qed

lemma levelled_acyclic:
  assumes f: "forest nodes" and lv: "levelled nodes roots lv" and all: "\<forall>v \<in> keys_of nodes. 0 \<le> lv v"
  shows "acyclic (edges nodes)"
  unfolding acyclic_def
proof (intro allI notI)
  fix v
  assume "(v, v) \<in> (edges nodes)\<^sup>+"
  then obtain d where d: "(v, v) \<in> edges nodes ^^ Suc d" by (metis trancl_power gr0_conv_Suc)
  then obtain w where "(w, v) \<in> edges nodes" by auto
  then have "v \<in> keys_of nodes" using f unfolding forest_def by blast
  then obtain k where k: "lv v = int k" using all by (metis nonneg_int_cases)
  then obtain r where r: "r \<in> set roots" "(r, v) \<in> edges nodes ^^ k" using levelled_reached [OF lv] by blast
  have "(r, v) \<in> edges nodes ^^ (k + Suc d)" unfolding relpow_add using r(2) d by blast
  then have "lv v = int (k + Suc d)" using lv r(1) unfolding levelled_def by blast
  then show False using k by simp
qed

lemma level_above:
  assumes g: "graph_of folders nodes roots" and lv: "levelled nodes roots lv"
    and f: "f \<in> set (folders_of nodes)" "lv (res_name f) = int i"
  shows "if parent_in folders f
    then 0 < i \<and> lv (GetFolder f) = int (i - 1) \<and> GetFolder f \<in> keys_of nodes else i = 0"
proof (cases "parent_in folders f")
  case False
  then have "res_name f \<in> set roots" using f(1) g by (auto simp: graph_of_def)
  then have "lv (res_name f) = int 0" using lv unfolding levelled_def by (metis relpow_0_I)
  then show ?thesis using f(2) False by simp
next
  case True
  have pe: "(GetFolder f, res_name f) \<in> edges nodes" using graph_of_edge [OF g f(1) True] .
  obtain r where r: "r \<in> set roots" "(r, res_name f) \<in> edges nodes ^^ i"
    using levelled_reached [OF lv f(2)] by blast
  obtain j where j: "i = Suc j"
  proof (cases i)
    case 0
    then have "res_name f \<in> set roots" using r by simp
    then show ?thesis using graph_of_root [OF g] pe by blast
  qed
  then obtain u where u: "(r, u) \<in> edges nodes ^^ j" "(u, res_name f) \<in> edges nodes" using r(2) by auto
  have forest: "forest nodes" using g by (simp add: graph_of_def)
  have "u = GetFolder f" using forest u(2) pe unfolding forest_def by blast
  then have l: "lv (GetFolder f) = int j" using lv r(1) u(1) unfolding levelled_def by blast
  have "GetFolder f \<in> keys_of nodes"
  proof (cases j)
    case 0
    then show ?thesis using u(1) \<open>u = GetFolder f\<close> graph_of_root [OF g r(1)] by simp
  next
    case (Suc m)
    then show ?thesis using u(1) \<open>u = GetFolder f\<close> forest unfolding forest_def by auto
  qed
  then show ?thesis using True j l by simp
qed

text \<open>The grouping, for any numbered node map.\<close>

lemma group_levels_spec:
  assumes named: "named_nodes nodes"
    and res: "group_levels (map snd (go_range cs nodes))
      (replicate (nat (fold max (map (\<lambda>e. n_level (snd e)) nodes) 0 + 1)) []) = Inr levels"
  shows "(\<forall>v \<in> keys_of nodes. 0 \<le> level_of nodes v) \<and> mset (concat levels) = mset (folders_of nodes) \<and>
    (\<forall>i < length levels. set (levels ! i) = {f \<in> set (folders_of nodes). level_of nodes (res_name f) = int i}) \<and>
    (\<forall>v \<in> keys_of nodes. level_of nodes v < int (length levels))"
proof -
  let ?ns = "map snd (go_range cs nodes)"
  let ?n = "nat (fold max (map (\<lambda>e. n_level (snd e)) nodes) 0 + 1)"
  have bound: "\<forall>nd \<in> set ?ns. n_level nd < int (length (replicate ?n ([] :: resource list)))"
  proof
    fix nd
    assume "nd \<in> set ?ns"
    then have "n_level nd \<in> set (map (\<lambda>e. n_level (snd e)) nodes)" by auto
    then have "n_level nd \<le> fold max (map (\<lambda>e. n_level (snd e)) nodes) 0"
        "0 \<le> fold max (map (\<lambda>e. n_level (snd e)) nodes) 0" using fold_max_bound by blast+
    then show "n_level nd < int (length (replicate ?n ([] :: resource list)))" by simp
  qed
  note g = group_levels_Inr [OF res bound]
  have levels: "levels = map (\<lambda>i. map n_resource (filter (\<lambda>nd. n_level nd = int i) ?ns)) [0..<?n]"
    using g by (intro nth_equalityI) auto
  have range: "\<forall>nd \<in> set ?ns. 0 \<le> n_level nd \<and> n_level nd < int ?n" using g bound by auto
  have "mset (concat levels) = mset (map n_resource ?ns)" unfolding levels by (rule mset_levels [OF range])
  also have "\<dots> = mset (folders_of nodes)" by (simp add: comp_def folders_of_def)
  finally have ms: "mset (concat levels) = mset (folders_of nodes)" .
  have keys: "0 \<le> level_of nodes v \<and> level_of nodes v < int ?n" if vk: "v \<in> keys_of nodes" for v
  proof -
    obtain nd where nd: "(v, nd) \<in> set nodes" using vk by (auto simp: keys_of_def)
    then have "map_of nodes v = Some nd" using named by (simp add: named_nodes_def)
    moreover have "nd \<in> set ?ns" using nd by force
    moreover have "level_of nodes v = n_level nd" using calculation(1) by (simp add: level_of_def)
    ultimately show ?thesis using range by metis
  qed
  have "set (levels ! i) = {f \<in> set (folders_of nodes). level_of nodes (res_name f) = int i}"
    if "i < length levels" for i
  proof -
    have "set (levels ! i) = {n_resource nd |u nd. (u, nd) \<in> set nodes \<and> n_level nd = int i}" (is "?l = ?r")
    proof
      show "?l \<subseteq> ?r" using that by (auto simp: levels) blast
      show "?r \<subseteq> ?l" using that by (force simp: levels)
    qed
    moreover have "f \<in> {n_resource nd |u nd. (u, nd) \<in> set nodes \<and> n_level nd = int i} \<longleftrightarrow>
        f \<in> set (folders_of nodes) \<and> level_of nodes (res_name f) = int i" for f
    proof
      assume "f \<in> {n_resource nd |u nd. (u, nd) \<in> set nodes \<and> n_level nd = int i}"
      then obtain u nd where "(u, nd) \<in> set nodes" "n_level nd = int i" "f = n_resource nd" by blast
      then show "f \<in> set (folders_of nodes) \<and> level_of nodes (res_name f) = int i"
        using node_level [OF named] by simp
    next
      assume f: "f \<in> set (folders_of nodes) \<and> level_of nodes (res_name f) = int i"
      then obtain u nd where nd: "(u, nd) \<in> set nodes" "n_resource nd = f" using folder_node_exists by blast
      then have "n_level nd = int i" using node_level [OF named nd(1)] f by simp
      then show "f \<in> {n_resource nd |u nd. (u, nd) \<in> set nodes \<and> n_level nd = int i}" using nd by blast
    qed
    ultimately show ?thesis by blast
  qed
  then show ?thesis using ms keys by (simp add: levels)
qed

lemma SortFolders_spec:
  "\<exists>res. SortFoldersByDependency cs cs' folders = Some res \<and>
    (case res of
       Inl e \<Rightarrow> \<not> acyclic (folder_edges folders)
     | Inr levels \<Rightarrow>
         acyclic (folder_edges folders) \<and>
         mset (concat levels) = mset (folders_of (folder_map folders)) \<and>
         (\<forall>i < length levels. \<forall>f \<in> set (levels ! i).
            if parent_in folders f
            then 0 < i \<and> GetFolder f \<in> res_name ` set (levels ! (i - 1)) else i = 0))"
proof (cases "folders = []")
  case True
  then show ?thesis
    by (simp add: SortFoldersByDependency_def folder_edges_def folder_map_def folders_of_def acyclic_def)
next
  case False
  obtain nodes roots where build: "buildFolderHierarchy cs folders = (nodes, roots)" by force
  have g: "graph_of folders nodes roots" and lv0: "\<And>u. level_of nodes u = -1"
    using buildFolderHierarchy_graph_of [OF build] by auto
  then have named: "named_nodes nodes" and forest: "forest nodes" and dr: "distinct roots"
    and E: "edges nodes = folder_edges folders" by (simp_all add: graph_of_def)
  obtain nodes' where n': "assignLevels nodes roots = Some nodes'" "same_graph nodes nodes'"
      "levelled nodes roots (level_of nodes')"
    using assignLevels_levels [OF forest dr graph_of_root [OF g] lv0] unfolding levelled_def by blast
  have same: "named_nodes nodes'" "folders_of nodes' = folders_of nodes" "keys_of nodes' = keys_of nodes"
    using same_graph_folders [OF n'(2) named] same_graph_edges [OF n'(2)] by auto
  let ?g = "group_levels (map snd (go_range cs' nodes'))
    (replicate (nat (fold max (map (\<lambda>e. n_level (snd e)) nodes') 0 + 1)) [])"
  have sort: "SortFoldersByDependency cs cs' folders = Some ?g"
    using False build n'(1) by (simp add: SortFoldersByDependency_def Let_def)
  show ?thesis
  proof (cases ?g)
    case (Inl e)
    from group_levels_Inl [OF this] obtain u nd where nd: "(u, nd) \<in> set nodes'" "n_level nd < 0" by auto
    then have "level_of nodes' (res_name (n_resource nd)) < 0" "n_resource nd \<in> set (folders_of nodes)"
      using node_level [OF same(1) nd(1)] same(2) by auto
    then have "\<not> acyclic (edges nodes)"
      using unreached_cycle [OF g n'(3)] named_keys(2) [OF named] by blast
    then show ?thesis using sort Inl E by simp
  next
    case (Inr levels)
    note spec = group_levels_spec [OF same(1) Inr, unfolded same(2,3)]
    have "acyclic (edges nodes)" using levelled_acyclic [OF forest n'(3)] spec by blast
    moreover have "mset (concat levels) = mset (folders_of (folder_map folders))"
      using spec g by (simp add: graph_of_def)
    moreover have "\<forall>i < length levels. \<forall>f \<in> set (levels ! i). if parent_in folders f
        then 0 < i \<and> GetFolder f \<in> res_name ` set (levels ! (i - 1)) else i = 0"
    proof (intro allI impI ballI)
      fix i f
      assume i: "i < length levels" "f \<in> set (levels ! i)"
      then have f: "f \<in> set (folders_of nodes)" "level_of nodes' (res_name f) = int i" using spec by auto
      have "GetFolder f \<in> res_name ` set (levels ! (i - 1))"
        if "level_of nodes' (GetFolder f) = int (i - 1)" "GetFolder f \<in> keys_of nodes"
        using that spec i(1) named_keys(2) [OF named] by auto
      then show "if parent_in folders f
          then 0 < i \<and> GetFolder f \<in> res_name ` set (levels ! (i - 1)) else i = 0"
        using level_above [OF g n'(3) f] by (auto split: if_splits)
    qed
    ultimately show ?thesis using sort Inr E by simp
  qed
qed

lemma folders_of_distinct:
  "distinct (map res_name folders) \<Longrightarrow> folders_of (folder_map folders) = folders"
  by (simp add: folders_of_def folder_map_def fold_update_distinct comp_def)


definition sample_folder :: "string \<Rightarrow> string \<Rightarrow> resource" where
  "sample_folder uid parent =
     \<lparr>res_id = 0, res_empty = False,
      res_obj = \<lparr>u_gvk = \<lparr>gvk_group = ''folder.grafana.app'', gvk_version = ''v1'', gvk_kind = ''Folder''\<rparr>,
        u_meta = [(''name'', StrValue uid)], u_annotations = [(AnnoKeyFolder, parent)], u_labels = [],
        u_spec = NoSpec, u_extra = []\<rparr>,
      res_source = []\<rparr>"


text \<open>Folders are identified by name alone: when two folders of different versions or namespaces
  have the same name, the earlier one is in no level, so it is never pushed.\<close>

theorem SortFolders_drops_namesake:
  assumes "res_name f = res_name g" and "f \<noteq> g" and "GetFolder g = []"
  shows "SortFoldersByDependency cs cs' [f, g] = Some (Inr [[g]])"
proof -
  have m: "folder_map [f, g] = [(res_name g, \<lparr>n_resource = g, n_children = [], n_level = -1\<rparr>)]"
    using assms(1) by (simp add: folder_map_def)
  have r: "go_range cs [x] = [x]" for cs and x :: "string \<times> folder_node"
    by (cases cs) simp_all
  show ?thesis using assms(3)
    by (simp add: SortFoldersByDependency_def buildFolderHierarchy_def Let_def m r assignLevels_def)
qed

lemma SortFolders_drops_namesake_witness:
  "SortFoldersByDependency [] [] [sample_folder ''a'' ''b'', sample_folder ''a'' []] =
     Some (Inr [[sample_folder ''a'' []]])"
proof (rule SortFolders_drops_namesake)
  show "res_name (sample_folder ''a'' ''b'') = res_name (sample_folder ''a'' [])"
    "GetFolder (sample_folder ''a'' []) = []"
    by (simp_all add: sample_folder_def res_name_def meta_string_def GetFolder_def annotation_def)
  show "sample_folder ''a'' ''b'' \<noteq> sample_folder ''a'' []" by (simp add: sample_folder_def)
qed

end
