(* ===== verification/Gcx_DryRun.thy ===== *)
theory Gcx_DryRun
  imports Gcx_Adapters
begin

text \<open>
  The wrappers around the dynamic client of a push or a deletion
  (\<^verbatim>\<open>internal/resources/remote\<close>): the allowlist of resources that honour server side
  dry runs (\<^verbatim>\<open>dryrun_allowlist.go\<close>), the guard that blocks every other dry run
  (\<^verbatim>\<open>dryrun_guard.go\<close>) and the client that retries conflicts
  (\<^verbatim>\<open>conflict_retry.go\<close>). The lemmas show that the stack keeps dry runs free of effects and
  how often a conflicting request is sent.
\<close>

section \<open>The allowlist\<close>

record group_resource =
  gr_group :: string
  gr_resource :: string

definition staticServerDryRunAllowlist :: "group_resource list" where
  "staticServerDryRunAllowlist =
     [\<lparr>gr_group = ''dashboard.grafana.app'', gr_resource = ''dashboards''\<rparr>,
      \<lparr>gr_group = ''folder.grafana.app'', gr_resource = ''folders''\<rparr>,
      \<lparr>gr_group = ''playlist.grafana.app'', gr_resource = ''playlists''\<rparr>]"

text \<open>The library function \<^verbatim>\<open>schema.ParseGroupResource\<close> is the parameter \<open>parse\<close>; an error
  is \<open>None\<close>.\<close>

definition parseGroupResource :: "(string \<Rightarrow> group_resource) \<Rightarrow> string \<Rightarrow> group_resource option" where
  "parseGroupResource parse s =
     (let gr = parse s in if gr_resource gr = [] \<or> gr_group gr = [] then None else Some gr)"

text \<open>The set \<^verbatim>\<open>extra\<close> as a list, and the invalid values.\<close>

fun newDryRunAllowlist ::
    "(string \<Rightarrow> group_resource) \<Rightarrow> string list \<Rightarrow> group_resource list \<times> string list" where
  "newDryRunAllowlist parse [] = ([], [])"
| "newDryRunAllowlist parse (s # assumed) =
     (case newDryRunAllowlist parse assumed of (extra, invalid) \<Rightarrow>
        (case parseGroupResource parse s of
           None \<Rightarrow> (extra, s # invalid) | Some gr \<Rightarrow> (gr # extra, invalid)))"

definition classify :: "group_resource list \<Rightarrow> group_resource \<Rightarrow> bool \<times> bool" where
  "classify extra gr =
     (if gr \<in> set staticServerDryRunAllowlist then (True, True) else (gr \<in> set extra, False))"

section \<open>The guard\<close>

text \<open>What the guard writes to its warning writer, which may be nil.\<close>

datatype dry_run_check = pushDryRunChecks | deleteDryRunChecks

datatype guard_note =
    InvalidAssumed "string list" | BlockedNote group_resource dry_run_check | AssertedNote group_resource

text \<open>The state of the guard around the world of the inner client.\<close>

record 's guarded =
  gd_world :: 's
  gd_announced :: "group_resource list"
  gd_out :: "guard_note list"

record 's dry_run_guard =
  dg_inner :: "'s dynamic_client"
  dg_extra :: "group_resource list"
  dg_warn :: bool

definition announceOnce :: "'s dry_run_guard \<Rightarrow> group_resource \<Rightarrow> guard_note \<Rightarrow> 's guarded \<Rightarrow> 's guarded" where
  "announceOnce g gr note s =
     (if \<not> dg_warn g then s
      else if gr \<in> set (gd_announced s) then s
      else s\<lparr>gd_announced := gr # gd_announced s, gd_out := gd_out s @ [note]\<rparr>)"

definition warnBlocked :: "'s dry_run_guard \<Rightarrow> group_resource \<Rightarrow> dry_run_check \<Rightarrow> 's guarded \<Rightarrow> 's guarded" where
  "warnBlocked g gr checkedDetail s = announceOnce g gr (BlockedNote gr checkedDetail) s"

definition noteAsserted :: "'s dry_run_guard \<Rightarrow> group_resource \<Rightarrow> 's guarded \<Rightarrow> 's guarded" where
  "noteAsserted g gr s = announceOnce g gr (AssertedNote gr) s"

definition desc_resource :: "descriptor \<Rightarrow> group_resource" where
  "desc_resource desc = \<lparr>gr_group = gv_group (d_gv desc), gr_resource = d_plural desc\<rparr>"

definition blockDryRun ::
    "'s dry_run_guard \<Rightarrow> descriptor \<Rightarrow> string list \<Rightarrow> dry_run_check \<Rightarrow> 's guarded \<Rightarrow> bool \<times> 's guarded" where
  "blockDryRun g desc dryRun checkedDetail s =
     (if \<not> isDryRun dryRun then (False, s)
      else (let gr = desc_resource desc; (honored, static) = classify (dg_extra g) gr in
            if \<not> honored then (True, warnBlocked g gr checkedDetail s)
            else if \<not> static then (False, noteAsserted g gr s)
            else (False, s)))"

definition on_inner :: "('s \<Rightarrow> 'r \<times> 's) \<Rightarrow> 's guarded \<Rightarrow> 'r \<times> 's guarded" where
  "on_inner f s = (case f (gd_world s) of (r, w) \<Rightarrow> (r, s\<lparr>gd_world := w\<rparr>))"

definition guard_Create ::
    "'s dry_run_guard \<Rightarrow> descriptor \<Rightarrow> uobj \<Rightarrow> string list \<Rightarrow> 's guarded \<Rightarrow> (go_error + uobj) \<times> 's guarded" where
  "guard_Create g desc obj opts s =
     (case blockDryRun g desc opts pushDryRunChecks s of
        (True, s') \<Rightarrow> (Inl ErrDryRunUnverified, s')
      | (False, s') \<Rightarrow> on_inner (c_create (dg_inner g) desc obj opts) s')"

definition guard_Update ::
    "'s dry_run_guard \<Rightarrow> descriptor \<Rightarrow> uobj \<Rightarrow> string list \<Rightarrow> 's guarded \<Rightarrow> (go_error + uobj) \<times> 's guarded" where
  "guard_Update g desc obj opts s =
     (case blockDryRun g desc opts pushDryRunChecks s of
        (True, s') \<Rightarrow> (Inl ErrDryRunUnverified, s')
      | (False, s') \<Rightarrow> on_inner (c_update (dg_inner g) desc obj opts) s')"

definition guard_Delete ::
    "'s dry_run_guard \<Rightarrow> descriptor \<Rightarrow> string \<Rightarrow> string list \<Rightarrow> 's guarded \<Rightarrow> go_error option \<times> 's guarded" where
  "guard_Delete g desc name opts s =
     (case blockDryRun g desc opts deleteDryRunChecks s of
        (True, s') \<Rightarrow>
          (case on_inner (c_get (dg_inner g) desc name) s' of
             (Inl e, s'') \<Rightarrow> (if \<not> e_not_found e then Some e else Some ErrDryRunUnverified, s'')
           | (Inr u, s'') \<Rightarrow> (Some ErrDryRunUnverified, s''))
      | (False, s') \<Rightarrow> on_inner (c_delete (dg_inner g) desc name opts) s')"

definition guard_Get :: "'s dry_run_guard \<Rightarrow> descriptor \<Rightarrow> string \<Rightarrow> 's guarded \<Rightarrow> (go_error + uobj) \<times> 's guarded" where
  "guard_Get g desc name = on_inner (c_get (dg_inner g) desc name)"

definition guard_GetMultiple ::
    "'s dry_run_guard \<Rightarrow> descriptor \<Rightarrow> string list \<Rightarrow> 's guarded \<Rightarrow> (uobj list \<times> go_error option) \<times> 's guarded" where
  "guard_GetMultiple g desc names = on_inner (c_get_multiple (dg_inner g) desc names)"

definition guard_List ::
    "'s dry_run_guard \<Rightarrow> descriptor \<Rightarrow> nat \<Rightarrow> 's guarded \<Rightarrow> (uobj_list option \<times> go_error option) \<times> 's guarded" where
  "guard_List g desc limit = on_inner (c_list (dg_inner g) desc limit)"

definition guard_client :: "'s dry_run_guard \<Rightarrow> 's guarded dynamic_client" where
  "guard_client g =
     \<lparr>c_create = guard_Create g, c_update = guard_Update g, c_get = guard_Get g,
      c_get_multiple = guard_GetMultiple g, c_list = guard_List g, c_delete = guard_Delete g\<rparr>"

text \<open>\<^verbatim>\<open>GuardConfig\<close>.\<close>

record guard_config =
  AssumeServerDryRun :: "string list"
  Warn :: bool

definition newDryRunGuard :: "'s dynamic_client \<Rightarrow> group_resource list \<Rightarrow> bool \<Rightarrow> 's dry_run_guard" where
  "newDryRunGuard inner extra warn = \<lparr>dg_inner = inner, dg_extra = extra, dg_warn = warn\<rparr>"

text \<open>The guarded client with the state it starts in.\<close>

definition newGuardedDynamicClient ::
    "(string \<Rightarrow> group_resource) \<Rightarrow> 's dynamic_client \<Rightarrow> guard_config \<Rightarrow> 's \<Rightarrow> 's dry_run_guard \<times> 's guarded" where
  "newGuardedDynamicClient parse inner cfg w =
     (case newDryRunAllowlist parse (AssumeServerDryRun cfg) of (extra, invalid) \<Rightarrow>
        (newDryRunGuard inner extra (Warn cfg),
         \<lparr>gd_world = w, gd_announced = [],
          gd_out = (if length invalid > 0 \<and> Warn cfg then [InvalidAssumed invalid] else [])\<rparr>))"

section \<open>Retrying conflicts\<close>

text \<open>
  The library function \<^verbatim>\<open>retry.OnError\<close> is the parameter \<open>rc_on_error\<close>: it takes the number
  of steps, the test for retriable errors and the attempt, which acts on the number of attempts, the
  captured result and the world. \<open>rc_wait\<close> is the sleep before an attempt, which ends early when the
  context is done, and \<open>rc_ctx_err\<close> is \<^verbatim>\<open>ctx.Err()\<close>.
\<close>

type_synonym 's retry_state = "nat \<times> uobj option \<times> 's"

type_synonym 's retry_loop =
  "nat \<Rightarrow> (go_error \<Rightarrow> bool) \<Rightarrow> ('s retry_state \<Rightarrow> go_error option \<times> 's retry_state)
    \<Rightarrow> 's retry_state \<Rightarrow> go_error option \<times> 's retry_state"

record 's conflict_retry =
  rc_inner :: "'s dynamic_client"
  rc_on_error :: "'s retry_loop"
  rc_ctx_err :: "'s \<Rightarrow> go_error option"
  rc_wait :: "nat \<Rightarrow> 's \<Rightarrow> 's"

type_synonym 's mutation = "'s \<Rightarrow> (go_error option \<times> uobj option) \<times> 's"

definition retry_steps :: nat where "retry_steps = 10"

definition retry_attempt :: "'s conflict_retry \<Rightarrow> 's mutation \<Rightarrow> 's retry_state \<Rightarrow> go_error option \<times> 's retry_state" where
  "retry_attempt c fn st =
     (case st of (attempt, result, w) \<Rightarrow>
        (case rc_ctx_err c w of
           Some e \<Rightarrow> (Some e, st)
         | None \<Rightarrow>
             (let w' = (if attempt > 0 then rc_wait c attempt w else w) in
              case (if attempt > 0 then rc_ctx_err c w' else None) of
                Some e \<Rightarrow> (Some e, (attempt, result, w'))
              | None \<Rightarrow>
                  (case fn w' of ((err, result'), w'') \<Rightarrow> (err, (Suc attempt, result', w''))))))"

definition onConflict :: "'s conflict_retry \<Rightarrow> 's mutation \<Rightarrow> 's \<Rightarrow> (go_error option \<times> uobj option) \<times> 's" where
  "onConflict c fn w =
     (case rc_on_error c retry_steps e_conflict (retry_attempt c fn) (0, None, w) of
        (err, (attempt, result, w')) \<Rightarrow>
          (case (err, rc_ctx_err c w') of
             (Some e, Some ce) \<Rightarrow> ((Some ce, result), w')
           | _ \<Rightarrow> ((err, result), w')))"

text \<open>A result and an error as a sum and back; a call without error returns a result.\<close>

definition split_result :: "(go_error + uobj) \<times> 's \<Rightarrow> (go_error option \<times> uobj option) \<times> 's" where
  "split_result r = (case r of (Inl e, s) \<Rightarrow> ((Some e, None), s) | (Inr u, s) \<Rightarrow> ((None, Some u), s))"

definition join_result :: "(go_error option \<times> uobj option) \<times> 's \<Rightarrow> (go_error + uobj) \<times> 's" where
  "join_result r =
     (case r of
        ((Some e, u), s) \<Rightarrow> (Inl e, s)
      | ((None, Some u), s) \<Rightarrow> (Inr u, s)
      | ((None, None), s) \<Rightarrow> (Inl (plain_error ''no result''), s))"

definition retry_Create ::
    "'s conflict_retry \<Rightarrow> descriptor \<Rightarrow> uobj \<Rightarrow> string list \<Rightarrow> 's \<Rightarrow> (go_error + uobj) \<times> 's" where
  "retry_Create c desc obj opts s =
     (if \<not> HasServerDerivedName (Descriptor_GroupVersionKind desc) then c_create (rc_inner c) desc obj opts s
      else join_result (onConflict c (\<lambda>w. split_result (c_create (rc_inner c) desc obj opts w)) s))"

definition retry_Update ::
    "'s conflict_retry \<Rightarrow> descriptor \<Rightarrow> uobj \<Rightarrow> string list \<Rightarrow> 's \<Rightarrow> (go_error + uobj) \<times> 's" where
  "retry_Update c desc obj opts s =
     (if \<not> HasServerDerivedName (Descriptor_GroupVersionKind desc) then c_update (rc_inner c) desc obj opts s
      else join_result (onConflict c (\<lambda>w. split_result (c_update (rc_inner c) desc obj opts w)) s))"

definition retry_Delete ::
    "'s conflict_retry \<Rightarrow> descriptor \<Rightarrow> string \<Rightarrow> string list \<Rightarrow> 's \<Rightarrow> go_error option \<times> 's" where
  "retry_Delete c desc name opts s =
     (if \<not> HasServerDerivedName (Descriptor_GroupVersionKind desc) then c_delete (rc_inner c) desc name opts s
      else (case onConflict c (\<lambda>w. case c_delete (rc_inner c) desc name opts w of (e, w') \<Rightarrow> ((e, None), w')) s of
              ((err, result), s') \<Rightarrow> (err, s')))"

definition retry_client :: "'s conflict_retry \<Rightarrow> 's dynamic_client" where
  "retry_client c =
     \<lparr>c_create = retry_Create c, c_update = retry_Update c, c_get = c_get (rc_inner c),
      c_get_multiple = c_get_multiple (rc_inner c), c_list = c_list (rc_inner c), c_delete = retry_Delete c\<rparr>"

definition newGuardedRetryDynamicClient ::
    "(string \<Rightarrow> group_resource) \<Rightarrow> 's conflict_retry \<Rightarrow> guard_config \<Rightarrow> 's \<Rightarrow> 's dry_run_guard \<times> 's guarded" where
  "newGuardedRetryDynamicClient parse c guard w = newGuardedDynamicClient parse (retry_client c) guard w"

section \<open>Announcements\<close>

text \<open>The resource a note is about, and the invariant that every resource has one note.\<close>

fun note_resource :: "guard_note \<Rightarrow> group_resource option" where
  "note_resource (InvalidAssumed xs) = None"
| "note_resource (BlockedNote gr d) = Some gr"
| "note_resource (AssertedNote gr) = Some gr"

definition announced_once :: "'s guarded \<Rightarrow> bool" where
  "announced_once s \<longleftrightarrow>
     distinct (collect_some note_resource (gd_out s)) \<and>
     set (collect_some note_resource (gd_out s)) = set (gd_announced s)"

lemma announceOnce_inv:
  "note_resource note = Some gr \<Longrightarrow> announced_once s \<Longrightarrow> announced_once (announceOnce g gr note s)"
  by (auto simp: announced_once_def announceOnce_def collect_some_append)

lemma blockDryRun_inv: "announced_once s \<Longrightarrow> announced_once (snd (blockDryRun g desc dr d s))"
  by (auto simp: blockDryRun_def warnBlocked_def noteAsserted_def announceOnce_inv Let_def split: prod.split)

lemma on_inner_inv: "announced_once s \<Longrightarrow> announced_once (snd (on_inner f s))"
  by (auto simp: on_inner_def announced_once_def split: prod.split)

lemma blockDryRun_world: "gd_world (snd (blockDryRun g desc dr d s)) = gd_world s"
  by (auto simp: blockDryRun_def warnBlocked_def noteAsserted_def announceOnce_def Let_def split: prod.split)

lemma blockDryRun_fst:
  "fst (blockDryRun g desc dr d s) \<longleftrightarrow> isDryRun dr \<and> \<not> fst (classify (dg_extra g) (desc_resource desc))"
  by (auto simp: blockDryRun_def Let_def split: prod.split)

text \<open>What any client of the guard can do to its state.\<close>

inductive guard_reachable :: "'s dry_run_guard \<Rightarrow> 's guarded \<Rightarrow> bool" for g where
  start: "note_resource ` set out \<subseteq> {None} \<Longrightarrow>
    guard_reachable g \<lparr>gd_world = w, gd_announced = [], gd_out = out\<rparr>"
| create: "guard_reachable g s \<Longrightarrow> guard_reachable g (snd (guard_Create g desc obj opts s))"
| update: "guard_reachable g s \<Longrightarrow> guard_reachable g (snd (guard_Update g desc obj opts s))"
| delete: "guard_reachable g s \<Longrightarrow> guard_reachable g (snd (guard_Delete g desc name opts s))"
| get: "guard_reachable g s \<Longrightarrow> guard_reachable g (snd (guard_Get g desc name s))"
| get_multiple: "guard_reachable g s \<Longrightarrow> guard_reachable g (snd (guard_GetMultiple g desc names s))"
| listing: "guard_reachable g s \<Longrightarrow> guard_reachable g (snd (guard_List g desc limit s))"

lemma collect_some_none: "f ` set xs \<subseteq> {None} \<Longrightarrow> collect_some f xs = []"
  by (induction xs) auto

lemma guard_mutation_inv:
  assumes "announced_once s"
  shows "announced_once (snd (guard_Create g desc obj opts s))"
    and "announced_once (snd (guard_Update g desc obj opts s))"
    and "announced_once (snd (guard_Delete g desc name opts s))"
proof -
  obtain b s' where b: "blockDryRun g desc opts pushDryRunChecks s = (b, s')" by force
  have i: "announced_once s'" using blockDryRun_inv [OF assms, of g desc opts pushDryRunChecks] b by simp
  show "announced_once (snd (guard_Create g desc obj opts s))" "announced_once (snd (guard_Update g desc obj opts s))"
    using i by (cases b; simp add: guard_Create_def guard_Update_def b on_inner_inv)+
  obtain d t where d: "blockDryRun g desc opts deleteDryRunChecks s = (d, t)" by force
  have i: "announced_once t" using blockDryRun_inv [OF assms, of g desc opts deleteDryRunChecks] d by simp
  have "snd (case on_inner (c_get (dg_inner g) desc name) t of
      (Inl e, s'') \<Rightarrow> (if \<not> e_not_found e then Some e else Some ErrDryRunUnverified, s'')
    | (Inr u, s'') \<Rightarrow> (Some ErrDryRunUnverified, s'')) = snd (on_inner (c_get (dg_inner g) desc name) t)"
    by (simp split: prod.split sum.split)
  then show "announced_once (snd (guard_Delete g desc name opts s))"
    using i by (cases d) (simp_all add: guard_Delete_def d on_inner_inv)
qed

text \<open>The guard warns at most once for each kind of resource, in any run: whatever calls it
  received, the notes it wrote are about different resources, and they are exactly the resources it
  remembers as announced.\<close>

theorem guard_announces_once:
  assumes "guard_reachable g s"
  shows "distinct (collect_some note_resource (gd_out s)) \<and>
    set (collect_some note_resource (gd_out s)) = set (gd_announced s)"
proof -
  from assms have "announced_once s"
  proof induction
    case (start out w)
    then show ?case by (simp add: announced_once_def collect_some_none)
  qed (simp_all add: guard_mutation_inv guard_Get_def guard_GetMultiple_def guard_List_def on_inner_inv)
  then show ?thesis by (simp add: announced_once_def)
qed

text \<open>A guard over a client that counts the mutations it receives.\<close>

definition counting_client :: "nat dynamic_client" where
  "counting_client =
     \<lparr>c_create = (\<lambda>d u dr s. (Inr u, Suc s)), c_update = (\<lambda>d u dr s. (Inr u, Suc s)),
      c_get = (\<lambda>d n s. (Inl (api_not_found n), s)), c_get_multiple = (\<lambda>d ns s. (([], None), s)),
      c_list = (\<lambda>d n s. ((None, None), s)), c_delete = (\<lambda>d n dr s. (None, Suc s))\<rparr>"

definition sample_desc :: "string \<Rightarrow> string \<Rightarrow> string \<Rightarrow> descriptor" where
  "sample_desc grp kind plural =
     \<lparr>d_gv = \<lparr>gv_group = grp, gv_version = ''v1''\<rparr>, d_kind = kind, d_singular = kind, d_plural = plural\<rparr>"

lemma guard_announces_once_witness:
  "distinct (collect_some note_resource (gd_out (snd
     (guard_Create (newDryRunGuard counting_client [] True) (sample_desc ''g'' ''K'' ''ks'') (sample_group ''x'' ''t'') [''All'']
        (snd (newGuardedDynamicClient (\<lambda>s. \<lparr>gr_group = [], gr_resource = s\<rparr>) counting_client
           \<lparr>AssumeServerDryRun = [''bad''], Warn = True\<rparr> 0))))))"
proof -
  have "guard_reachable (newDryRunGuard counting_client [] True)
     (snd (guard_Create (newDryRunGuard counting_client [] True) (sample_desc ''g'' ''K'' ''ks'') (sample_group ''x'' ''t'') [''All'']
        (snd (newGuardedDynamicClient (\<lambda>s. \<lparr>gr_group = [], gr_resource = s\<rparr>) counting_client
           \<lparr>AssumeServerDryRun = [''bad''], Warn = True\<rparr> 0))))"
    by (rule guard_reachable.create)
      (simp add: newGuardedDynamicClient_def parseGroupResource_def guard_reachable.start)
  from guard_announces_once [OF this] show ?thesis by blast
qed

section \<open>How often a conflict is retried\<close>

text \<open>
  The documented loop of \<^verbatim>\<open>retry.OnError\<close>: attempts until one succeeds, fails with an error
  that is not retriable, or the steps are used up. An interruption may be reported as the last
  retriable error instead of itself, which the law leaves open.
\<close>

fun retry_loop_spec ::
    "nat \<Rightarrow> ('e \<Rightarrow> bool) \<Rightarrow> ('t \<Rightarrow> 'e option \<times> 't) \<Rightarrow> 't \<Rightarrow> 'e option \<times> 't" where
  "retry_loop_spec 0 retriable attempt st = (None, st)"
| "retry_loop_spec (Suc n) retriable attempt st =
     (case attempt st of
        (None, st') \<Rightarrow> (None, st')
      | (Some e, st') \<Rightarrow>
          if retriable e \<and> 0 < n then retry_loop_spec n retriable attempt st' else (Some e, st'))"

definition retry_law :: "(go_error \<Rightarrow> bool) \<Rightarrow> 's retry_loop \<Rightarrow> bool" where
  "retry_law interrupted on_error \<longleftrightarrow>
     (\<forall>n retriable attempt st.
        case retry_loop_spec n retriable attempt st of
          (None, st') \<Rightarrow> on_error n retriable attempt st = (None, st')
        | (Some e, st') \<Rightarrow>
            \<exists>e'. on_error n retriable attempt st = (Some e', st') \<and> (\<not> interrupted e \<longrightarrow> e' = e))"

lemma retry_lawE:
  assumes "retry_law interrupted on_error" "on_error n retriable attempt st = (err, st')"
  obtains "err = None" "retry_loop_spec n retriable attempt st = (None, st')"
  | e e' where "err = Some e'" "retry_loop_spec n retriable attempt st = (Some e, st')" "\<not> interrupted e \<longrightarrow> e' = e"
proof -
  obtain x t where x: "retry_loop_spec n retriable attempt st = (x, t)" by (rule prod.exhaust)
  have "case (x, t) of (None, st') \<Rightarrow> on_error n retriable attempt st = (None, st')
        | (Some e, st') \<Rightarrow> \<exists>e'. on_error n retriable attempt st = (Some e', st') \<and> (\<not> interrupted e \<longrightarrow> e' = e)"
    using assms(1) [unfolded retry_law_def, THEN spec, THEN spec, THEN spec, THEN spec, of n retriable attempt st]
    unfolding x .
  then show ?thesis using that assms(2) x by (cases x) auto
qed

lemma retry_loop_spec_inv:
  assumes "\<And>st. P st \<Longrightarrow> P (snd (attempt st))" "P st"
  shows "P (snd (retry_loop_spec n retriable attempt st))"
  using assms(2)
proof (induction n arbitrary: st)
  case (Suc n)
  have "P (snd (attempt st))" by (rule assms(1)) (rule Suc.prems)
  then show ?case using Suc.IH by (auto split: prod.split option.split)
qed simp

lemma retry_attempt_cases:
  obtains (ctx) e w' where "retry_attempt c fn (a, r, w) = (Some e, (a, r, w'))" "rc_ctx_err c w' = Some e"
      "w' = w \<or> w' = rc_wait c a w"
  | (sent) w1 err r' w' where "retry_attempt c fn (a, r, w) = (err, (Suc a, r', w'))" "fn w1 = ((err, r'), w')"
      "w1 = w \<or> w1 = rc_wait c a w"
proof (cases "rc_ctx_err c w")
  case None
  define w1 where "w1 = (if a > 0 then rc_wait c a w else w)"
  have w1: "w1 = w \<or> w1 = rc_wait c a w" by (simp add: w1_def)
  show ?thesis
  proof (cases "if a > 0 then rc_ctx_err c w1 else None")
    case None
    obtain err r' w' where f: "fn w1 = ((err, r'), w')" by (metis prod.exhaust)
    show ?thesis
      using \<open>rc_ctx_err c w = None\<close> None f
      by (intro sent [OF _ f w1]) (cases "a = 0"; simp add: retry_attempt_def Let_def w1_def)
  next
    case (Some e)
    then have "rc_ctx_err c w1 = Some e" "a > 0" by (auto split: if_splits)
    then show ?thesis
      by (intro ctx [OF _ _ w1, of e]) (use \<open>rc_ctx_err c w = None\<close> in \<open>simp_all add: retry_attempt_def Let_def w1_def\<close>)
  qed
next
  case (Some e)
  then show ?thesis by (intro ctx [of e w]) (simp_all add: retry_attempt_def)
qed

lemma retry_attempts_spec:
  assumes count: "\<And>w. sent (snd (fn w)) = Suc (sent w)" "\<And>n w. sent (rc_wait c n w) = sent w"
    and ctx: "\<forall>w e. rc_ctx_err c w = Some e \<longrightarrow> \<not> e_conflict e"
    and run: "retry_loop_spec n e_conflict (retry_attempt c fn) (a, r, w) = (err, (a', r', w'))"
  shows "sent w' \<le> sent w + n \<and>
    (\<forall>e. err = Some e \<and> e_conflict e \<longrightarrow> sent w' = sent w + n) \<and>
    (\<forall>e. err = Some e \<longrightarrow> rc_ctx_err c w' = Some e \<or> (\<exists>w1. fn w1 = ((Some e, r'), w'))) \<and>
    (err = None \<and> 0 < n \<longrightarrow> (\<exists>w1. fn w1 = ((None, r'), w')))"
  using run
proof (induction n arbitrary: a r w)
  case (Suc n)
  show ?case
  proof (cases rule: retry_attempt_cases [of c fn a r w])
    case (ctx e w2)
    then have "\<not> e_conflict e" "sent w2 = sent w" using assms(3) count(2) by auto
    then show ?thesis using Suc.prems ctx by auto
  next
    case (sent w1 err1 r1 w2)
    then have s: "sent w2 = Suc (sent w)" using count by (metis snd_conv)
    show ?thesis
    proof (cases err1)
      case None
      then show ?thesis using Suc.prems sent s by auto
    next
      case (Some e)
      show ?thesis
      proof (cases "e_conflict e \<and> 0 < n")
        case True
        then have "retry_loop_spec n e_conflict (retry_attempt c fn) (Suc a, r1, w2) = (err, (a', r', w'))"
          using Suc.prems sent(1) Some by simp
        from Suc.IH [OF this] show ?thesis using s True by simp
      next
        case False
        then have "err = Some e" "r' = r1" "w' = w2" using Suc.prems sent(1) Some by auto
        then show ?thesis using False s sent(2) Some by auto
      qed
    qed
  qed
qed simp

text \<open>A mutation of a server named kind is sent at most ten times. It is sent again only after a
  conflict, so a conflict is reported only after all ten; success reports the result of the last
  request; and once the context is done no outcome but its own error or a success is reported.\<close>

theorem onConflict_attempts:
  assumes law: "retry_law interrupted (rc_on_error c)"
    and count: "\<And>w. sent (snd (fn w)) = Suc (sent w)" "\<And>n w. sent (rc_wait c n w) = sent w"
    and ctx: "\<And>w e. rc_ctx_err c w = Some e \<Longrightarrow> \<not> e_conflict e"
    and interrupt: "\<And>w e r w'. fn w = ((Some e, r), w') \<Longrightarrow> interrupted e \<Longrightarrow> rc_ctx_err c w' \<noteq> None"
    and run: "onConflict c fn w = ((err, r), w')"
  shows "sent w' \<le> sent w + 10 \<and>
    (\<forall>e. err = Some e \<and> e_conflict e \<longrightarrow> sent w' = sent w + 10) \<and>
    (err = None \<longrightarrow> (\<exists>w1. fn w1 = ((None, r), w'))) \<and>
    (rc_ctx_err c w' \<noteq> None \<longrightarrow> err = None \<or> err = rc_ctx_err c w')"
proof -
  have ctx': "\<forall>w e. rc_ctx_err c w = Some e \<longrightarrow> \<not> e_conflict e" using ctx by blast
  obtain x a r0 w0 where on: "rc_on_error c retry_steps e_conflict (retry_attempt c fn) (0, None, w) = (x, (a, r0, w0))"
    by (metis prod.exhaust)
  have eq: "w0 = w'" "r0 = r" "err = (if x \<noteq> None \<and> rc_ctx_err c w0 \<noteq> None then rc_ctx_err c w0 else x)"
    using run by (cases x; cases "rc_ctx_err c w0"; auto simp: onConflict_def on)+
  from law on show ?thesis
  proof (cases rule: retry_lawE)
    case 1
    from retry_attempts_spec [where sent = sent, OF count ctx' 1(2)] show ?thesis
      using 1(1) eq by (auto simp: retry_steps_def)
  next
    case (2 e e')
    note spec = retry_attempts_spec [where sent = sent, OF count ctx' 2(2)]
    have last: "rc_ctx_err c w0 \<noteq> None \<or> e' = e"
      using spec 2(3) interrupt by (metis option.distinct(1))
    show ?thesis
      using spec last 2(1) eq ctx by (auto simp: retry_steps_def split: if_splits)
  qed
qed

section \<open>The stack is safe\<close>

lemma retry_attempt_keeps:
  assumes fn: "keeps I store fn" and wait: "\<And>n s. I s \<Longrightarrow> I (rc_wait c n s) \<and> store (rc_wait c n s) = store s"
    and st: "I (snd (snd st)) \<and> store (snd (snd st)) = s0"
  shows "I (snd (snd (snd (retry_attempt c fn st)))) \<and> store (snd (snd (snd (retry_attempt c fn st)))) = s0"
proof -
  obtain a r w where s: "st = (a, r, w)" by (metis prod.exhaust)
  show ?thesis
  proof (cases rule: retry_attempt_cases [of c fn a r w])
    case (ctx e w')
    then show ?thesis using st wait s by auto
  next
    case (sent w1 err r' w')
    then have "I w1 \<and> store w1 = s0" using st wait s by auto
    then show ?thesis using keepsD [OF fn sent(2)] sent(1) s by simp
  qed
qed

lemma onConflict_keeps:
  assumes law: "retry_law interrupted (rc_on_error c)" and fn: "keeps I store fn"
    and wait: "\<And>n s. I s \<Longrightarrow> I (rc_wait c n s) \<and> store (rc_wait c n s) = store s"
  shows "keeps I store (onConflict c fn)"
proof (rule keepsI)
  fix s out s'
  assume s: "I s" and run: "onConflict c fn s = (out, s')"
  obtain x a r0 w0 where on: "rc_on_error c retry_steps e_conflict (retry_attempt c fn) (0, None, s) = (x, (a, r0, w0))"
    by (metis prod.exhaust)
  have "w0 = s'" using run by (auto simp: onConflict_def on split: option.splits)
  moreover from law on have "snd (retry_loop_spec retry_steps e_conflict (retry_attempt c fn) (0, None, s)) = (a, r0, w0)"
    by (cases rule: retry_lawE) simp_all
  moreover have "I (snd (snd (snd (retry_loop_spec retry_steps e_conflict (retry_attempt c fn) (0, None, s))))) \<and>
      store (snd (snd (snd (retry_loop_spec retry_steps e_conflict (retry_attempt c fn) (0, None, s))))) = store s"
    by (rule retry_loop_spec_inv) (use retry_attempt_keeps [OF fn wait] s in auto)
  ultimately show "I s' \<and> store s' = store s" by simp
qed

lemma keeps_fst: "(\<And>s. snd (g s) = snd (f s)) \<Longrightarrow> keeps I store f \<Longrightarrow> keeps I store g"
  by (simp add: keeps_def)

lemma snd_split_result [simp]: "snd (split_result p) = snd p"
  by (simp add: split_result_def split: prod.split sum.split)

lemma snd_join_result [simp]: "snd (join_result p) = snd p"
  by (simp add: join_result_def split: prod.split option.split)

lemma retry_client_safe:
  assumes law: "retry_law interrupted (rc_on_error c)" and inner: "client_safe I store D (rc_inner c)"
    and wait: "\<And>n s. I s \<Longrightarrow> I (rc_wait c n s) \<and> store (rc_wait c n s) = store s"
  shows "client_safe I store D (retry_client c)"
proof -
  have mut: "keeps I store (\<lambda>s. join_result (onConflict c (\<lambda>w. split_result (f w)) s))" if "keeps I store f" for f
  proof -
    have "keeps I store (\<lambda>w. split_result (f w))" using that by (simp add: keeps_def)
    from onConflict_keeps [OF law this wait] show ?thesis by (simp add: keeps_def)
  qed
  have mut': "keeps I store (\<lambda>s. case onConflict c (\<lambda>w. case f w of (e, w') \<Rightarrow> ((e, None), w')) s of
      ((err, result), s') \<Rightarrow> (err, s'))" if "keeps I store f" for f
  proof -
    have "keeps I store (\<lambda>w. case f w of (e, w') \<Rightarrow> ((e, None), w'))" using that by (simp add: keeps_def split_def)
    from onConflict_keeps [OF law this wait] show ?thesis by (simp add: keeps_def split_def)
  qed
  have k: "keeps I store (c_create (rc_inner c) d u dr)" "keeps I store (c_update (rc_inner c) d u dr)"
      "keeps I store (c_delete (rc_inner c) d n dr)" if "D d" "isDryRun dr" for d u n dr
    using inner that by (simp_all add: client_safe_def)
  have "keeps I store (retry_Create c d u dr)" "keeps I store (retry_Update c d u dr)"
      "keeps I store (retry_Delete c d n dr)" if "D d" "isDryRun dr" for d u n dr
    using k [OF that] mut [OF k(1) [OF that]] mut [OF k(2) [OF that]] mut' [OF k(3) [OF that]]
    by (simp_all add: keeps_def retry_Create_def retry_Update_def retry_Delete_def)
  then show ?thesis using inner by (simp add: client_safe_def retry_client_def)
qed

lemma on_inner_keeps: "keeps I store f \<Longrightarrow> keeps (\<lambda>s. I (gd_world s)) (\<lambda>s. store (gd_world s)) (on_inner f)"
  by (auto simp: keeps_def on_inner_def split: prod.split)

lemma guard_client_safe:
  assumes "client_safe I store (\<lambda>d. fst (classify (dg_extra g) (desc_resource d))) (dg_inner g)"
  shows "client_safe (\<lambda>s. I (gd_world s)) (\<lambda>s. store (gd_world s)) (\<lambda>_. True) (guard_client g)"
proof -
  let ?I = "\<lambda>s. I (gd_world s)" and ?st = "\<lambda>s. store (gd_world s)"
  have blocked: "keeps ?I ?st (\<lambda>s. case blockDryRun g d dr k s of (True, s') \<Rightarrow> a s' | (False, s') \<Rightarrow> b s')"
    if "isDryRun dr" "fst (classify (dg_extra g) (desc_resource d)) \<Longrightarrow> keeps ?I ?st b" "keeps ?I ?st a"
    for d dr k a b
  proof (rule keepsI)
    fix s r s'
    assume s: "I (gd_world s)" and run: "(case blockDryRun g d dr k s of (True, s') \<Rightarrow> a s' | (False, s') \<Rightarrow> b s') = (r, s')"
    obtain x t where x: "blockDryRun g d dr k s = (x, t)" by (rule prod.exhaust)
    have w: "gd_world t = gd_world s" using blockDryRun_world [of g d dr k s] x by simp
    have h: "x \<longleftrightarrow> \<not> fst (classify (dg_extra g) (desc_resource d))"
      using blockDryRun_fst [of g d dr k s] x that(1) by simp
    show "I (gd_world s') \<and> store (gd_world s') = store (gd_world s)"
      using run x w h s keepsD [OF that(3), of t r s'] keepsD [OF that(2), of t r s'] by (cases x) auto
  qed
  have ret: "keeps ?I ?st (\<lambda>s'. (Inl ErrDryRunUnverified :: go_error + uobj, s'))" by (simp add: keeps_def)
  have del: "keeps ?I ?st (\<lambda>s'. case on_inner (c_get (dg_inner g) d n) s' of
      (Inl e, s'') \<Rightarrow> (if \<not> e_not_found e then Some e else Some ErrDryRunUnverified, s'')
    | (Inr u, s'') \<Rightarrow> (Some ErrDryRunUnverified, s''))" for d n
  proof (rule keeps_fst)
    show "keeps ?I ?st (on_inner (c_get (dg_inner g) d n))"
      using assms by (simp add: client_safe_def on_inner_keeps)
  qed (simp split: prod.split sum.split)
  have "keeps ?I ?st (guard_Create g d u dr)" "keeps ?I ?st (guard_Update g d u dr)"
      "keeps ?I ?st (guard_Delete g d n dr)" if "isDryRun dr" for d u n dr
    unfolding guard_Create_def guard_Update_def guard_Delete_def
    using assms that by (auto intro!: blocked [OF that] ret del on_inner_keeps simp: client_safe_def)
  then show ?thesis using assms
    by (simp add: client_safe_def guard_client_def guard_Get_def guard_GetMultiple_def guard_List_def on_inner_keeps)
qed

text \<open>The client stack of a push makes dry runs safe: if the server honours dry runs of the listed
  resources (the built-in ones and those the user asserted), then no dry run of any resource through
  the guard and the retrying client changes the store. A dry run of any other resource is answered
  as unverified without a single request, except that a deletion reads its target.\<close>

theorem guarded_dry_run:
  assumes law: "retry_law interrupted (rc_on_error c)"
    and wait: "\<And>n s. I s \<Longrightarrow> I (rc_wait c n s) \<and> store (rc_wait c n s) = store s"
    and extra: "fst (newDryRunAllowlist parse (AssumeServerDryRun cfg)) = extra"
    and inner: "client_safe I store (\<lambda>d. fst (classify extra (desc_resource d))) (rc_inner c)"
    and g: "fst (newGuardedRetryDynamicClient parse c cfg w) = g"
  shows "client_safe (\<lambda>s. I (gd_world s)) (\<lambda>s. store (gd_world s)) (\<lambda>_. True) (guard_client g) \<and>
    (\<forall>desc u n dr s. isDryRun dr \<and> \<not> fst (classify extra (desc_resource desc)) \<longrightarrow>
       (case c_create (guard_client g) desc u dr s of (res, s') \<Rightarrow> res = Inl ErrDryRunUnverified \<and> gd_world s' = gd_world s) \<and>
       (case c_update (guard_client g) desc u dr s of (res, s') \<Rightarrow> res = Inl ErrDryRunUnverified \<and> gd_world s' = gd_world s) \<and>
       (case c_delete (guard_client g) desc n dr s of
          (res, s') \<Rightarrow> res \<noteq> None \<and> gd_world s' = snd (c_get (rc_inner c) desc n (gd_world s))))"
proof -
  have gx: "dg_inner g = retry_client c" "dg_extra g = extra"
    using g extra by (auto simp: newGuardedRetryDynamicClient_def newGuardedDynamicClient_def
        newDryRunGuard_def split: prod.splits)
  have safe: "client_safe (\<lambda>s. I (gd_world s)) (\<lambda>s. store (gd_world s)) (\<lambda>_. True) (guard_client g)"
    by (rule guard_client_safe) (simp add: gx retry_client_safe [OF law inner wait])
  have dry: "(case c_create (guard_client g) desc u dr s of (res, s') \<Rightarrow> res = Inl ErrDryRunUnverified \<and> gd_world s' = gd_world s) \<and>
       (case c_update (guard_client g) desc u dr s of (res, s') \<Rightarrow> res = Inl ErrDryRunUnverified \<and> gd_world s' = gd_world s) \<and>
       (case c_delete (guard_client g) desc n dr s of
          (res, s') \<Rightarrow> res \<noteq> None \<and> gd_world s' = snd (c_get (rc_inner c) desc n (gd_world s)))"
    if dr: "isDryRun dr" "\<not> fst (classify extra (desc_resource desc))" for desc u n dr s
  proof -
    have b: "\<exists>t. blockDryRun g desc dr k s = (True, t) \<and> gd_world t = gd_world s" for k
      using blockDryRun_fst [of g desc dr k s] blockDryRun_world [of g desc dr k s] dr gx
      by (cases "blockDryRun g desc dr k s") auto
    obtain t where p: "blockDryRun g desc dr pushDryRunChecks s = (True, t)" "gd_world t = gd_world s" using b by blast
    obtain d where d: "blockDryRun g desc dr deleteDryRunChecks s = (True, d)" "gd_world d = gd_world s" using b by blast
    show ?thesis
      by (simp add: guard_client_def guard_Create_def guard_Update_def guard_Delete_def p d on_inner_def gx
          retry_client_def split: prod.split sum.split)
  qed
  show ?thesis by (intro conjI [OF safe] allI impI) (elim conjE, rule dry)
qed

text \<open>A server that counts what it applies: it honours dry runs of dashboards, folders and playlists,
  and applies every other request for real.\<close>

definition apply_count :: "descriptor \<Rightarrow> string list \<Rightarrow> nat \<Rightarrow> nat" where
  "apply_count d dr s = (if isDryRun dr \<and> desc_resource d \<in> set staticServerDryRunAllowlist then s else Suc s)"

definition legacy_client :: "nat dynamic_client" where
  "legacy_client = counting_client
     \<lparr>c_create := (\<lambda>d u dr s. (Inr u, apply_count d dr s)), c_update := (\<lambda>d u dr s. (Inr u, apply_count d dr s)),
      c_delete := (\<lambda>d n dr s. (None, apply_count d dr s))\<rparr>"

definition sample_retry :: "nat conflict_retry" where
  "sample_retry =
     \<lparr>rc_inner = legacy_client, rc_on_error = retry_loop_spec, rc_ctx_err = (\<lambda>s. None), rc_wait = (\<lambda>n s. s)\<rparr>"

lemma sample_retry_law: "retry_law interrupted (rc_on_error sample_retry)"
  by (simp add: retry_law_def sample_retry_def split: prod.split option.split)

lemma guarded_dry_run_witness:
  "case c_create (guard_client (fst (newGuardedRetryDynamicClient (\<lambda>s. \<lparr>gr_group = [], gr_resource = s\<rparr>)
       sample_retry \<lparr>AssumeServerDryRun = [], Warn = False\<rparr> 0))) (sample_desc ''rules'' ''AlertRule'' ''alertrules'')
     (sample_group ''x'' ''t'') [''All''] \<lparr>gd_world = 7, gd_announced = [], gd_out = []\<rparr> of
   (res, s') \<Rightarrow> res = Inl ErrDryRunUnverified \<and> gd_world s' = 7"
proof -
  have safe: "client_safe (\<lambda>_. True) (\<lambda>s. s) (\<lambda>d. fst (classify [] (desc_resource d))) (rc_inner sample_retry)"
    by (simp add: client_safe_def sample_retry_def legacy_client_def counting_client_def keeps_def
        apply_count_def classify_def)
  have wait: "True \<and> rc_wait sample_retry n s = s" for n s by (simp add: sample_retry_def)
  have extra: "fst (newDryRunAllowlist (\<lambda>s. \<lparr>gr_group = [], gr_resource = s\<rparr>)
      (AssumeServerDryRun \<lparr>AssumeServerDryRun = [], Warn = False\<rparr>)) = []" by simp
  have d: "isDryRun [''All''] \<and> \<not> fst (classify [] (desc_resource (sample_desc ''rules'' ''AlertRule'' ''alertrules'')))"
    by (simp add: isDryRun_def classify_def desc_resource_def sample_desc_def staticServerDryRunAllowlist_def)
  show ?thesis
    using guarded_dry_run [OF sample_retry_law wait extra safe refl, where w = 0, THEN conjunct2,
        THEN spec, THEN spec [of _ "sample_group ''x'' ''t''"], THEN spec [of _ "[]"], THEN spec,
        THEN spec [of _ "\<lparr>gd_world = 7, gd_announced = [], gd_out = []\<rparr>"], THEN mp, OF d]
    by simp
qed

text \<open>A server that answers every request with a conflict gets ten of them.\<close>

definition conflict_error :: go_error where
  "conflict_error = (plain_error ''conflict'')\<lparr>e_conflict := True\<rparr>"

lemma onConflict_attempts_witness:
  "onConflict sample_retry (\<lambda>w. ((Some conflict_error, None), Suc w)) 0 = ((Some conflict_error, None), 10)"
proof -
  obtain err r w' where run: "onConflict sample_retry (\<lambda>w. ((Some conflict_error, None), Suc w)) 0 = ((err, r), w')"
    by (metis prod.exhaust)
  have "err = Some conflict_error \<and> r = None"
    using run by (auto simp: onConflict_def sample_retry_def retry_attempt_def retry_steps_def numeral_eq_Suc
        conflict_error_def plain_error_def)
  moreover have "w' \<le> 0 + 10 \<and>
    (\<forall>e. err = Some e \<and> e_conflict e \<longrightarrow> w' = 0 + 10) \<and>
    (err = None \<longrightarrow> (\<exists>w1. ((Some conflict_error, None), Suc w1) = ((None, r), w'))) \<and>
    (rc_ctx_err sample_retry w' \<noteq> None \<longrightarrow> err = None \<or> err = rc_ctx_err sample_retry w')"
    by (rule onConflict_attempts [where sent = "\<lambda>w. w" and interrupted = "\<lambda>_. False", OF sample_retry_law _ _ _ _ run])
      (simp_all add: sample_retry_def)
  ultimately show ?thesis using run by (auto simp: conflict_error_def)
qed

end
