(* ===== verification/Gcx_Push.thy ===== *)
theory Gcx_Push
  imports Gcx_Summary Gcx_Folders Gcx_DryRun
begin

text \<open>
  Pushing resources (\<^verbatim>\<open>remote/pusher.go\<close>) with the cache and the matching of natural keys
  (\<^verbatim>\<open>natural_key_cache.go\<close>, \<^verbatim>\<open>natural_key_match.go\<close>). The state of a push is the world
  of the client, the cache and the summary. The lemmas show that a push is one pass over the
  resources in an order that respects the folder hierarchy, how every resource is accounted for,
  which requests an upsert sends, and that a dry run changes nothing.
\<close>

section \<open>Natural keys\<close>

type_synonym nk_cache = "(group_version_kind \<times> uobj_list option) list"
type_synonym 's lister = "descriptor \<Rightarrow> nat \<Rightarrow> 's \<Rightarrow> (uobj_list option \<times> go_error option) \<times> 's"

text \<open>\<^verbatim>\<open>naturalKeyCache.list\<close>. The list is fetched outside the lock and the cache is read
  again after it.\<close>

definition cache_list ::
    "'s lister option \<Rightarrow> descriptor \<Rightarrow> nk_cache \<times> 's \<Rightarrow> (go_error + uobj_list option) \<times> (nk_cache \<times> 's)" where
  "cache_list lister desc st =
     (case lister of
        None \<Rightarrow> (Inr None, st)
      | Some list \<Rightarrow>
          (let gvk = Descriptor_GroupVersionKind desc in
           case map_of (fst st) gvk of
             Some result \<Rightarrow> (Inr result, st)
           | None \<Rightarrow>
               (case list desc 0 (snd st) of
                  ((result, Some e), w) \<Rightarrow> (Inl e, (fst st, w))
                | ((result, None), w) \<Rightarrow>
                    (case map_of (fst st) gvk of
                       Some existing \<Rightarrow> (Inr existing, (fst st, w))
                     | None \<Rightarrow> (Inr result, (AList.update gvk result (fst st), w))))))"

definition native_extractor :: "uobj \<Rightarrow> string option" where
  "native_extractor obj = (case NativeIdentity obj of Inl e \<Rightarrow> None | Inr (key, ro) \<Rightarrow> Some key)"

text \<open>The scan over the items of the list: without a uniqueness requirement the first match is
  returned, otherwise the last one if there is only one.\<close>

definition scan_matches ::
    "bool \<Rightarrow> natural_key_policy \<Rightarrow> descriptor \<Rightarrow> string \<Rightarrow> uobj list \<Rightarrow> go_error + uobj option" where
  "scan_matches native policy desc localKey found =
     (if \<not> native \<and> \<not> RequireUnique policy
      then (case found of [] \<Rightarrow> Inr None | u # us \<Rightarrow> Inr (Some u))
      else if length found > 1 \<and> RequireUnique policy
      then Inl (plain_error (''multiple '' @ d_kind desc @ '' resources have natural key '' @ localKey @
             ''; specify metadata.name '' @ IDLabel policy))
      else if length found > 1
      then Inl (plain_error (''ambiguous native identity '' @ localKey))
      else Inr (case found of [] \<Rightarrow> None | u # us \<Rightarrow> Some (last found)))"

definition findByNaturalKey ::
    "natural_key_registry \<Rightarrow> 's lister option \<Rightarrow> descriptor \<Rightarrow> uobj \<Rightarrow> string \<Rightarrow> nk_cache \<times> 's
      \<Rightarrow> (go_error + uobj option) \<times> (nk_cache \<times> 's)" where
  "findByNaturalKey keys lister desc localObj desiredNativeIdentity st =
     (let gvk = Descriptor_GroupVersionKind desc;
          registered = GetNaturalKeyExtractor keys gvk;
          nativePolicy = (registered = None \<and> HasServerDerivedName gvk)
      in if registered = None \<and> \<not> nativePolicy then (Inr None, st)
         else (let extractor = (case registered of Some f \<Rightarrow> f | None \<Rightarrow> native_extractor) in
               case (if nativePolicy then Some desiredNativeIdentity else extractor localObj) of
                 None \<Rightarrow> (Inr None, st)
               | Some localKey \<Rightarrow>
                   (case cache_list lister desc st of
                      (Inl e, st') \<Rightarrow> (Inl e, st')
                    | (Inr None, st') \<Rightarrow> (Inr None, st')
                    | (Inr (Some remoteList), st') \<Rightarrow>
                        (scan_matches nativePolicy (GetNaturalKeyPolicy keys gvk) desc localKey
                           (filter (\<lambda>u. extractor u = Some localKey) (ul_items remoteList)), st'))))"

section \<open>The client and the request\<close>

text \<open>A push client with its optional interfaces. \<open>pc_cancel\<close> is the cancellation of the context the
  callbacks of a group share.\<close>

record 's push_client =
  pc_create :: "descriptor \<Rightarrow> uobj \<Rightarrow> string list \<Rightarrow> 's \<Rightarrow> (go_error + uobj) \<times> 's"
  pc_update :: "descriptor \<Rightarrow> uobj \<Rightarrow> string list \<Rightarrow> 's \<Rightarrow> (go_error + uobj) \<times> 's"
  pc_get :: "descriptor \<Rightarrow> string \<Rightarrow> 's \<Rightarrow> (go_error + uobj) \<times> 's"
  pc_list :: "'s lister option"
  pc_envelope :: "(descriptor \<Rightarrow> uobj \<Rightarrow> string list \<Rightarrow> 's \<Rightarrow> (bool \<times> go_error option) \<times> 's) option"
  pc_preflight :: "(push_selection list \<Rightarrow> 's \<Rightarrow> (go_error + 's push_check option) \<times> 's) option"
  pc_cancel :: "'s \<Rightarrow> 's"

record 's push_request =
  IncludeSuccesses :: bool
  Resources :: resources
  Processors :: "go_error processor list"
  StopOnError :: bool
  DryRun :: bool
  preflight :: "'s push_check option"
  IncludeManaged :: bool

text \<open>The iteration orders of one push.\<close>

record push_schedule =
  sc_folders :: "nat list"
  sc_links :: "nat list"
  sc_nodes :: "nat list"
  sc_level :: "nat \<Rightarrow> nat list"
  sc_rest :: "nat list"
  sc_items :: "nat list"
  sc_groups :: "nat list"

record 's push_state =
  ps_world :: 's
  ps_cache :: nk_cache
  ps_summary :: summary

definition on_summary :: "(summary \<Rightarrow> summary) \<Rightarrow> 's push_state \<Rightarrow> 's push_state" where
  "on_summary f st = st\<lparr>ps_summary := f (ps_summary st)\<rparr>"

section \<open>Upserting one resource\<close>

definition preserveManagerIdentity :: "platform \<Rightarrow> uobj \<Rightarrow> uobj \<Rightarrow> uobj" where
  "preserveManagerIdentity pf outgoing existing =
     (if annotation outgoing AnnoKeyManagerKind \<noteq> pf_kubectl pf \<or>
         annotation outgoing AnnoKeyManagerIdentity = [] \<or>
         annotation existing AnnoKeyManagerKind \<noteq> pf_kubectl pf \<or>
         annotation existing AnnoKeyManagerIdentity = []
      then outgoing
      else outgoing\<lparr>u_annotations :=
             AList.update AnnoKeyManagerIdentity (annotation existing AnnoKeyManagerIdentity)
               (u_annotations outgoing)\<rparr>)"

definition update_target :: "platform \<Rightarrow> uobj \<Rightarrow> uobj \<Rightarrow> uobj" where
  "update_target pf obj existing =
     preserveManagerIdentity pf
       (set_meta ''resourceVersion'' (GetResourceVersion existing) (set_meta ''name'' (GetName existing) obj))
       existing"

definition read_only_destination :: "uobj \<Rightarrow> go_error" where
  "read_only_destination existing =
     (case ReadOnlyNativeError existing of (kind, title, guidance) \<Rightarrow>
        plain_error (''cannot update the destination resource: '' @ kind @ '' '' @ title @ '' is read-only: '' @
          guidance @ ''; choose a different title for the local resource''))"

text \<open>The update of an existing object, which both branches of \<^verbatim>\<open>upsertResource\<close> share.\<close>

definition update_existing ::
    "'s push_client \<Rightarrow> platform \<Rightarrow> descriptor \<Rightarrow> bool \<Rightarrow> string list \<Rightarrow> uobj \<Rightarrow> uobj \<Rightarrow> nk_cache \<times> 's
      \<Rightarrow> (go_error + uobj option \<times> string) \<times> (nk_cache \<times> 's)" where
  "update_existing c pf desc nativePolicy dryRunOpts obj existing st =
     (if nativePolicy \<and> IsReadOnlyNative existing then (Inl (read_only_destination existing), st)
      else (case pc_update c desc (update_target pf obj existing) dryRunOpts (snd st) of
              (Inl e, w) \<Rightarrow> (Inl e, (fst st, w))
            | (Inr applied, w) \<Rightarrow> (Inr (Some applied, ''updated''), (fst st, w))))"

definition probe_existing ::
    "'s push_client \<Rightarrow> descriptor \<Rightarrow> string \<Rightarrow> bool \<Rightarrow> string \<Rightarrow> nk_cache \<times> 's
      \<Rightarrow> (go_error + uobj) \<times> (nk_cache \<times> 's)" where
  "probe_existing c desc name nativePolicy desiredIdentity st =
     (case (if name \<noteq> [] then (case pc_get c desc name (snd st) of (r, w) \<Rightarrow> (r, (fst st, w)))
            else (Inl (api_not_found name), st)) of
        (Inl e, st') \<Rightarrow> (Inl e, st')
      | (Inr existing, st') \<Rightarrow>
          (if nativePolicy \<and> native_extractor existing \<noteq> Some desiredIdentity
           then (Inl (api_not_found name), st') else (Inr existing, st')))"

definition create_new ::
    "'s push_client \<Rightarrow> descriptor \<Rightarrow> bool \<Rightarrow> string list \<Rightarrow> uobj \<Rightarrow> nk_cache \<times> 's
      \<Rightarrow> (go_error + uobj option \<times> string) \<times> (nk_cache \<times> 's)" where
  "create_new c desc nativePolicy dryRunOpts obj st =
     (case pc_create c desc (if nativePolicy then PrepareNativeCreate obj else obj) dryRunOpts (snd st) of
        (Inl e, w) \<Rightarrow> (Inl e, (fst st, w))
      | (Inr applied, w) \<Rightarrow> (Inr (Some applied, ''created''), (fst st, w)))"

definition upsert_probed ::
    "'f globals \<Rightarrow> 's push_client \<Rightarrow> descriptor \<Rightarrow> string \<Rightarrow> uobj \<Rightarrow> bool \<Rightarrow> string \<Rightarrow> string list \<Rightarrow> nk_cache \<times> 's
      \<Rightarrow> (go_error + uobj option \<times> string) \<times> (nk_cache \<times> 's)" where
  "upsert_probed g c desc name obj nativePolicy desiredIdentity dryRunOpts st =
     (case probe_existing c desc name nativePolicy desiredIdentity st of
        (Inr existing, st') \<Rightarrow> update_existing c (gl_platform g) desc nativePolicy dryRunOpts obj existing st'
      | (Inl e, st') \<Rightarrow>
          (if \<not> e_not_found e then (Inl e, st')
           else (case findByNaturalKey (gl_keys g) (pc_list c) desc obj desiredIdentity st' of
                   (Inl e', st'') \<Rightarrow> (Inl e', st'')
                 | (Inr (Some matched), st'') \<Rightarrow>
                     update_existing c (gl_platform g) desc nativePolicy dryRunOpts obj matched st''
                 | (Inr None, st'') \<Rightarrow> create_new c desc nativePolicy dryRunOpts obj st'')))"

definition native_error_text :: "native_error \<Rightarrow> go_error" where
  "native_error_text e = plain_error (case e of
       NoIdentityPolicy gvk \<Rightarrow> ''no native identity policy for '' @ gvk_kind gvk
     | FieldMustBeString field \<Rightarrow> ''spec.'' @ field @ '' must be a non-empty string''
     | KindMustBeKnown \<Rightarrow> ''spec.kind must be grafana or mimir'')"

text \<open>\<^verbatim>\<open>upsertResource\<close> after the envelope hook: the native identity, then the probes.\<close>

definition upsert_generic ::
    "'f globals \<Rightarrow> 's push_client \<Rightarrow> descriptor \<Rightarrow> string \<Rightarrow> uobj \<Rightarrow> string list \<Rightarrow> nk_cache \<times> 's
      \<Rightarrow> (go_error + uobj option \<times> string) \<times> (nk_cache \<times> 's)" where
  "upsert_generic g c desc name obj dryRunOpts st =
     (let nativePolicy = HasServerDerivedName (Descriptor_GroupVersionKind desc) in
      if nativePolicy
      then (case NativeIdentity obj of
              Inl e \<Rightarrow> (Inl (native_error_text e), st)
            | Inr (desiredIdentity, ro) \<Rightarrow>
                upsert_probed g c desc name obj nativePolicy desiredIdentity dryRunOpts st)
      else upsert_probed g c desc name obj nativePolicy [] dryRunOpts st)"

definition upsertResource ::
    "'f globals \<Rightarrow> 's push_client \<Rightarrow> descriptor \<Rightarrow> string \<Rightarrow> resource \<Rightarrow> bool \<Rightarrow> nk_cache \<times> 's
      \<Rightarrow> (go_error + uobj option \<times> string) \<times> (nk_cache \<times> 's)" where
  "upsertResource g c desc name src dryRun st =
     (let dryRunOpts = (if dryRun then [''All''] else []); obj = res_obj src in
      case pc_envelope c of
        None \<Rightarrow> upsert_generic g c desc name obj dryRunOpts st
      | Some push \<Rightarrow>
          (case push desc obj dryRunOpts (snd st) of
             ((True, Some e), w) \<Rightarrow> (Inl e, (fst st, w))
           | ((True, None), w) \<Rightarrow> (Inr (None, []), (fst st, w))
           | ((False, err), w) \<Rightarrow> upsert_generic g c desc name obj dryRunOpts (fst st, w)))"

section \<open>Pushing one resource\<close>

definition fail_push :: "'s push_request \<Rightarrow> resource \<Rightarrow> go_error \<Rightarrow> 's push_state \<Rightarrow> go_error option \<times> 's push_state" where
  "fail_push req res err st =
     (if StopOnError req then Some err else None, on_summary (RecordFailure (Some res) err) st)"

definition checkPushPreflight ::
    "'s push_check option \<Rightarrow> resource \<Rightarrow> 's \<Rightarrow> (go_error option \<times> resource) \<times> 's" where
  "checkPushPreflight check res w =
     (case check of None \<Rightarrow> ((None, res), w) | Some check \<Rightarrow> check res w)"

definition applied_receipt ::
    "'s push_request \<Rightarrow> descriptor \<Rightarrow> string \<Rightarrow> resource \<Rightarrow> uobj option \<Rightarrow> string \<Rightarrow> summary \<Rightarrow> summary" where
  "applied_receipt req desc name res applied action s =
     (case applied of
        None \<Rightarrow> s
      | Some u \<Rightarrow>
          if IncludeSuccesses req \<and> \<not> DryRun req \<and> GetName u \<noteq> []
          then RecordApplied \<lparr>os_requested = name, os_source = res_source res, os_action = action,
                 os_kind = d_kind desc, os_name = GetName u, os_uid = GetUID u,
                 os_namespace = GetNamespace u\<rparr> s
          else s)"

definition upsert_and_record ::
    "'f globals \<Rightarrow> 's push_client \<Rightarrow> 's push_request \<Rightarrow> descriptor \<Rightarrow> string \<Rightarrow> resource \<Rightarrow> 's push_state
      \<Rightarrow> go_error option \<times> 's push_state" where
  "upsert_and_record g c req desc name res st =
     (case upsertResource g c desc name res (DryRun req) (ps_cache st, ps_world st) of
        (Inl err, (cache, w)) \<Rightarrow>
          (let st1 = st\<lparr>ps_cache := cache, ps_world := w\<rparr>;
               st2 = (case e_warnings err of None \<Rightarrow> st1 | Some ws \<Rightarrow> on_summary (RecordWarnings ws) st1)
           in if e_dry_run_unverified err then (None, on_summary (RecordSkipped ''not server-verified'') st2)
              else fail_push req res err st2)
      | (Inr (applied, action), (cache, w)) \<Rightarrow>
          (None, on_summary (\<lambda>s. applied_receipt req desc name res applied action (RecordSuccess s))
                   (st\<lparr>ps_cache := cache, ps_world := w\<rparr>)))"

text \<open>The last steps of \<^verbatim>\<open>pushSingleResource\<close>, for a processed resource: the mutation policy
  of the kind, the preflight and the upsert.\<close>

definition push_checked ::
    "'f globals \<Rightarrow> 's push_client \<Rightarrow> 's push_request \<Rightarrow> descriptor \<Rightarrow> string \<Rightarrow> resource \<Rightarrow> 's push_state
      \<Rightarrow> go_error option \<times> 's push_state" where
  "push_checked g c req desc name res st =
     (case CheckMutation (gl_gvks g) (gl_regs g) desc ''push'' of
        Some err \<Rightarrow> fail_push req res err st
      | None \<Rightarrow>
          (case checkPushPreflight (preflight req) res (ps_world st) of
             ((Some err, res2), w) \<Rightarrow> fail_push req res2 err (st\<lparr>ps_world := w\<rparr>)
           | ((None, res2), w) \<Rightarrow> upsert_and_record g c req desc name res2 (st\<lparr>ps_world := w\<rparr>)))"

definition pushSingleResource ::
    "'f globals \<Rightarrow> 's push_client \<Rightarrow> (group_version_kind \<times> descriptor) list \<Rightarrow> 's push_request \<Rightarrow> resource
      \<Rightarrow> 's push_state \<Rightarrow> go_error option \<times> 's push_state" where
  "pushSingleResource g c supported req res st =
     (let name = res_name res; gvk = NormalizeGVK (gl_gvks g) (res_gvk res) in
      case map_of supported gvk of
        None \<Rightarrow> fail_push req res (plain_error (''resource not supported by the API: '' @ name)) st
      | Some desc \<Rightarrow>
          (case run_processors (Processors req) res of
             (Some err, res1) \<Rightarrow> fail_push req res1 err st
           | (None, res1) \<Rightarrow>
               if IsReadOnlyNative (res_obj res1) then (None, on_summary (RecordSkipped ''read-only'') st)
               else if \<not> IsManaged (gl_platform g) res1 \<and> \<not> IncludeManaged req then (None, st)
               else push_checked g c req desc name res1 st))"

section \<open>Pushing folders, then the rest\<close>

definition cancel_push :: "'s push_client \<Rightarrow> 's push_state \<Rightarrow> 's push_state" where
  "cancel_push c st = st\<lparr>ps_world := pc_cancel c (ps_world st)\<rparr>"

text \<open>The levels one after the other, each as a group of concurrent pushes.\<close>

fun push_levels ::
    "('s push_state \<Rightarrow> 's push_state) \<Rightarrow> (resource \<Rightarrow> 's push_state \<Rightarrow> go_error option \<times> 's push_state)
      \<Rightarrow> (nat \<Rightarrow> nat list) \<Rightarrow> nat \<Rightarrow> resource list list \<Rightarrow> 's push_state \<Rightarrow> go_error option \<times> 's push_state" where
  "push_levels cancel push sched i [] st = (None, st)"
| "push_levels cancel push sched i (level # levels) st =
     (case ForEachConcurrently (sched i) cancel push (NewResources level) st of
        (Some e, st') \<Rightarrow> (Some e, st')
      | (None, st') \<Rightarrow> push_levels cancel push sched (Suc i) levels st')"

definition collect_folders :: "nat list \<Rightarrow> resources \<Rightarrow> resource list" where
  "collect_folders cs coll =
     snd (ForEach cs (\<lambda>r fs. (None :: unit option, if IsFolder r then fs @ [r] else fs)) coll [])"

definition pushFolders ::
    "'f globals \<Rightarrow> 's push_client \<Rightarrow> push_schedule \<Rightarrow> (group_version_kind \<times> descriptor) list \<Rightarrow> 's push_request
      \<Rightarrow> 's push_state \<Rightarrow> go_error option \<times> 's push_state" where
  "pushFolders g c sched supported req st =
     (case SortFoldersByDependency (sc_links sched) (sc_nodes sched)
             (collect_folders (sc_folders sched) (Resources req)) of
        Some (Inr folderLevels) \<Rightarrow>
          push_levels (cancel_push c) (pushSingleResource g c supported req) (sc_level sched) 0 folderLevels st
      | Some (Inl folder) \<Rightarrow> (Some (plain_error (''folder cycle at '' @ folder)), st)
      | None \<Rightarrow> (Some (plain_error ''out of fuel''), st))"

text \<open>The selections of the preflight: one per kind, in any order.\<close>

fun group_selections ::
    "'f globals \<Rightarrow> (group_version_kind \<times> descriptor) list \<Rightarrow> bool \<Rightarrow> resource list
      \<Rightarrow> (group_version_kind \<times> push_selection) list \<Rightarrow> (group_version_kind \<times> push_selection) list" where
  "group_selections g supported includeManaged [] grouped = grouped"
| "group_selections g supported includeManaged (res # rs) grouped =
     (let gvk = NormalizeGVK (gl_gvks g) (res_gvk res) in
      group_selections g supported includeManaged rs
        (case map_of supported gvk of
           None \<Rightarrow> grouped
         | Some desc \<Rightarrow>
             if \<not> IsManaged (gl_platform g) res \<and> \<not> includeManaged then grouped
             else if CheckMutation (gl_gvks g) (gl_regs g) desc ''push'' \<noteq> None then grouped
             else (let sel = (case map_of grouped gvk of
                                Some sel \<Rightarrow> sel
                              | None \<Rightarrow> \<lparr>pss_descriptor = desc, pss_items = []\<rparr>)
                   in AList.update gvk (sel\<lparr>pss_items := pss_items sel @ [res]\<rparr>) grouped)))"

definition newPushPreflight ::
    "'f globals \<Rightarrow> 's push_client \<Rightarrow> push_schedule \<Rightarrow> (group_version_kind \<times> descriptor) list \<Rightarrow> 's push_request
      \<Rightarrow> 's \<Rightarrow> (go_error + 's push_check option) \<times> 's" where
  "newPushPreflight g c sched supported req w =
     (if DryRun req then (Inr (Some (\<lambda>res w. ((None, res), w))), w)
      else (case pc_preflight c of
              None \<Rightarrow> (Inr (Some (\<lambda>res w. ((None, res), w))), w)
            | Some newPreflight \<Rightarrow>
                newPreflight (map snd (go_range (sc_groups sched)
                  (group_selections g supported (IncludeManaged req) (AsList (sc_items sched) (Resources req)) []))) w))"

definition push_other ::
    "'f globals \<Rightarrow> 's push_client \<Rightarrow> (group_version_kind \<times> descriptor) list \<Rightarrow> 's push_request \<Rightarrow> resource
      \<Rightarrow> 's push_state \<Rightarrow> go_error option \<times> 's push_state" where
  "push_other g c supported req res st =
     (if IsFolder res then (None, st) else pushSingleResource g c supported req res st)"

text \<open>\<^verbatim>\<open>Push\<close>: the summary is part of the final state.\<close>

definition Push ::
    "'f globals \<Rightarrow> 's push_client \<Rightarrow> descriptor list \<Rightarrow> push_schedule \<Rightarrow> 's push_request \<Rightarrow> 's
      \<Rightarrow> go_error option \<times> 's push_state" where
  "Push g c registry sched request w =
     (let supported = supportedDescriptors registry in
      case newPushPreflight g c sched supported request w of
        (Inl e, w1) \<Rightarrow> (Some e, \<lparr>ps_world = w1, ps_cache = [], ps_summary = empty_summary\<rparr>)
      | (Inr check, w1) \<Rightarrow>
          (let req = request\<lparr>preflight := check\<rparr>;
               st = \<lparr>ps_world = w1, ps_cache = [], ps_summary = empty_summary\<rparr>
           in case pushFolders g c sched supported req st of
                (Some e, st') \<Rightarrow> (Some e, st')
              | (None, st') \<Rightarrow>
                  if successCount (ps_summary st') + failedCount (ps_summary st') \<ge> length (Resources req)
                  then (None, st')
                  else ForEachConcurrently (sc_rest sched) (cancel_push c) (push_other g c supported req)
                         (Resources req) st'))"

section \<open>Accounting\<close>

text \<open>Resources a push passes over without an outcome: supported, processed, writable, but managed by
  another tool.\<close>

definition push_ignored ::
    "'f globals \<Rightarrow> (group_version_kind \<times> descriptor) list \<Rightarrow> 's push_request \<Rightarrow> resource \<Rightarrow> bool" where
  "push_ignored g supported req res \<longleftrightarrow>
     map_of supported (NormalizeGVK (gl_gvks g) (res_gvk res)) \<noteq> None \<and>
     (case run_processors (Processors req) res of
        (err, res1) \<Rightarrow> err = None \<and> \<not> IsReadOnlyNative (res_obj res1) \<and>
          \<not> IsManaged (gl_platform g) res1 \<and> \<not> IncludeManaged req)"

lemma ps_on_summary [simp]:
  "ps_summary (on_summary f st) = f (ps_summary st)" "ps_world (on_summary f st) = ps_world st"
  "ps_cache (on_summary f st) = ps_cache st"
  by (simp_all add: on_summary_def)

lemma fail_push_summary [simp]:
  "ps_summary (snd (fail_push req res err st)) = RecordFailure (Some res) err (ps_summary st)"
  "ps_world (snd (fail_push req res err st)) = ps_world st"
  "fst (fail_push req res err st) = (if StopOnError req then Some err else None)"
  by (simp_all add: fail_push_def)

text \<open>What recording an outcome does to a summary, in the cases of a push.\<close>

inductive records :: "nat \<Rightarrow> summary \<Rightarrow> summary \<Rightarrow> bool" where
  nothing: "records 0 s s"
| fail: "records (Suc 0) s (RecordFailure res err s)"
| skip: "records (Suc 0) s (RecordSkipped reason s)"
| warn_fail: "records (Suc 0) s (RecordFailure res err (RecordWarnings ws s))"
| warn_skip: "records (Suc 0) s (RecordSkipped reason (RecordWarnings ws s))"
| success: "records (Suc 0) s (RecordSuccess s)"
| applied: "records (Suc 0) s (RecordApplied receipt (RecordSuccess s))"

lemma applied_receipt_records: "records (Suc 0) s (applied_receipt req desc name res applied action (RecordSuccess s))"
  by (auto simp: applied_receipt_def intro: records.intros split: option.split)

lemma upsert_and_record_records:
  "records (Suc 0) (ps_summary st) (ps_summary (snd (upsert_and_record g c req desc name res st)))"
proof -
  obtain r cache w where r: "upsertResource g c desc name res (DryRun req) (ps_cache st, ps_world st) = (r, (cache, w))"
    by (metis prod.exhaust)
  show ?thesis
  proof (cases r)
    case (Inl err)
    then show ?thesis
      by (cases "e_warnings err") (auto simp: upsert_and_record_def r Let_def intro: records.intros)
  next
    case (Inr x)
    then show ?thesis
      by (cases x) (simp add: upsert_and_record_def r applied_receipt_records)
  qed
qed

lemma push_checked_records:
  "records (Suc 0) (ps_summary st) (ps_summary (snd (push_checked g c req desc name res st)))"
proof -
  have "records (Suc 0) (ps_summary st)
      (ps_summary (snd (upsert_and_record g c req desc name res2 (st\<lparr>ps_world := w\<rparr>))))" for res2 w
    using upsert_and_record_records [of "st\<lparr>ps_world := w\<rparr>"] by simp
  then show ?thesis by (auto simp: push_checked_def records.fail split: option.split prod.split)
qed

lemma pushSingleResource_records:
  "records (if push_ignored g supported req res then 0 else Suc 0)
     (ps_summary st) (ps_summary (snd (pushSingleResource g c supported req res st)))"
proof (cases "map_of supported (NormalizeGVK (gl_gvks g) (res_gvk res))")
  case None
  then show ?thesis
    by (simp add: pushSingleResource_def push_ignored_def records.fail)
next
  case (Some desc)
  obtain err res1 where p: "run_processors (Processors req) res = (err, res1)" by (rule prod.exhaust)
  show ?thesis using Some p
    by (cases err) (auto simp: pushSingleResource_def push_ignored_def push_checked_records intro: records.intros)
qed

lemma records_outcomes: "records n s t \<Longrightarrow> outcomes t = outcomes s + n"
  by (induction rule: records.induct) simp_all

lemma records_ok: "records n s t \<Longrightarrow> summary_ok s \<Longrightarrow> summary_ok t"
  by (induction rule: records.induct) (simp_all add: summary_ok_record)

lemma records_count: "records n s t \<Longrightarrow> successCount t + failedCount t \<le> successCount s + failedCount s + 1"
  by (induction rule: records.induct)
    (simp_all add: RecordSuccess_def RecordSkipped_def RecordFailure_def RecordWarnings_def RecordApplied_def)

lemma push_all_outcomes:
  "outcomes (ps_summary (run_all (pushSingleResource g c supported req) xs st)) =
     outcomes (ps_summary st) + length (filter (\<lambda>r. \<not> push_ignored g supported req r) xs)"
proof (induction xs arbitrary: st)
  case (Cons x xs)
  then show ?case
    using records_outcomes [OF pushSingleResource_records [of g supported req x st c]] by simp
qed simp

lemma push_all_count:
  "successCount (ps_summary (run_all (pushSingleResource g c supported req) xs st)) +
   failedCount (ps_summary (run_all (pushSingleResource g c supported req) xs st))
     \<le> successCount (ps_summary st) + failedCount (ps_summary st) + length xs"
proof (induction xs arbitrary: st)
  case (Cons x xs)
  show ?case
    using Cons.IH [of "snd (pushSingleResource g c supported req x st)"]
      records_count [OF pushSingleResource_records [of g supported req x st c]] by simp
qed simp

text \<open>The bookkeeping invariant is kept by every push, so by every group of pushes.\<close>

interpretation push_books: keeping_step
  "\<lambda>(g, c, supported, req). pushSingleResource g c supported req"
  "\<lambda>(g, c, supported, req). cancel_push c"
  "\<lambda>p s t. summary_ok (ps_summary s) \<longrightarrow> summary_ok (ps_summary t)"
  by unfold_locales (auto simp: cancel_push_def intro: records_ok [OF pushSingleResource_records] split: prod.split)

section \<open>The order of a push\<close>

text \<open>Every folder whose parent is among the given folders comes after it; \<open>seen\<close> are the names of the
  folders before the list.\<close>

fun parents_first :: "resource list \<Rightarrow> string list \<Rightarrow> resource list \<Rightarrow> bool" where
  "parents_first folders seen [] \<longleftrightarrow> True"
| "parents_first folders seen (f # fs) \<longleftrightarrow>
     (parent_in folders f \<longrightarrow> GetFolder f \<in> set seen) \<and> parents_first folders (res_name f # seen) fs"

text \<open>The orders a push may take: the folders, parents before children, then everything else.\<close>

definition push_order :: "resources \<Rightarrow> resource list \<Rightarrow> bool" where
  "push_order coll order \<longleftrightarrow>
     mset order = mset (map snd coll) \<and>
     (let fs = takeWhile IsFolder order in
      parents_first fs [] fs \<and> list_all (\<lambda>r. \<not> IsFolder r) (dropWhile IsFolder order))"

lemma parents_first_append:
  "parents_first all seen (xs @ ys) \<longleftrightarrow> parents_first all seen xs \<and> parents_first all (rev (map res_name xs) @ seen) ys"
  by (induction xs arbitrary: seen) auto

lemma parents_first_seen:
  "(\<And>f. f \<in> set xs \<Longrightarrow> parent_in all f \<Longrightarrow> GetFolder f \<in> set seen) \<Longrightarrow> parents_first all seen xs"
  by (induction xs arbitrary: seen) auto

lemma parent_in_set: "set xs = set ys \<Longrightarrow> parent_in xs = parent_in ys"
  by (simp add: parent_in_def fun_eq_iff)

lemma parents_first_set:
  assumes "set all = set all'"
  shows "parents_first all seen xs = parents_first all' seen xs"
  by (induction xs arbitrary: seen) (simp_all add: parent_in_set [OF assms])

lemma NewResources_distinct: "distinct (map Ref rs) \<Longrightarrow> map snd (NewResources rs) = rs"
  using fold_update_distinct [of Ref rs "\<lambda>r. r"] by (simp add: NewResources_def Add_def Add1_def [abs_def] comp_def)

text \<open>The order of the folders: level by level, each level in the order of its schedule.\<close>

fun level_order :: "(nat \<Rightarrow> nat list) \<Rightarrow> nat \<Rightarrow> resource list list \<Rightarrow> resource list" where
  "level_order sched i [] = []"
| "level_order sched i (l # ls) = map snd (go_range (sched i) (NewResources l)) @ level_order sched (Suc i) ls"

lemma mset_level: "distinct (map Ref l) \<Longrightarrow> mset (map snd (go_range cs (NewResources l))) = mset l"
  by (metis NewResources_distinct mset_go_range mset_map)

lemma mset_level_order:
  "distinct (map Ref (concat ls)) \<Longrightarrow> mset (level_order sched i ls) = mset (concat ls)"
  by (induction ls arbitrary: i) (simp_all add: mset_level del: mset_map)

lemma push_levels_run_all:
  "push_levels cancel push sched i ls st = (None, st') \<Longrightarrow> st' = run_all push (level_order sched i ls) st"
proof (induction ls arbitrary: i st)
  case (Cons l ls)
  obtain e t where g: "ForEachConcurrently (sched i) cancel push (NewResources l) st = (e, t)" by (rule prod.exhaust)
  then have e: "e = None" using Cons.prems by (cases e) auto
  have "t = run_all push (map snd (go_range (sched i) (NewResources l))) st"
    using g unfolding e ForEachConcurrently_def by (rule run_group_run_all)
  then show ?case using Cons.IH [of "Suc i" t] Cons.prems g e by simp
qed simp

lemma level_order_parents:
  assumes "\<forall>i < length ls. \<forall>f \<in> set (ls ! i). parent_in all f \<longrightarrow> GetFolder f \<in> res_name ` set ((prev # ls) ! i)"
    and "res_name ` set prev \<subseteq> set seen" and "distinct (map Ref (concat ls))"
  shows "parents_first all seen (level_order sched k ls)"
  using assms
proof (induction ls arbitrary: prev seen k)
  case (Cons l ls)
  let ?l = "map snd (go_range (sched k) (NewResources l))"
  have l: "set ?l = set l" using mset_level [of l "sched k"] Cons.prems(3) by (metis concat.simps(2) distinct_append map_append mset_eq_setD)
  have "parents_first all seen ?l"
  proof (rule parents_first_seen)
    fix f
    assume "f \<in> set ?l" "parent_in all f"
    then have "GetFolder f \<in> res_name ` set prev"
      using Cons.prems(1) [THEN spec [of _ 0]] l by (metis length_greater_0_conv list.distinct(1) nth_Cons_0)
    then show "GetFolder f \<in> set seen" using Cons.prems(2) by blast
  qed
  moreover have "parents_first all (rev (map res_name ?l) @ seen) (level_order sched (Suc k) ls)"
  proof (rule Cons.IH [of l])
    show "\<forall>i < length ls. \<forall>f \<in> set (ls ! i). parent_in all f \<longrightarrow> GetFolder f \<in> res_name ` set ((l # ls) ! i)"
    proof (intro allI impI ballI)
      fix i f
      assume "i < length ls" "f \<in> set (ls ! i)" "parent_in all f"
      then show "GetFolder f \<in> res_name ` set ((l # ls) ! i)"
        using Cons.prems(1) [THEN spec [of _ "Suc i"]] by simp
    qed
    show "res_name ` set l \<subseteq> set (rev (map res_name ?l) @ seen)" using l by (simp add: image_image [symmetric])
    show "distinct (map Ref (concat ls))" using Cons.prems(3) by simp
  qed
  ultimately show ?case by (simp add: parents_first_append)
qed simp

lemma collect_folders_filter: "collect_folders cs coll = filter IsFolder (map snd (go_range cs coll))"
proof -
  have "snd (for_each (\<lambda>r fs. (None :: unit option, if IsFolder r then fs @ [r] else fs)) xs acc) = acc @ filter IsFolder xs" for xs acc
    by (induction xs arbitrary: acc) auto
  then show ?thesis by (simp add: collect_folders_def ForEach_def)
qed

lemma takeWhile_all_none:
  "list_all P xs \<Longrightarrow> list_all (\<lambda>x. \<not> P x) ys \<Longrightarrow> takeWhile P (xs @ ys) = xs \<and> dropWhile P (xs @ ys) = ys"
  by (cases ys) (auto simp: list_all_iff takeWhile_append dropWhile_append)

lemma pushFolders_order:
  assumes refs: "distinct (map (\<lambda>e. Ref (snd e)) (Resources req))"
    and names: "distinct (map res_name (filter IsFolder (map snd (Resources req))))"
    and run: "pushFolders g c sched supported req st = (None, st')"
  shows "\<exists>fs. mset fs = mset (filter IsFolder (map snd (Resources req))) \<and> parents_first fs [] fs \<and>
    st' = run_all (pushSingleResource g c supported req) fs st"
proof -
  let ?fs = "collect_folders (sc_folders sched) (Resources req)"
  have m: "mset ?fs = mset (filter IsFolder (map snd (Resources req)))"
    by (simp add: collect_folders_filter mset_filter mset_map [symmetric] del: mset_map)
      (metis mset_filter mset_go_range mset_map)
  obtain res where res: "SortFoldersByDependency (sc_links sched) (sc_nodes sched) ?fs = Some res"
      and lv: "case res of Inl e \<Rightarrow> \<not> acyclic (folder_edges ?fs)
       | Inr levels \<Rightarrow>
           acyclic (folder_edges ?fs) \<and> mset (concat levels) = mset (folders_of (folder_map ?fs)) \<and>
           (\<forall>i < length levels. \<forall>f \<in> set (levels ! i).
              if parent_in ?fs f then 0 < i \<and> GetFolder f \<in> res_name ` set (levels ! (i - 1)) else i = 0)"
    using SortFolders_spec [of "sc_links sched" "sc_nodes sched" ?fs] by blast
  obtain levels where levels: "res = Inr levels"
    using run res by (cases res) (auto simp: pushFolders_def)
  have run': "push_levels (cancel_push c) (pushSingleResource g c supported req) (sc_level sched) 0 levels st = (None, st')"
    using run res levels by (simp add: pushFolders_def)
  have dn: "distinct (map res_name ?fs)" using names m by (metis mset_eq_imp_distinct_iff mset_map)
  then have mc: "mset (concat levels) = mset ?fs" using lv levels by (simp add: folders_of_distinct)
  have "distinct (map Ref (map snd (Resources req)))" using refs by (simp add: comp_def)
  then have "distinct (map Ref (filter IsFolder (map snd (Resources req))))" by (rule distinct_map_filter)
  then have dr: "distinct (map Ref (concat levels))" using mc m by (metis mset_eq_imp_distinct_iff mset_map)
  let ?order = "level_order (sc_level sched) 0 levels"
  have mo: "mset ?order = mset ?fs" using mset_level_order [OF dr] mc by simp
  have par: "\<forall>i < length levels. \<forall>f \<in> set (levels ! i).
      parent_in ?fs f \<longrightarrow> GetFolder f \<in> res_name ` set (([] # levels) ! i)"
  proof (intro allI impI ballI)
    fix i f
    assume i: "i < length levels" "f \<in> set (levels ! i)" "parent_in ?fs f"
    have "\<forall>i < length levels. \<forall>f \<in> set (levels ! i).
        if parent_in ?fs f then 0 < i \<and> GetFolder f \<in> res_name ` set (levels ! (i - 1)) else i = 0"
      using lv unfolding levels sum.case by (elim conjE)
    then have "if parent_in ?fs f then 0 < i \<and> GetFolder f \<in> res_name ` set (levels ! (i - 1)) else i = 0"
      using i(1,2) by blast
    then have "0 < i \<and> GetFolder f \<in> res_name ` set (levels ! (i - 1))" by (simp only: i(3) if_True)
    then show "GetFolder f \<in> res_name ` set (([] # levels) ! i)" by (cases i) simp_all
  qed
  have "parents_first ?fs [] ?order" by (rule level_order_parents [OF par _ dr]) simp
  then have "parents_first ?order [] ?order"
    using parents_first_set [OF mset_eq_setD [OF mo]] by simp
  then show ?thesis using push_levels_run_all [OF run'] mo m by metis
qed

lemma Push_run_all:
  assumes refs: "distinct (map (\<lambda>e. Ref (snd e)) (Resources request))"
    and names: "distinct (map res_name (filter IsFolder (map snd (Resources request))))"
    and run: "Push g c registry sched request w = (None, st')"
  shows "\<exists>check w1 order.
    newPushPreflight g c sched (supportedDescriptors registry) request w = (Inr check, w1) \<and>
    push_order (Resources request) order \<and>
    st' = run_all (pushSingleResource g c (supportedDescriptors registry) (request\<lparr>preflight := check\<rparr>)) order
      \<lparr>ps_world = w1, ps_cache = [], ps_summary = empty_summary\<rparr>"
proof -
  let ?sup = "supportedDescriptors registry" and ?coll = "map snd (Resources request)"
  obtain pre w1 where pre: "newPushPreflight g c sched ?sup request w = (pre, w1)" by (rule prod.exhaust)
  obtain check where check: "pre = Inr check" using run pre by (cases pre) (simp_all add: Push_def Let_def)
  let ?req = "request\<lparr>preflight := check\<rparr>" and ?st = "\<lparr>ps_world = w1, ps_cache = [], ps_summary = empty_summary\<rparr>"
  let ?push = "pushSingleResource g c ?sup ?req"
  obtain e st1 where folders: "pushFolders g c sched ?sup ?req ?st = (e, st1)" by (rule prod.exhaust)
  have "e = None" using run pre check folders by (cases e) (simp_all add: Push_def Let_def)
  with folders obtain fs where fs: "mset fs = mset (filter IsFolder ?coll)" "parents_first fs [] fs"
      "st1 = run_all ?push fs ?st"
    using pushFolders_order [of ?req g c sched ?sup ?st st1] refs names by auto
  have isf: "list_all IsFolder fs" using mset_eq_setD [OF fs(1)] by (auto simp: list_all_iff)
  have order: "push_order (Resources request) (fs @ rest)" if "mset rest = mset (filter (\<lambda>r. \<not> IsFolder r) ?coll)" for rest
  proof -
    have nf: "list_all (\<lambda>r. \<not> IsFolder r) rest" using mset_eq_setD [OF that] by (auto simp: list_all_iff)
    have "mset (fs @ rest) = mset (filter IsFolder ?coll) + mset (filter (\<lambda>r. \<not> IsFolder r) ?coll)"
      unfolding mset_append fs(1) that ..
    also have "\<dots> = mset ?coll" by (simp add: mset_filter multiset_partition [symmetric] del: mset_map)
    finally show ?thesis using takeWhile_all_none [OF isf nf] nf fs(2) by (simp add: push_order_def Let_def del: mset_map)
  qed
  show ?thesis
  proof (cases "successCount (ps_summary st1) + failedCount (ps_summary st1) \<ge> length (Resources request)")
    case True
    then have "st' = st1" using run pre check folders \<open>e = None\<close> by (simp add: Push_def Let_def)
    have "length (Resources request) \<le> length fs"
      using True push_all_count [of g c ?sup ?req fs ?st] fs(3) by (simp add: empty_summary_def)
    also have "length fs = length (filter IsFolder ?coll)" using fs(1) by (rule mset_eq_length)
    finally have "length (filter (\<lambda>r. \<not> IsFolder r) ?coll) = 0"
      using sum_length_filter_compl [of IsFolder ?coll] length_map [of snd "Resources request"] by linarith
    then have "filter (\<lambda>r. \<not> IsFolder r) ?coll = []" by (simp only: length_0_conv)
    then show ?thesis using order [of "[]"] pre check fs(3) \<open>st' = st1\<close> by auto
  next
    case False
    let ?perm = "map snd (go_range (sc_rest sched) (Resources request))"
    have "run_group (cancel_push c) (push_other g c ?sup ?req) None ?perm st1 = (None, st')"
      using False run pre check folders \<open>e = None\<close> by (simp add: Push_def Let_def ForEachConcurrently_def)
    then have "st' = run_all (push_other g c ?sup ?req) ?perm st1" by (rule run_group_run_all)
    also have "\<dots> = run_all ?push (filter (\<lambda>r. \<not> IsFolder r) ?perm) st1"
      by (rule run_all_filter) (simp_all add: push_other_def)
    finally have "st' = run_all ?push (fs @ filter (\<lambda>r. \<not> IsFolder r) ?perm) ?st" using fs(3) by simp
    moreover have "mset (filter (\<lambda>r. \<not> IsFolder r) ?perm) = mset (filter (\<lambda>r. \<not> IsFolder r) ?coll)"
      by (metis mset_filter mset_go_range mset_map)
    ultimately show ?thesis using order pre check by blast
  qed
qed

text \<open>C25. A push without an error is one pass over its resources, whatever the iteration orders and the
  interleaving: the state it ends in is the one after pushing every resource once, one after the
  other, first the folders, each after its parent, and then all other resources. The resources are
  taken to have different references, and the folders different names: of two folders with one name only
  one is pushed.\<close>

theorem Push_order:
  assumes refs: "distinct (map (\<lambda>e. Ref (snd e)) (Resources request))"
    and names: "distinct (map res_name (filter IsFolder (map snd (Resources request))))"
    and run: "Push g c registry sched request w = (None, st')"
  shows "\<exists>check w1 order.
    newPushPreflight g c sched (supportedDescriptors registry) request w = (Inr check, w1) \<and>
    push_order (Resources request) order \<and>
    st' = run_all (pushSingleResource g c (supportedDescriptors registry) (request\<lparr>preflight := check\<rparr>)) order
      \<lparr>ps_world = w1, ps_cache = [], ps_summary = empty_summary\<rparr>"
  by (rule Push_run_all [OF refs names run])

text \<open>C26. Every resource is accounted for: after a push without an error the summary holds exactly one
  outcome (success, failure or skip) for each resource, except those another tool manages, which are
  passed over silently; and its counters agree with its lists. The resources are taken to have different
  references, and the folders different names: of two folders with one name only one is pushed.\<close>

theorem Push_accounting:
  assumes refs: "distinct (map (\<lambda>e. Ref (snd e)) (Resources request))"
    and names: "distinct (map res_name (filter IsFolder (map snd (Resources request))))"
    and run: "Push g c registry sched request w = (None, st')"
  shows "outcomes (ps_summary st') =
      length (filter (\<lambda>e. \<not> push_ignored g (supportedDescriptors registry) request (snd e)) (Resources request)) \<and>
    summary_ok (ps_summary st')"
proof -
  let ?sup = "supportedDescriptors registry"
  have ign: "push_ignored g ?sup (request\<lparr>preflight := check\<rparr>) = push_ignored g ?sup request" for check
    by (simp add: push_ignored_def fun_eq_iff)
  obtain check w1 order where o: "push_order (Resources request) order"
      "st' = run_all (pushSingleResource g c ?sup (request\<lparr>preflight := check\<rparr>)) order
         \<lparr>ps_world = w1, ps_cache = [], ps_summary = empty_summary\<rparr>"
    using Push_run_all [OF refs names run] by blast
  have "mset order = mset (map snd (Resources request))" using o(1) by (simp add: push_order_def)
  then have "length (filter P order) = length (filter P (map snd (Resources request)))" for P
    by (metis mset_filter size_mset)
  then have "length (filter P order) = length (filter (\<lambda>e. P (snd e)) (Resources request))" for P
    by (simp add: filter_map comp_def)
  moreover have "summary_ok (ps_summary st')"
    using push_books.run_all_inv [of _ "(g, c, ?sup, request\<lparr>preflight := check\<rparr>)" order] o(2)
    by (simp add: summary_ok_empty)
  ultimately show ?thesis by (simp add: o(2) push_all_outcomes ign)
qed

lemma records_failures: "records n s t \<Longrightarrow> set (failures s) \<subseteq> set (failures t)"
  by (induction rule: records.induct)
    (auto simp: RecordSuccess_def RecordSkipped_def RecordFailure_def RecordWarnings_def RecordApplied_def)

interpretation push_failures: keeping_step
  "\<lambda>(g, c, supported, req). pushSingleResource g c supported req"
  "\<lambda>(g, c, supported, req). cancel_push c"
  "\<lambda>p s t. set (failures (ps_summary s)) \<subseteq> set (failures (ps_summary t))"
  by unfold_locales
    (auto simp: cancel_push_def dest: subsetD [OF records_failures [OF pushSingleResource_records]] split: prod.splits)

definition failed_with :: "go_error \<Rightarrow> 's push_state \<Rightarrow> bool" where
  "failed_with e st \<longleftrightarrow> e \<in> of_error ` set (failures (ps_summary st))"

lemma fail_push_error: "fail_push req res err st = (Some e, st') \<Longrightarrow> StopOnError req \<and> failed_with e st'"
  by (auto simp: fail_push_def failed_with_def RecordFailure_def split: if_splits)

lemma upsert_and_record_error:
  assumes "upsert_and_record g c req desc name res st = (Some e, st')"
  shows "StopOnError req \<and> failed_with e st'"
proof -
  obtain r cache w where r: "upsertResource g c desc name res (DryRun req) (ps_cache st, ps_world st) = (r, (cache, w))"
    by (metis prod.exhaust)
  then obtain err where err: "r = Inl err" using assms by (cases r) (auto simp: upsert_and_record_def)
  show ?thesis using assms unfolding upsert_and_record_def r err
    by (auto simp: Let_def split: if_splits dest: fail_push_error)
qed

lemma push_checked_error:
  assumes "push_checked g c req desc name res st = (Some e, st')"
  shows "StopOnError req \<and> failed_with e st'"
proof -
  obtain perr res2 w where c: "checkPushPreflight (preflight req) res (ps_world st) = ((perr, res2), w)"
    by (metis prod.exhaust)
  show ?thesis using assms c
    by (cases perr) (auto simp: push_checked_def split: option.splits dest: fail_push_error upsert_and_record_error)
qed

lemma pushSingleResource_error:
  assumes "pushSingleResource g c supported req res st = (Some e, st')"
  shows "StopOnError req \<and> failed_with e st'"
proof (cases "map_of supported (NormalizeGVK (gl_gvks g) (res_gvk res))")
  case None
  then show ?thesis using assms by (auto simp: pushSingleResource_def dest: fail_push_error)
next
  case (Some desc)
  obtain err res1 where p: "run_processors (Processors req) res = (err, res1)" by (rule prod.exhaust)
  show ?thesis using assms Some p
    by (cases err) (auto simp: pushSingleResource_def split: if_splits dest: fail_push_error push_checked_error)
qed

lemma push_group_error:
  assumes "run_group (cancel_push c) (pushSingleResource g c supported req) None xs st = (Some e, st')"
  shows "StopOnError req \<and> failed_with e st'"
proof -
  obtain x t u where u: "pushSingleResource g c supported req x t = (Some e, u)"
      "set (failures (ps_summary u)) \<subseteq> set (failures (ps_summary st'))"
    using push_failures.group_error [of "(g, c, supported, req)" xs st e st'] assms by auto
  show ?thesis using pushSingleResource_error [OF u(1)] u(2) unfolding failed_with_def by blast
qed

lemma run_group_skip:
  "(\<And>x s. \<not> P x \<Longrightarrow> f x s = (None, s)) \<Longrightarrow> (\<And>x s. P x \<Longrightarrow> f x s = g x s) \<Longrightarrow>
     run_group cancel f err xs s = run_group cancel g err (filter P xs) s"
  by (induction xs arbitrary: s err) (auto split: prod.split option.split)

lemma push_levels_error:
  assumes "push_levels (cancel_push c) (pushSingleResource g c supported req) sched i ls st = (Some e, st')"
  shows "StopOnError req \<and> failed_with e st'"
  using assms
proof (induction ls arbitrary: i st)
  case (Cons l ls)
  obtain r t where r: "ForEachConcurrently (sched i) (cancel_push c) (pushSingleResource g c supported req) (NewResources l) st = (r, t)"
    by (rule prod.exhaust)
  show ?case
  proof (cases r)
    case None
    then show ?thesis using Cons r by simp
  next
    case (Some e')
    then show ?thesis using Cons.prems r by (auto simp: ForEachConcurrently_def dest: push_group_error)
  qed
qed simp

text \<open>C27. A push fails only for three reasons. Either the preflight could not be built, or the folders
  form a cycle, and then nothing was pushed and the summary is empty; or the request asked to stop
  at errors, and then the error returned is among the failures of the summary. In particular, a push
  that does not stop at errors reports what goes wrong with single resources only in its summary.\<close>

theorem Push_errors:
  assumes "Push g c registry sched request w = (Some e, st')"
  shows "case newPushPreflight g c sched (supportedDescriptors registry) request w of
      (Inl e', w1) \<Rightarrow> e = e' \<and> st' = \<lparr>ps_world = w1, ps_cache = [], ps_summary = empty_summary\<rparr>
    | (Inr check, w1) \<Rightarrow>
        (if acyclic (folder_edges (collect_folders (sc_folders sched) (Resources request)))
         then StopOnError request \<and> e \<in> of_error ` set (failures (ps_summary st'))
         else st' = \<lparr>ps_world = w1, ps_cache = [], ps_summary = empty_summary\<rparr>)"
proof -
  let ?sup = "supportedDescriptors registry" and ?fs = "collect_folders (sc_folders sched) (Resources request)"
  obtain pre w1 where pre: "newPushPreflight g c sched ?sup request w = (pre, w1)" by (rule prod.exhaust)
  show ?thesis
  proof (cases pre)
    case (Inl e')
    then show ?thesis using assms pre by (simp add: Push_def)
  next
    case (Inr check)
    let ?req = "request\<lparr>preflight := check\<rparr>" and ?st = "\<lparr>ps_world = w1, ps_cache = [], ps_summary = empty_summary\<rparr>"
    obtain r st1 where folders: "pushFolders g c sched ?sup ?req ?st = (r, st1)" by (rule prod.exhaust)
    obtain res where res: "SortFoldersByDependency (sc_links sched) (sc_nodes sched) ?fs = Some res"
        and "case res of Inl e \<Rightarrow> \<not> acyclic (folder_edges ?fs) | Inr levels \<Rightarrow> acyclic (folder_edges ?fs) \<and>
           mset (concat levels) = mset (folders_of (folder_map ?fs)) \<and>
           (\<forall>i < length levels. \<forall>f \<in> set (levels ! i).
              if parent_in ?fs f then 0 < i \<and> GetFolder f \<in> res_name ` set (levels ! (i - 1)) else i = 0)"
      using SortFolders_spec [of "sc_links sched" "sc_nodes sched" ?fs] by blast
    then have cyc: "acyclic (folder_edges ?fs) \<longleftrightarrow> (\<exists>levels. res = Inr levels)"
      by (cases res) simp_all
    have run: "(case (r, st1) of (Some e, st') \<Rightarrow> (Some e, st')
        | (None, st') \<Rightarrow> if successCount (ps_summary st') + failedCount (ps_summary st') \<ge> length (Resources request)
            then (None, st') else ForEachConcurrently (sc_rest sched) (cancel_push c) (push_other g c ?sup ?req)
                         (Resources request) st') = (Some e, st')"
    proof -
      have rq: "Resources ?req = Resources request" by simp
      show ?thesis using assms by (simp only: Push_def Let_def pre Inr folders prod.case sum.case rq)
    qed
    have "if acyclic (folder_edges ?fs) then StopOnError request \<and> failed_with e st' else st' = ?st"
    proof (cases res)
      case (Inl f)
      then show ?thesis using cyc folders run res by (auto simp: pushFolders_def)
    next
      case (Inr levels)
      have lev: "push_levels (cancel_push c) (pushSingleResource g c ?sup ?req) (sc_level sched) 0 levels ?st = (r, st1)"
        using folders res Inr by (simp add: pushFolders_def)
      have "StopOnError ?req \<and> failed_with e st'"
      proof (cases r)
        case (Some e')
        then have "r = Some e \<and> st1 = st'" using run by simp
        then show ?thesis using push_levels_error lev by blast
      next
        case None
        then have "run_group (cancel_push c) (push_other g c ?sup ?req) None
            (map snd (go_range (sc_rest sched) (Resources request))) st1 = (Some e, st')"
          using run by (auto simp: ForEachConcurrently_def split: if_splits)
        then have "run_group (cancel_push c) (pushSingleResource g c ?sup ?req) None
            (filter (\<lambda>r. \<not> IsFolder r) (map snd (go_range (sc_rest sched) (Resources request)))) st1 = (Some e, st')"
          by (subst (asm) run_group_skip [where P = "\<lambda>r. \<not> IsFolder r" and g = "pushSingleResource g c ?sup ?req"])
            (simp_all add: push_other_def)
        then show ?thesis by (rule push_group_error)
      qed
      then show ?thesis using Inr cyc by simp
    qed
    then show ?thesis unfolding pre Inr prod.case sum.case failed_with_def .
  qed
qed

section \<open>Dry runs\<close>

definition push_client_safe :: "('s \<Rightarrow> bool) \<Rightarrow> ('s \<Rightarrow> 'o) \<Rightarrow> 's push_client \<Rightarrow> bool" where
  "push_client_safe I store c \<longleftrightarrow>
     (\<forall>d n. keeps I store (pc_get c d n)) \<and>
     (\<forall>f d n. pc_list c = Some f \<longrightarrow> keeps I store (f d n)) \<and>
     (\<forall>d u dr. isDryRun dr \<longrightarrow> keeps I store (pc_create c d u dr)) \<and>
     (\<forall>d u dr. isDryRun dr \<longrightarrow> keeps I store (pc_update c d u dr)) \<and>
     (\<forall>f d u dr. pc_envelope c = Some f \<longrightarrow> isDryRun dr \<longrightarrow> keeps I store (f d u dr)) \<and>
     (\<forall>s. I s \<longrightarrow> I (pc_cancel c s) \<and> store (pc_cancel c s) = store s)"

text \<open>The same for operations on the cache and the world.\<close>

abbreviation keeps_snd :: "('s \<Rightarrow> bool) \<Rightarrow> ('s \<Rightarrow> 'o) \<Rightarrow> (nk_cache \<times> 's \<Rightarrow> 'r \<times> (nk_cache \<times> 's)) \<Rightarrow> bool" where
  "keeps_snd I store \<equiv> keeps (\<lambda>st. I (snd st)) (\<lambda>st. store (snd st))"

definition lister_keeps :: "('s \<Rightarrow> bool) \<Rightarrow> ('s \<Rightarrow> 'o) \<Rightarrow> 's lister option \<Rightarrow> bool" where
  "lister_keeps I store lister \<longleftrightarrow> (\<forall>f d n. lister = Some f \<longrightarrow> keeps I store (f d n))"

lemma cache_list_keeps:
  assumes "lister_keeps I store lister"
  shows "keeps_snd I store (cache_list lister desc)"
proof (cases lister)
  case (Some f)
  have k: "keeps I store (f desc 0)" using assms Some by (simp add: lister_keeps_def)
  show ?thesis
    by (rule keepsI) (auto simp: cache_list_def Some Let_def split: prod.splits option.splits dest: keepsD [OF k])
qed (simp add: keeps_def cache_list_def)

lemma findByNaturalKey_keeps:
  assumes "lister_keeps I store lister"
  shows "keeps_snd I store (findByNaturalKey keys lister desc obj key)"
proof (rule keepsI)
  fix st r st'
  assume "I (snd st)" and run: "findByNaturalKey keys lister desc obj key st = (r, st')"
  obtain y t where cl: "cache_list lister desc st = (y, t)" by (rule prod.exhaust)
  have "I (snd t) \<and> store (snd t) = store (snd st)"
    using keepsD [OF cache_list_keeps [OF assms] cl \<open>I (snd st)\<close>] .
  moreover have "st' = st \<or> st' = t"
    using run cl by (auto simp: findByNaturalKey_def Let_def split: if_splits option.splits sum.splits)
  ultimately show "I (snd st') \<and> store (snd st') = store (snd st)" using \<open>I (snd st)\<close> by auto
qed

lemma update_existing_keeps:
  assumes "push_client_safe I store c" "isDryRun dr"
  shows "keeps_snd I store (update_existing c pf desc native dr obj existing)"
proof -
  have k: "keeps I store (pc_update c desc u dr)" for u using assms by (simp add: push_client_safe_def)
  show ?thesis
    by (rule keepsI) (auto simp: update_existing_def split: prod.splits sum.splits if_splits dest: keepsD [OF k])
qed

lemma create_new_keeps:
  assumes "push_client_safe I store c" "isDryRun dr"
  shows "keeps_snd I store (create_new c desc native dr obj)"
proof -
  have k: "keeps I store (pc_create c desc u dr)" for u using assms by (simp add: push_client_safe_def)
  show ?thesis
    by (rule keepsI) (auto simp: create_new_def split: prod.splits sum.splits if_splits dest: keepsD [OF k])
qed

lemma probe_existing_keeps:
  assumes "push_client_safe I store c"
  shows "keeps_snd I store (probe_existing c desc name native key)"
proof -
  have k: "keeps I store (pc_get c desc name)" using assms by (simp add: push_client_safe_def)
  show ?thesis
    by (rule keepsI) (auto simp: probe_existing_def split: prod.splits sum.splits if_splits dest: keepsD [OF k])
qed

lemma upsert_probed_keeps:
  assumes c: "push_client_safe I store c" and dr: "isDryRun dr"
  shows "keeps_snd I store (upsert_probed g c desc name obj native key dr)"
proof (rule keepsI)
  fix st r st'
  assume I: "I (snd st)" and run: "upsert_probed g c desc name obj native key dr st = (r, st')"
  obtain x st1 where p: "probe_existing c desc name native key st = (x, st1)" by (rule prod.exhaust)
  obtain y st2 where f: "findByNaturalKey (gl_keys g) (pc_list c) desc obj key st1 = (y, st2)" by (rule prod.exhaust)
  have 1: "I (snd st1) \<and> store (snd st1) = store (snd st)" using keepsD [OF probe_existing_keeps [OF c] p I] .
  have l: "lister_keeps I store (pc_list c)" using c by (simp add: push_client_safe_def lister_keeps_def)
  have 2: "I (snd st2) \<and> store (snd st2) = store (snd st)"
    using keepsD [OF findByNaturalKey_keeps [OF l] f] 1 by auto
  note upd = keepsD [OF update_existing_keeps [OF c dr]] and new = keepsD [OF create_new_keeps [OF c dr]]
  show "I (snd st') \<and> store (snd st') = store (snd st)"
  proof (cases x)
    case (Inr existing)
    then have u: "update_existing c (gl_platform g) desc native dr obj existing st1 = (r, st')"
      using run p by (simp add: upsert_probed_def)
    show ?thesis using upd [OF u] 1 by simp
  next
    case (Inl e)
    show ?thesis
    proof (cases "e_not_found e")
      case False
      then show ?thesis using run p Inl 1 by (simp add: upsert_probed_def)
    next
      case True
      consider e' where "y = Inl e'" | m where "y = Inr (Some m)" | "y = Inr None" by (cases y) auto
      then show ?thesis
      proof cases
        case 1
        then show ?thesis using run p f Inl True 2 by (simp add: upsert_probed_def)
      next
        case (2 m)
        then have u: "update_existing c (gl_platform g) desc native dr obj m st2 = (r, st')"
          using run p f Inl True by (simp add: upsert_probed_def)
        show ?thesis using upd [OF u] \<open>I (snd st2) \<and> store (snd st2) = store (snd st)\<close> by simp
      next
        case 3
        then have u: "create_new c desc native dr obj st2 = (r, st')"
          using run p f Inl True by (simp add: upsert_probed_def)
        show ?thesis using new [OF u] 2 by simp
      qed
    qed
  qed
qed

lemma upsert_generic_keeps:
  assumes c: "push_client_safe I store c" and dr: "isDryRun dr"
  shows "keeps_snd I store (upsert_generic g c desc name obj dr)"
proof (rule keepsI)
  fix st r st'
  assume I: "I (snd st)" and run: "upsert_generic g c desc name obj dr st = (r, st')"
  note up = keepsD [OF upsert_probed_keeps [OF c dr] _ I]
  show "I (snd st') \<and> store (snd st') = store (snd st)"
  proof (cases "HasServerDerivedName (Descriptor_GroupVersionKind desc)")
    case False
    then show ?thesis using run by (intro up) (simp add: upsert_generic_def)
  next
    case native: True
    show ?thesis
    proof (cases "NativeIdentity obj")
      case (Inl e)
      then show ?thesis using run I native by (simp add: upsert_generic_def)
    next
      case (Inr x)
      then show ?thesis using run native
        by (cases x) (intro up, simp add: upsert_generic_def)
    qed
  qed
qed

lemma upsertResource_keeps:
  assumes c: "push_client_safe I store c"
  shows "keeps_snd I store (upsertResource g c desc name src True)"
proof (rule keepsI)
  fix st r st'
  assume I: "I (snd st)" and run: "upsertResource g c desc name src True st = (r, st')"
  have dr: "isDryRun [''All'']" by (simp add: isDryRun_def)
  note gen = keepsD [OF upsert_generic_keeps [OF c dr]]
  show "I (snd st') \<and> store (snd st') = store (snd st)"
  proof (cases "pc_envelope c")
    case None
    then show ?thesis using run I by (intro gen) (simp_all add: upsertResource_def)
  next
    case (Some push)
    obtain b e w where p: "push desc (res_obj src) [''All''] (snd st) = ((b, e), w)" by (metis prod.exhaust)
    have "keeps I store (push desc (res_obj src) [''All''])"
      using c Some dr by (simp add: push_client_safe_def)
    from keepsD [OF this p I] have w: "I w \<and> store w = store (snd st)" .
    show ?thesis
    proof (cases b)
      case True
      then show ?thesis using run w Some p by (cases e) (auto simp: upsertResource_def)
    next
      case False
      then have "upsert_generic g c desc name (res_obj src) [''All''] (fst st, w) = (r, st')"
        using run Some p by (simp add: upsertResource_def)
      from gen [OF this] show ?thesis using w by simp
    qed
  qed
qed

lemma upsert_and_record_keeps:
  assumes c: "push_client_safe I store c" and dry: "DryRun req" and I: "I (ps_world st)"
  shows "I (ps_world (snd (upsert_and_record g c req desc name res st))) \<and>
    store (ps_world (snd (upsert_and_record g c req desc name res st))) = store (ps_world st)"
proof -
  obtain r cache w where r: "upsertResource g c desc name res True (ps_cache st, ps_world st) = (r, (cache, w))"
    by (metis prod.exhaust)
  have w: "I w \<and> store w = store (ps_world st)"
    using keepsD [OF upsertResource_keeps [OF c] r] I by simp
  show ?thesis
  proof (cases r)
    case (Inl err)
    then show ?thesis using w dry by (cases "e_warnings err") (simp_all add: upsert_and_record_def r Let_def)
  next
    case (Inr x)
    then show ?thesis using w dry by (cases x) (simp add: upsert_and_record_def r)
  qed
qed

lemma push_checked_keeps:
  assumes "push_client_safe I store c" "DryRun req" "preflight req = Some (\<lambda>res w. ((None, res), w))" "I (ps_world st)"
  shows "I (ps_world (snd (push_checked g c req desc name res st))) \<and>
    store (ps_world (snd (push_checked g c req desc name res st))) = store (ps_world st)"
proof (cases "CheckMutation (gl_gvks g) (gl_regs g) desc ''push''")
  case None
  have "st\<lparr>ps_world := ps_world st\<rparr> = st" by simp
  then have "push_checked g c req desc name res st = upsert_and_record g c req desc name res st"
    by (simp add: push_checked_def None checkPushPreflight_def assms(3))
  then show ?thesis using upsert_and_record_keeps [OF assms(1,2,4)] by simp
qed (simp add: push_checked_def assms(4))

lemma pushSingleResource_keeps:
  assumes "push_client_safe I store c" "DryRun req" "preflight req = Some (\<lambda>res w. ((None, res), w))" "I (ps_world st)"
  shows "I (ps_world (snd (pushSingleResource g c supported req res st))) \<and>
    store (ps_world (snd (pushSingleResource g c supported req res st))) = store (ps_world st)"
proof (cases "map_of supported (NormalizeGVK (gl_gvks g) (res_gvk res))")
  case None
  then show ?thesis using assms(4) by (simp add: pushSingleResource_def)
next
  case (Some desc)
  obtain err res1 where p: "run_processors (Processors req) res = (err, res1)" by (rule prod.exhaust)
  note k = push_checked_keeps [OF assms, of g desc "res_name res" res1]
  show ?thesis
  proof (cases err)
    case None
    then show ?thesis using k assms(4) by (simp add: pushSingleResource_def Some p)
  next
    case (Some e)
    then show ?thesis using assms(4) \<open>map_of supported _ = Some desc\<close> by (simp add: pushSingleResource_def p)
  qed
qed

text \<open>A dry run keeps the store, push by push, so in every group of pushes.\<close>

interpretation push_dry: keeping_step
  "\<lambda>(I, store, g, c, supported, req). pushSingleResource g c supported req"
  "\<lambda>(I, store, g, c, supported, req). cancel_push c"
  "\<lambda>(I, store, g, c, supported, req) s t.
     push_client_safe I store c \<and> DryRun req \<and> preflight req = Some (\<lambda>res w. ((None, res), w)) \<and> I (ps_world s) \<longrightarrow>
     I (ps_world t) \<and> store (ps_world t) = store (ps_world s)"
proof (unfold_locales, goal_cases)
  case (3 p s x)
  obtain I store g c supported req where p: "p = (I, store, g, c, supported, req)" by (metis prod.exhaust)
  show ?case using pushSingleResource_keeps [of I store c req s g supported x] by (simp add: p)
next
  case (4 p s)
  then show ?case by (cases p) (simp add: cancel_push_def push_client_safe_def)
qed auto

lemma push_levels_rel:
  assumes "\<And>s. R s s" "\<And>s t u. R s t \<Longrightarrow> R t u \<Longrightarrow> R s u"
    and "\<And>xs s. R s (snd (run_group cancel push None xs s))"
  shows "R st (snd (push_levels cancel push sched i ls st))"
proof (induction ls arbitrary: i st)
  case (Cons l ls)
  obtain r t where r: "ForEachConcurrently (sched i) cancel push (NewResources l) st = (r, t)" by (rule prod.exhaust)
  have "R st t" using assms(3) [of st "map snd (go_range (sched i) (NewResources l))"] r
    by (simp add: ForEachConcurrently_def)
  then show ?case using assms(2) Cons.IH [of t "Suc i"] r by (cases r) auto
qed (simp add: assms(1))

lemma Push_keeps:
  assumes c: "push_client_safe I store c" and dry: "DryRun request" and I: "I w"
  shows "I (ps_world (snd (Push g c registry sched request w))) \<and>
    store (ps_world (snd (Push g c registry sched request w))) = store w"
proof -
  let ?noop = "\<lambda>res w. ((None :: go_error option, res), w)" and ?sup = "supportedDescriptors registry"
  let ?req = "request\<lparr>preflight := Some ?noop\<rparr>" and ?st = "\<lparr>ps_world = w, ps_cache = [], ps_summary = empty_summary\<rparr>"
  let ?R = "\<lambda>s t. I (ps_world s) \<longrightarrow> I (ps_world t) \<and> store (ps_world t) = store (ps_world s)"
  let ?push = "pushSingleResource g c ?sup ?req"
  have grp: "?R s (snd (run_group (cancel_push c) ?push None xs s))" for xs s
    using push_dry.group_inv [of "(I, store, g, c, ?sup, ?req)" s None xs] c dry by simp
  have pre: "newPushPreflight g c sched ?sup request w = (Inr (Some ?noop), w)"
    using dry by (simp add: newPushPreflight_def)
  obtain e st1 where f: "pushFolders g c sched ?sup ?req ?st = (e, st1)" by (rule prod.exhaust)
  have lev: "?R ?st (snd (push_levels (cancel_push c) ?push (sc_level sched) 0 ls ?st))" for ls
    by (rule push_levels_rel [where R = ?R, OF _ _ grp]) auto
  have 1: "I (ps_world st1) \<and> store (ps_world st1) = store w"
  proof -
    have "st1 = ?st \<or> (\<exists>ls. st1 = snd (push_levels (cancel_push c) ?push (sc_level sched) 0 ls ?st))"
      using f unfolding pushFolders_def by (auto split: option.splits sum.splits) (metis snd_conv)
    then show ?thesis using lev I by auto
  qed
  have "?R st1 (snd (ForEachConcurrently (sc_rest sched) (cancel_push c) (push_other g c ?sup ?req) (Resources request) st1))"
  proof -
    have "run_group (cancel_push c) (push_other g c ?sup ?req) None xs st1 =
        run_group (cancel_push c) ?push None (filter (\<lambda>r. \<not> IsFolder r) xs) st1" for xs
      by (rule run_group_skip) (simp_all add: push_other_def)
    then show ?thesis unfolding ForEachConcurrently_def using grp by presburger
  qed
  moreover have "snd (Push g c registry sched request w) = st1 \<or> snd (Push g c registry sched request w) =
      snd (ForEachConcurrently (sc_rest sched) (cancel_push c) (push_other g c ?sup ?req) (Resources request) st1)"
    by (cases e) (simp_all add: Push_def Let_def pre f)
  ultimately show ?thesis using 1 by auto
qed

section \<open>The whole stack\<close>

text \<open>The router as the client of a push.\<close>

definition router_push_client :: "gvk_registry \<Rightarrow> 's router \<Rightarrow> 's routed push_client" where
  "router_push_client gvks r =
     \<lparr>pc_create = router_Create r, pc_update = router_Update r, pc_get = router_Get r,
      pc_list = Some (router_List r), pc_envelope = Some (router_PushEnvelope r),
      pc_preflight = Some (\<lambda>sels st. case router_NewPushPreflight gvks r sels st of (check, st') \<Rightarrow> (Inr (Some check), st')),
      pc_cancel = (\<lambda>st. st\<lparr>rt_world := r_cancel r (rt_world st)\<rparr>)\<rparr>"

lemma router_push_client_safe:
  assumes f: "factories_safe I store r" and dyn: "client_safe I store (\<lambda>_. True) (r_dynamic r)"
  shows "push_client_safe (routed_inv I store) (\<lambda>st. store (rt_world st)) (router_push_client gvks r)"
proof -
  have r: "client_safe (routed_inv I store) (\<lambda>st. store (rt_world st)) (\<lambda>_. True) (router_client r)"
    by (rule router_client_safe [OF f dyn])
  have ret: "keeps I store (\<lambda>s. (x, s))" for x by (simp add: keeps_def)
  have env: "keeps I store (\<lambda>s. case a_push_envelope a of
      Some push \<Rightarrow> (case push u dr s of (err, s') \<Rightarrow> ((True, err), s')) | None \<Rightarrow> ((False, None), s))"
    if "adapter_safe I store a" "isDryRun dr" for a u dr
  proof (cases "a_push_envelope a")
    case (Some push)
    then have "keeps I store (push u dr)" using that by (simp add: adapter_safe_def)
    then show ?thesis by (simp add: keeps_def Some split_def)
  qed (simp add: keeps_def)
  have "keeps (routed_inv I store) (\<lambda>st. store (rt_world st)) (router_PushEnvelope r d u dr)" if "isDryRun dr" for d u dr
    unfolding router_PushEnvelope_def by (rule route_keeps [OF f ret env]) (use that in auto)
  moreover have "routed_inv I store st \<Longrightarrow> I (r_cancel r (rt_world st)) \<and> store (r_cancel r (rt_world st)) = store (rt_world st)" for st
    using f by (simp add: factories_safe_def routed_inv_def)
  ultimately show ?thesis
    using r by (simp add: push_client_safe_def client_safe_def router_push_client_def router_client_def routed_inv_def)
qed

text \<open>C28. A dry run push sends nothing that changes the server. Let a push go through the router, whose
  adapters keep dry runs free of effects as typed adapters do, over the guard, over the retrying
  client; and let the server honour dry runs of the listed resources. Then a dry run push of any
  resources, with any outcome, leaves the store as it was.\<close>

theorem Push_dry_run:
  assumes law: "retry_law interrupted (rc_on_error rc)"
    and wait: "\<And>n s. I s \<Longrightarrow> I (rc_wait rc n s) \<and> store (rc_wait rc n s) = store s"
    and extra: "fst (newDryRunAllowlist parse (AssumeServerDryRun cfg)) = extra"
    and inner: "client_safe I store (\<lambda>d. fst (classify extra (desc_resource d))) (rc_inner rc)"
    and guard: "newGuardedRetryDynamicClient parse rc cfg w = (guard, w0)"
    and router: "r_dynamic r = guard_client guard"
      "factories_safe (\<lambda>s. I (gd_world s)) (\<lambda>s. store (gd_world s)) r"
    and start: "I w" and dry: "DryRun request"
  shows "store (gd_world (rt_world (ps_world (snd
    (Push g (router_push_client gvks r) registry sched request (NewResourceClientRouter w0)))))) = store w"
proof -
  have gx: "dg_inner guard = retry_client rc" "dg_extra guard = extra" "gd_world w0 = w"
    using guard extra by (auto simp: newGuardedRetryDynamicClient_def newGuardedDynamicClient_def
        newDryRunGuard_def split: prod.splits)
  have "client_safe (\<lambda>s. I (gd_world s)) (\<lambda>s. store (gd_world s)) (\<lambda>_. True) (guard_client guard)"
    by (rule guard_client_safe) (simp add: gx retry_client_safe [OF law inner wait])
  then have c: "push_client_safe (routed_inv (\<lambda>s. I (gd_world s)) (\<lambda>s. store (gd_world s)))
      (\<lambda>st. store (gd_world (rt_world st))) (router_push_client gvks r)"
    using router_push_client_safe [of "\<lambda>s. I (gd_world s)" "\<lambda>s. store (gd_world s)" r gvks] router by simp
  have "routed_inv (\<lambda>s. I (gd_world s)) (\<lambda>s. store (gd_world s)) (NewResourceClientRouter w0)"
    using start gx by (simp add: routed_inv_def NewResourceClientRouter_def)
  from Push_keeps [OF c dry this, of g registry sched] show ?thesis using gx by (simp add: NewResourceClientRouter_def)
qed

section \<open>Upserts on a server\<close>

text \<open>
  A server as its clients see it: \<open>view\<close> is the content, by descriptor and name. Reads do not change
  it and report what is there or fail otherwise; an update replaces the object of the given name and a
  creation adds one under a new name the server may choose; a failing request changes nothing.
\<close>

type_synonym content = "descriptor \<Rightarrow> string \<Rightarrow> uobj option"

definition put_object :: "content \<Rightarrow> descriptor \<Rightarrow> string \<Rightarrow> uobj \<Rightarrow> content" where
  "put_object m d n u = m(d := (m d)(n \<mapsto> u))"

definition server_reads :: "('s \<Rightarrow> content) \<Rightarrow> 's push_client \<Rightarrow> bool" where
  "server_reads view c \<longleftrightarrow>
     (\<forall>s d n u. view s d n = Some u \<longrightarrow> GetName u = n) \<and>
     (\<forall>s d n. case pc_get c d n s of
        (Inr u, s') \<Rightarrow> view s' = view s \<and> view s d n = Some u
      | (Inl e, s') \<Rightarrow> view s' = view s \<and> (e_not_found e \<longrightarrow> view s d n = None)) \<and>
     (\<exists>f. pc_list c = Some f \<and>
        (\<forall>s d. case f d 0 s of
           ((l, Some e), s') \<Rightarrow> view s' = view s
         | ((l, None), s') \<Rightarrow> view s' = view s \<and> (\<exists>xs. l = Some xs \<and> set (ul_items xs) = ran (view s d))))"

definition server_writes :: "('s \<Rightarrow> content) \<Rightarrow> 's push_client \<Rightarrow> bool" where
  "server_writes view c \<longleftrightarrow>
     (\<forall>s d u. case pc_update c d u [] s of
        (Inl e, s') \<Rightarrow> view s' = view s
      | (Inr v, s') \<Rightarrow> view s d (GetName u) \<noteq> None \<and> view s' = put_object (view s) d (GetName u) v) \<and>
     (\<forall>s d u. case pc_create c d u [] s of
        (Inl e, s') \<Rightarrow> view s' = view s
      | (Inr v, s') \<Rightarrow> view s d (GetName v) = None \<and> view s' = put_object (view s) d (GetName v) v)"

text \<open>The identity an upsert matches by, besides the name.\<close>

definition upsert_identity :: "'f globals \<Rightarrow> descriptor \<Rightarrow> uobj \<Rightarrow> string option" where
  "upsert_identity g desc u =
     (case GetNaturalKeyExtractor (gl_keys g) (Descriptor_GroupVersionKind desc) of
        Some f \<Rightarrow> f u
      | None \<Rightarrow> if HasServerDerivedName (Descriptor_GroupVersionKind desc) then native_extractor u else None)"

text \<open>What an upsert may do to the content: nothing, replace the object of the name or of the identity,
  or add an object where neither exists.\<close>

definition upsert_outcome ::
    "'f globals \<Rightarrow> descriptor \<Rightarrow> string \<Rightarrow> uobj \<Rightarrow> content \<Rightarrow> go_error + uobj option \<times> string \<Rightarrow> content \<Rightarrow> bool" where
  "upsert_outcome g desc name obj m res m' \<longleftrightarrow>
     (case res of
        Inl e \<Rightarrow> m' = m
      | Inr (applied, action) \<Rightarrow>
          (\<exists>u t. applied = Some u \<and> m' = put_object m desc t u \<and>
             (action = ''updated'' \<and>
                (\<exists>v. m desc t = Some v \<and> (t = name \<or>
                   upsert_identity g desc obj \<noteq> None \<and> upsert_identity g desc v = upsert_identity g desc obj)) \<or>
              action = ''created'' \<and> m desc t = None \<and>
                (name = [] \<or> m desc name = None \<or> HasServerDerivedName (Descriptor_GroupVersionKind desc)) \<and>
                (upsert_identity g desc obj \<noteq> None \<longrightarrow>
                   (\<forall>v \<in> ran (m desc). upsert_identity g desc v \<noteq> upsert_identity g desc obj)))))"

lemma outcome_updated:
  assumes "m desc t = Some v"
    and "t = name \<or> upsert_identity g desc obj \<noteq> None \<and> upsert_identity g desc v = upsert_identity g desc obj"
  shows "upsert_outcome g desc name obj m (Inr (Some u, ''updated'')) (put_object m desc t u)"
  using assms unfolding upsert_outcome_def by (simp only: sum.case prod.case option.inject) blast

lemma outcome_created:
  assumes "m desc t = None"
    and "name = [] \<or> m desc name = None \<or> HasServerDerivedName (Descriptor_GroupVersionKind desc)"
    and "upsert_identity g desc obj = None \<or> (\<forall>v \<in> ran (m desc). upsert_identity g desc v \<noteq> upsert_identity g desc obj)"
  shows "upsert_outcome g desc name obj m (Inr (Some u, ''created'')) (put_object m desc t u)"
  using assms unfolding upsert_outcome_def by (simp only: sum.case prod.case option.inject) blast

lemma outcome_error: "upsert_outcome g desc name obj m (Inl e) m"
  by (simp add: upsert_outcome_def)

lemma GetName_update_target [simp]: "GetName (update_target pf obj existing) = GetName existing"
proof -
  have "u_meta (preserveManagerIdentity pf o1 e1) = u_meta o1" for o1 e1
    by (simp add: preserveManagerIdentity_def)
  then have "GetName (preserveManagerIdentity pf o1 e1) = GetName o1" for o1 e1
    by (simp add: meta_string_def)
  then show ?thesis by (simp add: update_target_def)
qed

lemma update_existing_outcome:
  assumes w: "server_writes view c" and r: "server_reads view c"
    and run: "update_existing c pf desc native [] obj existing st = (res, st')"
    and there: "view (snd st) desc t = Some existing"
    and id: "t = name \<or> upsert_identity g desc obj \<noteq> None \<and> upsert_identity g desc existing = upsert_identity g desc obj"
  shows "upsert_outcome g desc name obj (view (snd st)) res (view (snd st'))"
proof (cases "native \<and> IsReadOnlyNative existing")
  case True
  then show ?thesis using run by (auto simp: update_existing_def upsert_outcome_def)
next
  case False
  have n: "GetName existing = t" using r there by (auto simp: server_reads_def)
  obtain x s' where x: "pc_update c desc (update_target pf obj existing) [] (snd st) = (x, s')" by (rule prod.exhaust)
  have "case pc_update c desc (update_target pf obj existing) [] (snd st) of
        (Inl e, s') \<Rightarrow> view s' = view (snd st)
      | (Inr v, s') \<Rightarrow> view (snd st) desc (GetName (update_target pf obj existing)) \<noteq> None \<and>
          view s' = put_object (view (snd st)) desc (GetName (update_target pf obj existing)) v"
    by (rule w [unfolded server_writes_def, THEN conjunct1, THEN spec [of _ "snd st"], THEN spec [of _ desc],
        THEN spec [of _ "update_target pf obj existing"]])
  then show ?thesis using run False x n outcome_updated [of "view (snd st)" desc t existing name g obj, OF there id] outcome_error
    by (cases x) (auto simp: update_existing_def)
qed

lemma create_new_outcome:
  assumes w: "server_writes view c" and run: "create_new c desc native [] obj st = (res, st')"
    and absent: "name = [] \<or> view (snd st) desc name = None \<or> HasServerDerivedName (Descriptor_GroupVersionKind desc)"
    and fresh: "upsert_identity g desc obj = None \<or>
      (\<forall>v \<in> ran (view (snd st) desc). upsert_identity g desc v \<noteq> upsert_identity g desc obj)"
  shows "upsert_outcome g desc name obj (view (snd st)) res (view (snd st'))"
proof -
  let ?o = "if native then PrepareNativeCreate obj else obj"
  obtain x s' where x: "pc_create c desc ?o [] (snd st) = (x, s')" by (rule prod.exhaust)
  have "case pc_create c desc ?o [] (snd st) of
        (Inl e, s') \<Rightarrow> view s' = view (snd st)
      | (Inr v, s') \<Rightarrow> view (snd st) desc (GetName v) = None \<and> view s' = put_object (view (snd st)) desc (GetName v) v"
    by (rule w [unfolded server_writes_def, THEN conjunct2, THEN spec [of _ "snd st"], THEN spec [of _ desc],
        THEN spec [of _ ?o]])
  then show ?thesis using run x outcome_created [of "view (snd st)" desc _ name g obj, OF _ absent fresh] outcome_error
    by (cases x) (auto simp: create_new_def)
qed

lemma probe_existing_spec:
  assumes r: "server_reads view c" and run: "probe_existing c desc name native key st = (res, st')"
  shows "fst st' = fst st \<and> view (snd st') = view (snd st) \<and>
    (case res of
       Inr u \<Rightarrow> view (snd st) desc name = Some u
     | Inl e \<Rightarrow> e_not_found e \<longrightarrow> name = [] \<or> view (snd st) desc name = None \<or> native)"
proof (cases "name = []")
  case True
  then show ?thesis using run by (cases res) (simp_all add: probe_existing_def)
next
  case False
  obtain x s' where x: "pc_get c desc name (snd st) = (x, s')" by (rule prod.exhaust)
  have "case pc_get c desc name (snd st) of
        (Inr u, s') \<Rightarrow> view s' = view (snd st) \<and> view (snd st) desc name = Some u
      | (Inl e, s') \<Rightarrow> view s' = view (snd st) \<and> (e_not_found e \<longrightarrow> view (snd st) desc name = None)"
    by (rule r [unfolded server_reads_def, THEN conjunct2, THEN conjunct1, THEN spec [of _ "snd st"],
        THEN spec [of _ desc], THEN spec [of _ name]])
  then show ?thesis using run False x
    by (cases x) (auto simp: probe_existing_def split: if_splits)
qed

lemma scan_matches_Inr:
  assumes "scan_matches native policy desc key found = Inr m"
  shows "case m of None \<Rightarrow> found = [] | Some u \<Rightarrow> u \<in> set found"
  using assms by (auto simp: scan_matches_def split: if_splits list.splits)

lemma cache_list_spec:
  assumes r: "server_reads view c" and fresh: "map_of (fst st) (Descriptor_GroupVersionKind desc) = None"
    and run: "cache_list (pc_list c) desc st = (res, st')"
  shows "view (snd st') = view (snd st) \<and>
    (\<forall>l. res = Inr l \<longrightarrow> (\<exists>xs. l = Some xs \<and> set (ul_items xs) = ran (view (snd st) desc)))"
proof -
  from r [unfolded server_reads_def, THEN conjunct2, THEN conjunct2]
  obtain f where f: "pc_list c = Some f" and law: "\<forall>s d. case f d 0 s of
           ((l, Some e), s') \<Rightarrow> view s' = view s
         | ((l, None), s') \<Rightarrow> view s' = view s \<and> (\<exists>xs. l = Some xs \<and> set (ul_items xs) = ran (view s d))"
    by (elim exE conjE)
  obtain l e s' where x: "f desc 0 (snd st) = ((l, e), s')" by (metis prod.exhaust)
  have "case f desc 0 (snd st) of
           ((l, Some e), s') \<Rightarrow> view s' = view (snd st)
         | ((l, None), s') \<Rightarrow> view s' = view (snd st) \<and>
             (\<exists>xs. l = Some xs \<and> set (ul_items xs) = ran (view (snd st) desc))"
    by (rule law [THEN spec [of _ "snd st"], THEN spec [of _ desc]])
  then show ?thesis using run f fresh x
    by (cases e) (auto simp: cache_list_def Let_def)
qed

lemma findByNaturalKey_spec:
  assumes r: "server_reads view c" and fresh: "map_of (fst st) (Descriptor_GroupVersionKind desc) = None"
    and key: "native_extractor obj = Some key \<or> \<not> HasServerDerivedName (Descriptor_GroupVersionKind desc)"
    and run: "findByNaturalKey (gl_keys g) (pc_list c) desc obj key st = (res, st')"
  shows "view (snd st') = view (snd st) \<and>
    (case res of
       Inl e \<Rightarrow> True
     | Inr None \<Rightarrow> upsert_identity g desc obj = None \<or>
         (\<forall>v \<in> ran (view (snd st) desc). upsert_identity g desc v \<noteq> upsert_identity g desc obj)
     | Inr (Some u) \<Rightarrow> u \<in> ran (view (snd st) desc) \<and> upsert_identity g desc obj \<noteq> None \<and>
         upsert_identity g desc u = upsert_identity g desc obj)"
proof -
  let ?gvk = "Descriptor_GroupVersionKind desc"
  let ?reg = "GetNaturalKeyExtractor (gl_keys g) ?gvk"
  define ext where "ext = (case ?reg of Some f \<Rightarrow> f | None \<Rightarrow> native_extractor)"
  obtain y t where cl: "cache_list (pc_list c) desc st = (y, t)" by (rule prod.exhaust)
  note list = cache_list_spec [OF r fresh cl]
  show ?thesis
  proof (cases "?reg = None \<and> \<not> HasServerDerivedName ?gvk")
    case True
    then show ?thesis using run by (auto simp: findByNaturalKey_def upsert_identity_def)
  next
    case False
    then have ident: "upsert_identity g desc = ext" by (auto simp: upsert_identity_def ext_def fun_eq_iff split: option.split)
    define lk where "lk = (if ?reg = None then Some key else ext obj)"
    have lk: "lk = ext obj" using key False by (auto simp: lk_def ext_def)
    have eq: "findByNaturalKey (gl_keys g) (pc_list c) desc obj key st =
        (case lk of None \<Rightarrow> (Inr None, st)
         | Some localKey \<Rightarrow> (case (y, t) of
              (Inl e, st') \<Rightarrow> (Inl e, st')
            | (Inr None, st') \<Rightarrow> (Inr None, st')
            | (Inr (Some remoteList), st') \<Rightarrow>
                (scan_matches (?reg = None) (GetNaturalKeyPolicy (gl_keys g) ?gvk) desc localKey
                   (filter (\<lambda>u. ext u = Some localKey) (ul_items remoteList)), st')))"
    proof (cases ?reg)
      case None
      then have H: "HasServerDerivedName ?gvk = True" using False by simp
      show ?thesis unfolding findByNaturalKey_def Let_def lk_def ext_def None cl H simp_thms option.case if_True if_False
        by (rule TrueI)
    next
      case (Some f)
      have n: "(Some f = None) = False" by simp
      show ?thesis unfolding findByNaturalKey_def Let_def lk_def ext_def Some cl n simp_thms option.case if_True if_False
        by (rule TrueI)
    qed
    show ?thesis
    proof (cases "ext obj")
      case None
      then have "res = Inr None" "st' = st" using run eq lk by simp_all
      then show ?thesis using None by (simp add: ident)
    next
      case (Some k)
      show ?thesis
      proof (cases y)
        case (Inl e)
        then have "res = Inl e" "st' = t" using run eq lk Some by simp_all
        then show ?thesis using list by simp
      next
        case (Inr l)
        then obtain xs where xs: "l = Some xs" "set (ul_items xs) = ran (view (snd st) desc)" using list by blast
        have "res = scan_matches (?reg = None) (GetNaturalKeyPolicy (gl_keys g) ?gvk) desc k
            (filter (\<lambda>u. ext u = Some k) (ul_items xs))" "st' = t"
          using run eq lk Some Inr xs by simp_all
        then have m: "case m of None \<Rightarrow> filter (\<lambda>u. ext u = Some k) (ul_items xs) = []
            | Some u \<Rightarrow> u \<in> set (filter (\<lambda>u. ext u = Some k) (ul_items xs))" if "res = Inr m" for m
          using that by (metis scan_matches_Inr)
        have v: "view (snd st') = view (snd st)" using list \<open>st' = t\<close> by simp
        consider e where "res = Inl e" | u where "res = Inr (Some u)" | "res = Inr None" by (cases res) auto
        then show ?thesis
        proof cases
          case 1
          then show ?thesis using v by simp
        next
          case (2 u)
          then show ?thesis using v m [OF 2] xs Some by (simp add: ident)
        next
          case 3
          then show ?thesis using v m [OF 3] xs Some by (simp add: ident filter_empty_conv)
        qed
      qed
    qed
  qed
qed

text \<open>C29. Upserting a resource is a step of a map: it changes nothing if it fails, and otherwise it
  stores the applied object under one name, either replacing an object (reported as updated) that has
  the name or the identity of the resource, or adding an object under a new name (reported as created),
  and then no object of the server has its identity and, unless the server derives the names, none has
  its name. This is for a client without envelope hook, a first look at the kind (no listing of it
  is cached), and no dry run.\<close>

theorem upsert_refines_map:
  assumes r: "server_reads view c" and w: "server_writes view c"
    and env: "pc_envelope c = None"
    and fresh: "map_of cache (Descriptor_GroupVersionKind desc) = None"
    and run: "upsertResource g c desc name src False (cache, s) = (res, (cache', s'))"
  shows "upsert_outcome g desc name (res_obj src) (view s) res (view s')"
proof -
  let ?obj = "res_obj src" and ?native = "HasServerDerivedName (Descriptor_GroupVersionKind desc)"
  have probed: "upsert_outcome g desc name ?obj (view s) res (view s')"
    if key: "native_extractor ?obj = Some key \<or> \<not> ?native"
      and run: "upsert_probed g c desc name ?obj ?native key [] (cache, s) = (res, (cache', s'))" for key
  proof -
    obtain x st1 where p: "probe_existing c desc name ?native key (cache, s) = (x, st1)" by (rule prod.exhaust)
    note probe = probe_existing_spec [OF r p]
    have v1: "view (snd st1) = view s" and f1: "fst st1 = cache" using probe by simp_all
    show ?thesis
    proof (cases x)
      case (Inr u)
      then have "view (snd st1) desc name = Some u" using probe v1 by simp
      moreover have "update_existing c (gl_platform g) desc ?native [] ?obj u st1 = (res, (cache', s'))"
        using run p Inr by (simp add: upsert_probed_def)
      ultimately show ?thesis using update_existing_outcome [OF w r] v1 by fastforce
    next
      case (Inl e)
      show ?thesis
      proof (cases "e_not_found e")
        case False
        then show ?thesis using run p Inl v1 by (auto simp: upsert_probed_def upsert_outcome_def)
      next
        case True
        then have absent: "name = [] \<or> view (snd st1) desc name = None \<or> ?native" using probe Inl v1 by auto
        obtain y st2 where f: "findByNaturalKey (gl_keys g) (pc_list c) desc ?obj key st1 = (y, st2)" by (rule prod.exhaust)
        have fresh1: "map_of (fst st1) (Descriptor_GroupVersionKind desc) = None" using fresh f1 by simp
        note found = findByNaturalKey_spec [OF r fresh1 key f]
        have v2: "view (snd st2) = view s" using found v1 by simp
        consider e' where "y = Inl e'" | m where "y = Inr (Some m)" | "y = Inr None" by (cases y) auto
        then show ?thesis
        proof cases
          case 1
          then show ?thesis using run p f Inl True v2 by (auto simp: upsert_probed_def upsert_outcome_def)
        next
          case (2 m)
          then have u: "update_existing c (gl_platform g) desc ?native [] ?obj m st2 = (res, (cache', s'))"
            using run p f Inl True by (simp add: upsert_probed_def)
          obtain t where t: "view (snd st2) desc t = Some m" using found 2 v1 v2 by (auto simp: ran_def)
          show ?thesis using update_existing_outcome [OF w r u t, of name g] found 2 v2 v1 by simp
        next
          case 3
          then have n: "create_new c desc ?native [] ?obj st2 = (res, (cache', s'))"
            using run p f Inl True by (simp add: upsert_probed_def)
          show ?thesis using create_new_outcome [OF w n, of name g] absent found 3 v1 v2 by auto
        qed
      qed
    qed
  qed
  have gen: "upsert_generic g c desc name ?obj [] (cache, s) = (res, (cache', s'))"
    using run by (simp add: upsertResource_def env)
  show ?thesis
  proof (cases ?native)
    case False
    then show ?thesis using probed [of "[]"] gen by (simp add: upsert_generic_def)
  next
    case True
    show ?thesis
    proof (cases "NativeIdentity ?obj")
      case (Inl e)
      then show ?thesis using gen True by (auto simp: upsert_generic_def upsert_outcome_def)
    next
      case (Inr x)
      then show ?thesis using probed [of "fst x"] gen True
        by (cases x) (simp add: upsert_generic_def native_extractor_def)
    qed
  qed
qed

section \<open>Examples\<close>

definition sample_push_client :: "nat push_client" where
  "sample_push_client =
     \<lparr>pc_create = c_create counting_client, pc_update = c_update counting_client, pc_get = c_get counting_client,
      pc_list = None, pc_envelope = None, pc_preflight = None, pc_cancel = (\<lambda>s. s)\<rparr>"

definition sample_globals :: "unit globals" where
  "sample_globals =
     \<lparr>gl_gvks = empty_gvk_registry, gl_regs = [], gl_keys = [], gl_platform = sample_platform\<rparr>"

definition sample_push_request :: "resource list \<Rightarrow> bool \<Rightarrow> bool \<Rightarrow> 's push_request" where
  "sample_push_request rs stop dry =
     \<lparr>IncludeSuccesses = True, Resources = NewResources rs, Processors = [], StopOnError = stop,
      DryRun = dry, preflight = None, IncludeManaged = True\<rparr>"

definition sample_schedule :: push_schedule where
  "sample_schedule =
     \<lparr>sc_folders = [1], sc_links = [1], sc_nodes = [1], sc_level = (\<lambda>i. []), sc_rest = [2], sc_items = [],
      sc_groups = []\<rparr>"

definition folder_desc :: descriptor where
  "folder_desc = \<lparr>d_gv = \<lparr>gv_group = ''folder.grafana.app'', gv_version = ''v1''\<rparr>, d_kind = ''Folder'',
     d_singular = ''folder'', d_plural = ''folders''\<rparr>"

definition sample_batch :: "nat push_request" where
  "sample_batch = sample_push_request
     [sample_resource ''x'' ''y'', sample_folder ''b'' ''a'', sample_folder ''a'' []] False False"

lemma sample_batch_distinct:
  "distinct (map (\<lambda>e. Ref (snd e)) (Resources sample_batch))"
  "distinct (map res_name (filter IsFolder (map snd (Resources sample_batch))))"
  by code_simp+

lemma sample_batch_quiet:
  "fst (Push sample_globals sample_push_client [folder_desc] sample_schedule sample_batch 0) = None"
  by code_simp

lemma Push_order_witness:
  "\<exists>order. push_order (Resources sample_batch) order \<and>
     snd (Push sample_globals sample_push_client [folder_desc] sample_schedule sample_batch 0) =
       run_all (pushSingleResource sample_globals sample_push_client (supportedDescriptors [folder_desc])
         (sample_batch\<lparr>preflight := Some (\<lambda>res w. ((None, res), w))\<rparr>)) order
         \<lparr>ps_world = 0, ps_cache = [], ps_summary = empty_summary\<rparr>"
proof -
  obtain st' where run: "Push sample_globals sample_push_client [folder_desc] sample_schedule sample_batch 0 = (None, st')"
    using sample_batch_quiet by (metis prod.collapse)
  show ?thesis
    using Push_order [OF sample_batch_distinct run] run
    by (auto simp: newPushPreflight_def sample_push_client_def sample_batch_def sample_push_request_def)
qed

lemma Push_accounting_witness:
  "outcomes (ps_summary (snd (Push sample_globals sample_push_client [folder_desc] sample_schedule sample_batch 0))) = 3"
proof -
  obtain st' where run: "Push sample_globals sample_push_client [folder_desc] sample_schedule sample_batch 0 = (None, st')"
    using sample_batch_quiet by (metis prod.collapse)
  have "length (filter (\<lambda>e. \<not> push_ignored sample_globals (supportedDescriptors [folder_desc]) sample_batch (snd e))
      (Resources sample_batch)) = 3" by code_simp
  then show ?thesis using Push_accounting [OF sample_batch_distinct run] run by simp
qed

lemma Push_errors_witness:
  "the (fst (Push sample_globals sample_push_client [] sample_schedule (sample_push_request [sample_resource ''x'' ''y''] True False) 0))
     \<in> of_error ` set (failures (ps_summary (snd
         (Push sample_globals sample_push_client [] sample_schedule (sample_push_request [sample_resource ''x'' ''y''] True False) 0))))"
proof -
  let ?req = "sample_push_request [sample_resource ''x'' ''y''] True False :: nat push_request"
  have "fst (Push sample_globals sample_push_client [] sample_schedule ?req 0) \<noteq> None" by code_simp
  then obtain e st' where run: "Push sample_globals sample_push_client [] sample_schedule ?req 0 = (Some e, st')"
    by (cases "Push sample_globals sample_push_client [] sample_schedule ?req 0") auto
  have pre: "newPushPreflight sample_globals sample_push_client sample_schedule (supportedDescriptors []) ?req 0 =
      (Inr (Some (\<lambda>res w. ((None, res), w))), 0)"
    by (simp add: newPushPreflight_def sample_push_client_def sample_push_request_def)
  have "collect_folders (sc_folders sample_schedule) (Resources ?req) = []" by code_simp
  then have "acyclic (folder_edges (collect_folders (sc_folders sample_schedule) (Resources ?req)))"
    by (simp add: folder_edges_def folders_of_def folder_map_def acyclic_def)
  then show ?thesis using Push_errors [OF run] unfolding pre run by simp
qed

text \<open>A dry run of the batch through the whole stack, over a server that would count what it applies.\<close>

definition sample_guard :: "nat dry_run_guard \<times> nat guarded" where
  "sample_guard = newGuardedRetryDynamicClient (\<lambda>s. \<lparr>gr_group = [], gr_resource = s\<rparr>)
     sample_retry \<lparr>AssumeServerDryRun = [], Warn = True\<rparr> 0"

definition sample_router :: "nat guarded router" where
  "sample_router =
     \<lparr>r_dynamic = guard_client (fst sample_guard), r_factories = [], r_cancel = (\<lambda>s. s), r_schedule = (\<lambda>ns. [])\<rparr>"

lemma Push_dry_run_witness:
  "gd_world (rt_world (ps_world (snd
    (Push sample_globals (router_push_client empty_gvk_registry sample_router) [folder_desc] sample_schedule
      (sample_push_request [sample_resource ''x'' ''y'', sample_folder ''a'' []] False True)
      (NewResourceClientRouter (snd sample_guard)))))) = 0"
proof -
  have safe: "client_safe (\<lambda>_. True) (\<lambda>s. s) (\<lambda>d. fst (classify [] (desc_resource d))) (rc_inner sample_retry)"
    by (simp add: client_safe_def sample_retry_def legacy_client_def counting_client_def keeps_def
        apply_count_def classify_def)
  have wait: "True \<and> rc_wait sample_retry n s = s" for n s by (simp add: sample_retry_def)
  have extra: "fst (newDryRunAllowlist (\<lambda>s. \<lparr>gr_group = [], gr_resource = s\<rparr>)
      (AssumeServerDryRun \<lparr>AssumeServerDryRun = [], Warn = True\<rparr>)) = []" by simp
  have guard: "newGuardedRetryDynamicClient (\<lambda>s. \<lparr>gr_group = [], gr_resource = s\<rparr>)
     sample_retry \<lparr>AssumeServerDryRun = [], Warn = True\<rparr> 0 = (fst sample_guard, snd sample_guard)"
    by (simp add: sample_guard_def)
  show ?thesis
    by (rule Push_dry_run [OF sample_retry_law wait extra safe guard])
      (simp_all add: sample_router_def factories_safe_def sample_push_request_def)
qed

text \<open>A server whose content is a list of objects; the first of a name counts.\<close>

definition list_view :: "(descriptor \<times> uobj) list \<Rightarrow> content" where
  "list_view s d n = map_option snd (find (\<lambda>e. fst e = d \<and> GetName (snd e) = n) s)"

definition list_server :: "(descriptor \<times> uobj) list push_client" where
  "list_server =
     \<lparr>pc_create = (\<lambda>d u dr s. if list_view s d (GetName u) = None then (Inr u, (d, u) # s)
        else (Inl (plain_error ''exists''), s)),
      pc_update = (\<lambda>d u dr s. if list_view s d (GetName u) = None then (Inl (api_not_found (GetName u)), s)
        else (Inr u, (d, u) # s)),
      pc_get = (\<lambda>d n s. case list_view s d n of Some v \<Rightarrow> (Inr v, s) | None \<Rightarrow> (Inl (api_not_found n), s)),
      pc_list = Some (\<lambda>d n s. ((Some \<lparr>ul_items = filter (\<lambda>v. list_view s d (GetName v) = Some v) (map snd s),
        ul_continue = []\<rparr>, None), s)),
      pc_envelope = None, pc_preflight = None, pc_cancel = (\<lambda>s. s)\<rparr>"

lemma list_view_SomeD: "list_view s d n = Some u \<Longrightarrow> u \<in> snd ` set s \<and> GetName u = n"
  by (force simp: list_view_def dest: find_SomeD)

lemma list_view_Cons: "list_view ((d, u) # s) = put_object (list_view s) d (GetName u) u"
  by (auto simp: fun_eq_iff list_view_def put_object_def)

lemma list_server_ok: "server_reads list_view list_server" "server_writes list_view list_server"
proof -
  have "set (filter (\<lambda>v. list_view s d (GetName v) = Some v) (map snd s)) = ran (list_view s d)" for s d
    by (auto simp: ran_def dest: list_view_SomeD)
  then show "server_reads list_view list_server"
    by (auto simp: server_reads_def list_server_def api_not_found_def dest: list_view_SomeD split: option.split)
  show "server_writes list_view list_server"
    by (simp add: server_writes_def list_server_def list_view_Cons)
qed

lemma upsert_refines_map_witness:
  "list_view (snd (snd (upsertResource sample_globals list_server folder_desc ''a'' (sample_folder ''a'' []) False ([], []))))
     folder_desc ''a'' = Some (res_obj (sample_folder ''a'' []))"
proof -
  let ?f = "sample_folder ''a'' []"
  obtain res cache' s' where run: "upsertResource sample_globals list_server folder_desc ''a'' ?f False ([], []) = (res, (cache', s'))"
    by (metis prod.exhaust)
  have env: "pc_envelope list_server = None" by (simp add: list_server_def)
  from upsert_refines_map [OF list_server_ok env _ run]
  have "upsert_outcome sample_globals folder_desc ''a'' (res_obj ?f) (list_view []) res (list_view s')" by simp
  moreover have "fst (upsertResource sample_globals list_server folder_desc ''a'' ?f False ([], [])) =
      Inr (Some (res_obj ?f), ''created'')" by code_simp
  moreover have "GetName (res_obj ?f) = ''a''" by code_simp
  moreover have "s' = [(folder_desc, res_obj ?f)]"
  proof -
    have "snd (snd (upsertResource sample_globals list_server folder_desc ''a'' ?f False ([], []))) = [(folder_desc, res_obj ?f)]"
      by code_simp
    then show ?thesis by (simp add: run)
  qed
  ultimately show ?thesis by (simp add: run list_view_def)
qed

end
