(* ===== verification/Gcx_Pull.thy ===== *)
theory Gcx_Pull
  imports Gcx_Summary
begin

text \<open>
  Pulling resources (\<^verbatim>\<open>remote/puller.go\<close>): one request per filter, run concurrently, then the
  fetched objects are checked, processed and collected in the order of the filters. The lemmas show
  what is collected, how every fetched object is accounted for, which errors end a pull and how a
  missing name is reported.
\<close>

section \<open>Client, request and state\<close>

text \<open>
  A pull client: the read operations and the optional hooks. \<open>pl_accessor\<close> is the metadata accessor of
  the Grafana library, which may reject an object. \<open>pl_done\<close> and \<open>pl_is_cause\<close> describe the context of
  the invocation: whether it is done, and whether an error matches its cause.
\<close>

record 's pull_client =
  pl_get :: "descriptor \<Rightarrow> string \<Rightarrow> 's \<Rightarrow> (go_error + uobj) \<times> 's"
  pl_get_multiple :: "descriptor \<Rightarrow> string list \<Rightarrow> 's \<Rightarrow> (uobj list \<times> go_error option) \<times> 's"
  pl_list :: "descriptor \<Rightarrow> nat \<Rightarrow> 's \<Rightarrow> (uobj_list option \<times> go_error option) \<times> 's"
  pl_select :: "(filter_rec \<Rightarrow> uobj list option \<Rightarrow> 's \<Rightarrow> (bool \<times> (go_error + uobj list)) \<times> 's) option"
  pl_preflight :: "(pull_selection list \<Rightarrow> 's \<Rightarrow> (go_error + 's pull_check option) \<times> 's) option"
  pl_cancel :: "'s \<Rightarrow> 's"
  pl_accessor :: "uobj \<Rightarrow> go_error option"
  pl_done :: "'s \<Rightarrow> bool"
  pl_is_cause :: "go_error \<Rightarrow> bool"

record pull_request =
  pq_filters :: "filter_rec list"
  pq_processors :: "go_error processor list"
  pq_exclude_managed :: bool
  pq_exclude_read_only :: bool
  pq_stop_on_error :: bool
  pq_limit :: nat
  pq_identity_only_delete :: bool

text \<open>\<open>ft_results\<close> and \<open>ft_selected\<close> are the arrays the concurrent callbacks fill; \<open>ft_next\<close> numbers the
  resources built so far.\<close>

record 's fetch_state =
  ft_world :: 's
  ft_summary :: summary
  ft_results :: "uobj list list"
  ft_selected :: "bool list"
  ft_next :: nat

definition ft_record :: "(summary \<Rightarrow> summary) \<Rightarrow> 's fetch_state \<Rightarrow> 's fetch_state" where
  "ft_record f st = st\<lparr>ft_summary := f (ft_summary st)\<rparr>"

definition FromUnstructured :: "'s pull_client \<Rightarrow> nat \<Rightarrow> uobj \<Rightarrow> go_error + resource" where
  "FromUnstructured c n u =
     (case pl_accessor c u of
        Some e \<Rightarrow> Inl e
      | None \<Rightarrow> Inr \<lparr>res_id = n, res_empty = False, res_obj = u, res_source = []\<rparr>)"

definition isPullCancellation :: "'s pull_client \<Rightarrow> 's \<Rightarrow> go_error \<Rightarrow> bool" where
  "isPullCancellation c s err \<longleftrightarrow> e_canceled err \<or> (pl_done c s \<and> pl_is_cause c err)"

definition isUnsupportedResourceType :: "go_error \<Rightarrow> bool" where
  "isUnsupportedResourceType err \<longleftrightarrow> e_not_found err \<or> e_method_not_supported err"

section \<open>Fetching one selection\<close>

fun record_read_failures ::
    "'s pull_client \<Rightarrow> (uobj option \<times> string) list \<Rightarrow> 's fetch_state \<Rightarrow> go_error option \<times> 's fetch_state" where
  "record_read_failures c [] st = (None, st)"
| "record_read_failures c ((u, msg) # fs) st =
     (case u of
        None \<Rightarrow> record_read_failures c fs (ft_record (RecordFailure None (plain_error msg)) st)
      | Some obj \<Rightarrow>
          (case FromUnstructured c (ft_next st) obj of
             Inl e \<Rightarrow> (Some e, st)
           | Inr r \<Rightarrow>
               record_read_failures c fs
                 (ft_record (RecordFailure (Some r) (plain_error msg)) (st\<lparr>ft_next := Suc (ft_next st)\<rparr>))))"

definition recordPartialRead ::
    "'s pull_client \<Rightarrow> go_error \<Rightarrow> (uobj option \<times> string) list \<times> nat \<Rightarrow> bool \<Rightarrow> 's fetch_state
      \<Rightarrow> go_error option \<times> 's fetch_state" where
  "recordPartialRead c partial coverage stopOnError st =
     (case coverage of (fs, skipped) \<Rightarrow>
        (case record_read_failures c fs st of
           (Some e, st') \<Rightarrow> (Some e, st')
         | (None, st') \<Rightarrow>
             (let st'' = ft_record (RecordSkipped ''not readable'' ^^ skipped) st'
              in if stopOnError \<and> length fs > 0 then (Some partial, st'') else (None, st''))))"

text \<open>The error branches the three kinds of selections share: a failed read is returned, or recorded.\<close>

definition read_failed ::
    "'s pull_client \<Rightarrow> pull_request \<Rightarrow> filter_rec \<Rightarrow> go_error \<Rightarrow> 's fetch_state
      \<Rightarrow> (go_error + uobj list) \<times> 's fetch_state" where
  "read_failed c req filt err st =
     (if pq_stop_on_error req \<or> isPullCancellation c (ft_world st) err then (Inl err, st)
      else (Inr [], ft_record (RecordFailure None (wrap_error (Filter_String filt @ '': '') err)) st))"

definition pull_all ::
    "'s pull_client \<Rightarrow> pull_request \<Rightarrow> filter_rec \<Rightarrow> 's fetch_state \<Rightarrow> (go_error + uobj list) \<times> 's fetch_state" where
  "pull_all c req filt st0 =
     (case pl_list c (f_desc filt) (pq_limit req) (ft_world st0) of
        ((res, err), w) \<Rightarrow>
          (let st = st0\<lparr>ft_world := w\<rparr>; items = (case res of None \<Rightarrow> [] | Some l \<Rightarrow> ul_items l) in
           case err of
             None \<Rightarrow>
               (case res of
                  None \<Rightarrow> (Inl (plain_error ''nil pointer dereference''), st)
                | Some l \<Rightarrow> (Inr items, if ul_continue l \<noteq> [] then ft_record RecordTruncated st else st))
           | Some e \<Rightarrow>
               (case e_partial e of
                  Some coverage \<Rightarrow>
                    (case recordPartialRead c e coverage (pq_stop_on_error req) st of
                       (Some e', st') \<Rightarrow> (Inl e', st') | (None, st') \<Rightarrow> (Inr items, st'))
                | None \<Rightarrow>
                    if isPullCancellation c w e then (Inl e, st)
                    else if pq_filters req = [] \<and> e_unavailable e
                    then (Inr [], ft_record (RecordSkipped ''unavailable'') st)
                    else if e_unsupported e \<or> isUnsupportedResourceType e
                    then (Inr [], ft_record (RecordSkipped ''not listable'') st)
                    else read_failed c req filt e st)))"

definition pull_multiple ::
    "'s pull_client \<Rightarrow> pull_request \<Rightarrow> filter_rec \<Rightarrow> 's fetch_state \<Rightarrow> (go_error + uobj list) \<times> 's fetch_state" where
  "pull_multiple c req filt st0 =
     (case pl_get_multiple c (f_desc filt) (f_uids filt) (ft_world st0) of
        ((res, err), w) \<Rightarrow>
          (let st = st0\<lparr>ft_world := w\<rparr> in
           case err of
             None \<Rightarrow> (Inr res, st)
           | Some e \<Rightarrow>
               (case e_partial e of
                  Some coverage \<Rightarrow>
                    (case recordPartialRead c e coverage (pq_stop_on_error req) st of
                       (Some e', st') \<Rightarrow> (Inl e', st') | (None, st') \<Rightarrow> (Inr res, st'))
                | None \<Rightarrow>
                    if isPullCancellation c w e then (Inl e, st)
                    else if isUnsupportedResourceType e
                    then (Inr [], ft_record (RecordSkipped ''not listable'') st)
                    else read_failed c req filt e st)))"

text \<open>A single selection reads the first identifier; without one the code panics.\<close>

definition pull_single ::
    "'s pull_client \<Rightarrow> pull_request \<Rightarrow> filter_rec \<Rightarrow> 's fetch_state \<Rightarrow> (go_error + uobj list) \<times> 's fetch_state" where
  "pull_single c req filt st0 =
     (case f_uids filt of
        [] \<Rightarrow> (Inl (plain_error ''index out of range''), st0)
      | uid # uids \<Rightarrow>
          (case pl_get c (f_desc filt) uid (ft_world st0) of
             (Inr u, w) \<Rightarrow> (Inr [u], st0\<lparr>ft_world := w\<rparr>)
           | (Inl e, w) \<Rightarrow> read_failed c req filt e (st0\<lparr>ft_world := w\<rparr>)))"

definition pullFilter ::
    "'s pull_client \<Rightarrow> pull_request \<Rightarrow> filter_rec \<Rightarrow> 's fetch_state \<Rightarrow> (go_error + uobj list) \<times> 's fetch_state" where
  "pullFilter c req filt st =
     (case f_type filt of
        FilterTypeAll \<Rightarrow> pull_all c req filt st
      | FilterTypeMultiple \<Rightarrow> pull_multiple c req filt st
      | FilterTypeSingle \<Rightarrow> pull_single c req filt st
      | FilterTypeUnknown \<Rightarrow> (Inr [], st))"

text \<open>\<^verbatim>\<open>selectDeleteFilter\<close>: \<open>None\<close> if not handled.\<close>

definition selectDeleteFilter ::
    "'s pull_client \<Rightarrow> pull_request \<Rightarrow> filter_rec \<Rightarrow> 's fetch_state
      \<Rightarrow> (go_error + uobj list) option \<times> 's fetch_state" where
  "selectDeleteFilter c req filt st0 =
     (if \<not> pq_identity_only_delete req then (None, st0)
      else (case pl_select c of
              None \<Rightarrow> (None, st0)
            | Some select \<Rightarrow>
                (case select filt None (ft_world st0) of
                   ((handled, res), w) \<Rightarrow>
                     (let st = st0\<lparr>ft_world := w\<rparr> in
                      if \<not> handled then (None, st)
                      else (case res of
                              Inr items \<Rightarrow> (Some (Inr items), st)
                            | Inl e \<Rightarrow>
                                if isPullCancellation c w e then (Some (Inl e), st)
                                else if pq_filters req = [] \<and> e_unavailable e
                                then (Some (Inr []), ft_record (RecordSkipped ''unavailable'') st)
                                else if pq_stop_on_error req then (Some (Inl e), st)
                                else (Some (Inr []), ft_record (RecordFailure None e) st))))))"

text \<open>One callback of the group: it fills its slot of the results.\<close>

definition fetch_one ::
    "'s pull_client \<Rightarrow> pull_request \<Rightarrow> nat \<times> filter_rec \<Rightarrow> 's fetch_state \<Rightarrow> go_error option \<times> 's fetch_state" where
  "fetch_one c req job st =
     (case selectDeleteFilter c req (snd job) st of
        (Some (Inl e), st') \<Rightarrow>
          (Some e, st'\<lparr>ft_selected := (ft_selected st')[fst job := True], ft_results := (ft_results st')[fst job := []]\<rparr>)
      | (Some (Inr items), st') \<Rightarrow>
          (None, st'\<lparr>ft_selected := (ft_selected st')[fst job := True], ft_results := (ft_results st')[fst job := items]\<rparr>)
      | (None, st1) \<Rightarrow>
          (case pullFilter c req (snd job) st1 of
             (Inl e, st') \<Rightarrow> (Some e, st'\<lparr>ft_results := (ft_results st')[fst job := []]\<rparr>)
           | (Inr items, st') \<Rightarrow> (None, st'\<lparr>ft_results := (ft_results st')[fst job := items]\<rparr>)))"

section \<open>Collecting\<close>

record 's collect_state =
  ct_fetch :: "'s fetch_state"
  ct_coll :: resources

definition ct_record :: "(summary \<Rightarrow> summary) \<Rightarrow> 's collect_state \<Rightarrow> 's collect_state" where
  "ct_record f st = st\<lparr>ct_fetch := ft_record f (ct_fetch st)\<rparr>"

text \<open>Processing and adding one resource, the end of the loop body.\<close>

definition process_one ::
    "'s pull_client \<Rightarrow> pull_request \<Rightarrow> resource \<Rightarrow> 's collect_state \<Rightarrow> go_error option \<times> 's collect_state" where
  "process_one c req res st =
     (case run_processors (pq_processors req) res of
        (Some err, res1) \<Rightarrow>
          if pq_stop_on_error req \<or> isPullCancellation c (ft_world (ct_fetch st)) err then (Some err, st)
          else (None, ct_record (RecordFailure (Some res1) err) st)
      | (None, res1) \<Rightarrow> (None, ct_record RecordSuccess (st\<lparr>ct_coll := Add1 res1 (ct_coll st)\<rparr>)))"

text \<open>The body of the loop over the fetched objects; \<open>item\<close> carries its filter and whether the delete
  hook selected it.\<close>

definition collect_one ::
    "'f globals \<Rightarrow> 's pull_client \<Rightarrow> pull_request \<Rightarrow> 's pull_check option \<Rightarrow> filter_rec \<times> bool \<times> uobj
      \<Rightarrow> 's collect_state \<Rightarrow> go_error option \<times> 's collect_state" where
  "collect_one g c req check item st0 =
     (case item of (filt, selected, u) \<Rightarrow>
        (case FromUnstructured c (ft_next (ct_fetch st0)) u of
           Inl e \<Rightarrow> (Some e, st0)
         | Inr res \<Rightarrow>
             (let st = st0\<lparr>ct_fetch := (ct_fetch st0)\<lparr>ft_next := Suc (ft_next (ct_fetch st0))\<rparr>\<rparr> in
              if pq_exclude_read_only req \<and> IsReadOnlyNative u
              then (None, ct_record (RecordSkipped ''read-only'') st)
              else if \<not> IsManaged (gl_platform g) res \<and> pq_exclude_managed req then (None, st)
              else (case (if selected then None else check) of
                      None \<Rightarrow> process_one c req res st
                    | Some pre \<Rightarrow>
                        (case pre filt u (ft_world (ct_fetch st)) of
                           (None, w) \<Rightarrow> process_one c req res (st\<lparr>ct_fetch := (ct_fetch st)\<lparr>ft_world := w\<rparr>\<rparr>)
                         | (Some err, w) \<Rightarrow>
                             (let st' = ct_record (RecordFailure (Some res) err)
                                          (st\<lparr>ct_fetch := (ct_fetch st)\<lparr>ft_world := w\<rparr>\<rparr>)
                              in (if pq_stop_on_error req \<or> isPullCancellation c w err then Some err else None, st')))))))"

section \<open>Pull\<close>

definition pull_filters :: "descriptor list \<Rightarrow> pull_request \<Rightarrow> filter_rec list" where
  "pull_filters preferred req =
     (if pq_filters req = []
      then map (\<lambda>d. \<lparr>f_type = FilterTypeAll, f_desc = d, f_uids = []\<rparr>) preferred
      else pq_filters req)"

definition fetch_start :: "nat \<Rightarrow> 's \<Rightarrow> 's fetch_state" where
  "fetch_start n w =
     \<lparr>ft_world = w, ft_summary = empty_summary, ft_results = replicate n [], ft_selected = replicate n False,
      ft_next = 0\<rparr>"

definition fetch_all ::
    "'s pull_client \<Rightarrow> pull_request \<Rightarrow> nat list \<Rightarrow> filter_rec list \<Rightarrow> 's \<Rightarrow> go_error option \<times> 's fetch_state" where
  "fetch_all c req sched filters w =
     run_group (\<lambda>st. st\<lparr>ft_world := pl_cancel c (ft_world st)\<rparr>) (fetch_one c req) None
       (go_range sched (enumerate 0 filters)) (fetch_start (length filters) w)"

definition pull_selections :: "filter_rec list \<Rightarrow> 's fetch_state \<Rightarrow> pull_selection list" where
  "pull_selections filters st =
     map (\<lambda>(filt, selected, items). \<lparr>pls_filter = filt, pls_items = (if selected then [] else items)\<rparr>)
       (zip filters (zip (ft_selected st) (ft_results st)))"

definition pull_items :: "filter_rec list \<Rightarrow> 's fetch_state \<Rightarrow> (filter_rec \<times> bool \<times> uobj) list" where
  "pull_items filters st =
     concat (map (\<lambda>(filt, selected, items). map (\<lambda>u. (filt, selected, u)) items)
       (zip filters (zip (ft_selected st) (ft_results st))))"

text \<open>\<^verbatim>\<open>Pull\<close>. The collection is cleared before the loop, so an earlier error leaves the one the
  caller passed, here \<open>old\<close>.\<close>

definition Pull ::
    "'f globals \<Rightarrow> 's pull_client \<Rightarrow> descriptor list \<Rightarrow> nat list \<Rightarrow> pull_request \<Rightarrow> resources \<Rightarrow> 's
      \<Rightarrow> go_error option \<times> 's collect_state" where
  "Pull g c preferred sched req old w =
     (let filters = pull_filters preferred req in
      case fetch_all c req sched filters w of
        (Some e, st) \<Rightarrow> (Some e, \<lparr>ct_fetch = st, ct_coll = old\<rparr>)
      | (None, st) \<Rightarrow>
          (case (case pl_preflight c of
                   None \<Rightarrow> (Inr None, ft_world st)
                 | Some newPreflight \<Rightarrow> newPreflight (pull_selections filters st) (ft_world st)) of
             (Inl e, w') \<Rightarrow> (Some e, \<lparr>ct_fetch = st\<lparr>ft_world := w'\<rparr>, ct_coll = old\<rparr>)
           | (Inr check, w') \<Rightarrow>
               for_each (collect_one g c req check) (pull_items filters st)
                 \<lparr>ct_fetch = st\<lparr>ft_world := w'\<rparr>, ct_coll = []\<rparr>))"

section \<open>What is collected\<close>

lemma ft_simps [simp]:
  "ft_summary (ft_record f st) = f (ft_summary st)" "ft_world (ft_record f st) = ft_world st"
  "ft_next (ft_record f st) = ft_next st"
  "ct_coll (ct_record f cst) = ct_coll cst" "ct_fetch (ct_record f cst) = ft_record f (ct_fetch cst)"
  by (simp_all add: ft_record_def ct_record_def)

text \<open>Objects a pull drops without an outcome.\<close>

definition pull_ignored :: "'f globals \<Rightarrow> pull_request \<Rightarrow> uobj \<Rightarrow> bool" where
  "pull_ignored g req u \<longleftrightarrow>
     \<not> (pq_exclude_read_only req \<and> IsReadOnlyNative u) \<and> pq_exclude_managed req \<and>
     \<not> IsManaged (gl_platform g) \<lparr>res_id = 0, res_empty = False, res_obj = u, res_source = []\<rparr>"

text \<open>A resource a pull may collect, made from one of the fetched objects.\<close>

definition pull_origin :: "'f globals \<Rightarrow> 's pull_client \<Rightarrow> pull_request \<Rightarrow> uobj list \<Rightarrow> resource \<Rightarrow> bool" where
  "pull_origin g c req us r \<longleftrightarrow>
     (\<exists>u n. u \<in> set us \<and> pl_accessor c u = None \<and>
        \<not> (pq_exclude_read_only req \<and> IsReadOnlyNative u) \<and> \<not> pull_ignored g req u \<and>
        run_processors (pq_processors req) \<lparr>res_id = n, res_empty = False, res_obj = u, res_source = []\<rparr> = (None, r))"

lemma IsManaged_id: "IsManaged pf \<lparr>res_id = n, res_empty = b, res_obj = u, res_source = s\<rparr> =
    IsManaged pf \<lparr>res_id = 0, res_empty = False, res_obj = u, res_source = []\<rparr>"
  by (simp add: IsManaged_def GetManagerKind_def)

text \<open>One step of the loop: what it records, and what it adds.\<close>

definition collect_step :: "'f globals \<Rightarrow> 's pull_client \<Rightarrow> pull_request \<Rightarrow> uobj \<Rightarrow> 's collect_state \<Rightarrow> 's collect_state \<Rightarrow> bool" where
  "collect_step g c req u st st' \<longleftrightarrow>
     outcomes (ft_summary (ct_fetch st')) = outcomes (ft_summary (ct_fetch st)) + (if pull_ignored g req u then 0 else 1) \<and>
     (ct_coll st' = ct_coll st \<and> successCount (ft_summary (ct_fetch st')) = successCount (ft_summary (ct_fetch st)) \<or>
      (\<exists>r. ct_coll st' = Add1 r (ct_coll st) \<and> pull_origin g c req [u] r \<and>
         successCount (ft_summary (ct_fetch st')) = Suc (successCount (ft_summary (ct_fetch st)))))"

lemma successCount_record [simp]:
  "successCount (RecordSuccess s) = Suc (successCount s)" "successCount (RecordSkipped reason s) = successCount s"
  "successCount (RecordFailure res err s) = successCount s"
  by (simp_all add: RecordSuccess_def RecordSkipped_def RecordFailure_def)

lemma process_one_step:
  assumes acc: "pl_accessor c u = None" "\<not> (pq_exclude_read_only req \<and> IsReadOnlyNative u)" "\<not> pull_ignored g req u"
    and run: "process_one c req \<lparr>res_id = n, res_empty = False, res_obj = u, res_source = []\<rparr> st = (None, st')"
  shows "collect_step g c req u st st'"
proof -
  let ?r = "\<lparr>res_id = n, res_empty = False, res_obj = u, res_source = []\<rparr>"
  obtain err res1 where p: "run_processors (pq_processors req) ?r = (err, res1)" by (rule prod.exhaust)
  show ?thesis
  proof (cases err)
    case (Some e)
    then show ?thesis using run p acc by (auto simp: process_one_def collect_step_def split: if_splits)
  next
    case None
    then have "st' = ct_record RecordSuccess (st\<lparr>ct_coll := Add1 res1 (ct_coll st)\<rparr>)"
      using run p by (simp add: process_one_def)
    moreover have "pull_origin g c req [u] res1" using acc p None by (auto simp: pull_origin_def)
    ultimately show ?thesis using acc by (auto simp: collect_step_def)
  qed
qed

lemma collect_step_from:
  "collect_step g c req u st1 st' \<Longrightarrow> ct_coll st1 = ct_coll st \<Longrightarrow> ft_summary (ct_fetch st1) = ft_summary (ct_fetch st) \<Longrightarrow>
     collect_step g c req u st st'"
  by (simp add: collect_step_def)

lemma collect_one_step:
  assumes run: "collect_one g c req check (filt, selected, u) st0 = (None, st')"
  shows "collect_step g c req u st0 st'"
proof -
  let ?r = "\<lparr>res_id = ft_next (ct_fetch st0), res_empty = False, res_obj = u, res_source = []\<rparr>"
  let ?st = "st0\<lparr>ct_fetch := (ct_fetch st0)\<lparr>ft_next := Suc (ft_next (ct_fetch st0))\<rparr>\<rparr>"
  have acc: "pl_accessor c u = None" using run by (cases "pl_accessor c u") (auto simp: collect_one_def FromUnstructured_def)
  then have f: "FromUnstructured c (ft_next (ct_fetch st0)) u = Inr ?r" by (simp add: FromUnstructured_def)
  consider (ro) "pq_exclude_read_only req \<and> IsReadOnlyNative u"
    | (ign) "\<not> (pq_exclude_read_only req \<and> IsReadOnlyNative u)" "pull_ignored g req u"
    | (go) "\<not> (pq_exclude_read_only req \<and> IsReadOnlyNative u)" "\<not> pull_ignored g req u" by blast
  then show ?thesis
  proof cases
    case ro
    then show ?thesis using run f by (auto simp: collect_one_def Let_def collect_step_def pull_ignored_def)
  next
    case ign
    then have "st' = ?st" using run f by (auto simp: collect_one_def Let_def pull_ignored_def IsManaged_id [of _ "ft_next (ct_fetch st0)"])
    then show ?thesis using ign by (simp add: collect_step_def)
  next
    case go
    have m: "\<not> (\<not> IsManaged (gl_platform g) ?r \<and> pq_exclude_managed req)"
      using go by (auto simp: pull_ignored_def IsManaged_id [of _ "ft_next (ct_fetch st0)"])
    have eq: "collect_one g c req check (filt, selected, u) st0 =
        (case (if selected then None else check) of
           None \<Rightarrow> process_one c req ?r ?st
         | Some pre \<Rightarrow>
             (case pre filt u (ft_world (ct_fetch ?st)) of
                (None, w) \<Rightarrow> process_one c req ?r (?st\<lparr>ct_fetch := (ct_fetch ?st)\<lparr>ft_world := w\<rparr>\<rparr>)
              | (Some err, w) \<Rightarrow>
                  (if pq_stop_on_error req \<or> isPullCancellation c w err then Some err else None,
                   ct_record (RecordFailure (Some ?r) err) (?st\<lparr>ct_fetch := (ct_fetch ?st)\<lparr>ft_world := w\<rparr>\<rparr>))))"
    proof -
      have a: "(pq_exclude_read_only req \<and> IsReadOnlyNative u) = False" using go(1) by simp
      have b: "(\<not> IsManaged (gl_platform g) ?r \<and> pq_exclude_managed req) = False" using m by simp
      show ?thesis unfolding collect_one_def Let_def prod.case f sum.case a b if_False by (rule refl)
    qed
    show ?thesis
    proof (cases "if selected then None else check")
      case None
      then have "process_one c req ?r ?st = (None, st')" using run eq by simp
      from process_one_step [OF acc go this] show ?thesis by (rule collect_step_from) simp_all
    next
      case (Some pre)
      obtain e w where e: "pre filt u (ft_world (ct_fetch ?st)) = (e, w)" by (rule prod.exhaust)
      show ?thesis
      proof (cases e)
        case None
        then have "process_one c req ?r (?st\<lparr>ct_fetch := (ct_fetch ?st)\<lparr>ft_world := w\<rparr>\<rparr>) = (None, st')"
          using run eq Some e by simp
        from process_one_step [OF acc go this] show ?thesis by (rule collect_step_from) simp_all
      next
        case (Some err)
        then have "st' = ct_record (RecordFailure (Some ?r) err) (?st\<lparr>ct_fetch := (ct_fetch ?st)\<lparr>ft_world := w\<rparr>\<rparr>)"
          using run eq \<open>(if selected then None else check) = Some pre\<close> e by (simp split: if_splits)
        then show ?thesis using go(2) by (simp add: collect_step_def)
      qed
    qed
  qed
qed

lemma set_Add1: "set (Add1 r coll) \<subseteq> insert (Ref r, r) (set coll)"
  unfolding Add1_def by (induction coll) auto

lemma length_Add1: "length (Add1 r coll) \<le> Suc (length coll)"
  unfolding Add1_def by (induction coll) auto

lemma pull_origin_mono: "pull_origin g c req us r \<Longrightarrow> set us \<subseteq> set vs \<Longrightarrow> pull_origin g c req vs r"
  unfolding pull_origin_def by blast

lemma collect_all:
  assumes "for_each (collect_one g c req check) items st = (None, st')"
  shows "outcomes (ft_summary (ct_fetch st')) = outcomes (ft_summary (ct_fetch st)) +
      length (filter (\<lambda>(filt, selected, u). \<not> pull_ignored g req u) items) \<and>
    (\<forall>e \<in> set (ct_coll st') - set (ct_coll st). fst e = Ref (snd e) \<and> pull_origin g c req (map (\<lambda>i. snd (snd i)) items) (snd e)) \<and>
    length (ct_coll st') + successCount (ft_summary (ct_fetch st)) \<le>
      length (ct_coll st) + successCount (ft_summary (ct_fetch st'))"
  using assms
proof (induction items arbitrary: st)
  case (Cons item items)
  obtain filt selected u where item: "item = (filt, selected, u)" by (metis prod.exhaust)
  obtain r t where one: "collect_one g c req check item st = (r, t)" by (rule prod.exhaust)
  then have r: "r = None" "for_each (collect_one g c req check) items t = (None, st')"
    using Cons.prems by (cases r; simp)+
  have step: "collect_step g c req u st t" using collect_one_step one r item by blast
  note IH = Cons.IH [OF r(2)]
  have o: "outcomes (ft_summary (ct_fetch st')) = outcomes (ft_summary (ct_fetch st)) +
      length (filter (\<lambda>(filt, selected, u). \<not> pull_ignored g req u) (item # items))"
    using step IH by (auto simp: collect_step_def item)
  let ?us = "map (\<lambda>i. snd (snd i)) (item # items)"
  have new: "fst e = Ref (snd e) \<and> pull_origin g c req ?us (snd e)" if "e \<in> set (ct_coll st')" "e \<notin> set (ct_coll st)" for e
  proof (cases "e \<in> set (ct_coll t)")
    case True
    then have "\<exists>q. ct_coll t = Add1 q (ct_coll st) \<and> pull_origin g c req [u] q"
      using step that(2) by (auto simp: collect_step_def)
    then obtain q where q: "ct_coll t = Add1 q (ct_coll st)" "pull_origin g c req [u] q" by blast
    then have "e = (Ref q, q)" using True set_Add1 [of q "ct_coll st"] \<open>e \<notin> set (ct_coll st)\<close> by auto
    then show ?thesis using pull_origin_mono [OF q(2), of ?us] item by simp
  next
    case False
    then have "fst e = Ref (snd e) \<and> pull_origin g c req (map (\<lambda>i. snd (snd i)) items) (snd e)" using IH that(1) by blast
    then show ?thesis using pull_origin_mono [of g c req _ "snd e" ?us] by (auto simp: subset_iff)
  qed
  have "length (ct_coll t) + successCount (ft_summary (ct_fetch st)) \<le> length (ct_coll st) + successCount (ft_summary (ct_fetch t))"
    using step length_Add1 by (fastforce simp: collect_step_def)
  then have "length (ct_coll st') + successCount (ft_summary (ct_fetch st)) \<le>
      length (ct_coll st) + successCount (ft_summary (ct_fetch st'))" using IH by linarith
  then show ?case using o new by blast
qed simp

section \<open>Bookkeeping\<close>

lemma record_read_failures_ok:
  "summary_ok (ft_summary st) \<Longrightarrow> summary_ok (ft_summary (snd (record_read_failures c fs st)))"
proof (induction c fs st rule: record_read_failures.induct)
  case (2 c u msg fs st)
  show ?case
  proof (cases u)
    case None
    then show ?thesis using 2 by (simp add: summary_ok_record)
  next
    case (Some obj)
    then show ?thesis using 2 by (cases "FromUnstructured c (ft_next st) obj") (simp_all add: summary_ok_record)
  qed
qed simp

lemma recordPartialRead_ok:
  assumes "summary_ok (ft_summary st)"
  shows "summary_ok (ft_summary (snd (recordPartialRead c e coverage stop st)))"
proof -
  obtain fs skipped where cov: "coverage = (fs, skipped)" by (rule prod.exhaust)
  obtain r t where r: "record_read_failures c fs st = (r, t)" by (rule prod.exhaust)
  have t: "summary_ok (ft_summary t)" using record_read_failures_ok [OF assms, of c fs] r by simp
  have "summary_ok ((RecordSkipped reason ^^ n) s)" if "summary_ok s" for reason n s
    using that by (induction n) (simp_all add: summary_ok_record)
  then show ?thesis using t by (cases r) (simp_all add: recordPartialRead_def cov r Let_def)
qed

lemma read_failed_ok:
  "summary_ok (ft_summary st) \<Longrightarrow> summary_ok (ft_summary (snd (read_failed c req filt err st)))"
  by (simp add: read_failed_def summary_ok_record)

lemma pullFilter_ok:
  assumes "summary_ok (ft_summary st)"
  shows "summary_ok (ft_summary (snd (pullFilter c req filt st)))"
proof -
  have w: "summary_ok (ft_summary (st\<lparr>ft_world := w\<rparr>))" for w using assms by simp
  note ok = recordPartialRead_ok [OF w] read_failed_ok [OF w] summary_ok_record assms
  have p: "summary_ok (ft_summary t)" if "recordPartialRead c e cov stop (st\<lparr>ft_world := w\<rparr>) = (r, t)" for e cov stop w r t
    using ok(1) [of c e cov stop w] that by simp
  have "summary_ok (ft_summary (snd (pull_all c req filt st)))"
    using ok by (auto simp: pull_all_def Let_def split: prod.split option.split dest: p)
  moreover have "summary_ok (ft_summary (snd (pull_multiple c req filt st)))"
    using ok by (auto simp: pull_multiple_def Let_def split: prod.split option.split dest: p)
  moreover have "summary_ok (ft_summary (snd (pull_single c req filt st)))"
    using ok by (auto simp: pull_single_def split: list.split prod.split sum.split)
  ultimately show ?thesis using assms by (cases "f_type filt") (simp_all add: pullFilter_def)
qed

lemma selectDeleteFilter_ok:
  "summary_ok (ft_summary st) \<Longrightarrow> summary_ok (ft_summary (snd (selectDeleteFilter c req filt st)))"
  by (auto simp: selectDeleteFilter_def Let_def summary_ok_record split: option.split prod.split sum.split)

lemma fetch_one_ok:
  assumes "summary_ok (ft_summary st)"
  shows "summary_ok (ft_summary (snd (fetch_one c req job st)))"
proof -
  obtain x t where x: "selectDeleteFilter c req (snd job) st = (x, t)" by (rule prod.exhaust)
  have t: "summary_ok (ft_summary t)" using selectDeleteFilter_ok [OF assms, of c req "snd job"] x by simp
  obtain y v where y: "pullFilter c req (snd job) t = (y, v)" by (rule prod.exhaust)
  have v: "summary_ok (ft_summary v)" using pullFilter_ok [OF t, of c req "snd job"] y by simp
  consider e where "x = Some (Inl e)" | i where "x = Some (Inr i)" | "x = None" by (metis option.exhaust sum.exhaust)
  then show ?thesis
    using x y t v by cases (cases y; simp add: fetch_one_def)+
qed

lemma collect_one_ok:
  assumes "summary_ok (ft_summary (ct_fetch st))"
  shows "summary_ok (ft_summary (ct_fetch (snd (collect_one g c req check item st))))"
proof -
  have p: "summary_ok (ft_summary (ct_fetch (snd (process_one c req r s))))" if "summary_ok (ft_summary (ct_fetch s))" for r s
    using that by (auto simp: process_one_def summary_ok_record split: prod.split option.split)
  show ?thesis using assms
    by (auto simp: collect_one_def Let_def summary_ok_record p split: prod.split sum.split option.split)
qed

text \<open>The callbacks of the fetch group and the loop over the objects keep the bookkeeping invariant.\<close>

interpretation fetch_books: keeping_step
  "\<lambda>(c, req). fetch_one c req"
  "\<lambda>(c, req) st. st\<lparr>ft_world := pl_cancel c (ft_world st)\<rparr>"
  "\<lambda>p s t. summary_ok (ft_summary s) \<longrightarrow> summary_ok (ft_summary t)"
  by unfold_locales (auto simp: fetch_one_ok split: prod.split)

interpretation collect_books: keeping_step
  "\<lambda>(g, c, req, check). collect_one g c req check"
  "\<lambda>p st. st"
  "\<lambda>p s t. summary_ok (ft_summary (ct_fetch s)) \<longrightarrow> summary_ok (ft_summary (ct_fetch t))"
  by unfold_locales (auto simp: collect_one_ok split: prod.split)


section \<open>Errors\<close>

text \<open>A missing object is reported differently when it is selected with others: alone it is a failure
  (or ends the pull, if the request stops at errors); among several names it makes the whole selection
  a silent skip, the objects found under the other names included, even if the request stops at errors.\<close>

theorem missing_name_skips_selection:
  assumes e: "e_not_found e" "e_partial e = None" "\<And>s. \<not> isPullCancellation c s e"
    and many: "pl_get_multiple c desc (n # n' # ns) (ft_world st) = ((found, Some e), w)"
    and one: "pl_get c desc n (ft_world st) = (Inl e, w)"
  shows "pullFilter c req \<lparr>f_type = FilterTypeMultiple, f_desc = desc, f_uids = n # n' # ns\<rparr> st =
      (Inr [], ft_record (RecordSkipped ''not listable'') (st\<lparr>ft_world := w\<rparr>)) \<and>
    (let filt = \<lparr>f_type = FilterTypeSingle, f_desc = desc, f_uids = [n]\<rparr> in
     pullFilter c req filt st =
      (if pq_stop_on_error req then (Inl e, st\<lparr>ft_world := w\<rparr>)
       else (Inr [], ft_record (RecordFailure None (wrap_error (Filter_String filt @ '': '') e)) (st\<lparr>ft_world := w\<rparr>))))"
  using e by (simp add: pullFilter_def pull_multiple_def many pull_single_def one read_failed_def
      isUnsupportedResourceType_def Let_def)

lemma record_read_failures_error:
  "(\<And>u. pl_accessor c u = None) \<Longrightarrow> fst (record_read_failures c fs st) = None"
proof (induction c fs st rule: record_read_failures.induct)
  case (2 c u msg fs st)
  then show ?case by (cases u) (simp_all add: FromUnstructured_def)
qed simp

lemma recordPartialRead_error:
  assumes "\<And>u. pl_accessor c u = None"
  shows "fst (recordPartialRead c e coverage False st) = None"
proof -
  obtain fs n where cov: "coverage = (fs, n)" by (rule prod.exhaust)
  obtain r t where r: "record_read_failures c fs st = (r, t)" by (rule prod.exhaust)
  then have "r = None" using record_read_failures_error [OF assms, of fs st] by simp
  then show ?thesis by (simp add: recordPartialRead_def cov r Let_def)
qed

text \<open>What the code relies on: the accessor accepts the objects, and a list without error exists.\<close>

definition pull_regular :: "'s pull_client \<Rightarrow> bool" where
  "pull_regular c \<longleftrightarrow> (\<forall>u. pl_accessor c u = None) \<and> (\<forall>d n w. fst (pl_list c d n w) \<noteq> (None, None))"

lemma pullFilter_error:
  assumes c: "pull_regular c" and stop: "\<not> pq_stop_on_error req"
    and uids: "f_type filt = FilterTypeSingle \<Longrightarrow> f_uids filt \<noteq> []"
    and run: "pullFilter c req filt st = (Inl e, st')"
  shows "\<exists>w. isPullCancellation c w e"
proof -
  have acc: "\<And>u. pl_accessor c u = None" using c by (simp add: pull_regular_def)
  have part: "recordPartialRead c e' cov False s \<noteq> (Some x, t)" for e' cov s x t
    using recordPartialRead_error [OF acc, of e' cov s] by (metis fst_conv option.distinct(1))
  show ?thesis
  proof (cases "f_type filt")
    case FilterTypeUnknown
    then show ?thesis using run by (simp add: pullFilter_def)
  next
    case FilterTypeAll
    obtain res err w where l: "pl_list c (f_desc filt) (pq_limit req) (ft_world st) = ((res, err), w)" by (metis prod.exhaust)
    have "(res, err) \<noteq> (None, None)" using c l unfolding pull_regular_def by (metis fst_conv)
    then show ?thesis using run FilterTypeAll l stop part
      by (auto simp: pullFilter_def pull_all_def read_failed_def Let_def split: option.splits prod.splits if_splits)
  next
    case FilterTypeMultiple
    then show ?thesis using run stop part
      by (auto simp: pullFilter_def pull_multiple_def read_failed_def Let_def split: option.splits prod.splits if_splits)
  next
    case FilterTypeSingle
    then show ?thesis using run stop uids
      by (auto simp: pullFilter_def pull_single_def read_failed_def Let_def split: list.splits prod.splits sum.splits if_splits)
  qed
qed

lemma fetch_one_error:
  assumes "pull_regular c" "\<not> pq_stop_on_error req" "f_type (snd job) = FilterTypeSingle \<Longrightarrow> f_uids (snd job) \<noteq> []"
    and run: "fetch_one c req job st = (Some e, st')"
  shows "\<exists>w. isPullCancellation c w e"
proof -
  obtain x t where x: "selectDeleteFilter c req (snd job) st = (x, t)" by (rule prod.exhaust)
  obtain y v where y: "pullFilter c req (snd job) t = (y, v)" by (rule prod.exhaust)
  consider e' where "x = Some (Inl e')" | i where "x = Some (Inr i)" | "x = None" by (metis option.exhaust sum.exhaust)
  then show ?thesis
  proof cases
    case 1
    then have "e' = e" using run x by (simp add: fetch_one_def)
    then show ?thesis using x 1 assms(2)
      by (auto simp: selectDeleteFilter_def Let_def split: if_splits option.splits prod.splits sum.splits)
  next
    case 2
    then show ?thesis using run x by (simp add: fetch_one_def)
  next
    case 3
    then have "y = Inl e" using run x y by (cases y) (auto simp: fetch_one_def)
    then show ?thesis using pullFilter_error [OF assms(1,2,3)] y by blast
  qed
qed

lemma collect_one_error:
  assumes "pull_regular c" "\<not> pq_stop_on_error req" and run: "collect_one g c req check item st = (Some e, st')"
  shows "\<exists>w. isPullCancellation c w e"
proof -
  have acc: "FromUnstructured c n u \<noteq> Inl e'" for n u e' using assms(1) by (simp add: pull_regular_def FromUnstructured_def)
  have p: "\<exists>w. isPullCancellation c w e" if "process_one c req r s = (Some e, t)" for r s t
    using that assms(2) by (auto simp: process_one_def split: prod.splits option.splits if_splits)
  show ?thesis using run assms(2)
    by (auto simp: collect_one_def Let_def acc split: prod.splits sum.splits option.splits if_splits dest: p)
qed

lemma for_each_error: "for_each f xs s = (Some e, s') \<Longrightarrow> \<exists>x t. x \<in> set xs \<and> f x t = (Some e, s')"
  by (induction xs arbitrary: s) (auto split: prod.splits option.splits, blast+)

text \<open>A pull that is not asked to stop at errors ends early only when it is cancelled: with a client
  whose objects have metadata and without preflight hook, the error it returns is a cancellation.
  Every other error of a selection or of an object is in the summary.\<close>

theorem Pull_errors:
  assumes c: "pull_regular c" "pl_preflight c = None" and stop: "\<not> pq_stop_on_error req"
    and uids: "\<And>filt. filt \<in> set (pq_filters req) \<Longrightarrow> f_type filt = FilterTypeSingle \<Longrightarrow> f_uids filt \<noteq> []"
    and run: "Pull g c preferred sched req old w = (Some e, st')"
  shows "\<exists>w'. isPullCancellation c w' e"
proof -
  let ?fs = "pull_filters preferred req"
  have uids': "f_type filt = FilterTypeSingle \<Longrightarrow> f_uids filt \<noteq> []" if "filt \<in> set ?fs" for filt
    using that uids by (auto simp: pull_filters_def split: if_splits)
  obtain r f where f: "fetch_all c req sched ?fs w = (r, f)" by (rule prod.exhaust)
  show ?thesis
  proof (cases r)
    case (Some e')
    then have "fetch_all c req sched ?fs w = (Some e, f)" using run f by (simp add: Pull_def)
    then obtain job t u where "job \<in> set (go_range sched (enumerate 0 ?fs))" "fetch_one c req job t = (Some e, u)"
      using fetch_books.group_error [where p = "(c, req)" and s = "fetch_start (length ?fs) w" and e = e and s' = f
          and xs = "go_range sched (enumerate 0 ?fs)"] by (auto simp: fetch_all_def)
    moreover from this have "snd job \<in> set ?fs" by (metis enumerate_eq_zip image_eqI in_set_zipE prod.collapse set_go_range)
    ultimately show ?thesis using fetch_one_error [OF c(1) stop, of job] uids' by blast
  next
    case None
    then have "for_each (collect_one g c req None) (pull_items ?fs f) \<lparr>ct_fetch = f\<lparr>ft_world := ft_world f\<rparr>, ct_coll = []\<rparr> = (Some e, st')"
      using run f c(2) by (simp add: Pull_def)
    then show ?thesis using for_each_error collect_one_error [OF c(1) stop] by metis
  qed
qed

section \<open>Examples\<close>

text \<open>The router as the client of a pull, with a given accessor and an invocation that is never cancelled.\<close>

definition router_pull_client :: "('s routed \<Rightarrow> bool) \<Rightarrow> (uobj \<Rightarrow> go_error option) \<Rightarrow> 's router \<Rightarrow> 's routed pull_client" where
  "router_pull_client is_done accessor r =
     \<lparr>pl_get = router_Get r, pl_get_multiple = router_GetMultiple r, pl_list = router_List r,
      pl_select = Some (router_SelectDelete r),
      pl_preflight = Some (\<lambda>sels st. case router_NewPullPreflight r sels st of
         (Inl e, st') \<Rightarrow> (Inl e, st') | (Inr check, st') \<Rightarrow> (Inr (Some check), st')),
      pl_cancel = (\<lambda>st. st\<lparr>rt_world := r_cancel r (rt_world st)\<rparr>),
      pl_accessor = accessor, pl_done = is_done, pl_is_cause = (\<lambda>e. False)\<rparr>"

text \<open>A router with the typed adapter \<open>sample_crud\<close> over a list of names.\<close>

definition crud_router :: "string list router" where
  "crud_router =
     \<lparr>r_dynamic = \<lparr>c_create = (\<lambda>d u dr s. (Inl ErrUnsupported, s)), c_update = (\<lambda>d u dr s. (Inl ErrUnsupported, s)),
        c_get = (\<lambda>d n s. (Inl ErrUnsupported, s)), c_get_multiple = (\<lambda>d ns s. (([], Some ErrUnsupported), s)),
        c_list = (\<lambda>d n s. ((None, Some ErrUnsupported), s)), c_delete = (\<lambda>d n dr s. (Some ErrUnsupported, s))\<rparr>,
      r_factories = [(Descriptor_GroupVersionKind (tc_descriptor sample_crud), \<lambda>s. (Inr (AsAdapter sample_crud), s))],
      r_cancel = (\<lambda>s. s), r_schedule = (\<lambda>ns. [])\<rparr>"

definition crud_client :: "string list routed pull_client" where
  "crud_client = router_pull_client (\<lambda>s. False) (\<lambda>u. None) crud_router"

definition sample_pull :: "filter_rec list \<Rightarrow> pull_request" where
  "sample_pull fs =
     \<lparr>pq_filters = fs, pq_processors = [], pq_exclude_managed = False, pq_exclude_read_only = False,
      pq_stop_on_error = False, pq_limit = 0, pq_identity_only_delete = False\<rparr>"

definition pull_globals :: "unit globals" where
  "pull_globals = \<lparr>gl_gvks = empty_gvk_registry, gl_regs = [], gl_keys = [], gl_platform = sample_platform\<rparr>"


lemma missing_name_skips_selection_witness:
  "pullFilter crud_client (sample_pull []\<lparr>pq_stop_on_error := True\<rparr>)
     \<lparr>f_type = FilterTypeMultiple, f_desc = tc_descriptor sample_crud, f_uids = [''zz'', ''a'']\<rparr>
     (fetch_start 1 (snd (router_Get crud_router (tc_descriptor sample_crud) ''zz'' (NewResourceClientRouter [''a''])))) =
   (Inr [], ft_record (RecordSkipped ''not listable'')
     (fetch_start 1 (snd (router_Get crud_router (tc_descriptor sample_crud) ''zz'' (NewResourceClientRouter [''a''])))))"
proof -
  let ?d = "tc_descriptor sample_crud" and ?w = "snd (router_Get crud_router (tc_descriptor sample_crud) ''zz'' (NewResourceClientRouter [''a'']))"
  let ?e = "api_not_found ''zz''"
  have e: "e_not_found ?e" "e_partial ?e = None" "\<not> isPullCancellation crud_client s ?e" for s
    by (simp_all add: api_not_found_def plain_error_def isPullCancellation_def crud_client_def router_pull_client_def)
  have w: "?w = \<lparr>rt_world = [''a''], rt_done = [Descriptor_GroupVersionKind ?d],
      rt_instances = [(Descriptor_GroupVersionKind ?d, AsAdapter sample_crud)], rt_initErrs = []\<rparr>"
    by (simp add: router_Get_def route_def getAdapter_def crud_router_def NewResourceClientRouter_def run_factory_def
        on_world_def AsAdapter_def typed_Get_def crud_Get_def sample_crud_def)
  have many: "pl_get_multiple crud_client ?d [''zz'', ''a''] (ft_world (fetch_start 1 ?w)) = (([], Some ?e), ?w)"
    unfolding w
    by (simp add: crud_client_def router_pull_client_def fetch_start_def router_GetMultiple_def route_def getAdapter_def
        crud_router_def on_world_def AsAdapter_def get_concurrently_def get_one_def typed_Get_def crud_Get_def sample_crud_def
        crud_not_found_def wrap_error_def ErrNotFound_def plain_error_def api_not_found_def enumerate_eq_zip
        crud_ToUnstructured_def Let_def split: prod.split option.split)
  have one: "pl_get crud_client ?d ''zz'' (ft_world (fetch_start 1 ?w)) = (Inl ?e, ?w)"
    unfolding w
    by (simp add: crud_client_def router_pull_client_def fetch_start_def router_Get_def route_def getAdapter_def
        crud_router_def on_world_def AsAdapter_def typed_Get_def crud_Get_def sample_crud_def
        crud_not_found_def wrap_error_def ErrNotFound_def plain_error_def api_not_found_def Let_def)
  have "fetch_start 1 ?w\<lparr>ft_world := ?w\<rparr> = fetch_start 1 ?w" by (simp add: fetch_start_def)
  then show ?thesis
    using missing_name_skips_selection [OF e many one, of "sample_pull []\<lparr>pq_stop_on_error := True\<rparr>"] by simp
qed

lemma Pull_errors_witness:
  "\<exists>w'. isPullCancellation (crud_client\<lparr>pl_preflight := None,
       pl_get := (\<lambda>d n s. (Inl ((plain_error ''context canceled'')\<lparr>e_canceled := True\<rparr>), s)),
       pl_list := (\<lambda>d n s. ((None, Some ErrUnsupported), s))\<rparr>) w'
     (the (fst (Pull pull_globals (crud_client\<lparr>pl_preflight := None,
       pl_get := (\<lambda>d n s. (Inl ((plain_error ''context canceled'')\<lparr>e_canceled := True\<rparr>), s)),
       pl_list := (\<lambda>d n s. ((None, Some ErrUnsupported), s))\<rparr>) []
       [] (sample_pull [\<lparr>f_type = FilterTypeSingle, f_desc = tc_descriptor sample_crud, f_uids = [''a'']\<rparr>]) []
       (NewResourceClientRouter []))))"
proof -
  let ?c = "crud_client\<lparr>pl_preflight := None,
       pl_get := (\<lambda>d n s. (Inl ((plain_error ''context canceled'')\<lparr>e_canceled := True\<rparr>), s)),
       pl_list := (\<lambda>d n s. ((None, Some ErrUnsupported), s))\<rparr>"
  let ?req = "sample_pull [\<lparr>f_type = FilterTypeSingle, f_desc = tc_descriptor sample_crud, f_uids = [''a'']\<rparr>]"
  have c: "pull_regular ?c" "pl_preflight ?c = None"
    by (simp_all add: pull_regular_def crud_client_def router_pull_client_def)
  have "fst (Pull pull_globals ?c [] [] ?req [] (NewResourceClientRouter [])) \<noteq> None" by code_simp
  then obtain e st' where run: "Pull pull_globals ?c [] [] ?req [] (NewResourceClientRouter []) = (Some e, st')"
    by (cases "Pull pull_globals ?c [] [] ?req [] (NewResourceClientRouter [])") auto
  have stop: "\<not> pq_stop_on_error ?req" by (simp add: sample_pull_def)
  have uids: "f_uids filt \<noteq> []" if "filt \<in> set (pq_filters ?req)" for filt using that by (simp add: sample_pull_def)
  from Pull_errors [OF c stop uids run] show ?thesis unfolding run by simp
qed

end
