(* ===== verification/Gcx_Delete.thy ===== *)
theory Gcx_Delete
  imports Gcx_Summary Gcx_DryRun
begin

text \<open>
  Deleting resources (\<^verbatim>\<open>remote/deleter.go\<close>): the optional selection of local identities, then one
  deletion per resource, run concurrently. The lemmas show which resources are accounted for, which
  never reach the client, and that a dry run changes nothing.
\<close>

section \<open>Client, request and state\<close>

record 's delete_client =
  dc_delete :: "descriptor \<Rightarrow> string \<Rightarrow> string list \<Rightarrow> 's \<Rightarrow> go_error option \<times> 's"
  dc_select :: "(filter_rec \<Rightarrow> uobj list option \<Rightarrow> 's \<Rightarrow> (bool \<times> (go_error + uobj list)) \<times> 's) option"
  dc_cancel :: "'s \<Rightarrow> 's"
  dc_accessor :: "uobj \<Rightarrow> go_error option"

record delete_request =
  dq_resources :: resources
  dq_stop_on_error :: bool
  dq_dry_run :: bool
  dq_resolve_local :: bool

record 's delete_state =
  ds_world :: 's
  ds_summary :: summary

definition ds_record :: "(summary \<Rightarrow> summary) \<Rightarrow> 's delete_state \<Rightarrow> 's delete_state" where
  "ds_record f st = st\<lparr>ds_summary := f (ds_summary st)\<rparr>"

section \<open>One resource\<close>

definition unnamed_native_error :: "uobj \<Rightarrow> go_error" where
  "unnamed_native_error u =
     (let template = (gvk_kind (u_gvk u) = ''TemplateGroup'');
          found = spec_string_or_empty u (if template then ''title'' else ''name'');
          title = (if found = [] then ''<title>'' else found);
          command = (if template then ''template-groups'' else ''time-intervals'')
      in plain_error (gvk_kind (u_gvk u) @ '' '' @ title @ '' has no metadata.name; delete it with 'gcx alert '' @ command @
           '' delete '' @ title @ '' or use a pulled manifest with its real API name''))"

definition deleteResource ::
    "'f globals \<Rightarrow> 's delete_client \<Rightarrow> descriptor \<Rightarrow> resource \<Rightarrow> bool \<Rightarrow> 's \<Rightarrow> go_error option \<times> 's" where
  "deleteResource g c desc res dryRun w =
     (case CheckMutation (gl_gvks g) (gl_regs g) desc ''delete'' of
        Some err \<Rightarrow> (Some err, w)
      | None \<Rightarrow>
          if IsReadOnlyNative (res_obj res) then (Some (errReadOnlyNative (res_obj res)), w)
          else if res_name res = [] \<and> HasServerDerivedName (res_gvk res)
          then (Some (unnamed_native_error (res_obj res)), w)
          else dc_delete c desc (res_name res) (if dryRun then [''All''] else []) w)"

definition delete_one ::
    "'f globals \<Rightarrow> 's delete_client \<Rightarrow> (group_version_kind \<times> descriptor) list \<Rightarrow> delete_request \<Rightarrow> resource
      \<Rightarrow> 's delete_state \<Rightarrow> go_error option \<times> 's delete_state" where
  "delete_one g c supported req res st0 =
     (case map_of supported (NormalizeGVK (gl_gvks g) (res_gvk res)) of
        None \<Rightarrow>
          (if dq_stop_on_error req
           then Some (plain_error (''resource not supported by the API: '' @ res_name res)) else None, st0)
      | Some desc \<Rightarrow>
          (case deleteResource g c desc res (dq_dry_run req) (ds_world st0) of
             (err, w) \<Rightarrow>
               (let st = st0\<lparr>ds_world := w\<rparr> in
                case err of
                  None \<Rightarrow> (None, ds_record RecordSuccess st)
                | Some e \<Rightarrow>
                    if e_read_only e then (None, ds_record (RecordSkipped ''read-only'') st)
                    else if e_dry_run_unverified e then (None, ds_record (RecordSkipped ''not server-verified'') st)
                    else (if dq_stop_on_error req then Some e else None, ds_record (RecordFailure (Some res) e) st))))"

section \<open>Local identities\<close>

text \<open>The sources by kind, in the order of the iteration over the collection.\<close>

definition group_sources :: "'f globals \<Rightarrow> nat list \<Rightarrow> resources \<Rightarrow> (group_version_kind \<times> resource list) list" where
  "group_sources g cs coll =
     snd (ForEach cs (\<lambda>r m. (None :: unit option, append_to (NormalizeGVK (gl_gvks g) (res_gvk r)) r m)) coll [])"

text \<open>Adding several resources under distinct keys; \<open>fresh_key\<close> always finds one.\<close>

fun add_all_distinct :: "resource list \<Rightarrow> resources \<Rightarrow> resources" where
  "add_all_distinct [] coll = coll"
| "add_all_distinct (r # rs) coll =
     (case AddDistinct r coll of None \<Rightarrow> coll | Some coll' \<Rightarrow> add_all_distinct rs coll')"

text \<open>The selected items as resources; with as many items as sources, each keeps the source path of
  its position.\<close>

fun add_selected ::
    "'s delete_client \<Rightarrow> nat \<Rightarrow> bool \<Rightarrow> uobj list \<Rightarrow> resource list \<Rightarrow> resources \<Rightarrow> go_error option \<times> resources" where
  "add_selected c n same [] sources coll = (None, coll)"
| "add_selected c n same (u # us) sources coll =
     (case dc_accessor c u of
        Some e \<Rightarrow> (Some e, coll)
      | None \<Rightarrow>
          add_selected c (Suc n) same us (tl sources)
            (Add1 \<lparr>res_id = n, res_empty = False, res_obj = u,
                   res_source = (if same then res_source (hd sources) else [])\<rparr> coll))"

definition record_all_failed :: "resource list \<Rightarrow> go_error \<Rightarrow> summary \<Rightarrow> summary" where
  "record_all_failed sources err s = fold (\<lambda>r. RecordFailure (Some r) err) sources s"

fun select_kinds ::
    "'f globals \<Rightarrow> 's delete_client \<Rightarrow> (group_version_kind \<times> descriptor) list \<Rightarrow> delete_request
      \<Rightarrow> (group_version_kind \<times> resource list) list \<Rightarrow> resources \<times> 's delete_state
      \<Rightarrow> go_error option \<times> (resources \<times> 's delete_state)" where
  "select_kinds g c supported req [] st = (None, st)"
| "select_kinds g c supported req ((gvk, sources) # kinds) (coll, st) =
     (case (case map_of supported gvk of
              None \<Rightarrow> None
            | Some desc \<Rightarrow> if CheckMutation (gl_gvks g) (gl_regs g) desc ''delete'' \<noteq> None then None else Some desc) of
        None \<Rightarrow> select_kinds g c supported req kinds (add_all_distinct sources coll, st)
      | Some desc \<Rightarrow>
          (case dc_select c of
             None \<Rightarrow> select_kinds g c supported req kinds (coll, st)
           | Some select \<Rightarrow>
               (case select \<lparr>f_type = FilterTypeAll, f_desc = desc, f_uids = []\<rparr> (Some (map res_obj sources)) (ds_world st) of
                  ((handled, res), w) \<Rightarrow>
                    (let st1 = st\<lparr>ds_world := w\<rparr> in
                     if \<not> handled then select_kinds g c supported req kinds (add_all_distinct sources coll, st1)
                     else (case res of
                             Inl e \<Rightarrow>
                               (let st2 = ds_record (record_all_failed sources e) st1
                                in if dq_stop_on_error req then (Some e, (coll, st2))
                                   else select_kinds g c supported req kinds (coll, st2))
                           | Inr items \<Rightarrow>
                               (case add_selected c (length coll) (length items = length sources) items sources coll of
                                  (Some e, coll') \<Rightarrow> (Some e, (coll', st1))
                                | (None, coll') \<Rightarrow> select_kinds g c supported req kinds (coll', st1)))))))"

definition selectLocalIdentities ::
    "'f globals \<Rightarrow> 's delete_client \<Rightarrow> nat list \<Rightarrow> nat list \<Rightarrow> (group_version_kind \<times> descriptor) list \<Rightarrow> delete_request
      \<Rightarrow> 's delete_state \<Rightarrow> go_error option \<times> (resources \<times> 's delete_state)" where
  "selectLocalIdentities g c cs cs' supported req st =
     (case dc_select c of
        None \<Rightarrow> (None, (dq_resources req, st))
      | Some select \<Rightarrow>
          select_kinds g c supported req (go_range cs' (group_sources g cs (dq_resources req))) ([], st))"

section \<open>Delete\<close>

definition delete_group ::
    "'f globals \<Rightarrow> 's delete_client \<Rightarrow> nat list \<Rightarrow> (group_version_kind \<times> descriptor) list \<Rightarrow> delete_request
      \<Rightarrow> 's delete_state \<Rightarrow> go_error option \<times> 's delete_state" where
  "delete_group g c cs supported req st =
     ForEachConcurrently cs (\<lambda>st. st\<lparr>ds_world := dc_cancel c (ds_world st)\<rparr>) (delete_one g c supported req)
       (dq_resources req) st"

record delete_schedule =
  sd_sources :: "nat list"
  sd_kinds :: "nat list"
  sd_group :: "nat list"

definition Delete ::
    "'f globals \<Rightarrow> 's delete_client \<Rightarrow> descriptor list \<Rightarrow> delete_schedule \<Rightarrow> delete_request \<Rightarrow> 's
      \<Rightarrow> go_error option \<times> 's delete_state" where
  "Delete g c registry sched req w =
     (let supported = supportedDescriptors registry; st = \<lparr>ds_world = w, ds_summary = empty_summary\<rparr> in
      if dq_resolve_local req
      then (case selectLocalIdentities g c (sd_sources sched) (sd_kinds sched) supported req st of
              (Some e, (coll, st')) \<Rightarrow> (Some e, st')
            | (None, (selected, st')) \<Rightarrow>
                delete_group g c (sd_group sched) supported (req\<lparr>dq_resources := selected\<rparr>) st')
      else delete_group g c (sd_group sched) supported req st)"

section \<open>Accounting and safety\<close>

lemma ds_simps [simp]:
  "ds_summary (ds_record f st) = f (ds_summary st)" "ds_world (ds_record f st) = ds_world st"
  by (simp_all add: ds_record_def)

definition delete_unsupported :: "'f globals \<Rightarrow> (group_version_kind \<times> descriptor) list \<Rightarrow> resource \<Rightarrow> bool" where
  "delete_unsupported g supported res \<longleftrightarrow> map_of supported (NormalizeGVK (gl_gvks g) (res_gvk res)) = None"

lemma delete_one_outcomes:
  "outcomes (ds_summary (snd (delete_one g c supported req res st))) =
     outcomes (ds_summary st) + (if delete_unsupported g supported res then 0 else 1)"
  by (auto simp: delete_one_def delete_unsupported_def Let_def split: option.split prod.split)

lemma delete_one_ok:
  "summary_ok (ds_summary st) \<Longrightarrow> summary_ok (ds_summary (snd (delete_one g c supported req res st)))"
  by (auto simp: delete_one_def Let_def summary_ok_record split: option.split prod.split)

lemma delete_all_outcomes:
  "outcomes (ds_summary (run_all (delete_one g c supported req) xs st)) =
     outcomes (ds_summary st) + length (filter (\<lambda>r. \<not> delete_unsupported g supported r) xs)"
  by (induction xs arbitrary: st) (simp_all add: delete_one_outcomes)

text \<open>A client whose selections have no effect and whose dry runs have none.\<close>

definition delete_dry_inv :: "('s \<Rightarrow> bool) \<Rightarrow> ('s \<Rightarrow> 'o) \<Rightarrow> 's delete_client \<Rightarrow> bool" where
  "delete_dry_inv I store c \<longleftrightarrow>
     (\<forall>d n dr. isDryRun dr \<longrightarrow> keeps I store (dc_delete c d n dr)) \<and>
     (\<forall>f d us. dc_select c = Some f \<longrightarrow> keeps I store (f d us)) \<and>
     (\<forall>s. I s \<longrightarrow> I (dc_cancel c s) \<and> store (dc_cancel c s) = store s)"

lemma deleteResource_keeps:
  "delete_dry_inv I store c \<Longrightarrow> keeps I store (deleteResource g c desc res True)"
  by (auto simp: keeps_def deleteResource_def delete_dry_inv_def isDryRun_def split: option.split)

lemma delete_one_keeps:
  assumes "delete_dry_inv I store c" "dq_dry_run req" "I (ds_world st)"
  shows "I (ds_world (snd (delete_one g c supported req res st))) \<and>
    store (ds_world (snd (delete_one g c supported req res st))) = store (ds_world st)"
  using assms(2,3) keepsD [OF deleteResource_keeps [OF assms(1)]]
  by (fastforce simp: delete_one_def Let_def split: option.split prod.split)

interpretation delete_books: keeping_step
  "\<lambda>(g, c, supported, req). delete_one g c supported req"
  "\<lambda>(g, c, supported, req) st. st\<lparr>ds_world := dc_cancel c (ds_world st)\<rparr>"
  "\<lambda>p s t. summary_ok (ds_summary s) \<longrightarrow> summary_ok (ds_summary t)"
  by unfold_locales (auto simp: delete_one_ok split: prod.split)

interpretation delete_dry: keeping_step
  "\<lambda>(I, store, g, c, supported, req). delete_one g c supported req"
  "\<lambda>(I, store, g, c, supported, req) st. st\<lparr>ds_world := dc_cancel c (ds_world st)\<rparr>"
  "\<lambda>(I, store, g, c, supported, req) s t.
     delete_dry_inv I store c \<and> dq_dry_run req \<and> I (ds_world s) \<longrightarrow>
     I (ds_world t) \<and> store (ds_world t) = store (ds_world s)"
proof (unfold_locales, goal_cases)
  case (3 p s x)
  obtain I store g c supported req where p: "p = (I, store, g, c, supported, req)" by (metis prod.exhaust)
  show ?case using delete_one_keeps [of I store c req s g supported x] by (simp add: p)
next
  case (4 p s)
  then show ?case by (cases p) (simp add: delete_dry_inv_def)
qed auto

text \<open>The resource a deletion request is sent for, and the request.\<close>

definition delete_target ::
    "'f globals \<Rightarrow> (group_version_kind \<times> descriptor) list \<Rightarrow> resource \<Rightarrow> (descriptor \<times> string) option" where
  "delete_target g supported res =
     (case map_of supported (NormalizeGVK (gl_gvks g) (res_gvk res)) of
        None \<Rightarrow> None
      | Some desc \<Rightarrow>
          if CheckMutation (gl_gvks g) (gl_regs g) desc ''delete'' = None \<and> \<not> IsReadOnlyNative (res_obj res) \<and>
             (res_name res \<noteq> [] \<or> \<not> HasServerDerivedName (res_gvk res))
          then Some (desc, res_name res) else None)"

lemma delete_one_sent:
  assumes "\<And>d n dr s. sent (snd (dc_delete c d n dr s)) = sent s @ [(d, n)]"
  shows "sent (ds_world (snd (delete_one g c supported req res st))) =
    sent (ds_world st) @ (case delete_target g supported res of None \<Rightarrow> [] | Some t \<Rightarrow> [t])"
proof -
  have "sent (snd (deleteResource g c desc res dry w)) =
      sent w @ (if CheckMutation (gl_gvks g) (gl_regs g) desc ''delete'' = None \<and> \<not> IsReadOnlyNative (res_obj res) \<and>
        (res_name res \<noteq> [] \<or> \<not> HasServerDerivedName (res_gvk res)) then [(desc, res_name res)] else [])" for desc dry w
    using assms by (auto simp: deleteResource_def split: option.split)
  moreover have "ds_world (snd (delete_one g c supported req res st)) = (case map_of supported (NormalizeGVK (gl_gvks g) (res_gvk res)) of
      None \<Rightarrow> ds_world st | Some desc \<Rightarrow> snd (deleteResource g c desc res (dq_dry_run req) (ds_world st)))"
    by (simp add: delete_one_def Let_def split: option.split prod.split)
  ultimately show ?thesis by (simp add: delete_target_def split: option.split)
qed

lemma delete_group_sent:
  assumes d: "\<And>d n dr s. sent (snd (dc_delete c d n dr s)) = sent s @ [(d, n)]"
    and c: "\<And>s. sent (dc_cancel c s) = sent s"
  shows "sent (ds_world (snd (run_group (\<lambda>st. st\<lparr>ds_world := dc_cancel c (ds_world st)\<rparr>) (delete_one g c supported req) err xs st))) =
    sent (ds_world st) @ collect_some (delete_target g supported) xs"
proof (induction xs arbitrary: err st)
  case (Cons x xs)
  obtain r t where r: "delete_one g c supported req x st = (r, t)" by (rule prod.exhaust)
  have "sent (ds_world t) = sent (ds_world st) @ (case delete_target g supported x of None \<Rightarrow> [] | Some t \<Rightarrow> [t])"
    using delete_one_sent [of sent c g supported req x st] d r by simp
  then show ?case using r Cons.IH c by (cases r; cases err) (auto split: option.split)
qed simp

text \<open>C33. Where identities are not resolved locally (a deletion by selectors, not from files), a deletion
  asks the client for exactly one deletion per deletable resource, and for nothing else: the requests it
  sends are those of the resources that are supported, allowed by their kind, writable, and named where
  the server derives names. If it reports no error, the summary has one outcome per supported resource;
  unsupported resources have none, although a push counts them as failures.\<close>

theorem Delete_requests:
  assumes d: "\<And>d n dr s. sent (snd (dc_delete c d n dr s)) = sent s @ [(d, n)]"
    and cancel: "\<And>s. sent (dc_cancel c s) = sent s"
    and local: "\<not> dq_resolve_local req"
    and run: "Delete g c registry sched req w = (err, st')"
  shows "\<exists>reqs. sent (ds_world st') = sent w @ reqs \<and>
      mset reqs = mset (collect_some (delete_target g (supportedDescriptors registry)) (map snd (dq_resources req))) \<and>
      (err = None \<longrightarrow> outcomes (ds_summary st') =
         length (filter (\<lambda>r. \<not> delete_unsupported g (supportedDescriptors registry) r) (map snd (dq_resources req)))) \<and>
      summary_ok (ds_summary st')"
proof -
  let ?sup = "supportedDescriptors registry" and ?cancel = "\<lambda>st. st\<lparr>ds_world := dc_cancel c (ds_world st)\<rparr>"
  let ?xs = "map snd (go_range (sd_group sched) (dq_resources req))" and ?st = "\<lparr>ds_world = w, ds_summary = empty_summary\<rparr>"
  have grp: "run_group ?cancel (delete_one g c ?sup req) None ?xs ?st = (err, st')"
    using run local by (simp add: Delete_def delete_group_def ForEachConcurrently_def)
  have m: "mset ?xs = mset (map snd (dq_resources req))" by (metis mset_go_range mset_map)
  have collect: "mset (collect_some f xs) = mset (collect_some f ys)" if "mset xs = mset ys" for f :: "resource \<Rightarrow> (descriptor \<times> string) option" and xs ys
  proof -
    have "mset (collect_some f zs) = image_mset (\<lambda>z. the (f z)) (filter_mset (\<lambda>z. f z \<noteq> None) (mset zs))" for zs
      by (induction zs) (auto split: option.split)
    then show ?thesis using that by simp
  qed
  have "sent (ds_world st') = sent w @ collect_some (delete_target g ?sup) ?xs"
    using delete_group_sent [of sent c g ?sup req None ?xs ?st] d cancel grp by simp
  moreover have "outcomes (ds_summary st') = length (filter (\<lambda>r. \<not> delete_unsupported g ?sup r) (map snd (dq_resources req)))"
    if "err = None"
  proof -
    have "st' = run_all (delete_one g c ?sup req) ?xs ?st" using grp unfolding that by (rule run_group_run_all)
    then have "outcomes (ds_summary st') = length (filter (\<lambda>r. \<not> delete_unsupported g ?sup r) ?xs)"
      by (simp add: delete_all_outcomes)
    then show ?thesis by (metis m mset_filter size_mset)
  qed
  moreover have "summary_ok (ds_summary st')"
    using delete_books.group_inv [where p = "(g, c, ?sup, req)" and s = ?st and err = None and xs = ?xs] grp
    by (simp add: summary_ok_empty)
  ultimately show ?thesis using collect [OF m, of "delete_target g ?sup"] by blast
qed

lemma select_kinds_keeps:
  assumes c: "delete_dry_inv I store c"
  shows "I (ds_world st) \<Longrightarrow> select_kinds g c supported req kinds (coll, st) = (e, (coll', st')) \<Longrightarrow>
    I (ds_world st') \<and> store (ds_world st') = store (ds_world st)"
proof (induction kinds arbitrary: coll st)
  case (Cons k kinds)
  obtain gvk sources where k: "k = (gvk, sources)" by (rule prod.exhaust)
  define sel where "sel = (case map_of supported gvk of
              None \<Rightarrow> None
            | Some desc \<Rightarrow> if CheckMutation (gl_gvks g) (gl_regs g) desc ''delete'' \<noteq> None then None else Some desc)"
  show ?case
  proof (cases sel)
    case None
    then show ?thesis using Cons.IH [OF Cons.prems(1)] Cons.prems(2) by (simp add: k sel_def [symmetric])
  next
    case (Some desc)
    show ?thesis
    proof (cases "dc_select c")
      case None
      then show ?thesis using Cons.IH [OF Cons.prems(1)] Cons.prems(2) Some by (simp add: k sel_def [symmetric])
    next
      case select: (Some select)
      let ?f = "\<lparr>f_type = FilterTypeAll, f_desc = desc, f_uids = []\<rparr>"
      obtain handled res w where w: "select ?f (Some (map res_obj sources)) (ds_world st) = ((handled, res), w)" by (metis prod.exhaust)
      have "keeps I store (select ?f (Some (map res_obj sources)))" using c select by (simp add: delete_dry_inv_def)
      from keepsD [OF this w Cons.prems(1)] have I: "I w \<and> store w = store (ds_world st)" .
      then have IH: "I (ds_world st') \<and> store (ds_world st') = store (ds_world st)"
        if "select_kinds g c supported req kinds (coll1, ds_record f (st\<lparr>ds_world := w\<rparr>)) = (e, (coll', st'))" for coll1 f
        using Cons.IH [OF _ that] by simp
      have rid: "ds_record (\<lambda>s. s) s = s" for s :: "'a delete_state" by (simp add: ds_record_def)
      note run = Cons.prems(2) [unfolded k select_kinds.simps sel_def [symmetric] Some select option.case w prod.case Let_def]
      show ?thesis
      proof (cases handled)
        case False
        then show ?thesis using run IH [of _ "\<lambda>s. s"] by (simp add: rid)
      next
        case True
        show ?thesis
        proof (cases res)
          case (Inl err)
          then show ?thesis using run True IH I by (auto split: if_splits)
        next
          case (Inr items)
          obtain x coll1 where x: "add_selected c (length coll) (length items = length sources) items sources coll = (x, coll1)"
            by (rule prod.exhaust)
          show ?thesis using run True Inr x I IH [of coll1 "\<lambda>s. s"] by (cases x) (auto simp: rid)
        qed
      qed
    qed
  qed
qed simp

lemma Delete_keeps:
  assumes c: "delete_dry_inv I store c" and dry: "dq_dry_run req" and I: "I w"
  shows "I (ds_world (snd (Delete g c registry sched req w))) \<and>
    store (ds_world (snd (Delete g c registry sched req w))) = store w"
proof -
  let ?sup = "supportedDescriptors registry" and ?st = "\<lparr>ds_world = w, ds_summary = empty_summary\<rparr>"
  have grp: "I (ds_world (snd (delete_group g c cs ?sup rq st))) \<and>
      store (ds_world (snd (delete_group g c cs ?sup rq st))) = store (ds_world st)"
    if "dq_dry_run rq" "I (ds_world st)" for cs rq st
    using delete_dry.group_inv [where p = "(I, store, g, c, ?sup, rq)" and s = st and err = None
        and xs = "map snd (go_range cs (dq_resources rq))"] c that
    by (simp add: delete_group_def ForEachConcurrently_def)
  show ?thesis
  proof (cases "dq_resolve_local req")
    case False
    then show ?thesis using grp [of req ?st] dry I by (simp add: Delete_def)
  next
    case True
    obtain e coll st' where s: "selectLocalIdentities g c (sd_sources sched) (sd_kinds sched) ?sup req ?st = (e, (coll, st'))"
      by (metis prod.exhaust)
    have "I (ds_world st') \<and> store (ds_world st') = store w"
    proof (cases "dc_select c")
      case None
      then have "st' = ?st" using s by (simp add: selectLocalIdentities_def)
      then show ?thesis using I by simp
    next
      case (Some select)
      then have "select_kinds g c ?sup req (go_range (sd_kinds sched) (group_sources g (sd_sources sched) (dq_resources req)))
          ([], ?st) = (e, (coll, st'))" using s by (simp add: selectLocalIdentities_def)
      from select_kinds_keeps [OF c _ this] show ?thesis using I by simp
    qed
    then show ?thesis using True s grp [of "req\<lparr>dq_resources := coll\<rparr>" st'] dry
      by (cases e) (simp_all add: Delete_def)
  qed
qed

text \<open>The router as the client of a deletion.\<close>

definition router_delete_client :: "(uobj \<Rightarrow> go_error option) \<Rightarrow> 's router \<Rightarrow> 's routed delete_client" where
  "router_delete_client accessor r =
     \<lparr>dc_delete = router_Delete r, dc_select = Some (router_SelectDelete r),
      dc_cancel = (\<lambda>st. st\<lparr>rt_world := r_cancel r (rt_world st)\<rparr>), dc_accessor = accessor\<rparr>"

lemma router_delete_client_safe:
  assumes f: "factories_safe I store r" and dyn: "client_safe I store (\<lambda>_. True) (r_dynamic r)"
  shows "delete_dry_inv (routed_inv I store) (\<lambda>st. store (rt_world st)) (router_delete_client accessor r)"
proof -
  have r: "client_safe (routed_inv I store) (\<lambda>st. store (rt_world st)) (\<lambda>_. True) (router_client r)"
    by (rule router_client_safe [OF f dyn])
  have ret: "keeps I store (\<lambda>s. (x, s))" for x by (simp add: keeps_def)
  have sel: "keeps I store (\<lambda>s. case a_select_delete a of
      Some select \<Rightarrow> (case select filt us s of (res, s') \<Rightarrow> ((True, res), s')) | None \<Rightarrow> ((False, Inr []), s))"
    if "adapter_safe I store a" for a filt us
  proof (cases "a_select_delete a")
    case (Some select)
    then have "keeps I store (select filt us)" using that by (simp add: adapter_safe_def)
    then show ?thesis by (simp add: keeps_def Some split_def)
  qed (simp add: keeps_def)
  have "keeps (routed_inv I store) (\<lambda>st. store (rt_world st)) (router_SelectDelete r filt us)" for filt us
    unfolding router_SelectDelete_def by (rule route_keeps [OF f ret sel])
  moreover have "routed_inv I store st \<Longrightarrow> I (r_cancel r (rt_world st)) \<and> store (r_cancel r (rt_world st)) = store (rt_world st)" for st
    using f by (simp add: factories_safe_def routed_inv_def)
  ultimately show ?thesis
    using r by (simp add: delete_dry_inv_def client_safe_def router_delete_client_def router_client_def routed_inv_def)
qed

text \<open>C34. A dry run deletion sends nothing that changes the server: over the router, the guard and the
  retrying client, as in a push, it leaves the store as it was, with any outcome and with or without
  the selection of local identities.\<close>

theorem Delete_dry_run:
  assumes law: "retry_law interrupted (rc_on_error rc)"
    and wait: "\<And>n s. I s \<Longrightarrow> I (rc_wait rc n s) \<and> store (rc_wait rc n s) = store s"
    and extra: "fst (newDryRunAllowlist parse (AssumeServerDryRun cfg)) = extra"
    and inner: "client_safe I store (\<lambda>d. fst (classify extra (desc_resource d))) (rc_inner rc)"
    and guard: "newGuardedRetryDynamicClient parse rc cfg w = (guard, w0)"
    and router: "r_dynamic r = guard_client guard"
      "factories_safe (\<lambda>s. I (gd_world s)) (\<lambda>s. store (gd_world s)) r"
    and start: "I w" and dry: "dq_dry_run req"
  shows "store (gd_world (rt_world (ds_world (snd
    (Delete g (router_delete_client accessor r) registry sched req (NewResourceClientRouter w0)))))) = store w"
proof -
  have gx: "dg_inner guard = retry_client rc" "dg_extra guard = extra" "gd_world w0 = w"
    using guard extra by (auto simp: newGuardedRetryDynamicClient_def newGuardedDynamicClient_def
        newDryRunGuard_def split: prod.splits)
  have "client_safe (\<lambda>s. I (gd_world s)) (\<lambda>s. store (gd_world s)) (\<lambda>_. True) (guard_client guard)"
    by (rule guard_client_safe) (simp add: gx retry_client_safe [OF law inner wait])
  then have c: "delete_dry_inv (routed_inv (\<lambda>s. I (gd_world s)) (\<lambda>s. store (gd_world s)))
      (\<lambda>st. store (gd_world (rt_world st))) (router_delete_client accessor r)"
    using router_delete_client_safe [of "\<lambda>s. I (gd_world s)" "\<lambda>s. store (gd_world s)" r] router by simp
  have "routed_inv (\<lambda>s. I (gd_world s)) (\<lambda>s. store (gd_world s)) (NewResourceClientRouter w0)"
    using start gx by (simp add: routed_inv_def NewResourceClientRouter_def)
  from Delete_keeps [OF c dry this, of g registry sched] show ?thesis using gx by (simp add: NewResourceClientRouter_def)
qed

section \<open>Examples\<close>

text \<open>A client that logs the deletions it is asked for.\<close>

definition log_client :: "(descriptor \<times> string) list delete_client" where
  "log_client =
     \<lparr>dc_delete = (\<lambda>d n dr s. (None, s @ [(d, n)])), dc_select = None, dc_cancel = (\<lambda>s. s), dc_accessor = (\<lambda>u. None)\<rparr>"

definition board_desc :: descriptor where
  "board_desc = \<lparr>d_gv = \<lparr>gv_group = ''dash.app'', gv_version = ''v1''\<rparr>, d_kind = ''Board'', d_singular = ''board'', d_plural = ''boards''\<rparr>"

definition delete_globals :: "unit globals" where
  "delete_globals = \<lparr>gl_gvks = empty_gvk_registry, gl_regs = [], gl_keys = [], gl_platform = sample_platform\<rparr>"

definition sample_delete :: "bool \<Rightarrow> delete_request" where
  "sample_delete dry =
     \<lparr>dq_resources = NewResources [sample_resource ''x'' ''y''], dq_stop_on_error = False, dq_dry_run = dry,
      dq_resolve_local = False\<rparr>"

lemma Delete_requests_witness:
  "\<exists>reqs. ds_world (snd (Delete delete_globals log_client [board_desc] \<lparr>sd_sources = [], sd_kinds = [], sd_group = []\<rparr> (sample_delete False) [])) = reqs \<and>
     mset reqs = {#(board_desc, ''y'')#}"
proof -
  let ?sched = "\<lparr>sd_sources = [], sd_kinds = [], sd_group = []\<rparr> :: delete_schedule"
  obtain err st' where run: "Delete delete_globals log_client [board_desc] ?sched (sample_delete False) [] = (err, st')"
    by (rule prod.exhaust)
  have l: "\<not> dq_resolve_local (sample_delete False)" by (simp add: sample_delete_def)
  have t: "collect_some (delete_target delete_globals (supportedDescriptors [board_desc])) (map snd (dq_resources (sample_delete False))) =
      [(board_desc, ''y'')]" by code_simp
  have d: "snd (dc_delete log_client d n dr s) = s @ [(d, n)]" "dc_cancel log_client s = s" for d n dr s
    by (simp_all add: log_client_def)
  from Delete_requests [where sent = "\<lambda>s. s" and c = log_client, OF d l run] show ?thesis
    unfolding run snd_conv t by auto
qed

lemma Delete_dry_run_witness:
  "gd_world (rt_world (ds_world (snd (Delete delete_globals
     (router_delete_client (\<lambda>u. None)
        \<lparr>r_dynamic = guard_client (fst (newGuardedRetryDynamicClient (\<lambda>s. \<lparr>gr_group = [], gr_resource = s\<rparr>)
            sample_retry \<lparr>AssumeServerDryRun = [], Warn = True\<rparr> 0)),
         r_factories = [], r_cancel = (\<lambda>s. s), r_schedule = (\<lambda>ns. [])\<rparr>)
     [board_desc] \<lparr>sd_sources = [], sd_kinds = [], sd_group = []\<rparr> (sample_delete True)
     (NewResourceClientRouter (snd (newGuardedRetryDynamicClient (\<lambda>s. \<lparr>gr_group = [], gr_resource = s\<rparr>)
            sample_retry \<lparr>AssumeServerDryRun = [], Warn = True\<rparr> 0))))))) = 0"
proof -
  have safe: "client_safe (\<lambda>_. True) (\<lambda>s. s) (\<lambda>d. fst (classify [] (desc_resource d))) (rc_inner sample_retry)"
    by (simp add: client_safe_def sample_retry_def legacy_client_def counting_client_def keeps_def
        apply_count_def classify_def)
  have wait: "True \<and> rc_wait sample_retry n s = s" for n s by (simp add: sample_retry_def)
  have extra: "fst (newDryRunAllowlist (\<lambda>s. \<lparr>gr_group = [], gr_resource = s\<rparr>)
      (AssumeServerDryRun \<lparr>AssumeServerDryRun = [], Warn = True\<rparr>)) = []" by simp
  show ?thesis
    by (rule Delete_dry_run [OF sample_retry_law wait extra safe prod.collapse [symmetric]])
      (simp_all add: factories_safe_def sample_delete_def)
qed

end
