(* ===== verification/Gcx_Paths.thy ===== *)
theory Gcx_Paths
  imports Gcx_Objects "HOL-Library.List_Lexorder" "HOL-Library.Char_ord"
begin

text \<open>
  The files a pull writes to (\<^verbatim>\<open>local/writer.go\<close>, \<^verbatim>\<open>local/title_namer.go\<close>): paths from kind and name,
  and the plan that names files after titles. The lemmas show that the plan always ends, that resources
  of different identities get paths that differ also on file systems that ignore case, and that no file
  of another resource is overwritten.
\<close>

section \<open>The path package\<close>

text \<open>\<^verbatim>\<open>filepath.Clean\<close>, \<^verbatim>\<open>Join\<close>, \<^verbatim>\<open>Base\<close>, \<^verbatim>\<open>Dir\<close> and \<^verbatim>\<open>Ext\<close> with the separator of Unix.\<close>

fun clean_part :: "bool \<Rightarrow> string \<Rightarrow> string list \<Rightarrow> string list" where
  "clean_part rooted p acc =
     (if p = [] \<or> p = ''.'' then acc
      else if p = ''..''
      then (if acc \<noteq> [] \<and> last acc \<noteq> ''..'' then butlast acc else if rooted then acc else acc @ [p])
      else acc @ [p])"

definition go_clean :: "string \<Rightarrow> string" where
  "go_clean path =
     (let rooted = (path \<noteq> [] \<and> hd path = CHR ''/'');
          parts = fold (clean_part rooted) (go_split (CHR ''/'') path) [];
          joined = go_join ''/'' parts
      in if rooted then CHR ''/'' # joined else if joined = [] then ''.'' else joined)"

definition go_path_join :: "string \<Rightarrow> string \<Rightarrow> string" where
  "go_path_join a b =
     (if a = [] \<and> b = [] then []
      else go_clean (if a = [] then b else if b = [] then a else a @ ''/'' @ b))"

definition go_base :: "string \<Rightarrow> string" where
  "go_base path =
     (if path = [] then ''.''
      else (let p = trim_right (CHR ''/'') path in
            if p = [] then ''/''
            else (case go_cut_last (CHR ''/'') p of None \<Rightarrow> p | Some (a, b) \<Rightarrow> b)))"

definition go_dir :: "string \<Rightarrow> string" where
  "go_dir path =
     go_clean (case go_cut_last (CHR ''/'') path of None \<Rightarrow> [] | Some (a, b) \<Rightarrow> a @ ''/'')"

definition go_ext :: "string \<Rightarrow> string" where
  "go_ext path =
     (case go_cut_last (CHR ''.'') path of
        None \<Rightarrow> [] | Some (a, b) \<Rightarrow> if CHR ''/'' \<in> set b then [] else CHR ''.'' # b)"

definition go_trim_suffix :: "string \<Rightarrow> string \<Rightarrow> string" where
  "go_trim_suffix s suf =
     (if length suf \<le> length s \<and> drop (length s - length suf) s = suf then take (length s - length suf) s else s)"

fun go_itoa :: "nat \<Rightarrow> string" where
  "go_itoa n = (if n < 10 then [char_of (48 + n)] else go_itoa (n div 10) @ [char_of (48 + n mod 10)])"

declare go_itoa.simps [simp del]

section \<open>Paths from kind and name\<close>

definition gvk_text :: "group_version_kind \<Rightarrow> string" where
  "gvk_text gvk = gvk_group gvk @ ''/'' @ gvk_version gvk @ '', Kind='' @ gvk_kind gvk"

text \<open>\<^verbatim>\<open>strings.ToLower\<close> on arbitrary text is the parameter \<open>lower\<close>; \<open>go_lower\<close> is the model of it where only
  ASCII matters.\<close>

definition kindDir :: "(string \<Rightarrow> string) \<Rightarrow> (string \<times> string) list \<Rightarrow> resource \<Rightarrow> string" where
  "kindDir lower plurals r =
     (let gvk = res_gvk r;
          found = (case map_of plurals (gvk_text gvk) of None \<Rightarrow> [] | Some p \<Rightarrow> p);
          plural = (if found = [] then lower (gvk_kind gvk) @ ''s'' else found)
      in plural @ ''.'' @ gvk_version gvk @ ''.'' @ gvk_group gvk)"

definition GroupResourcesByKind ::
    "(string \<Rightarrow> string) \<Rightarrow> string \<Rightarrow> (string \<times> string) list \<Rightarrow> resource \<Rightarrow> string + string" where
  "GroupResourcesByKind lower ext plurals r =
     (if res_name r = [] then Inl ''resource has no name''
      else Inr (go_path_join (kindDir lower plurals r) (res_name r @ ''.'' @ ext)))"

definition PluralsFromFilters :: "filter_rec list \<Rightarrow> (string \<times> string) list" where
  "PluralsFromFilters filters =
     fold (\<lambda>f. AList.update (gvk_text (Descriptor_GroupVersionKind (f_desc f))) (d_plural (f_desc f))) filters []"

section \<open>Files of the destination\<close>

record file_identity =
  fi_api_version :: string
  fi_kind :: string
  fi_namespace :: string
  fi_name :: string

definition no_identity :: file_identity where
  "no_identity = \<lparr>fi_api_version = [], fi_kind = [], fi_namespace = [], fi_name = []\<rparr>"

definition identityOf :: "uobj \<Rightarrow> file_identity" where
  "identityOf u =
     \<lparr>fi_api_version = (if gvk_group (u_gvk u) = [] then gvk_version (u_gvk u)
                        else gvk_group (u_gvk u) @ ''/'' @ gvk_version (u_gvk u)),
      fi_kind = gvk_kind (u_gvk u), fi_namespace = GetNamespace u, fi_name = GetName u\<rparr>"

record destination_file =
  df_path :: string
  df_identity :: file_identity

type_synonym destination = "(string \<times> destination_file list) list"

text \<open>\<^verbatim>\<open>readFileIdentity\<close>: \<open>codec\<close> decodes the formats gcx knows, \<open>read\<close> reads a file.\<close>

definition readFileIdentity ::
    "(string \<Rightarrow> (string \<Rightarrow> uobj option) option) \<Rightarrow> (string \<Rightarrow> string + string) \<Rightarrow> string \<Rightarrow> string + file_identity" where
  "readFileIdentity codec read path =
     (let ext = (case go_ext path of [] \<Rightarrow> [] | d # e \<Rightarrow> e);
          format = (if ext = ''yml'' then ''yaml'' else ext)
      in case codec format of
           None \<Rightarrow> Inr no_identity
         | Some decode \<Rightarrow>
             (case read path of
                Inl e \<Rightarrow> Inl e
              | Inr data \<Rightarrow> Inr (case decode data of Some u \<Rightarrow> identityOf u | None \<Rightarrow> no_identity)))"

text \<open>An entry of the walk below the root: its relative path, the error of the walk, and its type.\<close>

record walk_entry =
  we_path :: string
  we_error :: "string option"
  we_symlink_dir :: bool
  we_regular :: bool

fun read_entries ::
    "(string \<Rightarrow> string) \<Rightarrow> (string \<Rightarrow> string + file_identity) \<Rightarrow> walk_entry list \<Rightarrow> destination \<Rightarrow> string + destination" where
  "read_entries lower identify [] files = Inr files"
| "read_entries lower identify (e # es) files =
     (case we_error e of
        Some err \<Rightarrow> Inl err
      | None \<Rightarrow>
          if we_symlink_dir e then Inl (''cannot inventory symlinked destination directory '' @ we_path e)
          else (case (if we_regular e then identify (we_path e) else Inr no_identity) of
                  Inl err \<Rightarrow> Inl err
                | Inr ident \<Rightarrow>
                    read_entries lower identify es
                      (append_to (lower (we_path e)) \<lparr>df_path = we_path e, df_identity = ident\<rparr> files)))"

text \<open>\<^verbatim>\<open>readDestinationFiles\<close>: \<open>root\<close> is the error of opening the root, or its entries, \<open>None\<close> if it does
  not exist.\<close>

definition readDestinationFiles ::
    "(string \<Rightarrow> string) \<Rightarrow> (string \<Rightarrow> (string \<Rightarrow> uobj option) option) \<Rightarrow> (string \<Rightarrow> string + string)
      \<Rightarrow> string + walk_entry list option \<Rightarrow> string + destination" where
  "readDestinationFiles lower codec read root =
     (case root of
        Inl e \<Rightarrow> Inl e
      | Inr None \<Rightarrow> Inr []
      | Inr (Some entries) \<Rightarrow> read_entries lower (readFileIdentity codec read) entries [])"

section \<open>The plan\<close>

definition collides :: "(string \<Rightarrow> string) \<Rightarrow> destination \<Rightarrow> string \<Rightarrow> uobj \<Rightarrow> bool" where
  "collides lower files path u \<longleftrightarrow> (\<exists>f \<in> set (bucket files (lower path)). df_identity f \<noteq> identityOf u)"

record plan_entry =
  pe_resource :: resource
  pe_path :: string
  pe_from_title :: bool

abbreviation pe_obj :: "plan_entry \<Rightarrow> uobj" where "pe_obj e \<equiv> res_obj (pe_resource e)"

text \<open>The first path: from the title, or from the name; resources without a name are left out.\<close>

definition title_entry ::
    "(string \<Rightarrow> string) \<Rightarrow> string \<Rightarrow> (string \<times> string) list \<Rightarrow> resource \<Rightarrow> plan_entry option" where
  "title_entry lower ext plurals r =
     (case GroupResourcesByKind lower ext plurals r of
        Inl e \<Rightarrow> None
      | Inr path \<Rightarrow>
          (let slug = titleSlug (spec_string_or_empty (res_obj r) ''title'') in
           Some \<lparr>pe_resource = r,
                 pe_path = (if slug \<noteq> [] then go_path_join (kindDir lower plurals r) (slug @ ''.'' @ ext) else path),
                 pe_from_title = (slug \<noteq> [])\<rparr>))"

text \<open>A map that counts keys.\<close>

definition tally :: "string list \<Rightarrow> string \<Rightarrow> nat" where
  "tally ks = fold (\<lambda>k m. m(k := Suc (m k))) ks (\<lambda>_. 0)"

text \<open>The second path: the slug of the name is added where the first one is not free.\<close>

definition suffix_entry ::
    "(string \<Rightarrow> string) \<Rightarrow> destination \<Rightarrow> string \<Rightarrow> (string \<Rightarrow> nat) \<Rightarrow> plan_entry \<Rightarrow> plan_entry" where
  "suffix_entry lower files ext counts e =
     (let stem = go_trim_suffix (go_base (pe_path e)) (''.'' @ ext) in
      if counts (lower (pe_path e)) > 1 \<or> collides lower files (pe_path e) (pe_obj e) \<or>
         (pe_from_title e \<and> windowsDeviceName stem)
      then e\<lparr>pe_path := go_path_join (go_dir (pe_path e))
               (trim_right (CHR ''-'') (take 100 stem) @ ''-'' @ take 100 (SlugifyName (res_name (pe_resource e))) @
                ''.'' @ ext)\<rparr>
      else e)"

definition numbered_path :: "string \<Rightarrow> string \<Rightarrow> nat \<Rightarrow> string" where
  "numbered_path stem ext n = stem @ ''-'' @ go_itoa n @ ''.'' @ ext"

fun first_free :: "(nat \<Rightarrow> bool) \<Rightarrow> nat \<Rightarrow> nat \<Rightarrow> nat option" where
  "first_free free 0 n = None"
| "first_free free (Suc fuel) n = (if free n then Some n else first_free free fuel (Suc n))"

text \<open>A path in the spelling of the file that is already there, the exact one if there are several.\<close>

definition existing_spelling :: "(string \<Rightarrow> string) \<Rightarrow> destination \<Rightarrow> string \<Rightarrow> string" where
  "existing_spelling lower files path =
     (case bucket files (lower path) of
        [] \<Rightarrow> path
      | f # fs \<Rightarrow> if \<exists>g \<in> set (f # fs). df_path g = path then path else df_path f)"

text \<open>The last path: a number is added where the second one is not free. The search ends within the fuel.\<close>

fun allocate ::
    "(string \<Rightarrow> string) \<Rightarrow> destination \<Rightarrow> string \<Rightarrow> nat \<Rightarrow> plan_entry list \<Rightarrow> (string \<Rightarrow> nat)
      \<Rightarrow> (plan_entry \<times> string) list option" where
  "allocate lower files ext fuel [] reserved = Some []"
| "allocate lower files ext fuel (e # es) reserved =
     (if reserved (lower (pe_path e)) > 1 \<or> collides lower files (pe_path e) (pe_obj e)
      then (let path = numbered_path (go_trim_suffix (pe_path e) (''.'' @ ext)) ext in
            case first_free (\<lambda>n. reserved (lower (path n)) = 0 \<and> \<not> collides lower files (path n) (pe_obj e)) fuel 1 of
              None \<Rightarrow> None
            | Some n \<Rightarrow>
                map_option ((#) (e, existing_spelling lower files (path n)))
                  (allocate lower files ext fuel es (reserved(lower (path n) := 1))))
      else map_option ((#) (e, existing_spelling lower files (pe_path e)))
             (allocate lower files ext fuel es reserved))"

text \<open>
  The plan: the entries with their paths. \<open>ref_text\<close> prints a reference; \<open>cs\<close> is the order in which the
  sort, which is not stable, leaves equal references.
\<close>

definition plan_paths ::
    "(string \<Rightarrow> string) \<Rightarrow> (resource_ref \<Rightarrow> string) \<Rightarrow> destination \<Rightarrow> nat list \<Rightarrow> string \<Rightarrow> (string \<times> string) list
      \<Rightarrow> resource list \<Rightarrow> (plan_entry \<times> string) list option" where
  "plan_paths lower ref_text files cs ext plurals rs =
     (let entries = collect_some (title_entry lower ext plurals) rs;
          counts = tally (map (\<lambda>e. lower (pe_path e)) entries);
          entries = map (suffix_entry lower files ext counts) entries;
          reserved = tally (map (\<lambda>e. lower (pe_path e)) entries);
          sorted = sort_key (\<lambda>e. ref_text (Ref (pe_resource e))) (go_range cs entries)
      in allocate lower files ext (2 * length entries + length files + 1) sorted reserved)"

text \<open>The warnings: files with the identity of an entry at another path, in the order of the entries.\<close>

definition owned_paths :: "destination \<Rightarrow> file_identity \<Rightarrow> string list" where
  "owned_paths files ident = sort (map df_path (filter (\<lambda>f. df_identity f = ident) (concat (map snd files))))"

definition stale_files :: "destination \<Rightarrow> (plan_entry \<times> string) list \<Rightarrow> (string \<times> string) list" where
  "stale_files files placed =
     concat (map (\<lambda>(e, path). map (\<lambda>previous. (previous, path))
       (filter (\<lambda>previous. previous \<noteq> path) (owned_paths files (identityOf (pe_obj e))))) placed)"

definition planned_map :: "(plan_entry \<times> string) list \<Rightarrow> (file_identity \<times> string) list" where
  "planned_map placed = fold (\<lambda>(e, path). AList.update (identityOf (pe_obj e)) path) placed []"

text \<open>\<^verbatim>\<open>GroupResourcesByKindTitle\<close>: an error, or the namer and the warnings.\<close>

definition GroupResourcesByKindTitle ::
    "(string \<Rightarrow> string) \<Rightarrow> (resource_ref \<Rightarrow> string) \<Rightarrow> (string + destination) \<Rightarrow> nat list \<Rightarrow> string \<Rightarrow> (string \<times> string) list
      \<Rightarrow> resource list \<Rightarrow> (string + (resource \<Rightarrow> string + string) \<times> (string \<times> string) list) option" where
  "GroupResourcesByKindTitle lower ref_text existing cs ext plurals rs =
     (case existing of
        Inl err \<Rightarrow> Some (Inl (''could not plan title filenames: '' @ err))
      | Inr files \<Rightarrow>
          (case plan_paths lower ref_text files cs ext plurals rs of
             None \<Rightarrow> None
           | Some placed \<Rightarrow>
               Some (Inr (\<lambda>r. case map_of (planned_map placed) (identityOf (res_obj r)) of
                               Some path \<Rightarrow> Inr path
                             | None \<Rightarrow> GroupResourcesByKind lower ext plurals r,
                          stale_files files placed))))"

section \<open>Counting and searching\<close>

lemma tally_count: "tally ks k = count_list ks k"
proof -
  have "fold (\<lambda>k m. m(k := Suc (m k))) ks m k = m k + count_list ks k" for m
    by (induction ks arbitrary: m) auto
  then show ?thesis by (simp add: tally_def)
qed

lemma digits_value_itoa: "digits_value a (go_itoa n @ s) = digits_value (a * 10 ^ length (go_itoa n) + n) s"
proof (induction n arbitrary: a s rule: go_itoa.induct)
  case (1 n)
  have d: "is_digit (char_of (48 + m))" "(of_char (char_of (48 + m)) :: nat) - 48 = m" if "m < 10" for m :: nat
    using that by (simp_all add: is_digit_def)
  show ?case
  proof (cases "n < 10")
    case True
    then show ?thesis by (simp add: go_itoa.simps [of n] d mult.commute)
  next
    case False
    have it: "go_itoa n = go_itoa (n div 10) @ [char_of (48 + n mod 10)]" using False by (simp add: go_itoa.simps [of n])
    have "digits_value a (go_itoa n @ s) =
        digits_value (10 * (a * 10 ^ length (go_itoa (n div 10)) + n div 10) + n mod 10) s"
      using 1 [OF False, of a "char_of (48 + n mod 10) # s"] d [of "n mod 10"] by (simp add: it)
    also have "10 * (a * 10 ^ length (go_itoa (n div 10)) + n div 10) + n mod 10 = a * 10 ^ length (go_itoa n) + n"
      by (simp add: it algebra_simps)
    finally show ?thesis .
  qed
qed

lemma inj_itoa: "go_itoa n = go_itoa m \<Longrightarrow> n = m"
  using digits_value_itoa [of 0 n "[]"] digits_value_itoa [of 0 m "[]"] by simp

lemma first_free_Some: "first_free free fuel n = Some m \<Longrightarrow> free m"
  by (induction free fuel n rule: first_free.induct) (auto split: if_splits)

lemma first_free_total:
  "finite {m. n \<le> m \<and> \<not> free m} \<Longrightarrow> card {m. n \<le> m \<and> \<not> free m} < fuel \<Longrightarrow> first_free free fuel n \<noteq> None"
proof (induction free fuel n rule: first_free.induct)
  case (2 free fuel n)
  show ?case
  proof (cases "free n")
    case False
    let ?S = "\<lambda>n. {m. n \<le> m \<and> \<not> free m}"
    have S: "?S n = insert n (?S (Suc n))" "n \<notin> ?S (Suc n)" using False by (auto simp: Suc_le_eq)
    then have "finite (?S (Suc n))" "card (?S n) = Suc (card (?S (Suc n)))" using 2(2) by simp_all
    then show ?thesis using 2 False by simp
  qed simp
qed simp

text \<open>What the search relies on: \<open>lower\<close> works character by character, so it splits at an ASCII hyphen or
  dot, and it keeps digits.\<close>

definition lower_law :: "(string \<Rightarrow> string) \<Rightarrow> bool" where
  "lower_law lower \<longleftrightarrow>
     (\<forall>a n b. lower (a @ ''-'' @ go_itoa n @ ''.'' @ b) = lower a @ ''-'' @ go_itoa n @ ''.'' @ lower b)"

lemma inj_numbered: "lower_law lower \<Longrightarrow> lower (numbered_path stem ext n) = lower (numbered_path stem ext m) \<Longrightarrow> n = m"
  by (auto simp: lower_law_def numbered_path_def dest: inj_itoa)

lemma numbered_free:
  assumes law: "lower_law lower" and fin: "finite {k. reserved k \<noteq> (0::nat)}"
    and fuel: "card {k. reserved k \<noteq> 0} + length files < fuel"
  shows "first_free (\<lambda>n. reserved (lower (numbered_path stem ext n)) = 0 \<and>
    \<not> collides lower files (numbered_path stem ext n) u) fuel 1 \<noteq> None"
proof (rule first_free_total)
  let ?key = "\<lambda>n. lower (numbered_path stem ext n)"
  let ?bad = "{m. 1 \<le> m \<and> \<not> (reserved (?key m) = 0 \<and> \<not> collides lower files (numbered_path stem ext m) u)}"
  have sub: "?key ` ?bad \<subseteq> {k. reserved k \<noteq> 0} \<union> keys_of files"
    by (auto simp: collides_def intro: in_bucket_key)
  have inj: "inj_on ?key ?bad" using inj_numbered [OF law] by (auto intro: inj_onI)
  have keys: "finite (keys_of files)" "card (keys_of files) \<le> length files"
    by (auto simp: keys_of_def) (metis card_length length_map set_map)
  then show fin': "finite ?bad" using fin sub inj by (meson finite_UnI finite_imageD finite_subset)
  have "card ?bad = card (?key ` ?bad)" using inj by (simp add: card_image)
  also have "\<dots> \<le> card ({k. reserved k \<noteq> 0} \<union> keys_of files)" using sub fin keys by (intro card_mono) auto
  also have "\<dots> \<le> card {k. reserved k \<noteq> 0} + card (keys_of files)" by (rule card_Un_le)
  finally show "card ?bad < fuel" using fuel keys by simp
qed

section \<open>Distinct paths\<close>

definition files_wf :: "(string \<Rightarrow> string) \<Rightarrow> destination \<Rightarrow> bool" where
  "files_wf lower files \<longleftrightarrow> (\<forall>k. \<forall>f \<in> set (bucket files k). lower (df_path f) = k)"

lemma read_entries_wf:
  "read_entries lower identify es files = Inr files' \<Longrightarrow> files_wf lower files \<Longrightarrow> files_wf lower files'"
proof (induction lower identify es files rule: read_entries.induct)
  case (2 lower identify e es files)
  obtain ident where "read_entries lower identify es
      (append_to (lower (we_path e)) \<lparr>df_path = we_path e, df_identity = ident\<rparr> files) = Inr files'"
      "we_error e = None" "\<not> we_symlink_dir e" "(if we_regular e then identify (we_path e) else Inr no_identity) = Inr ident"
    using 2(2) by (auto split: option.splits if_splits sum.splits)
  moreover have "files_wf lower (append_to (lower (we_path e)) \<lparr>df_path = we_path e, df_identity = ident\<rparr> files)"
    using 2(3) by (auto simp: files_wf_def bucket_append_to)
  ultimately show ?case using 2(1) by simp
qed simp

lemma readDestinationFiles_wf: "readDestinationFiles lower codec read root = Inr files \<Longrightarrow> files_wf lower files"
  by (auto simp: readDestinationFiles_def files_wf_def split: sum.splits option.splits
      dest: read_entries_wf [unfolded files_wf_def])

lemma lower_existing_spelling: "files_wf lower files \<Longrightarrow> lower (existing_spelling lower files path) = lower path"
  by (auto simp: existing_spelling_def files_wf_def split: list.split)

lemma allocate_total:
  assumes law: "lower_law lower"
  shows "finite {k. reserved k \<noteq> 0} \<Longrightarrow> card {k. reserved k \<noteq> 0} + length es + length files < fuel \<Longrightarrow>
    allocate lower files ext fuel es reserved \<noteq> None"
proof (induction es arbitrary: reserved)
  case (Cons e es)
  show ?case
  proof (cases "reserved (lower (pe_path e)) > 1 \<or> collides lower files (pe_path e) (pe_obj e)")
    case True
    let ?path = "numbered_path (go_trim_suffix (pe_path e) (''.'' @ ext)) ext"
    obtain n where n: "first_free (\<lambda>n. reserved (lower (?path n)) = 0 \<and> \<not> collides lower files (?path n) (pe_obj e)) fuel 1 = Some n"
      using numbered_free [OF law Cons.prems(1), of files fuel "go_trim_suffix (pe_path e) (''.'' @ ext)" ext "pe_obj e"]
        Cons.prems(2) by auto
    let ?reserved = "reserved(lower (?path n) := 1)"
    have "{k. ?reserved k \<noteq> 0} = insert (lower (?path n)) {k. reserved k \<noteq> 0}" by auto
    then have "finite {k. ?reserved k \<noteq> 0}" "card {k. ?reserved k \<noteq> 0} \<le> Suc (card {k. reserved k \<noteq> 0})"
      using Cons.prems(1) by (simp_all add: card_insert_if)
    then have "allocate lower files ext fuel es ?reserved \<noteq> None" using Cons.prems(2) by (intro Cons.IH) auto
    then show ?thesis using True n by (simp add: Let_def)
  next
    case False
    then show ?thesis using Cons by simp
  qed
qed simp

text \<open>What \<open>allocate\<close> returns, with the counts of the paths it may keep: each path is new or the only one of
  its count, all differ, and none belongs to another resource.\<close>

lemma allocate_spec:
  assumes wf: "files_wf lower files"
  shows "allocate lower files ext fuel es reserved = Some placed \<Longrightarrow>
    (\<And>k. count_list (map (\<lambda>e. lower (pe_path e)) es) k \<le> reserved k) \<Longrightarrow>
    map fst placed = es \<and> distinct (map (\<lambda>x. lower (snd x)) placed) \<and>
    (\<forall>x \<in> set placed. \<not> collides lower files (snd x) (pe_obj (fst x)) \<and>
       (reserved (lower (snd x)) = 0 \<or>
        reserved (lower (snd x)) = 1 \<and> lower (snd x) \<in> (\<lambda>e. lower (pe_path e)) ` set es))"
proof (induction es arbitrary: reserved placed)
  case (Cons e es)
  note spell = lower_existing_spelling [OF wf]
  have here: "0 < reserved (lower (pe_path e))" using Cons.prems(2) [of "lower (pe_path e)"] by simp
  have later: "0 < reserved k" if "k \<in> (\<lambda>e. lower (pe_path e)) ` set es" for k
  proof -
    have "0 < count_list (map (\<lambda>e. lower (pe_path e)) es) k" using that by (metis count_list_0_iff gr0I set_map)
    then show ?thesis using Cons.prems(2) [of k] by (simp split: if_splits)
  qed
  show ?case
  proof (cases "reserved (lower (pe_path e)) > 1 \<or> collides lower files (pe_path e) (pe_obj e)")
    case True
    let ?path = "numbered_path (go_trim_suffix (pe_path e) (''.'' @ ext)) ext"
    obtain n rest where n: "first_free (\<lambda>n. reserved (lower (?path n)) = 0 \<and> \<not> collides lower files (?path n) (pe_obj e)) fuel 1 = Some n"
      and rest: "allocate lower files ext fuel es (reserved(lower (?path n) := 1)) = Some rest"
      and placed: "placed = (e, existing_spelling lower files (?path n)) # rest"
      using Cons.prems(1) True by (auto simp: Let_def split: option.splits)
    have free: "reserved (lower (?path n)) = 0" "\<not> collides lower files (?path n) (pe_obj e)"
      using first_free_Some [OF n] by simp_all
    have "count_list (map (\<lambda>e. lower (pe_path e)) es) k \<le> (reserved(lower (?path n) := 1)) k" for k
      using Cons.prems(2) [of k] free(1) by (auto split: if_splits)
    note IH = Cons.IH [OF rest this]
    have new: "lower (snd x) \<noteq> lower (?path n)" if "x \<in> set rest" for x
    proof
      assume "lower (snd x) = lower (?path n)"
      then have "lower (?path n) \<in> (\<lambda>e. lower (pe_path e)) ` set es" using IH that by force
      then show False using later free(1) by fastforce
    qed
    have "\<not> collides lower files (existing_spelling lower files (?path n)) (pe_obj e)"
      using free(2) by (simp add: collides_def spell)
    moreover have "lower (?path n) \<notin> (\<lambda>x. lower (snd x)) ` set rest" using new by force
    moreover have "\<not> collides lower files (snd x) (pe_obj (fst x)) \<and> (reserved (lower (snd x)) = 0 \<or>
        reserved (lower (snd x)) = 1 \<and> lower (snd x) \<in> (\<lambda>e. lower (pe_path e)) ` set (e # es))" if "x \<in> set rest" for x
    proof -
      have "\<not> collides lower files (snd x) (pe_obj (fst x)) \<and> ((reserved(lower (?path n) := 1)) (lower (snd x)) = 0 \<or>
          (reserved(lower (?path n) := 1)) (lower (snd x)) = 1 \<and> lower (snd x) \<in> (\<lambda>e. lower (pe_path e)) ` set es)"
        using IH that by blast
      then show ?thesis using new [OF that] by auto
    qed
    moreover have "map fst rest = es" "distinct (map (\<lambda>x. lower (snd x)) rest)" using IH by blast+
    moreover note free(1)
    ultimately show ?thesis unfolding placed by (simp add: spell)
  next
    case False
    then obtain rest where rest: "allocate lower files ext fuel es reserved = Some rest"
      and placed: "placed = (e, existing_spelling lower files (pe_path e)) # rest"
      using Cons.prems(1) by auto
    have one: "reserved (lower (pe_path e)) = 1" using here False by simp
    have "count_list (map (\<lambda>e. lower (pe_path e)) es) k \<le> reserved k" for k
      using Cons.prems(2) [of k] by (simp split: if_splits)
    note IH = Cons.IH [OF rest this]
    have "count_list (map (\<lambda>e. lower (pe_path e)) es) (lower (pe_path e)) = 0"
      using Cons.prems(2) [of "lower (pe_path e)"] one by simp
    then have none: "lower (pe_path e) \<notin> (\<lambda>e. lower (pe_path e)) ` set es" by (metis count_list_0_iff set_map)
    have "lower (snd x) \<noteq> lower (pe_path e)" if "x \<in> set rest" for x
    proof
      assume eq: "lower (snd x) = lower (pe_path e)"
      have "reserved (lower (snd x)) = 0 \<or> lower (snd x) \<in> (\<lambda>e. lower (pe_path e)) ` set es" using IH that by blast
      then show False using one none unfolding eq by simp
    qed
    moreover have "\<not> collides lower files (existing_spelling lower files (pe_path e)) (pe_obj e)"
      using False by (simp add: collides_def spell)
    ultimately show ?thesis using IH one by (auto simp: placed spell)
  qed
qed simp

lemma planned_map_of:
  "map_of (planned_map placed) i =
     map_option snd (find (\<lambda>x. identityOf (pe_obj (fst x)) = i) (rev placed))"
proof -
  have step: "map_of (fold (\<lambda>(e, path). AList.update (identityOf (pe_obj e)) path) xs m) i =
      (case find (\<lambda>x. identityOf (pe_obj (fst x)) = i) (rev xs) of None \<Rightarrow> map_of m i | Some x \<Rightarrow> Some (snd x))" for xs m
  proof (induction xs arbitrary: m rule: rev_induct)
    case (snoc x xs)
    then show ?case by (cases x) (auto simp: update_conv')
  qed simp
  show ?thesis unfolding planned_map_def step by (simp split: option.split)
qed

lemma suffix_entry_resource [simp]: "pe_resource (suffix_entry lower files ext counts e) = pe_resource e"
  by (simp add: suffix_entry_def Let_def)

lemma plan_paths_spec:
  assumes law: "lower_law lower" and wf: "files_wf lower files"
  shows "\<exists>placed. plan_paths lower ref_text files cs ext plurals rs = Some placed \<and>
    distinct (map (\<lambda>x. lower (snd x)) placed) \<and>
    (\<forall>x \<in> set placed. \<not> collides lower files (snd x) (pe_obj (fst x))) \<and>
    pe_resource ` fst ` set placed = {r \<in> set rs. res_name r \<noteq> []}"
proof -
  define entries where "entries = collect_some (title_entry lower ext plurals) rs"
  define second where "second = map (suffix_entry lower files ext (tally (map (\<lambda>e. lower (pe_path e)) entries))) entries"
  define es where "es = sort_key (\<lambda>e. ref_text (Ref (pe_resource e))) (go_range cs second)"
  define reserved where "reserved = tally (map (\<lambda>e. lower (pe_path e)) second)"
  have run: "plan_paths lower ref_text files cs ext plurals rs =
      allocate lower files ext (2 * length second + length files + 1) es reserved"
    by (simp add: plan_paths_def entries_def second_def es_def reserved_def Let_def)
  have m: "mset es = mset second" by (simp add: es_def)
  have support: "{k. reserved k \<noteq> 0} = set (map (\<lambda>e. lower (pe_path e)) second)"
    unfolding reserved_def tally_count by (auto simp: count_list_0_iff)
  have card: "card {k. reserved k \<noteq> 0} \<le> length second" unfolding support by (metis card_length length_map)
  have len: "length es = length second" using m by (metis size_mset)
  have "allocate lower files ext (2 * length second + length files + 1) es reserved \<noteq> None"
    using support card len by (intro allocate_total [OF law]) auto
  then obtain placed where placed: "allocate lower files ext (2 * length second + length files + 1) es reserved = Some placed"
    by blast
  have "count_list (map (\<lambda>e. lower (pe_path e)) es) k \<le> reserved k" for k
  proof -
    have "mset (map (\<lambda>e. lower (pe_path e)) es) = mset (map (\<lambda>e. lower (pe_path e)) second)" using m by simp
    then have "count_list (map (\<lambda>e. lower (pe_path e)) es) k = count_list (map (\<lambda>e. lower (pe_path e)) second) k"
      by (metis count_mset)
    then show ?thesis by (simp add: reserved_def tally_count)
  qed
  note spec = allocate_spec [OF wf placed this]
  have "fst ` set placed = set es" using spec by (metis set_map)
  also have "\<dots> = set second" using m by (metis set_mset_mset)
  finally have "pe_resource ` fst ` set placed = pe_resource ` set second" by simp
  also have "\<dots> = pe_resource ` set entries" by (simp add: second_def image_image)
  also have "\<dots> = {r \<in> set rs. res_name r \<noteq> []}"
  proof -
    have "title_entry lower ext plurals r = Some y \<Longrightarrow> pe_resource y = r \<and> res_name r \<noteq> []" for r y
      by (auto simp: title_entry_def GroupResourcesByKind_def Let_def split: if_splits)
    moreover have "res_name r \<noteq> [] \<Longrightarrow> \<exists>y. title_entry lower ext plurals r = Some y" for r
      by (simp add: title_entry_def GroupResourcesByKind_def Let_def)
    ultimately show ?thesis unfolding entries_def in_collect_some set_eq_iff image_iff Bex_def mem_Collect_eq by metis
  qed
  finally show ?thesis using run placed spec by (intro exI [of _ placed]) simp
qed

text \<open>C39. Naming files after titles loses nothing: whatever the destination holds and in whatever order the
  sort leaves equal references, the plan is found, and the paths of two named resources of different
  identities differ even without regard to case; the path of a resource is never, without regard to
  case, the one of an existing file or directory that is not its own.\<close>

theorem GroupByTitle_paths:
  assumes law: "lower_law lower" and files: "readDestinationFiles lower codec read root = Inr files"
    and r: "r \<in> set rs" "r' \<in> set rs" "res_name r \<noteq> []" "res_name r' \<noteq> []"
    and diff: "identityOf (res_obj r) \<noteq> identityOf (res_obj r')"
  shows "\<exists>namer notes p p'. GroupResourcesByKindTitle lower ref_text (Inr files) cs ext plurals rs = Some (Inr (namer, notes)) \<and>
    namer r = Inr p \<and> namer r' = Inr p' \<and> lower p \<noteq> lower p' \<and>
    (\<forall>f \<in> set (bucket files (lower p)). df_identity f = identityOf (res_obj r))"
proof -
  obtain placed where plan: "plan_paths lower ref_text files cs ext plurals rs = Some placed"
    and dist: "distinct (map (\<lambda>x. lower (snd x)) placed)"
    and own: "\<forall>x \<in> set placed. \<not> collides lower files (snd x) (pe_obj (fst x))"
    and all: "pe_resource ` fst ` set placed = {r \<in> set rs. res_name r \<noteq> []}"
    using plan_paths_spec [OF law readDestinationFiles_wf [OF files]] by blast
  have named: "\<exists>x \<in> set placed. map_of (planned_map placed) (identityOf (res_obj s)) = Some (snd x) \<and>
      identityOf (pe_obj (fst x)) = identityOf (res_obj s)" if "s \<in> set rs" "res_name s \<noteq> []" for s
  proof -
    have "s \<in> pe_resource ` fst ` set placed" using all that by simp
    then obtain y where "y \<in> set placed" "identityOf (pe_obj (fst y)) = identityOf (res_obj s)" by auto
    then obtain x where x: "find (\<lambda>x. identityOf (pe_obj (fst x)) = identityOf (res_obj s)) (rev placed) = Some x"
      using find_exists [of "rev placed" "\<lambda>x. identityOf (pe_obj (fst x)) = identityOf (res_obj s)"] by auto
    have "x \<in> set placed \<and> identityOf (pe_obj (fst x)) = identityOf (res_obj s)" using find_SomeD [OF x] by simp
    moreover have "map_of (planned_map placed) (identityOf (res_obj s)) = Some (snd x)"
      unfolding planned_map_of x by simp
    ultimately show ?thesis by blast
  qed
  obtain x where x: "x \<in> set placed" "map_of (planned_map placed) (identityOf (res_obj r)) = Some (snd x)"
      "identityOf (pe_obj (fst x)) = identityOf (res_obj r)" using named r by blast
  obtain x' where x': "x' \<in> set placed" "map_of (planned_map placed) (identityOf (res_obj r')) = Some (snd x')"
      "identityOf (pe_obj (fst x')) = identityOf (res_obj r')" using named r by blast
  have "x \<noteq> x'" using x x' diff by auto
  moreover have "inj_on (\<lambda>x. lower (snd x)) (set placed)" using dist by (simp add: distinct_map)
  ultimately have "lower (snd x) \<noteq> lower (snd x')" using inj_onD [OF _ _ x(1) x'(1)] by blast
  moreover have "\<forall>f \<in> set (bucket files (lower (snd x))). df_identity f = identityOf (res_obj r)"
    using own x by (auto simp: collides_def)
  ultimately show ?thesis using plan x(2) x'(2) by (simp add: GroupResourcesByKindTitle_def)
qed

section \<open>Examples\<close>

definition titled :: "string \<Rightarrow> string \<Rightarrow> resource" where
  "titled name title =
     \<lparr>res_id = 0, res_empty = False,
      res_obj = \<lparr>u_gvk = \<lparr>gvk_group = ''g'', gvk_version = ''v1'', gvk_kind = ''Board''\<rparr>, u_meta = [(''name'', StrValue name)],
                 u_annotations = [], u_labels = [], u_spec = SpecMap [(''title'', StrValue title)], u_extra = []\<rparr>,
      res_source = []\<rparr>"

text \<open>Two resources with one title, and a third whose title is the first one with the name of a resource:
  the paths of the plan.\<close>

lemma titled_plan:
  "map_option (map snd) (plan_paths (\<lambda>s. s) (\<lambda>r. []) [] [] ''yaml'' []
     [titled ''a'' ''CPU load'', titled ''b'' ''CPU load'', titled ''c'' ''CPU load a'']) =
   Some [''Boards.v1.g/cpu-load-a-1.yaml'', ''Boards.v1.g/cpu-load-b.yaml'', ''Boards.v1.g/cpu-load-a-2.yaml'']"
  by code_simp

lemma GroupByTitle_paths_witness:
  "\<exists>namer notes p p'. GroupResourcesByKindTitle (\<lambda>s. s) (\<lambda>r. []) (Inr []) [] ''yaml'' [] [titled ''a'' ''x'', titled ''b'' ''x''] =
      Some (Inr (namer, notes)) \<and> namer (titled ''a'' ''x'') = Inr p \<and> namer (titled ''b'' ''x'') = Inr p' \<and> p \<noteq> p'"
proof -
  have law: "lower_law (\<lambda>s. s)" by (simp add: lower_law_def)
  have files: "readDestinationFiles (\<lambda>s. s) (\<lambda>e. None) (\<lambda>p. Inl []) (Inr None) = Inr []" by (simp add: readDestinationFiles_def)
  have r: "titled ''a'' ''x'' \<in> set [titled ''a'' ''x'', titled ''b'' ''x'']" "titled ''b'' ''x'' \<in> set [titled ''a'' ''x'', titled ''b'' ''x'']"
    "res_name (titled ''a'' ''x'') \<noteq> []" "res_name (titled ''b'' ''x'') \<noteq> []"
    by (simp_all add: titled_def res_name_def meta_string_def)
  have diff: "identityOf (res_obj (titled ''a'' ''x'')) \<noteq> identityOf (res_obj (titled ''b'' ''x''))"
    by (simp add: titled_def identityOf_def meta_string_def)
  from GroupByTitle_paths [OF law files r diff, of "\<lambda>r. []" "[]" "''yaml''" "[]"] show ?thesis by blast
qed

end
