(* ===== verification/Gcx_Retry.thy ===== *)
theory Gcx_Retry
  imports Gcx_Slugs "HOL-Library.Word"
begin

text \<open>
  The retrying HTTP transport (\<^verbatim>\<open>retry/transport.go\<close>): which results are retried, how long it waits, and
  the loop. The lemmas show how often a request is sent, after which results it is sent again, and
  within which bounds the waits lie.
\<close>

section \<open>Configuration, requests and results\<close>

text \<open>Durations are nanoseconds, 64 bit integers in the code.\<close>

record retry_config =
  rc_max_retries :: int
  rc_min_backoff :: int
  rc_max_backoff :: int
  rc_max_retry_after :: int

definition retry_second :: int where "retry_second = 1000000000"

definition maxRetries :: "retry_config \<Rightarrow> int" where
  "maxRetries t = (if rc_max_retries t > 0 then rc_max_retries t else 3)"

definition minBackoff :: "retry_config \<Rightarrow> int" where
  "minBackoff t = (if rc_min_backoff t > 0 then rc_min_backoff t else 500 * 1000000)"

definition maxBackoff :: "retry_config \<Rightarrow> int" where
  "maxBackoff t = (if rc_max_backoff t > 0 then rc_max_backoff t else 10 * retry_second)"

definition maxRetryAfter :: "retry_config \<Rightarrow> int" where
  "maxRetryAfter t = (if rc_max_retry_after t > 0 then rc_max_retry_after t else 30 * retry_second)"

text \<open>What the code asks an error: whether it wraps a \<^verbatim>\<open>net.OpError\<close>, a \<^verbatim>\<open>net.DNSError\<close> (with its
  \<^verbatim>\<open>IsTemporary\<close>), an error that classifies itself, or a \<^verbatim>\<open>net.Error\<close> (with its \<^verbatim>\<open>Timeout\<close>).\<close>

record conn_error =
  ce_text :: string
  ce_op_error :: bool
  ce_dns :: "bool option"
  ce_transient :: "bool option"
  ce_net :: "bool option"

record http_response =
  hr_status :: nat
  hr_retry_after :: string

type_synonym http_result = "conn_error + http_response"

text \<open>A request: its method, whether it has a body and can replay it (\<^verbatim>\<open>GetBody\<close>), and whether its context
  disables retries.\<close>

record http_request =
  hq_method :: string
  hq_has_body :: bool
  hq_get_body :: bool
  hq_no_retries :: bool

text \<open>The base transport, the error of the context, replaying the body (whether it works), waiting (the
  error of a context that ends first), the random number below a bound, and the time until an HTTP date.\<close>

record 'w retry_env =
  rv_send :: "'w \<Rightarrow> http_result \<times> 'w"
  rv_ctx :: "'w \<Rightarrow> conn_error option"
  rv_get_body :: "'w \<Rightarrow> bool \<times> 'w"
  rv_wait :: "int \<Rightarrow> 'w \<Rightarrow> conn_error option \<times> 'w"
  rv_rand :: "int \<Rightarrow> 'w \<Rightarrow> int"
  rv_until_date :: "string \<Rightarrow> 'w \<Rightarrow> int option"

section \<open>What is retried\<close>

text \<open>The method of an HTTP request is ASCII.\<close>

definition isIdempotent :: "string \<Rightarrow> bool" where
  "isIdempotent method \<longleftrightarrow>
     (let m = map (\<lambda>c. if is_lower c then char_of ((of_char c :: nat) - 32) else c) method in
      m \<in> {''GET'', ''HEAD'', ''PUT'', ''DELETE'', ''OPTIONS''})"

definition isTransientConnectionError :: "conn_error \<Rightarrow> bool" where
  "isTransientConnectionError e =
     (if ce_op_error e then True
      else (case ce_dns e of
              Some temporary \<Rightarrow> temporary
            | None \<Rightarrow>
                (case ce_transient e of
                   Some transient \<Rightarrow> transient
                 | None \<Rightarrow> (case ce_net e of Some timeout \<Rightarrow> timeout | None \<Rightarrow> False))))"

text \<open>The result alone: the end of \<^verbatim>\<open>shouldRetry\<close>.\<close>

definition retryable_result :: "http_request \<Rightarrow> http_result \<Rightarrow> bool" where
  "retryable_result req res =
     (case res of
        Inl e \<Rightarrow> isTransientConnectionError e
      | Inr resp \<Rightarrow>
          if hr_status resp = 429 then True
          else if hr_status resp \<in> {502, 503, 504} then isIdempotent (hq_method req)
          else False)"

definition shouldRetry :: "'w retry_env \<Rightarrow> http_request \<Rightarrow> http_result \<Rightarrow> int \<Rightarrow> int \<Rightarrow> 'w \<Rightarrow> bool" where
  "shouldRetry env req res attempt retries w =
     (if attempt \<ge> retries then False
      else if rv_ctx env w \<noteq> None then False
      else if hq_has_body req \<and> \<not> hq_get_body req then False
      else retryable_result req res)"

section \<open>How long it waits\<close>

text \<open>\<^verbatim>\<open>time.Duration(secs) * time.Second\<close> wraps around at 64 bits.\<close>

definition seconds_duration :: "int \<Rightarrow> int" where
  "seconds_duration secs = sint (word_of_int secs * word_of_int retry_second :: 64 word)"

definition parseRetryAfter :: "'w retry_env \<Rightarrow> string \<Rightarrow> 'w \<Rightarrow> int" where
  "parseRetryAfter env val w =
     (if val = [] then 0
      else (case (case parse_int val of Some secs \<Rightarrow> if secs > 0 then Some secs else None | None \<Rightarrow> None) of
              Some secs \<Rightarrow> seconds_duration secs
            | None \<Rightarrow>
                (case rv_until_date env val w of
                   Some d \<Rightarrow> if d > 0 then d else 0
                 | None \<Rightarrow> 0)))"

text \<open>The nearest \<^verbatim>\<open>float64\<close> of an integer that is not negative, ties to even: 53 significant bits.\<close>

fun bit_size :: "nat \<Rightarrow> nat" where
  "bit_size n = (if n = 0 then 0 else Suc (bit_size (n div 2)))"

declare bit_size.simps [simp del]

definition to_float :: "int \<Rightarrow> int" where
  "to_float n =
     (let k = bit_size (nat n) - 53; q = n div 2 ^ k; r = n mod 2 ^ k in
      (if 2 * r > 2 ^ k \<or> 2 * r = 2 ^ k \<and> odd q \<and> k > 0 then q + 1 else q) * 2 ^ k)"

text \<open>
  \<^verbatim>\<open>computeBackoff\<close>. Scaling a float by a power of two is exact, and where the product overflows to
  infinity the cap applies, as it does to the integer; the cap converts back to an integer exactly as
  long as it is below \<open>2 ^ 63\<close>, that is for every duration up to 292 years less half a microsecond.
\<close>

definition computeBackoff :: "'w retry_env \<Rightarrow> retry_config \<Rightarrow> nat \<Rightarrow> http_result \<Rightarrow> 'w \<Rightarrow> int" where
  "computeBackoff env t attempt res w =
     (let ra = (case res of Inl e \<Rightarrow> 0 | Inr resp \<Rightarrow> parseRetryAfter env (hr_retry_after resp) w) in
      if ra > 0 then (if ra > maxRetryAfter t then maxRetryAfter t else ra)
      else (let expBackoff = to_float (minBackoff t) * 2 ^ attempt;
                capped = min expBackoff (to_float (maxBackoff t))
            in max (rv_rand env (capped + 1) w) (minBackoff t)))"

section \<open>The loop\<close>

text \<open>\<open>prev\<close> is the result of the previous attempt. The error of a context that ends the wait is a result
  without response.\<close>

function retry_loop_from ::
    "'w retry_env \<Rightarrow> retry_config \<Rightarrow> http_request \<Rightarrow> nat \<Rightarrow> http_result option \<Rightarrow> 'w \<Rightarrow> http_result option \<times> 'w" where
  "retry_loop_from env t req attempt prev w =
     (case (if attempt > 0 \<and> hq_has_body req then (if hq_get_body req then rv_get_body env w else (False, w)) else (True, w)) of
        (False, w1) \<Rightarrow> (prev, w1)
      | (True, w1) \<Rightarrow>
          (case rv_send env w1 of
             (res, w2) \<Rightarrow>
               if \<not> shouldRetry env req res (int attempt) (maxRetries t) w2 then (Some res, w2)
               else (case rv_wait env (computeBackoff env t attempt res w2) w2 of
                       (Some e, w3) \<Rightarrow> (Some (Inl e), w3)
                     | (None, w3) \<Rightarrow> retry_loop_from env t req (Suc attempt) (Some res) w3)))"
  by pat_completeness auto

termination
  by (relation "measure (\<lambda>(env, t, req, attempt, prev, w). nat (maxRetries t - int attempt))")
    (auto simp: shouldRetry_def split: if_splits)

declare retry_loop_from.simps [simp del]

definition Retry_RoundTrip ::
    "'w retry_env \<Rightarrow> retry_config \<Rightarrow> http_request \<Rightarrow> 'w \<Rightarrow> http_result option \<times> 'w" where
  "Retry_RoundTrip env t req w =
     (if hq_no_retries req then (case rv_send env w of (res, w') \<Rightarrow> (Some res, w'))
      else retry_loop_from env t req 0 None w)"

section \<open>Requests and waits\<close>

lemma to_float_nonneg: "0 \<le> n \<Longrightarrow> 0 \<le> to_float n"
  by (auto simp: to_float_def Let_def intro!: mult_nonneg_nonneg add_nonneg_nonneg simp: pos_imp_zdiv_nonneg_iff)

lemma backoff_config: "0 < minBackoff t" "0 < maxBackoff t" "0 < maxRetryAfter t" "0 < maxRetries t"
  by (simp_all add: minBackoff_def maxBackoff_def maxRetryAfter_def maxRetries_def retry_second_def)

lemma computeBackoff_bounds:
  assumes "\<And>n w. 0 < n \<Longrightarrow> 0 \<le> rv_rand env n w \<and> rv_rand env n w < n"
  shows "0 < computeBackoff env t attempt res w \<and>
    computeBackoff env t attempt res w \<le> max (maxRetryAfter t) (max (minBackoff t) (to_float (maxBackoff t)))"
proof -
  let ?cap = "min (to_float (minBackoff t) * 2 ^ attempt) (to_float (maxBackoff t))"
  have "0 \<le> ?cap" using backoff_config [of t] by (simp add: to_float_nonneg)
  then have "rv_rand env (?cap + 1) w \<le> to_float (maxBackoff t)" using assms [of "?cap + 1" w] by simp
  then show ?thesis using backoff_config [of t] by (auto simp: computeBackoff_def Let_def)
qed

lemma retry_loop_requests:
  assumes send: "\<And>w. sent (snd (rv_send env w)) = sent w @ [fst (rv_send env w)]" "\<And>w. waits (snd (rv_send env w)) = waits w"
    and wait: "\<And>d w. sent (snd (rv_wait env d w)) = sent w" "\<And>d w. waits (snd (rv_wait env d w)) = waits w @ [d]"
    and body: "\<And>w. sent (snd (rv_get_body env w)) = sent w" "\<And>w. waits (snd (rv_get_body env w)) = waits w"
    and rand: "\<forall>n w. 0 < n \<longrightarrow> 0 \<le> rv_rand env n w \<and> rv_rand env n w < n"
  shows "retry_loop_from env t req attempt prev w = (res, w') \<Longrightarrow> int attempt \<le> maxRetries t \<Longrightarrow>
    (attempt > 0 \<longrightarrow> hq_has_body req \<longrightarrow> hq_get_body req) \<Longrightarrow>
    \<exists>rs ds. sent w' = sent w @ rs \<and> waits w' = waits w @ ds \<and> int (length rs + attempt) \<le> maxRetries t + 1 \<and>
      length ds \<le> length rs \<and> (attempt = 0 \<longrightarrow> rs \<noteq> []) \<and>
      (\<forall>r \<in> set (butlast rs). retryable_result req r) \<and>
      (hq_has_body req \<and> \<not> hq_get_body req \<longrightarrow> length rs \<le> 1 \<and> ds = []) \<and>
      (\<forall>d \<in> set ds. 0 < d \<and> d \<le> max (maxRetryAfter t) (max (minBackoff t) (to_float (maxBackoff t)))) \<and>
      (rs = [] \<and> res = prev \<or> rs \<noteq> [] \<and> (res = Some (last rs) \<or>
         retryable_result req (last rs) \<and> (\<exists>d e w1 w2. rv_wait env d w1 = (Some e, w2) \<and> res = Some (Inl e))))"
proof (induction "nat (maxRetries t - int attempt)" arbitrary: attempt prev w rule: less_induct)
  case less
  let ?limit = "max (maxRetryAfter t) (max (minBackoff t) (to_float (maxBackoff t)))"
  obtain ok w1 where b: "(if attempt > 0 \<and> hq_has_body req then (if hq_get_body req then rv_get_body env w else (False, w))
      else (True, w)) = (ok, w1)" by (rule prod.exhaust)
  have same: "sent w1 = sent w" "waits w1 = waits w" using b body [of w] by (auto split: if_splits)
  show ?case
  proof (cases ok)
    case False
    then have "res = prev" "w' = w1" "attempt > 0" using less(2) b by (auto simp: retry_loop_from.simps [of env t req attempt] split: if_splits)
    then show ?thesis using same less(3) by auto
  next
    case True
    obtain r w2 where r: "rv_send env w1 = (r, w2)" by (rule prod.exhaust)
    have s2: "sent w2 = sent w @ [r]" "waits w2 = waits w" using send [of w1] r same by auto
    show ?thesis
    proof (cases "shouldRetry env req r (int attempt) (maxRetries t) w2")
      case False
      then have "res = Some r" "w' = w2" using less(2) b True r by (auto simp: retry_loop_from.simps [of env t req attempt])
      then show ?thesis using s2 less(3) by (intro exI [of _ "[r]"] exI [of _ "[]"]) auto
    next
      case again: True
      then have att: "int attempt < maxRetries t" "retryable_result req r" "hq_has_body req \<longrightarrow> hq_get_body req"
        by (auto simp: shouldRetry_def split: if_splits)
      define d where "d = computeBackoff env t attempt r w2"
      have d: "0 < d \<and> d \<le> ?limit" using computeBackoff_bounds [of env t attempt r w2] rand by (simp add: d_def)
      obtain e w3 where e: "rv_wait env d w2 = (e, w3)" by (rule prod.exhaust)
      have s3: "sent w3 = sent w @ [r]" "waits w3 = waits w @ [d]" using wait [of d w2] e s2 by auto
      show ?thesis
      proof (cases e)
        case (Some x)
        then have "res = Some (Inl x)" "w' = w3"
          using less(2) b True r again e by (auto simp: retry_loop_from.simps [of env t req attempt] d_def)
        moreover have "rv_wait env d w2 = (Some x, w3)" using e Some by simp
        ultimately show ?thesis using s3 att d by (intro exI [of _ "[r]"] exI [of _ "[d]"]) auto
      next
        case None
        then have run: "retry_loop_from env t req (Suc attempt) (Some r) w3 = (res, w')"
          using less(2) b True r again e by (simp add: retry_loop_from.simps [of env t req attempt] d_def)
        have "\<exists>rs ds. sent w' = sent w3 @ rs \<and> waits w' = waits w3 @ ds \<and> int (length rs + Suc attempt) \<le> maxRetries t + 1 \<and>
            length ds \<le> length rs \<and> (Suc attempt = 0 \<longrightarrow> rs \<noteq> []) \<and>
            (\<forall>r \<in> set (butlast rs). retryable_result req r) \<and>
            (hq_has_body req \<and> \<not> hq_get_body req \<longrightarrow> length rs \<le> 1 \<and> ds = []) \<and>
            (\<forall>d \<in> set ds. 0 < d \<and> d \<le> ?limit) \<and>
            (rs = [] \<and> res = Some r \<or> rs \<noteq> [] \<and> (res = Some (last rs) \<or>
               retryable_result req (last rs) \<and> (\<exists>d e w1 w2. rv_wait env d w1 = (Some e, w2) \<and> res = Some (Inl e))))"
          using less(1) [OF _ run] att by simp
        then obtain rs ds where IH: "sent w' = sent w3 @ rs" "waits w' = waits w3 @ ds"
            "int (length rs + Suc attempt) \<le> maxRetries t + 1" "length ds \<le> length rs"
            "\<forall>r \<in> set (butlast rs). retryable_result req r" "\<forall>d \<in> set ds. 0 < d \<and> d \<le> ?limit"
            "rs = [] \<and> res = Some r \<or> rs \<noteq> [] \<and> (res = Some (last rs) \<or>
               retryable_result req (last rs) \<and> (\<exists>d e w1 w2. rv_wait env d w1 = (Some e, w2) \<and> res = Some (Inl e)))"
          by blast
        show ?thesis
        proof (intro exI conjI)
          show "sent w' = sent w @ (r # rs)" "waits w' = waits w @ (d # ds)" using IH s3 by simp_all
          show "int (length (r # rs) + attempt) \<le> maxRetries t + 1" "length (d # ds) \<le> length (r # rs)"
            using IH by simp_all
          show "\<forall>x \<in> set (butlast (r # rs)). retryable_result req x" using IH(5) att(2) by simp
          show "\<forall>x \<in> set (d # ds). 0 < x \<and> x \<le> ?limit" using IH(6) d by simp
          show "r # rs = [] \<and> res = prev \<or> r # rs \<noteq> [] \<and> (res = Some (last (r # rs)) \<or>
              retryable_result req (last (r # rs)) \<and> (\<exists>d e w1 w2. rv_wait env d w1 = (Some e, w2) \<and> res = Some (Inl e)))"
            using IH(7) by auto
        qed (use att in simp_all)
      qed
    qed
  qed
qed

text \<open>C40. A request is sent at least once and at most once more than the retries allowed; exactly once if its
  context disables retries or its body cannot be replayed. It is sent again only after a result that
  allows it: a transient connection error, the status 429, or, for an idempotent method, 502, 503 or
  504, so a POST or PATCH the server answered with another error is never repeated. Every wait is
  positive and at most the largest of the three configured limits, whatever the header says. What is
  returned is the last result, or the error of a context that ended a wait.\<close>

theorem Retry_requests:
  assumes send: "\<And>w. sent (snd (rv_send env w)) = sent w @ [fst (rv_send env w)]" "\<And>w. waits (snd (rv_send env w)) = waits w"
    and wait: "\<And>d w. sent (snd (rv_wait env d w)) = sent w" "\<And>d w. waits (snd (rv_wait env d w)) = waits w @ [d]"
    and body: "\<And>w. sent (snd (rv_get_body env w)) = sent w" "\<And>w. waits (snd (rv_get_body env w)) = waits w"
    and rand: "\<And>n w. 0 < n \<Longrightarrow> 0 \<le> rv_rand env n w \<and> rv_rand env n w < n"
    and run: "Retry_RoundTrip env t req w = (res, w')"
  shows "\<exists>rs ds. sent w' = sent w @ rs \<and> waits w' = waits w @ ds \<and> rs \<noteq> [] \<and> int (length rs) \<le> maxRetries t + 1 \<and>
      (hq_no_retries req \<or> hq_has_body req \<and> \<not> hq_get_body req \<longrightarrow> length rs = 1 \<and> ds = []) \<and>
      (\<forall>r \<in> set (butlast rs). retryable_result req r) \<and>
      (\<forall>d \<in> set ds. 0 < d \<and> d \<le> max (maxRetryAfter t) (max (minBackoff t) (to_float (maxBackoff t)))) \<and>
      (res = Some (last rs) \<or>
       retryable_result req (last rs) \<and> (\<exists>d e w1 w2. rv_wait env d w1 = (Some e, w2) \<and> res = Some (Inl e)))"
proof (cases "hq_no_retries req")
  case True
  obtain r w1 where r: "rv_send env w = (r, w1)" by (rule prod.exhaust)
  then have "sent w' = sent w @ [r]" "waits w' = waits w" "res = Some r"
    using run True send [of w] by (auto simp: Retry_RoundTrip_def)
  then show ?thesis using backoff_config(4) [of t] by (intro exI [of _ "[r]"] exI [of _ "[]"]) simp
next
  case False
  then have "retry_loop_from env t req 0 None w = (res, w')" using run by (simp add: Retry_RoundTrip_def)
  have rand': "\<forall>n w. 0 < n \<longrightarrow> 0 \<le> rv_rand env n w \<and> rv_rand env n w < n" using rand by blast
  note loop = retry_loop_requests [where sent = sent and waits = waits, OF send wait body rand' \<open>retry_loop_from env t req 0 None w = (res, w')\<close>]
  have start: "int 0 \<le> maxRetries t" "(0::nat) < 0 \<longrightarrow> hq_has_body req \<longrightarrow> hq_get_body req"
    using backoff_config(4) [of t] by simp_all
  obtain rs ds where spec: "sent w' = sent w @ rs" "waits w' = waits w @ ds" "int (length rs + 0) \<le> maxRetries t + 1"
      "(0::nat) = 0 \<longrightarrow> rs \<noteq> []" "\<forall>r \<in> set (butlast rs). retryable_result req r"
      "hq_has_body req \<and> \<not> hq_get_body req \<longrightarrow> length rs \<le> 1 \<and> ds = []"
      "\<forall>d \<in> set ds. 0 < d \<and> d \<le> max (maxRetryAfter t) (max (minBackoff t) (to_float (maxBackoff t)))"
      "rs = [] \<and> res = None \<or> rs \<noteq> [] \<and> (res = Some (last rs) \<or> retryable_result req (last rs) \<and>
         (\<exists>d e w1 w2. rv_wait env d w1 = (Some e, w2) \<and> res = Some (Inl e)))"
    using loop [OF start] by blast
  have "length rs = 1" if "length rs \<le> 1" using that spec(4) by (cases rs) auto
  then show ?thesis using spec False by (intro exI [of _ rs] exI [of _ ds]) simp
qed

section \<open>Examples\<close>

text \<open>A server that always answers 503, over the log of results and waits.\<close>

definition busy_env :: "(http_result list \<times> int list) retry_env" where
  "busy_env =
     \<lparr>rv_send = (\<lambda>w. (Inr \<lparr>hr_status = 503, hr_retry_after = ''2''\<rparr>,
                       (fst w @ [Inr \<lparr>hr_status = 503, hr_retry_after = ''2''\<rparr>], snd w))),
      rv_ctx = (\<lambda>w. None), rv_get_body = (\<lambda>w. (True, w)), rv_wait = (\<lambda>d w. (None, (fst w, snd w @ [d]))),
      rv_rand = (\<lambda>n w. 0), rv_until_date = (\<lambda>s w. None)\<rparr>"

definition default_config :: retry_config where
  "default_config = \<lparr>rc_max_retries = 0, rc_min_backoff = 0, rc_max_backoff = 0, rc_max_retry_after = 0\<rparr>"

definition http_call :: "string \<Rightarrow> http_request" where
  "http_call method = \<lparr>hq_method = method, hq_has_body = False, hq_get_body = False, hq_no_retries = False\<rparr>"

lemma busy_runs:
  "map_prod length (\<lambda>x. x) (snd (Retry_RoundTrip busy_env default_config (http_call ''GET'') ([], []))) =
     (4, [2000000000, 2000000000, 2000000000])"
  "map_prod length (\<lambda>x. x) (snd (Retry_RoundTrip busy_env default_config (http_call ''POST'') ([], []))) = (1, [])"
  by code_simp+

lemma Retry_requests_witness:
  "\<exists>rs. fst (snd (Retry_RoundTrip busy_env default_config (http_call ''GET'') ([], []))) = rs \<and> rs \<noteq> [] \<and> length rs \<le> 4"
proof -
  obtain res w' where run: "Retry_RoundTrip busy_env default_config (http_call ''GET'') ([], []) = (res, w')" by (rule prod.exhaust)
  have max: "maxRetries default_config = 3" by (simp add: maxRetries_def default_config_def)
  from Retry_requests [where sent = fst and waits = snd and env = busy_env, OF _ _ _ _ _ _ _ run]
  show ?thesis unfolding run max by (auto simp: busy_env_def)
qed

text \<open>A delay of \<open>18446744074\<close> seconds wraps around to less than a third of a second, far below the limit
  on delays, and \<open>9223372037\<close> seconds become negative, as if there were no header.\<close>

lemma RetryAfter_wraps:
  "parseRetryAfter busy_env ''18446744074'' w = 290448384 \<and> parseRetryAfter busy_env ''9223372037'' w < 0"
proof -
  have "parse_int ''18446744074'' = Some 18446744074" "parse_int ''9223372037'' = Some 9223372037"
    by (simp_all add: parse_int_def is_digit_def)
  then show ?thesis by (simp add: parseRetryAfter_def seconds_duration_def retry_second_def)
qed

text \<open>A backoff is never below the minimum, so a minimum above the maximum exceeds it.\<close>

lemma backoff_above_maximum:
  "maxBackoff (default_config\<lparr>rc_min_backoff := 20 * retry_second\<rparr>) <
   computeBackoff env (default_config\<lparr>rc_min_backoff := 20 * retry_second\<rparr>) attempt (Inl e) w"
  by (auto simp: computeBackoff_def maxBackoff_def minBackoff_def default_config_def retry_second_def Let_def max_def)

end
