(* ===== verification/Gcx_Auth.thy ===== *)
theory Gcx_Auth
  imports Gcx_Prelude
begin

text \<open>
  The transport that refreshes OAuth tokens (\<^verbatim>\<open>auth/transport.go\<close>): the state one process shares between
  its requests, the leader that refreshes and persists a generation of tokens while the other requests
  wait for it, and the sequential calls. The lemmas show that one request at a time refreshes, that it
  never presents a refresh token while a generation waits to be persisted, that every request returns,
  and which token a request may send.
\<close>

section \<open>Errors and tokens\<close>

text \<open>The sentinel errors of the file, other errors, and the two ways \<^verbatim>\<open>fmt.Errorf\<close> wraps them.\<close>

datatype refresh_error =
    ErrRefreshTokenExpired
  | ErrRefreshTokenMissing
  | ErrTokenGenerationChanged
  | ErrInvalidRefreshResponse
  | ErrCredentialPersistencePreflight
  | OtherError string
  | Wrapped string refresh_error
  | Joined refresh_error refresh_error

fun error_is :: "refresh_error \<Rightarrow> refresh_error \<Rightarrow> bool" where
  "error_is (Wrapped m e) target = error_is e target"
| "error_is (Joined e f) target = (error_is e target \<or> error_is f target)"
| "error_is e target = (e = target)"

text \<open>Times in nanoseconds; \<open>None\<close> is the zero \<^verbatim>\<open>time.Time\<close>.\<close>

type_synonym stamp = "int option"

record generation =
  g_token :: string
  g_refresh :: string
  g_expires :: stamp
  g_refresh_expires :: stamp

record refresh_result =
  rr_token :: string
  rr_refresh :: string
  rr_expires :: string
  rr_refresh_expires :: string

text \<open>A pending generation; \<open>pr_id\<close> is its address.\<close>

record pending_refresh =
  pr_id :: nat
  pr_previous :: string
  pr_token :: string
  pr_refresh :: string
  pr_expires :: string
  pr_refresh_expires :: string
  pr_after_err :: "refresh_error option"

text \<open>The fields of the transport the calls share. A flight is its position in \<open>tr_flights\<close>: \<open>None\<close> while it is
  open, then its outcome. \<open>tr_next\<close> is the next free address of a pending generation.\<close>

record refresh_transport =
  tr_gen :: generation
  tr_pending :: "pending_refresh option"
  tr_blocked :: "refresh_error option"
  tr_inflight :: "nat option"
  tr_flights :: "refresh_error option option list"
  tr_next :: nat

text \<open>
  What the transport is configured with, over a world: the clock, the context of each call, the callbacks
  (the optional ones as options; the lock is told whether the context may cancel it, and may return no
  release function), the refresh request (whether it can be built, and the status and decoded body it
  returns), the base transport, and \<^verbatim>\<open>time.Parse\<close> with the layout RFC 3339. \<open>re_tick\<close> are the changes of
  the world that no call of this process makes.
\<close>

record 'w refresh_env =
  re_now :: "'w \<Rightarrow> int"
  re_ctx :: "nat \<Rightarrow> 'w \<Rightarrow> refresh_error option"
  re_lock :: "(bool \<Rightarrow> nat \<Rightarrow> 'w \<Rightarrow> (refresh_error + ('w \<Rightarrow> 'w) option) \<times> 'w) option"
  re_reload :: "('w \<Rightarrow> (refresh_error + generation option) \<times> 'w) option"
  re_check :: "('w \<Rightarrow> refresh_error option \<times> 'w) option"
  re_persist :: "(string \<Rightarrow> string \<Rightarrow> string \<Rightarrow> string \<Rightarrow> string \<Rightarrow> 'w \<Rightarrow> refresh_error option \<times> 'w) option"
  re_build :: "refresh_error option"
  re_post :: "string \<Rightarrow> 'w \<Rightarrow> (refresh_error + nat \<times> refresh_result option) \<times> 'w"
  re_send :: "string option \<Rightarrow> 'w \<Rightarrow> (refresh_error + nat) \<times> 'w"
  re_parse :: "string \<Rightarrow> stamp option"
  re_tick :: "'w \<Rightarrow> 'w \<Rightarrow> bool"

section \<open>Refresh responses\<close>

text \<open>\<^verbatim>\<open>strings.TrimSpace(s) == ""\<close>: every character of the UTF-8 text is white space.\<close>

definition white2 :: "char \<Rightarrow> char \<Rightarrow> bool" where
  "white2 c d \<longleftrightarrow> c = CHR 0xC2 \<and> (d = CHR 0x85 \<or> d = CHR 0xA0)"

definition white3 :: "char \<Rightarrow> char \<Rightarrow> char \<Rightarrow> bool" where
  "white3 c d e \<longleftrightarrow>
     (let n = (of_char e :: nat) in
      c = CHR 0xE1 \<and> d = CHR 0x9A \<and> n = 0x80 \<or>
      c = CHR 0xE2 \<and> d = CHR 0x80 \<and> (0x80 \<le> n \<and> n \<le> 0x8A \<or> n = 0xA8 \<or> n = 0xA9 \<or> n = 0xAF) \<or>
      c = CHR 0xE2 \<and> d = CHR 0x81 \<and> n = 0x9F \<or>
      c = CHR 0xE3 \<and> d = CHR 0x80 \<and> n = 0x80)"

fun is_blank :: "string \<Rightarrow> bool" where
  "is_blank [] = True"
| "is_blank (c # cs) =
     (if c \<in> {CHR '' '', CHR 0x09, CHR 0x0A, CHR 0x0B, CHR 0x0C, CHR 0x0D} then is_blank cs
      else (case cs of
              [] \<Rightarrow> False
            | d # ds \<Rightarrow>
                if white2 c d then is_blank ds
                else (case ds of [] \<Rightarrow> False | e # es \<Rightarrow> white3 c d e \<and> is_blank es)))"

text \<open>The time and whether it is malformed; a failed parse returns the zero time.\<close>

definition parseOptionalExpiry :: "'w refresh_env \<Rightarrow> string \<Rightarrow> stamp \<times> bool" where
  "parseOptionalExpiry env v =
     (if is_blank v then (None, False)
      else (case re_parse env v of None \<Rightarrow> (None, True) | Some s \<Rightarrow> (s, False)))"

definition canonicalOptionalExpiry :: "string \<Rightarrow> string" where
  "canonicalOptionalExpiry v = (if is_blank v then [] else v)"

definition validateRefreshResult ::
    "'w refresh_env \<Rightarrow> refresh_result \<Rightarrow> stamp \<times> stamp \<times> refresh_error option" where
  "validateRefreshResult env r =
     (case (parseOptionalExpiry env (rr_expires r), parseOptionalExpiry env (rr_refresh_expires r)) of
        ((expiresAt, bad), (refreshExpiresAt, bad')) \<Rightarrow>
          (let invalid =
                 (if is_blank (rr_token r) then [''token''] else []) @
                 (if is_blank (rr_refresh r) then [''refresh_token''] else []) @
                 (if bad then [''expires_at''] else []) @ (if bad' then [''refresh_expires_at''] else [])
           in (expiresAt, refreshExpiresAt,
               if invalid = [] then None
               else Some (Wrapped (''missing or malformed '' @ go_join '', '' invalid) ErrInvalidRefreshResponse))))"

definition doProxyRefresh ::
    "'w refresh_env \<Rightarrow> string \<Rightarrow> 'w \<Rightarrow> (refresh_error + refresh_result) \<times> 'w" where
  "doProxyRefresh env refreshToken w =
     (case re_build env of
        Some e \<Rightarrow> (Inl (Wrapped ''failed to build refresh request: '' e), w)
      | None \<Rightarrow>
          (case re_post env refreshToken w of
             (Inl e, w') \<Rightarrow> (Inl (Wrapped ''refresh request failed: '' e), w')
           | (Inr (status, body), w') \<Rightarrow>
               (if status = 401 then Inl (Wrapped ''oauth refresh failed: '' ErrRefreshTokenExpired)
                else if status \<noteq> 200 then Inl (OtherError ''oauth refresh failed'')
                else (case body of
                        None \<Rightarrow> Inl (Wrapped ''failed to parse response body'' ErrInvalidRefreshResponse)
                      | Some r \<Rightarrow> Inr r), w')))"

section \<open>The leader\<close>

definition refreshThreshold :: int where "refreshThreshold = 5 * 60 * 1000000000"

text \<open>The test of the access token in \<^verbatim>\<open>maybeRefresh\<close> and \<^verbatim>\<open>adoptFreshStoredTokens\<close>, and of the refresh token.\<close>

definition token_usable :: "'w refresh_env \<Rightarrow> 'w \<Rightarrow> generation \<Rightarrow> bool" where
  "token_usable env w g \<longleftrightarrow>
     g_token g \<noteq> [] \<and> (case g_expires g of None \<Rightarrow> True | Some e \<Rightarrow> e - re_now env w > refreshThreshold)"

definition refresh_expired :: "'w refresh_env \<Rightarrow> 'w \<Rightarrow> generation \<Rightarrow> bool" where
  "refresh_expired env w g \<longleftrightarrow>
     (case g_refresh_expires g of None \<Rightarrow> False | Some e \<Rightarrow> re_now env w > e)"

definition adoptFreshStoredTokens ::
    "'w refresh_env \<Rightarrow> refresh_transport \<times> 'w \<Rightarrow> (refresh_error + bool) \<times> (refresh_transport \<times> 'w)" where
  "adoptFreshStoredTokens env s =
     (case s of (t, w) \<Rightarrow>
        (case re_reload env of
           None \<Rightarrow> (Inr False, (t, w))
         | Some reload \<Rightarrow>
             (case reload w of
                (Inl e, w') \<Rightarrow> (Inl (Wrapped ''reload refreshed tokens: '' e), (t, w'))
              | (Inr None, w') \<Rightarrow> (Inr False, (t, w'))
              | (Inr (Some stored), w') \<Rightarrow>
                  if g_refresh stored = [] then (Inr False, (t, w'))
                  else if g_refresh stored = g_refresh (tr_gen t) \<and> g_token stored = g_token (tr_gen t)
                  then (Inr False, (t, w'))
                  else (Inr (token_usable env w' stored), (t\<lparr>tr_gen := stored\<rparr>, w')))))"

definition blockConsumedGeneration :: "refresh_error \<Rightarrow> refresh_transport \<Rightarrow> refresh_transport" where
  "blockConsumedGeneration err t =
     t\<lparr>tr_gen := \<lparr>g_token = [], g_refresh = [], g_expires = None, g_refresh_expires = None\<rparr>,
       tr_blocked := Some err\<rparr>"

text \<open>The phases of \<^verbatim>\<open>refreshAndPersist\<close>: between two of them other calls may take the mutex. A phase
  carries the release function of the lock between processes, which runs at the return.\<close>

datatype 'w phase =
    Preparing
  | Checking bool "'w \<Rightarrow> 'w"
  | Exchanging string "'w \<Rightarrow> 'w"
  | Persisting "'w \<Rightarrow> 'w"
  | Returned "refresh_error option"

definition return_from ::
    "('w \<Rightarrow> 'w) \<Rightarrow> refresh_error option \<Rightarrow> refresh_transport \<times> 'w \<Rightarrow> 'w phase \<times> (refresh_transport \<times> 'w)" where
  "return_from release e s = (Returned e, (fst s, release (snd s)))"

text \<open>The lock, and the tokens another process may have stored.\<close>

definition prepare_refresh ::
    "'w refresh_env \<Rightarrow> nat \<Rightarrow> refresh_transport \<times> 'w \<Rightarrow> 'w phase \<times> (refresh_transport \<times> 'w)" where
  "prepare_refresh env c s =
     (case s of (t, w) \<Rightarrow>
        (let hasPending = (tr_pending t \<noteq> None) in
         case (case re_lock env of
                 None \<Rightarrow> (Inr (Some (\<lambda>w. w)), w)
               | Some lock \<Rightarrow> lock (\<not> hasPending) c w) of
           (Inl e, w') \<Rightarrow> (Returned (Some (Wrapped ''lock OAuth token persistence: '' e)), (t, w'))
         | (Inr None, w') \<Rightarrow>
             (Returned (Some (OtherError ''lock callback returned no release function'')), (t, w'))
         | (Inr (Some release), w') \<Rightarrow>
             if hasPending then (Persisting release, (t, w'))
             else (case re_ctx env c w' of
                     Some e \<Rightarrow> return_from release (Some e) (t, w')
                   | None \<Rightarrow>
                       (case adoptFreshStoredTokens env (t, w') of
                          (Inl e, s') \<Rightarrow> return_from release (Some e) s'
                        | (Inr adopted, s') \<Rightarrow> (Checking adopted release, s')))))"

text \<open>The checks before the refresh token is presented.\<close>

definition check_refresh ::
    "'w refresh_env \<Rightarrow> nat \<Rightarrow> bool \<Rightarrow> ('w \<Rightarrow> 'w) \<Rightarrow> refresh_transport \<times> 'w \<Rightarrow> 'w phase \<times> (refresh_transport \<times> 'w)" where
  "check_refresh env c adopted release s =
     (case s of (t, w) \<Rightarrow>
        (case re_ctx env c w of
           Some e \<Rightarrow> return_from release (Some e) (t, w)
         | None \<Rightarrow>
             if adopted then return_from release None (t, w)
             else (case (case re_check env of None \<Rightarrow> (None, w) | Some check \<Rightarrow> check w) of
                     (Some e, w') \<Rightarrow>
                       return_from release (Some (Joined ErrCredentialPersistencePreflight e)) (t, w')
                   | (None, w') \<Rightarrow>
                       if g_refresh (tr_gen t) = []
                       then return_from release (Some (OtherError ''OAuth refresh token is missing after persistence reload'')) (t, w')
                       else if refresh_expired env w' (tr_gen t)
                       then return_from release (Some ErrRefreshTokenExpired) (t, w')
                       else (case re_ctx env c w' of
                               Some e \<Rightarrow> return_from release (Some e) (t, w')
                             | None \<Rightarrow> (Exchanging (g_refresh (tr_gen t)) release, (t, w'))))))"

text \<open>The generation of a successful response, kept pending until it is persisted. A response with a
  malformed field keeps its replacement refresh token, with an access expiry in the past (the epoch).\<close>

definition install_result ::
    "'w refresh_env \<Rightarrow> string \<Rightarrow> refresh_result \<Rightarrow> stamp \<Rightarrow> stamp \<Rightarrow> refresh_error option
      \<Rightarrow> refresh_transport \<Rightarrow> refresh_transport" where
  "install_result env previous r expiresAt refreshExpiresAt validationErr t =
     (let bad = (validationErr \<noteq> None);
          token = (if bad \<and> is_blank (rr_token r) then g_token (tr_gen t) else rr_token r);
          expires = (if bad then ''1970-01-01T00:00:00Z'' else canonicalOptionalExpiry (rr_expires r));
          refreshExpires =
            (if bad \<and> refreshExpiresAt = None then [] else canonicalOptionalExpiry (rr_refresh_expires r));
          t1 = t\<lparr>tr_gen := \<lparr>g_token = token, g_refresh = rr_refresh r,
                             g_expires = (if bad then Some 0 else expiresAt), g_refresh_expires = refreshExpiresAt\<rparr>\<rparr>
      in if re_persist env \<noteq> None
         then t1\<lparr>tr_pending := Some \<lparr>pr_id = tr_next t, pr_previous = previous, pr_token = token,
                   pr_refresh = rr_refresh r, pr_expires = expires, pr_refresh_expires = refreshExpires,
                   pr_after_err = validationErr\<rparr>,
                 tr_next := Suc (tr_next t)\<rparr>
         else if bad then t1\<lparr>tr_blocked := validationErr\<rparr> else t1)"

definition exchange_refresh ::
    "'w refresh_env \<Rightarrow> string \<Rightarrow> ('w \<Rightarrow> 'w) \<Rightarrow> refresh_transport \<times> 'w \<Rightarrow> 'w phase \<times> (refresh_transport \<times> 'w)" where
  "exchange_refresh env refreshToken release s =
     (case s of (t, w) \<Rightarrow>
        (case doProxyRefresh env refreshToken w of
           (Inl e, w') \<Rightarrow>
             return_from release (Some e)
               (if error_is e ErrInvalidRefreshResponse then blockConsumedGeneration e t else t, w')
         | (Inr r, w') \<Rightarrow>
             (case validateRefreshResult env r of
                (expiresAt, refreshExpiresAt, validationErr) \<Rightarrow>
                  if validationErr \<noteq> None \<and> is_blank (rr_refresh r)
                  then return_from release validationErr (blockConsumedGeneration (the validationErr) t, w')
                  else (let t' = install_result env refreshToken r expiresAt refreshExpiresAt validationErr t in
                        if tr_pending t' \<noteq> None then (Persisting release, (t', w'))
                        else return_from release validationErr (t', w')))))"

definition same_pending :: "pending_refresh \<Rightarrow> refresh_transport \<Rightarrow> bool" where
  "same_pending p t \<longleftrightarrow> (case tr_pending t of None \<Rightarrow> False | Some q \<Rightarrow> pr_id q = pr_id p)"

definition drop_obsolete :: "pending_refresh \<Rightarrow> refresh_transport \<Rightarrow> refresh_transport" where
  "drop_obsolete p t =
     (if same_pending p t
      then t\<lparr>tr_pending := None, tr_gen := (tr_gen t)\<lparr>g_token := [], g_expires := None\<rparr>\<rparr> else t)"

definition clear_pending :: "pending_refresh \<Rightarrow> refresh_transport \<Rightarrow> refresh_transport" where
  "clear_pending p t =
     (if same_pending p t
      then (let t' = t\<lparr>tr_pending := None\<rparr> in
            if pr_after_err p \<noteq> None then t'\<lparr>tr_blocked := pr_after_err p\<rparr> else t')
      else t)"

text \<open>A pending generation exists only where a persistence callback does, which is the one it calls.\<close>

definition persistPendingRefresh ::
    "'w refresh_env \<Rightarrow> refresh_transport \<times> 'w \<Rightarrow> refresh_error option \<times> (refresh_transport \<times> 'w)" where
  "persistPendingRefresh env s =
     (case s of (t, w) \<Rightarrow>
        (case tr_pending t of
           None \<Rightarrow> (None, (t, w))
         | Some p \<Rightarrow>
             (case (case re_persist env of
                      None \<Rightarrow> (Some (OtherError ''nil pointer dereference''), w)
                    | Some persist \<Rightarrow>
                        persist (pr_previous p) (pr_token p) (pr_refresh p) (pr_expires p) (pr_refresh_expires p) w) of
                (Some e, w') \<Rightarrow>
                  (Some (Wrapped ''failed to persist refreshed tokens: '' e),
                   (if error_is e ErrTokenGenerationChanged then drop_obsolete p t else t, w'))
              | (None, w') \<Rightarrow> (pr_after_err p, (clear_pending p t, w')))))"

fun leader_step ::
    "'w refresh_env \<Rightarrow> nat \<Rightarrow> 'w phase \<Rightarrow> refresh_transport \<times> 'w \<Rightarrow> 'w phase \<times> (refresh_transport \<times> 'w)" where
  "leader_step env c Preparing s = prepare_refresh env c s"
| "leader_step env c (Checking adopted release) s = check_refresh env c adopted release s"
| "leader_step env c (Exchanging token release) s = exchange_refresh env token release s"
| "leader_step env c (Persisting release) s =
     (case persistPendingRefresh env s of (e, s') \<Rightarrow> return_from release e s')"
| "leader_step env c (Returned e) s = (Returned e, s)"

fun leader_run ::
    "'w refresh_env \<Rightarrow> nat \<Rightarrow> nat \<Rightarrow> 'w phase \<times> (refresh_transport \<times> 'w) \<Rightarrow> 'w phase \<times> (refresh_transport \<times> 'w)" where
  "leader_run env c 0 st = st"
| "leader_run env c (Suc n) (ph, s) = leader_run env c n (leader_step env c ph s)"

text \<open>\<^verbatim>\<open>refreshAndPersist\<close> without other calls in between: at most four phases.\<close>

definition refreshAndPersist ::
    "'w refresh_env \<Rightarrow> nat \<Rightarrow> refresh_transport \<times> 'w \<Rightarrow> (refresh_error option \<times> (refresh_transport \<times> 'w)) option" where
  "refreshAndPersist env c s =
     (case leader_run env c 4 (Preparing, s) of (Returned e, s') \<Rightarrow> Some (e, s') | _ \<Rightarrow> None)"

section \<open>Calls\<close>

text \<open>The first critical section of \<^verbatim>\<open>maybeRefresh\<close>: proceed with the token, fail, wait for a flight, or
  lead a new one.\<close>

datatype entry = Proceed | Refuse refresh_error | Join nat | Lead nat

definition token_gate :: "'w refresh_env \<Rightarrow> nat \<Rightarrow> refresh_transport \<times> 'w \<Rightarrow> entry option" where
  "token_gate env c s =
     (case s of (t, w) \<Rightarrow>
        if token_usable env w (tr_gen t) then Some Proceed
        else if g_refresh (tr_gen t) = [] then Some (Refuse ErrRefreshTokenMissing)
        else if refresh_expired env w (tr_gen t) then Some (Refuse ErrRefreshTokenExpired)
        else (case re_ctx env c w of Some e \<Rightarrow> Some (Refuse e) | None \<Rightarrow> None))"

definition enter_refresh :: "'w refresh_env \<Rightarrow> nat \<Rightarrow> refresh_transport \<times> 'w \<Rightarrow> entry \<times> refresh_transport" where
  "enter_refresh env c s =
     (case s of (t, w) \<Rightarrow>
        (case tr_blocked t of
           Some e \<Rightarrow> (Refuse e, t)
         | None \<Rightarrow>
             (case (if tr_pending t = None then token_gate env c s else None) of
                Some r \<Rightarrow> (r, t)
              | None \<Rightarrow>
                  (case tr_inflight t of
                     Some f \<Rightarrow> (Join f, t)
                   | None \<Rightarrow>
                       (let f = length (tr_flights t) in
                        (Lead f, t\<lparr>tr_inflight := Some f, tr_flights := tr_flights t @ [None]\<rparr>))))))"

text \<open>The last critical section: the flight is closed with the outcome of its leader.\<close>

definition close_flight :: "nat \<Rightarrow> refresh_error option \<Rightarrow> refresh_transport \<Rightarrow> refresh_transport" where
  "close_flight f r t =
     t\<lparr>tr_flights := (tr_flights t)[f := Some r],
       tr_inflight := (if tr_inflight t = Some f then None else tr_inflight t)\<rparr>"

text \<open>\<^verbatim>\<open>maybeRefresh\<close> of a call that runs alone; \<open>None\<close> if it waits for ever, which only a flight another
  call leads can cause.\<close>

definition maybeRefresh ::
    "'w refresh_env \<Rightarrow> nat \<Rightarrow> refresh_transport \<times> 'w \<Rightarrow> (refresh_error option \<times> (refresh_transport \<times> 'w)) option" where
  "maybeRefresh env c s =
     (case enter_refresh env c s of
        (Proceed, t) \<Rightarrow> Some (None, (t, snd s))
      | (Refuse e, t) \<Rightarrow> Some (Some e, (t, snd s))
      | (Join f, t) \<Rightarrow>
          (case tr_flights t ! f of
             Some r \<Rightarrow> Some (r, (t, snd s))
           | None \<Rightarrow> (case re_ctx env c (snd s) of Some e \<Rightarrow> Some (Some e, (t, snd s)) | None \<Rightarrow> None))
      | (Lead f, t) \<Rightarrow>
          (case refreshAndPersist env c (t, snd s) of
             None \<Rightarrow> None
           | Some (r, (t', w')) \<Rightarrow> Some (r, (close_flight f r t', w'))))"

text \<open>\<^verbatim>\<open>RoundTrip\<close>: \<open>own\<close> tells that the request carries credentials of its own.\<close>

definition Refresh_RoundTrip ::
    "'w refresh_env \<Rightarrow> nat \<Rightarrow> bool \<Rightarrow> refresh_transport \<times> 'w
      \<Rightarrow> ((refresh_error + nat) \<times> (refresh_transport \<times> 'w)) option" where
  "Refresh_RoundTrip env c own s =
     (if own then (case re_send env None (snd s) of (r, w) \<Rightarrow> Some (r, (fst s, w)))
      else (case maybeRefresh env c s of
              None \<Rightarrow> None
            | Some (Some e, s') \<Rightarrow> Some (Inl (Wrapped ''token refresh failed: '' e), s')
            | Some (None, (t, w)) \<Rightarrow>
                (case re_send env (Some (g_token (tr_gen t))) w of (r, w') \<Rightarrow> Some (r, (t, w')))))"

definition FreshToken ::
    "'w refresh_env \<Rightarrow> nat \<Rightarrow> refresh_transport \<times> 'w \<Rightarrow> ((refresh_error + string) \<times> (refresh_transport \<times> 'w)) option" where
  "FreshToken env c s =
     (case maybeRefresh env c s of
        None \<Rightarrow> None
      | Some (Some e, s') \<Rightarrow> Some (Inl e, s')
      | Some (None, (t, w)) \<Rightarrow> Some (Inr (g_token (tr_gen t)), (t, w)))"

text \<open>\<^verbatim>\<open>ProxyRefresh\<close>: one refresh without the state.\<close>

definition ProxyRefresh :: "'w refresh_env \<Rightarrow> string \<Rightarrow> 'w \<Rightarrow> (refresh_error + refresh_result) \<times> 'w" where
  "ProxyRefresh env tok w = doProxyRefresh env tok w"

section \<open>Concurrent calls\<close>

text \<open>A call of \<^verbatim>\<open>RoundTrip\<close> or \<^verbatim>\<open>FreshToken\<close>: before its first critical section, waiting for a flight,
  leading one, with \<^verbatim>\<open>maybeRefresh\<close> behind it but the token not yet read, failed, or with the token read.\<close>

datatype 'w call =
    Calling
  | Waiting nat
  | Leading nat "'w phase"
  | Ready
  | Refused refresh_error
  | Exposed string

record 'w refresh_system =
  sy_tr :: refresh_transport
  sy_world :: 'w
  sy_calls :: "'w call list"

definition put_call :: "nat \<Rightarrow> 'w call \<Rightarrow> refresh_transport \<Rightarrow> 'w \<Rightarrow> 'w refresh_system \<Rightarrow> 'w refresh_system" where
  "put_call i p t w s = \<lparr>sy_tr = t, sy_world = w, sy_calls = (sy_calls s)[i := p]\<rparr>"

fun after_outcome :: "refresh_error option \<Rightarrow> 'w call" where
  "after_outcome None = Ready"
| "after_outcome (Some e) = Refused e"

fun after_entry :: "entry \<Rightarrow> 'w call" where
  "after_entry Proceed = Ready"
| "after_entry (Refuse e) = Refused e"
| "after_entry (Join f) = Waiting f"
| "after_entry (Lead f) = Leading f Preparing"

fun is_returned :: "'w phase \<Rightarrow> bool" where
  "is_returned (Returned e) = True"
| "is_returned ph = False"

inductive refresh_step :: "'w refresh_env \<Rightarrow> 'w refresh_system \<Rightarrow> 'w refresh_system \<Rightarrow> bool" for env where
  enter: "\<lbrakk>i < length (sy_calls s); sy_calls s ! i = Calling; enter_refresh env i (sy_tr s, sy_world s) = (r, t)\<rbrakk> \<Longrightarrow>
    refresh_step env s (put_call i (after_entry r) t (sy_world s) s)"
| wait: "\<lbrakk>i < length (sy_calls s); sy_calls s ! i = Waiting f; f < length (tr_flights (sy_tr s));
      tr_flights (sy_tr s) ! f = Some r\<rbrakk> \<Longrightarrow>
    refresh_step env s (put_call i (after_outcome r) (sy_tr s) (sy_world s) s)"
| cancel: "\<lbrakk>i < length (sy_calls s); sy_calls s ! i = Waiting f; re_ctx env i (sy_world s) = Some e\<rbrakk> \<Longrightarrow>
    refresh_step env s (put_call i (Refused e) (sy_tr s) (sy_world s) s)"
| lead: "\<lbrakk>i < length (sy_calls s); sy_calls s ! i = Leading f ph; \<not> is_returned ph;
      leader_step env i ph (sy_tr s, sy_world s) = (ph', (t, w))\<rbrakk> \<Longrightarrow>
    refresh_step env s (put_call i (Leading f ph') t w s)"
| finish: "\<lbrakk>i < length (sy_calls s); sy_calls s ! i = Leading f (Returned r)\<rbrakk> \<Longrightarrow>
    refresh_step env s (put_call i (after_outcome r) (close_flight f r (sy_tr s)) (sy_world s) s)"
| expose: "\<lbrakk>i < length (sy_calls s); sy_calls s ! i = Ready\<rbrakk> \<Longrightarrow>
    refresh_step env s (put_call i (Exposed (g_token (tr_gen (sy_tr s)))) (sy_tr s) (sy_world s) s)"

text \<open>The transport before its first call, and the states \<open>n\<close> calls and the rest of the world can reach.\<close>

definition new_transport :: "generation \<Rightarrow> refresh_transport" where
  "new_transport g =
     \<lparr>tr_gen = g, tr_pending = None, tr_blocked = None, tr_inflight = None, tr_flights = [], tr_next = 0\<rparr>"

inductive refresh_reachable :: "'w refresh_env \<Rightarrow> 'w refresh_system \<Rightarrow> bool" for env where
  start: "refresh_reachable env \<lparr>sy_tr = new_transport g, sy_world = w, sy_calls = replicate n Calling\<rparr>"
| call: "refresh_reachable env s \<Longrightarrow> refresh_step env s s' \<Longrightarrow> refresh_reachable env s'"
| tick: "refresh_reachable env s \<Longrightarrow> re_tick env (sy_world s) w \<Longrightarrow> refresh_reachable env (s\<lparr>sy_world := w\<rparr>)"

inductive_cases refresh_stepE: "refresh_step env s s'"

lemma put_call_simps [simp]:
  "sy_tr (put_call i p t w s) = t" "sy_world (put_call i p t w s) = w"
  "sy_calls (put_call i p t w s) = (sy_calls s)[i := p]"
  by (simp_all add: put_call_def)

section \<open>Single flight\<close>

text \<open>What holds at the start of a phase.\<close>

fun phase_ok :: "refresh_transport \<Rightarrow> 'w phase \<Rightarrow> bool" where
  "phase_ok t Preparing \<longleftrightarrow> tr_blocked t = None"
| "phase_ok t (Checking adopted release) \<longleftrightarrow> tr_pending t = None \<and> tr_blocked t = None"
| "phase_ok t (Exchanging tok release) \<longleftrightarrow>
     tr_pending t = None \<and> tr_blocked t = None \<and> tok = g_refresh (tr_gen t) \<and> tok \<noteq> []"
| "phase_ok t (Persisting release) \<longleftrightarrow> tr_pending t \<noteq> None \<and> tr_blocked t = None"
| "phase_ok t (Returned e) \<longleftrightarrow> True"

lemma adopt_frame:
  "adoptFreshStoredTokens env (t, w) = (r, (t', w')) \<Longrightarrow> \<exists>g. t' = t\<lparr>tr_gen := g\<rparr>"
  by (auto simp: adoptFreshStoredTokens_def split: option.splits sum.splits prod.splits if_splits intro: exI [of _ "tr_gen t"])

lemma return_from_simps [simp]:
  "return_from release e s = (ph, (t, w)) \<longleftrightarrow> ph = Returned e \<and> t = fst s \<and> w = release (snd s)"
  by (auto simp: return_from_def)

lemma prepare_refresh_step:
  assumes "prepare_refresh env c (t, w) = (ph, (t', w'))"
  shows "tr_inflight t' = tr_inflight t \<and> tr_flights t' = tr_flights t \<and> tr_pending t' = tr_pending t \<and>
    tr_blocked t' = tr_blocked t \<and> (tr_blocked t = None \<longrightarrow> phase_ok t' ph) \<and> (\<exists>g. t' = t\<lparr>tr_gen := g\<rparr>)"
proof -
  have "\<exists>g. t' = t\<lparr>tr_gen := g\<rparr>"
    using assms by (auto simp: prepare_refresh_def Let_def split: option.splits sum.splits prod.splits if_splits
        dest: adopt_frame intro: exI [of _ "tr_gen t"])
  then obtain g where g: "t' = t\<lparr>tr_gen := g\<rparr>" ..
  have "tr_blocked t = None \<longrightarrow> phase_ok t' ph"
    using assms by (auto simp: prepare_refresh_def Let_def g split: option.splits sum.splits prod.splits if_splits)
  then show ?thesis using g by auto
qed

lemma check_refresh_step:
  assumes "check_refresh env c a release (t, w) = (ph, (t', w'))"
  shows "t' = t \<and> (tr_pending t = None \<and> tr_blocked t = None \<longrightarrow> phase_ok t ph)"
  using assms by (auto simp: check_refresh_def split: option.splits prod.splits if_splits)

lemma install_simps [simp]:
  "tr_inflight (install_result env prev r e re v t) = tr_inflight t"
  "tr_flights (install_result env prev r e re v t) = tr_flights t"
  by (simp_all add: install_result_def Let_def)

lemma block_simps [simp]:
  "tr_inflight (blockConsumedGeneration e t) = tr_inflight t"
  "tr_flights (blockConsumedGeneration e t) = tr_flights t"
  "tr_pending (blockConsumedGeneration e t) = tr_pending t"
  "tr_blocked (blockConsumedGeneration e t) = Some e"
  by (simp_all add: blockConsumedGeneration_def)

lemma exchange_refresh_step:
  assumes "exchange_refresh env tok release (t, w) = (ph, (t', w'))"
  shows "tr_inflight t' = tr_inflight t \<and> tr_flights t' = tr_flights t \<and>
    (tr_pending t = None \<and> tr_blocked t = None \<longrightarrow> phase_ok t' ph)"
proof -
  have "tr_pending t = None \<and> tr_blocked t = None \<longrightarrow> phase_ok t' ph"
    using assms by (auto simp: exchange_refresh_def install_result_def Let_def
        split: option.splits sum.splits prod.splits if_splits)
  moreover have "tr_inflight t' = tr_inflight t \<and> tr_flights t' = tr_flights t"
    using assms by (auto simp: exchange_refresh_def Let_def split: sum.splits prod.splits if_splits)
  ultimately show ?thesis by blast
qed

lemma persist_frame:
  assumes "persistPendingRefresh env (t, w) = (e, (t', w'))"
  shows "tr_inflight t' = tr_inflight t \<and> tr_flights t' = tr_flights t"
  using assms by (auto simp: persistPendingRefresh_def drop_obsolete_def clear_pending_def Let_def
      split: option.splits prod.splits if_splits)

lemma leader_step_phase:
  assumes ph: "phase_ok t ph" and run: "leader_step env c ph (t, w) = (ph', (t', w'))"
  shows "tr_inflight t' = tr_inflight t \<and> tr_flights t' = tr_flights t \<and> phase_ok t' ph'"
proof (cases ph)
  case Preparing
  then show ?thesis using ph run prepare_refresh_step [of env c t w ph' t' w'] by simp
next
  case (Checking a release)
  then show ?thesis using ph run check_refresh_step [of env c a release t w ph' t' w'] by simp
next
  case (Exchanging tok release)
  then show ?thesis using ph run exchange_refresh_step [of env tok release t w ph' t' w'] by simp
next
  case (Persisting release)
  then show ?thesis using run persist_frame by (fastforce split: prod.splits)
next
  case (Returned e)
  then show ?thesis using run by auto
qed

fun is_leading :: "'w call \<Rightarrow> bool" where
  "is_leading (Leading f ph) = True"
| "is_leading c = False"

text \<open>The flights agree with the calls: the open flight is the one in flight, exactly one call leads it,
  and every other call waits for a flight that exists.\<close>

definition one_leader :: "'w refresh_system \<Rightarrow> bool" where
  "one_leader s \<longleftrightarrow> (\<forall>i < length (sy_calls s). \<forall>j < length (sy_calls s).
     is_leading (sy_calls s ! i) \<longrightarrow> is_leading (sy_calls s ! j) \<longrightarrow> i = j)"

definition leads_ok :: "'w refresh_system \<Rightarrow> bool" where
  "leads_ok s \<longleftrightarrow> (\<forall>i < length (sy_calls s). \<forall>f ph. sy_calls s ! i = Leading f ph \<longrightarrow>
     tr_inflight (sy_tr s) = Some f \<and> phase_ok (sy_tr s) ph)"

definition flights_ok :: "'w refresh_system \<Rightarrow> bool" where
  "flights_ok s \<longleftrightarrow>
     (\<forall>f. tr_inflight (sy_tr s) = Some f \<longrightarrow>
        f < length (tr_flights (sy_tr s)) \<and> tr_flights (sy_tr s) ! f = None \<and>
        (\<exists>i < length (sy_calls s). is_leading (sy_calls s ! i))) \<and>
     (\<forall>f < length (tr_flights (sy_tr s)). tr_flights (sy_tr s) ! f = None \<longrightarrow> tr_inflight (sy_tr s) = Some f)"

definition waits_ok :: "'w refresh_system \<Rightarrow> bool" where
  "waits_ok s \<longleftrightarrow> (\<forall>i < length (sy_calls s). \<forall>f. sy_calls s ! i = Waiting f \<longrightarrow> f < length (tr_flights (sy_tr s)))"

definition refresh_inv :: "'w refresh_system \<Rightarrow> bool" where
  "refresh_inv s \<longleftrightarrow> one_leader s \<and> leads_ok s \<and> flights_ok s \<and> waits_ok s"

lemmas refresh_inv_defs = refresh_inv_def one_leader_def leads_ok_def flights_ok_def waits_ok_def

text \<open>A step of a call that leads neither before nor after it, and keeps the flights.\<close>

lemma inv_quiet:
  assumes inv: "refresh_inv s" and i: "i < length (sy_calls s)"
    and "\<not> is_leading (sy_calls s ! i)" "\<not> is_leading p" "\<And>f. p = Waiting f \<Longrightarrow> f < length (tr_flights (sy_tr s))"
  shows "refresh_inv (put_call i p (sy_tr s) w s)"
proof -
  have other: "is_leading ((sy_calls s)[i := p] ! j) \<longleftrightarrow> is_leading (sy_calls s ! j)" if "j < length (sy_calls s)" for j
    using assms(3,4) that by (cases "j = i") simp_all
  have "one_leader (put_call i p (sy_tr s) w s)"
    using inv by (simp add: refresh_inv_def one_leader_def other)
  moreover have "leads_ok (put_call i p (sy_tr s) w s)"
    using inv i assms(4) by (auto simp: refresh_inv_def leads_ok_def nth_list_update)
  moreover have "flights_ok (put_call i p (sy_tr s) w s) = flights_ok s"
    by (simp add: flights_ok_def other cong: conj_cong)
  moreover have "waits_ok (put_call i p (sy_tr s) w s)"
    using inv i assms(5) by (auto simp: refresh_inv_def waits_ok_def nth_list_update)
  ultimately show ?thesis using inv by (simp add: refresh_inv_def)
qed

lemma is_leading_iff: "is_leading c \<longleftrightarrow> (\<exists>f ph. c = Leading f ph)"
  by (cases c) auto

text \<open>A call that becomes the leader of a new flight.\<close>

lemma inv_lead:
  assumes inv: "refresh_inv s" and i: "i < length (sy_calls s)" and none: "tr_inflight (sy_tr s) = None"
    and blocked: "tr_blocked (sy_tr s) = None"
    and t: "t = (sy_tr s)\<lparr>tr_inflight := Some f, tr_flights := tr_flights (sy_tr s) @ [None]\<rparr>"
    and f: "f = length (tr_flights (sy_tr s))"
  shows "refresh_inv (put_call i (Leading f Preparing) t w s)"
proof -
  have no: "\<not> is_leading (sy_calls s ! j)" if "j < length (sy_calls s)" for j
    using inv none that by (auto simp: refresh_inv_def leads_ok_def is_leading_iff)
  then have "one_leader (put_call i (Leading f Preparing) t w s)"
    using i by (auto simp: one_leader_def nth_list_update)
  moreover have "leads_ok (put_call i (Leading f Preparing) t w s)"
    using no i blocked by (auto simp: leads_ok_def nth_list_update t is_leading_iff)
  moreover have "flights_ok (put_call i (Leading f Preparing) t w s)"
  proof -
    have "f = g" if "g < Suc (length (tr_flights (sy_tr s)))" "(tr_flights (sy_tr s) @ [None]) ! g = None" for g
    proof (rule ccontr)
      assume "f \<noteq> g"
      then have "g < length (tr_flights (sy_tr s))" "tr_flights (sy_tr s) ! g = None"
        using that f by (auto simp: nth_append less_Suc_eq)
      then have "tr_inflight (sy_tr s) = Some g" using inv by (metis flights_ok_def refresh_inv_def)
      then show False using none by simp
    qed
    then show ?thesis using i f by (auto simp: flights_ok_def t)
  qed
  moreover have "waits_ok (put_call i (Leading f Preparing) t w s)"
    using inv i by (auto simp: refresh_inv_def waits_ok_def t nth_list_update split: if_splits intro: less_SucI)
  ultimately show ?thesis by (simp add: refresh_inv_def)
qed

lemma inv_advance:
  assumes inv: "refresh_inv s" and i: "i < length (sy_calls s)" and lead: "sy_calls s ! i = Leading f ph"
    and t: "tr_inflight t = tr_inflight (sy_tr s)" "tr_flights t = tr_flights (sy_tr s)" "phase_ok t ph'"
  shows "refresh_inv (put_call i (Leading f ph') t w s)"
proof -
  have same: "is_leading ((sy_calls s)[i := Leading f ph'] ! j) \<longleftrightarrow> is_leading (sy_calls s ! j)"
    if "j < length (sy_calls s)" for j
    using lead that by (cases "j = i") simp_all
  have only: "j = i" if "j < length (sy_calls s)" "is_leading (sy_calls s ! j)" for j
    using inv i lead that by (simp add: refresh_inv_def one_leader_def)
  have "one_leader (put_call i (Leading f ph') t w s)"
    using inv by (simp add: refresh_inv_def one_leader_def same)
  moreover have "tr_inflight (sy_tr s) = Some f" using inv i lead by (simp add: refresh_inv_def leads_ok_def)
  then have "leads_ok (put_call i (Leading f ph') t w s)"
    using only i t by (auto simp: leads_ok_def nth_list_update is_leading_iff)
  moreover have "flights_ok (put_call i (Leading f ph') t w s) = flights_ok s"
    by (simp add: flights_ok_def same t cong: conj_cong)
  moreover have "waits_ok (put_call i (Leading f ph') t w s)"
    using inv i by (auto simp: refresh_inv_def waits_ok_def t nth_list_update split: if_splits)
  ultimately show ?thesis using inv by (simp add: refresh_inv_def)
qed

lemma inv_finish:
  assumes inv: "refresh_inv s" and i: "i < length (sy_calls s)" and lead: "sy_calls s ! i = Leading f ph"
  shows "refresh_inv (put_call i (after_outcome r) (close_flight f r (sy_tr s)) w s)"
proof -
  have only: "\<not> is_leading ((sy_calls s)[i := after_outcome r] ! j)" if "j < length (sy_calls s)" for j
    using inv i lead that by (cases "j = i"; cases r) (auto simp: refresh_inv_def one_leader_def)
  have f: "tr_inflight (sy_tr s) = Some f" using inv i lead by (simp add: refresh_inv_def leads_ok_def)
  have "one_leader (put_call i (after_outcome r) (close_flight f r (sy_tr s)) w s)"
    using only by (simp add: one_leader_def)
  moreover have "leads_ok (put_call i (after_outcome r) (close_flight f r (sy_tr s)) w s)"
    using only by (auto simp: leads_ok_def is_leading_iff)
  moreover have "flights_ok (put_call i (after_outcome r) (close_flight f r (sy_tr s)) w s)"
  proof -
    have "False" if "g < length (tr_flights (sy_tr s))" "(tr_flights (sy_tr s))[f := Some r] ! g = None" for g
    proof -
      have "g \<noteq> f" using that by auto
      then have "tr_flights (sy_tr s) ! g = None" "g \<noteq> f" using that by auto
      then show False using that(1) inv f by (metis flights_ok_def refresh_inv_def option.inject)
    qed
    then show ?thesis using f by (auto simp: flights_ok_def close_flight_def)
  qed
  moreover have "waits_ok (put_call i (after_outcome r) (close_flight f r (sy_tr s)) w s)"
    using inv i by (cases r) (auto simp: refresh_inv_def waits_ok_def close_flight_def nth_list_update split: if_splits)
  ultimately show ?thesis by (simp add: refresh_inv_def)
qed

lemma enter_refresh_cases:
  assumes "enter_refresh env c (t, w) = (r, t')"
  obtains (Proceed) "r = Proceed" "t' = t" "tr_blocked t = None" "tr_pending t = None" "token_usable env w (tr_gen t)"
    | (Refuse) e where "r = Refuse e" "t' = t"
    | (Join) f where "r = Join f" "t' = t" "tr_inflight t = Some f"
    | (Lead) f where "r = Lead f" "f = length (tr_flights t)" "tr_inflight t = None" "tr_blocked t = None"
        "t' = t\<lparr>tr_inflight := Some f, tr_flights := tr_flights t @ [None]\<rparr>"
proof (cases "tr_blocked t")
  case (Some e)
  then show thesis using assms by (intro Refuse [of e]) (simp_all add: enter_refresh_def)
next
  case blocked: None
  define gate where "gate = (if tr_pending t = None then token_gate env c (t, w) else None)"
  show thesis
  proof (cases gate)
    case (Some x)
    then have "tr_pending t = None" "token_gate env c (t, w) = Some x" by (auto simp: gate_def split: if_splits)
    moreover have "r = x" "t' = t" using assms blocked Some by (simp_all add: enter_refresh_def gate_def)
    moreover have "x = Proceed \<and> token_usable env w (tr_gen t) \<or> (\<exists>e. x = Refuse e)"
      using calculation(2) by (auto simp: token_gate_def split: option.splits if_splits)
    ultimately show thesis using Proceed Refuse blocked by blast
  next
    case None
    note gate = None
    show thesis
    proof (cases "tr_inflight t")
      case None
      then have "r = entry.Lead (length (tr_flights t))"
        "t' = t\<lparr>tr_inflight := Some (length (tr_flights t)), tr_flights := tr_flights t @ [None]\<rparr>"
        using assms blocked gate by (simp_all add: enter_refresh_def gate_def Let_def)
      then show thesis using None blocked Lead by simp
    next
      case (Some f)
      then have "r = entry.Join f" "t' = t" using assms blocked gate by (simp_all add: enter_refresh_def gate_def)
      then show thesis using Some Join by simp
    qed
  qed
qed

lemma refresh_step_inv:
  assumes "refresh_step env s s'" "refresh_inv s"
  shows "refresh_inv s'"
  using assms
proof (cases rule: refresh_step.cases)
  case (enter i r t)
  note here = enter
  from enter(4) show ?thesis
  proof (cases rule: enter_refresh_cases)
    case (Lead f)
    then show ?thesis using inv_lead [OF assms(2), of i t f "sy_world s"] here by simp
  next
    case (Join f)
    then have "f < length (tr_flights (sy_tr s))" using assms(2) by (simp add: refresh_inv_def flights_ok_def)
    then show ?thesis using inv_quiet [OF assms(2), of i "Waiting f" "sy_world s"] here Join by simp
  qed (use inv_quiet [OF assms(2), of i "after_entry r" "sy_world s"] here in auto)
next
  case (wait i f r)
  then show ?thesis using inv_quiet [OF assms(2), of i "after_outcome r" "sy_world s"] by (cases r) auto
next
  case (cancel i f e)
  then show ?thesis using inv_quiet [OF assms(2), of i "Refused e" "sy_world s"] by simp
next
  case (lead i f ph ph' t w)
  then have "phase_ok (sy_tr s) ph" using assms(2) by (simp add: refresh_inv_def leads_ok_def)
  from leader_step_phase [OF this, of env i "sy_world s" ph' t w] show ?thesis
    using inv_advance [OF assms(2), of i f ph t ph' w] lead by simp
next
  case (finish i f r)
  then show ?thesis using inv_finish [OF assms(2), of i f _ r "sy_world s"] by simp
next
  case (expose i)
  then show ?thesis using inv_quiet [OF assms(2), of i "Exposed (g_token (tr_gen (sy_tr s)))" "sy_world s"] by simp
qed

lemma refresh_reachable_inv: "refresh_reachable env s \<Longrightarrow> refresh_inv s"
proof (induction rule: refresh_reachable.induct)
  case (start g w n)
  then show ?case by (simp add: refresh_inv_defs new_transport_def)
next
  case (call s s')
  then show ?case by (blast intro: refresh_step_inv)
next
  case (tick s w)
  have "refresh_inv (s\<lparr>sy_world := w\<rparr>) = refresh_inv s" by (simp add: refresh_inv_defs)
  then show ?case using tick.IH by simp
qed

text \<open>C35. One call at a time refreshes, and never over a generation that waits to be persisted: in every
  reachable state at most one call leads a flight, it is the flight in flight, and when it is about to
  present a refresh token, that token is the current one, no earlier response is pending and no consumed
  generation has blocked the transport.\<close>

theorem refresh_single_flight:
  assumes "refresh_reachable env s" and "i < length (sy_calls s)" and "sy_calls s ! i = Leading f ph"
  shows "tr_inflight (sy_tr s) = Some f \<and>
    (\<forall>j < length (sy_calls s). is_leading (sy_calls s ! j) \<longrightarrow> j = i) \<and>
    (\<forall>tok release. ph = Exchanging tok release \<longrightarrow>
       tok = g_refresh (tr_gen (sy_tr s)) \<and> tok \<noteq> [] \<and> tr_pending (sy_tr s) = None \<and> tr_blocked (sy_tr s) = None)"
proof -
  have inv: "refresh_inv s" using assms(1) by (rule refresh_reachable_inv)
  then have "tr_inflight (sy_tr s) = Some f" "phase_ok (sy_tr s) ph"
    using assms(2,3) by (simp_all add: refresh_inv_def leads_ok_def)
  moreover have "j = i" if "j < length (sy_calls s)" "is_leading (sy_calls s ! j)" for j
    using inv assms(2,3) that by (simp add: refresh_inv_def one_leader_def)
  ultimately show ?thesis by auto
qed

section \<open>Every call returns\<close>

fun phase_weight :: "'w phase \<Rightarrow> nat" where
  "phase_weight Preparing = 6"
| "phase_weight (Checking a release) = 5"
| "phase_weight (Exchanging tok release) = 4"
| "phase_weight (Persisting release) = 3"
| "phase_weight (Returned e) = 2"

fun call_weight :: "'w call \<Rightarrow> nat" where
  "call_weight Calling = 7"
| "call_weight (Leading f ph) = phase_weight ph"
| "call_weight (Waiting f) = 2"
| "call_weight Ready = 1"
| "call_weight (Refused e) = 0"
| "call_weight (Exposed tok) = 0"

definition system_weight :: "'w refresh_system \<Rightarrow> nat" where
  "system_weight s = sum_list (map call_weight (sy_calls s))"

lemma leader_step_weight:
  assumes "leader_step env c ph s = (ph', s')" "\<not> is_returned ph"
  shows "phase_weight ph' < phase_weight ph"
proof -
  have ret: "phase_weight (fst (return_from release e s)) = 2" for release :: "'a \<Rightarrow> 'a" and e s
    by (simp add: return_from_def)
  have "phase_weight (fst (leader_step env c ph s)) < phase_weight ph"
    using assms(2) by (cases ph; cases s)
      (auto simp: ret prepare_refresh_def check_refresh_def exchange_refresh_def Let_def
        split: option.split sum.split prod.split)
  then show ?thesis using assms(1) by simp
qed

lemma put_call_weight:
  assumes "i < length (sy_calls s)" "call_weight p < call_weight (sy_calls s ! i)"
  shows "system_weight (put_call i p t w s) < system_weight s"
proof -
  have i: "i < length (map call_weight (sy_calls s))" using assms(1) by simp
  have "call_weight (sy_calls s ! i) \<le> system_weight s"
    using assms(1) by (auto simp: system_weight_def intro: member_le_sum_list)
  then show ?thesis using assms sum_list_update [OF i, of "call_weight p"]
    by (simp add: system_weight_def map_update)
qed

lemma after_weight: "call_weight (after_outcome r) < 2" and after_entry_weight: "call_weight (after_entry x) < 7"
  by (cases r; simp) (cases x; simp)

lemma refresh_step_weight: "refresh_step env s s' \<Longrightarrow> system_weight s' < system_weight s"
proof (induction rule: refresh_step.induct)
  case (wait i s f r)
  then show ?case by (intro put_call_weight) (simp_all add: after_weight)
next
  case (lead i s f ph ph' t w)
  then show ?case using leader_step_weight [OF lead(4,3)] by (intro put_call_weight) auto
next
  case (finish i s f r)
  then show ?case by (intro put_call_weight) (simp_all add: after_weight)
qed (auto intro: put_call_weight simp: after_entry_weight)

lemma refresh_progress:
  assumes inv: "refresh_inv s" and i: "i < length (sy_calls s)" and busy: "call_weight (sy_calls s ! i) \<noteq> 0"
  shows "\<exists>s'. refresh_step env s s'"
proof -
  have leader: "\<exists>s'. refresh_step env s s'" if "j < length (sy_calls s)" "sy_calls s ! j = Leading f ph" for j f ph
  proof (cases "is_returned ph")
    case True
    then show ?thesis using that by (cases ph) (auto intro: refresh_step.finish)
  next
    case False
    obtain ph' t w where "leader_step env j ph (sy_tr s, sy_world s) = (ph', (t, w))" by (metis prod.exhaust)
    then show ?thesis using refresh_step.lead [OF that False] by blast
  qed
  show ?thesis
  proof (cases "sy_calls s ! i")
    case Calling
    obtain r t where "enter_refresh env i (sy_tr s, sy_world s) = (r, t)" by (rule prod.exhaust)
    then show ?thesis using refresh_step.enter [OF i Calling] by blast
  next
    case (Waiting f)
    then have f: "f < length (tr_flights (sy_tr s))" using inv i by (simp add: refresh_inv_def waits_ok_def)
    show ?thesis
    proof (cases "tr_flights (sy_tr s) ! f")
      case None
      then have "tr_inflight (sy_tr s) = Some f" using inv f by (metis flights_ok_def refresh_inv_def)
      then obtain j where "j < length (sy_calls s)" "is_leading (sy_calls s ! j)"
        using inv by (metis flights_ok_def refresh_inv_def)
      then show ?thesis using leader by (auto simp: is_leading_iff)
    next
      case (Some r)
      then show ?thesis using refresh_step.wait [OF i Waiting f] by blast
    qed
  next
    case (Leading f ph)
    then show ?thesis using leader [OF i] by blast
  next
    case Ready
    then show ?thesis using refresh_step.expose [OF i] by blast
  qed (use busy in simp_all)
qed

lemma refresh_steps_reachable:
  "(refresh_step env ^^ n) s s' \<Longrightarrow> refresh_reachable env s \<Longrightarrow> refresh_reachable env s' \<and> system_weight s' + n \<le> system_weight s"
proof (induction n arbitrary: s')
  case (Suc n)
  then obtain u where u: "(refresh_step env ^^ n) s u" "refresh_step env u s'" by auto
  then show ?case using Suc.IH [OF u(1) Suc.prems(2)] refresh_step_weight [OF u(2)]
    by (auto intro: refresh_reachable.call)
qed simp

lemma system_weight_le: "system_weight s \<le> 7 * length (sy_calls s)"
proof -
  have "phase_weight ph \<le> 7" for ph :: "'a phase" by (cases ph) simp_all
  then have "call_weight c \<le> 7" for c :: "'a call" by (cases c) simp_all
  then have "sum_list (map call_weight cs) \<le> 7 * length cs" for cs :: "'a call list"
    by (induction cs) (simp_all add: add_mono)
  then show ?thesis by (simp add: system_weight_def)
qed

text \<open>C36. No call hangs, whoever leads and whatever the outcome of a flight: from any reachable state, a run
  of the calls has at most seven steps per call, and where no call can make a step every call has
  returned, with an error or with a token. In particular no call waits for a flight nobody closes.\<close>

theorem refresh_liveness:
  assumes "refresh_reachable env s" and "(refresh_step env ^^ n) s s'"
  shows "n \<le> 7 * length (sy_calls s) \<and>
    ((\<exists>s''. refresh_step env s' s'') \<or> (\<forall>c \<in> set (sy_calls s'). \<exists>e tok. c = Refused e \<or> c = Exposed tok))"
proof -
  have r: "refresh_reachable env s'" "system_weight s' + n \<le> system_weight s"
    using refresh_steps_reachable [OF assms(2,1)] by simp_all
  have "\<exists>e tok. c = Refused e \<or> c = Exposed tok" if c: "c \<in> set (sy_calls s')" and stuck: "\<nexists>s''. refresh_step env s' s''" for c
  proof -
    obtain i where i: "i < length (sy_calls s')" "sy_calls s' ! i = c" using c by (metis in_set_conv_nth)
    then have "call_weight c = 0" using refresh_progress [OF refresh_reachable_inv [OF r(1)] i(1)] stuck by auto
    moreover have "phase_weight ph \<noteq> 0" for ph :: "'a phase" by (cases ph) simp_all
    ultimately show ?thesis by (cases c) auto
  qed
  then show ?thesis using r(2) system_weight_le [of s] by (meson add_leD2 le_trans)
qed

section \<open>Which token a call may use\<close>

text \<open>What a pending generation holds: the token the transport has, usable unless the response was malformed.\<close>

definition pending_wf :: "refresh_transport \<Rightarrow> bool" where
  "pending_wf t \<longleftrightarrow> (\<forall>p. tr_pending t = Some p \<longrightarrow>
     pr_token p = g_token (tr_gen t) \<and> (pr_after_err p = None \<longrightarrow> pr_token p \<noteq> []))"

text \<open>Where a token may come from: the transport held it with nothing pending, another process had stored it,
  it was persisted, or there is nothing to persist it with.\<close>

definition token_backed :: "'w refresh_env \<Rightarrow> refresh_transport \<Rightarrow> string \<Rightarrow> bool" where
  "token_backed env t tok \<longleftrightarrow>
     (tr_pending t = None \<and> tok = g_token (tr_gen t)) \<or>
     (\<exists>reload w g w'. re_reload env = Some reload \<and> reload w = (Inr (Some g), w') \<and> g_token g = tok) \<or>
     (\<exists>persist prev ref ex rex w w'. re_persist env = Some persist \<and> persist prev tok ref ex rex w = (None, w')) \<or>
     re_persist env = None"

text \<open>What holds before each phase of a refresh that started in \<open>t0\<close>.\<close>

fun phase_backed :: "'w refresh_env \<Rightarrow> refresh_transport \<Rightarrow> 'w phase \<Rightarrow> refresh_transport \<Rightarrow> bool" where
  "phase_backed env t0 Preparing t \<longleftrightarrow> tr_blocked t = None"
| "phase_backed env t0 (Checking adopted release) t \<longleftrightarrow>
     tr_pending t = None \<and> tr_blocked t = None \<and>
     (adopted \<longrightarrow> g_token (tr_gen t) \<noteq> [] \<and> token_backed env t0 (g_token (tr_gen t)))"
| "phase_backed env t0 (Exchanging tok release) t \<longleftrightarrow> tr_pending t = None \<and> tr_blocked t = None"
| "phase_backed env t0 (Persisting release) t \<longleftrightarrow> tr_pending t \<noteq> None \<and> tr_blocked t = None"
| "phase_backed env t0 (Returned e) t \<longleftrightarrow>
     (e = None \<longrightarrow> tr_pending t = None \<and> tr_blocked t = None \<and>
        g_token (tr_gen t) \<noteq> [] \<and> token_backed env t0 (g_token (tr_gen t)))"

lemma not_blank_nonempty: "\<not> is_blank s \<Longrightarrow> s \<noteq> []"
  by auto

lemma validate_ok:
  assumes "validateRefreshResult env r = (e, re, None)"
  shows "\<not> is_blank (rr_token r) \<and> \<not> is_blank (rr_refresh r)"
  using assms by (auto simp: validateRefreshResult_def Let_def split: prod.splits if_splits)

lemma prepare_backed:
  assumes run: "prepare_refresh env c (t, w) = (ph, (t', w'))" and t: "pending_wf t" "tr_blocked t = None"
  shows "pending_wf t' \<and> phase_backed env t0 ph t'"
proof -
  obtain g where g: "t' = t\<lparr>tr_gen := g\<rparr>" using prepare_refresh_step [OF run] by blast
  have ok: "phase_ok t' ph" using prepare_refresh_step [OF run] t(2) by blast
  have keep: "t' = t" if "tr_pending t \<noteq> None"
    using run that by (auto simp: prepare_refresh_def Let_def split: option.splits sum.splits prod.splits if_splits)
  have wf: "pending_wf t'" using t(1) keep by (cases "tr_pending t") (auto simp: pending_wf_def g)
  have adopted: "g_token (tr_gen t') \<noteq> [] \<and> token_backed env t0 (g_token (tr_gen t'))"
    if ph: "ph = Checking True release" for release
  proof -
    obtain w1 where "adoptFreshStoredTokens env (t, w1) = (Inr True, (t', w'))"
      using run ph by (auto simp: prepare_refresh_def Let_def split: option.splits sum.splits prod.splits if_splits)
    then obtain reload stored where "re_reload env = Some reload" "reload w1 = (Inr (Some stored), w')"
        "tr_gen t' = stored" "token_usable env w' stored"
      by (auto simp: adoptFreshStoredTokens_def split: option.splits sum.splits prod.splits if_splits)
    then show ?thesis unfolding token_backed_def token_usable_def by blast
  qed
  have none: "ph \<noteq> Returned None"
    using run by (auto simp: prepare_refresh_def Let_def split: option.splits sum.splits prod.splits if_splits)
  show ?thesis
  proof (cases ph)
    case (Checking a release)
    then show ?thesis using ok wf adopted by (cases a) simp_all
  qed (use ok wf none in auto)
qed

lemma exchange_backed:
  assumes run: "exchange_refresh env tok release (t, w) = (ph, (t', w'))"
    and t: "tr_pending t = None" "tr_blocked t = None"
  shows "pending_wf t' \<and> phase_backed env t0 ph t'"
proof (cases "fst (doProxyRefresh env tok w)")
  case (Inl e)
  then show ?thesis using run t
    by (cases "doProxyRefresh env tok w") (auto simp: exchange_refresh_def pending_wf_def split: if_splits)
next
  case (Inr r)
  obtain w1 where d: "doProxyRefresh env tok w = (Inr r, w1)" using Inr by (metis prod.collapse)
  obtain ex rex v where v: "validateRefreshResult env r = (ex, rex, v)" by (metis prod.exhaust)
  show ?thesis
  proof (cases "v \<noteq> None \<and> is_blank (rr_refresh r)")
    case True
    then show ?thesis using run t by (auto simp: exchange_refresh_def d v pending_wf_def)
  next
    case False
    define u where "u = install_result env tok r ex rex v t"
    have step: "(if tr_pending u \<noteq> None then (Persisting release, (u, w1)) else return_from release v (u, w1)) = (ph, (t', w'))"
      using run False by (auto simp: exchange_refresh_def d v u_def Let_def split: if_splits)
    have tok: "v = None \<longrightarrow> rr_token r \<noteq> []" using validate_ok [of env r ex rex] v not_blank_nonempty by auto
    have u: "pending_wf u" "tr_pending u \<noteq> None \<longleftrightarrow> re_persist env \<noteq> None"
      "re_persist env \<noteq> None \<longrightarrow> tr_blocked u = None" "v = None \<longrightarrow> tr_blocked u = None \<and> g_token (tr_gen u) = rr_token r"
      using t tok by (auto simp: u_def install_result_def Let_def pending_wf_def)
    show ?thesis
    proof (cases "re_persist env")
      case None
      then show ?thesis using step u tok by (auto simp: token_backed_def)
    next
      case (Some persist)
      then show ?thesis using step u by auto
    qed
  qed
qed

lemma persist_backed:
  assumes run: "persistPendingRefresh env (t, w) = (e, (t', w'))"
    and t: "tr_pending t = Some p" "pending_wf t" "tr_blocked t = None"
  shows "pending_wf t' \<and> phase_backed env t0 (Returned e) t'"
proof (cases "re_persist env")
  case None
  then show ?thesis using run t by (auto simp: persistPendingRefresh_def)
next
  case (Some persist)
  obtain x w1 where x: "persist (pr_previous p) (pr_token p) (pr_refresh p) (pr_expires p) (pr_refresh_expires p) w = (x, w1)"
    by (rule prod.exhaust)
  show ?thesis
  proof (cases x)
    case (Some err)
    then show ?thesis using run t x \<open>re_persist env = Some persist\<close>
      by (auto simp: persistPendingRefresh_def drop_obsolete_def same_pending_def pending_wf_def split: if_splits)
  next
    case None
    then have "token_backed env t0 (pr_token p)" using x Some unfolding token_backed_def by blast
    then show ?thesis using run t x None Some
      by (auto simp: persistPendingRefresh_def clear_pending_def same_pending_def pending_wf_def Let_def split: if_splits)
  qed
qed

lemma leader_step_backed:
  assumes run: "leader_step env c ph (t, w) = (ph', (t', w'))" and t: "pending_wf t" "phase_backed env t0 ph t"
  shows "pending_wf t' \<and> phase_backed env t0 ph' t'"
proof (cases ph)
  case Preparing
  then show ?thesis using prepare_backed [of env c t w ph' t' w'] run t by simp
next
  case (Checking a release)
  then show ?thesis using run t
    by (auto simp: check_refresh_def split: option.splits prod.splits if_splits)
next
  case (Exchanging tok release)
  then show ?thesis using exchange_backed [of env tok release t w ph' t' w'] run t by simp
next
  case (Persisting release)
  then obtain p e w1 where "tr_pending t = Some p" "persistPendingRefresh env (t, w) = (e, (t', w1))" "ph' = Returned e"
    using run t by (auto split: prod.splits)
  then show ?thesis using persist_backed [of env t w e t' w1 p t0] Persisting t by simp
next
  case (Returned e)
  then show ?thesis using run t by auto
qed

lemma leader_run_returns:
  "phase_weight ph \<le> n + 2 \<Longrightarrow> \<exists>e t' w'. leader_run env c n (ph, s) = (Returned e, (t', w'))"
proof (induction n arbitrary: ph s)
  case 0
  then show ?case by (cases ph; cases s) auto
next
  case (Suc n)
  obtain ph' s' where step: "leader_step env c ph s = (ph', s')" by (rule prod.exhaust)
  have "phase_weight ph' \<le> n + 2"
  proof (cases "is_returned ph")
    case True
    then show ?thesis using step by (cases ph) auto
  next
    case False
    then show ?thesis using leader_step_weight [OF step] Suc.prems by simp
  qed
  then show ?case using Suc.IH step by simp
qed

lemma leader_run_backed:
  "leader_run env c n (ph, (t, w)) = (ph', (t', w')) \<Longrightarrow> pending_wf t \<Longrightarrow> phase_ok t ph \<Longrightarrow> phase_backed env t0 ph t \<Longrightarrow>
    pending_wf t' \<and> phase_backed env t0 ph' t' \<and> tr_inflight t' = tr_inflight t"
proof (induction n arbitrary: ph t w)
  case (Suc n)
  obtain ph1 t1 w1 where step: "leader_step env c ph (t, w) = (ph1, (t1, w1))" by (metis prod.exhaust)
  then show ?case
    using Suc.IH [of ph1 t1 w1] Suc.prems leader_step_backed [OF step Suc.prems(2,4)] leader_step_phase [OF Suc.prems(3) step]
    by auto
qed simp

lemma refreshAndPersist_backed:
  assumes t: "pending_wf t" "tr_blocked t = None"
  shows "\<exists>e t' w'. refreshAndPersist env c (t, w) = Some (e, (t', w')) \<and> pending_wf t' \<and>
    tr_inflight t' = tr_inflight t \<and> phase_backed env t0 (Returned e) t'"
proof -
  obtain e t' w' where run: "leader_run env c 4 (Preparing, (t, w)) = (Returned e, (t', w'))"
    using leader_run_returns [of Preparing 4 env c "(t, w)"] by auto
  then show ?thesis using leader_run_backed [OF run t(1), of t0] t(2) by (simp add: refreshAndPersist_def)
qed

lemma maybeRefresh_backed:
  assumes wf: "pending_wf t" and alone: "tr_inflight t = None"
  shows "\<exists>e t' w'. maybeRefresh env c (t, w) = Some (e, (t', w')) \<and> pending_wf t' \<and> tr_inflight t' = None \<and>
    phase_backed env t (Returned e) t'"
proof -
  obtain r t1 where enter: "enter_refresh env c (t, w) = (r, t1)" by (rule prod.exhaust)
  from enter show ?thesis
  proof (cases rule: enter_refresh_cases)
    case Proceed
    then show ?thesis using enter wf alone by (simp add: maybeRefresh_def token_backed_def token_usable_def)
  next
    case (Refuse e)
    then show ?thesis using enter wf alone by (simp add: maybeRefresh_def)
  next
    case (Join f)
    then show ?thesis using alone by simp
  next
    case (Lead f)
    then have t1: "pending_wf t1" "tr_blocked t1 = None" using wf by (auto simp: pending_wf_def)
    have b: "token_backed env t1 tok = token_backed env t tok" for tok using Lead by (simp add: token_backed_def)
    obtain e t' w' where run: "refreshAndPersist env c (t1, w) = Some (e, (t', w'))" "pending_wf t'"
        "tr_inflight t' = tr_inflight t1" "phase_backed env t1 (Returned e) t'"
      using refreshAndPersist_backed [OF t1, of env c w t1] by auto
    then show ?thesis using enter Lead b by (auto simp: maybeRefresh_def close_flight_def pending_wf_def)
  qed
qed

text \<open>C37. Refreshing fails closed. A request that runs alone always returns; it sends a token only if
  nothing is pending and nothing blocks the transport, and the token is not empty and was held with
  nothing pending, stored by another process, or persisted, unless there is no persistence at all; in
  every other case it returns an error. A usable token is sent without a refresh.\<close>

theorem RoundTrip_fail_closed:
  assumes wf: "pending_wf t" and alone: "tr_inflight t = None"
  shows "\<exists>res t' w'. Refresh_RoundTrip env c False (t, w) = Some (res, (t', w')) \<and>
      pending_wf t' \<and> tr_inflight t' = None \<and>
      ((\<exists>e. res = Inl (Wrapped ''token refresh failed: '' e)) \<or>
       (\<exists>w1. re_send env (Some (g_token (tr_gen t'))) w1 = (res, w') \<and> g_token (tr_gen t') \<noteq> [] \<and>
          tr_pending t' = None \<and> tr_blocked t' = None \<and> token_backed env t (g_token (tr_gen t')))) \<and>
      (token_usable env w (tr_gen t) \<and> tr_pending t = None \<and> tr_blocked t = None \<longrightarrow>
         t' = t \<and> re_send env (Some (g_token (tr_gen t))) w = (res, w'))"
proof -
  obtain e t' w1 where m: "maybeRefresh env c (t, w) = Some (e, (t', w1))" "pending_wf t'" "tr_inflight t' = None"
      "phase_backed env t (Returned e) t'"
    using maybeRefresh_backed [OF assms, of env c w] by auto
  have direct: "e = None \<and> t' = t \<and> w1 = w"
    if "token_usable env w (tr_gen t)" "tr_pending t = None" "tr_blocked t = None"
    using m(1) that by (simp add: maybeRefresh_def enter_refresh_def token_gate_def)
  obtain res w' where send: "re_send env (Some (g_token (tr_gen t'))) w1 = (res, w')" by (rule prod.exhaust)
  show ?thesis
  proof (cases e)
    case None
    then show ?thesis using m send direct by (auto simp: Refresh_RoundTrip_def)
  next
    case (Some err)
    then show ?thesis using m direct by (auto simp: Refresh_RoundTrip_def)
  qed
qed

section \<open>Examples\<close>

text \<open>A process whose clock is the world; the refresh returns a new generation and can be persisted.\<close>

definition clock_env :: "int refresh_env" where
  "clock_env =
     \<lparr>re_now = (\<lambda>w. w), re_ctx = (\<lambda>c w. None), re_lock = None, re_reload = None, re_check = None,
      re_persist = Some (\<lambda>prev tok ref ex rex w. (None, w)), re_build = None,
      re_post = (\<lambda>tok w. (Inr (200, Some \<lparr>rr_token = ''new'', rr_refresh = ''r2'', rr_expires = [], rr_refresh_expires = []\<rparr>), w)),
      re_send = (\<lambda>tok w. (Inr 200, w)), re_parse = (\<lambda>s. None), re_tick = (\<lambda>w w'. w < w')\<rparr>"

text \<open>A token that stays usable for one more nanosecond.\<close>

definition old_gen :: generation where
  "old_gen = \<lparr>g_token = ''old'', g_refresh = ''r1'', g_expires = Some (refreshThreshold + 2), g_refresh_expires = None\<rparr>"

definition race_system :: "int \<Rightarrow> int call \<Rightarrow> int call \<Rightarrow> int refresh_system" where
  "race_system now a b =
     \<lparr>sy_tr = (if is_leading b then (new_transport old_gen)\<lparr>tr_inflight := Some 0, tr_flights := [None]\<rparr> else new_transport old_gen),
      sy_world = now, sy_calls = [a, b]\<rparr>"

lemma race_start: "refresh_reachable clock_env (race_system 0 Ready Calling)"
proof -
  have "refresh_reachable clock_env (race_system 0 Calling Calling)"
    using refresh_reachable.start [of clock_env old_gen 0 2] by (simp add: race_system_def numeral_2_eq_2)
  moreover have "refresh_step clock_env (race_system 0 Calling Calling) (race_system 0 Ready Calling)"
    using refresh_step.enter [of 0 "race_system 0 Calling Calling" clock_env Proceed "new_transport old_gen"]
    by (simp add: race_system_def put_call_def enter_refresh_def token_gate_def token_usable_def new_transport_def
        old_gen_def clock_env_def)
  ultimately show ?thesis by (rule refresh_reachable.call)
qed

lemma race_leading: "refresh_reachable clock_env (race_system 2 Ready (Leading 0 Preparing))"
proof -
  have "refresh_reachable clock_env (race_system 2 Ready Calling)"
    using refresh_reachable.tick [OF race_start, of 2] by (simp add: race_system_def clock_env_def)
  moreover have "refresh_step clock_env (race_system 2 Ready Calling) (race_system 2 Ready (Leading 0 Preparing))"
    using refresh_step.enter [of 1 "race_system 2 Ready Calling" clock_env "Lead 0"
        "(new_transport old_gen)\<lparr>tr_inflight := Some 0, tr_flights := [None]\<rparr>"]
    by (simp add: race_system_def put_call_def enter_refresh_def token_gate_def token_usable_def refresh_expired_def
        new_transport_def old_gen_def clock_env_def)
  ultimately show ?thesis by (rule refresh_reachable.call)
qed

lemma race_exchanging: "refresh_reachable clock_env (race_system 2 Ready (Leading 0 (Exchanging ''r1'' (\<lambda>w. w))))"
proof -
  have step: "refresh_step clock_env (race_system 2 Ready (Leading 0 ph)) (race_system 2 Ready (Leading 0 ph'))"
    if "leader_step clock_env 1 ph (sy_tr (race_system 2 Ready (Leading 0 ph)), 2) = (ph', (sy_tr (race_system 2 Ready (Leading 0 ph)), 2))"
      "\<not> is_returned ph" for ph ph'
    using refresh_step.lead [of 1 "race_system 2 Ready (Leading 0 ph)" 0 ph clock_env] that
    by (simp add: race_system_def put_call_def)
  have "refresh_step clock_env (race_system 2 Ready (Leading 0 Preparing)) (race_system 2 Ready (Leading 0 (Checking False (\<lambda>w. w))))"
    by (rule step) (simp_all add: prepare_refresh_def adoptFreshStoredTokens_def clock_env_def race_system_def new_transport_def)
  moreover have "refresh_step clock_env (race_system 2 Ready (Leading 0 (Checking False (\<lambda>w. w))))
      (race_system 2 Ready (Leading 0 (Exchanging ''r1'' (\<lambda>w. w))))"
    by (rule step) (simp_all add: check_refresh_def refresh_expired_def clock_env_def race_system_def new_transport_def old_gen_def)
  ultimately show ?thesis using race_leading by (blast intro: refresh_reachable.call)
qed

text \<open>A token can be exposed before it is persisted: a request whose token was still usable in its first
  critical section reads the token in a second one, and a refresh that another request started in
  between may have put the new generation there, still pending. The comment on \<^verbatim>\<open>pendingRefresh\<close> says that
  persistence must have succeeded before the token is exposed to any caller.\<close>

theorem token_exposed_before_persistence:
  "\<exists>s p. refresh_reachable clock_env s \<and> sy_calls s ! 0 = Exposed (pr_token p) \<and> pr_token p \<noteq> g_token old_gen \<and>
     tr_pending (sy_tr s) = Some p"
proof -
  let ?s = "race_system 2 Ready (Leading 0 (Exchanging ''r1'' (\<lambda>w. w)))"
  let ?p = "\<lparr>pr_id = 0, pr_previous = ''r1'', pr_token = ''new'', pr_refresh = ''r2'', pr_expires = [],
    pr_refresh_expires = [], pr_after_err = None\<rparr>"
  obtain t where t: "leader_step clock_env 1 (Exchanging ''r1'' (\<lambda>w. w)) (sy_tr ?s, 2) = (Persisting (\<lambda>w. w), (t, 2))"
      "tr_pending t = Some ?p" "g_token (tr_gen t) = ''new''"
    by (simp add: race_system_def new_transport_def exchange_refresh_def doProxyRefresh_def clock_env_def
        validateRefreshResult_def parseOptionalExpiry_def white2_def white3_def install_result_def canonicalOptionalExpiry_def Let_def)
  let ?u = "put_call 1 (Leading 0 (Persisting (\<lambda>w. w))) t 2 ?s"
  have "refresh_step clock_env ?s ?u"
    using refresh_step.lead [of 1 ?s 0 _ clock_env _ t 2] t(1) by (simp add: race_system_def)
  then have u: "refresh_reachable clock_env ?u" using race_exchanging by (blast intro: refresh_reachable.call)
  have "refresh_step clock_env ?u (put_call 0 (Exposed ''new'') t 2 ?u)"
    using refresh_step.expose [of 0 ?u clock_env] t(3) by (simp add: race_system_def)
  then have "refresh_reachable clock_env (put_call 0 (Exposed ''new'') t 2 ?u)"
    using u by (blast intro: refresh_reachable.call)
  then show ?thesis using t(2)
    by (intro exI [of _ "put_call 0 (Exposed ''new'') t 2 ?u"] exI [of _ ?p]) (simp add: race_system_def old_gen_def)
qed

lemma refresh_single_flight_witness:
  "tr_inflight (sy_tr (race_system 2 Ready (Leading 0 (Exchanging ''r1'' (\<lambda>w. w))))) = Some 0 \<and>
   tr_pending (sy_tr (race_system 2 Ready (Leading 0 (Exchanging ''r1'' (\<lambda>w. w))))) = None"
proof -
  have "1 < length (sy_calls (race_system 2 Ready (Leading 0 (Exchanging ''r1'' (\<lambda>w. w)))))"
    "sy_calls (race_system 2 Ready (Leading 0 (Exchanging ''r1'' (\<lambda>w. w)))) ! 1 = Leading 0 (Exchanging ''r1'' (\<lambda>w. w))"
    by (simp_all add: race_system_def)
  from refresh_single_flight [OF race_exchanging this] show ?thesis by blast
qed

lemma refresh_liveness_witness:
  "\<exists>s. refresh_step clock_env (race_system 2 Ready (Leading 0 Preparing)) s"
proof -
  have "(refresh_step clock_env ^^ 0) (race_system 2 Ready (Leading 0 Preparing)) (race_system 2 Ready (Leading 0 Preparing))"
    by simp
  from refresh_liveness [OF race_leading this] show ?thesis by (simp add: race_system_def)
qed

lemma RoundTrip_fail_closed_witness:
  "\<exists>res s'. Refresh_RoundTrip clock_env 0 False (new_transport old_gen, 2) = Some (res, s')"
proof -
  have "pending_wf (new_transport old_gen)" "tr_inflight (new_transport old_gen) = None"
    by (simp_all add: new_transport_def pending_wf_def)
  from RoundTrip_fail_closed [OF this, of clock_env 0 2] show ?thesis by blast
qed

end
