(* ===== verification/Gcx_ConfigEdit.thy ===== *)
theory Gcx_ConfigEdit
  imports Gcx_Slugs "HOL-Library.Sublist"
begin

text \<open>
  Editing a configuration by path: \<^verbatim>\<open>config/editor.go\<close>, which walks the configuration with
  \<^verbatim>\<open>reflect\<close>, and the environment overrides of \<^verbatim>\<open>config/envparse.go\<close>, which walk it the same way.
  A Go type is a \<open>ctype\<close>, a value a \<open>cval\<close>; \<open>conforms\<close> is the typing relation between them. The
  types of \<^verbatim>\<open>config/types.go\<close> are \<open>Config_type\<close> and its parts, in the order of their fields and with their
  tags, because the walk takes the first field whose tag matches.

  A value is a tree. The code edits what pointers point to, and the pointers of a decoded
  configuration are distinct but for the resolved views of a context, which no path reaches
  (their tag is that of the name before them). An edit returns the edited value also when it fails,
  since what was allocated on the way stays; it panics where \<^verbatim>\<open>reflect\<close> does, that is when it sets a value that is
  not addressable or belongs to an unexported field.
\<close>

section \<open>Types and values\<close>

datatype 't struct_field =
  StructField (f_yaml: string) (f_env: string) (f_exported: bool) (f_type: 't)

datatype ctype =
    TString | TBool | TInt64 | TStrings | TBytes
  | TPtr ctype | TMap ctype | TStruct string "ctype struct_field list" | TOther string

lemma size_field_type [termination_simp]:
  "f \<in> set fs \<Longrightarrow> size (f_type f) < Suc (size_list (size_struct_field size) fs)"
proof (induction fs)
  case (Cons g fs)
  then show ?case by (cases g) auto
qed simp

text \<open>A map or slice is \<open>None\<close> when it is nil, and so is a pointer.\<close>

datatype cval =
    VString string | VBool bool | VInt int | VStrings "string list option" | VBytes "string option"
  | VPtr "cval option" | VMap "(string \<times> cval) list option" | VStruct "cval list" | VOther

definition int64_range :: "int set" where
  "int64_range = {- (2 ^ 63) ..< 2 ^ 63}"

fun conforms :: "ctype \<Rightarrow> cval \<Rightarrow> bool" where
  "conforms TString v = (case v of VString s \<Rightarrow> True | _ \<Rightarrow> False)"
| "conforms TBool v = (case v of VBool b \<Rightarrow> True | _ \<Rightarrow> False)"
| "conforms TInt64 v = (case v of VInt i \<Rightarrow> i \<in> int64_range | _ \<Rightarrow> False)"
| "conforms TStrings v = (case v of VStrings xs \<Rightarrow> True | _ \<Rightarrow> False)"
| "conforms TBytes v = (case v of VBytes bs \<Rightarrow> True | _ \<Rightarrow> False)"
| "conforms (TPtr t) v = (case v of VPtr p \<Rightarrow> pred_option (conforms t) p | _ \<Rightarrow> False)"
| "conforms (TMap t) v =
     (case v of
        VMap m \<Rightarrow> pred_option (\<lambda>kvs. distinct (map fst kvs) \<and> list_all (\<lambda>kv. conforms t (snd kv)) kvs) m
      | _ \<Rightarrow> False)"
| "conforms (TStruct n fs) v =
     (case v of VStruct vs \<Rightarrow> list_all2 (\<lambda>f v. conforms (f_type f) v) fs vs | _ \<Rightarrow> False)"
| "conforms (TOther k) v = (case v of VOther \<Rightarrow> True | _ \<Rightarrow> False)"

text \<open>\<^verbatim>\<open>reflect.New(t).Elem()\<close>: the zero value.\<close>

fun zero_value :: "ctype \<Rightarrow> cval" where
  "zero_value TString = VString []"
| "zero_value TBool = VBool False"
| "zero_value TInt64 = VInt 0"
| "zero_value TStrings = VStrings None"
| "zero_value TBytes = VBytes None"
| "zero_value (TPtr t) = VPtr None"
| "zero_value (TMap t) = VMap None"
| "zero_value (TStruct n fs) = VStruct (map (\<lambda>f. zero_value (f_type f)) fs)"
| "zero_value (TOther k) = VOther"

lemma zero_value_conforms [simp]: "conforms t (zero_value t)"
  by (induction t rule: zero_value.induct) (auto simp: int64_range_def list_all2_conv_all_nth)

section \<open>Results\<close>

datatype edit_error =
    CanNotSetStruct | CanNotSetMap | UnableToLocate string string | MoreSteps string "string list"
  | InvalidBool string | InvalidInt64 string | UnhandledKind string

datatype 'v edit = Done 'v | Failed edit_error 'v | Panic

fun edited :: "'v edit \<Rightarrow> 'v option" where
  "edited (Done v) = Some v"
| "edited (Failed e v) = Some v"
| "edited Panic = None"

fun map_then :: "('v \<Rightarrow> 'w) \<Rightarrow> 'v edit \<Rightarrow> 'w edit" where
  "map_then f (Done v) = Done (f v)"
| "map_then f (Failed e v) = Failed e (f v)"
| "map_then f Panic = Panic"

lemma edited_map_then [simp]: "edited (map_then f r) = map_option f (edited r)"
  by (cases r) auto

definition guarded :: "bool \<Rightarrow> 'v edit \<Rightarrow> 'v edit" where
  "guarded settable r = (if settable then r else Panic)"

text \<open>\<^verbatim>\<open>strconv.ParseBool\<close> and \<^verbatim>\<open>toBool\<close>.\<close>

definition ParseBool :: "string \<Rightarrow> bool option" where
  "ParseBool s =
     (if s \<in> set [''1'', ''t'', ''T'', ''TRUE'', ''true'', ''True''] then Some True
      else if s \<in> set [''0'', ''f'', ''F'', ''FALSE'', ''false'', ''False''] then Some False
      else None)"

definition toBool :: "string \<Rightarrow> bool option" where
  "toBool v = (if v = [] then Some False else ParseBool v)"

text \<open>The items of a comma separated list, nil when there are none.\<close>

definition list_items :: "string \<Rightarrow> string list option" where
  "list_items v =
     (let items = filter (\<lambda>x. x \<noteq> []) (map go_trim_space (go_split (CHR '','') v))
      in if items = [] then None else Some items)"

section \<open>The walk\<close>

fun kind_name :: "ctype \<Rightarrow> string" where
  "kind_name TString = ''string''"
| "kind_name TBool = ''bool''"
| "kind_name TInt64 = ''int64''"
| "kind_name TStrings = ''slice''"
| "kind_name TBytes = ''slice''"
| "kind_name (TPtr t) = ''ptr''"
| "kind_name (TMap t) = ''map''"
| "kind_name (TStruct n fs) = ''struct''"
| "kind_name (TOther k) = k"

text \<open>
  The end of the path: \<open>a\<close> and \<open>e\<close> are \<^verbatim>\<open>reflect\<close>'s flags, whether the value is addressable
  and whether it was reached through exported fields only.
\<close>

definition set_leaf :: "string \<Rightarrow> bool \<Rightarrow> bool \<Rightarrow> bool \<Rightarrow> ctype \<Rightarrow> cval \<Rightarrow> cval edit" where
  "set_leaf value unset a e t v =
     (case t of
        TStruct n fs \<Rightarrow> if unset then guarded (a \<and> e) (Done (zero_value t)) else Failed CanNotSetStruct v
      | TMap u \<Rightarrow> Failed CanNotSetMap v
      | TString \<Rightarrow> guarded (a \<and> e) (Done (VString (if unset then [] else value)))
      | TStrings \<Rightarrow> guarded (a \<and> e) (Done (VStrings (if unset then None else list_items value)))
      | TBytes \<Rightarrow> guarded (a \<and> e) (Done (VBytes (if unset then None else Some value)))
      | TBool \<Rightarrow>
          if unset then guarded (a \<and> e) (Done (VBool False))
          else (case toBool value of
                  None \<Rightarrow> Failed (InvalidBool value) v
                | Some b \<Rightarrow> guarded (a \<and> e) (Done (VBool b)))
      | TInt64 \<Rightarrow>
          if unset then guarded (a \<and> e) (Done (VInt 0))
          else (case parse_int value of
                  None \<Rightarrow> Failed (InvalidInt64 value) v
                | Some i \<Rightarrow> guarded (a \<and> e) (Done (VInt i)))
      | TPtr u \<Rightarrow> Failed (UnhandledKind (kind_name t)) v
      | TOther k \<Rightarrow> Failed (UnhandledKind (kind_name t)) v)"

text \<open>The first field with a name, the part of its tag before a comma.\<close>

definition tag_name :: "string \<Rightarrow> string" where
  "tag_name tag = (case go_cut (CHR '','') tag of None \<Rightarrow> tag | Some (n, opts) \<Rightarrow> n)"

fun field_index :: "string \<Rightarrow> 't struct_field list \<Rightarrow> nat option" where
  "field_index step [] = None"
| "field_index step (f # fs) =
     (if tag_name (f_yaml f) = step then Some 0 else map_option Suc (field_index step fs))"

text \<open>Following a pointer: what is behind it is addressable. A nil pointer has no value behind it.\<close>

definition through_pointer :: "(bool \<Rightarrow> ctype \<Rightarrow> cval \<Rightarrow> cval edit) \<Rightarrow> bool \<Rightarrow> ctype \<Rightarrow> cval \<Rightarrow> cval edit" where
  "through_pointer k a t v =
     (case t of
        TPtr u \<Rightarrow>
          (case v of
             VPtr (Some x) \<Rightarrow> map_then (\<lambda>y. VPtr (Some y)) (k True u x)
           | _ \<Rightarrow> Failed (UnhandledKind ''invalid'') v)
      | _ \<Rightarrow> k a t v)"

text \<open>A nil map or pointer in a field is allocated before the walk goes on.\<close>

definition nil_allocated :: "ctype \<Rightarrow> cval \<Rightarrow> bool \<times> cval" where
  "nil_allocated t v =
     (case t of
        TMap u \<Rightarrow> if v = VMap None then (True, VMap (Some [])) else (False, v)
      | TPtr u \<Rightarrow> if v = VPtr None then (True, VPtr (Some (zero_value u))) else (False, v)
      | _ \<Rightarrow> (False, v))"

text \<open>The value of a new map entry.\<close>

definition new_entry :: "ctype \<Rightarrow> cval" where
  "new_entry t =
     (case t of TPtr u \<Rightarrow> VPtr (Some (zero_value u)) | TMap u \<Rightarrow> VMap (Some []) | _ \<Rightarrow> zero_value t)"

text \<open>
  A step into a map: \<open>k\<close> edits the entry. A new entry is a variable and addressable, but for a
  pointer or a map, and when editing it fails the map keeps what was stored before: what a pointer or a map refers
  to, with its edits, or the zero value. An existing entry is a copy and not addressable.
\<close>

definition by_reference :: "ctype \<Rightarrow> bool" where
  "by_reference t = (case t of TPtr u \<Rightarrow> True | TMap u \<Rightarrow> True | _ \<Rightarrow> False)"

definition nil_map_entry :: "ctype \<Rightarrow> cval \<Rightarrow> bool" where
  "nil_map_entry t x = (case t of TMap u \<Rightarrow> x = VMap None | _ \<Rightarrow> False)"

definition map_entries :: "(string \<times> cval) list option \<Rightarrow> (string \<times> cval) list" where
  "map_entries m = (case m of None \<Rightarrow> [] | Some kvs \<Rightarrow> kvs)"

lemma map_entries_simps [simp]: "map_entries None = []" "map_entries (Some kvs) = kvs"
  by (simp_all add: map_entries_def)

definition edit_entry ::
  "(bool \<Rightarrow> ctype \<Rightarrow> cval \<Rightarrow> cval edit) \<Rightarrow> bool \<Rightarrow> bool \<Rightarrow> ctype \<Rightarrow> (string \<times> cval) list option \<Rightarrow> string \<Rightarrow> cval edit" where
  "edit_entry k unset e t m step =
     (let kvs = map_entries m;
          store = (\<lambda>x. VMap (Some (AList.update step x kvs)))
      in case map_of kvs step of
           None \<Rightarrow>
             if unset then Done (VMap m)
             else guarded (m \<noteq> None \<and> e)
                    (case k (\<not> by_reference t) t (new_entry t) of
                       Done x \<Rightarrow> Done (store x)
                     | Failed er x \<Rightarrow> Failed er (store (if by_reference t then x else new_entry t))
                     | Panic \<Rightarrow> Panic)
         | Some x \<Rightarrow>
             if nil_map_entry t x
             then (if unset then Done (VMap m) else guarded e (map_then store (k False t (VMap (Some [])))))
             else (case k False t x of
                     Done y \<Rightarrow> guarded e (Done (store y))
                   | Failed er y \<Rightarrow> Failed er (store y)
                   | Panic \<Rightarrow> Panic))"

text \<open>\<open>update_actual\<close> is \<^verbatim>\<open>updateValue\<close> after its first pointer has been followed.\<close>

primrec update_actual ::
  "string list \<Rightarrow> string \<Rightarrow> bool \<Rightarrow> bool \<Rightarrow> bool \<Rightarrow> ctype \<Rightarrow> cval \<Rightarrow> cval edit" where
  "update_actual [] value unset a e t v = set_leaf value unset a e t v"
| "update_actual (step # rest) value unset a e t v =
     (case t of
        TStruct n fs \<Rightarrow>
          (case v of
             VStruct vs \<Rightarrow>
               (case field_index step fs of
                  None \<Rightarrow> Failed (UnableToLocate step n) v
                | Some i \<Rightarrow>
                    (let e' = (e \<and> f_exported (fs ! i)); ft = f_type (fs ! i); (alloc, x) = nil_allocated ft (vs ! i)
                     in if rest = [] \<and> unset
                        then guarded (a \<and> e') (Done (VStruct (vs[i := zero_value ft])))
                        else if alloc \<and> \<not> (a \<and> e') then Panic
                        else map_then (\<lambda>y. VStruct (vs[i := y]))
                               (through_pointer (\<lambda>a t v. update_actual rest value unset a e' t v) a ft x)))
           | _ \<Rightarrow> Panic)
      | TMap u \<Rightarrow>
          (case v of
             VMap m \<Rightarrow>
               (if rest = [] \<and> unset then guarded e (Done (VMap (map_option (AList.delete step) m)))
                else if rest = [] \<and> u = TString
                then (case m of
                        None \<Rightarrow> Panic
                      | Some kvs \<Rightarrow> guarded e (Done (VMap (Some (AList.update step (VString value) kvs)))))
                else edit_entry (through_pointer (\<lambda>a t v. update_actual rest value unset a e t v)) unset e u m step)
           | _ \<Rightarrow> Panic)
      | TPtr u \<Rightarrow> Failed (UnhandledKind (kind_name t)) v
      | TOther k \<Rightarrow> Failed (UnhandledKind (kind_name t)) v
      | _ \<Rightarrow> Failed (MoreSteps (kind_name t) (step # rest)) v)"

definition updateValue :: "string list \<Rightarrow> string \<Rightarrow> bool \<Rightarrow> ctype \<Rightarrow> cval \<Rightarrow> cval edit" where
  "updateValue path value unset t v = through_pointer (\<lambda>a t v. update_actual path value unset a True t v) False t v"

text \<open>The caller's argument is a pointer to \<open>v\<close>, which the result replaces.\<close>

definition behind_pointer :: "cval \<Rightarrow> cval" where
  "behind_pointer p = (case p of VPtr (Some v) \<Rightarrow> v | _ \<Rightarrow> p)"

definition SetValue :: "ctype \<Rightarrow> cval \<Rightarrow> string \<Rightarrow> string \<Rightarrow> cval edit" where
  "SetValue t v path value =
     map_then behind_pointer (updateValue (go_split (CHR ''.'') path) value False (TPtr t) (VPtr (Some v)))"

definition UnsetValue :: "ctype \<Rightarrow> cval \<Rightarrow> string \<Rightarrow> cval edit" where
  "UnsetValue t v path =
     map_then behind_pointer (updateValue (go_split (CHR ''.'') path) [] True (TPtr t) (VPtr (Some v)))"

lemma map_then_comp: "map_then f (map_then g r) = map_then (\<lambda>x. f (g x)) r"
  by (cases r) auto

lemma map_then_id: "map_then (\<lambda>x. x) r = r"
  by (cases r) auto

lemma SetValue_actual: "SetValue t v path value = update_actual (go_split (CHR ''.'') path) value False True True t v"
  by (simp add: SetValue_def updateValue_def through_pointer_def map_then_comp behind_pointer_def map_then_id)

lemma UnsetValue_actual: "UnsetValue t v path = update_actual (go_split (CHR ''.'') path) [] True True True t v"
  by (simp add: UnsetValue_def updateValue_def through_pointer_def map_then_comp behind_pointer_def map_then_id)

section \<open>Edits keep the types\<close>

definition keeps_types :: "(bool \<Rightarrow> ctype \<Rightarrow> cval \<Rightarrow> cval edit) \<Rightarrow> bool" where
  "keeps_types k \<longleftrightarrow> (\<forall>a t v v'. conforms t v \<longrightarrow> edited (k a t v) = Some v' \<longrightarrow> conforms t v')"

lemma keeps_typesD: "keeps_types k \<Longrightarrow> conforms t v \<Longrightarrow> edited (k a t v) = Some v' \<Longrightarrow> conforms t v'"
  by (auto simp: keeps_types_def)

lemma keeps_types_results:
  assumes "keeps_types k" and "conforms t v"
  shows "k a t v = Done x \<Longrightarrow> conforms t x" and "k a t v = Failed er x \<Longrightarrow> conforms t x"
  using keeps_typesD[OF assms, of a x] by simp_all

lemma edited_guarded: "edited (guarded b r) = Some v \<longleftrightarrow> b \<and> edited r = Some v"
  by (simp add: guarded_def)

lemma parse_int_range: "parse_int s = Some i \<Longrightarrow> i \<in> int64_range"
  by (auto simp: parse_int_def int64_range_def Let_def split: if_splits option.splits prod.splits list.splits)

lemma set_leaf_conforms:
  assumes "conforms t v" and "edited (set_leaf value unset a e t v) = Some v'"
  shows "conforms t v'"
  using assms zero_value_conforms[of t]
  by (cases t) (auto simp: set_leaf_def edited_guarded int64_range_def parse_int_range[unfolded int64_range_def]
      split: if_splits option.splits dest!: parse_int_range)

lemma conforms_struct_update:
  assumes "conforms (TStruct n fs) (VStruct vs)" and "i < length fs \<longrightarrow> conforms (f_type (fs ! i)) x"
  shows "conforms (TStruct n fs) (VStruct (vs[i := x]))"
proof -
  have "conforms (f_type (fs ! j)) (vs[i := x] ! j)" if "j < length fs" for j
    using assms that by (cases "j = i") (auto simp: list_all2_conv_all_nth)
  then show ?thesis using assms(1) by (auto simp: list_all2_conv_all_nth)
qed

lemma conforms_map_update:
  "conforms (TMap t) (VMap (Some kvs)) \<Longrightarrow> conforms t x \<Longrightarrow> conforms (TMap t) (VMap (Some (AList.update k x kvs)))"
  by (induction kvs) (auto simp: dom_update distinct_update list_all_iff)

lemma conforms_map_delete:
  "conforms (TMap t) (VMap m) \<Longrightarrow> conforms (TMap t) (VMap (map_option (AList.delete k) m))"
proof (cases m)
  case (Some kvs)
  have "set (AList.delete k kvs) \<subseteq> set kvs" by (auto simp: AList.delete_eq)
  then show "conforms (TMap t) (VMap m) \<Longrightarrow> ?thesis"
    using Some by (auto simp: list_all_iff distinct_delete)
qed simp

lemma conforms_nil_allocated: "conforms t v \<Longrightarrow> conforms t (snd (nil_allocated t v))"
  by (cases t) (auto simp: nil_allocated_def)

lemma conforms_new_entry [simp]: "conforms t (new_entry t)"
  by (cases t) (auto simp: new_entry_def int64_range_def list_all2_conv_all_nth)

lemma through_pointer_other: "(\<forall>u. t \<noteq> TPtr u) \<Longrightarrow> through_pointer k a t v = k a t v"
  by (cases t) (auto simp: through_pointer_def)

lemma keeps_through_pointer:
  assumes "keeps_types k"
  shows "keeps_types (through_pointer k)"
proof -
  have "conforms t v'" if t: "conforms t v" and r: "edited (through_pointer k a t v) = Some v'" for a t v v'
  proof (cases "\<exists>u. t = TPtr u")
    case True
    then show ?thesis
      using t r keeps_typesD[OF assms] by (auto simp: through_pointer_def split: cval.splits option.splits)
  next
    case False
    then show ?thesis using t r keeps_typesD[OF assms] by (simp add: through_pointer_other)
  qed
  then show ?thesis by (auto simp: keeps_types_def)
qed

lemma field_index_bound: "field_index step fs = Some i \<Longrightarrow> i < length fs \<and> tag_name (f_yaml (fs ! i)) = step"
  by (induction fs arbitrary: i) (auto split: if_splits)

lemma conforms_entry:
  "conforms (TMap t) (VMap m) \<Longrightarrow> map_of (map_entries m) k = Some x \<Longrightarrow> conforms t x"
  by (cases m) (auto simp: list_all_iff dest!: map_of_SomeD)

lemma edit_entry_conforms:
  assumes k: "keeps_types k" and m: "conforms (TMap t) (VMap m)"
    and r: "edited (edit_entry k unset e t m step) = Some v'"
  shows "conforms (TMap t) v'"
proof -
  let ?kvs = "map_entries m"
  have store: "conforms (TMap t) (VMap (Some (AList.update step x ?kvs)))" if "conforms t x" for x
    by (rule conforms_map_update[OF _ that]) (use m in \<open>cases m; simp\<close>)
  show ?thesis
  proof (cases "map_of ?kvs step")
    case None
    show ?thesis
    proof (cases unset)
      case False
      show ?thesis
        using r None False m store keeps_types_results[OF k conforms_new_entry]
        by (auto simp: edit_entry_def Let_def edited_guarded simp del: conforms.simps
            split: edit.splits if_splits)
    qed (use r None m in \<open>simp add: edit_entry_def Let_def\<close>)
  next
    case (Some x)
    have x: "conforms t x" by (rule conforms_entry[OF m Some])
    show ?thesis
    proof (cases "nil_map_entry t x")
      case True
      then have "conforms t (VMap (Some []))" by (cases t) (auto simp: nil_map_entry_def)
      then show ?thesis
        using r Some True m store keeps_typesD[OF k]
        by (auto simp: edit_entry_def Let_def edited_guarded simp del: conforms.simps split: if_splits)
    next
      case False
      then show ?thesis
        using r Some store keeps_types_results[OF k x]
        by (auto simp: edit_entry_def Let_def edited_guarded simp del: conforms.simps split: edit.splits)
    qed
  qed
qed

lemma update_conforms: "keeps_types (\<lambda>a t v. update_actual p value unset a e t v)"
proof (induction p arbitrary: e)
  case Nil
  then show ?case by (auto simp: keeps_types_def intro: set_leaf_conforms)
next
  case (Cons step rest)
  have "conforms t v'"
    if v: "conforms t v" and r: "edited (update_actual (step # rest) value unset a e t v) = Some v'" for a t v v'
  proof (cases t)
    case (TStruct n fs)
    then obtain vs where vs: "v = VStruct vs" using v by (auto split: cval.splits)
    show ?thesis
    proof (cases "field_index step fs")
      case None
      then show ?thesis using r v TStruct vs by simp
    next
      case (Some i)
      let ?ft = "f_type (fs ! i)" and ?e = "e \<and> f_exported (fs ! i)"
      have i: "i < length fs" using field_index_bound[OF Some] by simp
      have "conforms ?ft (vs ! i)" using v i TStruct vs by (simp add: list_all2_conv_all_nth)
      then have x: "conforms ?ft (snd (nil_allocated ?ft (vs ! i)))" by (rule conforms_nil_allocated)
      have "\<exists>y. v' = VStruct (vs[i := y]) \<and> conforms ?ft y"
        using r TStruct vs Some keeps_typesD[OF keeps_through_pointer[OF Cons.IH[of ?e]] x]
        by (auto simp: Let_def edited_guarded split: prod.splits if_splits)
      then show ?thesis using conforms_struct_update[of n fs vs] v TStruct vs by auto
    qed
  next
    case (TMap u)
    then obtain m where m: "v = VMap m" using v by (auto split: cval.splits)
    show ?thesis
      using r v TMap m edit_entry_conforms[OF keeps_through_pointer[OF Cons.IH[of e]], of u m]
        conforms_map_delete[of u m] conforms_map_update[of TString]
      by (auto simp: edited_guarded simp del: conforms.simps(7) split: if_splits option.splits)
  qed (use v r in auto)
  then show ?case by (auto simp: keeps_types_def)
qed

section \<open>Edits do not panic\<close>

text \<open>
  The types the walk can edit: maps hold strings, pointers or maps, no pointer points to a map, and
  the fields that have a name are exported. Nothing is asked of fields without one.
\<close>

fun walkable :: "ctype \<Rightarrow> bool" where
  "walkable (TPtr t) = (walkable t \<and> (case t of TMap u \<Rightarrow> False | _ \<Rightarrow> True))"
| "walkable (TMap t) = (walkable t \<and> (t = TString \<or> by_reference t))"
| "walkable (TStruct n fs) =
     list_all (\<lambda>f. tag_name (f_yaml f) \<in> {[], ''-''} \<or> f_exported f \<and> walkable (f_type f)) fs"
| "walkable t = True"

definition quiet_walk :: "(bool \<Rightarrow> ctype \<Rightarrow> cval \<Rightarrow> cval edit) \<Rightarrow> bool" where
  "quiet_walk k \<longleftrightarrow>
     (\<forall>a t v. walkable t \<longrightarrow> conforms t v \<longrightarrow> a \<or> by_reference t \<longrightarrow> \<not> nil_map_entry t v \<longrightarrow> k a t v \<noteq> Panic)"

lemma map_then_Panic [simp]: "map_then f r = Panic \<longleftrightarrow> r = Panic"
  by (cases r) auto

lemma quiet_walkD:
  "quiet_walk k \<Longrightarrow> walkable t \<Longrightarrow> conforms t v \<Longrightarrow> a \<or> by_reference t \<Longrightarrow> \<not> nil_map_entry t v \<Longrightarrow> k a t v \<noteq> Panic"
  by (auto simp: quiet_walk_def)

lemma quiet_through_pointer:
  assumes "quiet_walk k"
  shows "quiet_walk (through_pointer k)"
proof -
  have "through_pointer k a t v \<noteq> Panic"
    if w: "walkable t" and c: "conforms t v" and b: "a \<or> by_reference t" and n: "\<not> nil_map_entry t v" for a t v
  proof (cases "\<exists>u. t = TPtr u")
    case True
    then obtain u where u: "t = TPtr u" by blast
    have "k True u x \<noteq> Panic" if "v = VPtr (Some x)" for x
      using quiet_walkD[OF assms, of u x True] u w c that by (auto simp: nil_map_entry_def split: ctype.splits)
    then show ?thesis using u by (auto simp: through_pointer_def split: cval.splits option.splits)
  next
    case False
    then show ?thesis using quiet_walkD[OF assms w c b n] by (simp add: through_pointer_other)
  qed
  then show ?thesis by (auto simp: quiet_walk_def)
qed

lemma walkable_new_entry: "by_reference t \<Longrightarrow> \<not> nil_map_entry t (new_entry t)"
  by (auto simp: by_reference_def nil_map_entry_def new_entry_def split: ctype.splits)

lemma edit_entry_quiet:
  assumes k: "quiet_walk k" and w: "walkable t" "by_reference t" and m: "conforms (TMap t) (VMap (Some kvs))"
  shows "edit_entry k unset True t (Some kvs) step \<noteq> Panic"
proof -
  have new: "k (\<not> by_reference t) t (new_entry t) \<noteq> Panic"
    using quiet_walkD[OF k w(1)] w(2) walkable_new_entry by simp
  have old: "k False t x \<noteq> Panic" if "map_of kvs step = Some x" and "\<not> nil_map_entry t x" for x
    using quiet_walkD[OF k w(1) conforms_entry[OF m, of step]] that w(2) by simp
  have empty: "k False t (VMap (Some [])) \<noteq> Panic" if nil: "nil_map_entry t x" for x
  proof -
    obtain u where u: "t = TMap u" using nil by (cases t) (auto simp: nil_map_entry_def)
    show ?thesis using quiet_walkD[OF k w(1), of "VMap (Some [])" False] u w(2) by (simp add: nil_map_entry_def)
  qed
  show ?thesis
    using new old empty
    by (auto simp: edit_entry_def Let_def guarded_def split: edit.splits option.splits)
qed

lemma nil_allocated_ready: "\<not> nil_map_entry t (snd (nil_allocated t v))"
  by (cases t) (auto simp: nil_allocated_def nil_map_entry_def)

lemma set_leaf_quiet: "a \<or> by_reference t \<Longrightarrow> set_leaf value unset a True t v \<noteq> Panic"
  by (cases t) (auto simp: set_leaf_def guarded_def by_reference_def split: option.splits)

lemma update_quiet:
  "set p \<inter> {[], ''-''} = {} \<Longrightarrow> quiet_walk (\<lambda>a t v. update_actual p value unset a True t v)"
proof (induction p)
  case Nil
  then show ?case by (auto simp: quiet_walk_def set_leaf_quiet)
next
  case (Cons step rest)
  then have IH: "quiet_walk (through_pointer (\<lambda>a t v. update_actual rest value unset a True t v))"
    by (intro quiet_through_pointer) auto
  have "update_actual (step # rest) value unset a True t v \<noteq> Panic"
    if w: "walkable t" and c: "conforms t v" and b: "a \<or> by_reference t" and n: "\<not> nil_map_entry t v" for a t v
  proof (cases t)
    case (TStruct nm fs)
    then obtain vs where vs: "v = VStruct vs" using c by (auto split: cval.splits)
    show ?thesis
    proof (cases "field_index step fs")
      case None
      then show ?thesis using TStruct vs by simp
    next
      case (Some i)
      let ?f = "fs ! i"
      have i: "i < length fs" "tag_name (f_yaml ?f) = step" using field_index_bound[OF Some] by auto
      then have f: "f_exported ?f" "walkable (f_type ?f)"
        using w TStruct Cons.prems by (auto simp: list_all_length)
      have a: "a" using b TStruct by (simp add: by_reference_def)
      have x: "conforms (f_type ?f) (snd (nil_allocated (f_type ?f) (vs ! i)))"
        using c i TStruct vs by (intro conforms_nil_allocated) (simp add: list_all2_conv_all_nth)
      show ?thesis
        using TStruct vs Some f a quiet_walkD[OF IH f(2) x, of True] nil_allocated_ready
        by (auto simp: Let_def guarded_def split: prod.splits)
    qed
  next
    case (TMap u)
    then obtain kvs where m: "v = VMap (Some kvs)" using c n by (auto simp: nil_map_entry_def split: cval.splits)
    have u: "walkable u" "u = TString \<or> by_reference u" using w TMap by auto
    have "edit_entry (through_pointer (\<lambda>a t v. update_actual rest value unset a True t v)) unset True u (Some kvs) step \<noteq> Panic"
      if nr: "\<not> by_reference u" and ne: "rest \<noteq> []"
    proof -
      obtain s r where r: "rest = s # r" using ne by (cases rest) auto
      have s: "u = TString" using u nr by simp
      show ?thesis
        by (auto simp: r s edit_entry_def Let_def through_pointer_def guarded_def nil_map_entry_def by_reference_def
            split: option.splits)
    qed
    then show ?thesis
      using TMap m u edit_entry_quiet[OF IH u(1), of kvs unset step] c by (auto simp: guarded_def)
  qed auto
  then show ?case by (auto simp: quiet_walk_def)
qed

section \<open>What an edit changes\<close>

text \<open>\<open>read_path\<close> is the value a path leads to, with its type; nothing behind a nil pointer or a missing entry.\<close>

definition deref :: "ctype \<Rightarrow> cval \<Rightarrow> (ctype \<times> cval) option" where
  "deref t v =
     (case t of TPtr u \<Rightarrow> (case v of VPtr (Some x) \<Rightarrow> Some (u, x) | _ \<Rightarrow> None) | _ \<Rightarrow> Some (t, v))"

primrec read_path :: "string list \<Rightarrow> ctype \<Rightarrow> cval \<Rightarrow> (ctype \<times> cval) option" where
  "read_path [] t v = Some (t, v)"
| "read_path (step # rest) t v =
     (case t of
        TStruct n fs \<Rightarrow>
          (case v of
             VStruct vs \<Rightarrow>
               (case field_index step fs of
                  None \<Rightarrow> None
                | Some i \<Rightarrow> Option.bind (deref (f_type (fs ! i)) (vs ! i)) (\<lambda>(u, x). read_path rest u x))
           | _ \<Rightarrow> None)
      | TMap u \<Rightarrow>
          (case v of
             VMap m \<Rightarrow>
               (case map_of (map_entries m) step of
                  None \<Rightarrow> None
                | Some x \<Rightarrow> Option.bind (deref u x) (\<lambda>(u, x). read_path rest u x))
           | _ \<Rightarrow> None)
      | _ \<Rightarrow> None)"

definition parse_leaf :: "ctype \<Rightarrow> string \<Rightarrow> cval option" where
  "parse_leaf t value =
     (case t of
        TString \<Rightarrow> Some (VString value)
      | TStrings \<Rightarrow> Some (VStrings (list_items value))
      | TBytes \<Rightarrow> Some (VBytes (Some value))
      | TBool \<Rightarrow> map_option VBool (toBool value)
      | TInt64 \<Rightarrow> map_option VInt (parse_int value)
      | _ \<Rightarrow> None)"

lemma guarded_Done: "guarded b r = Done v \<longleftrightarrow> b \<and> r = Done v"
  by (simp add: guarded_def)

lemma map_then_Done: "map_then f r = Done y \<longleftrightarrow> (\<exists>x. r = Done x \<and> y = f x)"
  by (cases r) auto

lemma through_pointer_Done:
  assumes "through_pointer k a t v = Done y" and "conforms t v"
  shows "\<exists>a' u x z. conforms u x \<and> k a' u x = Done z \<and> deref t y = Some (u, z)"
proof (cases "\<exists>u. t = TPtr u")
  case True
  then show ?thesis
    using assms by (auto simp: through_pointer_def deref_def map_then_Done split: cval.splits option.splits; blast)
next
  case False
  then have "k a t v = Done y" and "deref t y = Some (t, y)"
    using assms(1) by (auto simp: through_pointer_other deref_def split: ctype.splits)
  then show ?thesis using assms(2) by blast
qed

lemma edit_entry_Done:
  assumes "edit_entry k False e t m step = Done v'" and "conforms (TMap t) (VMap m)"
  shows "\<exists>a x y kvs. conforms t x \<and> k a t x = Done y \<and> v' = VMap (Some kvs) \<and> map_of kvs step = Some y"
proof (cases "map_of (map_entries m) step")
  case None
  then show ?thesis
    using assms(1) conforms_new_entry[of t]
    by (auto simp: edit_entry_def Let_def guarded_Done map_of_update simp del: conforms_new_entry
        split: edit.splits if_splits; blast)
next
  case (Some x)
  note x = conforms_entry[OF assms(2) Some]
  show ?thesis
  proof (cases "nil_map_entry t x")
    case True
    then have "conforms t (VMap (Some []))" by (cases t) (auto simp: nil_map_entry_def)
    then show ?thesis
      using assms(1) Some True
      by (auto simp: edit_entry_def Let_def guarded_Done map_then_Done map_of_update simp del: conforms.simps; blast)
  next
    case False
    then show ?thesis
      using assms(1) Some x
      by (auto simp: edit_entry_def Let_def guarded_Done map_of_update simp del: conforms.simps split: edit.splits; blast)
  qed
qed

lemma set_leaf_Done: "set_leaf value False a e t v = Done v' \<Longrightarrow> parse_leaf t value = Some v'"
  by (cases t) (auto simp: set_leaf_def parse_leaf_def guarded_Done split: option.splits)

text \<open>What a walk that succeeds does at its first step: it edits what the step leads to.\<close>

lemma struct_step_Done:
  assumes v: "conforms (TStruct n fs) (VStruct vs)" and i: "field_index step fs = Some i"
    and r: "update_actual (step # rest) value unset a e (TStruct n fs) (VStruct vs) = Done v'"
    and ne: "\<not> (rest = [] \<and> unset)"
  shows "\<exists>e' a' u x y z. conforms u x \<and> update_actual rest value unset a' e' u x = Done z
           \<and> v' = VStruct (vs[i := y]) \<and> deref (f_type (fs ! i)) y = Some (u, z)"
proof -
  let ?ft = "f_type (fs ! i)"
  have "conforms ?ft (vs ! i)" using v field_index_bound[OF i] by (simp add: list_all2_conv_all_nth)
  note x = conforms_nil_allocated[OF this]
  obtain y e' where y: "v' = VStruct (vs[i := y])"
    "through_pointer (\<lambda>a t v. update_actual rest value unset a e' t v) a ?ft (snd (nil_allocated ?ft (vs ! i))) = Done y"
    using r i ne by (auto simp: Let_def map_then_Done split: prod.splits if_splits)
  show ?thesis using through_pointer_Done[OF y(2) x] y(1) by blast
qed

lemma set_reads:
  "conforms t v \<Longrightarrow> update_actual p value False a e t v = Done v' \<Longrightarrow>
   \<exists>u x. read_path p t v' = Some (u, x) \<and> parse_leaf u value = Some x"
proof (induction p arbitrary: a e t v v')
  case Nil
  then show ?case using set_leaf_Done by simp
next
  case (Cons step rest)
  show ?case
  proof (cases t)
    case (TStruct n fs)
    then obtain vs where vs: "v = VStruct vs" using Cons.prems by (auto split: cval.splits)
    obtain i where i: "field_index step fs = Some i" using Cons.prems TStruct vs by (auto split: option.splits)
    obtain e' a' u x y z where s: "conforms u x" "update_actual rest value False a' e' u x = Done z"
      "v' = VStruct (vs[i := y])" "deref (f_type (fs ! i)) y = Some (u, z)"
      using struct_step_Done[of n fs vs step i rest _ False a e v'] Cons.prems TStruct vs i by blast
    have len: "i < length vs"
      using field_index_bound[OF i] Cons.prems(1) TStruct vs by (simp add: list_all2_lengthD)
    then show ?thesis using Cons.IH[OF s(1,2)] TStruct i s(3,4) len by simp
  next
    case (TMap u)
    then obtain m where m: "v = VMap m" using Cons.prems by (auto split: cval.splits)
    show ?thesis
    proof (cases "rest = [] \<and> u = TString")
      case True
      then show ?thesis
        using Cons.prems(2) TMap m by (auto simp: guarded_Done map_of_update deref_def parse_leaf_def split: option.splits)
    next
      case False
      then have "edit_entry (through_pointer (\<lambda>a t v. update_actual rest value False a e t v)) False e u m step = Done v'"
        using Cons.prems(2) TMap m by (auto split: if_splits)
      moreover have "conforms (TMap u) (VMap m)" using Cons.prems(1) TMap m by simp
      ultimately obtain a' x y kvs where
        y: "conforms u x" "through_pointer (\<lambda>a t v. update_actual rest value False a e t v) a' u x = Done y"
        "v' = VMap (Some kvs)" "map_of kvs step = Some y"
        by (blast dest: edit_entry_Done)
      from through_pointer_Done[OF y(2) y(1)] obtain a'' u' x' z where
        "conforms u' x'" "update_actual rest value False a'' e u' x' = Done z" "deref u y = Some (u', z)"
        by blast
      then show ?thesis using Cons.IH[of u' x' a'' e z] TMap y by simp
    qed
  qed (use Cons.prems in auto)
qed

text \<open>After a value has been unset, its path leads to nothing or to a zero value.\<close>

definition unset_result :: "(ctype \<times> cval) option \<Rightarrow> bool" where
  "unset_result r \<longleftrightarrow> (case r of None \<Rightarrow> True | Some (u, x) \<Rightarrow> x = zero_value u)"

lemma deref_zero: "deref t (zero_value t) = (case t of TPtr u \<Rightarrow> None | _ \<Rightarrow> Some (t, zero_value t))"
  by (cases t) (auto simp: deref_def)

lemma read_path_nil_map: "nil_map_entry t x \<Longrightarrow> rest \<noteq> [] \<Longrightarrow> deref t x = Some (t, x) \<and> read_path rest t x = None"
  by (cases t; cases rest) (auto simp: nil_map_entry_def deref_def)

lemma edit_entry_unset_Done:
  assumes "edit_entry k True e t m step = Done v'" and "conforms (TMap t) (VMap m)"
  shows "\<exists>m'. v' = VMap m' \<and>
    (case map_of (map_entries m') step of
       None \<Rightarrow> True
     | Some y \<Rightarrow> nil_map_entry t y \<or> (\<exists>a x. conforms t x \<and> k a t x = Done y))"
proof (cases "map_of (map_entries m) step")
  case (Some x)
  note x = conforms_entry[OF assms(2) Some]
  show ?thesis
  proof (cases "nil_map_entry t x")
    case False
    then show ?thesis
      using assms(1) Some x
      by (auto simp: edit_entry_def Let_def guarded_Done map_of_update simp del: conforms.simps split: edit.splits; blast)
  qed (use assms(1) Some in \<open>auto simp: edit_entry_def Let_def\<close>)
qed (use assms(1) in \<open>auto simp: edit_entry_def Let_def\<close>)

lemma unset_reads:
  "conforms t v \<Longrightarrow> p \<noteq> [] \<Longrightarrow> update_actual p value True a e t v = Done v' \<Longrightarrow> unset_result (read_path p t v')"
proof (induction p arbitrary: a e t v v')
  case (Cons step rest)
  show ?case
  proof (cases t)
    case (TStruct n fs)
    then obtain vs where vs: "v = VStruct vs" using Cons.prems by (auto split: cval.splits)
    obtain i where i: "field_index step fs = Some i" using Cons.prems TStruct vs by (auto split: option.splits)
    have len: "i < length vs"
      using field_index_bound[OF i] Cons.prems(1) TStruct vs by (simp add: list_all2_lengthD)
    show ?thesis
    proof (cases "rest = []")
      case True
      then show ?thesis
        using Cons.prems(3) TStruct vs i len
        by (auto simp: guarded_Done deref_zero unset_result_def Let_def split: ctype.splits prod.splits)
    next
      case False
      then obtain e' a' u x y z where s: "conforms u x" "update_actual rest value True a' e' u x = Done z"
        "v' = VStruct (vs[i := y])" "deref (f_type (fs ! i)) y = Some (u, z)"
        using struct_step_Done[of n fs vs step i rest _ True a e v'] Cons.prems TStruct vs i by blast
      show ?thesis using Cons.IH[OF s(1) False s(2)] TStruct i s(3,4) len by simp
    qed
  next
    case (TMap u)
    then obtain m where m: "v = VMap m" using Cons.prems by (auto split: cval.splits)
    show ?thesis
    proof (cases "rest = []")
      case True
      then show ?thesis
        using Cons.prems(3) TMap m by (cases m) (auto simp: guarded_Done unset_result_def delete_conv')
    next
      case False
      let ?k = "through_pointer (\<lambda>a t v. update_actual rest value True a e t v)"
      have r: "edit_entry ?k True e u m step = Done v'" and c: "conforms (TMap u) (VMap m)"
        using Cons.prems(1,3) TMap m False by auto
      obtain m' where m': "v' = VMap m'" and
        y: "\<And>y. map_of (map_entries m') step = Some y \<Longrightarrow>
              nil_map_entry u y \<or> (\<exists>a x. conforms u x \<and> ?k a u x = Done y)"
        using edit_entry_unset_Done[OF r c] by (fastforce split: option.splits)
      have "unset_result (Option.bind (deref u y) (\<lambda>(u, x). read_path rest u x))"
        if my: "map_of (map_entries m') step = Some y" for y
      proof (cases "nil_map_entry u y")
        case True
        then show ?thesis using read_path_nil_map[OF True False] by (simp add: unset_result_def)
      next
        case nn: False
        then obtain a' x where x: "conforms u x" "?k a' u x = Done y" using y[OF my] by blast
        from through_pointer_Done[OF x(2) x(1)] obtain a'' u' x' z where
          z: "conforms u' x'" "update_actual rest value True a'' e u' x' = Done z" "deref u y = Some (u', z)"
          by blast
        show ?thesis using Cons.IH[OF z(1) False z(2)] z(3) by simp
      qed
      then show ?thesis using TMap m' by (auto simp: unset_result_def split: option.splits)
    qed
  qed (use Cons.prems in auto)
qed simp

text \<open>What the path of an edit does not lead through stays, also when the edit fails.\<close>

lemma field_index_inj: "field_index s fs = Some i \<Longrightarrow> field_index s' fs = Some i \<Longrightarrow> s = s'"
  using field_index_bound by metis

lemma deref_conforms: "conforms t x \<Longrightarrow> deref t x = Some (u, z) \<Longrightarrow> conforms u z"
  by (cases t) (auto simp: deref_def split: cval.splits option.splits)

lemma through_pointer_deref:
  assumes "edited (through_pointer k a t x) = Some y" and "deref t x = Some (u, z)"
  shows "\<exists>a' z'. edited (k a' u z) = Some z' \<and> deref t y = Some (u, z')"
proof (cases "\<exists>u. t = TPtr u")
  case True
  then show ?thesis using assms by (auto simp: through_pointer_def deref_def split: cval.splits option.splits)
next
  case False
  then show ?thesis using assms by (cases t) (auto simp: through_pointer_def deref_def)
qed

lemma nil_allocated_read:
  "deref t x = Some (u, z) \<Longrightarrow> read_path rest u z \<noteq> None \<Longrightarrow> rest \<noteq> [] \<Longrightarrow> nil_allocated t x = (False, x)"
  by (cases t; cases rest) (auto simp: nil_allocated_def deref_def)

lemma edit_entry_frame:
  assumes "edited (edit_entry k unset e t m step) = Some v'"
  shows "\<exists>m'. v' = VMap m' \<and> (\<forall>s. s \<noteq> step \<longrightarrow> map_of (map_entries m') s = map_of (map_entries m) s)
     \<and> (\<forall>x. map_of (map_entries m) step = Some x \<longrightarrow> \<not> nil_map_entry t x \<longrightarrow>
          (\<exists>y. map_of (map_entries m') step = Some y \<and> edited (k False t x) = Some y))"
proof (cases "map_of (map_entries m) step")
  case None
  then show ?thesis
    using assms by (auto simp: edit_entry_def Let_def edited_guarded map_of_update split: if_splits edit.splits)
next
  case (Some x)
  then show ?thesis
    using assms
    by (auto simp: edit_entry_def Let_def edited_guarded map_of_update split: if_splits edit.splits)
qed

lemma edit_frame:
  "conforms t v \<Longrightarrow> edited (update_actual p value unset a e t v) = Some v' \<Longrightarrow> read_path q t v = Some r \<Longrightarrow>
   \<not> prefix p q \<Longrightarrow> \<not> prefix q p \<Longrightarrow> read_path q t v' = Some r"
proof (induction p arbitrary: a e t v v' q r)
  case (Cons step rest)
  then obtain s q' where q: "q = s # q'" by (cases q) auto
  show ?case
  proof (cases t)
    case (TStruct n fs)
    then obtain vs where vs: "v = VStruct vs" using Cons.prems by (auto split: cval.splits)
    obtain j u z where j: "field_index s fs = Some j" "deref (f_type (fs ! j)) (vs ! j) = Some (u, z)"
      "read_path q' u z = Some r"
      using Cons.prems(3) q TStruct vs by (auto split: option.splits simp: bind_eq_Some_conv)
    show ?thesis
    proof (cases "field_index step fs")
      case None
      then show ?thesis using Cons.prems(2,3) TStruct vs by simp
    next
      case (Some i)
      let ?ft = "f_type (fs ! i)" and ?e = "e \<and> f_exported (fs ! i)"
      let ?k = "\<lambda>a t v. update_actual rest value unset a ?e t v"
      show ?thesis
      proof (cases "s = step")
        case False
        then have "i \<noteq> j" using field_index_inj j(1) Some by metis
        then have "\<exists>y. v' = VStruct (vs[i := y])"
          using Cons.prems(2) TStruct vs Some by (auto simp: Let_def edited_guarded split: prod.splits if_splits)
        then show ?thesis using \<open>i \<noteq> j\<close> j q TStruct by auto
      next
        case True
        then have ij: "j = i" using j(1) Some by simp
        have ne: "rest \<noteq> []" "q' \<noteq> []" using Cons.prems(4,5) q True by auto
        have "nil_allocated ?ft (vs ! i) = (False, vs ! i)"
          using nil_allocated_read[of ?ft "vs ! i" u z q'] j(2,3) ij ne(2) by simp
        then obtain y where y: "v' = VStruct (vs[i := y])" "edited (through_pointer ?k a ?ft (vs ! i)) = Some y"
          using Cons.prems(2) TStruct vs Some ne(1) by (auto simp: Let_def)
        obtain a' z' where z': "edited (?k a' u z) = Some z'" "deref ?ft y = Some (u, z')"
          using through_pointer_deref[OF y(2)] j(2) ij by blast
        have len: "i < length vs" and c: "conforms ?ft (vs ! i)"
          using field_index_bound[OF Some] Cons.prems(1) TStruct vs by (simp_all add: list_all2_conv_all_nth)
        have "conforms u z" using deref_conforms[OF c] j(2) ij by simp
        from Cons.IH[OF this z'(1) j(3)] have "read_path q' u z' = Some r" using Cons.prems(4,5) q True by simp
        then show ?thesis using q TStruct y(1) z'(2) len Some True by simp
      qed
    qed
  next
    case (TMap u)
    then obtain m where m: "v = VMap m" using Cons.prems by (auto split: cval.splits)
    let ?k = "through_pointer (\<lambda>a t v. update_actual rest value unset a e t v)"
    obtain x u' z where x: "map_of (map_entries m) s = Some x" "deref u x = Some (u', z)" "read_path q' u' z = Some r"
      using Cons.prems(3) q TMap m by (auto split: option.splits simp: bind_eq_Some_conv)
    show ?thesis
    proof (cases "s = step")
      case False
      have "\<exists>m'. v' = VMap m' \<and> map_of (map_entries m') s = map_of (map_entries m) s"
        using Cons.prems(2) TMap m False edit_entry_frame[of ?k unset e u m step v']
        by (cases m) (auto simp: edited_guarded map_of_update delete_conv' split: if_splits)
      then show ?thesis using x q TMap by auto
    next
      case True
      have ne: "rest \<noteq> []" "q' \<noteq> []" using Cons.prems(4,5) q True by auto
      then have r: "edited (edit_entry ?k unset e u m step) = Some v'" using Cons.prems(2) TMap m by auto
      have "\<not> nil_map_entry u x" using x(2,3) ne(2) read_path_nil_map by fastforce
      then obtain m' y where y: "v' = VMap m'" "map_of (map_entries m') step = Some y" "edited (?k False u x) = Some y"
        using edit_entry_frame[OF r] x(1) True by blast
      obtain a' z' where z': "edited (update_actual rest value unset a' e u' z) = Some z'" "deref u y = Some (u', z')"
        using through_pointer_deref[OF y(3) x(2)] by blast
      have "conforms u x" using conforms_entry[of u m s x] Cons.prems(1) TMap m x(1) by simp
      then have "conforms u' z" using deref_conforms x(2) by blast
      from Cons.IH[OF this z'(1) x(3)] have "read_path q' u' z' = Some r" using Cons.prems(4,5) q True by simp
      then show ?thesis using q TMap y(1,2) z'(2) True by simp
    qed
  qed (use Cons.prems q in auto)
qed simp

section \<open>The configuration\<close>

text \<open>
  The types of \<^verbatim>\<open>config/types.go\<close>. Only the fields a path can name, and the unexported ones that come
  first among those without a name, matter; the others are there with their kind. Each map a path reaches
  has strings as keys.
\<close>

definition plain_field :: "string \<Rightarrow> 't \<Rightarrow> 't struct_field" where
  "plain_field yaml t = StructField yaml [] True t"

definition env_field :: "string \<Rightarrow> string \<Rightarrow> 't \<Rightarrow> 't struct_field" where
  "env_field yaml env t = StructField yaml env True t"

definition hidden_field :: "string \<Rightarrow> 't \<Rightarrow> 't struct_field" where
  "hidden_field yaml t = StructField yaml [] False t"

lemmas field_defs = plain_field_def env_field_def hidden_field_def

definition CredentialsConfig_type :: ctype where
  "CredentialsConfig_type = TStruct ''config.CredentialsConfig'' [plain_field ''keychain,omitempty'' TString]"

definition DiagnosticsConfig_type :: ctype where
  "DiagnosticsConfig_type = TStruct ''config.DiagnosticsConfig''
     [plain_field ''agent-invocation-log,omitempty'' TBool, plain_field ''log-dir,omitempty'' TString,
      plain_field ''telemetry,omitempty'' TString]"

definition ResourcesConfig_type :: ctype where
  "ResourcesConfig_type = TStruct ''config.ResourcesConfig'' [plain_field ''assume-server-dry-run,omitempty'' TStrings]"

definition tlsFileSnapshot_type :: ctype where
  "tlsFileSnapshot_type = TStruct ''config.tlsFileSnapshot''
     [hidden_field [] TString, hidden_field [] TString, hidden_field [] TBytes, hidden_field [] (TOther ''interface'')]"

definition TLS_type :: ctype where
  "TLS_type = TStruct ''config.TLS''
     [plain_field ''insecure-skip-verify,omitempty'' TBool, plain_field ''server-name,omitempty'' TString,
      env_field ''cert-file,omitempty'' ''GRAFANA_TLS_CERT_FILE'' TString,
      env_field ''key-file,omitempty'' ''GRAFANA_TLS_KEY_FILE'' TString,
      env_field ''ca-file,omitempty'' ''GRAFANA_TLS_CA_FILE'' TString,
      plain_field ''cert-data,omitempty'' TBytes, plain_field ''key-data,omitempty'' TBytes,
      plain_field ''ca-data,omitempty'' TBytes, plain_field ''next-protos,omitempty'' TStrings,
      hidden_field ''-'' TBool, hidden_field ''-'' tlsFileSnapshot_type, hidden_field ''-'' tlsFileSnapshot_type,
      hidden_field ''-'' tlsFileSnapshot_type]"

definition GrafanaConfig_type :: ctype where
  "GrafanaConfig_type = TStruct ''config.GrafanaConfig''
     [env_field ''server,omitempty'' ''GRAFANA_SERVER'' TString, env_field ''user,omitempty'' ''GRAFANA_USER'' TString,
      env_field ''password,omitempty'' ''GRAFANA_PASSWORD'' TString,
      env_field ''token,omitempty'' ''GRAFANA_TOKEN'' TString,
      env_field ''proxy-endpoint,omitempty'' ''GRAFANA_PROXY_ENDPOINT'' TString,
      plain_field ''oauth-token,omitempty'' TString, plain_field ''oauth-refresh-token,omitempty'' TString,
      plain_field ''oauth-token-expires-at,omitempty'' TString,
      plain_field ''oauth-refresh-expires-at,omitempty'' TString, plain_field ''auth-method,omitempty'' TString,
      env_field ''org-id,omitempty'' ''GRAFANA_ORG_ID'' TInt64,
      env_field ''stack-id,omitempty'' ''GRAFANA_STACK_ID'' TInt64,
      plain_field ''tls,omitempty'' (TPtr TLS_type), plain_field ''pathfinder-installed,omitempty'' TBool]"

definition StackConfig_type :: ctype where
  "StackConfig_type = TStruct ''config.StackConfig''
     [plain_field ''-'' TString, hidden_field ''-'' TString, hidden_field ''-'' TString,
      hidden_field [] (TMap (TOther ''struct'')), plain_field ''slug,omitempty'' TString,
      plain_field ''grafana,omitempty'' (TPtr GrafanaConfig_type),
      plain_field ''providers,omitempty'' (TMap (TMap TString)),
      plain_field ''resources,omitempty'' (TPtr ResourcesConfig_type)]"

definition CloudEntry_type :: ctype where
  "CloudEntry_type = TStruct ''config.CloudEntry''
     [plain_field ''-'' TString, hidden_field ''-'' TString, hidden_field ''-'' TString,
      hidden_field [] (TMap (TOther ''struct'')), env_field ''token,omitempty'' ''GRAFANA_CLOUD_TOKEN'' TString,
      plain_field ''oauth-token,omitempty'' TString, plain_field ''oauth-token-expires-at,omitempty'' TString,
      plain_field ''oauth-scopes,omitempty'' TStrings,
      env_field ''oauth-url,omitempty'' ''GRAFANA_CLOUD_OAUTH_URL'' TString,
      env_field ''api-url,omitempty'' ''GRAFANA_CLOUD_API_URL'' TString]"

definition Context_type :: ctype where
  "Context_type = TStruct ''config.Context''
     [plain_field ''-'' TString, plain_field ''stack,omitempty'' TString, plain_field ''cloud,omitempty'' TString,
      plain_field ''datasources,omitempty'' (TMap TString),
      plain_field ''-'' (TPtr StackConfig_type), plain_field ''-'' (TPtr CloudEntry_type),
      plain_field ''-'' (TPtr GrafanaConfig_type), plain_field ''-'' (TMap (TMap TString)),
      hidden_field [] TStrings, hidden_field [] TString, hidden_field [] (TMap TBool),
      hidden_field [] (TOther ''struct'')]"

definition Config_type :: ctype where
  "Config_type = TStruct ''config.Config''
     [plain_field ''-'' TString, plain_field ''-'' (TOther ''slice''), plain_field ''version,omitempty'' TInt64,
      plain_field ''stacks,omitempty'' (TMap (TPtr StackConfig_type)),
      plain_field ''cloud,omitempty'' (TMap (TPtr CloudEntry_type)),
      plain_field ''resources,omitempty'' (TPtr ResourcesConfig_type),
      plain_field ''contexts'' (TMap (TPtr Context_type)), plain_field ''current-context'' TString,
      plain_field ''diagnostics,omitempty'' (TPtr DiagnosticsConfig_type),
      plain_field ''credentials,omitempty'' (TPtr CredentialsConfig_type),
      hidden_field ''-'' (TOther ''map''), hidden_field ''-'' (TOther ''map''), hidden_field ''-'' (TOther ''interface''),
      hidden_field ''-'' (TOther ''struct''), hidden_field ''-'' TString, hidden_field ''-'' TString,
      hidden_field ''-'' (TOther ''array''), hidden_field ''-'' TBool, hidden_field ''-'' TBool,
      hidden_field ''-'' (TOther ''map''), hidden_field ''-'' (TOther ''map''), hidden_field ''-'' (TOther ''map''),
      hidden_field ''-'' TBool]"

lemmas config_types = CredentialsConfig_type_def DiagnosticsConfig_type_def ResourcesConfig_type_def
  tlsFileSnapshot_type_def TLS_type_def GrafanaConfig_type_def StackConfig_type_def CloudEntry_type_def
  Context_type_def Config_type_def field_defs

lemmas walk_defs = tag_name_def nil_allocated_def through_pointer_def set_leaf_def guarded_def edit_entry_def
  Let_def new_entry_def by_reference_def nil_map_entry_def

lemma Config_type_walkable: "walkable Config_type"
  unfolding config_types by (simp add: tag_name_def by_reference_def)

lemma update_typed:
  assumes "conforms Config_type cfg" and "set p \<inter> {[], ''-''} = {}"
  shows "\<exists>cfg'. edited (update_actual p new unset True True Config_type cfg) = Some cfg' \<and> conforms Config_type cfg'"
proof -
  have "\<not> nil_map_entry Config_type cfg" by (simp add: nil_map_entry_def Config_type_def)
  then have "update_actual p new unset True True Config_type cfg \<noteq> Panic"
    using quiet_walkD[OF update_quiet[OF assms(2)] Config_type_walkable assms(1)] by blast
  then obtain cfg' where "edited (update_actual p new unset True True Config_type cfg) = Some cfg'"
    by (cases "update_actual p new unset True True Config_type cfg") auto
  then show ?thesis using keeps_typesD[OF update_conforms assms(1)] by blast
qed

text \<open>C11. Setting or unsetting a value of a well-typed configuration never panics and leaves a
  well-typed one, also when it fails, provided no step of the path is empty or a hyphen; \<open>SetValue_panics\<close> shows
  that the proviso is needed.\<close>

theorem SetValue_typed:
  assumes "conforms Config_type cfg" and "set (go_split (CHR ''.'') path) \<inter> {[], ''-''} = {}"
  shows "(\<exists>cfg'. edited (SetValue Config_type cfg path new) = Some cfg' \<and> conforms Config_type cfg') \<and>
    (\<exists>cfg'. edited (UnsetValue Config_type cfg path) = Some cfg' \<and> conforms Config_type cfg')"
  unfolding SetValue_actual UnsetValue_actual using update_typed[OF assms] by blast

theorem SetValue_typed_witness:
  "\<exists>cfg'. edited (SetValue Config_type (zero_value Config_type) ''stacks.prod.grafana.org-id'' ''7'') = Some cfg' \<and>
     conforms Config_type cfg'"
  using SetValue_typed[OF zero_value_conforms, of "''stacks.prod.grafana.org-id''" "''7''"] by simp

text \<open>C12. A value that has been set is read back at its path, parsed for the type found there; after
  an unset nothing or a zero value is there; and whatever a path that parts from the edited one leads to is left as it was, also
  when the edit fails.\<close>

theorem SetValue_reads:
  assumes "conforms Config_type cfg"
  shows "(\<forall>cfg'. SetValue Config_type cfg path new = Done cfg' \<longrightarrow>
      (\<exists>t x. read_path (go_split (CHR ''.'') path) Config_type cfg' = Some (t, x) \<and> parse_leaf t new = Some x)) \<and>
    (\<forall>cfg'. UnsetValue Config_type cfg path = Done cfg' \<longrightarrow>
      unset_result (read_path (go_split (CHR ''.'') path) Config_type cfg')) \<and>
    (\<forall>cfg' q r. (edited (SetValue Config_type cfg path new) = Some cfg' \<or>
                edited (UnsetValue Config_type cfg path) = Some cfg') \<longrightarrow>
      read_path q Config_type cfg = Some r \<longrightarrow> \<not> prefix (go_split (CHR ''.'') path) q \<longrightarrow>
      \<not> prefix q (go_split (CHR ''.'') path) \<longrightarrow> read_path q Config_type cfg' = Some r)"
  unfolding SetValue_actual UnsetValue_actual
  using set_reads[OF assms] unset_reads[OF assms go_split_neq_Nil] edit_frame[OF assms] by blast

definition example_config :: cval where
  "example_config = zero_value Config_type"

theorem SetValue_reads_witness:
  "conforms Config_type example_config \<and>
   (\<exists>cfg' t x. SetValue Config_type example_config ''current-context'' ''prod'' = Done cfg' \<and>
      read_path (go_split (CHR ''.'') ''current-context'') Config_type cfg' = Some (t, x) \<and>
      parse_leaf t ''prod'' = Some x)"
proof -
  have c: "conforms Config_type example_config" by (simp add: example_config_def)
  have "\<exists>cfg'. SetValue Config_type example_config ''current-context'' ''prod'' = Done cfg'"
    unfolding SetValue_actual example_config_def config_types by (simp add: walk_defs)
  then show ?thesis using c SetValue_reads[OF c, of "''current-context''" "''prod''"] by blast
qed

text \<open>
  A path that ends in a dot names the first field without a tag, which is unexported, so that \<^verbatim>\<open>reflect\<close> panics;
  \<^verbatim>\<open>gcx config set contexts.prod. x\<close> passes the check of paths and gets there.
\<close>

lemma SetValue_panics:
  "SetValue Config_type (zero_value Config_type) ''contexts.prod.'' ''x'' = Panic"
  "SetValue Config_type (zero_value Config_type) ''stacks.prod.'' ''x'' = Panic"
  "SetValue Config_type (zero_value Config_type) ''stacks.prod.grafana.tls.-'' ''true'' = Panic"
  unfolding SetValue_actual config_types by (simp_all add: walk_defs toBool_def ParseBool_def)

text \<open>
  An entry that is present but nil (\<^verbatim>\<open>prod:\<close> without a body) can not be edited, while nil pointers in
  fields and nil maps in entries are allocated.
\<close>

lemma SetValue_nil_entry:
  "case SetValue Config_type
          (VStruct (map (\<lambda>f. if f_yaml f = ''contexts'' then VMap (Some [(''prod'', VPtr None)]) else zero_value (f_type f))
             (case Config_type of TStruct n fs \<Rightarrow> fs)))
          ''contexts.prod.stack'' ''x'' of
     Failed er cfg \<Rightarrow> er = UnhandledKind ''invalid'' | _ \<Rightarrow> False"
  unfolding SetValue_actual config_types by (simp add: walk_defs)

text \<open>
  Unsetting a path below a nil pointer allocates what is on the way, here an empty \<^verbatim>\<open>grafana\<close> block with an
  empty \<^verbatim>\<open>tls\<close> block, after which the stack no longer counts as one without a Grafana configuration.
\<close>

lemma UnsetValue_allocates:
  "case UnsetValue GrafanaConfig_type (zero_value GrafanaConfig_type) ''tls.cert-file'' of
     Done v \<Rightarrow> v \<noteq> zero_value GrafanaConfig_type | _ \<Rightarrow> False"
  unfolding UnsetValue_actual config_types by (simp add: walk_defs)

section \<open>Overrides from the environment\<close>

definition isCredentialEnvironmentVariable :: "string \<Rightarrow> bool" where
  "isCredentialEnvironmentVariable k \<longleftrightarrow>
     k \<in> set [''GRAFANA_TOKEN'', ''GRAFANA_PASSWORD'', ''GRAFANA_CLOUD_TOKEN'', ''GRAFANA_PROVIDER_SYNTH_SM_TOKEN'']"

definition IsBlankCredentialEnvironmentOverride :: "string \<Rightarrow> string \<Rightarrow> bool" where
  "IsBlankCredentialEnvironmentOverride k v \<longleftrightarrow> isCredentialEnvironmentVariable k \<and> go_trim_space v = []"

definition setField :: "bool \<Rightarrow> ctype \<Rightarrow> cval \<Rightarrow> string \<Rightarrow> cval edit" where
  "setField e t v val =
     (case t of
        TString \<Rightarrow> guarded e (Done (VString val))
      | TBool \<Rightarrow>
          if val = [] then Done v
          else (case ParseBool val of
                  None \<Rightarrow> Failed (InvalidBool val) v
                | Some b \<Rightarrow> guarded e (Done (VBool b)))
      | TInt64 \<Rightarrow>
          if val = [] then Done v
          else (case parse_int val of
                  None \<Rightarrow> Failed (InvalidInt64 val) v
                | Some i \<Rightarrow> guarded e (Done (VInt i)))
      | _ \<Rightarrow> Failed (UnhandledKind (kind_name t)) v)"

text \<open>One field: a pointer to a struct is followed, another field with a tag takes the value of its variable.\<close>

definition own_env_field :: "(string \<Rightarrow> string option) \<Rightarrow> bool \<Rightarrow> ctype struct_field \<Rightarrow> cval \<Rightarrow> cval edit" where
  "own_env_field env e f v =
     (if f_env f = [] then Done v
      else (case env (tag_name (f_env f)) of
              None \<Rightarrow> Done v
            | Some val \<Rightarrow>
                if IsBlankCredentialEnvironmentOverride (tag_name (f_env f)) val then Done v
                else setField (e \<and> f_exported f) (f_type f) v val))"

definition nested_struct :: "ctype struct_field \<Rightarrow> cval \<Rightarrow> (ctype struct_field list \<times> cval list) option" where
  "nested_struct f v =
     (case f_type f of
        TPtr t \<Rightarrow>
          (case t of
             TStruct n gs \<Rightarrow>
               (case v of VPtr (Some x) \<Rightarrow> (case x of VStruct ws \<Rightarrow> Some (gs, ws) | _ \<Rightarrow> None) | _ \<Rightarrow> None)
           | _ \<Rightarrow> None)
      | _ \<Rightarrow> None)"

definition struct_pointer :: "ctype struct_field \<Rightarrow> bool" where
  "struct_pointer f =
     (case f_type f of TPtr t \<Rightarrow> (case t of TStruct n gs \<Rightarrow> True | _ \<Rightarrow> False) | _ \<Rightarrow> False)"

lemma nested_struct_Some:
  "nested_struct f v = Some (gs, ws) \<longleftrightarrow> (\<exists>n. f_type f = TPtr (TStruct n gs)) \<and> v = VPtr (Some (VStruct ws))"
  by (auto simp: nested_struct_def split: ctype.splits cval.splits option.splits)

lemma nested_struct_size [termination_simp]:
  "nested_struct f v = Some (gs, ws) \<Longrightarrow> size_list size ws < Suc (size v + n)"
  by (auto simp: nested_struct_Some)

text \<open>\<open>walkStruct\<close> goes through the fields in order and stops at the first error, keeping what was set before.\<close>

definition then_rest :: "'v list \<Rightarrow> 'v edit \<Rightarrow> 'v list edit \<Rightarrow> 'v list edit" where
  "then_rest vs r rest =
     (case r of
        Done v' \<Rightarrow> map_then ((#) v') rest
      | Failed er v' \<Rightarrow> Failed er (v' # vs)
      | Panic \<Rightarrow> Panic)"

fun walkStruct :: "(string \<Rightarrow> string option) \<Rightarrow> bool \<Rightarrow> ctype struct_field list \<Rightarrow> cval list \<Rightarrow> cval list edit" where
  "walkStruct env e [] vs = Done vs"
| "walkStruct env e (f # fs) [] = Panic"
| "walkStruct env e (f # fs) (v # vs) =
     then_rest vs
       (case nested_struct f v of
          Some (gs, ws) \<Rightarrow>
            map_then (\<lambda>ws'. VPtr (Some (VStruct ws'))) (walkStruct env (e \<and> f_exported f) gs ws)
        | None \<Rightarrow> if struct_pointer f then Done v else own_env_field env e f v)
       (walkStruct env e fs vs)"

definition parseEnvTags :: "(string \<Rightarrow> string option) \<Rightarrow> ctype \<Rightarrow> cval \<Rightarrow> cval edit" where
  "parseEnvTags env t v =
     (case t of
        TStruct n fs \<Rightarrow> (case v of VStruct vs \<Rightarrow> map_then VStruct (walkStruct env True fs vs) | _ \<Rightarrow> Panic)
      | _ \<Rightarrow> Failed (UnhandledKind (kind_name t)) v)"

lemma ParseBool_toBool: "v \<noteq> [] \<Longrightarrow> toBool v = ParseBool v"
  by (simp add: toBool_def)

lemma setField_conforms: "conforms t v \<Longrightarrow> edited (setField e t v val) = Some v' \<Longrightarrow> conforms t v'"
  by (cases t) (auto simp: setField_def edited_guarded parse_int_range split: if_splits option.splits)

lemma own_env_field_conforms:
  "conforms (f_type f) v \<Longrightarrow> edited (own_env_field env e f v) = Some v' \<Longrightarrow> conforms (f_type f) v'"
  by (auto simp: own_env_field_def setField_conforms split: if_splits option.splits)

text \<open>The environment keeps the types, too.\<close>

lemma walkStruct_conforms:
  "list_all2 (\<lambda>f v. conforms (f_type f) v) fs vs \<Longrightarrow> edited (walkStruct env e fs vs) = Some vs' \<Longrightarrow>
   list_all2 (\<lambda>f v. conforms (f_type f) v) fs vs'"
proof (induction env e fs vs arbitrary: vs' rule: walkStruct.induct)
  case (3 env e f fs v vs)
  let ?r = "case nested_struct f v of
              Some (gs, ws) \<Rightarrow>
                map_then (\<lambda>ws'. VPtr (Some (VStruct ws'))) (walkStruct env (e \<and> f_exported f) gs ws)
            | None \<Rightarrow> if struct_pointer f then Done v else own_env_field env e f v"
  have r: "conforms (f_type f) v'" if r: "edited ?r = Some v'" for v'
  proof (cases "nested_struct f v")
    case None
    then show ?thesis using r 3(3) own_env_field_conforms by (auto split: if_splits)
  next
    case (Some p)
    then obtain n gs ws where p: "p = (gs, ws)" "f_type f = TPtr (TStruct n gs)" "v = VPtr (Some (VStruct ws))"
      by (metis nested_struct_Some surj_pair)
    then show ?thesis using r 3(1)[of "(gs, ws)" gs ws] 3(3) Some by auto
  qed
  have w: "edited (then_rest vs ?r (walkStruct env e fs vs)) = Some vs'" using 3(4) by simp
  show ?case
  proof (cases ?r)
    case (Done v')
    then show ?thesis using r[of v'] 3(2) 3(3) w unfolding Done by (auto simp: then_rest_def)
  next
    case (Failed er v')
    then show ?thesis using r[of v'] 3(3) w unfolding Failed by (auto simp: then_rest_def)
  qed (use w in \<open>simp add: then_rest_def\<close>)
qed auto

lemma parseEnvTags_conforms: "conforms t v \<Longrightarrow> edited (parseEnvTags env t v) = Some v' \<Longrightarrow> conforms t v'"
  by (cases t) (auto simp: parseEnvTags_def walkStruct_conforms split: cval.splits)

text \<open>A blank credential in the environment changes nothing.\<close>

lemma walkStruct_blank:
  assumes "\<forall>k val. env k = Some val \<longrightarrow> IsBlankCredentialEnvironmentOverride k val"
  shows "list_all2 (\<lambda>f v. conforms (f_type f) v) fs vs \<Longrightarrow> walkStruct env e fs vs = Done vs"
  using assms
proof (induction env e fs vs rule: walkStruct.induct)
  case (3 env e f fs v vs)
  have "own_env_field env e f v = Done v" using 3(4) by (auto simp: own_env_field_def split: option.splits)
  then show ?case using 3 by (auto simp: nested_struct_Some then_rest_def split: option.splits)
qed auto

end
