(* ===== verification/Gcx_Config.thy ===== *)
theory Gcx_Config
  imports Gcx_Slugs "HOL-Library.Sublist"
begin

text \<open>
  The configuration of \<^verbatim>\<open>config/types.go\<close> as records: the wiring of contexts to stacks and cloud entries,
  the merge of layers (\<^verbatim>\<open>config/merge.go\<close> with \<open>mergeKeychainRuntime\<close> of \<^verbatim>\<open>config/keychain.go\<close>), the
  classification of servers and the check of paths (\<^verbatim>\<open>config/path.go\<close>).

  A map is an association list, \<open>None\<close> when nil; its values are \<open>None\<close> where a pointer is nil. The resolved views of a
  context are copies of what its names lead to, which is what the shared pointers show as long as no
  one edits through them. \<^verbatim>\<open>url.Parse\<close> is a parameter: the host name of a server, \<open>None\<close> when it does not parse.
\<close>

section \<open>Records\<close>

datatype cred_field =
  FieldCloudToken | FieldGrafanaToken | FieldGrafanaPassword | FieldOAuthToken | FieldOAuthRefreshToken | FieldSMToken

record keychainPolicy =
  kp_mode :: string
  kp_source :: string

record CredentialRejectedError =
  cr_Source :: string
  cr_Owner :: string
  cr_Field :: cred_field
  cr_Reason :: string
  cr_cause :: "string option"

type_synonym rejections = "(cred_field \<times> CredentialRejectedError) list"

record tlsFileSnapshot =
  sn_path :: string
  sn_fingerprint :: string
  sn_contents :: string
  sn_err :: "string option"

record TLS =
  tls_Insecure :: bool
  tls_ServerName :: string
  tls_CertFile :: string
  tls_KeyFile :: string
  tls_CAFile :: string
  tls_CertData :: string
  tls_KeyData :: string
  tls_CAData :: string
  tls_NextProtos :: "string list"
  tls_captured :: bool
  tls_certSnapshot :: tlsFileSnapshot
  tls_keySnapshot :: tlsFileSnapshot
  tls_caSnapshot :: tlsFileSnapshot

record GrafanaConfig =
  gr_Server :: string
  gr_User :: string
  gr_Password :: string
  gr_APIToken :: string
  gr_ProxyEndpoint :: string
  gr_OAuthToken :: string
  gr_OAuthRefreshToken :: string
  gr_OAuthTokenExpiresAt :: string
  gr_OAuthRefreshExpiresAt :: string
  gr_AuthMethod :: string
  gr_OrgID :: int
  gr_StackID :: int
  gr_TLS :: "TLS option"
  gr_PathfinderInstalled :: bool

definition empty_snapshot :: tlsFileSnapshot where
  "empty_snapshot = \<lparr>sn_path = [], sn_fingerprint = [], sn_contents = [], sn_err = None\<rparr>"

definition empty_grafana :: GrafanaConfig where
  "empty_grafana = \<lparr>gr_Server = [], gr_User = [], gr_Password = [], gr_APIToken = [], gr_ProxyEndpoint = [],
     gr_OAuthToken = [], gr_OAuthRefreshToken = [], gr_OAuthTokenExpiresAt = [], gr_OAuthRefreshExpiresAt = [],
     gr_AuthMethod = [], gr_OrgID = 0, gr_StackID = 0, gr_TLS = None, gr_PathfinderInstalled = False\<rparr>"

definition Grafana_IsEmpty :: "GrafanaConfig \<Rightarrow> bool" where
  "Grafana_IsEmpty g \<longleftrightarrow> g = empty_grafana"

record ResourcesConfig =
  rc_AssumeServerDryRun :: "string list option"

record DiagnosticsConfig =
  dg_AgentInvocationLog :: bool
  dg_LogDir :: string
  dg_Telemetry :: string

type_synonym providers = "(string \<times> (string \<times> string) list option) list option"

record StackConfig =
  st_Name :: string
  st_sourceIdentity :: string
  st_sourceLayer :: string
  st_rejections :: rejections
  st_Slug :: string
  st_Grafana :: "GrafanaConfig option"
  st_Providers :: providers
  st_Resources :: "ResourcesConfig option"

record CloudEntry =
  ce_Name :: string
  ce_sourceIdentity :: string
  ce_sourceLayer :: string
  ce_rejections :: rejections
  ce_Token :: string
  ce_OAuthToken :: string
  ce_OAuthTokenExpiresAt :: string
  ce_OAuthScopes :: "string list"
  ce_OAuthUrl :: string
  ce_APIUrl :: string

record Context =
  cx_Name :: string
  cx_Stack :: string
  cx_Cloud :: string
  cx_Datasources :: "(string \<times> string) list option"
  cx_StackEntry :: "StackConfig option"
  cx_CloudEntry :: "CloudEntry option"
  cx_Grafana :: "GrafanaConfig option"
  cx_Providers :: providers
  cx_assumeServerDryRun :: "string list"
  cx_envStackSlug :: string
  cx_runtimeSecretOverrides :: "(cred_field \<times> bool) list"
  cx_keychainPolicy :: keychainPolicy

text \<open>The runtime state of credentials, by the source and owner of the entry and the field.\<close>

type_synonym state_key = "string \<times> string \<times> cred_field"

datatype keychainStateStatus = StateBacked | StateUnresolved | StatePreserved | StateRejected | StateMissing

record Binding =
  bd_Source :: string
  bd_Owner :: string
  bd_Field :: cred_field
  bd_Destination :: string

record keychainFieldState =
  kf_binding :: Binding
  kf_account :: string
  kf_sentinel :: string
  kf_plaintext :: string
  kf_cause :: "string option"
  kf_status :: keychainStateStatus

record 's Config =
  cf_Version :: int
  cf_Stacks :: "(string \<times> StackConfig option) list option"
  cf_Cloud :: "(string \<times> CloudEntry option) list option"
  cf_Resources :: "ResourcesConfig option"
  cf_Contexts :: "(string \<times> Context option) list option"
  cf_CurrentContext :: string
  cf_Diagnostics :: "DiagnosticsConfig option"
  cf_Credentials :: "string option"
  cf_keychainFields :: "((string \<times> cred_field) \<times> bool) list"
  cf_keychainPreserve :: "((string \<times> cred_field) \<times> string) list"
  cf_keychainStore :: "'s option"
  cf_keychainPolicy :: keychainPolicy
  cf_sourceIdentity :: string
  cf_sourceLayer :: string
  cf_sourceRevision :: string
  cf_hasSourceRevision :: bool
  cf_expectSourceAbsent :: bool
  cf_keychainStates :: "(state_key \<times> keychainFieldState) list"
  cf_secretMutations :: "(state_key \<times> bool) list"
  cf_credentialOrigins :: "(state_key \<times> (Binding \<times> string)) list"
  cf_migrationDeferred :: bool

section \<open>Maps of pointers\<close>

definition entries :: "(string \<times> 'a) list option \<Rightarrow> (string \<times> 'a) list" where
  "entries m = (case m of None \<Rightarrow> [] | Some kvs \<Rightarrow> kvs)"

definition entry_at :: "(string \<times> 'a option) list option \<Rightarrow> string \<Rightarrow> 'a option" where
  "entry_at m k = (case map_of (entries m) k of None \<Rightarrow> None | Some p \<Rightarrow> p)"

definition put_entry :: "string \<Rightarrow> 'a \<Rightarrow> (string \<times> 'a option) list option \<Rightarrow> (string \<times> 'a option) list option" where
  "put_entry k x m = Some (AList.update k (Some x) (entries m))"

definition each_entry :: "(string \<Rightarrow> 'a \<Rightarrow> 'a) \<Rightarrow> (string \<times> 'a option) list option \<Rightarrow> (string \<times> 'a option) list option" where
  "each_entry f m = map_option (map (\<lambda>(k, p). (k, map_option (f k) p))) m"

text \<open>\<^verbatim>\<open>maps.Copy\<close> into a map that is made when it is nil, when there is something to copy from.\<close>

definition copy_into :: "(string \<times> 'a) list option \<Rightarrow> (string \<times> 'a) list option \<Rightarrow> (string \<times> 'a) list option" where
  "copy_into dst src =
     (case src of None \<Rightarrow> dst | Some kvs \<Rightarrow> Some (fold (\<lambda>(k, v). AList.update k v) kvs (entries dst)))"

lemma entries_simps [simp]: "entries None = []" "entries (Some kvs) = kvs"
  by (simp_all add: entries_def)

lemma map_of_copy: "distinct (map fst kvs) \<Longrightarrow>
  map_of (fold (\<lambda>(k, v). AList.update k v) kvs m) k = (case map_of kvs k of None \<Rightarrow> map_of m k | Some v \<Rightarrow> Some v)"
proof (induction kvs arbitrary: m)
  case (Cons kv kvs)
  obtain a b where kv: "kv = (a, b)" by (cases kv)
  then have n: "map_of kvs a = None" using Cons.prems by (auto simp: map_of_eq_None_iff)
  show ?case using Cons.IH[of "AList.update a b m"] Cons.prems n
    by (auto simp: kv map_of_update split: option.splits)
qed simp

lemma map_of_copy_into: "distinct (map fst (entries src)) \<Longrightarrow>
  map_of (entries (copy_into dst src)) k =
    (case map_of (entries src) k of None \<Rightarrow> map_of (entries dst) k | Some v \<Rightarrow> Some v)"
  by (cases src) (simp_all add: copy_into_def map_of_copy)

lemma entry_at_each: "entry_at (each_entry f m) k = map_option (f k) (entry_at m k)"
proof -
  have "map_of (map (\<lambda>(k, p). (k, map_option (f k) p)) kvs) k = map_option (map_option (f k)) (map_of kvs k)" for kvs
    by (induction kvs) auto
  then show ?thesis by (cases m) (auto simp: entry_at_def each_entry_def split: option.splits)
qed

lemma entry_at_put: "entry_at (put_entry k x m) l = (if l = k then Some x else entry_at m l)"
  by (simp add: entry_at_def put_entry_def map_of_update)

lemma each_each: "each_entry f (each_entry g m) = each_entry (\<lambda>k x. f k (g k x)) m"
  by (cases m) (auto simp: each_entry_def option.map_comp comp_def)

lemma keys_each: "map fst (entries (each_entry f m)) = map fst (entries m)"
  by (cases m) (auto simp: each_entry_def)

section \<open>Contexts\<close>

definition HasContext :: "'s Config \<Rightarrow> string \<Rightarrow> bool" where
  "HasContext c name \<longleftrightarrow> entry_at (cf_Contexts c) name \<noteq> None"

definition ContextNames :: "'s Config \<Rightarrow> string list" where
  "ContextNames c =
     filter (\<lambda>name. entry_at (cf_Contexts c) name \<noteq> None) (sort (map fst (entries (cf_Contexts c))))"

definition GetCurrentContext :: "'s Config \<Rightarrow> Context option" where
  "GetCurrentContext c = entry_at (cf_Contexts c) (cf_CurrentContext c)"

definition unionDryRun :: "ResourcesConfig option \<Rightarrow> StackConfig option \<Rightarrow> string list" where
  "unionDryRun global stack =
     (let items = (\<lambda>r. case rc_AssumeServerDryRun r of None \<Rightarrow> [] | Some xs \<Rightarrow> xs);
          one = (case global of None \<Rightarrow> [] | Some r \<Rightarrow> items r);
          two = (case stack of
                   None \<Rightarrow> []
                 | Some s \<Rightarrow> (case st_Resources s of None \<Rightarrow> [] | Some r \<Rightarrow> items r))
      in dedup_seen [] (one @ two))"

definition wire_context :: "'s Config \<Rightarrow> string \<Rightarrow> Context \<Rightarrow> Context" where
  "wire_context c name ctx =
     (let stack = (if cx_Stack ctx \<noteq> [] then entry_at (cf_Stacks c) (cx_Stack ctx) else None)
      in ctx\<lparr>cx_Name := name, cx_keychainPolicy := cf_keychainPolicy c, cx_StackEntry := stack,
             cx_Grafana := (case stack of None \<Rightarrow> None | Some s \<Rightarrow> st_Grafana s),
             cx_Providers := (case stack of None \<Rightarrow> None | Some s \<Rightarrow> st_Providers s),
             cx_CloudEntry := (if cx_Cloud ctx \<noteq> [] then entry_at (cf_Cloud c) (cx_Cloud ctx) else None),
             cx_assumeServerDryRun := unionDryRun (cf_Resources c) stack\<rparr>)"

definition Resolve :: "'s Config \<Rightarrow> 's Config" where
  "Resolve c =
     (let c1 = c\<lparr>cf_Stacks := each_entry (\<lambda>name s. s\<lparr>st_Name := name\<rparr>) (cf_Stacks c),
                 cf_Cloud := each_entry (\<lambda>name e. e\<lparr>ce_Name := name\<rparr>) (cf_Cloud c)\<rparr>
      in c1\<lparr>cf_Contexts := each_entry (wire_context c1) (cf_Contexts c1)\<rparr>)"

definition SetContext :: "'s Config \<Rightarrow> string \<Rightarrow> bool \<Rightarrow> Context \<Rightarrow> 's Config" where
  "SetContext c name makeCurrent ctx =
     Resolve (c\<lparr>cf_Contexts := put_entry name ctx (cf_Contexts c),
               cf_CurrentContext := (if makeCurrent then name else cf_CurrentContext c)\<rparr>)"

definition SetStack :: "'s Config \<Rightarrow> string \<Rightarrow> StackConfig \<Rightarrow> 's Config" where
  "SetStack c name stack =
     Resolve (c\<lparr>cf_Stacks := put_entry name
                  (stack\<lparr>st_sourceIdentity := cf_sourceIdentity c, st_sourceLayer := cf_sourceLayer c\<rparr>) (cf_Stacks c)\<rparr>)"

definition SetCloudEntry :: "'s Config \<Rightarrow> string \<Rightarrow> CloudEntry \<Rightarrow> 's Config" where
  "SetCloudEntry c name entry =
     Resolve (c\<lparr>cf_Cloud := put_entry name
                  (entry\<lparr>ce_sourceIdentity := cf_sourceIdentity c, ce_sourceLayer := cf_sourceLayer c\<rparr>) (cf_Cloud c)\<rparr>)"

definition StackFromAutoLocal :: "Context option \<Rightarrow> bool" where
  "StackFromAutoLocal ctx \<longleftrightarrow>
     (case ctx of None \<Rightarrow> False | Some c \<Rightarrow>
        (case cx_StackEntry c of None \<Rightarrow> False | Some s \<Rightarrow> st_sourceLayer s = ''local''))"

text \<open>A configuration whose contexts show what their names lead to.\<close>

definition context_wired :: "'s Config \<Rightarrow> string \<Rightarrow> Context \<Rightarrow> bool" where
  "context_wired c name ctx \<longleftrightarrow>
     cx_Name ctx = name \<and>
     cx_StackEntry ctx = (if cx_Stack ctx = [] then None else entry_at (cf_Stacks c) (cx_Stack ctx)) \<and>
     cx_CloudEntry ctx = (if cx_Cloud ctx = [] then None else entry_at (cf_Cloud c) (cx_Cloud ctx)) \<and>
     cx_Grafana ctx = Option.bind (cx_StackEntry ctx) st_Grafana \<and>
     cx_Providers ctx = Option.bind (cx_StackEntry ctx) st_Providers \<and>
     cx_assumeServerDryRun ctx = unionDryRun (cf_Resources c) (cx_StackEntry ctx) \<and>
     cx_keychainPolicy ctx = cf_keychainPolicy c"

definition wired :: "'s Config \<Rightarrow> bool" where
  "wired c \<longleftrightarrow>
     (\<forall>name ctx. entry_at (cf_Contexts c) name = Some ctx \<longrightarrow> context_wired c name ctx) \<and>
     (\<forall>name s. entry_at (cf_Stacks c) name = Some s \<longrightarrow> st_Name s = name) \<and>
     (\<forall>name e. entry_at (cf_Cloud c) name = Some e \<longrightarrow> ce_Name e = name)"

lemma Resolve_fields:
  "cf_Stacks (Resolve c) = each_entry (\<lambda>name s. s\<lparr>st_Name := name\<rparr>) (cf_Stacks c)"
  "cf_Cloud (Resolve c) = each_entry (\<lambda>name e. e\<lparr>ce_Name := name\<rparr>) (cf_Cloud c)"
  "cf_Contexts (Resolve c) = each_entry (wire_context (Resolve c)) (cf_Contexts c)"
proof -
  show "cf_Stacks (Resolve c) = each_entry (\<lambda>name s. s\<lparr>st_Name := name\<rparr>) (cf_Stacks c)"
    and "cf_Cloud (Resolve c) = each_entry (\<lambda>name e. e\<lparr>ce_Name := name\<rparr>) (cf_Cloud c)"
    by (simp_all add: Resolve_def Let_def)
  have "wire_context (Resolve c) =
    wire_context (c\<lparr>cf_Stacks := each_entry (\<lambda>name s. s\<lparr>st_Name := name\<rparr>) (cf_Stacks c),
                    cf_Cloud := each_entry (\<lambda>name e. e\<lparr>ce_Name := name\<rparr>) (cf_Cloud c)\<rparr>)"
    by (intro ext) (simp add: wire_context_def Resolve_def Let_def)
  then show "cf_Contexts (Resolve c) = each_entry (wire_context (Resolve c)) (cf_Contexts c)"
    by (simp add: Resolve_def Let_def)
qed

lemma wire_context_again: "wire_context c name (wire_context d name x) = wire_context c name x"
  by (simp add: wire_context_def Let_def)

lemma Resolve_id:
  assumes "each_entry (\<lambda>name s. s\<lparr>st_Name := name\<rparr>) (cf_Stacks c) = cf_Stacks c"
    and "each_entry (\<lambda>name e. e\<lparr>ce_Name := name\<rparr>) (cf_Cloud c) = cf_Cloud c"
    and "each_entry (wire_context c) (cf_Contexts c) = cf_Contexts c"
  shows "Resolve c = c"
  unfolding Resolve_def Let_def assms(1,2) by (simp add: assms(3))

lemma Resolve_idempotent: "Resolve (Resolve c) = Resolve c"
proof (rule Resolve_id)
  show "each_entry (\<lambda>name s. s\<lparr>st_Name := name\<rparr>) (cf_Stacks (Resolve c)) = cf_Stacks (Resolve c)"
    by (simp add: Resolve_fields each_each)
  show "each_entry (\<lambda>name e. e\<lparr>ce_Name := name\<rparr>) (cf_Cloud (Resolve c)) = cf_Cloud (Resolve c)"
    by (simp add: Resolve_fields each_each)
  have "each_entry (wire_context (Resolve c)) (each_entry (wire_context (Resolve c)) (cf_Contexts c)) =
    each_entry (wire_context (Resolve c)) (cf_Contexts c)"
    by (simp add: each_each wire_context_again)
  then show "each_entry (wire_context (Resolve c)) (cf_Contexts (Resolve c)) = cf_Contexts (Resolve c)"
    using Resolve_fields(3)[of c] by metis
qed

lemma wire_context_wired: "context_wired d name (wire_context d name x)"
  by (simp add: context_wired_def wire_context_def Let_def split: option.split)

lemma Resolve_wired: "wired (Resolve c)"
proof -
  have "context_wired (Resolve c) name ctx"
    if ctx: "entry_at (cf_Contexts (Resolve c)) name = Some ctx" for name ctx
  proof -
    have "\<exists>x. ctx = wire_context (Resolve c) name x"
      using ctx by (subst (asm) Resolve_fields(3)) (auto simp: entry_at_each)
    then show ?thesis using wire_context_wired by blast
  qed
  then show ?thesis unfolding wired_def by (auto simp: Resolve_fields(1,2) entry_at_each)
qed

lemma setters_wired: "wired (SetContext c n b x)" "wired (SetStack c n s)" "wired (SetCloudEntry c n e)"
  by (simp_all add: SetContext_def SetStack_def SetCloudEntry_def Resolve_wired)

lemma ContextNames_HasContext: "name \<in> set (ContextNames c) \<longleftrightarrow> HasContext c name"
  by (force simp: ContextNames_def HasContext_def entry_at_def dest: map_of_SomeD split: option.splits)

section \<open>Merging layers\<close>

definition mergeDiagnosticsConfig :: "DiagnosticsConfig \<Rightarrow> DiagnosticsConfig \<Rightarrow> DiagnosticsConfig" where
  "mergeDiagnosticsConfig base over =
     base\<lparr>dg_AgentInvocationLog := (if dg_AgentInvocationLog over then True else dg_AgentInvocationLog base),
          dg_LogDir := (if dg_LogDir over \<noteq> [] then dg_LogDir over else dg_LogDir base),
          dg_Telemetry := (if dg_Telemetry over \<noteq> [] then dg_Telemetry over else dg_Telemetry base)\<rparr>"

definition mergeResourcesConfig :: "ResourcesConfig \<Rightarrow> ResourcesConfig \<Rightarrow> ResourcesConfig" where
  "mergeResourcesConfig base over =
     (case rc_AssumeServerDryRun over of None \<Rightarrow> base | Some xs \<Rightarrow> base\<lparr>rc_AssumeServerDryRun := Some xs\<rparr>)"

definition mergeContexts :: "Context option \<Rightarrow> Context option \<Rightarrow> Context option" where
  "mergeContexts base over =
     (case base of
        None \<Rightarrow> over
      | Some b \<Rightarrow>
          (case over of
             None \<Rightarrow> base
           | Some v \<Rightarrow>
               Some (b\<lparr>cx_Stack := (if cx_Stack v \<noteq> [] then cx_Stack v else cx_Stack b),
                       cx_Cloud := (if cx_Cloud v \<noteq> [] then cx_Cloud v else cx_Cloud b),
                       cx_Datasources := copy_into (cx_Datasources b) (cx_Datasources v)\<rparr>)))"

definition merge_context_maps ::
  "(string \<times> Context option) list option \<Rightarrow> (string \<times> Context option) list option \<Rightarrow> (string \<times> Context option) list option" where
  "merge_context_maps base over =
     (case over of
        None \<Rightarrow> base
      | Some kvs \<Rightarrow>
          Some (fold (\<lambda>(name, p) m.
                  AList.update name (case map_of m name of Some b \<Rightarrow> mergeContexts b p | None \<Rightarrow> p) m)
                kvs (entries base)))"

definition StackOwner :: "string \<Rightarrow> string" where
  "StackOwner name = ''stack:'' @ name"

definition CloudOwner :: "string \<Rightarrow> string" where
  "CloudOwner name = ''cloud:'' @ name"

text \<open>The owners of credentials, each with the source of its entry.\<close>

definition secretOwners :: "'s Config \<Rightarrow> (string \<times> string) list" where
  "secretOwners c =
     collect_some (\<lambda>(name, p). map_option (\<lambda>s. (st_sourceIdentity s, StackOwner name)) p) (entries (cf_Stacks c))
     @ collect_some (\<lambda>(name, p). map_option (\<lambda>e. (ce_sourceIdentity e, CloudOwner name)) p) (entries (cf_Cloud c))"

definition owner_key :: "string \<times> string \<Rightarrow> string" where
  "owner_key o' = fst o' @ [CHR 0x00] @ snd o'"

definition state_active :: "string list \<Rightarrow> state_key \<Rightarrow> bool" where
  "state_active active k \<longleftrightarrow> owner_key (fst k, fst (snd k)) \<in> set active"

definition keep_active :: "string list \<Rightarrow> (state_key \<times> 'v) list \<Rightarrow> (state_key \<times> 'v) list \<Rightarrow> (state_key \<times> 'v) list" where
  "keep_active active base over =
     fold (\<lambda>(k, v). AList.update k v) (filter (\<lambda>kv. state_active active (fst kv)) over)
       (fold (\<lambda>(k, v). AList.update k v) (filter (\<lambda>kv. state_active active (fst kv)) base) [])"

definition mergeKeychainRuntime :: "'s Config \<Rightarrow> 's Config \<Rightarrow> 's Config \<Rightarrow> 's Config" where
  "mergeKeychainRuntime result base over =
     (let r1 = (if cf_sourceIdentity base \<noteq> cf_sourceIdentity over
                then result\<lparr>cf_sourceIdentity := [], cf_sourceLayer := [], cf_sourceRevision := [],
                            cf_hasSourceRevision := False, cf_expectSourceAbsent := False\<rparr>
                else if cf_hasSourceRevision over
                then result\<lparr>cf_sourceLayer := cf_sourceLayer over, cf_sourceRevision := cf_sourceRevision over,
                            cf_hasSourceRevision := True, cf_expectSourceAbsent := cf_expectSourceAbsent over\<rparr>
                else result);
          active = map owner_key (secretOwners result);
          states = keep_active active (cf_keychainStates base) (cf_keychainStates over)
      in r1\<lparr>cf_keychainStore := (case cf_keychainStore result of None \<Rightarrow> cf_keychainStore over | Some s \<Rightarrow> Some s),
            cf_keychainStates := states,
            cf_secretMutations := keep_active active (cf_secretMutations base) (cf_secretMutations over),
            cf_credentialOrigins := keep_active active (cf_credentialOrigins base) (cf_credentialOrigins over),
            cf_keychainFields :=
              fold (\<lambda>((src, owner, field), st) m.
                      if kf_status st = StateBacked then AList.update (owner, field) True m else m) states [],
            cf_keychainPreserve :=
              fold (\<lambda>((src, owner, field), st) m.
                      if kf_status st = StatePreserved \<or> kf_status st = StateRejected
                      then AList.update (owner, field) (kf_sentinel st) m else m) states []\<rparr>)"

text \<open>The fields of the merged configuration, before contexts are wired.\<close>

definition merge_fields :: "'s Config \<Rightarrow> 's Config \<Rightarrow> 's Config" where
  "merge_fields base over =
     base\<lparr>cf_migrationDeferred := (cf_migrationDeferred base \<or> cf_migrationDeferred over),
          cf_Version := (if cf_Version over > cf_Version base then cf_Version over else cf_Version base),
          cf_CurrentContext := (if cf_CurrentContext over \<noteq> [] then cf_CurrentContext over else cf_CurrentContext base),
          cf_Stacks := copy_into (cf_Stacks base) (cf_Stacks over),
          cf_Cloud := copy_into (cf_Cloud base) (cf_Cloud over),
          cf_Resources :=
            (case cf_Resources over of
               None \<Rightarrow> cf_Resources base
             | Some r \<Rightarrow> Some (case cf_Resources base of None \<Rightarrow> r | Some b \<Rightarrow> mergeResourcesConfig b r)),
          cf_Credentials := (case cf_Credentials over of None \<Rightarrow> cf_Credentials base | Some p \<Rightarrow> Some p),
          cf_keychainPolicy := (if kp_source (cf_keychainPolicy base) = [] then cf_keychainPolicy over
                                else cf_keychainPolicy base),
          cf_Contexts := merge_context_maps (cf_Contexts base) (cf_Contexts over),
          cf_Diagnostics :=
            (case cf_Diagnostics over of
               None \<Rightarrow> cf_Diagnostics base
             | Some d \<Rightarrow> Some (case cf_Diagnostics base of None \<Rightarrow> d | Some b \<Rightarrow> mergeDiagnosticsConfig b d))\<rparr>"

definition MergeConfigs :: "'s Config \<Rightarrow> 's Config \<Rightarrow> 's Config" where
  "MergeConfigs base over = mergeKeychainRuntime (Resolve (merge_fields base over)) base over"

lemma mergeKeychainRuntime_fields [simp]:
  "cf_Stacks (mergeKeychainRuntime r base over) = cf_Stacks r"
  "cf_Cloud (mergeKeychainRuntime r base over) = cf_Cloud r"
  "cf_Contexts (mergeKeychainRuntime r base over) = cf_Contexts r"
  "cf_Resources (mergeKeychainRuntime r base over) = cf_Resources r"
  "cf_keychainPolicy (mergeKeychainRuntime r base over) = cf_keychainPolicy r"
  by (simp_all add: mergeKeychainRuntime_def Let_def)

lemma merge_fields_maps [simp]:
  "cf_Stacks (merge_fields base over) = copy_into (cf_Stacks base) (cf_Stacks over)"
  "cf_Cloud (merge_fields base over) = copy_into (cf_Cloud base) (cf_Cloud over)"
  "cf_Contexts (merge_fields base over) = merge_context_maps (cf_Contexts base) (cf_Contexts over)"
  by (simp_all add: merge_fields_def)

lemma wired_cong:
  "cf_Stacks d = cf_Stacks c \<Longrightarrow> cf_Cloud d = cf_Cloud c \<Longrightarrow> cf_Contexts d = cf_Contexts c \<Longrightarrow>
   cf_Resources d = cf_Resources c \<Longrightarrow> cf_keychainPolicy d = cf_keychainPolicy c \<Longrightarrow> wired d = wired c"
  by (simp add: wired_def context_wired_def)

lemma MergeConfigs_wired: "wired (MergeConfigs base over)"
  unfolding MergeConfigs_def using Resolve_wired wired_cong mergeKeychainRuntime_fields by metis

text \<open>The layer an entry comes from.\<close>

definition winning_entry :: "(string \<times> 'a option) list option \<Rightarrow> (string \<times> 'a option) list option \<Rightarrow> string \<Rightarrow> 'a option" where
  "winning_entry base over name =
     (if name \<in> fst ` set (entries over) then entry_at over name else entry_at base name)"

lemma entry_at_copy:
  assumes "distinct (map fst (entries over))"
  shows "entry_at (copy_into base over) name = winning_entry base over name"
proof (cases "map_of (entries over) name")
  case None
  then have "name \<notin> fst ` set (entries over)" by (simp add: map_of_eq_None_iff)
  then show ?thesis using None by (simp add: entry_at_def winning_entry_def map_of_copy_into[OF assms])
next
  case (Some p)
  then have "name \<in> fst ` set (entries over)" by (force dest: map_of_SomeD)
  then show ?thesis using Some by (simp add: entry_at_def winning_entry_def map_of_copy_into[OF assms])
qed

lemma in_fold_update:
  "(k, v) \<in> set (fold (\<lambda>(k, v). AList.update k v) kvs m) \<Longrightarrow> (k, v) \<in> set kvs \<or> (k, v) \<in> set m"
proof (induction kvs arbitrary: m)
  case (Cons kv kvs)
  obtain a b where kv: "kv = (a, b)" by (cases kv)
  have "set (AList.update a b m) \<subseteq> insert (a, b) (set m)"
    by (induction m) auto
  then show ?case using Cons by (auto simp: kv)
qed simp

lemma in_keep_active:
  assumes "(k, v) \<in> set (keep_active active base over)"
  shows "state_active active k \<and> ((k, v) \<in> set base \<or> (k, v) \<in> set over)"
  using in_fold_update[OF assms[unfolded keep_active_def]] by (auto dest: in_fold_update)

lemma owner_key_inj:
  assumes "owner_key (s, ow) = owner_key (s', ow')" and "CHR 0x00 \<notin> set s" and "CHR 0x00 \<notin> set s'"
  shows "s = s' \<and> ow = ow'"
proof -
  have "go_cut (CHR 0x00) (s @ CHR 0x00 # ow) = go_cut (CHR 0x00) (s' @ CHR 0x00 # ow')"
    using assms(1) by (simp add: owner_key_def)
  then show ?thesis using assms(2,3) by (simp add: go_cut_append)
qed

text \<open>The keychain owner of a state is an entry of the configuration that was read from the state's source.\<close>

definition owned :: "'s Config \<Rightarrow> state_key \<Rightarrow> bool" where
  "owned c k \<longleftrightarrow>
     (\<exists>name s. (name, Some s) \<in> set (entries (cf_Stacks c)) \<and> fst k = st_sourceIdentity s \<and> fst (snd k) = StackOwner name) \<or>
     (\<exists>name e. (name, Some e) \<in> set (entries (cf_Cloud c)) \<and> fst k = ce_sourceIdentity e \<and> fst (snd k) = CloudOwner name)"

definition sources_plain :: "'s Config \<Rightarrow> bool" where
  "sources_plain c \<longleftrightarrow>
     (\<forall>name s. (name, Some s) \<in> set (entries (cf_Stacks c)) \<longrightarrow> CHR 0x00 \<notin> set (st_sourceIdentity s)) \<and>
     (\<forall>name e. (name, Some e) \<in> set (entries (cf_Cloud c)) \<longrightarrow> CHR 0x00 \<notin> set (ce_sourceIdentity e))"

lemma secretOwners_owned:
  "(s, ow) \<in> set (secretOwners c) \<longleftrightarrow> (\<forall>f. owned c (s, ow, f))"
  by (auto simp: secretOwners_def owned_def in_collect_some; force)

lemma state_active_owned:
  assumes "state_active (map owner_key (secretOwners c)) k" and "sources_plain c" and "CHR 0x00 \<notin> set (fst k)"
  shows "owned c k"
proof -
  obtain src ow f where k: "k = (src, ow, f)" by (metis prod_cases3)
  obtain s' ow' where o: "(s', ow') \<in> set (secretOwners c)" "owner_key (src, ow) = owner_key (s', ow')"
    using assms(1) by (auto simp: state_active_def k)
  have "CHR 0x00 \<notin> set s'"
    using o(1) assms(2) by (auto simp: secretOwners_owned owned_def sources_plain_def)
  then have "src = s' \<and> ow = ow'" using owner_key_inj[OF o(2)] assms(3) k by simp
  then show ?thesis using o(1) by (simp add: k secretOwners_owned)
qed

text \<open>C9. Merging two layers: a stack or cloud entry of the result is, but for its name, that of one
  layer as a whole, the higher one's where it has the name; contexts are wired to those entries; and a credential state is
  kept only for an entry of the result that was read from the file the state belongs to.\<close>

theorem MergeConfigs_atomic:
  fixes base over :: "'s Config"
  assumes "distinct (map fst (entries (cf_Stacks over)))" and "distinct (map fst (entries (cf_Cloud over)))"
    and "sources_plain (MergeConfigs base over)"
  shows "(\<forall>name. entry_at (cf_Stacks (MergeConfigs base over)) name =
            map_option (\<lambda>s. s\<lparr>st_Name := name\<rparr>) (winning_entry (cf_Stacks base) (cf_Stacks over) name)) \<and>
    (\<forall>name. entry_at (cf_Cloud (MergeConfigs base over)) name =
            map_option (\<lambda>e. e\<lparr>ce_Name := name\<rparr>) (winning_entry (cf_Cloud base) (cf_Cloud over) name)) \<and>
    wired (MergeConfigs base over) \<and>
    (\<forall>k st. (k, st) \<in> set (cf_keychainStates (MergeConfigs base over)) \<longrightarrow> CHR 0x00 \<notin> set (fst k) \<longrightarrow>
       owned (MergeConfigs base over) k \<and>
       ((k, st) \<in> set (cf_keychainStates base) \<or> (k, st) \<in> set (cf_keychainStates over)))"
proof -
  let ?r = "Resolve (merge_fields base over)"
  have m: "cf_Stacks (MergeConfigs base over) = cf_Stacks ?r" "cf_Cloud (MergeConfigs base over) = cf_Cloud ?r"
    by (simp_all add: MergeConfigs_def)
  have o: "secretOwners ?r = secretOwners (MergeConfigs base over)"
    by (simp add: secretOwners_def m)
  have s: "cf_keychainStates (MergeConfigs base over) =
    keep_active (map owner_key (secretOwners (MergeConfigs base over))) (cf_keychainStates base) (cf_keychainStates over)"
    unfolding o[symmetric] by (simp add: MergeConfigs_def mergeKeychainRuntime_def Let_def)
  have st: "owned (MergeConfigs base over) k \<and> ((k, st) \<in> set (cf_keychainStates base) \<or> (k, st) \<in> set (cf_keychainStates over))"
    if "(k, st) \<in> set (cf_keychainStates (MergeConfigs base over))" and n: "CHR 0x00 \<notin> set (fst k)" for k st
  proof -
    note k = in_keep_active[OF that(1)[unfolded s]]
    show ?thesis using k state_active_owned[OF _ assms(3) n] by blast
  qed
  have e1: "entry_at (cf_Stacks (MergeConfigs base over)) name =
      map_option (\<lambda>s. s\<lparr>st_Name := name\<rparr>) (winning_entry (cf_Stacks base) (cf_Stacks over) name)" for name
    unfolding m by (simp add: Resolve_fields entry_at_each entry_at_copy[OF assms(1)])
  have e2: "entry_at (cf_Cloud (MergeConfigs base over)) name =
      map_option (\<lambda>e. e\<lparr>ce_Name := name\<rparr>) (winning_entry (cf_Cloud base) (cf_Cloud over) name)" for name
    unfolding m by (simp add: Resolve_fields entry_at_each entry_at_copy[OF assms(2)])
  show ?thesis using e1 e2 st MergeConfigs_wired by blast
qed

definition example_entry :: "string \<Rightarrow> string \<Rightarrow> CloudEntry" where
  "example_entry src token =
     \<lparr>ce_Name = [], ce_sourceIdentity = src, ce_sourceLayer = [], ce_rejections = [], ce_Token = token,
      ce_OAuthToken = [], ce_OAuthTokenExpiresAt = [], ce_OAuthScopes = [], ce_OAuthUrl = [], ce_APIUrl = []\<rparr>"

definition example_layer :: "string \<Rightarrow> string \<Rightarrow> string \<Rightarrow> unit Config" where
  "example_layer src name token =
     \<lparr>cf_Version = 1, cf_Stacks = None, cf_Cloud = Some [(name, Some (example_entry src token))], cf_Resources = None,
      cf_Contexts = None, cf_CurrentContext = [], cf_Diagnostics = None, cf_Credentials = None, cf_keychainFields = [],
      cf_keychainPreserve = [], cf_keychainStore = None, cf_keychainPolicy = \<lparr>kp_mode = [], kp_source = []\<rparr>,
      cf_sourceIdentity = src, cf_sourceLayer = [], cf_sourceRevision = [], cf_hasSourceRevision = False,
      cf_expectSourceAbsent = False, cf_keychainStates = [], cf_secretMutations = [], cf_credentialOrigins = [],
      cf_migrationDeferred = False\<rparr>"

theorem MergeConfigs_atomic_witness:
  "map_option ce_Token (entry_at (cf_Cloud (MergeConfigs (example_layer ''a'' ''x'' ''1'') (example_layer ''b'' ''y'' ''2''))) ''x'')
     = Some ''1'' \<and>
   wired (MergeConfigs (example_layer ''a'' ''x'' ''1'') (example_layer ''b'' ''y'' ''2''))"
proof -
  let ?m = "MergeConfigs (example_layer ''a'' ''x'' ''1'') (example_layer ''b'' ''y'' ''2'')"
  have "cf_Stacks ?m = None" and "cf_Cloud ?m = Some
    [(''x'', Some (example_entry ''a'' ''1''\<lparr>ce_Name := ''x''\<rparr>)), (''y'', Some (example_entry ''b'' ''2''\<lparr>ce_Name := ''y''\<rparr>))]"
    unfolding MergeConfigs_def mergeKeychainRuntime_fields Resolve_fields merge_fields_maps
    by (simp_all add: example_layer_def copy_into_def each_entry_def)
  then have p: "sources_plain ?m" by (simp add: sources_plain_def example_entry_def)
  show ?thesis
    using MergeConfigs_atomic[OF _ _ p]
    by (simp add: example_layer_def winning_entry_def entry_at_def example_entry_def)
qed

section \<open>Reduced views\<close>

definition stackForMinifiedContext :: "'s Config \<Rightarrow> Context \<Rightarrow> StackConfig option" where
  "stackForMinifiedContext c cur =
     (if cx_Stack cur = [] then None
      else (case cx_StackEntry cur of Some s \<Rightarrow> Some s | None \<Rightarrow> entry_at (cf_Stacks c) (cx_Stack cur)))"

definition Minify :: "'s Config \<Rightarrow> 's Config option" where
  "Minify c =
     (if cf_CurrentContext c = [] then None
      else (case entry_at (cf_Contexts c) (cf_CurrentContext c) of
              None \<Rightarrow> Some (c\<lparr>cf_Contexts := Some [], cf_Stacks := None, cf_Cloud := None\<rparr>)
            | Some cur \<Rightarrow>
                Some (c\<lparr>cf_Contexts := Some [(cf_CurrentContext c, Some cur)],
                        cf_Stacks := map_option (\<lambda>s. [(cx_Stack cur, Some s)]) (stackForMinifiedContext c cur),
                        cf_Cloud := (if cx_Cloud cur = [] then None
                                     else map_option (\<lambda>e. [(cx_Cloud cur, Some e)]) (entry_at (cf_Cloud c) (cx_Cloud cur)))\<rparr>)))"

lemma entries_single:
  "map_of (entries (map_option (\<lambda>s. [(k, Some s)]) p)) name = Some q \<longleftrightarrow> name = k \<and> q = p \<and> p \<noteq> None"
  by (cases p) auto

text \<open>A minified configuration shows the same current context and nothing another context needs.\<close>

lemma entry_at_single: "entry_at (map_option (\<lambda>s. [(k, Some s)]) p) name = (if name = k then p else None)"
  by (cases p) (auto simp: entry_at_def)

lemma entry_at_None [simp]: "entry_at None k = None" "entry_at (Some []) k = None"
  by (simp_all add: entry_at_def)

lemma Minify_Some:
  assumes "Minify c = Some d"
  shows "GetCurrentContext d = GetCurrentContext c" and "cf_CurrentContext d = cf_CurrentContext c"
    and "entry_at (cf_Contexts d) name = (if name = cf_CurrentContext c then GetCurrentContext c else None)"
    and "entry_at (cf_Stacks d) name =
      (case GetCurrentContext c of None \<Rightarrow> None
       | Some cur \<Rightarrow> if name = cx_Stack cur then stackForMinifiedContext c cur else None)"
    and "entry_at (cf_Cloud d) name =
      (case GetCurrentContext c of None \<Rightarrow> None
       | Some cur \<Rightarrow> if name = cx_Cloud cur \<and> name \<noteq> [] then entry_at (cf_Cloud c) name else None)"
    and "cf_Resources d = cf_Resources c" and "cf_keychainPolicy d = cf_keychainPolicy c"
  using assms
  by (auto simp: Minify_def GetCurrentContext_def entry_at_single split: if_splits option.splits)
    (auto simp: entry_at_def)

lemma Minify_wired:
  assumes "Minify c = Some d" and c: "wired c"
  shows "wired d"
proof -
  note d = Minify_Some[OF assms(1)]
  have cur: "context_wired c (cf_CurrentContext c) cur" if "GetCurrentContext c = Some cur" for cur
    using c that by (simp add: wired_def GetCurrentContext_def)
  have s: "stackForMinifiedContext c cur = (if cx_Stack cur = [] then None else entry_at (cf_Stacks c) (cx_Stack cur))"
    if "GetCurrentContext c = Some cur" for cur
    using cur[OF that] by (simp add: stackForMinifiedContext_def context_wired_def split: option.splits)
  show ?thesis
    using c cur by (auto simp: wired_def context_wired_def d s split: if_splits option.splits)
qed

section \<open>Servers\<close>

definition cut_suffix :: "string \<Rightarrow> string \<Rightarrow> string option" where
  "cut_suffix suf s = (if suffix suf s then Some (take (length s - length suf) s) else None)"

definition grafanaCloudStackSuffixes :: "(string \<times> string \<times> string) list" where
  "grafanaCloudStackSuffixes =
     [(''.grafana.net'', [], ''https://grafana.com''), (''.grafana-dev.net'', ''-dev'', ''https://grafana-dev.com''),
      (''.grafana-ops.net'', ''-ops'', ''https://grafana-ops.com'')]"

definition grafanaCloudRootSuffixes :: "string list" where
  "grafanaCloudRootSuffixes = [''.grafana.com'', ''.grafana-dev.com'', ''.grafana-ops.com'']"

definition IsGrafanaCloudHost :: "string \<Rightarrow> bool" where
  "IsGrafanaCloudHost host \<longleftrightarrow>
     (\<exists>e \<in> set grafanaCloudStackSuffixes. suffix (fst e) host) \<or> (\<exists>s \<in> set grafanaCloudRootSuffixes. suffix s host)"

definition first_label :: "string \<Rightarrow> string" where
  "first_label s = (case go_cut (CHR ''.'') s of None \<Rightarrow> s | Some (a, b) \<Rightarrow> a)"

definition match_host :: "string \<Rightarrow> (string \<times> string \<times> string) option" where
  "match_host host =
     first_some (\<lambda>(suf, tag, root).
       case cut_suffix suf host of
         None \<Rightarrow> None
       | Some s \<Rightarrow> if first_label s = [] then None else Some (first_label s, tag, root)) grafanaCloudStackSuffixes"

definition matchGrafanaCloudStack :: "(string \<Rightarrow> string option) \<Rightarrow> string \<Rightarrow> (string \<times> string \<times> string) option" where
  "matchGrafanaCloudStack hostname server = Option.bind (hostname server) match_host"

definition StackSlugFromServerURL :: "(string \<Rightarrow> string option) \<Rightarrow> string \<Rightarrow> string option" where
  "StackSlugFromServerURL hostname server = map_option fst (matchGrafanaCloudStack hostname server)"

definition GCOMRootFromServerURL :: "(string \<Rightarrow> string option) \<Rightarrow> string \<Rightarrow> string option" where
  "GCOMRootFromServerURL hostname server = map_option (\<lambda>m. snd (snd m)) (matchGrafanaCloudStack hostname server)"

definition ContextNameFromServerURL :: "(string \<Rightarrow> string option) \<Rightarrow> string \<Rightarrow> string" where
  "ContextNameFromServerURL hostname server =
     (case matchGrafanaCloudStack hostname server of
        Some (slug, tag, root) \<Rightarrow> slug @ tag
      | None \<Rightarrow>
          (case hostname server of
             None \<Rightarrow> ''default''
           | Some h \<Rightarrow> if h = [] then ''default'' else map (\<lambda>c. if c = CHR ''.'' then CHR ''-'' else c) h))"

definition context_slug :: "Context \<Rightarrow> string" where
  "context_slug ctx = (case cx_StackEntry ctx of None \<Rightarrow> [] | Some s \<Rightarrow> st_Slug s)"

definition IsCloud :: "(string \<Rightarrow> string option) \<Rightarrow> Context \<Rightarrow> bool" where
  "IsCloud hostname ctx =
     (if cx_envStackSlug ctx \<noteq> [] then True
      else if context_slug ctx \<noteq> [] then True
      else (case cx_Grafana ctx of
              None \<Rightarrow> False
            | Some g \<Rightarrow>
                if gr_StackID g \<noteq> 0 then True
                else if gr_Server g = [] then False
                else (case hostname (gr_Server g) of
                        None \<Rightarrow> False
                      | Some h \<Rightarrow> IsGrafanaCloudHost (go_lower h))))"

definition ResolveStackSlug :: "(string \<Rightarrow> string option) \<Rightarrow> Context \<Rightarrow> string" where
  "ResolveStackSlug hostname ctx =
     (if cx_envStackSlug ctx \<noteq> [] then cx_envStackSlug ctx
      else if context_slug ctx \<noteq> [] then context_slug ctx
      else (case cx_Grafana ctx of
              None \<Rightarrow> []
            | Some g \<Rightarrow>
                if gr_Server g = [] then []
                else (case StackSlugFromServerURL hostname (gr_Server g) of None \<Rightarrow> [] | Some s \<Rightarrow> s)))"

definition NormalizeCloudURL :: "string \<Rightarrow> string" where
  "NormalizeCloudURL raw =
     (if \<not> prefix ''https://'' raw \<and> \<not> prefix ''http://'' raw then ''https://'' @ raw else raw)"

definition ResolveCloudAPIURL :: "(string \<Rightarrow> string option) \<Rightarrow> Context \<Rightarrow> string" where
  "ResolveCloudAPIURL hostname ctx =
     (case (case cx_CloudEntry ctx of None \<Rightarrow> [] | Some e \<Rightarrow> ce_APIUrl e) of
        [] \<Rightarrow>
          (case Option.bind (cx_Grafana ctx) (\<lambda>g. GCOMRootFromServerURL hostname (gr_Server g)) of
             Some root \<Rightarrow> root
           | None \<Rightarrow> ''https://grafana.com'')
      | c # cs \<Rightarrow> NormalizeCloudURL (c # cs))"

text \<open>The kind of target reported: unknown, cloud or self hosted.\<close>

datatype TargetKind = TargetKindUnknown | TargetKindCloud | TargetKindSelfHosted

definition targetKindForContext :: "(string \<Rightarrow> string option) \<Rightarrow> Context option \<Rightarrow> TargetKind" where
  "targetKindForContext hostname ctx =
     (case ctx of
        None \<Rightarrow> TargetKindUnknown
      | Some c \<Rightarrow>
          if IsCloud hostname c then TargetKindCloud
          else (case cx_Grafana c of
                  None \<Rightarrow> TargetKindUnknown
                | Some g \<Rightarrow> if gr_Server g = [] then TargetKindUnknown else TargetKindSelfHosted))"

text \<open>The process-wide kind that was captured is the state of these.\<close>

definition captureTargetKind :: "(string \<Rightarrow> string option) \<Rightarrow> 's Config \<Rightarrow> TargetKind \<Rightarrow> TargetKind" where
  "captureTargetKind hostname c captured = targetKindForContext hostname (GetCurrentContext c)"

definition CaptureTargetKind :: "TargetKind \<Rightarrow> TargetKind \<Rightarrow> TargetKind" where
  "CaptureTargetKind kind captured = (if kind = TargetKindUnknown then captured else kind)"

definition ClearCapturedTargetKind :: "TargetKind \<Rightarrow> TargetKind" where
  "ClearCapturedTargetKind captured = TargetKindUnknown"

lemma match_host_cases:
  assumes "match_host host = Some (slug, tag, root)"
  shows "slug \<noteq> [] \<and> CHR ''.'' \<notin> set slug \<and> IsGrafanaCloudHost host \<and>
    (\<exists>suf rest. (suf, tag, root) \<in> set grafanaCloudStackSuffixes \<and> host = slug @ rest @ suf \<and> (rest = [] \<or> hd rest = CHR ''.''))"
proof -
  obtain suf s where e: "(suf, tag, root) \<in> set grafanaCloudStackSuffixes" "cut_suffix suf host = Some s"
    "first_label s = slug" "slug \<noteq> []"
    using first_some_SomeD[OF assms[unfolded match_host_def]] by (auto split: option.splits if_splits)
  have h: "host = s @ suf" and sf: "suffix suf host"
    using e(2) by (auto simp: cut_suffix_def suffix_def split: if_splits)
  have "CHR ''.'' \<notin> set slug \<and> (\<exists>rest. s = slug @ rest \<and> (rest = [] \<or> hd rest = CHR ''.''))"
    using e(3) by (cases "go_cut (CHR ''.'') s") (auto simp: first_label_def go_cut_None go_cut_Some)
  then show ?thesis using e h sf by (force simp: IsGrafanaCloudHost_def)
qed

text \<open>
  A context with a slug from its server is a cloud context when the host is in lower case; the converse fails for a host with
  upper case letters, of which one test folds the case and the other does not.
\<close>

lemma slug_case_sensitive:
  assumes "hostname server = Some ''prod.Grafana-Ops.net''"
  shows "IsGrafanaCloudHost (go_lower ''prod.Grafana-Ops.net'')"
    and "StackSlugFromServerURL hostname server = None" and "GCOMRootFromServerURL hostname server = None"
proof -
  have "match_host ''prod.Grafana-Ops.net'' = None" by code_simp
  then show "StackSlugFromServerURL hostname server = None" and "GCOMRootFromServerURL hostname server = None"
    using assms by (simp_all add: StackSlugFromServerURL_def GCOMRootFromServerURL_def matchGrafanaCloudStack_def)
  show "IsGrafanaCloudHost (go_lower ''prod.Grafana-Ops.net'')" by code_simp
qed

section \<open>Paths of edits\<close>

definition cloudEntryFields :: "string list" where
  "cloudEntryFields = [''token'', ''oauth-token'', ''oauth-token-expires-at'', ''oauth-url'', ''api-url'']"

definition legacyDatasourceFieldHints :: "(string \<times> string) list" where
  "legacyDatasourceFieldHints =
     [(''default-prometheus-datasource'', ''prometheus''), (''default-loki-datasource'', ''loki''),
      (''default-pyroscope-datasource'', ''pyroscope''), (''default-tempo-datasource'', ''tempo'')]"

datatype path_error =
    CredentialsField string | CredentialsOnlyKeychain string | CloudNamedEntry string string string
  | LegacyPath string string | StackPath string string | ContextPath string string | UnknownPath string

definition currentNames :: "'s Config \<Rightarrow> string \<times> string" where
  "currentNames c =
     (if cf_CurrentContext c = [] then (''<name>'', ''<name>'')
      else (cf_CurrentContext c,
            case GetCurrentContext c of
              None \<Rightarrow> ''<name>''
            | Some cur \<Rightarrow> if cx_Stack cur \<noteq> [] then cx_Stack cur else ''<name>''))"

definition cloudEntryHint :: "'s Config \<Rightarrow> string" where
  "cloudEntryHint c =
     (let bound = (case GetCurrentContext c of None \<Rightarrow> [] | Some cur \<Rightarrow> cx_Cloud cur)
      in if bound \<noteq> [] then '' (current context uses cloud.'' @ bound @ '')''
         else (case entries (cf_Cloud c) of
                 [(name, e)] \<Rightarrow> '' (e.g. cloud.'' @ name @ '')''
               | _ \<Rightarrow> []))"

text \<open>An error that suggests a path carries it.\<close>

definition cut_first :: "string \<Rightarrow> string \<times> string" where
  "cut_first s = (case go_cut (CHR ''.'') s of None \<Rightarrow> (s, []) | Some (a, b) \<Rightarrow> (a, b))"

definition bare_path_error :: "string \<times> string \<Rightarrow> string \<Rightarrow> string \<Rightarrow> path_error" where
  "bare_path_error names first path =
     (case map_of legacyDatasourceFieldHints first of
        Some kind \<Rightarrow> LegacyPath path (''contexts.'' @ fst names @ ''.datasources.'' @ kind)
      | None \<Rightarrow>
          if first \<in> set [''grafana'', ''providers'', ''slug'']
          then StackPath path (''stacks.'' @ snd names @ ''.'' @ path)
          else if first \<in> set [''datasources'', ''stack'']
          then ContextPath path (''contexts.'' @ fst names @ ''.'' @ path)
          else UnknownPath path)"

definition ValidateConfigPath :: "'s Config \<Rightarrow> string \<Rightarrow> path_error + string" where
  "ValidateConfigPath c path =
     (let (first, rest) = cut_first path
      in if first \<in> set [''contexts'', ''current-context'', ''stacks'', ''resources'', ''diagnostics'', ''version'']
         then Inr path
         else if first = ''credentials''
         then (if rest = ''keychain'' then Inr path
               else if rest = [] then Inl (CredentialsField path)
               else Inl (CredentialsOnlyKeychain path))
         else if first = ''cloud''
         then (if rest = [] \<or> fst (cut_first rest) \<in> set cloudEntryFields
               then Inl (CloudNamedEntry path (''cloud.<entry>.'' @ rest) (cloudEntryHint c))
               else Inr path)
         else Inl (bare_path_error (currentNames c) first path))"

text \<open>A valid path is returned as it is, and a suggested path is valid.\<close>

lemma ValidateConfigPath_same: "ValidateConfigPath c path = Inr p \<Longrightarrow> p = path"
  by (auto simp: ValidateConfigPath_def Let_def split: prod.splits if_splits option.splits)

fun suggested :: "path_error \<Rightarrow> string option" where
  "suggested (LegacyPath p s) = Some s"
| "suggested (StackPath p s) = Some s"
| "suggested (ContextPath p s) = Some s"
| "suggested _ = None"

lemma ValidateConfigPath_section:
  "ValidateConfigPath c (''stacks.'' @ s) = Inr (''stacks.'' @ s)"
  "ValidateConfigPath c (''contexts.'' @ s) = Inr (''contexts.'' @ s)"
  by (simp_all add: ValidateConfigPath_def cut_first_def Let_def split: prod.split)

lemma bare_path_suggestion:
  "suggested (bare_path_error names first path) = Some s \<Longrightarrow> prefix ''stacks.'' s \<or> prefix ''contexts.'' s"
proof (cases "map_of legacyDatasourceFieldHints first")
  case (Some kind)
  then show "suggested (bare_path_error names first path) = Some s \<Longrightarrow> ?thesis"
    unfolding bare_path_error_def by simp (elim subst, simp)
next
  case None
  show "suggested (bare_path_error names first path) = Some s \<Longrightarrow> ?thesis"
    unfolding bare_path_error_def None option.case
    by (cases "first \<in> set [''grafana'', ''providers'', ''slug'']"; cases "first \<in> set [''datasources'', ''stack'']";
        simp only: if_True if_False suggested.simps option.inject option.distinct; elim FalseE subst; simp)
qed

lemma suggestions_valid:
  assumes "ValidateConfigPath c path = Inl err" and "suggested err = Some s"
  shows "ValidateConfigPath c s = Inr s"
proof -
  obtain first rest where f: "cut_first path = (first, rest)" by (cases "cut_first path")
  have "err = bare_path_error (currentNames c) first path \<or> suggested err = None"
    using assms(1) unfolding ValidateConfigPath_def f Let_def prod.case by (auto split: if_splits)
  then have "prefix ''stacks.'' s \<or> prefix ''contexts.'' s" using assms(2) bare_path_suggestion by fastforce
  then show ?thesis unfolding prefix_def using ValidateConfigPath_section by metis
qed

text \<open>
  The fields of a cloud entry include \<^verbatim>\<open>oauth-scopes\<close>, which the check does not know, so that the path of that field alone is
  taken for the name of an entry.
\<close>

lemma oauth_scopes_accepted: "ValidateConfigPath c ''cloud.oauth-scopes'' = Inr ''cloud.oauth-scopes''"
  by (simp add: ValidateConfigPath_def cut_first_def cloudEntryFields_def Let_def split: prod.split)

end
