(* ===== verification/Gcx_AuthSelect.thy ===== *)
theory Gcx_AuthSelect
  imports Gcx_Config
begin

text \<open>
  Choosing how to authenticate: \<^verbatim>\<open>config/grafana_auth.go\<close> and \<^verbatim>\<open>credential_rejection.go\<close>, the TLS
  files and the validation of \<^verbatim>\<open>types.go\<close>, the discovery of stack ids of \<^verbatim>\<open>stack_id.go\<close> and the REST
  configuration built from all of it (\<open>NewNamespacedRESTConfig\<close> of \<^verbatim>\<open>rest.go\<close>).

  Parameters stand for what the code asks elsewhere: the files (their contents, absolute paths and
  digests), the discovery request, the parser of dates and the formatters of namespaces. Copies of Go
  values are the values themselves.
\<close>

section \<open>Rejected credentials\<close>

definition rejectStackCredential :: "cred_field \<Rightarrow> string \<Rightarrow> string list \<Rightarrow> StackConfig option \<Rightarrow> StackConfig option" where
  "rejectStackCredential field reason causes stack =
     map_option (\<lambda>s. s\<lparr>st_rejections := AList.update field
       \<lparr>cr_Source = st_sourceIdentity s, cr_Owner = StackOwner (st_Name s), cr_Field = field, cr_Reason = reason,
        cr_cause = (case causes of [] \<Rightarrow> None | c # cs \<Rightarrow> Some c)\<rparr> (st_rejections s)\<rparr>) stack"

definition clearStackRejection :: "cred_field \<Rightarrow> StackConfig option \<Rightarrow> StackConfig option" where
  "clearStackRejection field stack = map_option (\<lambda>s. s\<lparr>st_rejections := AList.delete field (st_rejections s)\<rparr>) stack"

definition stackCredentialRejection :: "StackConfig option \<Rightarrow> cred_field \<Rightarrow> CredentialRejectedError option" where
  "stackCredentialRejection stack field = Option.bind stack (\<lambda>s. map_of (st_rejections s) field)"

definition rejectCloudCredential :: "cred_field \<Rightarrow> string \<Rightarrow> string list \<Rightarrow> CloudEntry option \<Rightarrow> CloudEntry option" where
  "rejectCloudCredential field reason causes entry =
     map_option (\<lambda>e. e\<lparr>ce_rejections := AList.update field
       \<lparr>cr_Source = ce_sourceIdentity e, cr_Owner = CloudOwner (ce_Name e), cr_Field = field, cr_Reason = reason,
        cr_cause = (case causes of [] \<Rightarrow> None | c # cs \<Rightarrow> Some c)\<rparr> (ce_rejections e)\<rparr>) entry"

definition clearCloudRejection :: "cred_field \<Rightarrow> CloudEntry option \<Rightarrow> CloudEntry option" where
  "clearCloudRejection field entry = map_option (\<lambda>e. e\<lparr>ce_rejections := AList.delete field (ce_rejections e)\<rparr>) entry"

definition cloudCredentialRejection :: "CloudEntry option \<Rightarrow> cred_field \<Rightarrow> CredentialRejectedError option" where
  "cloudCredentialRejection entry field = Option.bind entry (\<lambda>e. map_of (ce_rejections e) field)"

lemma rejection_updates:
  "stackCredentialRejection (rejectStackCredential f r cs (Some s)) f \<noteq> None"
  "f' \<noteq> f \<Longrightarrow> stackCredentialRejection (rejectStackCredential f r cs st) f' = stackCredentialRejection st f'"
  "stackCredentialRejection (clearStackRejection f st) f = None"
  "f' \<noteq> f \<Longrightarrow> stackCredentialRejection (clearStackRejection f st) f' = stackCredentialRejection st f'"
  "cloudCredentialRejection (rejectCloudCredential f r cs (Some e)) f \<noteq> None"
  "f' \<noteq> f \<Longrightarrow> cloudCredentialRejection (rejectCloudCredential f r cs en) f' = cloudCredentialRejection en f'"
  "cloudCredentialRejection (clearCloudRejection f en) f = None"
  "f' \<noteq> f \<Longrightarrow> cloudCredentialRejection (clearCloudRejection f en) f' = cloudCredentialRejection en f'"
  by (cases st; cases en; simp add: stackCredentialRejection_def rejectStackCredential_def clearStackRejection_def
      cloudCredentialRejection_def rejectCloudCredential_def clearCloudRejection_def map_of_update delete_conv')+

section \<open>The selection\<close>

datatype auth_mode = AuthUnknown | AuthOAuth | AuthToken | AuthBasic | AuthMTLS

fun mode_string :: "auth_mode \<Rightarrow> string" where
  "mode_string AuthOAuth = ''oauth''"
| "mode_string AuthToken = ''token''"
| "mode_string AuthBasic = ''basic''"
| "mode_string AuthMTLS = ''mtls''"
| "mode_string AuthUnknown = ''unknown''"

record grafanaAuthSelection =
  sel_mode :: auth_mode
  sel_explicit :: bool

datatype config_error =
    UnsupportedAuthMethod string string | ContextRequired | NoGrafanaConfig string
  | Rejected CredentialRejectedError
  | OAuthIncomplete string | TokenMissing string | BasicIncomplete string bool | MTLSIncomplete string
  | StackNotDefined string string | CloudNotDefined string string | ServerRequired string
  | StackIDMismatch string int int | NamespaceMissing string
  | CertKeyPair | TLSFileNotFound string | TLSFileUnreadable string

definition hasCredentialRejection :: "StackConfig option \<Rightarrow> cred_field list \<Rightarrow> bool" where
  "hasCredentialRejection stack fs \<longleftrightarrow> list_ex (\<lambda>f. stackCredentialRejection stack f \<noteq> None) fs"

definition hasTLSClientCertificate :: "TLS option \<Rightarrow> bool" where
  "hasTLSClientCertificate t \<longleftrightarrow>
     (case t of None \<Rightarrow> False | Some c \<Rightarrow> tls_CertData c \<noteq> [] \<or> go_trim_space (tls_CertFile c) \<noteq> [])"

definition hasTLSClientPrivateKey :: "TLS option \<Rightarrow> bool" where
  "hasTLSClientPrivateKey t \<longleftrightarrow>
     (case t of None \<Rightarrow> False | Some c \<Rightarrow> tls_KeyData c \<noteq> [] \<or> go_trim_space (tls_KeyFile c) \<noteq> [])"

definition explicit_mode :: "string \<Rightarrow> auth_mode option" where
  "explicit_mode m =
     (if m = ''oauth'' then Some AuthOAuth else if m = ''token'' then Some AuthToken
      else if m = ''basic'' then Some AuthBasic else if m = ''mtls'' then Some AuthMTLS else None)"

text \<open>What makes a configuration without an explicit method use a mode, each in the presence of the evidence for it.\<close>

definition inferred_mode :: "GrafanaConfig \<Rightarrow> StackConfig option \<Rightarrow> auth_mode" where
  "inferred_mode g stack =
     (if hasCredentialRejection stack [FieldOAuthToken, FieldOAuthRefreshToken] \<or> gr_ProxyEndpoint g \<noteq> []
         \<or> gr_OAuthToken g \<noteq> [] \<or> gr_OAuthRefreshToken g \<noteq> [] then AuthOAuth
      else if hasCredentialRejection stack [FieldGrafanaToken] \<or> gr_APIToken g \<noteq> [] then AuthToken
      else if hasCredentialRejection stack [FieldGrafanaPassword] \<or> gr_User g \<noteq> [] \<or> gr_Password g \<noteq> [] then AuthBasic
      else if hasTLSClientCertificate (gr_TLS g) \<or> hasTLSClientPrivateKey (gr_TLS g) then AuthMTLS
      else AuthUnknown)"

definition selectGrafanaAuth ::
  "GrafanaConfig option \<Rightarrow> StackConfig option \<Rightarrow> string \<Rightarrow> config_error + grafanaAuthSelection" where
  "selectGrafanaAuth grafana stack contextName =
     (case grafana of
        None \<Rightarrow> Inr \<lparr>sel_mode = AuthUnknown, sel_explicit = False\<rparr>
      | Some g \<Rightarrow>
          (let method = go_trim_space (gr_AuthMethod g)
           in if method \<noteq> []
              then (case explicit_mode (go_lower method) of
                      Some m \<Rightarrow> Inr \<lparr>sel_mode = m, sel_explicit = True\<rparr>
                    | None \<Rightarrow> Inl (UnsupportedAuthMethod contextName method))
              else Inr \<lparr>sel_mode = inferred_mode g stack, sel_explicit = False\<rparr>))"

definition stackName :: "Context \<Rightarrow> string" where
  "stackName ctx = (if cx_Stack ctx \<noteq> [] then cx_Stack ctx else cx_Name ctx)"

definition token_override :: "Context \<Rightarrow> bool" where
  "token_override ctx \<longleftrightarrow> map_of (cx_runtimeSecretOverrides ctx) FieldGrafanaToken = Some True"

text \<open>The label reported for a selection, none for a context without a configuration.\<close>

definition grafanaAuthMethodLabel :: "GrafanaConfig option \<Rightarrow> config_error + grafanaAuthSelection \<Rightarrow> string" where
  "grafanaAuthMethodLabel grafana r =
     (case grafana of
        None \<Rightarrow> []
      | Some g \<Rightarrow>
          if Grafana_IsEmpty g then []
          else (case r of
                  Inl e \<Rightarrow> ''unknown''
                | Inr s \<Rightarrow> if sel_mode s = AuthUnknown then ''anonymous'' else mode_string (sel_mode s)))"

text \<open>The selection of a context and the label it reports: \<open>None\<close> when it reports nothing.\<close>

definition context_selection :: "Context option \<Rightarrow> (config_error + grafanaAuthSelection) \<times> string option" where
  "context_selection context =
     (case context of
        None \<Rightarrow> (Inr \<lparr>sel_mode = AuthUnknown, sel_explicit = False\<rparr>, None)
      | Some ctx \<Rightarrow>
          (let r = (if token_override ctx
                    then Inr \<lparr>sel_mode = AuthToken, sel_explicit =
                           (case cx_Grafana ctx of None \<Rightarrow> False | Some g \<Rightarrow> go_trim_space (gr_AuthMethod g) \<noteq> [])\<rparr>
                    else selectGrafanaAuth (cx_Grafana ctx) (cx_StackEntry ctx) (stackName ctx))
           in (r, Some (grafanaAuthMethodLabel (cx_Grafana ctx) r))))"

fun mode_fields :: "auth_mode \<Rightarrow> cred_field list" where
  "mode_fields AuthOAuth = [FieldOAuthToken, FieldOAuthRefreshToken]"
| "mode_fields AuthToken = [FieldGrafanaToken]"
| "mode_fields AuthBasic = [FieldGrafanaPassword]"
| "mode_fields m = []"

definition firstCredentialRejection :: "StackConfig option \<Rightarrow> cred_field list \<Rightarrow> config_error option" where
  "firstCredentialRejection stack fs = map_option Rejected (first_some (stackCredentialRejection stack) fs)"

definition rejectionForMode :: "Context option \<Rightarrow> auth_mode \<Rightarrow> config_error option" where
  "rejectionForMode context mode =
     (case context of
        None \<Rightarrow> None
      | Some ctx \<Rightarrow>
          if cx_StackEntry ctx = None then None
          else firstCredentialRejection (cx_StackEntry ctx) (mode_fields mode))"

definition GrafanaCredentialRejection :: "Context option \<Rightarrow> config_error option" where
  "GrafanaCredentialRejection context =
     (case Option.bind context cx_Grafana of
        None \<Rightarrow> None
      | Some g \<Rightarrow>
          (case fst (context_selection context) of
             Inl e \<Rightarrow> Some e
           | Inr s \<Rightarrow> rejectionForMode context (sel_mode s)))"

definition DirectProviderCredentialRejection :: "Context option \<Rightarrow> string \<Rightarrow> string \<Rightarrow> config_error option" where
  "DirectProviderCredentialRejection context provider key =
     (case Option.bind context cx_StackEntry of
        None \<Rightarrow> None
      | Some s \<Rightarrow>
          if provider = ''synth'' \<and> key = ''sm-token''
          then map_option Rejected (stackCredentialRejection (Some s) FieldSMToken) else None)"

definition validateSelectedAuth :: "GrafanaConfig \<Rightarrow> grafanaAuthSelection \<Rightarrow> string \<Rightarrow> config_error option" where
  "validateSelectedAuth g s contextName =
     (case sel_mode s of
        AuthOAuth \<Rightarrow>
          if go_trim_space (gr_ProxyEndpoint g) = []
             \<or> go_trim_space (gr_OAuthToken g) = [] \<and> go_trim_space (gr_OAuthRefreshToken g) = []
          then Some (OAuthIncomplete contextName) else None
      | AuthToken \<Rightarrow> if go_trim_space (gr_APIToken g) = [] then Some (TokenMissing contextName) else None
      | AuthBasic \<Rightarrow>
          if go_trim_space (gr_User g) = [] \<or> sel_explicit s \<and> go_trim_space (gr_Password g) = []
          then Some (BasicIncomplete contextName (sel_explicit s)) else None
      | AuthMTLS \<Rightarrow>
          if \<not> hasTLSClientCertificate (gr_TLS g) \<or> \<not> hasTLSClientPrivateKey (gr_TLS g)
          then Some (MTLSIncomplete contextName) else None
      | AuthUnknown \<Rightarrow> None)"

definition validatedGrafanaAuthSelection :: "Context option \<Rightarrow> config_error + grafanaAuthSelection" where
  "validatedGrafanaAuthSelection context =
     (case context of
        None \<Rightarrow> Inl ContextRequired
      | Some ctx \<Rightarrow>
          (case cx_Grafana ctx of
             None \<Rightarrow> Inl (NoGrafanaConfig (cx_Name ctx))
           | Some g \<Rightarrow>
               (case fst (context_selection context) of
                  Inl e \<Rightarrow> Inl e
                | Inr s \<Rightarrow>
                    (case rejectionForMode context (sel_mode s) of
                       Some e \<Rightarrow> Inl e
                     | None \<Rightarrow>
                         (case validateSelectedAuth g s (stackName ctx) of
                            Some e \<Rightarrow> Inl e
                          | None \<Rightarrow> Inr s)))))"

definition EffectiveGrafanaAuthMethod :: "Context option \<Rightarrow> config_error + string" where
  "EffectiveGrafanaAuthMethod context =
     (case validatedGrafanaAuthSelection context of Inl e \<Rightarrow> Inl e | Inr s \<Rightarrow> Inr (mode_string (sel_mode s)))"

definition ServerTrustOnly :: "TLS option \<Rightarrow> TLS option" where
  "ServerTrustOnly t =
     map_option (\<lambda>c. c\<lparr>tls_CertFile := [], tls_KeyFile := [], tls_CertData := [], tls_KeyData := [],
       tls_certSnapshot := empty_snapshot, tls_keySnapshot := empty_snapshot\<rparr>) t"

definition tlsForSelectedAuth :: "GrafanaConfig \<Rightarrow> grafanaAuthSelection \<Rightarrow> TLS option" where
  "tlsForSelectedAuth g s =
     (if sel_explicit s \<and> sel_mode s \<noteq> AuthMTLS then ServerTrustOnly (gr_TLS g) else gr_TLS g)"

definition EffectiveGrafanaTLS :: "Context option \<Rightarrow> config_error + TLS option" where
  "EffectiveGrafanaTLS context =
     (case validatedGrafanaAuthSelection context of
        Inl e \<Rightarrow> Inl e
      | Inr s \<Rightarrow>
          (case Option.bind context cx_Grafana of
             None \<Rightarrow> Inr None
           | Some g \<Rightarrow> Inr (tlsForSelectedAuth g s)))"

definition InferredAuthMethod :: "GrafanaConfig \<Rightarrow> string" where
  "InferredAuthMethod g =
     (case selectGrafanaAuth (Some g) None [] of
        Inl e \<Rightarrow> go_lower (go_trim_space (gr_AuthMethod g))
      | Inr s \<Rightarrow> mode_string (sel_mode s))"

section \<open>What a validated selection guarantees\<close>

text \<open>The material a mode uses, whether there is any of it, and the order of the modes.\<close>

definition credential_usable :: "GrafanaConfig \<Rightarrow> auth_mode \<Rightarrow> bool" where
  "credential_usable g m =
     (case m of
        AuthOAuth \<Rightarrow> go_trim_space (gr_ProxyEndpoint g) \<noteq> [] \<and>
          (go_trim_space (gr_OAuthToken g) \<noteq> [] \<or> go_trim_space (gr_OAuthRefreshToken g) \<noteq> [])
      | AuthToken \<Rightarrow> go_trim_space (gr_APIToken g) \<noteq> []
      | AuthBasic \<Rightarrow> go_trim_space (gr_User g) \<noteq> []
      | AuthMTLS \<Rightarrow> hasTLSClientCertificate (gr_TLS g) \<and> hasTLSClientPrivateKey (gr_TLS g)
      | AuthUnknown \<Rightarrow> True)"

definition credential_present :: "GrafanaConfig \<Rightarrow> auth_mode \<Rightarrow> bool" where
  "credential_present g m =
     (case m of
        AuthOAuth \<Rightarrow> gr_ProxyEndpoint g \<noteq> [] \<or> gr_OAuthToken g \<noteq> [] \<or> gr_OAuthRefreshToken g \<noteq> []
      | AuthToken \<Rightarrow> gr_APIToken g \<noteq> []
      | AuthBasic \<Rightarrow> gr_User g \<noteq> [] \<or> gr_Password g \<noteq> []
      | AuthMTLS \<Rightarrow> hasTLSClientCertificate (gr_TLS g) \<or> hasTLSClientPrivateKey (gr_TLS g)
      | AuthUnknown \<Rightarrow> False)"

fun mode_rank :: "auth_mode \<Rightarrow> nat" where
  "mode_rank AuthOAuth = 0"
| "mode_rank AuthToken = 1"
| "mode_rank AuthBasic = 2"
| "mode_rank AuthMTLS = 3"
| "mode_rank AuthUnknown = 4"

definition mode_rejected :: "StackConfig option \<Rightarrow> auth_mode \<Rightarrow> bool" where
  "mode_rejected stack m \<longleftrightarrow> hasCredentialRejection stack (mode_fields m)"

text \<open>Every mode before the inferred one has neither material nor a rejection; the inferred one has some.\<close>

lemma inferred_mode_first:
  "mode_rank m < mode_rank (inferred_mode g stack) \<Longrightarrow> \<not> credential_present g m \<and> \<not> mode_rejected stack m"
  by (cases m) (auto simp: inferred_mode_def credential_present_def mode_rejected_def hasCredentialRejection_def
      split: if_splits)

lemma inferred_mode_evidence:
  "inferred_mode g stack \<noteq> AuthUnknown \<Longrightarrow>
   credential_present g (inferred_mode g stack) \<or> mode_rejected stack (inferred_mode g stack)"
  by (auto simp: inferred_mode_def credential_present_def mode_rejected_def split: if_splits)

lemma rejectionForMode_None:
  "rejectionForMode (Some ctx) m = None \<longleftrightarrow> \<not> mode_rejected (cx_StackEntry ctx) m"
proof (cases "cx_StackEntry ctx")
  case None
  then show ?thesis
    by (simp add: rejectionForMode_def mode_rejected_def hasCredentialRejection_def stackCredentialRejection_def list_ex_iff)
next
  case (Some s)
  then show ?thesis
    by (simp add: rejectionForMode_def mode_rejected_def hasCredentialRejection_def firstCredentialRejection_def
        first_some_None list_ex_iff)
qed

lemma validateSelectedAuth_None: "validateSelectedAuth g s n = None \<Longrightarrow> credential_usable g (sel_mode s)"
  by (cases "sel_mode s") (auto simp: validateSelectedAuth_def credential_usable_def split: if_splits)

lemma validated_Inr:
  assumes "validatedGrafanaAuthSelection (Some ctx) = Inr s"
  shows "\<exists>g. cx_Grafana ctx = Some g \<and> fst (context_selection (Some ctx)) = Inr s \<and>
    \<not> mode_rejected (cx_StackEntry ctx) (sel_mode s) \<and> validateSelectedAuth g s (stackName ctx) = None"
  using assms
  by (auto simp: validatedGrafanaAuthSelection_def rejectionForMode_None split: option.splits sum.splits)

text \<open>C19. A validated selection uses a mode whose material is there and none of whose credentials was
  rejected. A token given for the invocation wins; otherwise an explicit method decides; otherwise no mode
  of higher precedence has any material or any rejected credential, so a rejected credential never gives way to another one.\<close>

theorem validated_selection_sound:
  assumes "validatedGrafanaAuthSelection (Some ctx) = Inr s"
  shows "\<exists>g. cx_Grafana ctx = Some g \<and> credential_usable g (sel_mode s) \<and>
    \<not> mode_rejected (cx_StackEntry ctx) (sel_mode s) \<and>
    (token_override ctx \<longrightarrow> sel_mode s = AuthToken) \<and>
    (\<not> token_override ctx \<longrightarrow> sel_explicit s \<longrightarrow>
       explicit_mode (go_lower (go_trim_space (gr_AuthMethod g))) = Some (sel_mode s)) \<and>
    (\<not> token_override ctx \<longrightarrow> \<not> sel_explicit s \<longrightarrow> go_trim_space (gr_AuthMethod g) = [] \<and>
       (\<forall>m. mode_rank m < mode_rank (sel_mode s) \<longrightarrow>
          \<not> credential_present g m \<and> \<not> mode_rejected (cx_StackEntry ctx) m))"
proof -
  obtain g where g: "cx_Grafana ctx = Some g" "fst (context_selection (Some ctx)) = Inr s"
    "\<not> mode_rejected (cx_StackEntry ctx) (sel_mode s)" "validateSelectedAuth g s (stackName ctx) = None"
    using validated_Inr[OF assms] by blast
  have "token_override ctx \<Longrightarrow> sel_mode s = AuthToken"
    using g(2) by (auto simp: context_selection_def Let_def)
  moreover have "\<not> token_override ctx \<Longrightarrow> selectGrafanaAuth (Some g) (cx_StackEntry ctx) (stackName ctx) = Inr s"
    using g(1,2) by (simp add: context_selection_def Let_def)
  ultimately show ?thesis
    using g(1,3) validateSelectedAuth_None[OF g(4)] inferred_mode_first
    by (auto simp: selectGrafanaAuth_def Let_def split: if_splits option.splits)
qed

definition example_context :: Context where
  "example_context =
     \<lparr>cx_Name = ''prod'', cx_Stack = [], cx_Cloud = [], cx_Datasources = None, cx_StackEntry = None, cx_CloudEntry = None,
      cx_Grafana = Some (empty_grafana\<lparr>gr_Server := ''s/'', gr_APIToken := ''t'', gr_OrgID := 1\<rparr>), cx_Providers = None,
      cx_assumeServerDryRun = [], cx_envStackSlug = [], cx_runtimeSecretOverrides = [],
      cx_keychainPolicy = \<lparr>kp_mode = [], kp_source = []\<rparr>\<rparr>"

lemma trim_t: "go_trim_space ''t'' = ''t''" by code_simp

lemma example_selection: "validatedGrafanaAuthSelection (Some example_context) = Inr \<lparr>sel_mode = AuthToken, sel_explicit = False\<rparr>"
  by (simp add: validatedGrafanaAuthSelection_def example_context_def context_selection_def token_override_def
      selectGrafanaAuth_def empty_grafana_def inferred_mode_def hasCredentialRejection_def stackCredentialRejection_def
      rejectionForMode_def validateSelectedAuth_def trim_t Let_def)

theorem validated_selection_sound_witness:
  "validatedGrafanaAuthSelection (Some example_context) = Inr \<lparr>sel_mode = AuthToken, sel_explicit = False\<rparr> \<and>
   (\<exists>g. cx_Grafana example_context = Some g \<and> credential_usable g AuthToken)"
  using validated_selection_sound[OF example_selection] example_selection by auto

section \<open>Tokens for the cloud API\<close>

datatype token_error = TokenRejected CredentialRejectedError | InvalidExpiry string string | ExpiredToken string string

definition ResolveToken :: "(string \<Rightarrow> int option) \<Rightarrow> int \<Rightarrow> CloudEntry \<Rightarrow> token_error + string" where
  "ResolveToken parse_time now e =
     (case cloudCredentialRejection (Some e) FieldCloudToken of
        Some r \<Rightarrow> Inl (TokenRejected r)
      | None \<Rightarrow>
          if ce_Token e \<noteq> [] then Inr (ce_Token e)
          else (case cloudCredentialRejection (Some e) FieldOAuthToken of
                  Some r \<Rightarrow> Inl (TokenRejected r)
                | None \<Rightarrow>
                    if ce_OAuthToken e = [] then Inr []
                    else if ce_OAuthTokenExpiresAt e = [] then Inr (ce_OAuthToken e)
                    else (case parse_time (ce_OAuthTokenExpiresAt e) of
                            None \<Rightarrow> Inl (InvalidExpiry (ce_Name e) (ce_OAuthTokenExpiresAt e))
                          | Some expiry \<Rightarrow>
                              if now > expiry then Inl (ExpiredToken (ce_Name e) (ce_OAuthTokenExpiresAt e))
                              else Inr (ce_OAuthToken e))))"

lemma ResolveToken_sound:
  assumes "ResolveToken parse_time now e = Inr t" and "t \<noteq> []"
  shows "cloudCredentialRejection (Some e) FieldCloudToken = None \<and>
    (t = ce_Token e \<or>
     ce_Token e = [] \<and> t = ce_OAuthToken e \<and> cloudCredentialRejection (Some e) FieldOAuthToken = None \<and>
       (ce_OAuthTokenExpiresAt e = [] \<or> (\<exists>x. parse_time (ce_OAuthTokenExpiresAt e) = Some x \<and> now \<le> x)))"
  using assms by (auto simp: ResolveToken_def split: option.splits if_splits)

section \<open>TLS files\<close>

text \<open>Reading a file gives its contents or the kind of error; \<open>fs_abs\<close> and \<open>fs_digest\<close> identify it.\<close>

record files =
  fs_read :: "string \<Rightarrow> string + string"
  fs_abs :: "string \<Rightarrow> string"
  fs_digest :: "string \<Rightarrow> string"

definition snapshotTLSFile :: "files \<Rightarrow> string \<Rightarrow> tlsFileSnapshot" where
  "snapshotTLSFile fs path =
     (if path = [] then empty_snapshot
      else (case fs_read fs path of
              Inl err \<Rightarrow>
                \<lparr>sn_path = path,
                 sn_fingerprint = fs_abs fs path @ ''|'' @ (if err = ''missing'' then ''missing'' else ''unreadable''),
                 sn_contents = [], sn_err = Some err\<rparr>
            | Inr bytes \<Rightarrow>
                \<lparr>sn_path = path, sn_fingerprint = fs_abs fs path @ ''|sha256:'' @ fs_digest fs bytes,
                 sn_contents = bytes, sn_err = None\<rparr>))"

definition snapshots_current :: "TLS \<Rightarrow> bool" where
  "snapshots_current c \<longleftrightarrow>
     tls_captured c \<and> sn_path (tls_certSnapshot c) = tls_CertFile c \<and> sn_path (tls_keySnapshot c) = tls_KeyFile c \<and>
     sn_path (tls_caSnapshot c) = tls_CAFile c"

definition captureCredentialFileSnapshots :: "files \<Rightarrow> TLS \<Rightarrow> TLS" where
  "captureCredentialFileSnapshots fs c =
     (if snapshots_current c then c
      else c\<lparr>tls_captured := True, tls_certSnapshot := snapshotTLSFile fs (tls_CertFile c),
             tls_keySnapshot := snapshotTLSFile fs (tls_KeyFile c), tls_caSnapshot := snapshotTLSFile fs (tls_CAFile c)\<rparr>)"

definition tlsFileError :: "string \<Rightarrow> string \<Rightarrow> config_error" where
  "tlsFileError description err =
     (if err = ''missing'' then TLSFileNotFound description else TLSFileUnreadable description)"

definition readCredentialTLSFile :: "files \<Rightarrow> bool \<Rightarrow> string \<Rightarrow> string \<Rightarrow> tlsFileSnapshot \<Rightarrow> config_error + string" where
  "readCredentialTLSFile fs captured description path snap =
     (if captured \<and> sn_path snap = path
      then (case sn_err snap of Some err \<Rightarrow> Inl (tlsFileError description err) | None \<Rightarrow> Inr (sn_contents snap))
      else (case fs_read fs path of Inl err \<Rightarrow> Inl (tlsFileError description err) | Inr bytes \<Rightarrow> Inr bytes))"

text \<open>One of the three files: its data when there is a path, what was there otherwise.\<close>

definition resolved_data :: "files \<Rightarrow> TLS \<Rightarrow> string \<Rightarrow> string \<Rightarrow> tlsFileSnapshot \<Rightarrow> string \<Rightarrow> config_error + string" where
  "resolved_data fs c description path snap old =
     (if path = [] then Inr old else readCredentialTLSFile fs (tls_captured c) description path snap)"

definition ResolveFiles :: "files \<Rightarrow> TLS \<Rightarrow> config_error + TLS" where
  "ResolveFiles fs c0 =
     (let c = captureCredentialFileSnapshots fs c0
      in if (tls_CertFile c \<noteq> []) \<noteq> (tls_KeyFile c \<noteq> []) then Inl CertKeyPair
         else (case resolved_data fs c ''client certificate'' (tls_CertFile c) (tls_certSnapshot c) (tls_CertData c) of
                 Inl e \<Rightarrow> Inl e
               | Inr cert \<Rightarrow>
                   (case resolved_data fs c ''client key'' (tls_KeyFile c) (tls_keySnapshot c) (tls_KeyData c) of
                      Inl e \<Rightarrow> Inl e
                    | Inr key \<Rightarrow>
                        (case resolved_data fs c ''CA certificate'' (tls_CAFile c) (tls_caSnapshot c) (tls_CAData c) of
                           Inl e \<Rightarrow> Inl e
                         | Inr ca \<Rightarrow> Inr (c\<lparr>tls_CertData := cert, tls_KeyData := key, tls_CAData := ca\<rparr>)))))"

lemma snapshot_path [simp]: "sn_path (snapshotTLSFile fs path) = path"
  by (simp add: snapshotTLSFile_def empty_snapshot_def split: sum.split)

lemma capture_current: "snapshots_current (captureCredentialFileSnapshots fs c)"
  by (simp add: captureCredentialFileSnapshots_def snapshots_current_def)

lemma capture_idempotent:
  "captureCredentialFileSnapshots fs' (captureCredentialFileSnapshots fs c) = captureCredentialFileSnapshots fs c"
  using capture_current by (subst captureCredentialFileSnapshots_def) simp

text \<open>Once captured, what the files hold later has no influence: the bytes that were bound are the bytes that are used.\<close>

lemma resolved_data_captured:
  "snapshots_current c \<Longrightarrow> sn_path snap = path \<Longrightarrow> resolved_data fs c d path snap old = resolved_data fs' c d path snap old"
  by (simp add: resolved_data_def readCredentialTLSFile_def snapshots_current_def)

lemma ResolveFiles_frozen: "ResolveFiles fs' (captureCredentialFileSnapshots fs c) = ResolveFiles fs (captureCredentialFileSnapshots fs c)"
proof -
  let ?c = "captureCredentialFileSnapshots fs c"
  note cur = capture_current[of fs c]
  have p: "sn_path (tls_certSnapshot ?c) = tls_CertFile ?c" "sn_path (tls_keySnapshot ?c) = tls_KeyFile ?c"
    "sn_path (tls_caSnapshot ?c) = tls_CAFile ?c"
    using cur by (simp_all add: snapshots_current_def)
  have e: "resolved_data fs' ?c d (tls_CertFile ?c) (tls_certSnapshot ?c) x = resolved_data fs ?c d (tls_CertFile ?c) (tls_certSnapshot ?c) x"
    "resolved_data fs' ?c d (tls_KeyFile ?c) (tls_keySnapshot ?c) x = resolved_data fs ?c d (tls_KeyFile ?c) (tls_keySnapshot ?c) x"
    "resolved_data fs' ?c d (tls_CAFile ?c) (tls_caSnapshot ?c) x = resolved_data fs ?c d (tls_CAFile ?c) (tls_caSnapshot ?c) x" for d x
    using resolved_data_captured[OF cur] p by blast+
  show ?thesis unfolding ResolveFiles_def capture_idempotent Let_def e ..
qed

text \<open>
  A new path for one file recaptures the other two as well, although their paths did not change.
\<close>

lemma capture_refreshes_unchanged_path:
  assumes "snapshots_current c" and "ca \<noteq> tls_CAFile c"
  shows "tls_certSnapshot (captureCredentialFileSnapshots fs (c\<lparr>tls_CAFile := ca\<rparr>)) = snapshotTLSFile fs (tls_CertFile c)"
  using assms by (simp add: captureCredentialFileSnapshots_def snapshots_current_def)

section \<open>Namespaces\<close>

text \<open>
  The world of a discovery is the cache of stack ids, which only successes enter, and what the server is
  for the request. A discovery that fails leaves the cache alone.
\<close>

record 'w discovery_world =
  dw_cache :: "(string \<times> int) list"
  dw_server :: 'w

type_synonym 'w discover = "GrafanaConfig \<Rightarrow> 'w \<Rightarrow> int option \<times> 'w"

definition trim_slash :: "string \<Rightarrow> string" where
  "trim_slash s = (case cut_suffix ''/'' s of None \<Rightarrow> s | Some t \<Rightarrow> t)"

definition cachedStackID :: "string \<Rightarrow> 'w discovery_world \<Rightarrow> int option" where
  "cachedStackID server w = map_of (dw_cache w) (trim_slash server)"

definition discoverStackIDCached :: "'w discover \<Rightarrow> GrafanaConfig \<Rightarrow> 'w discovery_world \<Rightarrow> int option \<times> 'w discovery_world" where
  "discoverStackIDCached discover g w =
     (case cachedStackID (gr_Server g) w of
        Some stackid \<Rightarrow> (Some stackid, w)
      | None \<Rightarrow>
          (case discover g (dw_server w) of
             (None, s) \<Rightarrow> (None, w\<lparr>dw_server := s\<rparr>)
           | (Some stackid, s) \<Rightarrow>
               (Some stackid, \<lparr>dw_cache = AList.update (trim_slash (gr_Server g)) stackid (dw_cache w), dw_server = s\<rparr>)))"

record namespace_formats =
  nf_cloud :: "int \<Rightarrow> string"
  nf_org :: "int \<Rightarrow> string"

definition resolveNamespace ::
  "namespace_formats \<Rightarrow> 'w discover \<Rightarrow> GrafanaConfig \<Rightarrow> 'w discovery_world \<Rightarrow> string \<times> 'w discovery_world" where
  "resolveNamespace nf discover g w =
     (if gr_StackID g \<noteq> 0 then (nf_cloud nf (gr_StackID g), w)
      else (case discoverStackIDCached discover g w of
              (Some stackid, w') \<Rightarrow> (nf_cloud nf stackid, w')
            | (None, w') \<Rightarrow> (if gr_OrgID g \<noteq> 0 then nf_org nf (gr_OrgID g) else nf_cloud nf (gr_StackID g), w')))"

definition validateNamespace ::
  "'w discover \<Rightarrow> GrafanaConfig \<Rightarrow> string \<Rightarrow> 'w discovery_world \<Rightarrow> config_error option \<times> 'w discovery_world" where
  "validateNamespace discover g contextName w =
     (if gr_OrgID g \<noteq> 0 then (None, w)
      else if gr_StackID g \<noteq> 0
      then ((case cachedStackID (gr_Server g) w of
               Some stackid \<Rightarrow>
                 if stackid \<noteq> gr_StackID g then Some (StackIDMismatch contextName stackid (gr_StackID g)) else None
             | None \<Rightarrow> None), w)
      else (case discoverStackIDCached discover g w of
              (None, w') \<Rightarrow> (Some (NamespaceMissing contextName), w')
            | (Some stackid, w') \<Rightarrow> (None, w')))"

definition validateWithAuthSelection ::
  "'w discover \<Rightarrow> GrafanaConfig \<Rightarrow> string \<Rightarrow> grafanaAuthSelection \<Rightarrow> 'w discovery_world \<Rightarrow>
   config_error option \<times> 'w discovery_world" where
  "validateWithAuthSelection discover g contextName s w =
     (if gr_Server g = [] then (Some (ServerRequired contextName), w)
      else (case validateSelectedAuth g s contextName of
              Some e \<Rightarrow> (Some e, w)
            | None \<Rightarrow> validateNamespace discover (g\<lparr>gr_TLS := tlsForSelectedAuth g s\<rparr>) contextName w))"

definition Grafana_Validate ::
  "'w discover \<Rightarrow> GrafanaConfig \<Rightarrow> string \<Rightarrow> 'w discovery_world \<Rightarrow> config_error option \<times> 'w discovery_world" where
  "Grafana_Validate discover g contextName w =
     (case selectGrafanaAuth (Some g) None contextName of
        Inl e \<Rightarrow> (Some e, w)
      | Inr s \<Rightarrow> validateWithAuthSelection discover g contextName s w)"

definition Context_Validate ::
  "'w discover \<Rightarrow> Context \<Rightarrow> 'w discovery_world \<Rightarrow> config_error option \<times> 'w discovery_world" where
  "Context_Validate discover ctx w =
     (if cx_Stack ctx \<noteq> [] \<and> cx_StackEntry ctx = None then (Some (StackNotDefined (cx_Name ctx) (cx_Stack ctx)), w)
      else if cx_Cloud ctx \<noteq> [] \<and> cx_CloudEntry ctx = None then (Some (CloudNotDefined (cx_Name ctx) (cx_Cloud ctx)), w)
      else (case cx_Grafana ctx of
              None \<Rightarrow> (Some (NoGrafanaConfig (cx_Name ctx)), w)
            | Some g \<Rightarrow>
                if Grafana_IsEmpty g then (Some (NoGrafanaConfig (cx_Name ctx)), w)
                else (case fst (context_selection (Some ctx)) of
                        Inl e \<Rightarrow> (Some e, w)
                      | Inr s \<Rightarrow>
                          (case rejectionForMode (Some ctx) (sel_mode s) of
                             Some e \<Rightarrow> (Some e, w)
                           | None \<Rightarrow> validateWithAuthSelection discover g (stackName ctx) s w))))"

text \<open>The cache never changes an id it holds, and holds only what a discovery for that server answered.\<close>

lemma discovery_cache:
  assumes "discoverStackIDCached discover g w = (r, w')"
  shows "map_of (dw_cache w) k = Some stackid \<Longrightarrow> map_of (dw_cache w') k = Some stackid"
    and "map_of (dw_cache w') k = Some stackid \<Longrightarrow>
      map_of (dw_cache w) k = Some stackid \<or> k = trim_slash (gr_Server g) \<and> r = Some stackid"
    and "cachedStackID (gr_Server g) w' = r"
  using assms
  by (auto simp: discoverStackIDCached_def cachedStackID_def map_of_update split: option.splits prod.splits if_splits)

text \<open>A context that validates can be used: its selection is a validated one.\<close>

lemma Validate_selection:
  assumes "Context_Validate discover ctx w = (None, w')"
  shows "\<exists>g s. cx_Grafana ctx = Some g \<and> gr_Server g \<noteq> [] \<and> validatedGrafanaAuthSelection (Some ctx) = Inr s \<and>
    (cx_Stack ctx \<noteq> [] \<longrightarrow> cx_StackEntry ctx \<noteq> None) \<and> (cx_Cloud ctx \<noteq> [] \<longrightarrow> cx_CloudEntry ctx \<noteq> None)"
proof -
  have refs: "cx_Stack ctx \<noteq> [] \<longrightarrow> cx_StackEntry ctx \<noteq> None" "cx_Cloud ctx \<noteq> [] \<longrightarrow> cx_CloudEntry ctx \<noteq> None"
    using assms by (auto simp: Context_Validate_def split: if_splits)
  obtain g where g: "cx_Grafana ctx = Some g"
    using assms by (auto simp: Context_Validate_def split: if_splits option.splits)
  obtain s where s: "fst (context_selection (Some ctx)) = Inr s" "rejectionForMode (Some ctx) (sel_mode s) = None"
    "validateWithAuthSelection discover g (stackName ctx) s w = (None, w')"
    using assms g by (auto simp: Context_Validate_def split: if_splits option.splits sum.splits)
  have "gr_Server g \<noteq> []" and "validateSelectedAuth g s (stackName ctx) = None"
    using s(3) by (auto simp: validateWithAuthSelection_def split: if_splits option.splits)
  then show ?thesis
    using refs g s(1,2) by (simp add: validatedGrafanaAuthSelection_def)
qed

section \<open>The REST configuration\<close>

record rest_tls =
  rt_Insecure :: bool
  rt_ServerName :: string
  rt_CertData :: string
  rt_KeyData :: string
  rt_CAData :: string
  rt_NextProtos :: "string list"

record oauth_transport =
  ot_ProxyEndpoint :: string
  ot_Token :: string
  ot_RefreshToken :: string
  ot_ExpiresAt :: int
  ot_RefreshExpiresAt :: int

text \<open>The transports around the network, outermost first.\<close>

datatype transport_layer = CallerIDLayer | RetryLayer | LoggingLayer | OAuthLayer | PayloadLayer | WireLayer

record rest_config =
  rest_Host :: string
  rest_BearerToken :: string
  rest_Username :: string
  rest_Password :: string
  rest_TLS :: rest_tls
  rest_Namespace :: string
  rest_GrafanaURL :: string
  rest_oauth :: "oauth_transport option"
  rest_layers :: "transport_layer list"
  rest_policy :: keychainPolicy

definition empty_rest_tls :: rest_tls where
  "empty_rest_tls = \<lparr>rt_Insecure = False, rt_ServerName = [], rt_CertData = [], rt_KeyData = [], rt_CAData = [], rt_NextProtos = []\<rparr>"

definition rest_tls_of :: "TLS \<Rightarrow> rest_tls" where
  "rest_tls_of c =
     \<lparr>rt_Insecure = tls_Insecure c, rt_ServerName = tls_ServerName c, rt_CertData = tls_CertData c,
      rt_KeyData = tls_KeyData c, rt_CAData = tls_CAData c, rt_NextProtos = tls_NextProtos c\<rparr>"

definition parseRFC3339OrZero :: "(string \<Rightarrow> int option) \<Rightarrow> int \<Rightarrow> string \<Rightarrow> int" where
  "parseRFC3339OrZero parse_time zero_time s =
     (if s = [] then zero_time else (case parse_time s of None \<Rightarrow> zero_time | Some t \<Rightarrow> t))"

definition resolve_selected_tls :: "files \<Rightarrow> TLS option \<Rightarrow> config_error + rest_tls" where
  "resolve_selected_tls fs t =
     (case t of
        None \<Rightarrow> Inr empty_rest_tls
      | Some c \<Rightarrow> (case ResolveFiles fs c of Inl e \<Rightarrow> Inl e | Inr c' \<Rightarrow> Inr (rest_tls_of c')))"

definition wrap_layers :: "bool \<Rightarrow> bool \<Rightarrow> transport_layer list" where
  "wrap_layers oauth payload =
     [CallerIDLayer, RetryLayer, LoggingLayer] @ (if oauth then [OAuthLayer] else [])
     @ (if payload then [PayloadLayer] else []) @ [WireLayer]"

definition NewNamespacedRESTConfig ::
  "files \<Rightarrow> namespace_formats \<Rightarrow> (string \<Rightarrow> int option) \<Rightarrow> int \<Rightarrow> 'w discover \<Rightarrow> bool \<Rightarrow> Context \<Rightarrow> 'w discovery_world \<Rightarrow>
   (config_error + rest_config) \<times> 'w discovery_world" where
  "NewNamespacedRESTConfig fs nf parse_time zero_time discover payload ctx w =
     (case cx_Grafana ctx of
        None \<Rightarrow> (Inl (NoGrafanaConfig (cx_Name ctx)), w)
      | Some g \<Rightarrow>
          (case validatedGrafanaAuthSelection (Some ctx) of
             Inl e \<Rightarrow> (Inl e, w)
           | Inr s \<Rightarrow>
               (let selected = g\<lparr>gr_TLS := tlsForSelectedAuth g s\<rparr>
                in case resolve_selected_tls fs (gr_TLS selected) of
                     Inl e \<Rightarrow> (Inl e, w)
                   | Inr tls \<Rightarrow>
                       (let oauth = (sel_mode s = AuthOAuth); (ns, w') = resolveNamespace nf discover selected w
                        in (Inr
                              \<lparr>rest_Host =
                                 (if oauth then trim_slash (gr_ProxyEndpoint g) @ ''/api/cli/v1/proxy''
                                  else trim_slash (gr_Server g)),
                               rest_BearerToken = (if sel_mode s = AuthToken then gr_APIToken g else []),
                               rest_Username = (if sel_mode s = AuthBasic then gr_User g else []),
                               rest_Password = (if sel_mode s = AuthBasic then gr_Password g else []),
                               rest_TLS = tls, rest_Namespace = ns, rest_GrafanaURL = trim_slash (gr_Server g),
                               rest_oauth =
                                 (if oauth
                                  then Some \<lparr>ot_ProxyEndpoint = gr_ProxyEndpoint g, ot_Token = gr_OAuthToken g,
                                             ot_RefreshToken = gr_OAuthRefreshToken g,
                                             ot_ExpiresAt = parseRFC3339OrZero parse_time zero_time (gr_OAuthTokenExpiresAt g),
                                             ot_RefreshExpiresAt =
                                               parseRFC3339OrZero parse_time zero_time (gr_OAuthRefreshExpiresAt g)\<rparr>
                                  else None),
                               rest_layers = wrap_layers oauth payload, rest_policy = cx_keychainPolicy ctx\<rparr>, w')))))"

lemma ServerTrustOnly_resolves:
  assumes "ResolveFiles fs (c\<lparr>tls_CertFile := [], tls_KeyFile := [], tls_CertData := [], tls_KeyData := [],
       tls_certSnapshot := empty_snapshot, tls_keySnapshot := empty_snapshot\<rparr>) = Inr d"
  shows "tls_CertData d = [] \<and> tls_KeyData d = []"
  using assms
  by (auto simp: ResolveFiles_def captureCredentialFileSnapshots_def resolved_data_def Let_def
      split: if_splits sum.splits)


definition no_files :: files where
  "no_files = \<lparr>fs_read = (\<lambda>p. Inl ''missing''), fs_abs = (\<lambda>p. p), fs_digest = (\<lambda>p. [])\<rparr>"

definition plain_formats :: namespace_formats where
  "plain_formats = \<lparr>nf_cloud = (\<lambda>i. ''stacks''), nf_org = (\<lambda>i. ''org'')\<rparr>"

definition no_discovery :: "unit discover" where
  "no_discovery g w = (None, w)"

lemma example_rest:
  "\<exists>r w'. NewNamespacedRESTConfig no_files plain_formats (\<lambda>s. None) 0 no_discovery False example_context
     \<lparr>dw_cache = [], dw_server = ()\<rparr> = (Inr r, w') \<and> rest_BearerToken r = ''t''"
  using example_selection
  by (auto simp: NewNamespacedRESTConfig_def example_context_def empty_grafana_def Let_def tlsForSelectedAuth_def
      resolve_selected_tls_def split: prod.split)


end
