(* ===== verification/Gcx_Local.thy ===== *)
theory Gcx_Local
  imports Gcx_Paths Gcx_Adapters "HOL-Library.Sublist"
begin

text \<open>
  Files on disk: the writer of pulled resources (\<^verbatim>\<open>local/writer.go\<close>) and the reader of resources to
  push (\<^verbatim>\<open>local/reader.go\<close>). The file system is a parameter: the results of its calls on a world for the
  writer, the walk over the given paths and the contents of files for the reader. The lemmas show that
  the writer opens files below its root only, and that the reader accounts for every file.
\<close>

section \<open>Paths\<close>

definition is_abs :: "string \<Rightarrow> bool" where
  "is_abs p \<longleftrightarrow> p \<noteq> [] \<and> hd p = CHR ''/''"

definition go_abs :: "string \<Rightarrow> string \<Rightarrow> string" where
  "go_abs cwd p = (if is_abs p then go_clean p else go_path_join cwd p)"

text \<open>The elements of a clean path, the leading one of an absolute path being empty.\<close>

definition path_elems :: "string \<Rightarrow> string list" where
  "path_elems p = (if p = ''/'' then [[]] else go_split (CHR ''/'') p)"

fun common_elems :: "string list \<Rightarrow> string list \<Rightarrow> nat" where
  "common_elems (x # xs) (y # ys) = (if x = y then Suc (common_elems xs ys) else 0)"
| "common_elems xs ys = 0"

text \<open>\<^verbatim>\<open>filepath.Rel\<close> for paths that are both absolute.\<close>

definition go_rel :: "string \<Rightarrow> string \<Rightarrow> string option" where
  "go_rel base target =
     (let b = go_clean base; t = go_clean target; n = common_elems (path_elems b) (path_elems t)
      in if t = b then Some ''.''
         else if is_abs b \<noteq> is_abs t then None
         else Some (go_join ''/'' (replicate (length (path_elems b) - n) ''..'' @ drop n (path_elems t))))"

lemma common_elems_le: "common_elems xs ys \<le> length xs"
  by (induction xs ys rule: common_elems.induct) auto

lemma common_elems_prefix: "common_elems xs ys = length xs \<Longrightarrow> prefix xs ys"
  by (induction xs ys rule: common_elems.induct) (auto split: if_splits)

text \<open>A relative path that does not begin with two dots leads downwards.\<close>

lemma go_rel_below:
  assumes "go_rel base target = Some rel" and "take 2 rel \<noteq> ''..''"
  shows "prefix (path_elems (go_clean base)) (path_elems (go_clean target))"
proof (cases "go_clean target = go_clean base")
  case False
  let ?b = "path_elems (go_clean base)" and ?t = "path_elems (go_clean target)"
  let ?n = "common_elems ?b ?t"
  have rel: "rel = go_join ''/'' (replicate (length ?b - ?n) ''..'' @ drop ?n ?t)"
    using assms(1) False by (auto simp: go_rel_def Let_def split: if_splits)
  have "length ?b - ?n = 0"
  proof (rule ccontr)
    assume "length ?b - ?n \<noteq> 0"
    then obtain m where m: "length ?b - ?n = Suc m" by (cases "length ?b - ?n") auto
    then have "take 2 rel = ''..''"
      unfolding rel m by (cases "replicate m ''..'' @ drop ?n ?t") (auto simp: numeral_2_eq_2)
    then show False using assms(2) by simp
  qed
  then have "?n = length ?b" using common_elems_le[of ?b ?t] by simp
  then show ?thesis by (rule common_elems_prefix)
qed simp

section \<open>The writer\<close>

text \<open>The calls of the file system: a directory made to exist, a file opened for writing and an object encoded into it.\<close>

record 'w file_system =
  wf_ensure :: "string \<Rightarrow> 'w \<Rightarrow> string option \<times> 'w"
  wf_open :: "string \<Rightarrow> 'w \<Rightarrow> string option \<times> 'w"
  wf_encode :: "string \<Rightarrow> uobj \<Rightarrow> 'w \<Rightarrow> string option \<times> 'w"

datatype write_error =
    NamerFailed string | AbsoluteName string | EscapesRoot string | EnsureFailed string | OpenFailed string | EncodeFailed string

text \<open>What happened, in order: files opened and the two callbacks.\<close>

datatype write_event = Opened string | OnWritten string resource | OnWriteError resource write_error

record 'w fs_writer =
  fw_path :: string
  fw_namer :: "resource \<Rightarrow> string + string"
  fw_stop :: bool
  fw_fs :: "'w file_system"
  fw_cwd :: string

definition writer_root :: "'w fs_writer \<Rightarrow> string" where
  "writer_root wr = go_abs (fw_cwd wr) (fw_path wr)"

text \<open>Where a resource goes: its absolute path and the one relative to the root.\<close>

definition resolve_target :: "'w fs_writer \<Rightarrow> resource \<Rightarrow> write_error + string \<times> string" where
  "resolve_target wr r =
     (case fw_namer wr r of
        Inl e \<Rightarrow> Inl (NamerFailed e)
      | Inr filename \<Rightarrow>
          if is_abs filename then Inl (AbsoluteName filename)
          else (let root = writer_root wr; target = go_abs (fw_cwd wr) (go_path_join root filename)
                in case go_rel root target of
                     None \<Rightarrow> Inl (EscapesRoot filename)
                   | Some rel \<Rightarrow>
                       if take 2 rel = ''..'' \<or> rel = ''..'' then Inl (EscapesRoot filename)
                       else Inr (target, rel)))"

definition writeSingle :: "'w fs_writer \<Rightarrow> resource \<Rightarrow> 'w \<Rightarrow> write_error option \<times> write_event list \<times> 'w" where
  "writeSingle wr r w =
     (case resolve_target wr r of
        Inl e \<Rightarrow> (Some e, [], w)
      | Inr (target, rel) \<Rightarrow>
          (case wf_ensure (fw_fs wr) (go_dir target) w of
             (Some e, w1) \<Rightarrow> (Some (EnsureFailed e), [], w1)
           | (None, w1) \<Rightarrow>
               (case wf_open (fw_fs wr) target w1 of
                  (Some e, w2) \<Rightarrow> (Some (OpenFailed e), [Opened target], w2)
                | (None, w2) \<Rightarrow>
                    (case wf_encode (fw_fs wr) target (res_obj r) w2 of
                       (Some e, w3) \<Rightarrow> (Some (EncodeFailed e), [Opened target], w3)
                     | (None, w3) \<Rightarrow>
                         (None, [Opened target, OnWritten (go_path_join (fw_path wr) rel) r], w3)))))"

fun write_all :: "'w fs_writer \<Rightarrow> resource list \<Rightarrow> 'w \<Rightarrow> write_error option \<times> write_event list \<times> 'w" where
  "write_all wr [] w = (None, [], w)"
| "write_all wr (r # rs) w =
     (case writeSingle wr r w of
        (Some e, evs, w1) \<Rightarrow>
          if fw_stop wr then (Some e, evs, w1)
          else (case write_all wr rs w1 of (err, evs', w2) \<Rightarrow> (err, evs @ OnWriteError r e # evs', w2))
      | (None, evs, w1) \<Rightarrow> (case write_all wr rs w1 of (err, evs', w2) \<Rightarrow> (err, evs @ evs', w2)))"

definition Write :: "'w fs_writer \<Rightarrow> nat list \<Rightarrow> resources \<Rightarrow> 'w \<Rightarrow> write_error option \<times> write_event list \<times> 'w" where
  "Write wr cs coll w =
     (if coll = [] then (None, [], w)
      else (case wf_ensure (fw_fs wr) (fw_path wr) w of
              (Some e, w1) \<Rightarrow> (Some (EnsureFailed e), [], w1)
            | (None, w1) \<Rightarrow> write_all wr (AsList cs coll) w1))"

definition below_root :: "'w fs_writer \<Rightarrow> string \<Rightarrow> bool" where
  "below_root wr p \<longleftrightarrow> prefix (path_elems (go_clean (writer_root wr))) (path_elems (go_clean p))"

fun event_resource :: "write_event \<Rightarrow> resource option" where
  "event_resource (OnWritten p r) = Some r"
| "event_resource (OnWriteError r e) = Some r"
| "event_resource (Opened p) = None"

lemma resolve_target_below: "resolve_target wr r = Inr (target, rel) \<Longrightarrow> below_root wr target"
  by (auto simp: resolve_target_def below_root_def Let_def intro: go_rel_below
      split: sum.splits if_splits option.splits)

lemma writeSingle_events:
  assumes "writeSingle wr r w = (err, evs, w')"
  shows "\<forall>p. Opened p \<in> set evs \<longrightarrow> below_root wr p"
    and "collect_some event_resource evs = (if err = None then [r] else [])"
  using assms resolve_target_below[of wr r]
  by (auto simp: writeSingle_def split: sum.splits prod.splits option.splits)

lemma write_all_events:
  "write_all wr rs w = (err, evs, w') \<Longrightarrow>
   (\<forall>p. Opened p \<in> set evs \<longrightarrow> below_root wr p) \<and>
   (err = None \<longrightarrow> collect_some event_resource evs = rs) \<and>
   (err \<noteq> None \<longrightarrow> fw_stop wr \<and> strict_prefix (collect_some event_resource evs) rs)"
proof (induction rs arbitrary: w err evs w')
  case (Cons r rs)
  obtain e1 ev1 w1 where s: "writeSingle wr r w = (e1, ev1, w1)" by (metis prod_cases3)
  obtain e2 ev2 w2 where a: "write_all wr rs w1 = (e2, ev2, w2)" by (metis prod_cases3)
  note one = writeSingle_events[OF s]
  show ?case
  proof (cases e1)
    case None
    then have "err = e2" and "evs = ev1 @ ev2" using Cons.prems s a by auto
    then show ?thesis using one Cons.IH[OF a] None by (auto simp: strict_prefix_def)
  next
    case (Some e)
    show ?thesis
    proof (cases "fw_stop wr")
      case True
      then show ?thesis using Cons.prems s Some one by (auto simp: strict_prefix_def)
    next
      case False
      then have "err = e2" and "evs = ev1 @ OnWriteError r e # ev2" using Cons.prems s a Some by auto
      then show ?thesis using one Cons.IH[OF a] Some False by (auto simp: strict_prefix_def)
    qed
  qed
qed simp

text \<open>C13. The writer opens files below its root only, whatever names the namer gives. Without an error it reports each
  resource once, in order, as written or as failed; it ends with an error only when the root cannot be made or it is
  to stop on errors, and then what it reported is a proper prefix.\<close>

theorem Write_contained:
  assumes "Write wr cs coll w = (err, evs, w')"
  shows "(\<forall>p. Opened p \<in> set evs \<longrightarrow> below_root wr p) \<and>
    (err = None \<longrightarrow> collect_some event_resource evs = AsList cs coll) \<and>
    (err \<noteq> None \<longrightarrow> evs = [] \<or> fw_stop wr \<and> strict_prefix (collect_some event_resource evs) (AsList cs coll))"
proof (cases "coll = []")
  case True
  then show ?thesis using assms by (simp add: Write_def AsList_def)
next
  case False
  obtain e0 w0 where "wf_ensure (fw_fs wr) (fw_path wr) w = (e0, w0)" by (metis surj_pair)
  then show ?thesis
    using assms False write_all_events[of wr "AsList cs coll" w0 err evs w']
    by (cases e0) (auto simp: Write_def)
qed

definition sample_file_system :: "unit file_system" where
  "sample_file_system = \<lparr>wf_ensure = (\<lambda>p w. (None, w)), wf_open = (\<lambda>p w. (None, w)), wf_encode = (\<lambda>p u w. (None, w))\<rparr>"

definition sample_writer :: "unit fs_writer" where
  "sample_writer = \<lparr>fw_path = ''out'', fw_namer = (\<lambda>r. Inr (res_name r)), fw_stop = False,
     fw_fs = sample_file_system, fw_cwd = ''/w''\<rparr>"

lemma Write_contained_witness:
  "Write sample_writer [] (NewResources [sample_resource ''ns'' ''../x'', sample_resource ''ns'' ''d/y.json'']) () =
     (None, [OnWriteError (sample_resource ''ns'' ''../x'') (EscapesRoot ''../x''), Opened ''/w/out/d/y.json'',
        OnWritten ''out/d/y.json'' (sample_resource ''ns'' ''d/y.json'')], ()) \<and>
   below_root sample_writer ''/w/out/d/y.json''"
proof -
  have "Write sample_writer [] (NewResources [sample_resource ''ns'' ''../x'', sample_resource ''ns'' ''d/y.json'']) () =
     (None, [OnWriteError (sample_resource ''ns'' ''../x'') (EscapesRoot ''../x''), Opened ''/w/out/d/y.json'',
        OnWritten ''out/d/y.json'' (sample_resource ''ns'' ''d/y.json'')], ())"
    by code_simp
  from this Write_contained[OF this] show ?thesis by simp
qed

section \<open>The reader\<close>

text \<open>
  A reader with its dependencies: the registries, the contents of files, the decoders of the two formats and the accessor of the
  Grafana library, which may reject an object. \<open>fr_warn\<close> tells whether there is a writer for warnings.
\<close>

datatype file_format = FormatJSON | FormatYAML

record 'f reader =
  fr_stop :: bool
  fr_warn :: bool
  fr_registry :: gvk_registry
  fr_registrations :: "'f registration list"
  fr_filters :: "filter_rec list"
  fr_contents :: "string \<Rightarrow> string + string"
  fr_decode :: "file_format \<Rightarrow> string \<Rightarrow> string + uobj"
  fr_accessor :: "uobj \<Rightarrow> string option"

datatype read_error =
  UnrecognisedFormat string | FileUnreadable string | ParseFailed string string | NoAccessor string

definition decoderForFormat :: "string \<Rightarrow> read_error + file_format" where
  "decoderForFormat input =
     (if input = ''json'' then Inr FormatJSON
      else if input = ''yaml'' \<or> input = ''yml'' then Inr FormatYAML
      else Inl (UnrecognisedFormat input))"

text \<open>The resource of a decoded object; its pointer is told apart from others when it is used.\<close>

definition readRaw :: "'f reader \<Rightarrow> file_format \<Rightarrow> string \<Rightarrow> string \<Rightarrow> read_error + resource" where
  "readRaw fr fmt data path =
     (case fr_decode fr fmt data of
        Inl e \<Rightarrow> Inl (ParseFailed path e)
      | Inr u \<Rightarrow>
          (case fr_accessor fr u of
             Some e \<Rightarrow> Inl (NoAccessor e)
           | None \<Rightarrow> Inr \<lparr>res_id = 0, res_empty = False, res_obj = u, res_source = path\<rparr>))"

definition ReadFile :: "'f reader \<Rightarrow> string \<Rightarrow> read_error + resource" where
  "ReadFile fr path =
     (case decoderForFormat (case go_ext path of [] \<Rightarrow> [] | d # e \<Rightarrow> e) of
        Inl e \<Rightarrow> Inl e
      | Inr fmt \<Rightarrow>
          (case fr_contents fr path of
             Inl e \<Rightarrow> Inl (FileUnreadable e)
           | Inr data \<Rightarrow> readRaw fr fmt data path))"

definition ReadBytes :: "'f reader \<Rightarrow> resources \<Rightarrow> string \<Rightarrow> string \<Rightarrow> read_error option \<times> resources" where
  "ReadBytes fr dst raw inputFormat =
     (case decoderForFormat inputFormat of
        Inl e \<Rightarrow> (Some e, dst)
      | Inr fmt \<Rightarrow>
          (case readRaw fr fmt raw [] of
             Inl e \<Rightarrow> (Some e, dst)
           | Inr r \<Rightarrow> (None, Add1 r dst)))"

text \<open>The warning about several documents in one file asks this of its contents.\<close>

definition hasMultipleYAMLDocuments :: "string \<Rightarrow> bool" where
  "hasMultipleYAMLDocuments data \<longleftrightarrow>
     (\<exists>line \<in> set (go_split (char_of (10 :: nat)) data). go_trim_space line = ''---'')"

text \<open>A single document that starts with its separator counts as several.\<close>

lemma one_document_counts_as_several: "hasMultipleYAMLDocuments ''---\<newline>kind: Folder''"
  by code_simp

subsection \<open>The walk\<close>

datatype walk_item = WalkDirectory string | WalkFile string | WalkFailed string string

datatype path_input = StatFailed string string | IsFile string | IsDirectory "walk_item list"

datatype read_failure = PathFailure string string | FileFailure string read_error

text \<open>Each walk returns the files found, the errors the listeners hear of, and the error it ends with.\<close>

fun walk_items :: "bool \<Rightarrow> walk_item list \<Rightarrow> string list \<times> read_failure list \<times> read_failure option" where
  "walk_items stop [] = ([], [], None)"
| "walk_items stop (WalkDirectory p # items) = walk_items stop items"
| "walk_items stop (WalkFile p # items) =
     (case walk_items stop items of (files, notes, err) \<Rightarrow> (p # files, notes, err))"
| "walk_items stop (WalkFailed p e # items) =
     (if stop then ([], [], Some (PathFailure p e))
      else (case walk_items stop items of (files, notes, err) \<Rightarrow> (files, PathFailure p e # notes, err)))"

fun walk_paths :: "bool \<Rightarrow> path_input list \<Rightarrow> string list \<times> read_failure list \<times> read_failure option" where
  "walk_paths stop [] = ([], [], None)"
| "walk_paths stop (StatFailed p e # inputs) =
     (if stop then ([], [], Some (PathFailure p e))
      else (case walk_paths stop inputs of (files, notes, err) \<Rightarrow> (files, PathFailure p e # notes, err)))"
| "walk_paths stop (IsFile p # inputs) =
     (case walk_paths stop inputs of (files, notes, err) \<Rightarrow> (p # files, notes, err))"
| "walk_paths stop (IsDirectory items # inputs) =
     (case walk_items stop items of
        (files, notes, Some e) \<Rightarrow> (files, notes, Some e)
      | (files, notes, None) \<Rightarrow>
          (case walk_paths stop inputs of (files', notes', err) \<Rightarrow> (files @ files', notes @ notes', err)))"

subsection \<open>The results\<close>

text \<open>What the listeners and the writer for warnings are told.\<close>

datatype notice =
    Failed_to_read read_failure
  | DeprecatedResource resource_ref "string \<times> string" "string \<times> string" string
  | DuplicatedResource resource_ref "string list" string

datatype reader_warning = WarnDeprecated "string \<times> string" "string \<times> string" | WarnDuplicate string string

record read_state =
  rd_dst :: resources
  rd_idx :: "(resource_ref \<times> string) list"
  rd_warned :: "(string \<times> string) list"
  rd_notices :: "notice list"
  rd_warnings :: "reader_warning list"
  rd_next :: nat

definition gvk_gv :: "group_version_kind \<Rightarrow> string \<times> string" where
  "gvk_gv g = (gvk_group g, gvk_version g)"

definition warn :: "'f reader \<Rightarrow> reader_warning \<Rightarrow> read_state \<Rightarrow> read_state" where
  "warn fr x st = (if fr_warn fr then st\<lparr>rd_warnings := rd_warnings st @ [x]\<rparr> else st)"

definition note_deprecated :: "'f reader \<Rightarrow> string \<Rightarrow> resource \<Rightarrow> read_state \<Rightarrow> read_state" where
  "note_deprecated fr path r st =
     (let gvk = res_gvk r; target = NormalizeGVK (fr_registry fr) gvk
      in if MatchesGroupAlias (fr_registry fr) target (gvk_group gvk)
         then (let st1 = (if fr_warn fr \<and> gvk_gv gvk \<notin> set (rd_warned st)
                          then (warn fr (WarnDeprecated (gvk_gv gvk) (gvk_gv target)) st)\<lparr>rd_warned := gvk_gv gvk # rd_warned st\<rparr>
                          else st)
               in st1\<lparr>rd_notices := rd_notices st1 @ [DeprecatedResource (Ref r) (gvk_gv gvk) (gvk_gv target) path]\<rparr>)
         else st)"

text \<open>A result is taken: kept beside its duplicates, dropped as a duplicate, or added.\<close>

definition take_result :: "'f reader \<Rightarrow> string \<times> resource \<Rightarrow> read_state \<Rightarrow> read_state" where
  "take_result fr res st =
     (let path = fst res; r = (snd res)\<lparr>res_id := rd_next st\<rparr>;
          st1 = (note_deprecated fr path r st)\<lparr>rd_next := Suc (rd_next st)\<rparr>
      in if RetainsLocalDuplicates (fr_registry fr) (fr_registrations fr) (res_gvk r)
         then (case AddDistinct r (rd_dst st1) of None \<Rightarrow> st1 | Some dst \<Rightarrow> st1\<lparr>rd_dst := dst\<rparr>)
         else (case map_of (rd_idx st1) (Ref r) of
                 Some previous \<Rightarrow>
                   (let st2 = warn fr (WarnDuplicate path previous) st1
                    in st2\<lparr>rd_notices := rd_notices st2 @ [DuplicatedResource (Ref r) [previous, path] path]\<rparr>)
               | None \<Rightarrow>
                   st1\<lparr>rd_idx := AList.update (Ref r) path (rd_idx st1), rd_dst := Add1 r (rd_dst st1)\<rparr>))"

definition matched_results :: "'f reader \<Rightarrow> string list \<Rightarrow> (string \<times> resource) list" where
  "matched_results fr files =
     collect_some (\<lambda>p. case ReadFile fr p of
        Inl e \<Rightarrow> None
      | Inr r \<Rightarrow>
          if Filters_Matches (fr_registry fr) (fr_filters fr) (res_gvk r) (res_name r) then Some (p, r) else None) files"

definition file_failures :: "'f reader \<Rightarrow> string list \<Rightarrow> read_failure list" where
  "file_failures fr files =
     collect_some (\<lambda>p. case ReadFile fr p of Inl e \<Rightarrow> Some (FileFailure p e) | Inr r \<Rightarrow> None) files"

text \<open>
  The reading of all paths. The schedule \<open>cs\<close> orders the results, which concurrent readers
  deliver; when the reading stops on an error only some of them, \<open>sent\<close>, have been delivered, and
  \<open>pick\<close> says which of the errors came first. The context is not cancelled.
\<close>

definition Read ::
  "'f reader \<Rightarrow> nat list \<Rightarrow> nat \<Rightarrow> nat \<Rightarrow> path_input list \<Rightarrow> read_state \<Rightarrow> read_failure option \<times> read_state" where
  "Read fr cs sent pick inputs st =
     (if inputs = [] then (None, st)
      else (let (files, notes, err) = walk_paths (fr_stop fr) inputs;
                failures = file_failures fr files;
                results = go_range cs (matched_results fr files);
                errors = (case err of None \<Rightarrow> [] | Some e \<Rightarrow> [e]) @ (if fr_stop fr then failures else []);
                heard = notes @ (if fr_stop fr then [] else failures);
                st1 = st\<lparr>rd_notices := rd_notices st @ map Failed_to_read heard\<rparr>
            in if errors = [] then (None, fold (take_result fr) results st1)
               else (Some (errors ! (pick mod length errors)), fold (take_result fr) (take sent results) st1)))"

definition fresh_read :: read_state where
  "fresh_read = \<lparr>rd_dst = [], rd_idx = [], rd_warned = [], rd_notices = [], rd_warnings = [], rd_next = 1\<rparr>"

definition is_duplicate :: "notice \<Rightarrow> bool" where
  "is_duplicate n = (case n of DuplicatedResource ref fs p \<Rightarrow> True | _ \<Rightarrow> False)"

section \<open>What reading gives\<close>


lemma ReadFile_Inr:
  assumes "ReadFile fr p = Inr r"
  shows "res_source r = p" and "p \<noteq> []" and "res_id r = 0" and "\<not> res_empty r"
proof -
  have "ReadFile fr [] = Inl (UnrecognisedFormat [])"
    by (simp add: ReadFile_def go_ext_def go_cut_last_def decoderForFormat_def)
  then show "p \<noteq> []" using assms by auto
  show "res_source r = p" "res_id r = 0" "\<not> res_empty r"
    using assms by (auto simp: ReadFile_def readRaw_def split: sum.splits option.splits)
qed

text \<open>References of resources with a path do not depend on the pointer, and resources that share one have the same type or path.\<close>

lemma Ref_pointer [simp]: "res_source r \<noteq> [] \<Longrightarrow> Ref (r\<lparr>res_id := n\<rparr>) = Ref r"
  by (simp add: Ref_def res_name_def res_gvk_def res_namespace_def split: sum.split)

lemma Ref_same:
  assumes "Ref r = Ref r'" and "res_source r \<noteq> []"
  shows "res_gvk r = res_gvk r' \<or> res_source r = res_source r'"
  using assms by (auto simp: Ref_def split: if_splits sum.splits)

lemma Ref_not_distinct: "Ref r \<noteq> RefDistinct ref n"
  by (auto simp: Ref_def split: if_splits sum.splits)

text \<open>The state after the results \<open>done\<close>: each is kept or its duplicate notice names the file that is kept.\<close>

definition kept :: "read_state \<Rightarrow> string \<Rightarrow> resource \<Rightarrow> bool" where
  "kept st p r \<longleftrightarrow> (\<exists>x \<in> snd ` set (rd_dst st). res_source x = p \<and> res_obj x = res_obj r)"

definition named_duplicate :: "read_state \<Rightarrow> string \<Rightarrow> resource \<Rightarrow> bool" where
  "named_duplicate st p r \<longleftrightarrow>
     (\<exists>x \<in> snd ` set (rd_dst st). Ref x = Ref r \<and>
        DuplicatedResource (Ref r) [res_source x, p] p \<in> set (rd_notices st))"

definition entry_ok :: "'f reader \<Rightarrow> read_state \<Rightarrow> resource_ref \<Rightarrow> resource \<Rightarrow> bool" where
  "entry_ok fr st key x \<longleftrightarrow>
     ReadFile fr (res_source x) = Inr (x\<lparr>res_id := 0\<rparr>) \<and>
     (if RetainsLocalDuplicates (fr_registry fr) (fr_registrations fr) (res_gvk x)
      then key = Ref x \<or> (\<exists>n. key = RefDistinct (Ref x) n)
      else key = Ref x \<and> Ref x \<in> keys_of (rd_idx st))"

definition indexed :: "read_state \<Rightarrow> resource_ref \<Rightarrow> string \<Rightarrow> bool" where
  "indexed st ref p \<longleftrightarrow> (\<exists>x \<in> snd ` set (rd_dst st). Ref x = ref \<and> res_source x = p)"

definition read_inv :: "'f reader \<Rightarrow> (string \<times> resource) list \<Rightarrow> read_state \<Rightarrow> bool" where
  "read_inv fr results st \<longleftrightarrow>
     length (rd_dst st) + length (filter is_duplicate (rd_notices st)) = length results \<and>
     (\<forall>p r. (p, r) \<in> set results \<longrightarrow> kept st p r \<or> named_duplicate st p r) \<and>
     (\<forall>ref p. (ref, p) \<in> set (rd_idx st) \<longrightarrow> indexed st ref p) \<and>
     (\<forall>key x. (key, x) \<in> set (rd_dst st) \<longrightarrow> entry_ok fr st key x)"

lemma entry_ok_mono:
  "entry_ok fr st k x \<Longrightarrow> keys_of (rd_idx st) \<subseteq> keys_of (rd_idx st') \<Longrightarrow> entry_ok fr st' k x"
  unfolding entry_ok_def by (cases "RetainsLocalDuplicates (fr_registry fr) (fr_registrations fr) (res_gvk x)") auto

lemma note_deprecated_keeps [simp]:
  "rd_dst (note_deprecated fr p r st) = rd_dst st" "rd_idx (note_deprecated fr p r st) = rd_idx st"
  "rd_next (note_deprecated fr p r st) = rd_next st"
  "filter is_duplicate (rd_notices (note_deprecated fr p r st)) = filter is_duplicate (rd_notices st)"
  by (auto simp: note_deprecated_def warn_def Let_def is_duplicate_def)

lemma note_deprecated_grows: "x \<in> set (rd_notices st) \<Longrightarrow> x \<in> set (rd_notices (note_deprecated fr p r st))"
  by (auto simp: note_deprecated_def warn_def Let_def)

lemma warn_keeps [simp]:
  "rd_dst (warn fr x st) = rd_dst st" "rd_idx (warn fr x st) = rd_idx st" "rd_notices (warn fr x st) = rd_notices st"
  by (simp_all add: warn_def)

text \<open>What taking one result does, case by case.\<close>

lemma take_result_cases:
  assumes "ReadFile fr p = Inr r"
  obtains key x where "x = r\<lparr>res_id := rd_next st\<rparr>"
    "rd_dst (take_result fr (p, r) st) = AList.update key x (rd_dst st)"
    "RetainsLocalDuplicates (fr_registry fr) (fr_registrations fr) (res_gvk r)"
    "map_of (rd_dst st) key = None" "key = Ref r \<or> (\<exists>n. key = RefDistinct (Ref r) n)"
    "rd_idx (take_result fr (p, r) st) = rd_idx st"
    "filter is_duplicate (rd_notices (take_result fr (p, r) st)) = filter is_duplicate (rd_notices st)"
  | previous where "map_of (rd_idx st) (Ref r) = Some previous"
    "rd_dst (take_result fr (p, r) st) = rd_dst st" "rd_idx (take_result fr (p, r) st) = rd_idx st"
    "DuplicatedResource (Ref r) [previous, p] p \<in> set (rd_notices (take_result fr (p, r) st))"
    "length (filter is_duplicate (rd_notices (take_result fr (p, r) st))) = Suc (length (filter is_duplicate (rd_notices st)))"
  | x where "x = r\<lparr>res_id := rd_next st\<rparr>" "map_of (rd_idx st) (Ref r) = None"
    "\<not> RetainsLocalDuplicates (fr_registry fr) (fr_registrations fr) (res_gvk r)"
    "rd_dst (take_result fr (p, r) st) = AList.update (Ref r) x (rd_dst st)"
    "rd_idx (take_result fr (p, r) st) = AList.update (Ref r) p (rd_idx st)"
    "filter is_duplicate (rd_notices (take_result fr (p, r) st)) = filter is_duplicate (rd_notices st)"
proof -
  let ?x = "r\<lparr>res_id := rd_next st\<rparr>"
  have ref: "Ref ?x = Ref r" and gvk: "res_gvk ?x = res_gvk r"
    using ReadFile_Inr[OF assms] by (simp_all add: res_gvk_def)
  show thesis
  proof (cases "RetainsLocalDuplicates (fr_registry fr) (fr_registrations fr) (res_gvk r)")
    case True
    obtain key where key: "AddDistinct ?x (rd_dst st) = Some (AList.update key ?x (rd_dst st))"
      "map_of (rd_dst st) key = None" "fresh_key (length (rd_dst st) + 2) (rd_dst st) (Ref ?x) (Ref ?x) 1 = Some key"
      using AddDistinct_fresh by blast
    then have "key = Ref r \<or> (\<exists>n. key = RefDistinct (Ref r) n)" using fresh_key_cases[OF key(3)] ref by simp
    then show thesis using that(1)[of ?x key] True key gvk by (simp add: take_result_def Let_def)
  next
    case False
    show thesis
    proof (cases "map_of (rd_idx st) (Ref r)")
      case None
      then show thesis using that(3)[of ?x] False ref gvk by (simp add: take_result_def Let_def Add1_def)
    next
      case (Some previous)
      then show thesis using that(2)[of previous] False ref gvk
        by (simp add: take_result_def Let_def is_duplicate_def)
    qed
  qed
qed

text \<open>A new key leaves the collection a prefix of the grown one; in the third case the key is new as well.\<close>

lemma read_inv_unused:
  assumes "read_inv fr results st" and "ReadFile fr p = Inr r"
    and "map_of (rd_idx st) (Ref r) = None"
    and "\<not> RetainsLocalDuplicates (fr_registry fr) (fr_registrations fr) (res_gvk r)"
  shows "map_of (rd_dst st) (Ref r) = None"
proof (rule ccontr)
  assume "map_of (rd_dst st) (Ref r) \<noteq> None"
  then obtain x where x: "(Ref r, x) \<in> set (rd_dst st)" by (auto dest: map_of_SomeD)
  then have ok: "entry_ok fr st (Ref r) x" using assms(1) unfolding read_inv_def by blast
  note inv = ok[unfolded entry_ok_def, THEN conjunct1] ok[unfolded entry_ok_def, THEN conjunct2]
  have same: "Ref r = Ref x" using inv(2) Ref_not_distinct[of r "Ref x"] by (auto split: if_splits)
  then have "res_gvk r = res_gvk x \<or> res_source r = res_source x"
    using Ref_same[of r x] ReadFile_Inr[OF assms(2)] by simp
  then have "res_gvk r = res_gvk x"
    using inv(1) assms(2) ReadFile_Inr(1)[OF assms(2)] by (auto simp: res_gvk_def)
  then show False using inv(2) assms(3,4) same by (simp add: map_of_None_iff_keys)
qed

lemma take_result_grows: "set (rd_notices st) \<subseteq> set (rd_notices (take_result fr (p, r) st))"
  by (auto simp: take_result_def Let_def intro: note_deprecated_grows split: option.splits)

lemma kept_mono: "kept st p r \<Longrightarrow> set (rd_dst st) \<subseteq> set (rd_dst st') \<Longrightarrow> kept st' p r"
  unfolding kept_def by (meson image_mono subsetD)

lemma named_mono:
  "named_duplicate st p r \<Longrightarrow> set (rd_dst st) \<subseteq> set (rd_dst st') \<Longrightarrow>
   set (rd_notices st) \<subseteq> set (rd_notices st') \<Longrightarrow> named_duplicate st' p r"
  unfolding named_duplicate_def by (meson image_mono subsetD)

lemma read_inv_added:
  assumes inv: "read_inv fr results st" and read: "ReadFile fr p = Inr r" and x: "x = r\<lparr>res_id := n\<rparr>"
    and dst: "rd_dst st' = rd_dst st @ [(key, x)]"
    and idx: "rd_idx st' = rd_idx st @ (if b then [] else [(Ref r, p)])"
    and dups: "filter is_duplicate (rd_notices st') = filter is_duplicate (rd_notices st)"
    and more: "set (rd_notices st) \<subseteq> set (rd_notices st')"
    and b: "b \<longleftrightarrow> RetainsLocalDuplicates (fr_registry fr) (fr_registrations fr) (res_gvk r)"
    and key: "key = Ref r \<or> b \<and> (\<exists>m. key = RefDistinct (Ref r) m)"
  shows "read_inv fr (results @ [(p, r)]) st'"
proof -
  have r: "res_source x = p" "Ref x = Ref r" "res_gvk x = res_gvk r" "x\<lparr>res_id := 0\<rparr> = r" "res_obj x = res_obj r"
    using ReadFile_Inr[OF read] x by (simp_all add: res_gvk_def)
  have sub: "set (rd_dst st) \<subseteq> set (rd_dst st')" using dst by auto
  have new: "kept st' p r" "indexed st' (Ref r) p"
    using dst r unfolding kept_def indexed_def by (auto intro!: bexI[of _ x])
  have "indexed st ref q \<Longrightarrow> indexed st' ref q" for ref q
    unfolding indexed_def dst by auto
  then have "(ref, q) \<in> set (rd_idx st') \<Longrightarrow> indexed st' ref q" for ref q
    using inv idx new(2) by (auto simp: read_inv_def split: if_splits)
  moreover have "(q, s) \<in> set (results @ [(p, r)]) \<Longrightarrow> kept st' q s \<or> named_duplicate st' q s" for q s
    using inv new(1) kept_mono[OF _ sub, of q s] named_mono[OF _ sub more, of q s] by (auto simp: read_inv_def)
  moreover have "(k, y) \<in> set (rd_dst st') \<Longrightarrow> entry_ok fr st' k y" for k y
  proof -
    assume "(k, y) \<in> set (rd_dst st')"
    then consider "(k, y) \<in> set (rd_dst st)" | "k = key" "y = x" using dst by auto
    then show "entry_ok fr st' k y"
    proof cases
      case 1
      then have "entry_ok fr st k y" using inv unfolding read_inv_def by blast
      then show ?thesis by (rule entry_ok_mono) (use idx in \<open>auto simp: keys_of_def\<close>)
    next
      case 2
      then show ?thesis using r read b key idx by (cases b) (auto simp: entry_ok_def keys_of_def)
    qed
  qed
  ultimately show ?thesis using inv dst dups by (simp add: read_inv_def)
qed

lemma read_inv_dropped:
  assumes inv: "read_inv fr results st" and found: "map_of (rd_idx st) (Ref r) = Some previous"
    and same: "rd_dst st' = rd_dst st" "rd_idx st' = rd_idx st"
    and told: "DuplicatedResource (Ref r) [previous, p] p \<in> set (rd_notices st')"
    and dups: "length (filter is_duplicate (rd_notices st')) = Suc (length (filter is_duplicate (rd_notices st)))"
    and more: "set (rd_notices st) \<subseteq> set (rd_notices st')"
  shows "read_inv fr (results @ [(p, r)]) st'"
proof -
  have "indexed st (Ref r) previous" using inv map_of_SomeD[OF found] by (simp add: read_inv_def)
  then have "named_duplicate st' p r" using told same unfolding named_duplicate_def indexed_def by metis
  then have "(q, s) \<in> set (results @ [(p, r)]) \<Longrightarrow> kept st' q s \<or> named_duplicate st' q s" for q s
    using inv kept_mono[of st q s st'] named_mono[of st q s st'] same more by (auto simp: read_inv_def)
  moreover have "indexed st ref q \<Longrightarrow> indexed st' ref q" for ref q using same by (simp add: indexed_def)
  ultimately show ?thesis
    using inv dups entry_ok_mono[of fr st _ _ st'] unfolding read_inv_def same by simp
qed

lemma take_result_inv:
  assumes inv: "read_inv fr results st" and read: "ReadFile fr p = Inr r"
  shows "read_inv fr (results @ [(p, r)]) (take_result fr (p, r) st)"
  using read
proof (cases rule: take_result_cases[where st = st])
  case (1 key x)
  then show ?thesis
    by (intro read_inv_added[OF inv read 1(1), where b = True and key = key] take_result_grows)
      (auto simp: update_absent)
next
  case (2 previous)
  then show ?thesis by (intro read_inv_dropped[OF inv 2(1)] take_result_grows)
next
  case (3 x)
  have "map_of (rd_dst st) (Ref r) = None" by (rule read_inv_unused[OF inv read 3(2,3)])
  then show ?thesis using 3
    by (intro read_inv_added[OF inv read 3(1), where b = False and key = "Ref r"] take_result_grows)
      (auto simp: update_absent)
qed

lemma take_results_inv:
  "read_inv fr results st \<Longrightarrow> \<forall>(p, r) \<in> set rs. ReadFile fr p = Inr r \<Longrightarrow>
   read_inv fr (results @ rs) (fold (take_result fr) rs st) \<and>
   set (rd_notices st) \<subseteq> set (rd_notices (fold (take_result fr) rs st))"
proof (induction rs arbitrary: results st)
  case (Cons a rs)
  obtain p r where a: "a = (p, r)" by (cases a)
  then have "read_inv fr (results @ [(p, r)]) (take_result fr (p, r) st)"
    using take_result_inv[OF Cons.prems(1)] Cons.prems(2) by simp
  from Cons.IH[OF this] show ?case using Cons.prems(2) a take_result_grows[of st fr p r] by auto
qed simp

lemma matched_results_read: "(p, r) \<in> set (matched_results fr files) \<Longrightarrow> ReadFile fr p = Inr r"
proof -
  assume "(p, r) \<in> set (matched_results fr files)"
  then obtain x where "(case ReadFile fr x of Inl e \<Rightarrow> None
      | Inr r \<Rightarrow> if Filters_Matches (fr_registry fr) (fr_filters fr) (res_gvk r) (res_name r) then Some (x, r) else None) = Some (p, r)"
    unfolding matched_results_def in_collect_some by blast
  then show ?thesis by (cases "ReadFile fr x") (simp_all split: if_splits)
qed

text \<open>C22. Reading that ends without an error accounts for every file it found: the matching resources are as many as the
  collection and the duplicate notices together; each is in the collection, or a notice names it with the file of a
  resource of the collection that has the same reference; and every path or file that failed is told.\<close>

theorem Read_accounts:
  assumes "Read fr cs sent pick inputs fresh_read = (None, st)"
    and "walk_paths (fr_stop fr) inputs = (files, notes, err)"
  shows "length (rd_dst st) + length (filter is_duplicate (rd_notices st)) = length (matched_results fr files) \<and>
    (\<forall>(p, r) \<in> set (matched_results fr files). kept st p r \<or> named_duplicate st p r) \<and>
    Failed_to_read ` (set notes \<union> set (file_failures fr files)) \<subseteq> set (rd_notices st)"
proof -
  let ?heard = "notes @ (if fr_stop fr then [] else file_failures fr files)"
  let ?st = "fresh_read\<lparr>rd_notices := map Failed_to_read ?heard\<rparr>"
  let ?rs = "go_range cs (matched_results fr files)"
  have st: "st = fold (take_result fr) ?rs ?st" and none: "fr_stop fr \<Longrightarrow> file_failures fr files = []"
  proof -
    show "st = fold (take_result fr) ?rs ?st"
    proof (cases "inputs = []")
      case True
      then show ?thesis using assms by (auto simp: Read_def fresh_read_def matched_results_def file_failures_def)
    next
      case False
      then show ?thesis using assms by (auto simp: Read_def Let_def fresh_read_def split: if_splits)
    qed
    show "fr_stop fr \<Longrightarrow> file_failures fr files = []"
      using assms by (cases inputs) (auto simp: Read_def Let_def file_failures_def split: if_splits)
  qed
  have "filter is_duplicate (map Failed_to_read ?heard) = []" by (auto simp: filter_empty_conv is_duplicate_def)
  then have "read_inv fr [] ?st" by (simp add: read_inv_def fresh_read_def)
  moreover have read: "\<forall>(p, r) \<in> set ?rs. ReadFile fr p = Inr r" using matched_results_read by auto
  ultimately have inv: "read_inv fr ?rs st" and more: "set (rd_notices ?st) \<subseteq> set (rd_notices st)"
    using take_results_inv[of fr "[]" ?st ?rs] unfolding st by auto
  have "Failed_to_read ` (set notes \<union> set (file_failures fr files)) \<subseteq> set (rd_notices st)"
    using more none by (cases "fr_stop fr") auto
  then show ?thesis using inv unfolding read_inv_def by auto
qed

definition sample_reader :: "unit reader" where
  "sample_reader =
     \<lparr>fr_stop = False, fr_warn = True, fr_registry = empty_gvk_registry, fr_registrations = [], fr_filters = [],
      fr_contents = (\<lambda>p. if p = ''bad.json'' then Inl ''EOF'' else Inr ''x''),
      fr_decode = (\<lambda>f s. Inr (res_obj (sample_resource ''ns'' s))), fr_accessor = (\<lambda>u. None)\<rparr>"

definition sample_inputs :: "path_input list" where
  "sample_inputs =
     [IsFile ''a.json'', StatFailed ''gone'' ''no such file'',
      IsDirectory [WalkDirectory ''d'', WalkFile ''d/a.yml'', WalkFile ''bad.json'', WalkFile ''notes.txt'']]"

lemma Read_accounts_witness:
  "\<exists>st. Read sample_reader [1] 0 0 sample_inputs fresh_read = (None, st) \<and> length (rd_dst st) = 1 \<and>
     length (filter is_duplicate (rd_notices st)) = 1 \<and>
     Failed_to_read (FileFailure ''notes.txt'' (UnrecognisedFormat ''txt'')) \<in> set (rd_notices st)"
proof -
  let ?R = "Read sample_reader [1] 0 0 sample_inputs fresh_read"
  let ?files = "[''a.json'', ''d/a.yml'', ''bad.json'', ''notes.txt'']"
  have "fst ?R = None" by code_simp
  then have R: "?R = (None, snd ?R)" by (metis prod.collapse)
  have walk: "walk_paths (fr_stop sample_reader) sample_inputs = (?files, [PathFailure ''gone'' ''no such file''], None)"
    by code_simp
  have two: "length (matched_results sample_reader ?files) = 2" by code_simp
  have one: "length (rd_dst (snd ?R)) = 1" by code_simp
  have "FileFailure ''notes.txt'' (UnrecognisedFormat ''txt'') \<in> set (file_failures sample_reader ?files)"
    by code_simp
  then have "length (filter is_duplicate (rd_notices (snd ?R))) = 1 \<and>
     Failed_to_read (FileFailure ''notes.txt'' (UnrecognisedFormat ''txt'')) \<in> set (rd_notices (snd ?R))"
    using Read_accounts[OF R walk] two one by auto
  then show ?thesis using R one by blast
qed

end
