(* ===== verification/Gcx_LoginURL.thy ===== *)
theory Gcx_LoginURL
  imports Gcx_Paths "HOL-Library.Sublist"
begin

text \<open>
  The URLs of the browser login (\<^verbatim>\<open>auth/flow.go\<close> and \<^verbatim>\<open>auth/gcom.go\<close>): the hosts it trusts and the pages it opens, with
  the escaping of query strings. The lemmas show that the consent page reads back what the flow put into its URL.
\<close>

section \<open>Query strings\<close>

text \<open>\<^verbatim>\<open>url.QueryEscape\<close> and \<^verbatim>\<open>url.QueryUnescape\<close>, on bytes.\<close>

definition unreserved :: "char \<Rightarrow> bool" where
  "unreserved c \<longleftrightarrow> is_lower c \<or> is_upper c \<or> is_digit c \<or> c \<in> set ''-_.~''"

definition hex_digit :: "nat \<Rightarrow> char" where
  "hex_digit n = char_of (if n < 10 then 48 + n else 55 + n)"

definition hex_value :: "char \<Rightarrow> nat option" where
  "hex_value c =
     (let n = of_char c in
      if 48 \<le> n \<and> n \<le> 57 then Some (n - 48)
      else if 97 \<le> n \<and> n \<le> 102 then Some (n - 87)
      else if 65 \<le> n \<and> n \<le> 70 then Some (n - 55)
      else None)"

definition escape_char :: "char \<Rightarrow> string" where
  "escape_char c =
     (if unreserved c then [c]
      else if c = CHR '' '' then ''+''
      else [CHR ''%'', hex_digit (of_char c div 16), hex_digit (of_char c mod 16)])"

definition go_query_escape :: "string \<Rightarrow> string" where
  "go_query_escape s = concat (map escape_char s)"

fun go_query_unescape :: "string \<Rightarrow> string option" where
  "go_query_unescape [] = Some []"
| "go_query_unescape (c # s) =
     (if c = CHR ''%''
      then (case s of
              a # b # t \<Rightarrow>
                (case (hex_value a, hex_value b) of
                   (Some x, Some y) \<Rightarrow> map_option (Cons (char_of (x * 16 + y))) (go_query_unescape t)
                 | _ \<Rightarrow> None)
            | _ \<Rightarrow> None)
      else map_option (Cons (if c = CHR ''+'' then CHR '' '' else c)) (go_query_unescape s))"

type_synonym url_values = "(string \<times> string list) list"

definition query_get :: "url_values \<Rightarrow> string \<Rightarrow> string" where
  "query_get q key = (case map_of q key of Some (v # vs) \<Rightarrow> v | _ \<Rightarrow> [])"

text \<open>\<^verbatim>\<open>url.ParseQuery\<close>: the values, and whether some part was malformed.\<close>

definition parse_part :: "string \<Rightarrow> bool \<times> url_values \<Rightarrow> bool \<times> url_values" where
  "parse_part part acc =
     (if CHR '';'' \<in> set part then (True, snd acc)
      else if part = [] then acc
      else (case (case go_cut (CHR ''='') part of None \<Rightarrow> (part, []) | Some kv \<Rightarrow> kv) of
              (key, v) \<Rightarrow>
                (case (go_query_unescape key, go_query_unescape v) of
                   (Some k, Some x) \<Rightarrow> (fst acc, append_to k x (snd acc))
                 | _ \<Rightarrow> (True, snd acc))))"

definition go_parse_query :: "string \<Rightarrow> bool \<times> url_values" where
  "go_parse_query query = fold parse_part (go_split (CHR ''&'') query) (False, [])"

lemma hex_value_digit [simp]: "n < 16 \<Longrightarrow> hex_value (hex_digit n) = Some n"
  by (auto simp: hex_value_def hex_digit_def Let_def)

lemma unreserved_plain:
  "unreserved c \<Longrightarrow> c \<noteq> CHR ''%'' \<and> c \<noteq> CHR ''+'' \<and> c \<noteq> CHR ''&'' \<and> c \<noteq> CHR ''='' \<and> c \<noteq> CHR '';''"
  by (auto simp: unreserved_def is_lower_def is_upper_def is_digit_def)

lemma char_halves [simp]: "of_char c div 16 < (16 :: nat)"
  by (rule less_mult_imp_div_less) simp

lemma unescape_char: "go_query_unescape (escape_char c @ s) = map_option (Cons c) (go_query_unescape s)"
  using unreserved_plain[of c] by (auto simp: escape_char_def)

lemma unescape_escape [simp]: "go_query_unescape (go_query_escape s) = Some s"
  by (induction s) (simp_all add: go_query_escape_def unescape_char)

lemma unescape_plain: "\<forall>c \<in> set s. unreserved c \<Longrightarrow> go_query_unescape s = Some s"
  using unreserved_plain by (induction s) auto

lemma hex_digit_plain: "n < 16 \<Longrightarrow> unreserved (hex_digit n)"
  by (auto simp: hex_digit_def unreserved_def is_lower_def is_upper_def is_digit_def)

lemma escape_plain: "c \<in> set (go_query_escape s) \<Longrightarrow> unreserved c \<or> c = CHR ''%'' \<or> c = CHR ''+''"
  using hex_digit_plain by (auto simp: go_query_escape_def escape_char_def split: if_splits)

text \<open>A query built of plain keys and escaped values is read back.\<close>

definition query_pairs :: "(string \<Rightarrow> string) \<Rightarrow> (string \<times> string) list \<Rightarrow> string list" where
  "query_pairs enc kvs = map (\<lambda>(k, v). k @ ''='' @ enc v) kvs"

definition pairs_ok :: "(string \<Rightarrow> string) \<Rightarrow> (string \<times> string) list \<Rightarrow> bool" where
  "pairs_ok enc kvs \<longleftrightarrow>
     (\<forall>(k, v) \<in> set kvs. (\<forall>c \<in> set k. unreserved c) \<and>
        go_query_unescape (enc v) = Some v \<and> CHR '';'' \<notin> set (enc v) \<and> CHR ''&'' \<notin> set (enc v)) \<and>
     distinct (map fst kvs)"

lemma escape_pairs_ok:
  "pairs_ok go_query_escape kvs \<longleftrightarrow> (\<forall>(k, v) \<in> set kvs. \<forall>c \<in> set k. unreserved c) \<and> distinct (map fst kvs)"
  using escape_plain unreserved_plain by (fastforce simp: pairs_ok_def)

lemma parse_part_pair:
  assumes "\<forall>c \<in> set k. unreserved c" and "k \<notin> keys_of m"
    and "go_query_unescape w = Some v" and "CHR '';'' \<notin> set w"
  shows "parse_part (k @ ''='' @ w) (b, m) = (b, m @ [(k, [v])])"
proof -
  have "CHR '';'' \<notin> set (k @ ''='' @ w)"
    using assms(1,4) unreserved_plain by auto
  moreover have "go_cut (CHR ''='') (k @ CHR ''='' # w) = Some (k, w)"
    using assms(1) unreserved_plain by (intro go_cut_append) auto
  moreover have "append_to k v m = m @ [(k, [v])]"
    using assms(2) unfolding map_of_None_iff_keys[symmetric] by (simp add: append_to_def bucket_def update_absent)
  ultimately show ?thesis using unescape_plain[OF assms(1)] assms(3) by (simp add: parse_part_def)
qed

lemma parse_pairs:
  "pairs_ok enc kvs \<Longrightarrow> keys_of m \<inter> fst ` set kvs = {} \<Longrightarrow>
   fold parse_part (query_pairs enc kvs) (b, m) = (b, m @ map (\<lambda>(k, v). (k, [v])) kvs)"
proof (induction kvs arbitrary: m)
  case (Cons kv kvs)
  obtain k v where kv: "kv = (k, v)" by (cases kv)
  have "fold parse_part (query_pairs enc kvs) (b, m @ [(k, [v])]) = (b, (m @ [(k, [v])]) @ map (\<lambda>(k, v). (k, [v])) kvs)"
    using Cons.prems kv by (intro Cons.IH) (auto simp: keys_of_def pairs_ok_def)
  moreover have "parse_part (k @ ''='' @ enc v) (b, m) = (b, m @ [(k, [v])])"
    using Cons.prems kv by (intro parse_part_pair) (auto simp: pairs_ok_def)
  ultimately show ?case using kv by (simp add: query_pairs_def)
qed (simp add: query_pairs_def)

lemma split_pairs:
  assumes "kvs \<noteq> []" and "pairs_ok enc kvs"
  shows "go_split (CHR ''&'') (go_join ''&'' (query_pairs enc kvs)) = query_pairs enc kvs"
proof -
  have "CHR ''&'' \<notin> set p" if p: "p \<in> set (query_pairs enc kvs)" for p
  proof -
    obtain k v where "(k, v) \<in> set kvs" "p = k @ ''='' @ enc v" using p by (auto simp: query_pairs_def)
    then show ?thesis using assms(2) unreserved_plain by (fastforce simp: pairs_ok_def)
  qed
  then show ?thesis using assms(1) by (intro go_split_join) (auto simp: query_pairs_def)
qed

lemma parse_query_pairs:
  assumes "kvs \<noteq> []" and "pairs_ok enc kvs"
  shows "go_parse_query (go_join ''&'' (query_pairs enc kvs)) = (False, map (\<lambda>(k, v). (k, [v])) kvs)"
  using parse_pairs[OF assms(2), of "[]" False] by (simp add: go_parse_query_def split_pairs[OF assms])

section \<open>URLs and trusted hosts\<close>

text \<open>What the code reads of a parsed URL; the parser of \<^verbatim>\<open>net/url\<close> is a parameter of the model.\<close>

record go_url =
  gu_scheme :: string
  gu_user :: bool
  gu_host :: string
  gu_hostname :: string
  gu_path :: string
  gu_escaped_path :: string
  gu_query :: string
  gu_fragment :: string

type_synonym url_parser = "string \<Rightarrow> string + go_url"

datatype endpoint_error = MalformedURL string | NoHost | NotHTTPS string | UntrustedHost string

definition local_hosts :: "string list" where
  "local_hosts = [''localhost'', ''127.0.0.1'', ''::1'']"

definition allowedDomainSuffixes :: "string list" where
  "allowedDomainSuffixes = [''.grafana.net'', ''.grafana-dev.net'', ''.grafana-ops.net'']"

definition hasTrustedDomainSuffix :: "string \<Rightarrow> bool" where
  "hasTrustedDomainSuffix hostname \<longleftrightarrow> list_ex (\<lambda>suf. suffix suf hostname) allowedDomainSuffixes"

definition validate_host :: "(string \<Rightarrow> bool) \<Rightarrow> url_parser \<Rightarrow> string \<Rightarrow> endpoint_error option" where
  "validate_host trusted parse s =
     (case parse s of
        Inl e \<Rightarrow> Some (MalformedURL e)
      | Inr u \<Rightarrow>
          if gu_host u = [] then Some NoHost
          else if gu_hostname u \<in> set local_hosts then None
          else if gu_scheme u \<noteq> ''https'' then Some (NotHTTPS (gu_scheme u))
          else if trusted (gu_hostname u) then None
          else Some (UntrustedHost (gu_hostname u)))"

definition ValidateEndpointURL :: "url_parser \<Rightarrow> string \<Rightarrow> endpoint_error option" where
  "ValidateEndpointURL = validate_host hasTrustedDomainSuffix"

definition allowedGCOMHosts :: "string list" where
  "allowedGCOMHosts = [''grafana.com'', ''grafana-dev.com'', ''grafana-ops.com'']"

definition validateGCOMURL :: "url_parser \<Rightarrow> string \<Rightarrow> endpoint_error option" where
  "validateGCOMURL = validate_host (\<lambda>h. h \<in> set allowedGCOMHosts)"

datatype launch_error = LaunchUntrusted endpoint_error | LaunchMalformed string | LaunchNotOrigin string

definition ValidateLaunchOrigin :: "url_parser \<Rightarrow> string \<Rightarrow> launch_error option" where
  "ValidateLaunchOrigin parse origin =
     (case validateGCOMURL parse origin of
        Some e \<Rightarrow> Some (LaunchUntrusted e)
      | None \<Rightarrow>
          (case parse origin of
             Inl e \<Rightarrow> Some (LaunchMalformed e)
           | Inr u \<Rightarrow>
               if gu_user u \<or> (gu_path u \<noteq> [] \<and> gu_path u \<noteq> ''/'') \<or> gu_query u \<noteq> [] \<or> gu_fragment u \<noteq> []
               then Some (LaunchNotOrigin origin) else None))"

text \<open>\<^verbatim>\<open>stackLink\<close>: scheme and host of the link back to the stack.\<close>

definition stackLink :: "url_parser \<Rightarrow> string \<Rightarrow> (string \<times> string) option" where
  "stackLink parse instanceEndpoint =
     (case parse instanceEndpoint of
        Inl e \<Rightarrow> None
      | Inr u \<Rightarrow>
          if gu_scheme u \<noteq> ''https'' \<or> gu_user u \<or> \<not> hasTrustedDomainSuffix (gu_hostname u) then None
          else Some (gu_scheme u, gu_host u))"

text \<open>A local host, or a trusted host over TLS.\<close>

definition trusted_url :: "(string \<Rightarrow> bool) \<Rightarrow> url_parser \<Rightarrow> string \<Rightarrow> bool" where
  "trusted_url trusted parse s \<longleftrightarrow>
     (case parse s of
        Inl e \<Rightarrow> False
      | Inr u \<Rightarrow> gu_hostname u \<in> set local_hosts \<or> gu_scheme u = ''https'' \<and> trusted (gu_hostname u))"

lemma validate_host_trusted: "validate_host trusted parse s = None \<Longrightarrow> trusted_url trusted parse s"
  by (auto simp: validate_host_def trusted_url_def split: sum.splits if_splits)

section \<open>The page of the browser\<close>

record login_options =
  lo_Port :: nat
  lo_BindAddress :: string
  lo_Scopes :: "string list"
  lo_Manual :: bool
  lo_LaunchOrigin :: string
  lo_Signup :: bool
  lo_ReopenOnEnter :: bool

record login_flow =
  fl_endpoint :: string
  fl_opts :: login_options

definition defaultScopes :: "string list" where
  "defaultScopes = [''grafana-api:read'', ''grafana-api:write'', ''grafana-api:delete'', ''assistant:a2a'', ''assistant:chat'']"

definition NewFlow :: "string \<Rightarrow> login_options \<Rightarrow> login_flow" where
  "NewFlow endpoint opts =
     (let opts1 = (if lo_BindAddress opts = [] then opts\<lparr>lo_BindAddress := ''127.0.0.1''\<rparr> else opts);
          opts2 = (if lo_Scopes opts1 = [] then opts1\<lparr>lo_Scopes := defaultScopes\<rparr> else opts1)
      in \<lparr>fl_endpoint = endpoint, fl_opts = opts2\<rparr>)"

definition launchOrigin :: "login_flow \<Rightarrow> string" where
  "launchOrigin f =
     (if lo_LaunchOrigin (fl_opts f) = [] then ''https://grafana.com''
      else go_trim_suffix (lo_LaunchOrigin (fl_opts f)) ''/'')"

text \<open>The query of the consent page. \<open>hostname\<close> is the answer of \<^verbatim>\<open>os.Hostname\<close>, if any.\<close>

definition consent_query :: "string option \<Rightarrow> login_flow \<Rightarrow> nat \<Rightarrow> string \<Rightarrow> string \<Rightarrow> string" where
  "consent_query hostname f port state challenge =
     ''callback_port='' @ go_itoa port @ ''&state='' @ go_query_escape state
     @ ''&code_challenge='' @ go_query_escape challenge @ ''&code_challenge_method=S256''
     @ (if lo_Scopes (fl_opts f) \<noteq> [] then ''&scopes='' @ go_query_escape (go_join '','' (lo_Scopes (fl_opts f))) else [])
     @ (case hostname of
          None \<Rightarrow> [] | Some h \<Rightarrow> if h = [] then [] else ''&device_name='' @ go_query_escape h)"

definition launchWithStackSignIn :: "string \<Rightarrow> string \<Rightarrow> string" where
  "launchWithStackSignIn origin stackPath =
     origin @ ''/launch/set-redirect-and-login?url='' @ go_query_escape stackPath"

definition buildAuthURL :: "string option \<Rightarrow> login_flow \<Rightarrow> nat \<Rightarrow> string \<Rightarrow> string \<Rightarrow> string" where
  "buildAuthURL hostname f port state challenge =
     (let consent = ''/a/grafana-assistant-app/cli/auth?'' @ consent_query hostname f port state challenge;
          endpoint = go_trim_suffix (fl_endpoint f) ''/''
      in if endpoint \<noteq> [] then endpoint @ consent
         else if lo_Signup (fl_opts f) then launchWithStackSignIn (launchOrigin f) consent
         else launchOrigin f @ ''/launch'' @ consent)"

definition buildEntryURL :: "url_parser \<Rightarrow> login_flow \<Rightarrow> string \<Rightarrow> string" where
  "buildEntryURL parse f authURL =
     (if \<not> lo_Signup (fl_opts f) \<or> fl_endpoint f \<noteq> [] then authURL
      else (case parse authURL of
              Inl e \<Rightarrow> authURL
            | Inr u \<Rightarrow>
                launchOrigin f @ ''/auth/sign-up/create-user?to=''
                @ go_query_escape (gu_escaped_path u @ ''?'' @ gu_query u)))"

record gcom_options =
  go_ClientID :: string
  go_GCOMURL :: string
  go_Scopes :: "string list"
  go_Manual :: bool

definition NewGCOMFlow :: "gcom_options \<Rightarrow> gcom_options" where
  "NewGCOMFlow opts = (if go_GCOMURL opts = [] then opts\<lparr>go_GCOMURL := ''https://grafana.com''\<rparr> else opts)"

definition gcom_buildAuthURL :: "gcom_options \<Rightarrow> string \<Rightarrow> string \<Rightarrow> string \<Rightarrow> string" where
  "gcom_buildAuthURL opts redirectURI state challenge =
     go_trim_suffix (go_GCOMURL opts) ''/'' @ ''/oauth2/authorize?client_id='' @ go_query_escape (go_ClientID opts)
     @ ''&redirect_uri='' @ go_query_escape redirectURI @ ''&scope='' @ go_query_escape (go_join '' '' (go_Scopes opts))
     @ ''&code_challenge='' @ go_query_escape challenge @ ''&code_challenge_method=S256&state='' @ go_query_escape state
     @ ''&response_type=code''"

definition consent_pairs :: "string option \<Rightarrow> login_flow \<Rightarrow> nat \<Rightarrow> string \<Rightarrow> string \<Rightarrow> (string \<times> string) list" where
  "consent_pairs hostname f port state challenge =
     [(''callback_port'', go_itoa port), (''state'', state), (''code_challenge'', challenge), (''code_challenge_method'', ''S256'')]
     @ (if lo_Scopes (fl_opts f) \<noteq> [] then [(''scopes'', go_join '','' (lo_Scopes (fl_opts f)))] else [])
     @ (case hostname of None \<Rightarrow> [] | Some h \<Rightarrow> if h = [] then [] else [(''device_name'', h)])"

lemma escape_unreserved: "\<forall>c \<in> set s. unreserved c \<Longrightarrow> go_query_escape s = s"
  by (induction s) (simp_all add: go_query_escape_def escape_char_def)

lemma itoa_plain: "c \<in> set (go_itoa n) \<Longrightarrow> is_digit c"
proof (induction n rule: go_itoa.induct)
  case (1 n)
  have digit: "is_digit (char_of (48 + m))" if "m < 10" for m :: nat
    using that by (auto simp: is_digit_def)
  show ?case
  proof (cases "n < 10")
    case True
    then show ?thesis using 1(2) digit by (simp add: go_itoa.simps[of n])
  next
    case False
    then have "c \<in> set (go_itoa (n div 10)) \<or> c = char_of (48 + n mod 10)"
      using 1(2) by (auto simp: go_itoa.simps[of n])
    then show ?thesis using 1(1) False digit[of "n mod 10"] by auto
  qed
qed

lemma escape_itoa [simp]: "go_query_escape (go_itoa n) = go_itoa n"
  by (rule escape_unreserved) (auto simp: unreserved_def dest: itoa_plain)

lemma escape_S256 [simp]: "go_query_escape ''S256'' = ''S256''"
  by code_simp

lemma consent_query_pairs:
  "consent_query hostname f port state challenge = go_join ''&'' (query_pairs go_query_escape (consent_pairs hostname f port state challenge))"
  by (simp add: consent_query_def consent_pairs_def query_pairs_def split: option.split)

text \<open>The consent page reads back exactly what the flow put into the URL, whatever the scopes and the name of the host.\<close>

theorem consent_read_back:
  "go_parse_query (consent_query hostname f port state challenge) =
     (False, map (\<lambda>(k, v). (k, [v])) (consent_pairs hostname f port state challenge))"
proof -
  let ?kvs = "consent_pairs hostname f port state challenge"
  have keys: "map fst ?kvs = [''callback_port'', ''state'', ''code_challenge'', ''code_challenge_method'']
      @ (if lo_Scopes (fl_opts f) \<noteq> [] then [''scopes''] else [])
      @ (case hostname of None \<Rightarrow> [] | Some h \<Rightarrow> if h = [] then [] else [''device_name''])"
    by (simp add: consent_pairs_def split: option.split)
  have "list_all (list_all unreserved)
      [''callback_port'', ''state'', ''code_challenge'', ''code_challenge_method'', ''scopes'', ''device_name'']"
    by code_simp
  then have "list_all (list_all unreserved) (map fst ?kvs)" unfolding keys by (simp split: option.split)
  then have "\<forall>(k, v) \<in> set ?kvs. \<forall>c \<in> set k. unreserved c" by (auto simp: list_all_iff)
  moreover have "distinct (map fst ?kvs)" unfolding keys by (simp split: option.split)
  ultimately have "pairs_ok go_query_escape ?kvs" by (simp add: escape_pairs_ok)
  moreover have "?kvs \<noteq> []" by (simp add: consent_pairs_def)
  ultimately show ?thesis unfolding consent_query_pairs by (intro parse_query_pairs)
qed

subsection \<open>The route through the sign-up page\<close>

text \<open>That route may unescape the query once more. A name that then breaks out of its part cannot change an earlier one.\<close>

lemma unescape_append:
  "go_query_unescape a = Some x \<Longrightarrow> go_query_unescape (a @ b) = map_option ((@) x) (go_query_unescape b)"
proof (induction a arbitrary: x rule: go_query_unescape.induct)
  case (2 c s)
  show ?case
  proof (cases "c = CHR ''%''")
    case True
    then obtain y z t m n r where s: "s = y # z # t" "hex_value y = Some m" "hex_value z = Some n"
      "go_query_unescape t = Some r" "x = char_of (m * 16 + n) # r"
      using 2(3) by (auto split: list.splits option.splits)
    then show ?thesis using 2(1)[OF True s(1) refl refl s(2,3) s(4)] True
      by (cases "go_query_unescape b") auto
  next
    case False
    then obtain r where r: "go_query_unescape s = Some r" "x = (if c = CHR ''+'' then CHR '' '' else c) # r"
      using 2(3) by auto
    then show ?thesis using 2(2)[OF False r(1)] False by (cases "go_query_unescape b") auto
  qed
qed (cases "go_query_unescape b"; auto)

lemma go_split_at: "go_split c (a @ c # b) = go_split c a @ go_split c b"
proof (induction a)
  case (Cons x a)
  obtain p ps where "go_split c a = p # ps" by (metis go_split_neq_Nil neq_Nil_conv)
  then show ?case using Cons by (cases "x = c") auto
qed simp

lemma parse_part_keeps:
  "\<exists>vs. map_of (snd acc) k = Some (v # vs) \<Longrightarrow> \<exists>vs. map_of (snd (parse_part p acc)) k = Some (v # vs)"
  by (auto simp: parse_part_def append_to_def bucket_def go_map split: option.split prod.split)

lemma parse_parts_keep:
  "\<exists>vs. map_of (snd acc) k = Some (v # vs) \<Longrightarrow> \<exists>vs. map_of (snd (fold parse_part ps acc)) k = Some (v # vs)"
proof (induction ps arbitrary: acc)
  case (Cons p ps)
  then show ?case using parse_part_keeps[of acc k v p] by simp
qed simp

definition url_text :: "string \<Rightarrow> bool" where
  "url_text s \<longleftrightarrow> (\<forall>c \<in> set s. unreserved c \<or> c = CHR '':'' \<or> c = CHR '','')"

lemma url_text_free:
  "url_text s \<Longrightarrow> CHR ''#'' \<notin> set s \<and> CHR ''&'' \<notin> set s \<and> CHR '';'' \<notin> set s \<and> CHR ''%'' \<notin> set s \<and> CHR ''+'' \<notin> set s"
  by (auto simp: url_text_def unreserved_def is_lower_def is_upper_def is_digit_def)

lemma unescape_url_text: "url_text s \<Longrightarrow> go_query_unescape s = Some s"
  by (induction s) (auto simp: url_text_def dest: unreserved_plain)

lemma unescape_pairs:
  "kvs \<noteq> [] \<Longrightarrow> \<forall>(k, v) \<in> set kvs. \<forall>c \<in> set k. unreserved c \<Longrightarrow>
   go_query_unescape (go_join ''&'' (query_pairs go_query_escape kvs)) = Some (go_join ''&'' (query_pairs (\<lambda>v. v) kvs))"
proof (induction kvs)
  case (Cons kv kvs)
  obtain k v where kv: "kv = (k, v)" by (cases kv)
  then have k: "go_query_unescape k = Some k" using Cons.prems by (intro unescape_plain) auto
  have one: "go_query_unescape (k @ ''='' @ go_query_escape v @ rest) = map_option ((@) (k @ ''='' @ v)) (go_query_unescape rest)" for rest
    using unescape_append[OF k, of "''='' @ go_query_escape v @ rest"] unescape_append[OF unescape_escape, of v rest]
    by (cases "go_query_unescape rest") auto
  show ?case
  proof (cases "kvs = []")
    case True
    then show ?thesis using kv one[of "[]"] by (simp add: query_pairs_def)
  next
    case False
    then have "query_pairs enc kvs \<noteq> []" for enc by (simp add: query_pairs_def)
    moreover have "go_query_unescape (go_join ''&'' (query_pairs go_query_escape kvs)) = Some (go_join ''&'' (query_pairs (\<lambda>v. v) kvs))"
      using Cons False by auto
    ultimately show ?thesis using kv one[of "''&'' @ go_join ''&'' (query_pairs go_query_escape kvs)"]
      by (simp add: query_pairs_def)
  qed
qed simp

lemma unreserved_hash: "unreserved c \<Longrightarrow> c \<noteq> CHR ''#''"
  by (auto simp: unreserved_def is_lower_def is_upper_def is_digit_def)

lemma consent_pairs_text:
  assumes "url_text state" and "url_text challenge" and "url_text (go_join '','' (lo_Scopes (fl_opts f)))"
  shows "(k, v) \<in> set (consent_pairs None f port state challenge) \<Longrightarrow> url_text v"
    and "(k, v) \<in> set (consent_pairs None f port state challenge) \<Longrightarrow> \<forall>c \<in> set k. unreserved c"
    and "pairs_ok (\<lambda>v. v) (consent_pairs None f port state challenge)"
proof -
  let ?kvs = "consent_pairs None f port state challenge"
  have "list_all (list_all unreserved) [''callback_port'', ''state'', ''code_challenge'', ''code_challenge_method'', ''scopes'']"
    by code_simp
  then show keys: "(k, v) \<in> set ?kvs \<Longrightarrow> \<forall>c \<in> set k. unreserved c" for k v
    by (auto simp: consent_pairs_def list_all_iff split: if_splits)
  have "url_text ''S256''" by code_simp
  moreover have "url_text (go_itoa port)" by (auto simp: url_text_def unreserved_def dest: itoa_plain)
  ultimately show vals: "(k, v) \<in> set ?kvs \<Longrightarrow> url_text v" for k v
    using assms by (auto simp: consent_pairs_def split: if_splits)
  have "distinct (map fst ?kvs)" by (simp add: consent_pairs_def)
  then show "pairs_ok (\<lambda>v. v) ?kvs"
    using keys vals url_text_free unescape_url_text by (fastforce simp: pairs_ok_def)
qed

text \<open>The host name leaves every other parameter of the consent page alone, even when the query is unescaped once more and
  the name then holds separators: it comes last.\<close>

theorem device_name_harmless:
  assumes "url_text state" and "url_text challenge" and "url_text (go_join '','' (lo_Scopes (fl_opts f)))"
    and "(k, v) \<in> set (consent_pairs None f port state challenge)"
  shows "\<exists>u. go_query_unescape (consent_query hostname f port state challenge) = Some u \<and>
    query_get (snd (go_parse_query (takeWhile (\<lambda>c. c \<noteq> CHR ''#'') u))) k = v"
proof -
  let ?kvs = "consent_pairs None f port state challenge"
  let ?b = "go_join ''&'' (query_pairs (\<lambda>v. v) ?kvs)"
  note plain = consent_pairs_text[OF assms(1-3)]
  have "?kvs \<noteq> []" by (simp add: consent_pairs_def)
  have base: "go_query_unescape (consent_query None f port state challenge) = Some ?b"
    unfolding consent_query_pairs using plain(2) by (intro unescape_pairs \<open>?kvs \<noteq> []\<close>) blast
  obtain tail where u: "go_query_unescape (consent_query hostname f port state challenge) = Some (?b @ tail)"
    and tail: "tail = [] \<or> (\<exists>h. tail = ''&device_name='' @ h)"
  proof (cases "hostname = None \<or> hostname = Some []")
    case True
    then have "consent_query hostname f port state challenge = consent_query None f port state challenge"
      by (auto simp: consent_query_def)
    then show ?thesis using that[of "[]"] base by simp
  next
    case False
    then obtain h where h: "hostname = Some h" "h \<noteq> []" by (cases hostname) auto
    then have "consent_query hostname f port state challenge =
        consent_query None f port state challenge @ ''&device_name='' @ go_query_escape h"
      by (simp add: consent_query_def)
    moreover have "go_query_unescape (''&device_name='' @ go_query_escape h) = Some (''&device_name='' @ h)" by simp
    ultimately show ?thesis using that[of "''&device_name='' @ h"] unescape_append[OF base] by simp
  qed
  have "CHR ''#'' \<notin> set ?b"
    using plain(1,2) url_text_free unreserved_hash by (intro go_join_free) (force simp: query_pairs_def)+
  then have cut: "takeWhile (\<lambda>c. c \<noteq> CHR ''#'') (?b @ tail) = ?b @ takeWhile (\<lambda>c. c \<noteq> CHR ''#'') tail"
    by (intro takeWhile_append2) auto
  note split = split_pairs[OF \<open>?kvs \<noteq> []\<close> plain(3)]
  obtain parts where "go_split (CHR ''&'') (?b @ takeWhile (\<lambda>c. c \<noteq> CHR ''#'') tail) = query_pairs (\<lambda>v. v) ?kvs @ parts"
  proof (cases "tail = []")
    case True
    then show ?thesis using that[of "[]"] split by simp
  next
    case False
    then obtain h where "takeWhile (\<lambda>c. c \<noteq> CHR ''#'') tail = CHR ''&'' # h" using tail by auto
    then show ?thesis using that go_split_at[of "CHR ''&''" ?b h] split by simp
  qed
  then have "snd (go_parse_query (takeWhile (\<lambda>c. c \<noteq> CHR ''#'') (?b @ tail))) =
      snd (fold parse_part parts (False, map (\<lambda>(k, v). (k, [v])) ?kvs))"
    unfolding cut using parse_pairs[OF plain(3), where m = "[]" and b = False] by (simp add: go_parse_query_def)
  moreover have "map_of (map (\<lambda>(k, v). (k, [v])) ?kvs) k = Some [v]"
    using assms(4) plain(3) by (intro map_of_is_SomeI) (force simp: pairs_ok_def comp_def split_def)+
  ultimately show ?thesis
    using u parse_parts_keep[of "(False, map (\<lambda>(k, v). (k, [v])) ?kvs)" k v parts] by (auto simp: query_get_def)
qed

end
