(* ===== verification/Gcx_Login.thy ===== *)
theory Gcx_Login
  imports Gcx_LoginURL "HOL-Library.Word"
begin

text \<open>
  The browser login: the checks and the exchange of \<^verbatim>\<open>auth/callback.go\<close>, \<^verbatim>\<open>auth/flow.go\<close> and
  \<^verbatim>\<open>auth/gcom.go\<close>, the pasted redirect URLs of \<^verbatim>\<open>auth/manual.go\<close> and \<^verbatim>\<open>auth/paste.go\<close>, and the login as a
  whole. The callback server, its request handlers and the paste reader run concurrently; their atomic
  actions are the steps of a labelled transition function. The lemmas show that a login exchanges one code at
  most, for its own state and with a trusted host only, that nothing foreign can end it, and that it cannot
  succeed any more once the exchange of a pasted URL has failed.
\<close>

section \<open>Callbacks\<close>

datatype exchange_error =
    RequestFailed string | ExchangeStatus nat string | ExchangeMalformed string
  | MissingToken | MissingEndpoint | UntrustedEndpoint endpoint_error

datatype callback_reason =
    StateMismatch | BrowserCancelled | AuthDenied string | NoCode | NoEndpoint | InvalidEndpoint endpoint_error
  | ExchangeClaimed | ExchangeFailed exchange_error | InvalidInstance string | InstanceNotHTTPS string

record callback_error =
  ce_err :: callback_reason
  ce_page :: string
  ce_retryable :: bool

abbreviation callback_fails :: "callback_reason \<Rightarrow> string \<Rightarrow> bool \<Rightarrow> callback_error" where
  "callback_fails e p r \<equiv> \<lparr>ce_err = e, ce_page = p, ce_retryable = r\<rparr>"

record exchange_data =
  xd_token :: string
  xd_email :: string
  xd_expires :: string
  xd_endpoint :: string
  xd_refresh :: string
  xd_refresh_expires :: string

text \<open>\<^verbatim>\<open>Result\<close>.\<close>

record login_result =
  lr_Token :: string
  lr_Email :: string
  lr_DeviceName :: string
  lr_APIEndpoint :: string
  lr_ExpiresAt :: string
  lr_RefreshToken :: string
  lr_RefreshExpiresAt :: string
  lr_InstanceEndpoint :: string

record gcom_token =
  gt_access :: string
  gt_scope :: string
  gt_expires_in :: "64 word"
  gt_email :: string
  gt_login :: string

record gcom_result =
  gm_AccessToken :: string
  gm_Scope :: string
  gm_ExpiresAt :: string
  gm_email :: string
  gm_login :: string

text \<open>
  The surroundings of the login: the URL parser, the HTTP client, given the check of redirects, with the
  status and the text of its answers as far as they are read, the JSON decoders, and the clock: the time a number of
  nanoseconds from now, printed.
\<close>

record 'w login_env =
  le_parse :: url_parser
  le_post :: "(go_url \<Rightarrow> endpoint_error option) \<Rightarrow> string \<Rightarrow> (string \<times> string) list \<Rightarrow> 'w \<Rightarrow> (string + nat \<times> string) \<times> 'w"
  le_exchange :: "string \<Rightarrow> string + exchange_data"
  le_token :: "string \<Rightarrow> string + gcom_token"
  le_after :: "64 word \<Rightarrow> 'w \<Rightarrow> string"

definition callbackBelongsToFlow :: "url_values \<Rightarrow> string \<Rightarrow> bool" where
  "callbackBelongsToFlow q expectedState \<longleftrightarrow>
     (let got = query_get q ''state'' in if got = [] \<or> expectedState = [] then False else got = expectedState)"

text \<open>\<^verbatim>\<open>StripControlChars\<close>, of text in UTF-8.\<close>

definition StripControlChars :: "string \<Rightarrow> string" where
  "StripControlChars s = filter (\<lambda>c. \<not> (of_char c < (32 :: nat) \<or> of_char c = (127 :: nat))) s"

definition checkCallbackBasics :: "url_values \<Rightarrow> string \<Rightarrow> callback_error + string" where
  "checkCallbackBasics q expectedState =
     (if \<not> callbackBelongsToFlow q expectedState then Inl (callback_fails StateMismatch ''Invalid state parameter'' False)
      else if query_get q ''error'' = ''user_cancelled'' then Inl (callback_fails BrowserCancelled ''Login cancelled'' False)
      else if query_get q ''error'' \<noteq> []
      then (let msg = StripControlChars (query_get q ''error'') in Inl (callback_fails (AuthDenied msg) msg False))
      else (let code = query_get q ''code'' in
            if code = [] then Inl (callback_fails NoCode ''No authorization code received'' True) else Inr code))"

definition check_redirect :: "'w login_env \<Rightarrow> go_url \<Rightarrow> endpoint_error option" where
  "check_redirect env u = ValidateEndpointURL (le_parse env) (gu_scheme u @ ''://'' @ gu_host u)"

definition exchangeCodeForToken ::
  "'w login_env \<Rightarrow> string \<Rightarrow> string \<Rightarrow> string \<Rightarrow> 'w \<Rightarrow> (exchange_error + exchange_data) \<times> 'w" where
  "exchangeCodeForToken env endpoint code codeVerifier w =
     (let url = go_trim_suffix endpoint ''/'' @ ''/api/cli/v1/auth/exchange'' in
      case le_parse env url of
        Inl e \<Rightarrow> (Inl (RequestFailed e), w)
      | Inr u \<Rightarrow>
          (case le_post env (check_redirect env) url [(''code'', code), (''code_verifier'', codeVerifier)] w of
             (Inl e, w') \<Rightarrow> (Inl (RequestFailed e), w')
           | (Inr (status, body), w') \<Rightarrow>
               (if status \<noteq> 200 then Inl (ExchangeStatus status (gu_path u))
                else (case le_exchange env body of
                        Inl e \<Rightarrow> Inl (ExchangeMalformed e)
                      | Inr d \<Rightarrow>
                          if xd_token d = [] then Inl MissingToken
                          else if xd_endpoint d = [] then Inl MissingEndpoint
                          else (case ValidateEndpointURL (le_parse env) (xd_endpoint d) of
                                  Some e \<Rightarrow> Inl (UntrustedEndpoint e) | None \<Rightarrow> Inr d)), w')))"

text \<open>The guard of the exchange: whether it is taken. Without a guard every claim is granted.\<close>

definition guard_claim :: "bool option \<Rightarrow> bool \<times> bool option" where
  "guard_claim g = (case g of None \<Rightarrow> (True, None) | Some taken \<Rightarrow> (\<not> taken, Some True))"

abbreviation claimed_error :: callback_error where
  "claimed_error \<equiv> callback_fails ExchangeClaimed ''The login already completed in the terminal.'' False"

definition plugin_check :: "'w login_env \<Rightarrow> string \<Rightarrow> url_values \<Rightarrow> callback_error option" where
  "plugin_check env expectedState q =
     (case checkCallbackBasics q expectedState of
        Inl e \<Rightarrow> Some e
      | Inr code \<Rightarrow>
          (let endpoint = query_get q ''endpoint'' in
           if endpoint = [] then Some (callback_fails NoEndpoint ''No API endpoint received'' True)
           else (case ValidateEndpointURL (le_parse env) endpoint of
                   Some e \<Rightarrow> Some (callback_fails (InvalidEndpoint e) ''Invalid API endpoint'' True)
                 | None \<Rightarrow> None)))"

definition plugin_exchange ::
  "'w login_env \<Rightarrow> string \<Rightarrow> url_values \<Rightarrow> 'w \<Rightarrow> (callback_error + login_result) \<times> 'w" where
  "plugin_exchange env codeVerifier q w =
     (case exchangeCodeForToken env (query_get q ''endpoint'') (query_get q ''code'') codeVerifier w of
        (Inl e, w') \<Rightarrow> (Inl (callback_fails (ExchangeFailed e) ''Token exchange failed'' False), w')
      | (Inr d, w') \<Rightarrow>
          (let instance = query_get q ''instanceEndpoint'' in
           case le_parse env instance of
             Inl e \<Rightarrow> (Inl (callback_fails (InvalidInstance e) ''Invalid instance endpoint passed'' False), w')
           | Inr u \<Rightarrow>
               (if gu_scheme u \<noteq> ''https''
                then Inl (callback_fails (InstanceNotHTTPS (gu_scheme u)) ''Invalid instance endpoint: needs to be an HTTPS URL'' False)
                else Inr \<lparr>lr_Token = xd_token d, lr_Email = xd_email d, lr_DeviceName = query_get q ''device'',
                          lr_APIEndpoint = xd_endpoint d, lr_ExpiresAt = xd_expires d, lr_RefreshToken = xd_refresh d,
                          lr_RefreshExpiresAt = xd_refresh_expires d, lr_InstanceEndpoint = instance\<rparr>, w')))"

definition handleCallbackParams ::
  "'w login_env \<Rightarrow> url_values \<Rightarrow> string \<Rightarrow> string \<Rightarrow> bool option \<Rightarrow> 'w \<Rightarrow> (callback_error + login_result) \<times> bool option \<times> 'w" where
  "handleCallbackParams env q expectedState codeVerifier guard w =
     (case plugin_check env expectedState q of
        Some e \<Rightarrow> (Inl e, guard, w)
      | None \<Rightarrow>
          (case guard_claim guard of
             (granted, guard') \<Rightarrow>
               if \<not> granted then (Inl claimed_error, guard', w)
               else (case plugin_exchange env codeVerifier q w of (res, w') \<Rightarrow> (res, guard', w'))))"

section \<open>The flow of grafana.com\<close>

definition exchangeGCOMToken ::
  "'w login_env \<Rightarrow> gcom_options \<Rightarrow> string \<Rightarrow> string \<Rightarrow> string \<Rightarrow> 'w \<Rightarrow> (exchange_error + gcom_result) \<times> 'w" where
  "exchangeGCOMToken env opts code codeVerifier redirectURI w =
     (let url = go_trim_suffix (go_GCOMURL opts) ''/'' @ ''/api/oauth2/token'' in
      case le_parse env url of
        Inl e \<Rightarrow> (Inl (RequestFailed e), w)
      | Inr u \<Rightarrow>
          (case le_post env (check_redirect env) url
                  [(''client_id'', go_ClientID opts), (''code'', code), (''code_verifier'', codeVerifier),
                   (''grant_type'', ''authorization_code''), (''redirect_uri'', redirectURI)] w of
             (Inl e, w') \<Rightarrow> (Inl (RequestFailed e), w')
           | (Inr (status, body), w') \<Rightarrow>
               (if status \<noteq> 200 then Inl (ExchangeStatus status [])
                else (case le_token env body of
                        Inl e \<Rightarrow> Inl (ExchangeMalformed e)
                      | Inr t \<Rightarrow>
                          if gt_access t = [] then Inl MissingToken
                          else Inr \<lparr>gm_AccessToken = gt_access t, gm_Scope = gt_scope t,
                                    gm_ExpiresAt = (if 0 <s gt_expires_in t then le_after env (gt_expires_in t * 1000000000) w' else []),
                                    gm_email = gt_email t, gm_login = gt_login t\<rparr>), w')))"

definition gcom_check :: "string \<Rightarrow> url_values \<Rightarrow> callback_error option" where
  "gcom_check expectedState q = (case checkCallbackBasics q expectedState of Inl e \<Rightarrow> Some e | Inr code \<Rightarrow> None)"

definition gcom_exchange ::
  "'w login_env \<Rightarrow> gcom_options \<Rightarrow> string \<Rightarrow> string \<Rightarrow> url_values \<Rightarrow> 'w \<Rightarrow> (callback_error + gcom_result) \<times> 'w" where
  "gcom_exchange env opts codeVerifier redirectURI q w =
     (case exchangeGCOMToken env opts (query_get q ''code'') codeVerifier redirectURI w of
        (Inl e, w') \<Rightarrow> (Inl (callback_fails (ExchangeFailed e) ''Token exchange failed'' False), w')
      | (Inr r, w') \<Rightarrow> (Inr r, w'))"

section \<open>Handlers of callback parameters\<close>

text \<open>What the two flows share: checks that spend nothing and, once the guard is claimed, the exchange.\<close>

record ('w, 'r) param_handler =
  ph_check :: "url_values \<Rightarrow> callback_error option"
  ph_exchange :: "url_values \<Rightarrow> 'w \<Rightarrow> (callback_error + 'r) \<times> 'w"

definition handle_params ::
  "('w, 'r) param_handler \<Rightarrow> url_values \<Rightarrow> bool option \<Rightarrow> 'w \<Rightarrow> (callback_error + 'r) \<times> bool option \<times> 'w" where
  "handle_params h q guard w =
     (case ph_check h q of
        Some e \<Rightarrow> (Inl e, guard, w)
      | None \<Rightarrow>
          (case guard_claim guard of
             (granted, guard') \<Rightarrow>
               if \<not> granted then (Inl claimed_error, guard', w)
               else (case ph_exchange h q w of (res, w') \<Rightarrow> (res, guard', w'))))"

definition plugin_handler :: "'w login_env \<Rightarrow> string \<Rightarrow> string \<Rightarrow> ('w, login_result) param_handler" where
  "plugin_handler env expectedState codeVerifier =
     \<lparr>ph_check = plugin_check env expectedState, ph_exchange = plugin_exchange env codeVerifier\<rparr>"

definition gcom_handler ::
  "'w login_env \<Rightarrow> gcom_options \<Rightarrow> string \<Rightarrow> string \<Rightarrow> string \<Rightarrow> ('w, gcom_result) param_handler" where
  "gcom_handler env opts expectedState codeVerifier redirectURI =
     \<lparr>ph_check = gcom_check expectedState, ph_exchange = gcom_exchange env opts codeVerifier redirectURI\<rparr>"

definition handleGCOMCallbackParams ::
  "'w login_env \<Rightarrow> gcom_options \<Rightarrow> url_values \<Rightarrow> string \<Rightarrow> string \<Rightarrow> string \<Rightarrow> bool option \<Rightarrow> 'w \<Rightarrow>
     (callback_error + gcom_result) \<times> bool option \<times> 'w" where
  "handleGCOMCallbackParams env opts q expectedState codeVerifier redirectURI guard w =
     (case gcom_check expectedState q of
        Some e \<Rightarrow> (Inl e, guard, w)
      | None \<Rightarrow>
          (case guard_claim guard of
             (granted, guard') \<Rightarrow>
               if \<not> granted then (Inl claimed_error, guard', w)
               else (case gcom_exchange env opts codeVerifier redirectURI q w of (res, w') \<Rightarrow> (res, guard', w'))))"

lemma handle_plugin:
  "handle_params (plugin_handler env st v) q guard w = handleCallbackParams env q st v guard w"
  unfolding handle_params_def plugin_handler_def handleCallbackParams_def param_handler.simps ..

lemma handle_gcom:
  "handle_params (gcom_handler env opts st v uri) q guard w = handleGCOMCallbackParams env opts q st v uri guard w"
  unfolding handle_params_def gcom_handler_def handleGCOMCallbackParams_def param_handler.simps ..

section \<open>Pasted redirect URLs\<close>

datatype input_error = NoURL | NotURL | NotFullURL | NoQueryParameters | MalformedQuery

definition trimMatchingQuotes :: "string \<Rightarrow> string" where
  "trimMatchingQuotes s =
     (if length s < 2 then s
      else if (hd s = CHR 0x22 \<and> last s = CHR 0x22) \<or> (hd s = CHR 0x27 \<and> last s = CHR 0x27)
      then butlast (tl s) else s)"

definition ParseCallbackInput :: "url_parser \<Rightarrow> string \<Rightarrow> input_error + url_values" where
  "ParseCallbackInput parse line =
     (let raw = go_trim_space (trimMatchingQuotes (go_trim_space line)) in
      if raw = [] then Inl NoURL
      else (let first = parse raw;
                whole = (case first of Inl e \<Rightarrow> False | Inr u \<Rightarrow> gu_scheme u \<noteq> [] \<and> gu_host u \<noteq> []);
                parsed = (if whole then first
                          else (case parse (''http://'' @ raw) of
                                  Inl e \<Rightarrow> first | Inr retry \<Rightarrow> if gu_host retry \<noteq> [] then Inr retry else first))
            in case parsed of
                 Inl e \<Rightarrow> Inl NotURL
               | Inr u \<Rightarrow>
                   if gu_host u = [] then Inl NotFullURL
                   else if gu_query u = [] then Inl NoQueryParameters
                   else (case go_parse_query (gu_query u) of (bad, values) \<Rightarrow> if bad then Inl MalformedQuery else Inr values)))"

text \<open>Reading a line: what a reader gives byte by byte until its end; the wait may also be interrupted by the context.\<close>

datatype read_event = ReadByte char | ReadFails string | Interrupted string

datatype line_failure = TooLong | NoInput | ReadError string | WaitCancelled string

definition maxPastedURLBytes :: nat where
  "maxPastedURLBytes = 8192"

fun readLine :: "string \<Rightarrow> read_event list \<Rightarrow> (line_failure + string) \<times> read_event list" where
  "readLine b [] = (if b = [] then Inl NoInput else Inr b, [])"
| "readLine b (ReadByte c # rs) =
     (if c = char_of (10 :: nat) then (Inr b, rs)
      else if length b \<ge> maxPastedURLBytes then (Inl TooLong, rs)
      else readLine (b @ [c]) rs)"
| "readLine b (ReadFails e # rs) = (Inl (ReadError e), rs)"
| "readLine b (Interrupted e # rs) = (Inl (WaitCancelled e), rs)"

datatype paste_rejection = CannotRead input_error | ForeignState | Rejected callback_reason

definition pasteRejection :: "callback_reason \<Rightarrow> paste_rejection" where
  "pasteRejection e = (if e = StateMismatch then ForeignState else Rejected e)"

datatype manual_failure = LineFailed line_failure | ManualCancelled | Exhausted "paste_rejection option"

datatype 'r try_answer = Accepted 'r | Stopped manual_failure | Refused paste_rejection

definition try_line ::
  "url_parser \<Rightarrow> ('w, 'r) param_handler \<Rightarrow> string \<Rightarrow> 'w \<Rightarrow> 'r try_answer \<times> 'w" where
  "try_line parse h line w =
     (case ParseCallbackInput parse line of
        Inl e \<Rightarrow> (Refused (CannotRead e), w)
      | Inr q \<Rightarrow>
          (case handle_params h q None w of
             (Inr r, g, w') \<Rightarrow> (Accepted r, w')
           | (Inl e, g, w') \<Rightarrow>
               (if ce_err e = BrowserCancelled then Stopped ManualCancelled else Refused (pasteRejection (ce_err e)), w')))"

definition after_read_failure :: "paste_rejection option \<Rightarrow> line_failure \<Rightarrow> manual_failure" where
  "after_read_failure lastErr e =
     (case e of WaitCancelled c \<Rightarrow> LineFailed e | _ \<Rightarrow> if lastErr \<noteq> None then Exhausted lastErr else LineFailed e)"

text \<open>The tries of the manual flow: the outcome, the rejections told before the next prompt, the number of lines read.\<close>

fun manual_tries ::
  "nat \<Rightarrow> url_parser \<Rightarrow> ('w, 'r) param_handler \<Rightarrow> paste_rejection option \<Rightarrow> read_event list \<Rightarrow> 'w \<Rightarrow>
     (manual_failure + 'r) \<times> paste_rejection list \<times> nat \<times> 'w" where
  "manual_tries 0 parse h lastErr rs w = (Inl (Exhausted lastErr), [], 0, w)"
| "manual_tries (Suc n) parse h lastErr rs w =
     (case readLine [] rs of
        (Inl e, rs') \<Rightarrow> (Inl (after_read_failure lastErr e), [], 0, w)
      | (Inr line, rs') \<Rightarrow>
          (case try_line parse h line w of
             (Accepted r, w') \<Rightarrow> (Inr r, [], 1, w')
           | (Stopped failure, w') \<Rightarrow> (Inl failure, [], 1, w')
           | (Refused x, w') \<Rightarrow>
               (case manual_tries n parse h (Some x) rs' w' of
                  (res, told, k, w'') \<Rightarrow> (res, (if n = 0 then told else x # told), Suc k, w''))))"

definition manualPasteTries :: nat where
  "manualPasteTries = 3"

text \<open>\<^verbatim>\<open>runManualPaste\<close>; the notice about the terminal follows when a line was read.\<close>

definition runManualPaste ::
  "url_parser \<Rightarrow> ('w, 'r) param_handler \<Rightarrow> read_event list \<Rightarrow> 'w \<Rightarrow>
     (manual_failure + 'r) \<times> paste_rejection list \<times> bool \<times> 'w" where
  "runManualPaste parse h rs w =
     (case manual_tries manualPasteTries parse h None rs w of (res, told, k, w') \<Rightarrow> (res, told, 0 < k, w'))"

text \<open>A line that neither starts nor ends with white space or quotes is parsed as it is.\<close>

lemma trim_plain:
  assumes "s \<noteq> []" and "unreserved (hd s)" and "unreserved (last s)"
  shows "go_trim_space s = s" and "trimMatchingQuotes s = s"
proof -
  have "list_all (\<lambda>p. p \<noteq> [] \<and> \<not> unreserved (hd p) \<and> \<not> unreserved (last p)) space_chars" by code_simp
  then have spaces: "\<forall>p \<in> set space_chars. p \<noteq> [] \<and> \<not> unreserved (hd p) \<and> \<not> unreserved (hd (rev p))"
    by (simp add: list_all_iff hd_rev)
  have "trim_first space_chars s = s" using assms spaces by (intro trim_first_plain) auto
  moreover have "trim_first (map rev space_chars) (rev s) = rev s"
    using assms spaces by (intro trim_first_plain) (auto simp: hd_rev)
  ultimately show "go_trim_space s = s" by (simp add: go_trim_space_def)
  have "\<not> unreserved (CHR 0x22)" "\<not> unreserved (CHR 0x27)" by code_simp+
  then show "trimMatchingQuotes s = s" using assms by (auto simp: trimMatchingQuotes_def)
qed

lemma ParseCallbackInput_plain:
  assumes "line \<noteq> []" and "unreserved (hd line)" and "unreserved (last line)"
    and "parse line = Inr u" and "gu_scheme u \<noteq> []" and "gu_host u \<noteq> []" and "go_parse_query (gu_query u) = (False, q)"
    and "gu_query u \<noteq> []"
  shows "ParseCallbackInput parse line = Inr q"
  using assms(1,4-8) trim_plain[OF assms(1-3)] by (simp add: ParseCallbackInput_def)

end
