(* ===== verification/Gcx_LoginRace.thy ===== *)
theory Gcx_LoginRace
  imports Gcx_Login
begin

text \<open>
  The login with a callback server (\<^verbatim>\<open>newCallbackServer\<close>, \<^verbatim>\<open>startCallbackServer\<close>, \<^verbatim>\<open>answerCallbackError\<close> of
  \<^verbatim>\<open>auth/flow.go\<close>, \<^verbatim>\<open>awaitCallbackOrPaste\<close> of \<^verbatim>\<open>auth/callback.go\<close>, the watcher of \<^verbatim>\<open>auth/paste.go\<close>): request
  handlers, which hold a mutex, race the goroutine that waits and exchanges pasted URLs itself. An exchange
  takes time: it begins with the claim of the guard and ends in a step of its own.
\<close>

section \<open>The state of a login\<close>

datatype login_failure = CallbackFailed callback_reason | ServeFailed string | ContextEnded string

datatype login_page =
    MethodNotAllowed | ForeignNotice | IncompleteNotice string | AlreadyProcessed
  | SuccessPage "(string \<times> string) option" | CancelledPage | FailurePage string

datatype login_said =
  PasteRejected paste_rejection | IncompleteTold string | PageReopened | ShortcutStopped | PasteEnded

datatype watcher_kind = NoWatcher | PasteWatcher | ReopenWatcher

record ('w, 'r) login_config =
  lc_handler :: "('w, 'r) param_handler"
  lc_state :: string
  lc_parse :: url_parser
  lc_link :: "'r \<Rightarrow> (string \<times> string) option"
  lc_watcher :: watcher_kind

text \<open>
  The guard, whether a callback ended the login, the parameters whose exchange is under way in a handler
  or in the waiting goroutine, the two channels of one element, the outcome, all parameters ever exchanged,
  pages and messages, the time the page was last reopened, whether the watcher ended, and the world.
\<close>

record ('w, 'r) login =
  lg_taken :: bool
  lg_consumed :: bool
  lg_server :: "url_values option"
  lg_paste :: "url_values option"
  lg_result :: "'r option"
  lg_err :: "login_failure option"
  lg_outcome :: "(login_failure + 'r) option"
  lg_exchanged :: "url_values list"
  lg_pages :: "login_page list"
  lg_said :: "login_said list"
  lg_reopened :: "int option"
  lg_closed :: bool
  lg_world :: 'w

definition new_login :: "'w \<Rightarrow> ('w, 'r) login" where
  "new_login w =
     \<lparr>lg_taken = False, lg_consumed = False, lg_server = None, lg_paste = None, lg_result = None, lg_err = None,
      lg_outcome = None, lg_exchanged = [], lg_pages = [], lg_said = [], lg_reopened = None, lg_closed = False, lg_world = w\<rparr>"

definition show_page :: "login_page \<Rightarrow> ('w, 'r) login \<Rightarrow> ('w, 'r) login" where
  "show_page p s = s\<lparr>lg_pages := lg_pages s @ [p]\<rparr>"

definition say :: "login_said \<Rightarrow> ('w, 'r) login \<Rightarrow> ('w, 'r) login" where
  "say m s = s\<lparr>lg_said := lg_said s @ [m]\<rparr>"

section \<open>Steps\<close>

text \<open>A step that has to wait (for the mutex, or for room in a channel) is \<open>None\<close>.\<close>

definition answerCallbackError :: "callback_error \<Rightarrow> ('w, 'r) login \<Rightarrow> ('w, 'r) login option" where
  "answerCallbackError e s =
     (if ce_err e = ExchangeClaimed then Some ((show_page (SuccessPage None) s)\<lparr>lg_consumed := True\<rparr>)
      else if ce_retryable e then Some (show_page (IncompleteNotice (ce_page e)) (say (IncompleteTold (ce_page e)) s))
      else if lg_err s \<noteq> None then None
      else Some ((show_page (if ce_err e = BrowserCancelled then CancelledPage else FailurePage (ce_page e)) s)
                   \<lparr>lg_err := Some (CallbackFailed (ce_err e)), lg_consumed := True\<rparr>))"

definition serve_request :: "('w, 'r) login_config \<Rightarrow> string \<Rightarrow> url_values \<Rightarrow> ('w, 'r) login \<Rightarrow> ('w, 'r) login option" where
  "serve_request cfg meth q s =
     (if meth \<noteq> ''GET'' then Some (show_page MethodNotAllowed s)
      else if \<not> callbackBelongsToFlow q (lc_state cfg) then Some (show_page ForeignNotice s)
      else if lg_server s \<noteq> None then None
      else if lg_consumed s then Some (show_page AlreadyProcessed s)
      else (case ph_check (lc_handler cfg) q of
              Some e \<Rightarrow> answerCallbackError e s
            | None \<Rightarrow>
                if lg_taken s then answerCallbackError claimed_error s
                else Some (s\<lparr>lg_taken := True, lg_server := Some q, lg_exchanged := lg_exchanged s @ [q]\<rparr>)))"

definition serve_exchange :: "('w, 'r) login_config \<Rightarrow> ('w, 'r) login \<Rightarrow> ('w, 'r) login option" where
  "serve_exchange cfg s =
     (case lg_server s of
        None \<Rightarrow> None
      | Some q \<Rightarrow>
          (case ph_exchange (lc_handler cfg) q (lg_world s) of
             (Inl e, w) \<Rightarrow> answerCallbackError e (s\<lparr>lg_server := None, lg_world := w\<rparr>)
           | (Inr r, w) \<Rightarrow>
               if lg_result s \<noteq> None then None
               else Some ((show_page (SuccessPage (lc_link cfg r)) s)
                            \<lparr>lg_server := None, lg_world := w, lg_result := Some r, lg_consumed := True\<rparr>)))"

definition serve_fails :: "string \<Rightarrow> ('w, 'r) login \<Rightarrow> ('w, 'r) login option" where
  "serve_fails e s = (if lg_err s \<noteq> None then None else Some (s\<lparr>lg_err := Some (ServeFailed e)\<rparr>))"

text \<open>The goroutine that waits.\<close>

definition waiting :: "('w, 'r) login \<Rightarrow> bool" where
  "waiting s \<longleftrightarrow> lg_outcome s = None \<and> lg_paste s = None"

definition take_result_ch :: "('w, 'r) login \<Rightarrow> ('w, 'r) login option" where
  "take_result_ch s = map_option (\<lambda>r. s\<lparr>lg_result := None, lg_outcome := Some (Inr r)\<rparr>) (lg_result s)"

definition take_error_ch :: "('w, 'r) login \<Rightarrow> ('w, 'r) login option" where
  "take_error_ch s = map_option (\<lambda>e. s\<lparr>lg_err := None, lg_outcome := Some (Inl e)\<rparr>) (lg_err s)"

definition paste_answer :: "callback_error \<Rightarrow> ('w, 'r) login \<Rightarrow> ('w, 'r) login" where
  "paste_answer e s =
     (if ce_err e = BrowserCancelled then s\<lparr>lg_outcome := Some (Inl (CallbackFailed BrowserCancelled))\<rparr>
      else if ce_err e = ExchangeClaimed then s
      else say (PasteRejected (pasteRejection (ce_err e))) s)"

definition paste_line :: "('w, 'r) login_config \<Rightarrow> string \<Rightarrow> ('w, 'r) login \<Rightarrow> ('w, 'r) login option" where
  "paste_line cfg line s =
     (if lc_watcher cfg \<noteq> PasteWatcher \<or> lg_closed s then None
      else if go_trim_space line = [] then Some s
      else (case ParseCallbackInput (lc_parse cfg) line of
              Inl e \<Rightarrow> Some (say (PasteRejected (CannotRead e)) s)
            | Inr q \<Rightarrow>
                (case ph_check (lc_handler cfg) q of
                   Some e \<Rightarrow> Some (paste_answer e s)
                 | None \<Rightarrow>
                     if lg_taken s then Some (paste_answer claimed_error s)
                     else Some (s\<lparr>lg_taken := True, lg_paste := Some q, lg_exchanged := lg_exchanged s @ [q]\<rparr>))))"

definition paste_exchange :: "('w, 'r) login_config \<Rightarrow> ('w, 'r) login \<Rightarrow> ('w, 'r) login option" where
  "paste_exchange cfg s =
     (case lg_paste s of
        None \<Rightarrow> None
      | Some q \<Rightarrow>
          (case ph_exchange (lc_handler cfg) q (lg_world s) of
             (Inl e, w) \<Rightarrow> Some (paste_answer e (s\<lparr>lg_paste := None, lg_world := w\<rparr>))
           | (Inr r, w) \<Rightarrow> Some (s\<lparr>lg_paste := None, lg_world := w, lg_outcome := Some (Inr r)\<rparr>)))"

definition paste_closes :: "('w, 'r) login_config \<Rightarrow> ('w, 'r) login \<Rightarrow> ('w, 'r) login option" where
  "paste_closes cfg s =
     (if lc_watcher cfg = NoWatcher \<or> lg_closed s then None
      else Some (say (if lc_watcher cfg = ReopenWatcher then ShortcutStopped else PasteEnded) (s\<lparr>lg_closed := True\<rparr>)))"

definition reopenDebounce :: int where
  "reopenDebounce = 2000000000"

text \<open>
  The Enter key: a finished login wins, an error or a result when both wait; else the page is opened again
  unless an exchange runs, the context ended or the last time was just now.
\<close>

definition press_enter ::
  "('w, 'r) login_config \<Rightarrow> bool \<Rightarrow> bool \<Rightarrow> int \<Rightarrow> ('w, 'r) login \<Rightarrow> ('w, 'r) login option" where
  "press_enter cfg errorFirst ended now s =
     (if lc_watcher cfg \<noteq> ReopenWatcher \<or> lg_closed s then None
      else if lg_err s \<noteq> None \<and> (errorFirst \<or> lg_result s = None) then take_error_ch s
      else if lg_result s \<noteq> None then take_result_ch s
      else if lg_taken s \<or> ended then Some s
      else if (case lg_reopened s of None \<Rightarrow> False | Some t \<Rightarrow> now - t < reopenDebounce) then Some s
      else Some (say PageReopened (s\<lparr>lg_reopened := Some now\<rparr>)))"

datatype login_event =
    Request string url_values | ServerExchanged | ServeError string
  | ResultTaken | ErrorTaken | ContextDone string
  | PasteLine string | PasteExchanged | PasteClosed | EnterPressed bool bool int

definition login_step :: "('w, 'r) login_config \<Rightarrow> login_event \<Rightarrow> ('w, 'r) login \<Rightarrow> ('w, 'r) login option" where
  "login_step cfg ev s =
     (case ev of
        Request meth q \<Rightarrow> serve_request cfg meth q s
      | ServerExchanged \<Rightarrow> serve_exchange cfg s
      | ServeError e \<Rightarrow> serve_fails e s
      | PasteExchanged \<Rightarrow> paste_exchange cfg s
      | ResultTaken \<Rightarrow> if waiting s then take_result_ch s else None
      | ErrorTaken \<Rightarrow> if waiting s then take_error_ch s else None
      | ContextDone e \<Rightarrow> if waiting s then Some (s\<lparr>lg_outcome := Some (Inl (ContextEnded e))\<rparr>) else None
      | PasteLine line \<Rightarrow> if waiting s then paste_line cfg line s else None
      | PasteClosed \<Rightarrow> if waiting s then paste_closes cfg s else None
      | EnterPressed errorFirst ended now \<Rightarrow> if waiting s then press_enter cfg errorFirst ended now s else None)"

fun login_run :: "('w, 'r) login_config \<Rightarrow> login_event list \<Rightarrow> ('w, 'r) login \<Rightarrow> ('w, 'r) login option" where
  "login_run cfg [] s = Some s"
| "login_run cfg (ev # evs) s = Option.bind (login_step cfg ev s) (login_run cfg evs)"

inductive login_steps :: "('w, 'r) login_config \<Rightarrow> ('w, 'r) login \<Rightarrow> ('w, 'r) login \<Rightarrow> bool" for cfg s where
  login_refl: "login_steps cfg s s"
| login_trans: "login_steps cfg s t \<Longrightarrow> login_step cfg ev t = Some u \<Longrightarrow> login_steps cfg s u"

definition login_reachable :: "('w, 'r) login_config \<Rightarrow> ('w, 'r) login \<Rightarrow> bool" where
  "login_reachable cfg s \<longleftrightarrow> (\<exists>w. login_steps cfg (new_login w) s)"

lemma login_run_append: "login_run cfg (evs @ [ev]) s = Option.bind (login_run cfg evs s) (login_step cfg ev)"
proof (induction evs arbitrary: s)
  case (Cons e evs)
  then show ?case by (cases "login_step cfg e s") simp_all
qed (simp add: bind_eq_None_conv split: Option.bind_split)

lemma login_steps_run: "login_steps cfg s t \<longleftrightarrow> (\<exists>evs. login_run cfg evs s = Some t)"
proof
  show "login_steps cfg s t \<Longrightarrow> \<exists>evs. login_run cfg evs s = Some t"
  proof (induction rule: login_steps.induct)
    case (login_trans t ev u)
    then obtain evs where "login_run cfg evs s = Some t" by blast
    then have "login_run cfg (evs @ [ev]) s = Some u" using login_trans by (simp add: login_run_append)
    then show ?case by blast
  qed (metis login_run.simps(1))
  have "login_run cfg evs s = Some t \<Longrightarrow> login_steps cfg s t" for evs
  proof (induction evs arbitrary: t rule: rev_induct)
    case (snoc ev evs)
    then obtain m where "login_run cfg evs s = Some m" "login_step cfg ev m = Some t"
      unfolding login_run_append by (auto simp: bind_eq_Some_conv)
    then show ?case using snoc.IH login_trans by metis
  qed (simp add: login_refl)
  then show "\<exists>evs. login_run cfg evs s = Some t \<Longrightarrow> login_steps cfg s t" by blast
qed

section \<open>Invariants\<close>

definition late_failure :: "callback_reason \<Rightarrow> bool" where
  "late_failure e = (case e of ExchangeFailed x \<Rightarrow> True | InvalidInstance x \<Rightarrow> True | InstanceNotHTTPS x \<Rightarrow> True | _ \<Rightarrow> False)"

definition told_failure :: "('w, 'r) login \<Rightarrow> bool" where
  "told_failure s \<longleftrightarrow> (\<exists>e. late_failure e \<and> PasteRejected (Rejected e) \<in> set (lg_said s))"

text \<open>One exchange at most: who runs it, what it delivered, and that a claimed exchange leads somewhere.\<close>

definition exchange_ok ::
  "('w, 'r) param_handler \<Rightarrow> bool \<Rightarrow> url_values list \<Rightarrow> url_values option \<Rightarrow> url_values option \<Rightarrow> bool" where
  "exchange_ok h taken exchanged server paste \<longleftrightarrow>
     (if taken then (\<exists>q. exchanged = [q] \<and> ph_check h q = None \<and>
          (server = None \<or> server = Some q) \<and> (paste = None \<or> paste = Some q))
      else exchanged = [] \<and> server = None \<and> paste = None) \<and>
     (server = None \<or> paste = None)"

definition came_from :: "('w, 'r) param_handler \<Rightarrow> url_values list \<Rightarrow> 'r \<Rightarrow> bool" where
  "came_from h exchanged r \<longleftrightarrow>
     (\<exists>q w w'. exchanged = [q] \<and> ph_check h q = None \<and> ph_exchange h q w = (Inr r, w'))"

definition delivery_ok ::
  "('w, 'r) param_handler \<Rightarrow> url_values list \<Rightarrow> url_values option \<Rightarrow> url_values option \<Rightarrow> 'r option \<Rightarrow>
     (login_failure + 'r) option \<Rightarrow> bool" where
  "delivery_ok h exchanged server paste result outcome \<longleftrightarrow>
     (server \<noteq> None \<or> paste \<noteq> None \<longrightarrow> result = None \<and> (\<forall>r. outcome \<noteq> Some (Inr r))) \<and>
     (paste \<noteq> None \<longrightarrow> outcome = None) \<and>
     (\<forall>r. result = Some r \<or> outcome = Some (Inr r) \<longrightarrow> came_from h exchanged r)"

definition progress_ok :: "('w, 'r) login \<Rightarrow> bool" where
  "progress_ok s \<longleftrightarrow>
     (lg_taken s \<or> lg_consumed s \<longrightarrow>
        lg_server s \<noteq> None \<or> lg_paste s \<noteq> None \<or> lg_result s \<noteq> None \<or> lg_err s \<noteq> None \<or> lg_outcome s \<noteq> None \<or> told_failure s)"

definition login_inv :: "('w, 'r) param_handler \<Rightarrow> ('w, 'r) login \<Rightarrow> bool" where
  "login_inv h s \<longleftrightarrow>
     exchange_ok h (lg_taken s) (lg_exchanged s) (lg_server s) (lg_paste s) \<and>
     delivery_ok h (lg_exchanged s) (lg_server s) (lg_paste s) (lg_result s) (lg_outcome s) \<and> progress_ok s"

lemma show_page_keeps [simp]:
  "lg_taken (show_page p s) = lg_taken s" "lg_consumed (show_page p s) = lg_consumed s" "lg_server (show_page p s) = lg_server s"
  "lg_paste (show_page p s) = lg_paste s" "lg_result (show_page p s) = lg_result s" "lg_err (show_page p s) = lg_err s"
  "lg_outcome (show_page p s) = lg_outcome s" "lg_exchanged (show_page p s) = lg_exchanged s" "lg_said (show_page p s) = lg_said s"
  by (simp_all add: show_page_def)

lemma say_keeps [simp]:
  "lg_taken (say m s) = lg_taken s" "lg_consumed (say m s) = lg_consumed s" "lg_server (say m s) = lg_server s"
  "lg_paste (say m s) = lg_paste s" "lg_result (say m s) = lg_result s" "lg_err (say m s) = lg_err s"
  "lg_outcome (say m s) = lg_outcome s" "lg_exchanged (say m s) = lg_exchanged s" "lg_said (say m s) = lg_said s @ [m]"
  by (simp_all add: say_def)

lemma new_login_inv: "login_inv h (new_login w)"
  by (simp add: login_inv_def exchange_ok_def delivery_ok_def progress_ok_def new_login_def)

text \<open>Steps that leave the exchange alone.\<close>

definition same_exchange :: "('w, 'r) login \<Rightarrow> ('w, 'r) login \<Rightarrow> bool" where
  "same_exchange s t \<longleftrightarrow>
     lg_taken t = lg_taken s \<and> lg_server t = lg_server s \<and> lg_paste t = lg_paste s \<and> lg_result t = lg_result s \<and>
     lg_outcome t = lg_outcome s \<and> lg_exchanged t = lg_exchanged s \<and>
     (lg_consumed t \<longrightarrow> lg_consumed s \<or> lg_taken s \<or> lg_err t \<noteq> None) \<and> (lg_err s \<noteq> None \<longrightarrow> lg_err t \<noteq> None) \<and>
     set (lg_said s) \<subseteq> set (lg_said t)"

lemma same_exchange_inv:
  assumes inv: "login_inv h s" and same: "same_exchange s t"
  shows "login_inv h t"
proof -
  have eqs: "lg_taken t = lg_taken s" "lg_server t = lg_server s" "lg_paste t = lg_paste s" "lg_result t = lg_result s"
    "lg_outcome t = lg_outcome s" "lg_exchanged t = lg_exchanged s"
    using same unfolding same_exchange_def by blast+
  have more: "lg_consumed t \<Longrightarrow> lg_consumed s \<or> lg_taken s \<or> lg_err t \<noteq> None" "lg_err s \<noteq> None \<Longrightarrow> lg_err t \<noteq> None"
    "told_failure s \<Longrightarrow> told_failure t"
    using same unfolding same_exchange_def told_failure_def by blast+
  have "progress_ok s" using inv unfolding login_inv_def by blast
  then have "progress_ok t" unfolding progress_ok_def eqs using more by blast
  then show ?thesis using inv unfolding login_inv_def eqs by blast
qed

lemma same_exchange_page [simp]: "same_exchange s (show_page p s)"
  by (simp add: same_exchange_def)

lemma same_exchange_say [simp]: "same_exchange s (say m s)"
  by (auto simp: same_exchange_def)

lemma same_exchange_refl [simp]: "same_exchange s s"
  by (simp add: same_exchange_def)

lemma answer_same:
  "answerCallbackError e s = Some t \<Longrightarrow> (ce_err e = ExchangeClaimed \<Longrightarrow> lg_taken s) \<Longrightarrow> same_exchange s t"
proof -
  assume answer: "answerCallbackError e s = Some t" and claimed: "ce_err e = ExchangeClaimed \<Longrightarrow> lg_taken s"
  consider "ce_err e = ExchangeClaimed" | "ce_err e \<noteq> ExchangeClaimed" "ce_retryable e"
    | "ce_err e \<noteq> ExchangeClaimed" "\<not> ce_retryable e" by blast
  then show ?thesis
  proof cases
    case 1
    then have "t = (show_page (SuccessPage None) s)\<lparr>lg_consumed := True\<rparr>" using answer by (simp add: answerCallbackError_def)
    then show ?thesis using claimed[OF 1] by (simp add: same_exchange_def)
  next
    case 2
    then have "t = show_page (IncompleteNotice (ce_page e)) (say (IncompleteTold (ce_page e)) s)"
      using answer by (simp add: answerCallbackError_def)
    then show ?thesis by (auto simp: same_exchange_def)
  next
    case 3
    then have "t = (show_page (if ce_err e = BrowserCancelled then CancelledPage else FailurePage (ce_page e)) s)
        \<lparr>lg_err := Some (CallbackFailed (ce_err e)), lg_consumed := True\<rparr>"
      using answer by (simp add: answerCallbackError_def split: if_split_asm)
    then show ?thesis by (simp add: same_exchange_def)
  qed
qed

lemma unclaimed:
  assumes "login_inv h s" and "\<not> lg_taken s"
  shows "lg_exchanged s = []" "lg_server s = None" "lg_paste s = None" "lg_result s = None" "lg_outcome s \<noteq> Some (Inr r)"
  using assms by (cases "lg_result s"; auto simp: login_inv_def exchange_ok_def delivery_ok_def came_from_def)+

lemma claim_server_inv:
  assumes "login_inv h s" and "\<not> lg_taken s" and "ph_check h q = None"
  shows "login_inv h (s\<lparr>lg_taken := True, lg_server := Some q, lg_exchanged := lg_exchanged s @ [q]\<rparr>)"
  using assms(3) unclaimed[OF assms(1,2)] by (simp add: login_inv_def exchange_ok_def delivery_ok_def progress_ok_def)

lemma claim_paste_inv:
  assumes "login_inv h s" and "\<not> lg_taken s" and "ph_check h q = None" and "lg_outcome s = None"
  shows "login_inv h (s\<lparr>lg_taken := True, lg_paste := Some q, lg_exchanged := lg_exchanged s @ [q]\<rparr>)"
  using assms(3,4) unclaimed[OF assms(1,2)] by (simp add: login_inv_def exchange_ok_def delivery_ok_def progress_ok_def)

text \<open>The contract of a handler: what its checks vouch for, what its exchange delivers, how its exchange fails.\<close>

locale exchange_handler =
  fixes h :: "('w, 'r) param_handler" and vetted :: "url_values \<Rightarrow> bool" and sound :: "'r \<Rightarrow> bool"
  assumes check_vets: "ph_check h q = None \<Longrightarrow> vetted q"
    and check_unclaimed: "ph_check h q = Some e \<Longrightarrow> ce_err e \<noteq> ExchangeClaimed"
    and exchange_sound: "ph_exchange h q w = (Inr r, w') \<Longrightarrow> sound r"
    and exchange_fails_late: "ph_exchange h q w = (Inl e, w') \<Longrightarrow> late_failure (ce_err e) \<and> \<not> ce_retryable e"
begin

lemma late_not_special: "late_failure e \<Longrightarrow> e \<noteq> BrowserCancelled \<and> e \<noteq> ExchangeClaimed \<and> pasteRejection e = Rejected e"
  by (auto simp: late_failure_def pasteRejection_def)

lemma serve_request_inv:
  assumes "lc_handler cfg = h" and "login_inv h s" and "serve_request cfg m q s = Some t"
  shows "login_inv h t"
proof (cases "ph_check h q = None \<and> t = s\<lparr>lg_taken := True, lg_server := Some q, lg_exchanged := lg_exchanged s @ [q]\<rparr> \<and> \<not> lg_taken s")
  case True
  then show ?thesis using claim_server_inv assms(2) by blast
next
  case False
  then have "same_exchange s t"
    using assms(1,3) answer_same[of _ s t] check_unclaimed
    by (auto simp: serve_request_def split: if_splits option.splits)
  then show ?thesis using same_exchange_inv assms(2) by blast
qed

lemma serve_exchange_inv:
  assumes "lc_handler cfg = h" and "login_inv h s" and "serve_exchange cfg s = Some t"
  shows "login_inv h t"
proof -
  obtain q where q: "lg_server s = Some q" using assms(3) by (auto simp: serve_exchange_def split: option.splits)
  obtain x w where x: "ph_exchange h q (lg_world s) = (x, w)" by (metis surj_pair)
  have one: "lg_taken s" "lg_exchanged s = [q]" "ph_check h q = None" "lg_paste s = None" "lg_result s = None"
    and none: "\<And>r. lg_outcome s \<noteq> Some (Inr r)"
    using assms(2) q by (auto simp: login_inv_def exchange_ok_def delivery_ok_def split: if_splits)
  show ?thesis
  proof (cases x)
    case (Inl e)
    note late = late_not_special exchange_fails_late[OF x[unfolded Inl]]
    have "lg_err s = None" and t: "t = (show_page (FailurePage (ce_page e)) s)
        \<lparr>lg_server := None, lg_world := w, lg_err := Some (CallbackFailed (ce_err e)), lg_consumed := True\<rparr>"
      using assms(1,3) q x Inl late
      by (auto simp: serve_exchange_def answerCallbackError_def show_page_def split: if_splits)
    show ?thesis using one none
      by (simp add: t login_inv_def exchange_ok_def delivery_ok_def progress_ok_def)
  next
    case (Inr r)
    have t: "t = (show_page (SuccessPage (lc_link cfg r)) s)
        \<lparr>lg_server := None, lg_world := w, lg_result := Some r, lg_consumed := True\<rparr>"
      using assms(1,3) q x Inr one by (simp add: serve_exchange_def)
    have "came_from h [q] r" using x one(3) Inr unfolding came_from_def by blast
    then show ?thesis using one none
      by (simp add: t login_inv_def exchange_ok_def delivery_ok_def progress_ok_def)
  qed
qed

lemma paste_exchange_inv:
  assumes "lc_handler cfg = h" and "login_inv h s" and "paste_exchange cfg s = Some t"
  shows "login_inv h t"
proof -
  obtain q where q: "lg_paste s = Some q" using assms(3) by (auto simp: paste_exchange_def split: option.splits)
  obtain x w where x: "ph_exchange h q (lg_world s) = (x, w)" by (metis surj_pair)
  have one: "lg_taken s" "lg_exchanged s = [q]" "ph_check h q = None" "lg_server s = None" "lg_result s = None"
      "lg_outcome s = None"
    using assms(2) q by (auto simp: login_inv_def exchange_ok_def delivery_ok_def split: if_splits)
  show ?thesis
  proof (cases x)
    case (Inl e)
    note late = late_not_special exchange_fails_late[OF x[unfolded Inl]]
    have t: "t = say (PasteRejected (Rejected (ce_err e))) (s\<lparr>lg_paste := None, lg_world := w\<rparr>)"
      using assms(1,3) q x Inl late by (auto simp: paste_exchange_def paste_answer_def)
    then have "told_failure t" using late(2) by (auto simp: told_failure_def)
    then show ?thesis using one
      by (simp add: t login_inv_def exchange_ok_def delivery_ok_def progress_ok_def)
  next
    case (Inr r)
    have t: "t = s\<lparr>lg_paste := None, lg_world := w, lg_outcome := Some (Inr r)\<rparr>"
      using assms(1,3) q x Inr by (simp add: paste_exchange_def)
    have "came_from h [q] r" using x one(3) Inr unfolding came_from_def by blast
    then show ?thesis using one
      by (simp add: t login_inv_def exchange_ok_def delivery_ok_def progress_ok_def)
  qed
qed

text \<open>The outcome of a waiting goroutine that takes what a channel holds, or stops for another reason.\<close>

lemma take_channel_inv:
  assumes "login_inv h s" and "take_result_ch s = Some t" and "waiting s"
  shows "login_inv h t"
proof -
  obtain r where "lg_result s = Some r" and t: "t = s\<lparr>lg_result := None, lg_outcome := Some (Inr r)\<rparr>"
    using assms(2) by (auto simp: take_result_ch_def)
  then have "lg_server s = None" "lg_paste s = None" "came_from h (lg_exchanged s) r"
    using assms(1) by (auto simp: login_inv_def delivery_ok_def)
  then show ?thesis using assms(1) by (simp add: t login_inv_def delivery_ok_def progress_ok_def)
qed

lemma stop_inv:
  assumes "login_inv h s" and "waiting s" and "lg_outcome t = Some (Inl e)"
    and "lg_taken t = lg_taken s" "lg_exchanged t = lg_exchanged s" "lg_server t = lg_server s" "lg_paste t = lg_paste s"
      "lg_result t = lg_result s"
  shows "login_inv h t"
proof -
  have "lg_paste s = None" using assms(2) by (simp add: waiting_def)
  then show ?thesis using assms(1,3-8) by (simp add: login_inv_def delivery_ok_def progress_ok_def)
qed

lemma take_error_inv: "login_inv h s \<Longrightarrow> take_error_ch s = Some t \<Longrightarrow> waiting s \<Longrightarrow> login_inv h t"
  by (erule stop_inv[where e = "the (lg_err s)"]) (auto simp: take_error_ch_def)

lemma paste_answer_inv:
  assumes "login_inv h s" and "waiting s"
  shows "login_inv h (paste_answer e s)"
proof (cases "ce_err e = BrowserCancelled")
  case True
  then show ?thesis
    using stop_inv[OF assms, of "paste_answer e s" "CallbackFailed BrowserCancelled"] by (simp add: paste_answer_def)
next
  case False
  then have "same_exchange s (paste_answer e s)" by (simp add: paste_answer_def)
  then show ?thesis using same_exchange_inv assms(1) by blast
qed

lemma paste_line_inv:
  assumes "lc_handler cfg = h" and "login_inv h s" and "waiting s" and "paste_line cfg line s = Some t"
  shows "login_inv h t"
proof (cases "go_trim_space line = [] \<or> (\<exists>e. ParseCallbackInput (lc_parse cfg) line = Inl e)")
  case True
  then have "same_exchange s t"
    using assms(4) by (auto simp: paste_line_def split: if_split_asm)
  then show ?thesis using same_exchange_inv assms(2) by blast
next
  case False
  then obtain q where "ParseCallbackInput (lc_parse cfg) line = Inr q" by (cases "ParseCallbackInput (lc_parse cfg) line") auto
  then have t: "Some t = (case ph_check h q of
                   Some e \<Rightarrow> Some (paste_answer e s)
                 | None \<Rightarrow>
                     if lg_taken s then Some (paste_answer claimed_error s)
                     else Some (s\<lparr>lg_taken := True, lg_paste := Some q, lg_exchanged := lg_exchanged s @ [q]\<rparr>))"
    using assms(1,4) False by (simp add: paste_line_def split: if_split_asm)
  show ?thesis
  proof (cases "ph_check h q")
    case None
    then show ?thesis
      using t assms(2,3) paste_answer_inv claim_paste_inv[OF assms(2) _ None] by (cases "lg_taken s") (simp_all add: waiting_def)
  next
    case (Some e)
    then show ?thesis using t paste_answer_inv assms(2,3) by simp
  qed
qed

lemma press_enter_inv:
  assumes "login_inv h s" and "waiting s" and "press_enter cfg a b now s = Some t"
  shows "login_inv h t"
proof -
  have "same_exchange s (say PageReopened (s\<lparr>lg_reopened := Some now\<rparr>))" by (auto simp: same_exchange_def)
  then consider "same_exchange s t" | "take_error_ch s = Some t" | "take_result_ch s = Some t"
    using assms(3) by (auto simp: press_enter_def split: if_splits)
  then show ?thesis
    using same_exchange_inv take_error_inv take_channel_inv assms(1,2) by cases blast+
qed

lemma login_step_inv:
  assumes "lc_handler cfg = h" and "login_inv h s" and "login_step cfg ev s = Some t"
  shows "login_inv h t"
proof (cases ev)
  case (ContextDone e)
  then show ?thesis using assms(3) stop_inv[OF assms(2), of t "ContextEnded e"]
    by (auto simp: login_step_def split: if_split_asm)
next
  case PasteClosed
  then have "same_exchange s t"
    using assms(3) by (auto simp: login_step_def paste_closes_def same_exchange_def split: if_splits)
  then show ?thesis using same_exchange_inv assms(2) by blast
next
  case (ServeError e)
  then have "same_exchange s t"
    using assms(3) by (auto simp: login_step_def serve_fails_def same_exchange_def split: if_splits)
  then show ?thesis using same_exchange_inv assms(2) by blast
next
  case (Request m q)
  then show ?thesis using serve_request_inv[OF assms(1,2)] assms(3) by (simp add: login_step_def)
next
  case ServerExchanged
  then show ?thesis using serve_exchange_inv[OF assms(1,2)] assms(3) by (simp add: login_step_def)
next
  case PasteExchanged
  then show ?thesis using paste_exchange_inv[OF assms(1,2)] assms(3) by (simp add: login_step_def)
next
  case ResultTaken
  then show ?thesis using take_channel_inv[OF assms(2)] assms(3) by (simp add: login_step_def split: if_split_asm)
next
  case ErrorTaken
  then show ?thesis using take_error_inv[OF assms(2)] assms(3) by (simp add: login_step_def split: if_split_asm)
next
  case (PasteLine line)
  then show ?thesis using paste_line_inv[OF assms(1,2)] assms(3) by (simp add: login_step_def split: if_split_asm)
next
  case (EnterPressed a b now)
  then show ?thesis using press_enter_inv[OF assms(2)] assms(3) by (simp add: login_step_def split: if_split_asm)
qed

lemma login_steps_inv:
  assumes "lc_handler cfg = h" and "login_inv h s" and "login_steps cfg s t"
  shows "login_inv h t"
  using assms(3)
proof (induction rule: login_steps.induct)
  case login_refl
  then show ?case using assms(2) .
next
  case (login_trans t ev u)
  show ?case by (rule login_step_inv[OF assms(1) login_trans(3,2)])
qed

lemma login_reachable_inv:
  assumes "lc_handler cfg = h" and "login_reachable cfg s"
  shows "login_inv h s"
proof -
  obtain w where "login_steps cfg (new_login w) s" using assms(2) unfolding login_reachable_def by blast
  then show ?thesis by (rule login_steps_inv[OF assms(1) new_login_inv])
qed

text \<open>What a reachable login has exchanged, what it delivers, and that it goes on.\<close>

lemma exchanged_once:
  assumes "lc_handler cfg = h" and "login_reachable cfg s"
  shows "length (lg_exchanged s) \<le> 1" and "\<forall>q \<in> set (lg_exchanged s). vetted q"
  using login_reachable_inv[OF assms] check_vets by (auto simp: login_inv_def exchange_ok_def split: if_split_asm)

lemma delivered_sound:
  assumes "lc_handler cfg = h" and "login_reachable cfg s" and "lg_outcome s = Some (Inr r)"
  shows "sound r" and "came_from h (lg_exchanged s) r"
proof -
  show origin: "came_from h (lg_exchanged s) r"
    using login_reachable_inv[OF assms(1,2)] assms(3) unfolding login_inv_def delivery_ok_def by blast
  show "sound r" using origin exchange_sound unfolding came_from_def by blast
qed

lemma claimed_login_goes_on:
  assumes "lc_handler cfg = h" and "login_reachable cfg s" and "lg_taken s \<or> lg_consumed s"
    and "lg_outcome s = None" and "\<not> told_failure s"
  shows "\<exists>ev \<in> {ServerExchanged, PasteExchanged, ResultTaken, ErrorTaken}. login_step cfg ev s \<noteq> None"
proof -
  note inv = login_reachable_inv[OF assms(1,2), unfolded login_inv_def]
  then have go: "lg_server s \<noteq> None \<or> lg_paste s \<noteq> None \<or> lg_result s \<noteq> None \<or> lg_err s \<noteq> None"
    using assms(3-5) unfolding progress_ok_def by blast
  show ?thesis
  proof (cases "lg_paste s")
    case (Some q)
    then have "login_step cfg PasteExchanged s \<noteq> None"
      by (simp add: login_step_def paste_exchange_def split: prod.split sum.split)
    then show ?thesis by blast
  next
    case None
    then have wait: "waiting s" using assms(4) by (simp add: waiting_def)
    show ?thesis
    proof (cases "lg_result s = None \<and> lg_err s = None")
      case True
      then have "lg_server s \<noteq> None" using go None by simp
      then have "login_step cfg ServerExchanged s \<noteq> None"
        using True by (auto simp: login_step_def serve_exchange_def answerCallbackError_def split: prod.split sum.split)
      then show ?thesis by blast
    next
      case False
      then have "login_step cfg ResultTaken s \<noteq> None \<or> login_step cfg ErrorTaken s \<noteq> None"
        using wait by (auto simp: login_step_def take_result_ch_def take_error_ch_def)
      then show ?thesis by blast
    qed
  qed
qed

lemma failed_paste:
  assumes "lc_handler cfg = h" and "login_reachable cfg s" and "lg_paste s = Some q"
    and "ph_exchange h q (lg_world s) = (Inl e, w)" and "login_step cfg PasteExchanged s = Some t"
  shows "lg_taken t \<and> lg_server t = None \<and> lg_paste t = None \<and> lg_result t = None \<and> lg_outcome t = None \<and> told_failure t"
proof -
  note late = late_not_special exchange_fails_late[OF assms(4)]
  have t: "t = say (PasteRejected (Rejected (ce_err e))) (s\<lparr>lg_paste := None, lg_world := w\<rparr>)"
    using assms(1,3-5) late by (auto simp: login_step_def paste_exchange_def paste_answer_def)
  then have "told_failure t" using late(2) by (auto simp: told_failure_def)
  moreover have "lg_taken s" "lg_server s = None" "lg_result s = None" "lg_outcome s = None"
    using login_reachable_inv[OF assms(1,2)] assms(3)
    by (auto simp: login_inv_def exchange_ok_def delivery_ok_def split: if_split_asm)
  ultimately show ?thesis by (simp add: t)
qed

end

section \<open>A lost login\<close>

text \<open>The guard is taken, but nobody exchanges and nothing was delivered.\<close>

definition lost :: "('w, 'r) login \<Rightarrow> bool" where
  "lost s \<longleftrightarrow> lg_taken s \<and> lg_server s = None \<and> lg_paste s = None \<and> lg_result s = None \<and> (\<forall>r. lg_outcome s \<noteq> Some (Inr r))"

lemma lost_step:
  assumes "lost s" and "login_step cfg ev s = Some t"
  shows "lost t"
proof -
  have answer: "answerCallbackError e s = Some u \<Longrightarrow> lost u" for e u
    using assms(1) by (auto simp: answerCallbackError_def lost_def split: if_split_asm)
  have paste: "lost (paste_answer e s)" for e using assms(1) by (auto simp: paste_answer_def lost_def)
  have "take_result_ch s = None" using assms(1) by (simp add: lost_def take_result_ch_def)
  moreover have "take_error_ch s = Some u \<Longrightarrow> lost u" for u using assms(1) by (auto simp: take_error_ch_def lost_def)
  moreover have "serve_exchange cfg s = None" "paste_exchange cfg s = None"
    using assms(1) by (simp_all add: lost_def serve_exchange_def paste_exchange_def)
  moreover have pages: "lost (show_page p s)" "lost (say m s)" for p m using assms(1) by (simp_all add: lost_def)
  moreover have updates: "lost (say m (s\<lparr>lg_closed := b\<rparr>))" "lost (say m (s\<lparr>lg_reopened := y\<rparr>))" "lost (s\<lparr>lg_err := z\<rparr>)"
      "lost (s\<lparr>lg_outcome := Some (Inl l)\<rparr>)" for m b y z l
    using assms(1) by (simp_all add: lost_def)
  moreover have taken: "lg_taken s" using assms(1) by (simp add: lost_def)
  ultimately show ?thesis
  proof (cases ev)
    case (Request m q)
    then show ?thesis using assms(2) answer pages taken
      by (auto simp: login_step_def serve_request_def split: if_split_asm option.split_asm)
  next
    case (PasteLine line)
    then show ?thesis using assms paste pages taken
      by (auto simp: login_step_def paste_line_def split: if_split_asm option.split_asm sum.split_asm)
  next
    case (EnterPressed a b now)
    then show ?thesis using assms updates taken \<open>take_result_ch s = None\<close> \<open>\<And>u. take_error_ch s = Some u \<Longrightarrow> lost u\<close>
      by (auto simp: login_step_def press_enter_def split: if_split_asm)
  qed (use assms(2) in \<open>auto simp: login_step_def serve_fails_def paste_closes_def split: if_split_asm\<close>)
qed

lemma lost_steps: "login_steps cfg s t \<Longrightarrow> lost s \<Longrightarrow> lost t"
  by (induction rule: login_steps.induct) (auto intro: lost_step)

lemma lost_success_page:
  assumes "lost s" and "\<not> lg_consumed s" and "ph_check (lc_handler cfg) q = None"
    and "callbackBelongsToFlow q (lc_state cfg)"
  shows "\<exists>t. login_step cfg (Request ''GET'' q) s = Some t \<and> lg_consumed t \<and> last (lg_pages t) = SuccessPage None"
  using assms by (simp add: lost_def login_step_def serve_request_def answerCallbackError_def show_page_def)

text \<open>A request that is not this login's, or that lacks something, only adds a page and a message.\<close>

lemma request_ignored:
  assumes "meth \<noteq> ''GET'' \<or> \<not> callbackBelongsToFlow q (lc_state cfg) \<or>
      (\<exists>e. ph_check (lc_handler cfg) q = Some e \<and> ce_retryable e \<and> ce_err e \<noteq> ExchangeClaimed)"
    and "login_step cfg (Request meth q) s = Some t"
  shows "t = s\<lparr>lg_pages := lg_pages t, lg_said := lg_said t\<rparr>"
proof -
  have page: "show_page p u = u\<lparr>lg_pages := lg_pages (show_page p u), lg_said := lg_said (show_page p u)\<rparr>" for p and u :: "('a, 'b) login"
    by (simp add: show_page_def)
  show ?thesis using assms page
    by (auto simp: login_step_def serve_request_def answerCallbackError_def show_page_def say_def split: if_split_asm)
qed

section \<open>The two flows\<close>

lemma checkCallbackBasics_Inr:
  "checkCallbackBasics q st = Inr code \<Longrightarrow> callbackBelongsToFlow q st \<and> query_get q ''error'' = [] \<and> code = query_get q ''code'' \<and> code \<noteq> []"
  by (auto simp: checkCallbackBasics_def Let_def split: if_split_asm)

lemma checkCallbackBasics_Inl:
  "checkCallbackBasics q st = Inl e \<Longrightarrow> ce_err e \<noteq> ExchangeClaimed"
  by (auto simp: checkCallbackBasics_def Let_def split: if_split_asm)

lemma exchangeCodeForToken_Inr:
  "exchangeCodeForToken env ep code v w = (Inr d, w') \<Longrightarrow>
   xd_token d \<noteq> [] \<and> trusted_url hasTrustedDomainSuffix (le_parse env) (xd_endpoint d)"
  by (auto simp: exchangeCodeForToken_def ValidateEndpointURL_def Let_def dest: validate_host_trusted
      split: sum.split_asm prod.split_asm if_split_asm option.split_asm)

interpretation plugin: exchange_handler "plugin_handler env st v"
    "\<lambda>q. callbackBelongsToFlow q st \<and> query_get q ''code'' \<noteq> [] \<and>
       trusted_url hasTrustedDomainSuffix (le_parse env) (query_get q ''endpoint'')"
    "\<lambda>r. lr_Token r \<noteq> [] \<and> trusted_url hasTrustedDomainSuffix (le_parse env) (lr_APIEndpoint r)"
  for env st v
proof (unfold_locales, goal_cases)
  case (1 q)
  then show ?case
    by (auto simp: plugin_handler_def plugin_check_def ValidateEndpointURL_def Let_def dest: checkCallbackBasics_Inr validate_host_trusted
        split: sum.split_asm option.split_asm if_split_asm)
next
  case (2 q e)
  then show ?case
    by (auto simp: plugin_handler_def plugin_check_def Let_def dest: checkCallbackBasics_Inl
        split: sum.split_asm option.split_asm if_split_asm)
next
  case (3 q w r w')
  then show ?case
    by (auto simp: plugin_handler_def plugin_exchange_def Let_def dest: exchangeCodeForToken_Inr
        split: sum.split_asm prod.split_asm if_split_asm)
next
  case (4 q w e w')
  then show ?case
    by (auto simp: plugin_handler_def plugin_exchange_def late_failure_def Let_def
        split: sum.split_asm prod.split_asm if_split_asm)
qed

interpretation gcom: exchange_handler "gcom_handler env opts st v uri"
    "\<lambda>q. callbackBelongsToFlow q st \<and> query_get q ''code'' \<noteq> []" "\<lambda>r. gm_AccessToken r \<noteq> []"
  for env opts st v uri
proof (unfold_locales, goal_cases)
  case (1 q)
  then show ?case by (auto simp: gcom_handler_def gcom_check_def dest: checkCallbackBasics_Inr split: sum.split_asm)
next
  case (2 q e)
  then show ?case by (auto simp: gcom_handler_def gcom_check_def dest: checkCallbackBasics_Inl split: sum.split_asm)
next
  case (3 q w r w')
  then show ?case
    by (auto simp: gcom_handler_def gcom_exchange_def exchangeGCOMToken_def Let_def split: sum.split_asm prod.split_asm if_split_asm)
next
  case (4 q w e w')
  then show ?case
    by (auto simp: gcom_handler_def gcom_exchange_def late_failure_def split: sum.split_asm prod.split_asm)
qed

definition plugin_login :: "'w login_env \<Rightarrow> string \<Rightarrow> string \<Rightarrow> watcher_kind \<Rightarrow> ('w, login_result) login_config" where
  "plugin_login env st v kind =
     \<lparr>lc_handler = plugin_handler env st v, lc_state = st, lc_parse = le_parse env,
      lc_link = (\<lambda>r. stackLink (le_parse env) (lr_InstanceEndpoint r)), lc_watcher = kind\<rparr>"

definition gcom_login :: "'w login_env \<Rightarrow> gcom_options \<Rightarrow> string \<Rightarrow> string \<Rightarrow> string \<Rightarrow> watcher_kind \<Rightarrow> ('w, gcom_result) login_config" where
  "gcom_login env opts st v uri kind =
     \<lparr>lc_handler = gcom_handler env opts st v uri, lc_state = st, lc_parse = le_parse env, lc_link = (\<lambda>r. None), lc_watcher = kind\<rparr>"

lemma login_handlers [simp]:
  "lc_handler (plugin_login env st v kind) = plugin_handler env st v"
  "lc_handler (gcom_login env opts st v uri kind) = gcom_handler env opts st v uri"
  by (simp_all add: plugin_login_def gcom_login_def)

text \<open>C23. A login, however its callbacks, pasted lines and waits interleave, exchanges one code at most, and only
  parameters with its own state, a code and a trusted endpoint; what it delivers came from that exchange and has a token
  and a trusted endpoint.\<close>

theorem login_exchanges_once:
  assumes "login_reachable (plugin_login env st v kind) s"
  shows "length (lg_exchanged s) \<le> 1 \<and>
    (\<forall>q \<in> set (lg_exchanged s). callbackBelongsToFlow q st \<and> query_get q ''code'' \<noteq> [] \<and>
       trusted_url hasTrustedDomainSuffix (le_parse env) (query_get q ''endpoint'')) \<and>
    (\<forall>r. lg_outcome s = Some (Inr r) \<longrightarrow> lr_Token r \<noteq> [] \<and>
       trusted_url hasTrustedDomainSuffix (le_parse env) (lr_APIEndpoint r) \<and>
       (\<exists>q w w'. lg_exchanged s = [q] \<and> plugin_exchange env v q w = (Inr r, w')))"
proof -
  have h: "lc_handler (plugin_login env st v kind) = plugin_handler env st v" by simp
  have "\<exists>q w w'. lg_exchanged s = [q] \<and> plugin_exchange env v q w = (Inr r, w')" if "lg_outcome s = Some (Inr r)" for r
    using plugin.delivered_sound(2)[OF h assms that] by (auto simp: came_from_def plugin_handler_def)
  then show ?thesis
    using plugin.exchanged_once[OF h assms] plugin.delivered_sound(1)[OF h assms] by blast
qed

text \<open>C21. A login that has claimed the exchange, or that a callback ended, always has a next step that leads to its outcome,
  except after the exchange of a pasted URL failed.\<close>

theorem claimed_login_progress:
  assumes "login_reachable (plugin_login env st v kind) s" and "lg_taken s \<or> lg_consumed s"
    and "lg_outcome s = None" and "\<not> told_failure s"
  shows "login_step (plugin_login env st v kind) ServerExchanged s \<noteq> None \<or>
    login_step (plugin_login env st v kind) PasteExchanged s \<noteq> None \<or>
    login_step (plugin_login env st v kind) ResultTaken s \<noteq> None \<or>
    login_step (plugin_login env st v kind) ErrorTaken s \<noteq> None"
  using plugin.claimed_login_goes_on[OF _ assms, of env st v] by auto

text \<open>C32. Once the exchange of a pasted URL has failed, no course of events lets the login succeed, although it goes on
  waiting and asks for another URL; the first complete callback is answered with the page of a successful login and
  ends nothing.\<close>

theorem failed_paste_loses_login:
  assumes "login_reachable (plugin_login env st v kind) s" and "lg_paste s = Some q"
    and "plugin_exchange env v q (lg_world s) = (Inl e, w)"
    and "login_step (plugin_login env st v kind) PasteExchanged s = Some t"
    and "login_steps (plugin_login env st v kind) t u"
  shows "lg_outcome t = None \<and> told_failure t \<and> (\<forall>r. lg_outcome u \<noteq> Some (Inr r)) \<and>
    (\<not> lg_consumed u \<and> plugin_check env st p = None \<longrightarrow>
       (\<exists>x. login_step (plugin_login env st v kind) (Request ''GET'' p) u = Some x \<and> lg_consumed x \<and>
          lg_err x = lg_err u \<and> last (lg_pages x) = SuccessPage None))"
proof -
  have h: "lc_handler (plugin_login env st v kind) = plugin_handler env st v" by simp
  have t: "lg_taken t \<and> lg_server t = None \<and> lg_paste t = None \<and> lg_result t = None \<and> lg_outcome t = None \<and> told_failure t"
    using plugin.failed_paste[OF h assms(1,2) _ assms(4)] assms(3) by (simp add: plugin_handler_def)
  then have u: "lost u" using lost_steps[OF assms(5)] by (simp add: lost_def)
  have "plugin_check env st p = None \<Longrightarrow> callbackBelongsToFlow p st"
    using plugin.check_vets[of env st v p] by (simp add: plugin_handler_def)
  then show ?thesis using t u
    by (auto simp: lost_def login_step_def serve_request_def answerCallbackError_def show_page_def plugin_login_def plugin_handler_def)
qed

theorem foreign_request_ignored:
  assumes "meth \<noteq> ''GET'' \<or> \<not> callbackBelongsToFlow q st \<or> (\<exists>e. plugin_check env st q = Some e \<and> ce_retryable e)"
    and "login_step (plugin_login env st v kind) (Request meth q) s = Some t"
  shows "t = s\<lparr>lg_pages := lg_pages t, lg_said := lg_said t\<rparr>"
  using assms plugin.check_unclaimed[of env st v q]
  by (intro request_ignored[OF _ assms(2)]) (auto simp: plugin_login_def plugin_handler_def)

text \<open>A login whose answers are given by a table of URLs and one answer of the server.\<close>

definition sample_url :: "string \<Rightarrow> string \<Rightarrow> string \<Rightarrow> string \<Rightarrow> go_url" where
  "sample_url scheme host path query =
     \<lparr>gu_scheme = scheme, gu_user = False, gu_host = host, gu_hostname = host, gu_path = path, gu_escaped_path = path,
      gu_query = query, gu_fragment = []\<rparr>"

definition sample_urls :: "(string \<times> go_url) list" where
  "sample_urls =
     [(''http://127.0.0.1/callback?q'', sample_url ''http'' ''127.0.0.1'' ''/callback''
         ''state=st&code=c&endpoint=https://s.grafana.net&instanceEndpoint=https://s.grafana.net''),
      (''https://s.grafana.net'', sample_url ''https'' ''s.grafana.net'' [] []),
      (''https://s.grafana.net/api/cli/v1/auth/exchange'', sample_url ''https'' ''s.grafana.net'' ''/api/cli/v1/auth/exchange'' [])]"

definition sample_login_env :: "nat \<Rightarrow> unit login_env" where
  "sample_login_env status =
     \<lparr>le_parse = (\<lambda>s. case map_of sample_urls s of None \<Rightarrow> Inl ''not a URL'' | Some u \<Rightarrow> Inr u),
      le_post = (\<lambda>check url body w. (Inr (status, ''data''), w)),
      le_exchange = (\<lambda>s. Inr \<lparr>xd_token = ''gat'', xd_email = ''a'', xd_expires = ''t'', xd_endpoint = ''https://s.grafana.net'',
         xd_refresh = ''gar'', xd_refresh_expires = ''t''\<rparr>),
      le_token = (\<lambda>s. Inl ''none''), le_after = (\<lambda>n w. [])\<rparr>"

abbreviation sample_login :: "nat \<Rightarrow> (unit, login_result) login_config" where
  "sample_login status \<equiv> plugin_login (sample_login_env status) ''st'' ''verifier'' PasteWatcher"

definition sample_query :: url_values where
  "sample_query = [(''state'', [''st'']), (''code'', [''c'']), (''endpoint'', [''https://s.grafana.net'']),
     (''instanceEndpoint'', [''https://s.grafana.net''])]"

lemma run_reachable: "login_run cfg evs (new_login w) = Some s \<Longrightarrow> login_reachable cfg s"
  unfolding login_reachable_def login_steps_run by blast

definition sample_line :: string where
  "sample_line = ''http://127.0.0.1/callback?q''"

lemma sample_check: "plugin_check (sample_login_env status) ''st'' sample_query = None"
  by code_simp

lemma sample_pasted: "login_step (sample_login status) (PasteLine sample_line) (new_login ()) =
     Some ((new_login ())\<lparr>lg_taken := True, lg_paste := Some sample_query, lg_exchanged := [sample_query]\<rparr>)"
proof -
  have plain: "sample_line \<noteq> []" "unreserved (hd sample_line)" "unreserved (last sample_line)" by code_simp+
  have "ParseCallbackInput (le_parse (sample_login_env status)) sample_line = Inr sample_query"
    by (rule ParseCallbackInput_plain[OF plain, of _ "snd (sample_urls ! 0)"]) code_simp+
  then show ?thesis using sample_check trim_plain(1)[OF plain] plain(1)
    by (simp add: login_step_def waiting_def new_login_def paste_line_def plugin_login_def plugin_handler_def)
qed

lemma login_exchanges_once_witness:
  "\<exists>s r. login_run (sample_login 200) [Request ''GET'' [(''state'', [''other''])], Request ''GET'' sample_query, ServerExchanged, ResultTaken]
       (new_login ()) = Some s \<and> lg_outcome s = Some (Inr r) \<and> lr_Token r \<noteq> [] \<and> length (lg_exchanged s) \<le> 1"
proof -
  let ?run = "login_run (sample_login 200)
       [Request ''GET'' [(''state'', [''other''])], Request ''GET'' sample_query, ServerExchanged, ResultTaken] (new_login ())"
  have "map_option (\<lambda>s. case lg_outcome s of Some (Inr r) \<Rightarrow> lr_APIEndpoint r | _ \<Rightarrow> []) ?run = Some ''https://s.grafana.net''"
    by code_simp
  then obtain s where s: "?run = Some s" "(case lg_outcome s of Some (Inr r) \<Rightarrow> lr_APIEndpoint r | _ \<Rightarrow> []) = ''https://s.grafana.net''"
    by (cases ?run) auto
  then obtain r where "lg_outcome s = Some (Inr r)" by (auto split: option.split_asm sum.split_asm)
  then show ?thesis using s(1) login_exchanges_once[OF run_reachable[OF s(1)]] by blast
qed

lemma claimed_login_progress_witness:
  "login_step (sample_login 200) PasteExchanged ((new_login ())\<lparr>lg_taken := True, lg_paste := Some sample_query, lg_exchanged := [sample_query]\<rparr>) \<noteq> None"
  (is "login_step ?c _ ?s \<noteq> None")
proof -
  have "login_reachable ?c ?s"
    using run_reachable[of ?c "[PasteLine sample_line]" "()"] sample_pasted by simp
  moreover have "lg_taken ?s \<or> lg_consumed ?s" "lg_outcome ?s = None" "\<not> told_failure ?s"
    by (simp_all add: new_login_def told_failure_def)
  moreover have "login_step ?c ServerExchanged ?s = None" "login_step ?c ResultTaken ?s = None" "login_step ?c ErrorTaken ?s = None"
    by (simp_all add: login_step_def serve_exchange_def take_result_ch_def take_error_ch_def new_login_def)
  ultimately show ?thesis using claimed_login_progress[of "sample_login_env 200" "''st''" "''verifier''" PasteWatcher ?s] by blast
qed

lemma failed_paste_loses_login_witness:
  "\<exists>t x. login_run (sample_login 500) [PasteLine sample_line, PasteExchanged] (new_login ()) = Some t \<and>
     login_step (sample_login 500) (Request ''GET'' sample_query) t = Some x \<and>
     last (lg_pages x) = SuccessPage None \<and> lg_outcome x = None \<and> lg_err x = None"
proof -
  let ?c = "sample_login 500"
  let ?s = "(new_login ())\<lparr>lg_taken := True, lg_paste := Some sample_query, lg_exchanged := [sample_query]\<rparr> :: (unit, login_result) login"
  have reach: "login_reachable ?c ?s" using run_reachable[of ?c "[PasteLine sample_line]" "()"] sample_pasted by simp
  have paste: "lg_paste ?s = Some sample_query" by simp
  have fails: "plugin_exchange (sample_login_env 500) ''verifier'' sample_query (lg_world ?s) =
      (Inl (callback_fails (ExchangeFailed (ExchangeStatus 500 ''/api/cli/v1/auth/exchange'')) ''Token exchange failed'' False), ())"
    by code_simp
  then obtain t where t: "login_step ?c PasteExchanged ?s = Some t"
    by (simp add: login_step_def paste_exchange_def plugin_login_def plugin_handler_def)
  have "\<not> lg_consumed t" "lg_err t = None"
    using t fails by (auto simp: login_step_def paste_exchange_def paste_answer_def plugin_login_def plugin_handler_def new_login_def)
  moreover note failed_paste_loses_login[OF reach paste fails t login_refl, of sample_query]
  ultimately obtain x where x: "login_step ?c (Request ''GET'' sample_query) t = Some x" "last (lg_pages x) = SuccessPage None"
      "lg_err x = None" and none: "lg_outcome t = None"
    using sample_check by metis
  have "lg_outcome x = None"
    using x(1) none by (auto simp: login_step_def serve_request_def answerCallbackError_def split: if_split_asm option.split_asm)
  moreover have "login_run ?c [PasteLine sample_line, PasteExchanged] (new_login ()) = Some t" using sample_pasted t by simp
  ultimately show ?thesis using x by blast
qed

section \<open>The manual flow\<close>

datatype run_error = BadLaunchOrigin launch_error | ManualWithPort

definition Run_checks :: "url_parser \<Rightarrow> login_flow \<Rightarrow> run_error option" where
  "Run_checks parse f =
     (case (if lo_LaunchOrigin (fl_opts f) \<noteq> [] \<and> fl_endpoint f = []
            then ValidateLaunchOrigin parse (lo_LaunchOrigin (fl_opts f)) else None) of
        Some e \<Rightarrow> Some (BadLaunchOrigin e)
      | None \<Rightarrow> if lo_Manual (fl_opts f) \<and> lo_Port (fl_opts f) \<noteq> 0 then Some ManualWithPort else None)"

definition runManual ::
  "'w login_env \<Rightarrow> string \<Rightarrow> string \<Rightarrow> read_event list \<Rightarrow> 'w \<Rightarrow>
     (manual_failure + login_result) \<times> paste_rejection list \<times> bool \<times> 'w" where
  "runManual env st v rs w = runManualPaste (le_parse env) (plugin_handler env st v) rs w"

text \<open>At most as many lines are read as there are tries, and what is delivered passed the checks of the handler.\<close>

lemma try_line_sound:
  "try_line parse h line w = (Accepted r, w') \<Longrightarrow> \<exists>q u u'. ph_check h q = None \<and> ph_exchange h q u = (Inr r, u')"
  by (auto simp: try_line_def handle_params_def guard_claim_def
      split: sum.split_asm prod.split_asm option.split_asm if_split_asm)

lemma manual_tries_sound:
  "manual_tries n parse h x rs w = (res, told, k, w') \<Longrightarrow>
   k \<le> n \<and> length told < max 1 n \<and>
   (\<forall>r. res = Inr r \<longrightarrow> (\<exists>q u u'. ph_check h q = None \<and> ph_exchange h q u = (Inr r, u')))"
proof (induction n arbitrary: x rs w res told k w')
  case (Suc n)
  obtain l rs' where l: "readLine [] rs = (l, rs')" by (metis surj_pair)
  show ?case
  proof (cases l)
    case (Inl e)
    then show ?thesis using Suc.prems l by auto
  next
    case (Inr line)
    obtain a w1 where a: "try_line parse h line w = (a, w1)" by (metis surj_pair)
    show ?thesis
    proof (cases a)
      case (Refused y)
      obtain res' told' k' w2 where rest: "manual_tries n parse h (Some y) rs' w1 = (res', told', k', w2)"
        by (metis prod_cases4)
      then have "res = res'" "k = Suc k'" "told = (if n = 0 then told' else y # told')"
        using Suc.prems l Inr a Refused by auto
      then show ?thesis using Suc.IH[OF rest] by (cases n) auto
    qed (use Suc.prems l Inr a try_line_sound in auto)
  qed
qed auto

lemma runManual_sound:
  assumes "runManual env st v rs w = (res, told, notice, w')"
  shows "length told \<le> 2" and "res = Inr r \<Longrightarrow> lr_Token r \<noteq> [] \<and> trusted_url hasTrustedDomainSuffix (le_parse env) (lr_APIEndpoint r)"
proof -
  obtain k where tries: "manual_tries 3 (le_parse env) (plugin_handler env st v) None rs w = (res, told, k, w')"
    using assms by (auto simp: runManual_def runManualPaste_def manualPasteTries_def split: prod.split_asm)
  show "length told \<le> 2" using manual_tries_sound[OF tries] by simp
  show "res = Inr r \<Longrightarrow> lr_Token r \<noteq> [] \<and> trusted_url hasTrustedDomainSuffix (le_parse env) (lr_APIEndpoint r)"
    using manual_tries_sound[OF tries] plugin.exchange_sound[of env st v] by metis
qed

end
