(* ===== verification/Gcx_UsageAPI.thy ===== *)
theory Gcx_UsageAPI
  imports Gcx_Config
begin

text \<open>
  The usage detail of \<^verbatim>\<open>gcx api\<close> requests (\<^verbatim>\<open>telemetry/api.go\<close> and \<^verbatim>\<open>telemetry/api_vocabulary.go\<close>): how the method,
  the path and the body of a request are reduced to values of closed vocabularies. The lemmas show that nothing
  else of a request can be read from what is recorded.
\<close>

section \<open>Vocabularies\<close>

text \<open>The maps to \<^verbatim>\<open>true\<close> of the source are lists of their keys.\<close>

definition httpMethods :: "string list" where
  "httpMethods =
   [''GET'', ''POST'', ''PUT'', ''PATCH'', ''DELETE'', ''HEAD'', ''OPTIONS'', ''TRACE'']"

definition apiRouteTemplates :: "string list" where
  "apiRouteTemplates =
   [''/api/health'', ''/api/frontend/settings'', ''/api/search'', ''/api/ds/query'', ''/api/dashboards/db'',
    ''/api/dashboards/home'', ''/api/dashboards/import'', ''/api/dashboards/tags'',
    ''/api/dashboards/uid/{uid}'', ''/api/dashboards/uid/{uid}/versions'',
    ''/api/dashboards/uid/{uid}/versions/{version}'', ''/api/dashboards/uid/{uid}/permissions'',
    ''/api/folders'', ''/api/folders/{uid}'', ''/api/folders/{uid}/permissions'', ''/api/datasources'',
    ''/api/datasources/uid/{uid}'', ''/api/datasources/uid/{uid}/health'',
    ''/api/datasources/uid/{uid}/resources/{rest}'', ''/api/datasources/proxy/uid/{uid}/{rest}'',
    ''/api/datasources/proxy/{id}/{rest}'', ''/api/datasources/name/{name}'', ''/api/datasources/{id}'',
    ''/api/annotations'', ''/api/annotations/graphite'', ''/api/annotations/tags'', ''/api/annotations/{id}'',
    ''/api/alertmanager/{rest}'', ''/api/ruler/{rest}'', ''/api/prometheus/{rest}'',
    ''/api/v1/provisioning/alert-rules'', ''/api/v1/provisioning/alert-rules/{rest}'',
    ''/api/v1/provisioning/contact-points'', ''/api/v1/provisioning/contact-points/{rest}'',
    ''/api/v1/provisioning/policies'', ''/api/v1/provisioning/policies/{rest}'',
    ''/api/v1/provisioning/mute-timings'', ''/api/v1/provisioning/mute-timings/{rest}'',
    ''/api/v1/provisioning/templates'', ''/api/v1/provisioning/templates/{rest}'',
    ''/api/v1/provisioning/{rest}'', ''/api/plugins'', ''/api/plugins/{id}/settings'',
    ''/api/plugins/{id}/health'', ''/api/org'', ''/api/org/users'', ''/api/org/preferences'', ''/api/user'',
    ''/api/user/preferences'', ''/api/users'', ''/api/users/{rest}'', ''/api/orgs'', ''/api/orgs/{rest}'',
    ''/api/teams'', ''/api/teams/search'', ''/api/teams/{rest}'', ''/api/serviceaccounts'',
    ''/api/serviceaccounts/search'', ''/api/serviceaccounts/{rest}'', ''/api/access-control/{rest}'',
    ''/api/library-elements'', ''/api/library-elements/{rest}'', ''/api/playlists'', ''/api/playlists/{rest}'',
    ''/api/snapshots'', ''/api/snapshots/{rest}'', ''/api/short-urls'', ''/api/admin/{rest}'']"

definition knownAPIGroups :: "string list" where
  "knownAPIGroups =
   [''dashboard.grafana.app'', ''folder.grafana.app'', ''iam.grafana.app'',
    ''notifications.alerting.grafana.app'', ''playlist.grafana.app'', ''preferences.grafana.app'',
    ''provisioning.grafana.app'', ''query.grafana.app'', ''rules.alerting.grafana.app'', ''secret.grafana.app'',
    ''shorturl.grafana.app'']"

definition knownK8sVersions :: "string list" where
  "knownK8sVersions =
   [''v0alpha1'', ''v0beta1'', ''v1'', ''v1alpha1'', ''v1beta1'', ''v2'', ''v2alpha1'', ''v2beta1'']"

definition knownK8sResources :: "string list" where
  "knownK8sResources =
   [''alertrules'', ''connections'', ''dashboards'', ''datasources'', ''folders'', ''jobs'', ''keepers'',
    ''playlists'', ''preferences'', ''query'', ''queryconvert'', ''receivers'', ''recordingrules'',
    ''repositories'', ''routingtrees'', ''search'', ''securevalues'', ''serviceaccounts'', ''shorturls'',
    ''ssosettings'', ''stars'', ''teams'', ''templategroups'', ''timeintervals'', ''users'']"

definition coreDatasourceTypes :: "string list" where
  "coreDatasourceTypes =
   [''alertmanager'', ''cloudwatch'', ''dashboard'', ''elasticsearch'', ''grafana'', ''graphite'', ''influxdb'',
    ''jaeger'', ''loki'', ''mixed'', ''mssql'', ''mysql'', ''opentsdb'', ''postgres'', ''prometheus'',
    ''stackdriver'', ''tempo'', ''testdata'', ''zipkin'']"

definition grafanaDatasourceTypes :: "string list" where
  "grafanaDatasourceTypes =
   [''dlopes7-appdynamics-datasource'', ''grafana-adobeanalytics-datasource'',
    ''grafana-amazonprometheus-datasource'', ''grafana-astradb-datasource'', ''grafana-athena-datasource'',
    ''grafana-atlassianstatuspage-datasource'', ''grafana-aurora-datasource'',
    ''grafana-azure-data-explorer-datasource'', ''grafana-azure-monitor-datasource'',
    ''grafana-azurecosmosdb-datasource'', ''grafana-azuredevops-datasource'',
    ''grafana-azureprometheus-datasource'', ''grafana-bigquery-datasource'', ''grafana-catchpoint-datasource'',
    ''grafana-clickhouse-datasource'', ''grafana-cloudflare-datasource'', ''grafana-cockroachdb-datasource'',
    ''grafana-cube-datasource'', ''grafana-databricks-datasource'', ''grafana-datadog-datasource'',
    ''grafana-drone-datasource'', ''grafana-dynamodb-datasource'', ''grafana-dynatrace-datasource'',
    ''grafana-falconlogscale-datasource'', ''grafana-github-datasource'', ''grafana-gitlab-datasource'',
    ''grafana-googlesheets-datasource'', ''grafana-honeycomb-datasource'', ''grafana-ibmdb2-datasource'',
    ''grafana-iot-sitewise-datasource'', ''grafana-jenkins-datasource'', ''grafana-jira-datasource'',
    ''grafana-logicmonitor-datasource'', ''grafana-looker-datasource'', ''grafana-mock-datasource'',
    ''grafana-mongodb-datasource'', ''grafana-mqtt-datasource'', ''grafana-netlify-datasource'',
    ''grafana-newrelic-datasource'', ''grafana-odbc-datasource'', ''grafana-opensearch-datasource'',
    ''grafana-oracle-datasource'', ''grafana-pagerduty-datasource'', ''grafana-postgresql-datasource'',
    ''grafana-pyroscope-datasource'', ''grafana-redshift-datasource'', ''grafana-salesforce-datasource'',
    ''grafana-saphana-datasource'', ''grafana-sentry-datasource'', ''grafana-servicenow-datasource'',
    ''grafana-snowflake-datasource'', ''grafana-solarwinds-datasource'', ''grafana-splunk-datasource'',
    ''grafana-splunk-monitoring-datasource'', ''grafana-strava-datasource'', ''grafana-sumologic-datasource'',
    ''grafana-testdata-datasource'', ''grafana-timestream-datasource'', ''grafana-vercel-datasource'',
    ''grafana-wavefront-datasource'', ''grafana-x-ray-datasource'', ''grafana-yugabyte-datasource'',
    ''grafana-zendesk-datasource'', ''marcusolsson-json-datasource'', ''marcusolsson-static-datasource'',
    ''volkovlabs-rss-datasource'', ''yesoreyeram-infinity-datasource'']"

definition otherValue :: "string" where
  "otherValue = ''other''"

section \<open>Routes\<close>

definition splitPath :: "string \<Rightarrow> string list" where
  "splitPath path = filter (\<lambda>s. s \<noteq> []) (go_split (CHR ''/'') path)"

definition placeholder :: "string \<Rightarrow> bool" where
  "placeholder t \<longleftrightarrow> prefix ''{'' t \<and> suffix ''}'' t"

text \<open>One round of the loop per segment of the template; the index of the source is the number of segments both
  lists have lost.\<close>

fun matchRouteTemplate :: "string list \<Rightarrow> string list \<Rightarrow> bool" where
  "matchRouteTemplate [] path \<longleftrightarrow> path = []"
| "matchRouteTemplate (t # tmpl) path =
     (if t = ''{rest}'' \<and> tmpl = [] then path \<noteq> []
      else case path of
        [] \<Rightarrow> False
      | p # ps \<Rightarrow> if placeholder t then matchRouteTemplate tmpl ps
                 else if t \<noteq> p then False
                 else matchRouteTemplate tmpl ps)"

definition allowedDatasourceType :: "string \<Rightarrow> string" where
  "allowedDatasourceType t =
     (if t \<in> set coreDatasourceTypes \<or> t \<in> set grafanaDatasourceTypes then t else otherValue)"

definition knownAPIGroup :: "string \<Rightarrow> bool" where
  "knownAPIGroup g \<longleftrightarrow>
     (if g \<in> set knownAPIGroups then True
      else case cut_suffix ''.datasource.grafana.app'' g of
        Some label \<Rightarrow> allowedDatasourceType label \<noteq> otherValue
      | None \<Rightarrow> False)"

definition k8sAPIRoute :: "string list \<Rightarrow> string" where
  "k8sAPIRoute segs =
     (case segs of
        s0 # grp # version # rest \<Rightarrow>
          if rest = [] then otherValue
          else if \<not> knownAPIGroup grp \<or> version \<notin> set knownK8sVersions then otherValue
          else let base = [[], ''apis'', grp, version] in
            (if hd rest = ''namespaces'' \<and> length rest < 3 then otherValue
             else let out = (if hd rest = ''namespaces'' then base @ [''namespaces'', ''{namespace}''] else base);
                      tail = (if hd rest = ''namespaces'' then drop 2 rest else rest) in
               if hd tail \<notin> set knownK8sResources then otherValue
               else go_join ''/'' (out @ [hd tail] @ (if 1 < length tail then [''{name}''] else [])))
      | _ \<Rightarrow> otherValue)"

definition before_query :: "string \<Rightarrow> string" where
  "before_query path = takeWhile (\<lambda>c. c \<notin> set ''?#'') path"

definition normalizeAPIRoute :: "string \<Rightarrow> string" where
  "normalizeAPIRoute rawPath =
     (let segs = splitPath (before_query rawPath) in
      case segs of
        [] \<Rightarrow> otherValue
      | s # _ \<Rightarrow>
          if s = ''api''
          then (case find (\<lambda>tmpl. matchRouteTemplate (splitPath tmpl) segs) apiRouteTemplates of
                  Some tmpl \<Rightarrow> tmpl
                | None \<Rightarrow> otherValue)
          else if s = ''apis'' then k8sAPIRoute segs
          else otherValue)"

definition isDatasourceQueryRoute :: "string \<Rightarrow> bool" where
  "isDatasourceQueryRoute route \<longleftrightarrow>
     (if route = ''/api/ds/query'' then True
      else prefix ''/apis/query.grafana.app/'' route \<and> suffix ''/query'' route)"

section \<open>Methods and bodies\<close>

definition IsKnownHTTPMethod :: "string \<Rightarrow> bool" where
  "IsKnownHTTPMethod m \<longleftrightarrow> m \<in> set httpMethods"

definition knownHTTPMethod :: "string \<Rightarrow> string" where
  "knownHTTPMethod m = (if IsKnownHTTPMethod m then m else [])"

definition maxQueryBodyBytes :: nat where
  "maxQueryBodyBytes = 2 ^ 20"

definition maxDatasourceTypes :: nat where
  "maxDatasourceTypes = 8"

text \<open>
  The decoder of the body is a parameter with two parts: \<open>queries\<close> gives the raw data source references of a body
  that decodes, \<open>type_of\<close> the type field of a reference that is an object. The range over the map of types comes in
  the order of a schedule \<open>cs\<close>, and is sorted.
\<close>

record 'raw body_decoder =
  dec_queries :: "string \<Rightarrow> 'raw list option"
  dec_type :: "'raw \<Rightarrow> string option"

definition reference_type :: "'raw body_decoder \<Rightarrow> 'raw \<Rightarrow> string" where
  "reference_type dec ref =
     (case dec_type dec ref of
        Some t \<Rightarrow> if t \<noteq> [] then allowedDatasourceType t else otherValue
      | None \<Rightarrow> otherValue)"

definition datasourceTypes :: "nat list \<Rightarrow> 'raw body_decoder \<Rightarrow> string \<Rightarrow> string" where
  "datasourceTypes cs dec body =
     (if body = [] \<or> length body > maxQueryBodyBytes then []
      else case dec_queries dec body of
        None \<Rightarrow> []
      | Some refs \<Rightarrow>
          if refs = [] then []
          else let types = sort (go_range cs (remdups (map (reference_type dec) refs))) in
            go_join '','' (if length types > maxDatasourceTypes then take maxDatasourceTypes types else types))"

section \<open>Recording\<close>

record api_request =
  ar_Method :: string
  ar_Route :: string
  ar_DatasourceTypes :: string

definition RecordAPIRequest :: "nat list \<Rightarrow> 'raw body_decoder \<Rightarrow> string \<Rightarrow> string \<Rightarrow> string \<Rightarrow> api_request" where
  "RecordAPIRequest cs dec meth rawPath body =
     (let route = normalizeAPIRoute rawPath in
      \<lparr>ar_Method = knownHTTPMethod meth, ar_Route = route,
       ar_DatasourceTypes =
         (if isDatasourceQueryRoute route
          then (let types = datasourceTypes cs dec body in if types = [] then otherValue else types)
          else [])\<rparr>)"

section \<open>What a template matches\<close>

definition segment_fits :: "string \<Rightarrow> string \<Rightarrow> bool" where
  "segment_fits t p \<longleftrightarrow> placeholder t \<or> t = p"

lemma matchRouteTemplate_iff:
  "matchRouteTemplate tmpl path \<longleftrightarrow>
     (if tmpl \<noteq> [] \<and> last tmpl = ''{rest}''
      then length tmpl \<le> length path \<and> list_all2 segment_fits (butlast tmpl) (take (length tmpl - 1) path)
      else list_all2 segment_fits tmpl path)"
proof (induction tmpl path rule: matchRouteTemplate.induct)
  case (2 t tmpl path)
  show ?case
  proof (cases path)
    case Nil
    then show ?thesis by simp
  next
    case (Cons p ps)
    show ?thesis
    proof (cases "tmpl = []")
      case True
      then show ?thesis using Cons by (auto simp: segment_fits_def)
    next
      case False
      have fits: "segment_fits t p \<longleftrightarrow> placeholder t \<or> t = p" by (rule segment_fits_def)
      have step: "matchRouteTemplate (t # tmpl) path \<longleftrightarrow> segment_fits t p \<and> matchRouteTemplate tmpl ps"
        using False Cons by (simp add: fits)
      have ih: "segment_fits t p \<Longrightarrow> matchRouteTemplate tmpl ps \<longleftrightarrow>
          (if tmpl \<noteq> [] \<and> last tmpl = ''{rest}''
           then length tmpl \<le> length ps \<and> list_all2 segment_fits (butlast tmpl) (take (length tmpl - 1) ps)
           else list_all2 segment_fits tmpl ps)"
        using 2 False Cons by (cases "placeholder t") (simp_all add: fits)
      obtain m where m: "length tmpl = Suc m" using False by (cases tmpl) auto
      show ?thesis
      proof (cases "segment_fits t p")
        case True
        show ?thesis unfolding step ih [OF True] using \<open>tmpl \<noteq> []\<close> True m by (simp add: Cons)
      next
        case False
        then show ?thesis unfolding step using \<open>tmpl \<noteq> []\<close> m by (simp add: Cons)
      qed
    qed
  qed
qed simp

section \<open>The closed vocabulary\<close>

definition datasource_vocabulary :: "string list" where
  "datasource_vocabulary = coreDatasourceTypes @ grafanaDatasourceTypes"

definition group_vocabulary :: "string list" where
  "group_vocabulary = knownAPIGroups @ map (\<lambda>t. t @ ''.datasource.grafana.app'') datasource_vocabulary"

definition k8s_route :: "string \<Rightarrow> string \<Rightarrow> bool \<Rightarrow> string \<Rightarrow> bool \<Rightarrow> string" where
  "k8s_route grp version namespaced res named =
     go_join ''/'' ([[], ''apis'', grp, version] @ (if namespaced then [''namespaces'', ''{namespace}''] else []) @
                    [res] @ (if named then [''{name}''] else []))"

definition k8s_routes :: "string set" where
  "k8s_routes =
     (\<lambda>(grp, version, namespaced, res, named). k8s_route grp version namespaced res named) `
       (set group_vocabulary \<times> set knownK8sVersions \<times> UNIV \<times> set knownK8sResources \<times> UNIV)"

definition route_vocabulary :: "string set" where
  "route_vocabulary = insert otherValue (set apiRouteTemplates \<union> k8s_routes)"

definition type_lists :: "string list set" where
  "type_lists = {ts. set ts \<subseteq> insert otherValue (set datasource_vocabulary) \<and> ts \<noteq> [] \<and>
                     length ts \<le> maxDatasourceTypes \<and> sorted ts \<and> distinct ts}"

definition types_vocabulary :: "string set" where
  "types_vocabulary = insert [] (insert otherValue (go_join '','' ` type_lists))"

lemma allowed_in_vocabulary: "allowedDatasourceType t \<in> insert otherValue (set datasource_vocabulary)"
  by (simp add: allowedDatasourceType_def datasource_vocabulary_def)

lemma cut_suffix_iff: "cut_suffix suf s = Some label \<longleftrightarrow> s = label @ suf"
  by (auto simp: cut_suffix_def suffix_def)

lemma allowed_iff: "allowedDatasourceType t \<noteq> otherValue \<longleftrightarrow> t \<in> set datasource_vocabulary"
proof -
  have "otherValue \<notin> set datasource_vocabulary" by code_simp
  then show ?thesis by (auto simp: allowedDatasourceType_def datasource_vocabulary_def)
qed

lemma knownAPIGroup_vocabulary: "knownAPIGroup g \<longleftrightarrow> g \<in> set group_vocabulary"
proof -
  define suf where "suf = ''.datasource.grafana.app''"
  have "(case cut_suffix suf g of Some label \<Rightarrow> allowedDatasourceType label \<noteq> otherValue | None \<Rightarrow> False) \<longleftrightarrow>
        g \<in> (\<lambda>t. t @ suf) ` set datasource_vocabulary"
  proof (cases "cut_suffix suf g")
    case None
    then have "g \<noteq> label @ suf" for label by (simp flip: cut_suffix_iff)
    then show ?thesis by (auto simp: None)
  next
    case (Some label)
    then have g: "g = label @ suf" by (simp only: cut_suffix_iff)
    have "g \<in> (\<lambda>t. t @ suf) ` set datasource_vocabulary \<longleftrightarrow> label \<in> set datasource_vocabulary"
      unfolding g by (simp add: image_iff)
    then show ?thesis unfolding Some by (simp add: allowed_iff)
  qed
  then show ?thesis
    unfolding knownAPIGroup_def group_vocabulary_def suf_def [symmetric] set_append set_map Un_iff by presburger
qed

lemma k8sAPIRoute_vocabulary: "k8sAPIRoute segs \<in> insert otherValue k8s_routes"
proof -
  have in_routes: "k8s_route grp version namespaced res named \<in> k8s_routes"
    if "knownAPIGroup grp" "version \<in> set knownK8sVersions" "res \<in> set knownK8sResources"
    for grp version namespaced res named
    using that by (force simp: k8s_routes_def knownAPIGroup_vocabulary)
  show ?thesis
  proof (cases "\<exists>s0 grp version rest. segs = s0 # grp # version # rest \<and> rest \<noteq> [] \<and> knownAPIGroup grp \<and>
                version \<in> set knownK8sVersions")
    case True
    then obtain s0 grp version rest where segs: "segs = s0 # grp # version # rest" "rest \<noteq> []"
      and ok: "knownAPIGroup grp" "version \<in> set knownK8sVersions" by blast
    define namespaced where "namespaced \<longleftrightarrow> hd rest = ''namespaces''"
    define tail where "tail = (if namespaced then drop 2 rest else rest)"
    have "k8sAPIRoute segs =
        (if namespaced \<and> length rest < 3 \<or> hd tail \<notin> set knownK8sResources then otherValue
         else k8s_route grp version namespaced (hd tail) (1 < length tail))"
      using segs ok by (simp add: k8sAPIRoute_def k8s_route_def namespaced_def tail_def Let_def)
    then show ?thesis using in_routes [OF ok] by simp
  next
    case False
    then have "k8sAPIRoute segs = otherValue"
      by (auto simp: k8sAPIRoute_def Let_def split: list.split)
    then show ?thesis by simp
  qed
qed

lemma normalizeAPIRoute_vocabulary: "normalizeAPIRoute p \<in> route_vocabulary"
  using k8sAPIRoute_vocabulary
  by (auto simp: normalizeAPIRoute_def route_vocabulary_def Let_def dest: find_SomeD split: list.splits option.splits)


section \<open>Recorded routes are their own normal form\<close>

definition plain_segment :: "string \<Rightarrow> bool" where
  "plain_segment s \<longleftrightarrow> s \<noteq> [] \<and> CHR ''/'' \<notin> set s \<and> CHR ''?'' \<notin> set s \<and> CHR ''#'' \<notin> set s"

lemma before_query_free: "CHR ''?'' \<notin> set p \<Longrightarrow> CHR ''#'' \<notin> set p \<Longrightarrow> before_query p = p"
  unfolding before_query_def by (rule takeWhile_eq_all_conv [THEN iffD2]) auto

lemma before_query_append: "c \<in> set ''?#'' \<Longrightarrow> before_query (p @ c # q) = before_query p"
  unfolding before_query_def by (induction p) auto

lemma segments_of_join:
  assumes "list_all plain_segment segs"
  shows "splitPath (before_query (go_join ''/'' ([] # segs))) = segs"
proof -
  have free: "\<forall>s \<in> set ([] # segs). CHR ''/'' \<notin> set s \<and> CHR ''?'' \<notin> set s \<and> CHR ''#'' \<notin> set s"
    using assms by (auto simp: list_all_iff plain_segment_def)
  have "before_query (go_join ''/'' ([] # segs)) = go_join ''/'' ([] # segs)"
    using free by (intro before_query_free go_join_free) auto
  moreover have "go_split (CHR ''/'') (go_join ''/'' ([] # segs)) = [] # segs"
    using free by (intro go_split_join) auto
  moreover have "filter (\<lambda>s. s \<noteq> []) segs = segs"
    using assms by (auto simp: list_all_iff plain_segment_def intro: filter_True)
  ultimately show ?thesis by (simp add: splitPath_def)
qed

lemma vocabulary_plain: "list_all plain_segment (group_vocabulary @ knownK8sVersions @ knownK8sResources)"
  by code_simp

lemma plain_words:
  "s \<in> set group_vocabulary \<Longrightarrow> plain_segment s" "s \<in> set knownK8sVersions \<Longrightarrow> plain_segment s"
  "s \<in> set knownK8sResources \<Longrightarrow> plain_segment s"
  using vocabulary_plain by (simp_all add: list_all_iff)

lemma plain_literals:
  "plain_segment ''apis''" "plain_segment ''namespaces''" "plain_segment ''{namespace}''" "plain_segment ''{name}''"
  by (simp_all add: plain_segment_def)

lemma k8s_route_fixed:
  assumes g: "grp \<in> set group_vocabulary" and v: "version \<in> set knownK8sVersions" and r: "res \<in> set knownK8sResources"
  shows "normalizeAPIRoute (k8s_route grp version namespaced res named) = k8s_route grp version namespaced res named"
proof -
  let ?tail = "[res] @ (if named then [''{name}''] else [])"
  let ?segs = "[''apis'', grp, version] @ (if namespaced then [''namespaces'', ''{namespace}''] else []) @ ?tail"
  have "list_all plain_segment ?segs"
    using plain_words(1) [OF g] plain_words(2) [OF v] plain_words(3) [OF r] plain_literals by simp
  then have segs: "splitPath (before_query (k8s_route grp version namespaced res named)) = ?segs"
    unfolding k8s_route_def using segments_of_join [of ?segs] by (simp only: append_Cons append_Nil)
  have "''namespaces'' \<notin> set knownK8sResources" by code_simp
  then have "res \<noteq> ''namespaces''" using r by blast
  then have "k8sAPIRoute ?segs = k8s_route grp version namespaced res named"
    using g v r by (simp add: k8sAPIRoute_def k8s_route_def Let_def knownAPIGroup_vocabulary)
  then show ?thesis by (simp add: normalizeAPIRoute_def segs)
qed

text \<open>No template is shadowed by an earlier one: of the templates with their segments, the first to match the segments
  of a template is this template. The pairs are built once.\<close>

definition each_first :: "(string \<times> string list) list \<Rightarrow> bool" where
  "each_first ts \<longleftrightarrow> list_all (\<lambda>(t, segs). map_option fst (find (\<lambda>(u, tmpl). matchRouteTemplate tmpl segs) ts) = Some t \<and>
                     hd segs = ''api'' \<and> segs \<noteq> [] \<and> before_query t = t) ts"

lemma templates_first: "each_first (map (\<lambda>t. (t, splitPath t)) apiRouteTemplates)"
  by code_simp

lemma find_paired: "map_option fst (find (\<lambda>(u, v). P v) (map (\<lambda>t. (t, f t)) ts)) = find (\<lambda>t. P (f t)) ts"
  by (induction ts) auto

lemma templates_fixed: "t \<in> set apiRouteTemplates \<Longrightarrow> normalizeAPIRoute t = t"
  using templates_first
  by (auto simp: each_first_def list_all_iff find_paired normalizeAPIRoute_def Let_def split: list.split)

lemma normalizeAPIRoute_fixed: "r \<in> route_vocabulary \<Longrightarrow> normalizeAPIRoute r = r"
proof -
  assume r: "r \<in> route_vocabulary"
  have "normalizeAPIRoute otherValue = otherValue"
    by (simp add: normalizeAPIRoute_def otherValue_def before_query_def splitPath_def)
  then show ?thesis using r templates_fixed k8s_route_fixed
    by (auto simp: route_vocabulary_def k8s_routes_def)
qed

section \<open>Data source types\<close>

lemma datasourceTypes_vocabulary: "datasourceTypes cs dec body \<in> types_vocabulary"
proof -
  have listed: "go_join '','' (if length ts > maxDatasourceTypes then take maxDatasourceTypes ts else ts)
      \<in> go_join '','' ` type_lists"
    if "refs \<noteq> []" "ts = sort (go_range cs (remdups (map (reference_type dec) refs)))" for refs ts
  proof (rule imageI)
    have "reference_type dec x \<in> insert otherValue (set datasource_vocabulary)" for x
      using allowed_in_vocabulary by (auto simp: reference_type_def split: option.split)
    then have "set ts \<subseteq> insert otherValue (set datasource_vocabulary)" using that(2) by auto
    moreover have "ts \<noteq> []" using that by (metis length_0_conv length_go_range length_sort map_is_Nil_conv remdups_eq_nil_iff)
    moreover have "sorted ts" "distinct ts" using that by simp_all
    ultimately show "(if length ts > maxDatasourceTypes then take maxDatasourceTypes ts else ts) \<in> type_lists"
      by (auto simp: type_lists_def maxDatasourceTypes_def sorted_wrt_take dest: in_set_takeD)
  qed
  then show ?thesis
    by (auto simp: datasourceTypes_def types_vocabulary_def Let_def split: option.split)
qed

lemma datasourceTypes_order: "datasourceTypes cs dec body = datasourceTypes cs' dec body"
proof -
  have "sort (go_range ks xs) = sort xs" for ks and xs :: "string list"
    by (rule properties_for_sort) simp_all
  then show ?thesis by (auto simp: datasourceTypes_def split: option.split)
qed

lemma finite_type_lists: "finite type_lists"
proof (rule finite_subset)
  show "type_lists \<subseteq> {ts. set ts \<subseteq> insert otherValue (set datasource_vocabulary) \<and> length ts \<le> maxDatasourceTypes}"
    by (auto simp: type_lists_def)
qed (rule finite_lists_length_le, simp)

lemma finite_route_vocabulary: "finite route_vocabulary"
  by (simp add: route_vocabulary_def k8s_routes_def)


section \<open>What a record tells\<close>

lemma recorded_method: "ar_Method (RecordAPIRequest cs dec m p b) \<in> set ([] # httpMethods)"
  by (simp add: RecordAPIRequest_def knownHTTPMethod_def IsKnownHTTPMethod_def Let_def)

lemma recorded_route: "ar_Route (RecordAPIRequest cs dec m p b) \<in> route_vocabulary"
  by (simp add: RecordAPIRequest_def normalizeAPIRoute_vocabulary Let_def)

lemma recorded_types:
  "ar_DatasourceTypes (RecordAPIRequest cs dec m p b) \<in>
     (if isDatasourceQueryRoute (ar_Route (RecordAPIRequest cs dec m p b)) then types_vocabulary - {[]} else {[]})"
  using datasourceTypes_vocabulary [of cs dec b]
  by (simp add: RecordAPIRequest_def Let_def) (simp add: types_vocabulary_def otherValue_def)

lemma recorded_same:
  "normalizeAPIRoute p' = normalizeAPIRoute p \<Longrightarrow> RecordAPIRequest cs dec m p' b = RecordAPIRequest cs' dec m p b"
  using datasourceTypes_order [of cs dec b cs'] by (simp add: RecordAPIRequest_def Let_def)

lemma finite_records:
  "finite {r :: api_request. ar_Method r \<in> set ([] # httpMethods) \<and> ar_Route r \<in> route_vocabulary \<and> ar_DatasourceTypes r \<in> types_vocabulary}"
    (is "finite ?R")
proof (rule finite_subset)
  let ?V = "set ([] # httpMethods) \<times> route_vocabulary \<times> types_vocabulary"
  show "?R \<subseteq> (\<lambda>(x, y, z). api_request.make x y z) ` ?V"
  proof
    fix r assume "r \<in> ?R"
    then have "(ar_Method r, ar_Route r, ar_DatasourceTypes r) \<in> ?V" by simp
    moreover have "r = (\<lambda>(x, y, z). api_request.make x y z) (ar_Method r, ar_Route r, ar_DatasourceTypes r)"
      by (simp add: api_request.make_def)
    ultimately show "r \<in> (\<lambda>(x, y, z). api_request.make x y z) ` ?V" by (rule rev_image_eqI)
  qed
  have "finite types_vocabulary" by (simp add: types_vocabulary_def finite_type_lists)
  then show "finite ((\<lambda>(x, y, z). api_request.make x y z) ` ?V)"
    by (intro finite_imageI finite_cartesian_product finite_set finite_route_vocabulary)
qed

text \<open>
  C6. What is recorded of an API request comes from closed vocabularies: a fixed verb or nothing, a route that is a
  template, an app platform route of known group, version and resource with placeholders, or the word other, and for
  query routes a sorted list of at most eight known types. So there are finitely many records in all; the query and
  the fragment of the path play no part, nor does the order in which a map is ranged over, and a recorded route is
  recorded as itself.
\<close>

theorem recorded_request_closed:
  fixes dec :: "'raw body_decoder"
  shows "ar_Method (RecordAPIRequest cs dec m p b) \<in> set ([] # httpMethods) \<and>
   ar_Route (RecordAPIRequest cs dec m p b) \<in> route_vocabulary \<and>
   ar_DatasourceTypes (RecordAPIRequest cs dec m p b) \<in>
     (if isDatasourceQueryRoute (ar_Route (RecordAPIRequest cs dec m p b)) then types_vocabulary - {[]} else {[]}) \<and>
   finite (range (\<lambda>(cs, dec :: 'raw body_decoder, m, p, b). RecordAPIRequest cs dec m p b)) \<and>
   RecordAPIRequest cs dec m (p @ CHR ''?'' # q) b = RecordAPIRequest cs' dec m p b \<and>
   RecordAPIRequest cs dec m (p @ CHR ''#'' # q) b = RecordAPIRequest cs' dec m p b \<and>
   RecordAPIRequest cs dec m (ar_Route (RecordAPIRequest cs' dec m p b)) b = RecordAPIRequest cs' dec m p b"
proof (intro conjI)
  have "RecordAPIRequest cs dec m p b \<in>
      {r. ar_Method r \<in> set ([] # httpMethods) \<and> ar_Route r \<in> route_vocabulary \<and> ar_DatasourceTypes r \<in> types_vocabulary}"
    for cs m p b and dec :: "'raw body_decoder"
    using recorded_method [of cs dec m p b] recorded_route [of cs dec m p b] recorded_types [of cs dec m p b]
    by (auto simp: types_vocabulary_def split: if_splits)
  then show "finite (range (\<lambda>(cs, dec :: 'raw body_decoder, m, p, b). RecordAPIRequest cs dec m p b))"
    by (intro finite_subset [OF _ finite_records] image_subsetI) (simp split: prod.split)
  show "RecordAPIRequest cs dec m (ar_Route (RecordAPIRequest cs' dec m p b)) b = RecordAPIRequest cs' dec m p b"
    by (rule recorded_same) (simp add: RecordAPIRequest_def Let_def normalizeAPIRoute_fixed normalizeAPIRoute_vocabulary)
  have cut: "RecordAPIRequest cs dec m (p @ c # q) b = RecordAPIRequest cs' dec m p b" if "c \<in> set ''?#''" for c
    using that by (intro recorded_same) (simp add: normalizeAPIRoute_def before_query_append)
  show "RecordAPIRequest cs dec m (p @ CHR ''?'' # q) b = RecordAPIRequest cs' dec m p b" by (rule cut) simp
  show "RecordAPIRequest cs dec m (p @ CHR ''#'' # q) b = RecordAPIRequest cs' dec m p b" by (rule cut) simp
qed (rule recorded_method recorded_route recorded_types)+

end
