(* ===== verification/Gcx_UsageCapture.thy ===== *)
theory Gcx_UsageCapture
  imports Gcx_Prelude
begin

text \<open>
  The facts about an invocation that the usage event reads at exit (\<^verbatim>\<open>telemetry/capture/capture.go\<close>). All slots but one
  keep their last value; the slot of the authentication method is written by concurrent calls with compare and swap,
  modelled as steps of the writers. The lemmas give its value for every interleaving and bound the steps of a call.
\<close>

section \<open>Slots\<close>

record batch =
  bt_Succeeded :: int
  bt_Failed :: int
  bt_Skipped :: int
  bt_DryRun :: bool

record auth_method_state =
  am_value :: string
  am_conflicted :: bool
  am_forced :: bool

text \<open>An atomic pointer holds the address of an object that is never changed after it was stored; every store is of a
  new object, and addresses tell objects apart.\<close>

type_synonym auth_pointer = "(nat \<times> auth_method_state) option"

record captures =
  cap_batch :: "batch option"
  cap_httpStatus :: int
  cap_k8sReason :: "string option"
  cap_auth :: auth_pointer
  cap_loginStage :: "string option"

definition SetBatch :: "batch \<Rightarrow> captures \<Rightarrow> captures" where
  "SetBatch b c = c\<lparr>cap_batch := Some b\<rparr>"

definition SetHTTPStatus :: "int \<Rightarrow> captures \<Rightarrow> captures" where
  "SetHTTPStatus status c = (if status = 0 then c else c\<lparr>cap_httpStatus := status\<rparr>)"

definition SetK8sReason :: "string \<Rightarrow> captures \<Rightarrow> captures" where
  "SetK8sReason reason c = (if reason = [] then c else c\<lparr>cap_k8sReason := Some reason\<rparr>)"

definition SetLoginStage :: "string \<Rightarrow> captures \<Rightarrow> captures" where
  "SetLoginStage stage c = (if stage = [] then c else c\<lparr>cap_loginStage := Some stage\<rparr>)"

definition CurrentK8sReason :: "captures \<Rightarrow> string" where
  "CurrentK8sReason c = (case cap_k8sReason c of Some r \<Rightarrow> r | None \<Rightarrow> [])"

definition CurrentLoginStage :: "captures \<Rightarrow> string" where
  "CurrentLoginStage c = (case cap_loginStage c of Some s \<Rightarrow> s | None \<Rightarrow> [])"

definition CurrentGrafanaAuthMethod :: "auth_pointer \<Rightarrow> string" where
  "CurrentGrafanaAuthMethod slot =
     (case slot of Some (a, s) \<Rightarrow> if am_conflicted s then [] else am_value s | None \<Rightarrow> [])"

definition capture_Reset :: "captures \<Rightarrow> captures" where
  "capture_Reset c =
     c\<lparr>cap_batch := None, cap_httpStatus := 0, cap_k8sReason := None, cap_auth := None, cap_loginStage := None\<rparr>"

section \<open>Writing the authentication method\<close>

text \<open>
  A call is at the head of its loop, between the load and the compare and swap, or has returned. Each step makes one
  atomic access of the slot at most.
\<close>

datatype auth_call = Set_call string | Set_loaded string auth_pointer | Force_call string | Returned

record auth_slot =
  as_slot :: auth_pointer
  as_next :: nat

definition store :: "auth_method_state \<Rightarrow> auth_slot \<Rightarrow> auth_slot" where
  "store s \<sigma> = \<sigma>\<lparr>as_slot := Some (as_next \<sigma>, s), as_next := Suc (as_next \<sigma>)\<rparr>"

definition same_pointer :: "auth_pointer \<Rightarrow> auth_pointer \<Rightarrow> bool" where
  "same_pointer p q \<longleftrightarrow> map_option fst p = map_option fst q"

definition CompareAndSwap :: "auth_pointer \<Rightarrow> auth_method_state \<Rightarrow> auth_slot \<Rightarrow> bool \<times> auth_slot" where
  "CompareAndSwap old s \<sigma> = (if same_pointer (as_slot \<sigma>) old then (True, store s \<sigma>) else (False, \<sigma>))"

text \<open>The load of \<^verbatim>\<open>SetGrafanaAuthMethod\<close> with the cases that return, and its compare and swap.\<close>

definition set_load :: "string \<Rightarrow> auth_slot \<Rightarrow> auth_call" where
  "set_load m \<sigma> =
     (if m = [] then Returned
      else case as_slot \<sigma> of
        None \<Rightarrow> Set_loaded m None
      | Some (a, s) \<Rightarrow>
          if am_forced s \<or> am_conflicted s \<or> am_value s = m then Returned else Set_loaded m (Some (a, s)))"

definition set_swap :: "string \<Rightarrow> auth_pointer \<Rightarrow> auth_slot \<Rightarrow> auth_call \<times> auth_slot" where
  "set_swap m current \<sigma> =
     (let new = (case current of
                   None \<Rightarrow> \<lparr>am_value = m, am_conflicted = False, am_forced = False\<rparr>
                 | Some _ \<Rightarrow> \<lparr>am_value = [], am_conflicted = True, am_forced = False\<rparr>);
          (swapped, \<sigma>') = CompareAndSwap current new \<sigma>
      in (if swapped then Returned else Set_call m, \<sigma>'))"

definition ForceGrafanaAuthMethod :: "string \<Rightarrow> auth_slot \<Rightarrow> auth_slot" where
  "ForceGrafanaAuthMethod m \<sigma> =
     (if m = [] then \<sigma> else store \<lparr>am_value = m, am_conflicted = False, am_forced = True\<rparr> \<sigma>)"

fun call_step :: "auth_call \<Rightarrow> auth_slot \<Rightarrow> (auth_call \<times> auth_slot) option" where
  "call_step (Set_call m) \<sigma> = Some (set_load m \<sigma>, \<sigma>)"
| "call_step (Set_loaded m current) \<sigma> = Some (set_swap m current \<sigma>)"
| "call_step (Force_call m) \<sigma> = Some (Returned, ForceGrafanaAuthMethod m \<sigma>)"
| "call_step Returned \<sigma> = None"

type_synonym auth_run = "auth_call list \<times> auth_slot"

text \<open>A schedule names the call that makes the next step.\<close>

fun run_calls :: "nat list \<Rightarrow> auth_run \<Rightarrow> auth_run option" where
  "run_calls [] (ws, \<sigma>) = Some (ws, \<sigma>)"
| "run_calls (i # sched) (ws, \<sigma>) =
     (if i < length ws
      then case call_step (ws ! i) \<sigma> of
             Some (w, \<sigma>') \<Rightarrow> run_calls sched (ws[i := w], \<sigma>')
           | None \<Rightarrow> None
      else None)"

definition fresh_slot :: auth_slot where
  "fresh_slot = \<lparr>as_slot = None, as_next = 0\<rparr>"

definition all_returned :: "auth_call list \<Rightarrow> bool" where
  "all_returned ws \<longleftrightarrow> list_all (\<lambda>w. w = Returned) ws"

section \<open>What the calls decide\<close>

fun set_method :: "auth_call \<Rightarrow> string option" where
  "set_method (Set_call m) = (if m = [] then None else Some m)"
| "set_method _ = None"

fun forced_method :: "auth_call \<Rightarrow> string option" where
  "forced_method (Force_call m) = (if m = [] then None else Some m)"
| "forced_method _ = None"

fun is_call :: "auth_call \<Rightarrow> bool" where
  "is_call (Set_call m) = True"
| "is_call (Force_call m) = True"
| "is_call _ = False"

definition agreed :: "string list \<Rightarrow> string" where
  "agreed ms = (case remdups ms of [m] \<Rightarrow> m | _ \<Rightarrow> [])"

text \<open>Without forced methods the one method all calls agree on, or nothing; otherwise a forced one.\<close>

definition decided :: "auth_call list \<Rightarrow> string list" where
  "decided calls =
     (if collect_some forced_method calls = [] then [agreed (collect_some set_method calls)]
      else collect_some forced_method calls)"

section \<open>The invariant of the slot\<close>

definition slot_rank :: "auth_pointer \<Rightarrow> nat" where
  "slot_rank p = (case p of None \<Rightarrow> 2 | Some (a, s) \<Rightarrow> if am_forced s \<or> am_conflicted s then 0 else 1)"

definition neutral :: "auth_call \<Rightarrow> bool" where
  "neutral c \<longleftrightarrow> set_method c = None \<and> forced_method c = None"

text \<open>What a slot says about the calls that have returned.\<close>

definition slot_ok :: "auth_call set \<Rightarrow> auth_call set \<Rightarrow> auth_pointer \<Rightarrow> bool" where
  "slot_ok calls R p \<longleftrightarrow>
     (case p of
        None \<Rightarrow> \<forall>c \<in> R. neutral c
      | Some (a, s) \<Rightarrow>
          if am_forced s then \<not> am_conflicted s \<and> am_value s \<noteq> [] \<and> Force_call (am_value s) \<in> calls
          else (\<forall>c \<in> R. forced_method c = None) \<and>
               (if am_conflicted s
                then \<exists>m m'. m \<noteq> m' \<and> m \<noteq> [] \<and> m' \<noteq> [] \<and> Set_call m \<in> calls \<and> Set_call m' \<in> calls
                else am_value s \<noteq> [] \<and> Set_call (am_value s) \<in> calls \<and>
                     (\<forall>c \<in> R. set_method c \<in> {None, Some (am_value s)})))"

fun call_ok :: "auth_call \<Rightarrow> auth_slot \<Rightarrow> auth_call \<Rightarrow> bool" where
  "call_ok c \<sigma> (Set_loaded m old) \<longleftrightarrow>
     c = Set_call m \<and> m \<noteq> [] \<and> 1 \<le> slot_rank old \<and>
     (\<forall>a s. old = Some (a, s) \<longrightarrow> a < as_next \<sigma> \<and> am_value s \<noteq> m) \<and>
     (same_pointer (as_slot \<sigma>) old \<longrightarrow> as_slot \<sigma> = old) \<and>
     (as_slot \<sigma> \<noteq> old \<longrightarrow> slot_rank (as_slot \<sigma>) < slot_rank old)"
| "call_ok c \<sigma> Returned \<longleftrightarrow> True"
| "call_ok c \<sigma> w \<longleftrightarrow> w = c"

definition returned_calls :: "auth_call list \<Rightarrow> auth_call list \<Rightarrow> auth_call set" where
  "returned_calls calls ws = {calls ! i |i. i < length calls \<and> ws ! i = Returned}"

definition auth_inv :: "auth_call list \<Rightarrow> auth_run \<Rightarrow> bool" where
  "auth_inv calls r \<longleftrightarrow>
     (case r of (ws, \<sigma>) \<Rightarrow>
        length ws = length calls \<and>
        (\<forall>a s. as_slot \<sigma> = Some (a, s) \<longrightarrow> a < as_next \<sigma>) \<and>
        slot_ok (set calls) (returned_calls calls ws) (as_slot \<sigma>) \<and>
        (\<forall>i < length calls. call_ok (calls ! i) \<sigma> (ws ! i)))"

lemma slot_ok_mono: "slot_ok calls R p \<Longrightarrow> R' \<subseteq> R \<Longrightarrow> slot_ok calls R' p"
  by (auto simp: slot_ok_def split: option.splits prod.splits if_splits)

lemma slot_ok_neutral: "slot_ok calls R p \<Longrightarrow> neutral c \<Longrightarrow> slot_ok calls (insert c R) p"
  by (auto simp: slot_ok_def neutral_def split: option.splits prod.splits if_splits)

lemma returned_update:
  "i < length calls \<Longrightarrow> length ws = length calls \<Longrightarrow> ws ! i \<noteq> Returned \<Longrightarrow>
   returned_calls calls (ws[i := w]) \<subseteq> (if w = Returned then insert (calls ! i) (returned_calls calls ws) else returned_calls calls ws)"
  by (auto simp: returned_calls_def nth_list_update split: if_splits)

lemma all_returned_calls: "all_returned ws \<Longrightarrow> length ws = length calls \<Longrightarrow> returned_calls calls ws = set calls"
  by (fastforce simp: returned_calls_def all_returned_def list_all_length in_set_conv_nth)

lemma store_keeps:
  assumes "call_ok c \<sigma> w" and "slot_rank (Some (as_next \<sigma>, s)) < slot_rank (as_slot \<sigma>) \<or> slot_rank (Some (as_next \<sigma>, s)) = 0"
  shows "call_ok c (store s \<sigma>) w"
proof (cases w)
  case (Set_loaded m old)
  have fresh: "\<not> same_pointer (Some (as_next \<sigma>, s)) old"
    using assms(1) by (cases old) (auto simp: Set_loaded same_pointer_def)
  then have "Some (as_next \<sigma>, s) \<noteq> old" by (auto simp: same_pointer_def)
  then show ?thesis
    using assms fresh by (cases "as_slot \<sigma> = old") (auto simp: Set_loaded store_def less_SucI)
qed (use assms in auto)

lemma load_ok:
  assumes "slot_ok calls R (as_slot \<sigma>)" and "set_load m \<sigma> = Returned"
  shows "slot_ok calls (insert (Set_call m) R) (as_slot \<sigma>)"
  using assms
  by (auto simp: slot_ok_def set_load_def neutral_def split: option.splits prod.splits if_splits)

lemma load_call_ok:
  assumes "\<forall>a s. as_slot \<sigma> = Some (a, s) \<longrightarrow> a < as_next \<sigma>"
  shows "call_ok (Set_call m) \<sigma> (set_load m \<sigma>)"
  using assms by (auto simp: set_load_def slot_rank_def split: option.split)


lemma swap_ok:
  assumes w: "call_ok c \<sigma> (Set_loaded m old)" and c: "c \<in> set calls"
    and ok: "slot_ok (set calls) R (as_slot \<sigma>)" and same: "same_pointer (as_slot \<sigma>) old"
  defines "s \<equiv> (case old of None \<Rightarrow> \<lparr>am_value = m, am_conflicted = False, am_forced = False\<rparr>
                 | Some _ \<Rightarrow> \<lparr>am_value = [], am_conflicted = True, am_forced = False\<rparr>)"
  shows "slot_ok (set calls) (insert c R) (Some (a, s)) \<and> slot_rank (Some (b, s)) < slot_rank (as_slot \<sigma>)"
proof -
  have old: "as_slot \<sigma> = old" and m: "c = Set_call m" "m \<noteq> []" and rank: "1 \<le> slot_rank old"
    using w same by auto
  show ?thesis
  proof (cases old)
    case None
    then show ?thesis using ok old m c by (auto simp: s_def slot_ok_def neutral_def slot_rank_def)
  next
    case (Some p)
    then have "am_value (snd p) \<noteq> m" "\<not> am_forced (snd p)" "\<not> am_conflicted (snd p)"
      using w rank by (auto simp: slot_rank_def split: prod.splits if_splits)
    then show ?thesis using Some ok old m c
      by (auto simp: s_def slot_ok_def slot_rank_def split: prod.splits)
  qed
qed

lemma call_step_inv:
  assumes inv: "auth_inv calls (ws, \<sigma>)" and i: "i < length ws"
    and step: "call_step (ws ! i) \<sigma> = Some (w, \<sigma>')"
  shows "auth_inv calls (ws[i := w], \<sigma>')"
proof -
  let ?R = "returned_calls calls ws" and ?c = "calls ! i"
  have len: "length ws = length calls" and fresh: "\<forall>a s. as_slot \<sigma> = Some (a, s) \<longrightarrow> a < as_next \<sigma>"
    and ok: "slot_ok (set calls) ?R (as_slot \<sigma>)"
    and each: "\<And>j. j < length calls \<Longrightarrow> call_ok (calls ! j) \<sigma> (ws ! j)"
    using inv by (auto simp: auth_inv_def)
  have c: "?c \<in> set calls" using i len by simp
  have live: "ws ! i \<noteq> Returned" using step by auto
  have upd: "returned_calls calls (ws[i := w]) \<subseteq> (if w = Returned then insert ?c ?R else ?R)"
    using returned_update i len live by metis
  have quiet: "auth_inv calls (ws[i := w], \<sigma>)"
    if "w = Returned \<Longrightarrow> slot_ok (set calls) (insert ?c ?R) (as_slot \<sigma>)" "call_ok ?c \<sigma> w"
  proof -
    have "slot_ok (set calls) (returned_calls calls (ws[i := w])) (as_slot \<sigma>)"
      using that(1) ok upd slot_ok_mono by (cases "w = Returned") auto
    then show ?thesis using that(2) i len fresh each by (auto simp: auth_inv_def nth_list_update)
  qed
  have stored: "auth_inv calls (ws[i := Returned], store s \<sigma>)"
    if "w = Returned" "slot_ok (set calls) (insert ?c ?R) (Some (as_next \<sigma>, s))"
       "slot_rank (Some (as_next \<sigma>, s)) < slot_rank (as_slot \<sigma>) \<or> slot_rank (Some (as_next \<sigma>, s)) = 0" for s
  proof -
    have "slot_ok (set calls) (returned_calls calls (ws[i := Returned])) (Some (as_next \<sigma>, s))"
      using that(1,2) upd slot_ok_mono by simp
    then show ?thesis using i len each store_keeps [OF _ that(3)]
      by (auto simp: auth_inv_def nth_list_update) (simp_all add: store_def)
  qed
  show ?thesis
  proof (cases "ws ! i")
    case (Set_call m)
    then have call: "?c = Set_call m" using each [of i] i len by auto
    have w: "w = set_load m \<sigma>" and s: "\<sigma>' = \<sigma>" using step Set_call by auto
    show ?thesis unfolding s
      using load_ok [OF ok, of m] load_call_ok [OF fresh, of m] w call by (intro quiet) auto
  next
    case (Set_loaded m old)
    show ?thesis
    proof (cases "same_pointer (as_slot \<sigma>) old")
      case True
      have loaded: "call_ok ?c \<sigma> (Set_loaded m old)" using each [of i] i len Set_loaded by simp
      show ?thesis
        using swap_ok [OF loaded c ok True] step Set_loaded stored
        by (auto simp: set_swap_def CompareAndSwap_def True Let_def)
    next
      case False
      then have "w = Set_call m" "\<sigma>' = \<sigma>" using step Set_loaded by (auto simp: set_swap_def CompareAndSwap_def Let_def)
      then show ?thesis using each [of i] i len Set_loaded quiet by auto
    qed
  next
    case (Force_call m)
    then have call: "?c = Force_call m" using each [of i] i len by auto
    show ?thesis
    proof (cases "m = []")
      case True
      then have "w = Returned" "\<sigma>' = \<sigma>" using step Force_call by (auto simp: ForceGrafanaAuthMethod_def)
      then show ?thesis using slot_ok_neutral [OF ok, of ?c] call True quiet by (simp add: neutral_def)
    next
      case False
      then show ?thesis using step Force_call call c stored
        by (auto simp: ForceGrafanaAuthMethod_def slot_ok_def slot_rank_def)
    qed
  next
    case Returned
    then show ?thesis using live by simp
  qed
qed

lemma inv_start: "list_all is_call calls \<Longrightarrow> auth_inv calls (calls, fresh_slot)"
proof -
  assume "list_all is_call calls"
  then have each: "is_call (calls ! i)" if "i < length calls" for i using that by (simp add: list_all_length)
  then have "returned_calls calls calls = {}"
    by (force simp: returned_calls_def)
  moreover have "call_ok (calls ! i) \<sigma> (calls ! i)" if "i < length calls" for i \<sigma>
    using each [OF that] by (cases "calls ! i") auto
  ultimately show ?thesis by (auto simp: auth_inv_def fresh_slot_def slot_ok_def)
qed

lemma run_calls_Cons:
  "run_calls (i # sched) (ws, \<sigma>) = Some r \<longleftrightarrow>
     i < length ws \<and> (\<exists>w \<sigma>'. call_step (ws ! i) \<sigma> = Some (w, \<sigma>') \<and> run_calls sched (ws[i := w], \<sigma>') = Some r)"
  by (auto split: option.splits)

lemma run_inv:
  "run_calls sched (ws, \<sigma>) = Some r \<Longrightarrow> auth_inv calls (ws, \<sigma>) \<Longrightarrow> auth_inv calls r"
proof (induction sched arbitrary: ws \<sigma>)
  case (Cons i sched)
  then show ?case unfolding run_calls_Cons using call_step_inv by blast
qed simp

lemma collect_some_Nil: "collect_some f xs = [] \<longleftrightarrow> (\<forall>x \<in> set xs. f x = None)"
  by (induction xs) (auto split: option.split)

lemma final_value:
  assumes "auth_inv calls (ws, \<sigma>)" and "all_returned ws" and "list_all is_call calls"
  shows "CurrentGrafanaAuthMethod (as_slot \<sigma>) \<in> set (decided calls)"
proof -
  have ok: "slot_ok (set calls) (set calls) (as_slot \<sigma>)"
    using assms all_returned_calls by (force simp: auth_inv_def)
  have sets: "m \<in> set (collect_some set_method calls) \<longleftrightarrow> m \<noteq> [] \<and> Set_call m \<in> set calls" for m
  proof -
    have "set_method c = Some m \<longleftrightarrow> m \<noteq> [] \<and> c = Set_call m" for c by (cases c) auto
    then show ?thesis by (auto simp: in_collect_some)
  qed
  have forces: "m \<in> set (collect_some forced_method calls) \<longleftrightarrow> m \<noteq> [] \<and> Force_call m \<in> set calls" for m
  proof -
    have "forced_method c = Some m \<longleftrightarrow> m \<noteq> [] \<and> c = Force_call m" for c by (cases c) auto
    then show ?thesis by (auto simp: in_collect_some)
  qed
  show ?thesis
  proof (cases "as_slot \<sigma>")
    case None
    then have "collect_some set_method calls = []" "collect_some forced_method calls = []"
      using ok by (auto simp: slot_ok_def neutral_def collect_some_Nil)
    then show ?thesis using None by (simp add: decided_def agreed_def CurrentGrafanaAuthMethod_def)
  next
    case (Some p)
    obtain a s where p: "p = (a, s)" by (cases p)
    show ?thesis
    proof (cases "am_forced s")
      case True
      then have "am_value s \<in> set (collect_some forced_method calls)" "\<not> am_conflicted s"
        using ok Some p forces by (auto simp: slot_ok_def)
      then show ?thesis using Some p by (auto simp: decided_def CurrentGrafanaAuthMethod_def)
    next
      case False
      then have no_force: "collect_some forced_method calls = []"
        using ok Some p by (auto simp: slot_ok_def collect_some_Nil)
      show ?thesis
      proof (cases "am_conflicted s")
        case True
        then obtain m m' where two: "m \<noteq> m'" "m \<in> set (collect_some set_method calls)" "m' \<in> set (collect_some set_method calls)"
          using ok False Some p sets by (auto simp: slot_ok_def)
        have "agreed (collect_some set_method calls) = []"
        proof (cases "remdups (collect_some set_method calls)")
          case (Cons x xs)
          then have "xs \<noteq> []" using two by (metis empty_iff empty_set insert_iff list.simps(15) set_remdups)
          then show ?thesis by (cases xs) (simp_all add: agreed_def Cons)
        qed (simp add: agreed_def)
        then show ?thesis using True Some p no_force by (simp add: decided_def CurrentGrafanaAuthMethod_def)
      next
        case plain: False
        let ?ms = "collect_some set_method calls"
        have one: "set ?ms = {am_value s}"
          using ok False plain Some p sets by (fastforce simp: slot_ok_def in_collect_some)
        have "remdups ?ms = [am_value s]"
        proof (cases "remdups ?ms")
          case (Cons x xs)
          then have "insert x (set xs) = {am_value s}" "x \<notin> set xs"
            using one by (metis list.simps(15) set_remdups) (metis Cons distinct.simps(2) distinct_remdups)
          then show ?thesis using Cons by (cases xs) auto
        qed (use one in auto)
        then show ?thesis using plain Some p no_force by (simp add: decided_def agreed_def CurrentGrafanaAuthMethod_def)
      qed
    qed
  qed
qed

section \<open>The steps of a call\<close>

fun call_cost :: "auth_pointer \<Rightarrow> auth_call \<Rightarrow> nat" where
  "call_cost p (Set_call m) = 2 * slot_rank p + 1"
| "call_cost p (Set_loaded m old) = 2 * slot_rank old"
| "call_cost p (Force_call m) = 1"
| "call_cost p Returned = 0"

lemma step_rank:
  assumes "call_ok c \<sigma> w" and "call_step w \<sigma> = Some (w', \<sigma>')"
  shows "slot_rank (as_slot \<sigma>') \<le> slot_rank (as_slot \<sigma>)"
  using assms
  by (cases w) (auto simp: set_swap_def CompareAndSwap_def ForceGrafanaAuthMethod_def store_def slot_rank_def Let_def
                  split: if_splits option.splits)

lemma step_cost:
  assumes "call_ok c \<sigma> w" and "call_step w \<sigma> = Some (w', \<sigma>')"
  shows "call_cost (as_slot \<sigma>') w' < call_cost (as_slot \<sigma>) w"
proof (cases w)
  case (Set_call m)
  then show ?thesis using assms by (auto simp: set_load_def split: option.splits)
next
  case (Set_loaded m old)
  then show ?thesis using assms
    by (cases "same_pointer (as_slot \<sigma>) old") (auto simp: set_swap_def CompareAndSwap_def same_pointer_def Let_def)
qed (use assms in auto)

lemma cost_mono: "slot_rank p' \<le> slot_rank p \<Longrightarrow> call_cost p' w \<le> call_cost p w"
  by (cases w) auto

lemma run_cost:
  "run_calls sched (ws, \<sigma>) = Some (ws', \<sigma>') \<Longrightarrow> auth_inv calls (ws, \<sigma>) \<Longrightarrow> i < length ws \<Longrightarrow>
   count_list sched i + call_cost (as_slot \<sigma>') (ws' ! i) \<le> call_cost (as_slot \<sigma>) (ws ! i)"
proof (induction sched arbitrary: ws \<sigma>)
  case (Cons k sched)
  then obtain w \<sigma>1 where k: "k < length ws" and step: "call_step (ws ! k) \<sigma> = Some (w, \<sigma>1)"
    and rest: "run_calls sched (ws[k := w], \<sigma>1) = Some (ws', \<sigma>')"
    unfolding run_calls_Cons by blast
  have ok: "call_ok (calls ! k) \<sigma> (ws ! k)" using Cons.prems(2) k by (auto simp: auth_inv_def)
  have "auth_inv calls (ws[k := w], \<sigma>1)" using call_step_inv Cons.prems(2) k step by blast
  then have "count_list sched i + call_cost (as_slot \<sigma>') (ws' ! i) \<le> call_cost (as_slot \<sigma>1) (ws[k := w] ! i)"
    using Cons.IH rest Cons.prems(3) by simp
  then show ?case
    using step_cost [OF ok step] cost_mono [OF step_rank [OF ok step], of "ws ! i"] Cons.prems(3)
    by (cases "k = i") auto
qed simp

lemma run_lengths: "run_calls sched (ws, \<sigma>) = Some (ws', \<sigma>') \<Longrightarrow> length ws' = length ws \<and> (\<forall>i \<in> set sched. i < length ws)"
proof (induction sched arbitrary: ws \<sigma>)
  case (Cons k sched)
  then show ?case unfolding run_calls_Cons by fastforce
qed simp

lemma run_calls_append:
  "run_calls (s @ t) (ws, \<sigma>) = (case run_calls s (ws, \<sigma>) of Some r \<Rightarrow> run_calls t r | None \<Rightarrow> None)"
  by (induction s arbitrary: ws \<sigma>) (auto split: option.split)

lemma can_step: "\<not> all_returned ws \<Longrightarrow> \<exists>i w \<sigma>'. i < length ws \<and> call_step (ws ! i) \<sigma> = Some (w, \<sigma>')"
proof -
  assume "\<not> all_returned ws"
  then obtain i where "i < length ws" "ws ! i \<noteq> Returned" by (auto simp: all_returned_def list_all_length)
  moreover have "\<exists>w \<sigma>'. call_step (ws ! i) \<sigma> = Some (w, \<sigma>')"
    using calculation(2) by (cases "ws ! i"; cases "call_step (ws ! i) \<sigma>") auto
  ultimately show ?thesis by blast
qed

lemma bounded_runs:
  assumes "list_all is_call calls" and "run_calls sched (calls, fresh_slot) = Some (ws, \<sigma>)"
  shows "count_list sched i \<le> 5" and "length sched \<le> 5 * length calls"
proof -
  have each: "count_list sched i \<le> 5" for i
  proof (cases "i < length calls")
    case True
    have "call_cost (as_slot fresh_slot) (calls ! i) \<le> 5"
      using assms(1) True by (cases "calls ! i") (auto simp: fresh_slot_def slot_rank_def list_all_length dest!: spec [of _ i])
    then show ?thesis using run_cost [OF assms(2) inv_start [OF assms(1)] True] by simp
  next
    case False
    then show ?thesis using run_lengths [OF assms(2)] by (metis count_list_0_iff le0)
  qed
  then show "count_list sched i \<le> 5" .
  have "length sched = (\<Sum>i \<in> set sched. count_list sched i)" by (simp add: sum_count_set)
  also have "\<dots> \<le> (\<Sum>i \<in> set sched. 5)" using each by (intro sum_mono) simp
  also have "\<dots> \<le> 5 * length calls"
  proof -
    have "set sched \<subseteq> {..<length calls}" using run_lengths [OF assms(2)] by auto
    then have "card (set sched) \<le> length calls" using card_mono [of "{..<length calls}"] by simp
    then show ?thesis by simp
  qed
  finally show "length sched \<le> 5 * length calls" .
qed

lemma run_finishes:
  assumes "list_all is_call calls" and "run_calls sched (calls, fresh_slot) = Some (ws, \<sigma>)"
  shows "\<exists>more ws' \<sigma>'. run_calls (sched @ more) (calls, fresh_slot) = Some (ws', \<sigma>') \<and> all_returned ws'"
  using assms(2)
proof (induction "5 * length calls - length sched" arbitrary: sched ws \<sigma> rule: less_induct)
  case less
  show ?case
  proof (cases "all_returned ws")
    case True
    then show ?thesis using less.prems by (metis append_Nil2)
  next
    case False
    then obtain i w \<sigma>' where "i < length ws" "call_step (ws ! i) \<sigma> = Some (w, \<sigma>')" using can_step by blast
    then have next_run: "run_calls (sched @ [i]) (calls, fresh_slot) = Some (ws[i := w], \<sigma>')"
      using less.prems by (simp add: run_calls_append)
    have "length (sched @ [i]) \<le> 5 * length calls" using bounded_runs(2) [OF assms(1) next_run] .
    then obtain more ws' \<sigma>'' where "run_calls ((sched @ [i]) @ more) (calls, fresh_slot) = Some (ws', \<sigma>'')" "all_returned ws'"
      using less.hyps [OF _ next_run] by fastforce
    then show ?thesis by (metis append.assoc)
  qed
qed


section \<open>The value and the bound\<close>

text \<open>
  C14. When concurrent calls that set or force the authentication method have all returned, the value read depends on
  what they were called with, not on how they interleaved: without forced methods it is the one method they agree on
  and nothing if they disagree or decide nothing, and otherwise it is a forced method, so that with one forced method
  it is that one, whatever loads of the configuration race with it.
\<close>

theorem auth_method_outcome:
  assumes "list_all is_call calls"
    and "run_calls sched (calls, fresh_slot) = Some (ws, \<sigma>)" and "all_returned ws"
  shows "CurrentGrafanaAuthMethod (as_slot \<sigma>) \<in> set (decided calls)"
  using final_value run_inv assms inv_start by blast

definition sample_calls :: "auth_call list" where
  "sample_calls = [Set_call ''token'', Set_call ''basic'', Force_call ''oauth'']"

lemma sample_run:
  "run_calls [0, 1, 2, 0, 1, 0, 1] (sample_calls, fresh_slot) = Some ([Returned, Returned, Returned],
     \<lparr>as_slot = Some (0, \<lparr>am_value = ''oauth'', am_conflicted = False, am_forced = True\<rparr>), as_next = 1\<rparr>)"
  by code_simp

theorem auth_method_outcome_witness:
  "CurrentGrafanaAuthMethod (Some (0, \<lparr>am_value = ''oauth'', am_conflicted = False, am_forced = True\<rparr>)) \<in> set [''oauth'']"
proof -
  have "decided sample_calls = [''oauth'']" by code_simp
  then show ?thesis
    using auth_method_outcome [OF _ sample_run] by (simp add: all_returned_def sample_calls_def)
qed

text \<open>
  Setting the authentication method is wait free: however the other calls are scheduled, a call makes at most five
  steps, that is at most two of its compare and swaps fail, and from every point of a run all calls can return.
\<close>

theorem auth_calls_bounded:
  assumes "list_all is_call calls" and "run_calls sched (calls, fresh_slot) = Some (ws, \<sigma>)"
  shows "count_list sched i \<le> 5 \<and> length sched \<le> 5 * length calls \<and>
         (\<exists>more ws' \<sigma>'. run_calls (sched @ more) (calls, fresh_slot) = Some (ws', \<sigma>') \<and> all_returned ws')"
  using bounded_runs [OF assms] run_finishes [OF assms] by blast

theorem auth_calls_bounded_witness:
  "count_list [0, 1, 2, 0, 1, 0, 1] (1 :: nat) \<le> 5 \<and>
   (\<exists>more ws' \<sigma>'. run_calls ([0, 1, 2, 0, 1, 0, 1] @ more) (sample_calls, fresh_slot) = Some (ws', \<sigma>') \<and> all_returned ws')"
  using auth_calls_bounded [OF _ sample_run] by (simp add: sample_calls_def)

end
