(* ===== verification/Gcx_Agent.thy ===== *)
theory Gcx_Agent
  imports Gcx_Paths "HOL-Library.Sublist"
begin

text \<open>
  Agent mode (\<^verbatim>\<open>agent/agent.go\<close>) and the log of failed agent invocations (\<^verbatim>\<open>agentlog/agentlog.go\<close>): who
  calls, as far as the environment tells, and what of the arguments of an invocation is written down. The lemmas show
  that the name of a caller comes from a fixed list, and which part of an argument can reach the log.
\<close>

section \<open>Names of agents\<close>

type_synonym environment = "string \<Rightarrow> string option"

definition Getenv :: "environment \<Rightarrow> string \<Rightarrow> string" where
  "Getenv env k = (case env k of Some v \<Rightarrow> v | None \<Rightarrow> [])"

definition isTruthy :: "string \<Rightarrow> bool" where
  "isTruthy s \<longleftrightarrow> go_lower s \<in> {''1'', ''true'', ''yes''}"

definition isFalsy :: "string \<Rightarrow> bool" where
  "isFalsy s \<longleftrightarrow> go_lower s \<in> {''0'', ''false'', ''no''}"

text \<open>\<^verbatim>\<open>strings.EqualFold\<close> with a word of lower case letters: besides the capitals, U+017F folds to s and
  U+212A to k.\<close>

fun fold_case :: "string \<Rightarrow> string" where
  "fold_case [] = []"
| "fold_case (x # xs) =
     (if is_upper x then char_of ((of_char x :: nat) + 32) # fold_case xs
      else if x = char_of (197 :: nat) \<and> take 1 xs = [char_of (191 :: nat)]
      then CHR ''s'' # fold_case (drop 1 xs)
      else if x = char_of (226 :: nat) \<and> take 2 xs = [char_of (132 :: nat), char_of (170 :: nat)]
      then CHR ''k'' # fold_case (drop 2 xs)
      else x # fold_case xs)"

definition equal_fold :: "string \<Rightarrow> string \<Rightarrow> bool" where
  "equal_fold s word \<longleftrightarrow> fold_case s = word"

definition harnessEnvVars :: "(string \<times> string) list" where
  "harnessEnvVars =
     [(''CLAUDECODE'', ''claude-code''), (''CLAUDE_CODE'', ''claude-code''), (''CURSOR_AGENT'', ''cursor''),
      (''GITHUB_COPILOT'', ''github-copilot''), (''COPILOT_CLI'', ''github-copilot''), (''AMAZON_Q'', ''amazon-q''),
      (''KILO'', ''kilo-code''), (''QWEN_CODE'', ''qwen-code''), (''GEMINI_CLI'', ''gemini-cli''),
      (''CODEX_SHELL'', ''codex''), (''CLINE_ACTIVE'', ''cline''), (''GOOSE_TERMINAL'', ''goose''),
      (''OPENCODE'', ''opencode''), (''PI_CODING_AGENT'', ''pi''), (''HERMES_AGENT'', ''hermes'')]"

definition harnessSessionVars :: "(string \<times> string) list" where
  "harnessSessionVars =
     [(''CODEX_THREAD_ID'', ''codex''), (''CODEX_SESSION_ID'', ''codex''),
      (''COPILOT_AGENT_SESSION_ID'', ''github-copilot'')]"

definition supported_names :: "string list" where
  "supported_names =
     [''claude-code'', ''codex'', ''cursor'', ''github-copilot'', ''gemini-cli'', ''opencode'', ''cline'',
      ''kilo-code'', ''kiro'', ''factory-droid'', ''amp'', ''augment'', ''junie'', ''devin'', ''openhands'',
      ''goose'', ''aider'', ''qwen-code'', ''pi'', ''crush'', ''amazon-q'', ''hermes'', ''openclaw'']"

definition supportedName :: "string \<Rightarrow> string" where
  "supportedName value =
     (let lowered = go_lower (go_trim_space value);
          name = (case go_cut (CHR ''@'') lowered of Some (a, b) \<Rightarrow> a | None \<Rightarrow> lowered)
      in if name \<in> set supported_names then name
         else if name = ''github-copilot-cli'' then ''github-copilot''
         else if name \<in> {''kilo'', ''kilocode''} then ''kilo-code''
         else if name = ''droid'' then ''factory-droid''
         else if name = ''auggie'' then ''augment''
         else if name = ''hermes-agent'' then ''hermes''
         else [])"

definition agent_Name :: "environment \<Rightarrow> string" where
  "agent_Name env =
     (if supportedName (Getenv env ''GCX_AGENT_NAME'') \<noteq> [] then supportedName (Getenv env ''GCX_AGENT_NAME'')
      else case find (\<lambda>(v, n). isTruthy (Getenv env v)) harnessEnvVars of
        Some (v, n) \<Rightarrow> n
      | None \<Rightarrow>
          (case find (\<lambda>(v, n). Getenv env v \<noteq> []) harnessSessionVars of
             Some (v, n) \<Rightarrow> n
           | None \<Rightarrow>
               if equal_fold (go_trim_space (Getenv env ''OPENCLAW_SHELL'')) ''exec'' then ''openclaw''
               else if supportedName (Getenv env ''AI_AGENT'') \<noteq> [] then supportedName (Getenv env ''AI_AGENT'')
               else if equal_fold (go_trim_space (Getenv env ''AGENT'')) ''goose'' then ''goose''
               else []))"

section \<open>Agent mode\<close>

record agent_state =
  ag_agentMode :: bool
  ag_detectedFromEnv :: bool

definition detectFromEnv :: "environment \<Rightarrow> agent_state" where
  "detectFromEnv env =
     (let off = \<lparr>ag_agentMode = False, ag_detectedFromEnv = False\<rparr>;
          on = \<lparr>ag_agentMode = True, ag_detectedFromEnv = True\<rparr>;
          by_name = (if agent_Name env \<noteq> [] then on else off)
      in case env ''GCX_AGENT_MODE'' of
           Some v \<Rightarrow> if isFalsy v then off else if isTruthy v then on else by_name
         | None \<Rightarrow> by_name)"

definition SetFlag :: "bool \<Rightarrow> agent_state \<Rightarrow> agent_state" where
  "SetFlag enabled st = st\<lparr>ag_agentMode := enabled\<rparr>"

fun preParseAgentFlag :: "string list \<Rightarrow> agent_state \<Rightarrow> agent_state" where
  "preParseAgentFlag [] st = st"
| "preParseAgentFlag (arg # args) st =
     (if arg = ''--'' then st
      else if arg = ''--agent'' then SetFlag True st
      else if take 8 arg = ''--agent='' then
        (let val = go_lower (drop 8 arg) in SetFlag (val \<in> {''true'', ''1'', ''yes''}) st)
      else preParseAgentFlag args st)"

section \<open>Arguments in the log\<close>

definition value_mark :: "string" where
  "value_mark = ''<value>''"

definition is_long_flag :: "string \<Rightarrow> bool" where
  "is_long_flag arg \<longleftrightarrow> take 2 arg = ''--''"

definition is_short_flag :: "string \<Rightarrow> bool" where
  "is_short_flag arg \<longleftrightarrow> 2 \<le> length arg \<and> arg ! 0 = CHR ''-'' \<and> arg ! 1 \<noteq> CHR ''-''"

text \<open>A byte converted to a string is the character with this number, in UTF-8.\<close>

definition byte_string :: "char \<Rightarrow> string" where
  "byte_string c =
     (let n = of_char c :: nat in
      if n < 128 then [c] else [char_of (192 + n div 64), char_of (128 + n mod 64)])"

text \<open>The tree of commands gives the names of boolean flags and of subcommands; a nil map of subcommands is \<open>None\<close>.\<close>

fun strip_from :: "bool \<Rightarrow> string set \<Rightarrow> string set option \<Rightarrow> string list \<Rightarrow> string list" where
  "strip_from consumeNext boolFlags subCmds [] = []"
| "strip_from consumeNext boolFlags subCmds (arg # args) =
     (if arg = ''--'' then []
      else if consumeNext then value_mark # strip_from False boolFlags subCmds args
      else if \<not> is_long_flag arg \<and> \<not> is_short_flag arg then
        (if (case subCmds of None \<Rightarrow> True | Some names \<Rightarrow> arg \<in> names) then arg else value_mark)
          # strip_from False boolFlags subCmds args
      else case go_cut (CHR ''='') arg of
        Some (before, after) \<Rightarrow> (before @ ''=<value>'') # strip_from False boolFlags subCmds args
      | None \<Rightarrow>
          if is_short_flag arg \<and> 2 < length arg
          then (CHR ''-'' # byte_string (arg ! 1) @ value_mark) # strip_from False boolFlags subCmds args
          else let name = (if is_short_flag arg then byte_string (arg ! 1) else drop 2 arg) in
            arg # strip_from (name \<notin> boolFlags) boolFlags subCmds args)"

definition StripArgValues :: "string list \<Rightarrow> string set \<Rightarrow> string set option \<Rightarrow> string list" where
  "StripArgValues args boolFlags subCmds = strip_from False boolFlags subCmds args"

text \<open>The error kinds that go into the log and into usage events.\<close>

definition KindFromExitCode :: "int \<Rightarrow> string" where
  "KindFromExitCode code =
     (if code = 2 then ''usage_error'' else if code = 3 then ''auth_failure''
      else if code = 4 then ''partial_failure'' else if code = 6 then ''version_incompatible''
      else ''error'')"

section \<open>The length of the log\<close>

text \<open>The loop over the bytes: each end of a line counts down, and the data begins anew after the last to be dropped.\<close>

fun drop_lines :: "nat \<Rightarrow> string \<Rightarrow> string option" where
  "drop_lines n [] = None"
| "drop_lines n (c # s) =
     (if c = char_of (10 :: nat) then (if n = 1 then Some s else drop_lines (n - 1) s) else drop_lines n s)"

definition trimmed_log :: "nat \<Rightarrow> string \<Rightarrow> string" where
  "trimmed_log limit contents =
     (let count = count_list contents (char_of (10 :: nat)) in
      if count \<le> limit then contents
      else case drop_lines (count - limit) contents of Some rest \<Rightarrow> rest | None \<Rightarrow> contents)"

definition log_path :: "string \<Rightarrow> string \<Rightarrow> string" where
  "log_path logDir stateHome =
     go_path_join (if logDir = [] then go_path_join stateHome ''gcx'' else logDir) ''agent-invocation-errors.jsonl''"

section \<open>What is told of a caller\<close>

definition agent_names :: "string list" where
  "agent_names = [] # supported_names"

lemma supportedName_known: "supportedName v \<in> set agent_names"
  by (auto simp: supportedName_def agent_names_def Let_def) (auto simp: supported_names_def)

lemma harness_known:
  "(v, n) \<in> set harnessEnvVars \<Longrightarrow> n \<in> set agent_names" "(v, n) \<in> set harnessSessionVars \<Longrightarrow> n \<in> set agent_names"
  by (auto simp: harnessEnvVars_def harnessSessionVars_def agent_names_def supported_names_def)

lemma agent_Name_known: "agent_Name env \<in> set agent_names"
proof -
  have "{''openclaw'', ''goose'', []} \<subseteq> set agent_names" by (simp add: agent_names_def supported_names_def)
  then show ?thesis
    using supportedName_known harness_known
    by (auto simp: agent_Name_def dest!: find_SomeD split: option.split)
qed

lemma flag_outranks_environment:
  "preParseAgentFlag (''--agent'' # args) st = SetFlag True st"
  "preParseAgentFlag (''--agent=false'' # args) st = SetFlag False st"
  "preParseAgentFlag (''--'' # args) st = st"
proof -
  have "go_lower ''false'' = ''false''" by code_simp
  then show "preParseAgentFlag (''--agent=false'' # args) st = SetFlag False st" by simp
qed simp_all

section \<open>What an argument leaves in the log\<close>

definition before_value :: "string \<Rightarrow> string" where
  "before_value arg = (case go_cut (CHR ''='') arg of Some (b, a) \<Rightarrow> b @ ''=<value>'' | None \<Rightarrow> arg)"

definition logged_form :: "string set \<Rightarrow> string \<Rightarrow> string \<Rightarrow> bool" where
  "logged_form names logged arg \<longleftrightarrow>
     logged = value_mark \<or>
     (logged = arg \<and> arg \<in> names) \<or>
     (is_long_flag arg \<and> logged = before_value arg) \<or>
     (is_short_flag arg \<and>
        logged \<in> {take 2 arg, take 2 arg @ ''=<value>'', CHR ''-'' # byte_string (arg ! 1) @ value_mark})"

definition attached_with_equals :: "string \<Rightarrow> bool" where
  "attached_with_equals arg \<longleftrightarrow> is_short_flag arg \<and> CHR ''='' \<in> set (drop 3 arg) \<and> CHR ''='' \<notin> set (take 3 arg)"

lemma short_before_value:
  assumes "is_short_flag arg" and "\<not> attached_with_equals arg" and "go_cut (CHR ''='') arg = Some (b, a)"
  shows "b @ ''=<value>'' \<in> {take 2 arg @ ''=<value>'', CHR ''-'' # byte_string (arg ! 1) @ value_mark}"
proof -
  obtain c s where arg: "arg = CHR ''-'' # c # s"
    using assms(1) by (cases arg; cases "tl arg") (auto simp: is_short_flag_def)
  show ?thesis
  proof (cases "c = CHR ''=''")
    case True
    then show ?thesis using assms(3) arg by (auto simp: byte_string_def value_mark_def)
  next
    case False
    then obtain t where s: "s = CHR ''='' # t"
      using assms arg by (cases s) (auto simp: attached_with_equals_def split: if_splits option.splits dest: go_cut_Some [THEN iffD1])
    then show ?thesis using assms(3) arg False by auto
  qed
qed

lemma logged_form_intros:
  "logged_form names value_mark arg" "arg \<in> names \<Longrightarrow> logged_form names arg arg"
  "is_long_flag arg \<Longrightarrow> logged_form names (before_value arg) arg"
  "is_short_flag arg \<Longrightarrow> logged_form names (CHR ''-'' # byte_string (arg ! 1) @ value_mark) arg"
  "is_short_flag arg \<Longrightarrow> \<not> 2 < length arg \<Longrightarrow> logged_form names arg arg"
  by (auto simp: logged_form_def is_short_flag_def)

lemma strip_forms:
  "list_all (\<lambda>a. \<not> attached_with_equals a) args \<Longrightarrow>
   list_all2 (logged_form names) (strip_from consume boolFlags (Some names) args) (takeWhile (\<lambda>a. a \<noteq> ''--'') args)"
proof (induction args arbitrary: consume)
  case (Cons arg args)
  have rest: "list_all2 (logged_form names) (strip_from k boolFlags (Some names) args) (takeWhile (\<lambda>a. a \<noteq> ''--'') args)" for k
    using Cons by simp
  show ?case
  proof (cases "arg = ''--'' \<or> consume \<or> (\<not> is_long_flag arg \<and> \<not> is_short_flag arg)")
    case True
    then show ?thesis using rest logged_form_intros(1,2) by auto
  next
    case flag: False
    show ?thesis
    proof (cases "go_cut (CHR ''='') arg")
      case None
      then have same: "before_value arg = arg" by (simp add: before_value_def)
      show ?thesis
      proof (cases "is_short_flag arg")
        case True
        then show ?thesis using flag None rest logged_form_intros(4,5) [OF True, of names] by (simp add: Let_def)
      next
        case False
        then have "logged_form names arg arg" using logged_form_intros(3) [of arg names] flag same by simp
        then show ?thesis using flag None rest False by (simp add: Let_def)
      qed
    next
      case (Some p)
      obtain b a where p: "p = (b, a)" by (cases p)
      have "before_value arg = b @ ''=<value>''" by (simp add: before_value_def Some p)
      then have "logged_form names (b @ ''=<value>'') arg"
        using flag short_before_value [of arg b a] Cons.prems Some p by (auto simp: logged_form_def)
      then show ?thesis using flag Some p rest by auto
    qed
  qed
qed simp

lemma drop_lines_Some:
  "0 < n \<Longrightarrow> n \<le> count_list s (char_of (10 :: nat)) \<Longrightarrow>
   \<exists>t. drop_lines n s = Some t \<and> suffix t s \<and> count_list t (char_of (10 :: nat)) = count_list s (char_of (10 :: nat)) - n"
proof (induction n s rule: drop_lines.induct)
  case (2 n c s)
  show ?case
  proof (cases "c = char_of (10 :: nat) \<and> n = 1")
    case True
    then show ?thesis by (auto simp: suffix_def)
  next
    case False
    have "\<exists>t. drop_lines m s = Some t \<and> suffix t s \<and> count_list t (char_of (10 :: nat)) = count_list s (char_of (10 :: nat)) - m"
      if "m = (if c = char_of (10 :: nat) then n - 1 else n)" for m
      using 2 False that by (cases "c = char_of (10 :: nat)") auto
    moreover have "drop_lines n (c # s) = drop_lines (if c = char_of (10 :: nat) then n - 1 else n) s" using False by simp
    ultimately show ?thesis using False 2(3) by (auto simp: suffix_Cons)
  qed
qed simp

lemma trimmed_log_bound:
  "count_list (trimmed_log limit s) (char_of (10 :: nat)) = min limit (count_list s (char_of (10 :: nat))) \<and> suffix (trimmed_log limit s) s"
proof (cases "count_list s (char_of (10 :: nat)) \<le> limit")
  case False
  then show ?thesis using drop_lines_Some [of "count_list s (char_of (10 :: nat)) - limit" s]
    by (auto simp: trimmed_log_def Let_def)
qed (simp add: trimmed_log_def)

text \<open>
  C17. What the log keeps of the arguments of an invocation: of each argument before a double dash a mark in place of
  a value, the name of a known subcommand, a long flag up to its equals sign, or the letter of a short flag, provided
  that no short flag has a value attached that contains an equals sign. Of such a flag the value up to the equals
  sign is kept.
\<close>

theorem StripArgValues_redacts:
  assumes "list_all (\<lambda>a. \<not> attached_with_equals a) args"
  shows "list_all2 (logged_form names) (StripArgValues args boolFlags (Some names)) (takeWhile (\<lambda>a. a \<noteq> ''--'') args)
    \<and> StripArgValues ((''-p'' @ secret @ ''='' @ tail) # rest) boolFlags (Some names) =
       (''-p'' @ takeWhile (\<lambda>c. c \<noteq> CHR ''='') secret @ ''=<value>'') # StripArgValues rest boolFlags (Some names)"
proof
  show "list_all2 (logged_form names) (StripArgValues args boolFlags (Some names)) (takeWhile (\<lambda>a. a \<noteq> ''--'') args)"
    unfolding StripArgValues_def by (rule strip_forms [OF assms])
  have "go_cut (CHR ''='') (s @ CHR ''='' # t) = Some (takeWhile (\<lambda>c. c \<noteq> CHR ''='') s, drop (Suc (length (takeWhile (\<lambda>c. c \<noteq> CHR ''='') s))) (s @ CHR ''='' # t))" for s t
    by (induction s) auto
  then have "\<exists>after. go_cut (CHR ''='') (''-p'' @ secret @ ''='' @ tail) = Some (''-p'' @ takeWhile (\<lambda>c. c \<noteq> CHR ''='') secret, after)"
    by auto
  then show "StripArgValues ((''-p'' @ secret @ ''='' @ tail) # rest) boolFlags (Some names) =
       (''-p'' @ takeWhile (\<lambda>c. c \<noteq> CHR ''='') secret @ ''=<value>'') # StripArgValues rest boolFlags (Some names)"
    by (auto simp: StripArgValues_def is_long_flag_def is_short_flag_def)
qed

theorem StripArgValues_redacts_witness:
  "list_all2 (logged_form {''get'', ''resources''})
     (StripArgValues [''resources'', ''get'', ''dashboards/abc'', ''--context'', ''prod'', ''--json'', ''-ofile'', ''--token=glsa'', ''--'', ''x'']
        {''json''} (Some {''get'', ''resources''}))
     [''resources'', ''get'', ''dashboards/abc'', ''--context'', ''prod'', ''--json'', ''-ofile'', ''--token=glsa''] \<and>
   StripArgValues [''resources'', ''get'', ''dashboards/abc'', ''--context'', ''prod'', ''--json'', ''-ofile'', ''--token=glsa'', ''--'', ''x'']
     {''json''} (Some {''get'', ''resources''}) =
     [''resources'', ''get'', ''<value>'', ''--context'', ''<value>'', ''--json'', ''-o<value>'', ''--token=<value>''] \<and>
   StripArgValues [''-pc2VjcmV0=='', ''get''] {} (Some {''get''}) = [''-pc2VjcmV0=<value>'', ''get'']"
proof (intro conjI)
  let ?args = "[''resources'', ''get'', ''dashboards/abc'', ''--context'', ''prod'', ''--json'', ''-ofile'', ''--token=glsa'', ''--'', ''x'']"
  have "list_all (\<lambda>a. \<not> attached_with_equals a) ?args" by code_simp
  then show "list_all2 (logged_form {''get'', ''resources''}) (StripArgValues ?args {''json''} (Some {''get'', ''resources''}))
     [''resources'', ''get'', ''dashboards/abc'', ''--context'', ''prod'', ''--json'', ''-ofile'', ''--token=glsa'']"
    using StripArgValues_redacts [where args = ?args and names = "{''get'', ''resources''}" and boolFlags = "{''json''}"] by simp
  show "StripArgValues ?args {''json''} (Some {''get'', ''resources''}) =
     [''resources'', ''get'', ''<value>'', ''--context'', ''<value>'', ''--json'', ''-o<value>'', ''--token=<value>'']"
    by code_simp
  show "StripArgValues [''-pc2VjcmV0=='', ''get''] {} (Some {''get''}) = [''-pc2VjcmV0=<value>'', ''get'']" by code_simp
qed

end
