(* ===== verification/Gcx_Usage.thy ===== *)
theory Gcx_Usage
  imports Gcx_UsageAPI Gcx_UsageCapture Gcx_Agent
begin

text \<open>
  The usage event of an invocation (\<^verbatim>\<open>internal/telemetry\<close>, \<^verbatim>\<open>cmd/gcx/telemetry.go\<close>,
  \<^verbatim>\<open>cmd/gcx/root/telemetry.go\<close>): whether it is sent, what it says and when the notice about it is shown. The lemmas
  bound what an event can say, and show that opting out is respected and the notice is shown once.
\<close>

section \<open>The mode\<close>

datatype usage_mode = ModeEnabled | ModeDisabled | ModeLog

definition parseMode :: "string \<Rightarrow> usage_mode option" where
  "parseMode s =
     (if s = [] then None
      else if go_lower s = ''enabled'' then Some ModeEnabled
      else if go_lower s = ''disabled'' then Some ModeDisabled
      else if go_lower s = ''log'' then Some ModeLog
      else Some ModeDisabled)"

definition isDoNotTrack :: "string \<Rightarrow> bool" where
  "isDoNotTrack s \<longleftrightarrow> go_lower s \<in> {''1'', ''true''}"

definition resolveMode :: "environment \<Rightarrow> string \<Rightarrow> usage_mode" where
  "resolveMode env configValue =
     (case parseMode (Getenv env ''GCX_TELEMETRY'') of
        Some m \<Rightarrow> m
      | None \<Rightarrow>
          if isDoNotTrack (Getenv env ''DO_NOT_TRACK'') then ModeDisabled
          else case parseMode configValue of Some m \<Rightarrow> m | None \<Rightarrow> ModeEnabled)"

section \<open>Labels\<close>

definition Buckets :: "string list" where
  "Buckets = [''0'', ''1'', ''2-5'', ''6-20'', ''21-100'', ''101-1000'', ''1001+'']"

definition Bucket :: "int \<Rightarrow> string" where
  "Bucket n =
     (if n \<le> 0 then ''0'' else if n = 1 then ''1'' else if n \<le> 5 then ''2-5'' else if n \<le> 20 then ''6-20''
      else if n \<le> 100 then ''21-100'' else if n \<le> 1000 then ''101-1000'' else ''1001+'')"

definition ciProviders :: "(string \<times> string) list" where
  "ciProviders =
     [(''github_actions'', ''GITHUB_ACTIONS''), (''gitlab'', ''GITLAB_CI''), (''circleci'', ''CIRCLECI''),
      (''jenkins'', ''JENKINS_URL''), (''buildkite'', ''BUILDKITE''), (''azure_pipelines'', ''TF_BUILD''),
      (''travis'', ''TRAVIS''), (''teamcity'', ''TEAMCITY_VERSION''),
      (''bitbucket_pipelines'', ''BITBUCKET_COMMIT''), (''drone'', ''DRONE''),
      (''aws_codebuild'', ''CODEBUILD_BUILD_ARN''), (''google_cloud_build'', ''BUILDER_OUTPUT''),
      (''semaphore'', ''SEMAPHORE''), (''appveyor'', ''APPVEYOR''), (''woodpecker'', ''WOODPECKER'')]"

definition genericCIVars :: "string list" where
  "genericCIVars = [''CI'', ''CONTINUOUS_INTEGRATION'', ''BUILD_NUMBER'']"

definition isEnvSet :: "string \<Rightarrow> bool" where
  "isEnvSet v \<longleftrightarrow> go_lower v \<notin> {[], ''0'', ''false'', ''no''}"

definition detectCI :: "environment \<Rightarrow> string \<times> bool" where
  "detectCI env =
     (case find (\<lambda>(name, v). isEnvSet (Getenv env v)) ciProviders of
        Some (name, v) \<Rightarrow> (name, True)
      | None \<Rightarrow> if list_ex (\<lambda>v. isEnvSet (Getenv env v)) genericCIVars then (''unknown'', True) else ([], False))"

definition GrafanaAuthMethodLabels :: "string list" where
  "GrafanaAuthMethodLabels = [''oauth'', ''token'', ''basic'', ''mtls'', ''anonymous'', ''unknown'']"

definition GrafanaAuthMethodLabel :: "string \<Rightarrow> string" where
  "GrafanaAuthMethodLabel m =
     (if m = [] then [] else if m \<in> set GrafanaAuthMethodLabels then m else ''unknown'')"

definition k8sReasons :: "string list" where
  "k8sReasons =
     [''Unauthorized'', ''Forbidden'', ''NotFound'', ''AlreadyExists'', ''Conflict'', ''Gone'', ''Invalid'',
      ''BadRequest'', ''MethodNotAllowed'', ''NotAcceptable'', ''RequestEntityTooLarge'',
      ''UnsupportedMediaType'', ''Expired'', ''Timeout'', ''ServerTimeout'', ''TooManyRequests'',
      ''InternalError'', ''ServiceUnavailable'', ''StorageReadError'']"

definition K8sReasonLabel :: "string \<Rightarrow> string" where
  "K8sReasonLabel reason = (if reason = [] then [] else if reason \<in> set k8sReasons then reason else ''other'')"

definition SignupStageLabels :: "string list" where
  "SignupStageLabels =
     [''preflight'', ''credentials'', ''browser'', ''callback'', ''validate'', ''persist'', ''complete'', ''unknown'']"

definition SignupStageLabel :: "string \<Rightarrow> string" where
  "SignupStageLabel stage =
     (if stage = [] then [] else if stage \<in> set SignupStageLabels then stage else ''unknown'')"

section \<open>The command\<close>

text \<open>What the code reads of a command of cobra: its names below the root, outermost first, the texts of its path and
  of that of the root, its flags and whether it has an action.\<close>

record command_flag =
  cf_Name :: string
  cf_Changed :: bool
  cf_Value :: string

record cobra_command =
  cc_names :: "string list"
  cc_Name :: string
  cc_CommandPath :: string
  cc_RootPath :: string
  cc_Flags :: "command_flag list"
  cc_Runnable :: bool

record telemetry_info =
  ti_Command :: string
  ti_Flags :: string
  ti_OutputFormat :: string
  ti_Help :: bool
  ti_Suppress :: bool

definition lookup_flag :: "cobra_command \<Rightarrow> string \<Rightarrow> command_flag option" where
  "lookup_flag cmd name = find (\<lambda>f. cf_Name f = name) (cc_Flags cmd)"

definition trimCommandRoot :: "cobra_command \<Rightarrow> string" where
  "trimCommandRoot cmd =
     (let p = cc_CommandPath cmd; r = cc_RootPath cmd in
      go_trim_space (if take (length r) p = r then drop (length r) p else p))"

definition changedFlagNames :: "cobra_command \<Rightarrow> string" where
  "changedFlagNames cmd = go_join '','' (sort (map cf_Name (filter cf_Changed (cc_Flags cmd))))"

definition boolFlagSet :: "cobra_command \<Rightarrow> string \<Rightarrow> bool" where
  "boolFlagSet cmd name \<longleftrightarrow>
     (case lookup_flag cmd name of Some f \<Rightarrow> cf_Changed f \<and> cf_Value f = ''true'' | None \<Rightarrow> False)"

definition knownOutputFormats :: "string list" where
  "knownOutputFormats =
     [''agents'', ''compact'', ''graph'', ''json'', ''pretty'', ''table'', ''text'', ''wide'', ''yaml'']"

definition resolvedOutputFormat :: "cobra_command \<Rightarrow> string" where
  "resolvedOutputFormat cmd =
     (case lookup_flag cmd ''output'' of
        Some f \<Rightarrow> (let v = go_lower (cf_Value f) in if v \<in> set knownOutputFormats then v else [])
      | None \<Rightarrow> if boolFlagSet cmd ''json'' then ''json'' else [])"

definition isShellPlumbingCommand :: "string \<Rightarrow> bool" where
  "isShellPlumbingCommand name \<longleftrightarrow> name \<in> {''completion'', ''__complete'', ''__completeNoDesc''}"

definition telemetrySuppressed :: "cobra_command \<Rightarrow> bool" where
  "telemetrySuppressed cmd \<longleftrightarrow>
     list_ex (\<lambda>n. isShellPlumbingCommand n \<or> n = ''version'' \<or> n = ''telemetry'') (rev (cc_names cmd)) \<or>
     boolFlagSet cmd ''version''"

text \<open>The result of \<^verbatim>\<open>Find\<close> without an error is an argument.\<close>

definition recordTelemetryInfo :: "cobra_command \<Rightarrow> cobra_command option \<Rightarrow> telemetry_info" where
  "recordTelemetryInfo cmd found =
     (let isHelp = (cc_Name cmd = ''help'');
          target = (if isHelp then (case found of Some t \<Rightarrow> t | None \<Rightarrow> cmd) else cmd)
      in \<lparr>ti_Command = trimCommandRoot target, ti_Flags = changedFlagNames cmd,
          ti_OutputFormat = resolvedOutputFormat cmd, ti_Help = isHelp,
          ti_Suppress = (telemetrySuppressed cmd \<or> telemetrySuppressed target)\<rparr>)"

definition suppressed_info :: telemetry_info where
  "suppressed_info =
     \<lparr>ti_Command = [], ti_Flags = [], ti_OutputFormat = [], ti_Help = False, ti_Suppress = True\<rparr>"

definition FallbackTelemetryInfo :: "cobra_command option \<Rightarrow> int \<Rightarrow> telemetry_info" where
  "FallbackTelemetryInfo found exitCode =
     (if exitCode \<noteq> 0 then suppressed_info
      else case found of
        None \<Rightarrow> suppressed_info
      | Some target \<Rightarrow>
          if telemetrySuppressed target then suppressed_info
          else if boolFlagSet target ''help'' \<or> \<not> cc_Runnable target
          then \<lparr>ti_Command = trimCommandRoot target, ti_Flags = [], ti_OutputFormat = [], ti_Help = True, ti_Suppress = False\<rparr>
          else suppressed_info)"

section \<open>Files of the state directory\<close>

datatype read_result = Read_ok string | Not_exist | Read_failed

text \<open>The calls of the file system on its state, which are parameters: a read, and the two that can fail.\<close>

record 'w state_files =
  sf_read :: "'w \<Rightarrow> string \<Rightarrow> read_result"
  sf_mkdir :: "'w \<Rightarrow> string \<Rightarrow> bool \<times> 'w"
  sf_write :: "'w \<Rightarrow> string \<Rightarrow> string \<Rightarrow> bool \<times> 'w"

definition StateHome :: "environment \<Rightarrow> string option \<Rightarrow> string" where
  "StateHome env home =
     (if Getenv env ''XDG_STATE_HOME'' \<noteq> [] then Getenv env ''XDG_STATE_HOME''
      else case home of Some h \<Rightarrow> go_path_join (go_path_join h ''.local'') ''state'' | None \<Rightarrow> [])"

definition state_path :: "string \<Rightarrow> string \<Rightarrow> string" where
  "state_path stateHome name = (if stateHome = [] then [] else go_path_join (go_path_join stateHome ''gcx'') name)"

definition FirstRunNoticePath :: "string \<Rightarrow> string" where
  "FirstRunNoticePath stateHome = state_path stateHome ''telemetry-notice-shown''"

definition DeviceIDPath :: "string \<Rightarrow> string" where
  "DeviceIDPath stateHome = state_path stateHome ''device-id''"

definition noticeRevision :: "string" where
  "noticeRevision = ''4''"

definition newline :: "char" where
  "newline = char_of (10 :: nat)"

definition maybeShowFirstRunNotice ::
  "'w state_files \<Rightarrow> usage_mode \<Rightarrow> bool \<Rightarrow> bool \<Rightarrow> bool \<Rightarrow> string \<Rightarrow> 'w \<Rightarrow> bool \<times> 'w" where
  "maybeShowFirstRunNotice fs mode isTTY isCI isAgent path w =
     (if mode \<noteq> ModeEnabled \<or> \<not> isTTY \<or> isCI \<or> isAgent then (False, w)
      else if path = [] then (False, w)
      else if (case sf_read fs w path of
                 Read_ok contents \<Rightarrow> go_trim_space contents = noticeRevision
               | Not_exist \<Rightarrow> False
               | Read_failed \<Rightarrow> True)
      then (False, w)
      else let (made, w1) = sf_mkdir fs w (go_dir path) in
        if \<not> made then (False, w1)
        else let (written, w2) = sf_write fs w1 path (noticeRevision @ [newline]) in (written, w2))"

text \<open>The parser of the UUID library and the identifier it makes are parameters.\<close>

definition DeviceID ::
  "'w state_files \<Rightarrow> (string \<Rightarrow> string option) \<Rightarrow> string option \<Rightarrow> string \<Rightarrow> 'w \<Rightarrow> (string \<times> bool) \<times> 'w" where
  "DeviceID fs uuid_parse fresh stateHome w =
     (let path = DeviceIDPath stateHome;
          stored = (case sf_read fs w path of
                      Read_ok contents \<Rightarrow> uuid_parse (go_trim_space contents)
                    | _ \<Rightarrow> None)
      in case stored of
           Some parsed \<Rightarrow> ((parsed, True), w)
         | None \<Rightarrow>
             (case fresh of
                None \<Rightarrow> (([], False), w)
              | Some ident \<Rightarrow>
                  if path = [] then ((ident, False), w)
                  else let (made, w1) = sf_mkdir fs w (go_dir path) in
                    if \<not> made then ((ident, False), w1)
                    else let (written, w2) = sf_write fs w1 path (ident @ [newline]) in
                      ((ident, written), w2)))"

section \<open>The event\<close>

record usage_event =
  ev_Service :: string
  ev_Version :: string
  ev_OS :: string
  ev_Arch :: string
  ev_DeviceID :: string
  ev_DeviceIDPersisted :: bool
  ev_Command :: string
  ev_Flags :: string
  ev_Provider :: string
  ev_Outcome :: string
  ev_ExitCode :: int
  ev_ErrorKind :: string
  ev_DurationMS :: int
  ev_IsTTY :: bool
  ev_IsCI :: bool
  ev_CIProvider :: string
  ev_IsAgent :: bool
  ev_Agent :: string
  ev_TargetKind :: string
  ev_OutputFormat :: string
  ev_BatchSucceededBucket :: "string option"
  ev_BatchFailedBucket :: "string option"
  ev_BatchSkippedBucket :: "string option"
  ev_DryRun :: "bool option"
  ev_HTTPStatus :: int
  ev_K8sReason :: string
  ev_GrafanaAuthMethod :: string
  ev_SignupStage :: string
  ev_APIMethod :: string
  ev_APIRoute :: string
  ev_APIDatasourceTypes :: string

text \<open>What the process knows beside the captures: its build, terminals, clock, the agent state, the captured kind of
  target and the configured value of the telemetry setting.\<close>

record process =
  pr_env :: environment
  pr_home :: "string option"
  pr_version :: string
  pr_GOOS :: string
  pr_GOARCH :: string
  pr_stdoutTTY :: bool
  pr_stderrTTY :: bool
  pr_elapsed :: int
  pr_agent :: agent_state
  pr_targetKind :: TargetKind
  pr_configValue :: string
  pr_uuid_parse :: "string \<Rightarrow> string option"
  pr_newRandom :: "string option"

definition CapturedTargetKind :: "TargetKind \<Rightarrow> string" where
  "CapturedTargetKind kind =
     (case kind of TargetKindUnknown \<Rightarrow> [] | TargetKindCloud \<Rightarrow> ''cloud'' | TargetKindSelfHosted \<Rightarrow> ''self-hosted'')"

text \<open>\<^verbatim>\<open>strings.Fields\<close> up to the first field: what is before the next white space.\<close>

function until_space :: "string \<Rightarrow> string" where
  "until_space s =
     (if s = [] \<or> list_ex (\<lambda>p. take (length p) s = p) space_chars then [] else hd s # until_space (tl s))"
  by pat_completeness auto
termination by (relation "measure length") auto

declare until_space.simps [simp del]

definition first_field :: "string \<Rightarrow> string" where
  "first_field s = until_space (trim_first space_chars s)"

definition ExitPartialFailure :: int where
  "ExitPartialFailure = 4"

definition ExitCancelled :: int where
  "ExitCancelled = 5"

definition outcome_of :: "telemetry_info \<Rightarrow> int \<Rightarrow> string \<times> string" where
  "outcome_of info exitCode =
     (if ti_Help info \<and> exitCode = 0 then (''help'', [])
      else if exitCode = 0 then (''ok'', [])
      else if exitCode = ExitCancelled then (''canceled'', [])
      else (''runtime_error'', KindFromExitCode exitCode))"

definition failure_depth :: "captures \<Rightarrow> int \<Rightarrow> int \<times> string" where
  "failure_depth caps exitCode =
     (if exitCode \<noteq> ExitPartialFailure \<and> exitCode \<noteq> ExitCancelled
      then (if 400 \<le> cap_httpStatus caps \<and> cap_httpStatus caps \<le> 599 then cap_httpStatus caps else 0,
            K8sReasonLabel (CurrentK8sReason caps))
      else (0, []))"

definition buildUsageEvent ::
  "'w state_files \<Rightarrow> process \<Rightarrow> captures \<Rightarrow> api_request option \<Rightarrow> telemetry_info \<Rightarrow> int \<Rightarrow> 'w \<Rightarrow> usage_event \<times> 'w" where
  "buildUsageEvent fs pr caps req info exitCode w =
     (let ((deviceID, persisted), w') =
            DeviceID fs (pr_uuid_parse pr) (pr_newRandom pr) (StateHome (pr_env pr) (pr_home pr)) w;
          agent = agent_Name (pr_env pr);
          isAgent = ag_agentMode (pr_agent pr);
          (ciProvider, isCI) = detectCI (pr_env pr);
          (outcome, errorKind) = outcome_of info exitCode;
          (status, reason) = failure_depth caps exitCode
      in (\<lparr>ev_Service = ''gcx'', ev_Version = pr_version pr, ev_OS = pr_GOOS pr, ev_Arch = pr_GOARCH pr,
           ev_DeviceID = deviceID, ev_DeviceIDPersisted = persisted,
           ev_Command = ti_Command info, ev_Flags = ti_Flags info, ev_Provider = first_field (ti_Command info),
           ev_Outcome = outcome, ev_ExitCode = exitCode, ev_ErrorKind = errorKind, ev_DurationMS = pr_elapsed pr,
           ev_IsTTY = pr_stdoutTTY pr, ev_IsCI = isCI, ev_CIProvider = ciProvider,
           ev_IsAgent = isAgent, ev_Agent = (if agent = [] \<and> isAgent then ''generic'' else agent),
           ev_TargetKind = CapturedTargetKind (pr_targetKind pr), ev_OutputFormat = ti_OutputFormat info,
           ev_BatchSucceededBucket = map_option (\<lambda>b. Bucket (bt_Succeeded b)) (cap_batch caps),
           ev_BatchFailedBucket = map_option (\<lambda>b. Bucket (bt_Failed b)) (cap_batch caps),
           ev_BatchSkippedBucket = map_option (\<lambda>b. Bucket (bt_Skipped b)) (cap_batch caps),
           ev_DryRun = map_option bt_DryRun (cap_batch caps),
           ev_HTTPStatus = status, ev_K8sReason = reason,
           ev_GrafanaAuthMethod = GrafanaAuthMethodLabel (CurrentGrafanaAuthMethod (cap_auth caps)),
           ev_SignupStage =
             (if ti_Command info = ''signup'' then SignupStageLabel (CurrentLoginStage caps) else []),
           ev_APIMethod = (case req of Some r \<Rightarrow> ar_Method r | None \<Rightarrow> []),
           ev_APIRoute = (case req of Some r \<Rightarrow> ar_Route r | None \<Rightarrow> []),
           ev_APIDatasourceTypes = (case req of Some r \<Rightarrow> ar_DatasourceTypes r | None \<Rightarrow> [])\<rparr>, w'))"

section \<open>Emitting\<close>

text \<open>What an invocation brings: its process, captures, a recorded API request, the information recorded before the
  command ran or what \<^verbatim>\<open>Find\<close> gives at exit, and its exit code.\<close>

record invocation =
  iv_process :: process
  iv_captures :: captures
  iv_api :: "api_request option"
  iv_recorded :: "telemetry_info option"
  iv_found :: "cobra_command option"
  iv_exitCode :: int

datatype usage_said = Notice | Event_line usage_event

record 'w usage_world =
  us_files :: 'w
  us_said :: "usage_said list"
  us_sent :: "(string \<times> usage_event) list"

definition endpoint_of :: "environment \<Rightarrow> string" where
  "endpoint_of env =
     (if Getenv env ''GCX_TELEMETRY_ENDPOINT'' \<noteq> [] then Getenv env ''GCX_TELEMETRY_ENDPOINT''
      else ''https://stats.grafana.org/gcx-usage-report'')"

definition usage_info :: "invocation \<Rightarrow> telemetry_info" where
  "usage_info iv =
     (case iv_recorded iv of Some info \<Rightarrow> info | None \<Rightarrow> FallbackTelemetryInfo (iv_found iv) (iv_exitCode iv))"

definition emitUsageEvent :: "'w state_files \<Rightarrow> invocation \<Rightarrow> 'w usage_world \<Rightarrow> 'w usage_world" where
  "emitUsageEvent fs iv u =
     (let info = usage_info iv; pr = iv_process iv; env = pr_env pr in
      if ti_Suppress info then u
      else let mode = resolveMode env (pr_configValue pr);
               (shown, w1) = maybeShowFirstRunNotice fs mode (pr_stderrTTY pr) (snd (detectCI env))
                               (ag_agentMode (pr_agent pr)) (FirstRunNoticePath (StateHome env (pr_home pr))) (us_files u);
               said1 = us_said u @ (if shown then [Notice] else [])
        in case mode of
             ModeLog \<Rightarrow>
               let (event, w2) = buildUsageEvent fs pr (iv_captures iv) (iv_api iv) info (iv_exitCode iv) w1
               in u\<lparr>us_files := w2, us_said := said1 @ [Event_line event]\<rparr>
           | ModeEnabled \<Rightarrow>
               let (event, w2) = buildUsageEvent fs pr (iv_captures iv) (iv_api iv) info (iv_exitCode iv) w1
               in u\<lparr>us_files := w2, us_said := said1, us_sent := us_sent u @ [(endpoint_of env, event)]\<rparr>
           | ModeDisabled \<Rightarrow> u\<lparr>us_files := w1, us_said := said1\<rparr>)"

section \<open>What an event can say\<close>

definition error_kinds :: "string list" where
  "error_kinds = [''usage_error'', ''auth_failure'', ''partial_failure'', ''version_incompatible'', ''error'']"

definition ci_names :: "string list" where
  "ci_names = [] # ''unknown'' # map fst ciProviders"

definition event_closed :: "usage_event \<Rightarrow> bool" where
  "event_closed e \<longleftrightarrow>
     ev_Service e = ''gcx'' \<and>
     (ev_Outcome e, ev_ErrorKind e) \<in>
       {(''help'', []), (''ok'', []), (''canceled'', [])} \<union> {''runtime_error''} \<times> set error_kinds \<and>
     ev_CIProvider e \<in> set ci_names \<and> (ev_IsCI e \<longleftrightarrow> ev_CIProvider e \<noteq> []) \<and>
     ev_Agent e \<in> set (''generic'' # agent_names) \<and>
     ev_TargetKind e \<in> {[], ''cloud'', ''self-hosted''} \<and>
     ev_OutputFormat e \<in> set ([] # knownOutputFormats) \<and>
     (ev_BatchSucceededBucket e, ev_BatchFailedBucket e, ev_BatchSkippedBucket e, ev_DryRun e) \<in>
       insert (None, None, None, None)
         (Some ` set Buckets \<times> Some ` set Buckets \<times> Some ` set Buckets \<times> Some ` UNIV) \<and>
     (ev_HTTPStatus e, ev_K8sReason e) \<in>
       (if ev_ExitCode e \<in> {ExitPartialFailure, ExitCancelled} then {(0, [])}
        else insert 0 {400..599} \<times> set ([] # ''other'' # k8sReasons)) \<and>
     ev_GrafanaAuthMethod e \<in> set ([] # GrafanaAuthMethodLabels) \<and>
     ev_SignupStage e \<in> (if ev_Command e = ''signup'' then set ([] # SignupStageLabels) else {[]}) \<and>
     (ev_APIMethod e, ev_APIRoute e, ev_APIDatasourceTypes e) \<in>
       insert ([], [], []) (set ([] # httpMethods) \<times> route_vocabulary \<times> types_vocabulary)"

lemma Bucket_known: "Bucket n \<in> set Buckets"
  by (simp add: Bucket_def Buckets_def)

lemma detectCI_known: "fst (detectCI env) \<in> set ci_names" "snd (detectCI env) \<longleftrightarrow> fst (detectCI env) \<noteq> []"
proof -
  have "[] \<notin> set (map fst ciProviders)" by code_simp
  then have "name \<noteq> []" if "(name, v) \<in> set ciProviders" for name v using that by force
  then show "fst (detectCI env) \<in> set ci_names" "snd (detectCI env) \<longleftrightarrow> fst (detectCI env) \<noteq> []"
    by (auto simp: detectCI_def ci_names_def dest!: find_SomeD split: option.split) force
qed

lemma KindFromExitCode_known: "KindFromExitCode code \<in> set error_kinds"
  by (simp add: KindFromExitCode_def error_kinds_def)

lemma outcome_known:
  "outcome_of info code \<in> {(''help'', []), (''ok'', []), (''canceled'', [])} \<union> {''runtime_error''} \<times> set error_kinds"
  by (simp add: outcome_of_def KindFromExitCode_known)

lemma failure_known:
  "failure_depth caps code \<in>
     (if code \<in> {ExitPartialFailure, ExitCancelled} then {(0, [])}
      else insert 0 {400..599} \<times> set ([] # ''other'' # k8sReasons))"
  by (simp add: failure_depth_def K8sReasonLabel_def)

lemma labels_known:
  "GrafanaAuthMethodLabel m \<in> set ([] # GrafanaAuthMethodLabels)" "SignupStageLabel s \<in> set ([] # SignupStageLabels)"
  by (simp_all add: GrafanaAuthMethodLabel_def GrafanaAuthMethodLabels_def SignupStageLabel_def SignupStageLabels_def)

lemma CapturedTargetKind_known: "CapturedTargetKind kind \<in> {[], ''cloud'', ''self-hosted''}"
  by (cases kind) (simp_all add: CapturedTargetKind_def)

lemma output_format_known:
  "ti_OutputFormat (recordTelemetryInfo cmd found) \<in> set ([] # knownOutputFormats)"
  "ti_OutputFormat (FallbackTelemetryInfo found code) = []"
proof -
  have "''json'' \<in> set knownOutputFormats" by (simp add: knownOutputFormats_def)
  then show "ti_OutputFormat (recordTelemetryInfo cmd found) \<in> set ([] # knownOutputFormats)"
    by (auto simp: recordTelemetryInfo_def resolvedOutputFormat_def Let_def split: option.split)
qed (simp add: FallbackTelemetryInfo_def suppressed_info_def split: option.split)

lemma event_of_build:
  assumes "\<And>r. req = Some r \<Longrightarrow> (ar_Method r, ar_Route r, ar_DatasourceTypes r) \<in>
             set ([] # httpMethods) \<times> route_vocabulary \<times> types_vocabulary"
    and "ti_OutputFormat info \<in> set ([] # knownOutputFormats)"
  shows "event_closed (fst (buildUsageEvent fs pr caps req info code w))"
proof -
  obtain dev w' where dev: "DeviceID fs (pr_uuid_parse pr) (pr_newRandom pr) (StateHome (pr_env pr) (pr_home pr)) w = (dev, w')"
    by (cases "DeviceID fs (pr_uuid_parse pr) (pr_newRandom pr) (StateHome (pr_env pr) (pr_home pr)) w")
  have api: "((case req of Some r \<Rightarrow> ar_Method r | None \<Rightarrow> []), (case req of Some r \<Rightarrow> ar_Route r | None \<Rightarrow> []),
       (case req of Some r \<Rightarrow> ar_DatasourceTypes r | None \<Rightarrow> []))
     \<in> insert ([], [], []) (set ([] # httpMethods) \<times> route_vocabulary \<times> types_vocabulary)"
    using assms(1) by (cases req) simp_all
  have batch: "(map_option (\<lambda>b. Bucket (bt_Succeeded b)) (cap_batch caps), map_option (\<lambda>b. Bucket (bt_Failed b)) (cap_batch caps),
       map_option (\<lambda>b. Bucket (bt_Skipped b)) (cap_batch caps), map_option bt_DryRun (cap_batch caps))
     \<in> insert (None, None, None, None)
         (Some ` set Buckets \<times> Some ` set Buckets \<times> Some ` set Buckets \<times> Some ` UNIV)"
    using Bucket_known by (cases "cap_batch caps") simp_all
  have agent: "agent_Name env \<in> set (''generic'' # agent_names)" for env using agent_Name_known by simp
  show ?thesis
    using api batch agent [of "pr_env pr"] CapturedTargetKind_known [of "pr_targetKind pr"] assms(2) outcome_known [of info code] failure_known [of caps code]
      detectCI_known [of "pr_env pr"] labels_known
    by (simp only: event_closed_def buildUsageEvent_def dev Let_def case_prod_beta fst_conv usage_event.simps prod.collapse)
       simp
qed

subsection \<open>The command and its flags\<close>

text \<open>What cobra documents of a command: its path is that of the root followed by the names of the commands below the
  root, and a name is a word. The names are those the program declares.\<close>

definition cobra_named :: "cobra_command \<Rightarrow> bool" where
  "cobra_named t \<longleftrightarrow>
     cc_CommandPath t = cc_RootPath t @ concat (map (\<lambda>n. CHR '' '' # n) (cc_names t)) \<and>
     list_all (\<lambda>n. n \<noteq> [] \<and> list_all printable n) (cc_names t)"

lemma space_chars_blank: "\<forall>p \<in> set space_chars. p \<noteq> [] \<and> \<not> printable (hd p)"
proof -
  have "list_all (\<lambda>p. p \<noteq> [] \<and> \<not> printable (hd p)) space_chars" by code_simp
  then show ?thesis by (simp add: list_all_iff)
qed

lemma space_chars_blank_first:
  "'' '' \<in> set space_chars" "p \<in> set space_chars \<Longrightarrow> hd p = CHR '' '' \<Longrightarrow> p = '' ''"
proof -
  have "list_ex (\<lambda>p. p = '' '') space_chars" by code_simp
  then show "'' '' \<in> set space_chars" by (simp add: list_ex_iff)
  have "list_all (\<lambda>p. hd p = CHR '' '' \<longrightarrow> p = '' '') space_chars" by code_simp
  then show "p \<in> set space_chars \<Longrightarrow> hd p = CHR '' '' \<Longrightarrow> p = '' ''" by (simp add: list_all_iff)
qed

lemma taken_head: "p \<noteq> [] \<Longrightarrow> take (length p) (c # s) = p \<Longrightarrow> hd p = c"
  by (cases p) simp_all

lemma spaced_names:
  "ns \<noteq> [] \<Longrightarrow> concat (map (\<lambda>n. CHR '' '' # n) ns) = CHR '' '' # go_join '' '' ns"
proof (induction ns)
  case (Cons n ns)
  then show ?case by (cases "ns = []") simp_all
qed simp

lemma joined_names_ends:
  "ns \<noteq> [] \<Longrightarrow> list_all (\<lambda>n. n \<noteq> [] \<and> list_all printable n) ns \<Longrightarrow>
   go_join '' '' ns \<noteq> [] \<and> printable (hd (go_join '' '' ns)) \<and> printable (last (go_join '' '' ns))"
proof (induction ns)
  case (Cons n ns)
  then have "n \<noteq> [] \<and> printable (hd n) \<and> printable (last n)" by (auto simp: list_all_iff)
  then show ?case using Cons by (cases "ns = []") auto
qed simp

lemma trim_first_space:
  assumes "s \<noteq> []" and "printable (hd s)"
  shows "trim_first space_chars (CHR '' '' # s) = s"
proof -
  have "find (\<lambda>p. p \<noteq> [] \<and> take (length p) (CHR '' '' # s) = p) space_chars = Some '' ''"
  proof (cases "find (\<lambda>p. p \<noteq> [] \<and> take (length p) (CHR '' '' # s) = p) space_chars")
    case None
    then show ?thesis using space_chars_blank_first(1) by (auto simp: find_None_iff)
  next
    case (Some p)
    then have "p \<in> set space_chars" and "p \<noteq> []" and "take (length p) (CHR '' '' # s) = p"
      by (auto simp: find_Some_iff)
    then show ?thesis using Some space_chars_blank_first(2) taken_head by metis
  qed
  moreover have "trim_first space_chars s = s"
    using assms space_chars_blank by (intro trim_first_plain) auto
  ultimately show ?thesis by (simp add: trim_first.simps [of space_chars "CHR '' '' # s"])
qed

lemma trimCommandRoot_names: "cobra_named t \<Longrightarrow> trimCommandRoot t = go_join '' '' (cc_names t)"
proof -
  assume t: "cobra_named t"
  show ?thesis
  proof (cases "cc_names t = []")
    case False
    let ?j = "go_join '' '' (cc_names t)"
    have j: "?j \<noteq> [] \<and> printable (hd ?j) \<and> printable (last ?j)"
      using t False joined_names_ends by (simp add: cobra_named_def)
    then have "trim_first space_chars ?j = ?j" using space_chars_blank by (intro trim_first_plain) auto
    then have "go_trim_space (CHR '' '' # ?j) = go_trim_space ?j"
      using trim_first_space j by (simp add: go_trim_space_def)
    then show ?thesis
      using t False j spaced_names go_trim_space_printable by (simp add: trimCommandRoot_def cobra_named_def Let_def)
  qed (use t in \<open>simp add: trimCommandRoot_def cobra_named_def Let_def\<close>)
qed

lemma until_space_word:
  "list_all printable n \<Longrightarrow> rest = [] \<or> hd rest = CHR '' '' \<Longrightarrow> until_space (n @ rest) = n"
proof (induction n)
  case Nil
  have "list_ex (\<lambda>p. take (length p) (CHR '' '' # r) = p) space_chars" for r
    using space_chars_blank_first(1) by (force simp: list_ex_iff)
  then show ?case using Nil by (cases rest) (simp_all add: until_space.simps)
next
  case (Cons c n)
  have "take (length p) (c # n @ rest) \<noteq> p" if "p \<in> set space_chars" for p
    using that space_chars_blank Cons.prems(1) taken_head [of p c "n @ rest"] by auto
  then have "\<not> list_ex (\<lambda>p. take (length p) (c # n @ rest) = p) space_chars" by (simp add: list_ex_iff)
  then show ?case using Cons by (simp add: until_space.simps [of "c # n @ rest"])
qed

lemma first_field_names:
  assumes "list_all (\<lambda>n. n \<noteq> [] \<and> list_all printable n) ns"
  shows "first_field (go_join '' '' ns) = (case ns of [] \<Rightarrow> [] | n # _ \<Rightarrow> n)"
proof (cases ns)
  case (Cons n ns')
  have "trim_first space_chars (go_join '' '' ns) = go_join '' '' ns"
    using joined_names_ends assms Cons space_chars_blank by (intro trim_first_plain) auto
  moreover have "go_join '' '' ns = n @ (if ns' = [] then [] else CHR '' '' # go_join '' '' ns')"
    by (simp add: Cons)
  ultimately show ?thesis using assms until_space_word [of n] by (simp add: first_field_def Cons)
qed (simp add: first_field_def until_space.simps)

text \<open>The command that is told: the one that ran, the one asked about by \<^verbatim>\<open>help\<close>, or the one found at exit.\<close>

definition told_names :: "cobra_command option \<Rightarrow> cobra_command option \<Rightarrow> string list set" where
  "told_names cmd found =
     (case cmd of
        Some c \<Rightarrow> {cc_names (if cc_Name c = ''help'' \<and> found \<noteq> None then the found else c)}
      | None \<Rightarrow> insert [] (cc_names ` set_option found))"

lemma reported_command:
  assumes "\<And>t. t \<in> set_option cmd \<union> set_option found \<Longrightarrow> cobra_named t"
  shows "\<exists>ns \<in> told_names cmd found.
      ti_Command (case cmd of Some c \<Rightarrow> recordTelemetryInfo c found | None \<Rightarrow> FallbackTelemetryInfo found code) = go_join '' '' ns \<and>
      list_all (\<lambda>n. n \<noteq> [] \<and> list_all printable n) ns"
proof -
  have named: "trimCommandRoot t = go_join '' '' (cc_names t) \<and> list_all (\<lambda>n. n \<noteq> [] \<and> list_all printable n) (cc_names t)"
    if "t \<in> set_option cmd \<union> set_option found" for t
    using assms [OF that] trimCommandRoot_names by (simp add: cobra_named_def)
  show ?thesis
  proof (cases cmd)
    case (Some c)
    then show ?thesis using named by (cases found) (simp_all add: told_names_def recordTelemetryInfo_def Let_def)
  next
    case None
    then show ?thesis using named
      by (cases found) (simp_all add: told_names_def FallbackTelemetryInfo_def suppressed_info_def)
  qed
qed

lemma reported_flags:
  "ti_Flags (case cmd of Some c \<Rightarrow> recordTelemetryInfo c found | None \<Rightarrow> FallbackTelemetryInfo found code) =
   (case cmd of None \<Rightarrow> [] | Some c \<Rightarrow> go_join '','' (sort (map cf_Name (filter cf_Changed (cc_Flags c)))))"
  by (simp add: recordTelemetryInfo_def FallbackTelemetryInfo_def suppressed_info_def changedFlagNames_def Let_def
      split: option.split)

lemma DeviceID_known:
  "fst (fst (DeviceID fs parse fresh home w)) \<in> {[]} \<union> set_option fresh \<union> {u. \<exists>s. parse s = Some u}"
  by (auto simp: DeviceID_def Let_def split: option.splits read_result.splits prod.splits if_splits)

lemma build_fields:
  fixes fs :: "'w state_files"
  defines "e \<equiv> \<lambda>pr caps req info code w. fst (buildUsageEvent fs pr caps req info code (w :: 'w))"
  shows "ev_Command (e pr caps req info code w) = ti_Command info"
    "ev_Provider (e pr caps req info code w) = first_field (ti_Command info)"
    "ev_Flags (e pr caps req info code w) = ti_Flags info"
    "ev_DeviceID (e pr caps req info code w) \<in> {[]} \<union> set_option (pr_newRandom pr) \<union> {u. \<exists>s. pr_uuid_parse pr s = Some u}"
    "(ev_Version (e pr caps req info code w), ev_OS (e pr caps req info code w), ev_Arch (e pr caps req info code w)) =
       (pr_version pr, pr_GOOS pr, pr_GOARCH pr)"
    "(ev_ExitCode (e pr caps req info code w), ev_DurationMS (e pr caps req info code w)) = (code, pr_elapsed pr)"
    "(ev_IsTTY (e pr caps req info code w), ev_IsAgent (e pr caps req info code w)) =
       (pr_stdoutTTY pr, ag_agentMode (pr_agent pr))"
  using DeviceID_known [of fs "pr_uuid_parse pr" "pr_newRandom pr" "StateHome (pr_env pr) (pr_home pr)" w]
  by (simp_all add: e_def buildUsageEvent_def Let_def case_prod_beta)

text \<open>
  C15. Where the commands are named as cobra names them, every field of an invocation's usage event is known. The
  command is one of the program's own, by the names it declares below the root (or none is told), the provider is the
  first of these names, the flags are the sorted names of those the user set (never their values), the device is told
  by an identifier made or parsed as a UUID, and version, platform, exit code, duration and terminal are the process's.
  All else is from fixed vocabularies: outcome with error kind, CI provider, agent, kind of target, output format, size
  buckets (all of them or none), a failing HTTP status or none with a known reason, neither for partial failures and
  cancellations, the authentication method, the stage of a signup, and the reduced API request.
\<close>

theorem usage_event_closed:
  fixes call :: "(string \<times> string \<times> string) option"
  assumes "\<And>t. t \<in> set_option cmd \<union> set_option found \<Longrightarrow> cobra_named t"
    and "e = fst (buildUsageEvent fs pr caps (map_option (\<lambda>(m, p, b). RecordAPIRequest cs dec m p b) call)
           (case cmd of Some c \<Rightarrow> recordTelemetryInfo c found | None \<Rightarrow> FallbackTelemetryInfo found code) code w)"
  shows "event_closed e \<and>
    (\<exists>ns \<in> told_names cmd found.
       ev_Command e = go_join '' '' ns \<and> ev_Provider e = (case ns of [] \<Rightarrow> [] | n # _ \<Rightarrow> n)) \<and>
    ev_Flags e = (case cmd of None \<Rightarrow> [] | Some c \<Rightarrow> go_join '','' (sort (map cf_Name (filter cf_Changed (cc_Flags c))))) \<and>
    ev_DeviceID e \<in> {[]} \<union> set_option (pr_newRandom pr) \<union> {u. \<exists>s. pr_uuid_parse pr s = Some u} \<and>
    (ev_Version e, ev_OS e, ev_Arch e) = (pr_version pr, pr_GOOS pr, pr_GOARCH pr) \<and>
    (ev_ExitCode e, ev_DurationMS e) = (code, pr_elapsed pr) \<and>
    (ev_IsTTY e, ev_IsAgent e) = (pr_stdoutTTY pr, ag_agentMode (pr_agent pr))"
proof -
  let ?req = "map_option (\<lambda>(m, p, b). RecordAPIRequest cs dec m p b) call"
  let ?info = "case cmd of Some c \<Rightarrow> recordTelemetryInfo c found | None \<Rightarrow> FallbackTelemetryInfo found code"
  have "(ar_Method r, ar_Route r, ar_DatasourceTypes r) \<in> set ([] # httpMethods) \<times> route_vocabulary \<times> types_vocabulary"
    if some: "?req = Some r" for r
  proof -
    obtain m p b where call: "call = Some (m, p, b)" using some by (cases call) auto
    then have r: "r = RecordAPIRequest cs dec m p b" using some by simp
    show ?thesis unfolding r
      using recorded_method [of cs dec m p b] recorded_route [of cs dec m p b] recorded_types [of cs dec m p b]
      by (auto simp: types_vocabulary_def split: if_splits)
  qed
  moreover have "ti_OutputFormat ?info \<in> set ([] # knownOutputFormats)" using output_format_known by (cases cmd) auto
  ultimately have closed: "event_closed e" unfolding assms(2) by (rule event_of_build)
  note fields = build_fields [of fs pr caps ?req ?info code w, folded assms(2)]
  obtain ns where "ns \<in> told_names cmd found" and "ti_Command ?info = go_join '' '' ns"
    and "list_all (\<lambda>n. n \<noteq> [] \<and> list_all printable n) ns"
    using reported_command [OF assms(1)] by blast
  then have "\<exists>ns \<in> told_names cmd found. ev_Command e = go_join '' '' ns \<and> ev_Provider e = (case ns of [] \<Rightarrow> [] | n # _ \<Rightarrow> n)"
    using fields(1,2) first_field_names by metis
  then show ?thesis using closed fields(4-7) unfolding fields(3) reported_flags by blast
qed

definition sample_process :: "(string \<times> string) list \<Rightarrow> process" where
  "sample_process vars =
     \<lparr>pr_env = map_of vars, pr_home = Some ''/home/u'', pr_version = ''1'', pr_GOOS = ''linux'', pr_GOARCH = ''amd64'',
      pr_stdoutTTY = True, pr_stderrTTY = True, pr_elapsed = 7, pr_agent = \<lparr>ag_agentMode = False, ag_detectedFromEnv = False\<rparr>,
      pr_targetKind = TargetKindUnknown, pr_configValue = [], pr_uuid_parse = Some, pr_newRandom = Some ''id''\<rparr>"

definition sample_captures :: captures where
  "sample_captures =
     \<lparr>cap_batch = None, cap_httpStatus = 0, cap_k8sReason = None, cap_auth = None, cap_loginStage = None\<rparr>"

definition sample_command :: cobra_command where
  "sample_command =
     \<lparr>cc_names = [''resources'', ''get''], cc_Name = ''get'', cc_CommandPath = ''gcx resources get'', cc_RootPath = ''gcx'',
      cc_Flags = [\<lparr>cf_Name = ''path'', cf_Changed = True, cf_Value = ''/home/u/secret''\<rparr>,
                  \<lparr>cf_Name = ''json'', cf_Changed = False, cf_Value = []\<rparr>,
                  \<lparr>cf_Name = ''output'', cf_Changed = True, cf_Value = ''json''\<rparr>],
      cc_Runnable = True\<rparr>"

definition no_files :: "unit state_files" where
  "no_files = \<lparr>sf_read = \<lambda>w p. Not_exist, sf_mkdir = \<lambda>w d. (False, w), sf_write = \<lambda>w p c. (False, w)\<rparr>"

theorem usage_event_closed_witness:
  "let e = fst (buildUsageEvent no_files (sample_process []) sample_captures None (recordTelemetryInfo sample_command None) 0 ())
   in event_closed e \<and> ev_Flags e = ''output,path'' \<and> ev_Command e = ''resources get'' \<and> ev_Provider e = ''resources''"
proof -
  let ?e = "fst (buildUsageEvent no_files (sample_process []) sample_captures None (recordTelemetryInfo sample_command None) 0 ())"
  have flags: "go_join '','' (sort (map cf_Name (filter cf_Changed (cc_Flags sample_command)))) = ''output,path''" by code_simp
  have names: "told_names (Some sample_command) None = {[''resources'', ''get'']}"
    by (simp add: told_names_def sample_command_def)
  have named: "cobra_named sample_command" by code_simp
  have "cobra_named t" if "t \<in> set_option (Some sample_command) \<union> set_option None" for t using that named by simp
  from usage_event_closed [of "Some sample_command" None ?e no_files "sample_process []" sample_captures undefined undefined
      None 0 "()", OF this]
  show ?thesis by (simp add: flags names Let_def)
qed

section \<open>Opting out, and the notice\<close>

text \<open>The two paths in the state directory differ: a clean path ends in the name that was joined last.\<close>

lemma go_split_join_last: "c \<notin> set n \<Longrightarrow> go_split c (d @ c # n) = go_split c d @ [n]"
proof (induction d)
  case (Cons x d)
  obtain y ys where "go_split c d = y # ys" by (cases "go_split c d") auto
  then show ?case using Cons by auto
qed (simp add: go_split_free)

lemma go_join_snoc: "go_join [c] (ps @ [n]) = (if ps = [] then n else go_join [c] ps @ c # n)"
  by (induction ps) auto

definition plain_name :: "string \<Rightarrow> bool" where
  "plain_name n \<longleftrightarrow> n \<noteq> [] \<and> n \<noteq> ''.'' \<and> n \<noteq> ''..'' \<and> CHR ''/'' \<notin> set n"

lemma joined_names_differ:
  assumes "d \<noteq> []" and "plain_name n" and "plain_name m" and "n \<noteq> m"
  shows "go_path_join d n \<noteq> go_path_join d m"
proof -
  define rooted where "rooted \<longleftrightarrow> hd d = CHR ''/''"
  define ps where "ps = fold (clean_part rooted) (go_split (CHR ''/'') d) []"
  have clean: "go_path_join d k = (if rooted then CHR ''/'' # go_join ''/'' (ps @ [k]) else go_join ''/'' (ps @ [k]))"
    if "plain_name k" for k
  proof -
    have "fold (clean_part rooted) (go_split (CHR ''/'') (d @ ''/'' @ k)) [] = ps @ [k]"
      using that go_split_join_last [of "CHR ''/''" k d] by (simp add: ps_def plain_name_def)
    moreover have "go_join ''/'' (ps @ [k]) \<noteq> []" using that by (simp add: go_join_snoc plain_name_def)
    moreover have "go_clean path = (let joined = go_join ''/'' (fold (clean_part rooted) (go_split (CHR ''/'') path) [])
        in if rooted then CHR ''/'' # joined else if joined = [] then ''.'' else joined)"
      if "hd path = hd d" "path \<noteq> []" for path
      using that by (simp add: go_clean_def rooted_def Let_def)
    moreover have "go_path_join d k = go_clean (d @ ''/'' @ k)" "hd (d @ ''/'' @ k) = hd d" "d @ ''/'' @ k \<noteq> []"
      using assms(1) that by (simp_all add: go_path_join_def plain_name_def)
    ultimately show ?thesis by (cases rooted) simp_all
  qed
  show ?thesis using clean [OF assms(2)] clean [OF assms(3)] assms(4) by (auto simp: go_join_snoc)
qed

lemma go_path_join_nonempty: "a \<noteq> [] \<Longrightarrow> go_path_join a b \<noteq> []"
  by (simp add: go_path_join_def go_clean_def Let_def)

lemma state_paths_differ: "home \<noteq> [] \<Longrightarrow> DeviceIDPath home \<noteq> FirstRunNoticePath home"
  unfolding DeviceIDPath_def FirstRunNoticePath_def state_path_def
  using joined_names_differ [of "go_path_join home ''gcx''" "''device-id''" "''telemetry-notice-shown''"]
    go_path_join_nonempty [of home "''gcx''"]
  by (simp add: plain_name_def)

text \<open>What the code relies on of a file system: a write that succeeded is read back, or cannot be read, and neither a
  write nor the making of a directory changes what other files give.\<close>

definition honest_files :: "'w state_files \<Rightarrow> bool" where
  "honest_files fs \<longleftrightarrow>
     (\<forall>w p c w'. sf_write fs w p c = (True, w') \<longrightarrow> sf_read fs w' p \<in> {Read_ok c, Read_failed}) \<and>
     (\<forall>w p c ok w' q. sf_write fs w p c = (ok, w') \<longrightarrow> q \<noteq> p \<longrightarrow> sf_read fs w' q = sf_read fs w q) \<and>
     (\<forall>w d ok w' q. sf_mkdir fs w d = (ok, w') \<longrightarrow> sf_read fs w' q = sf_read fs w q)"

definition noticed :: "'w state_files \<Rightarrow> string \<Rightarrow> 'w \<Rightarrow> bool" where
  "noticed fs path w \<longleftrightarrow>
     (case sf_read fs w path of
        Read_ok contents \<Rightarrow> go_trim_space contents = noticeRevision
      | Not_exist \<Rightarrow> False
      | Read_failed \<Rightarrow> True)"

lemma revision_read_back: "go_trim_space (noticeRevision @ [newline]) = noticeRevision"
  by code_simp

lemma notice_shown:
  assumes "honest_files fs" and "maybeShowFirstRunNotice fs mode tty ci agent path w = (shown, w')"
  shows "shown \<Longrightarrow> \<not> noticed fs path w \<and> noticed fs path w'" and "noticed fs path w \<Longrightarrow> w' = w"
proof -
  have "\<not> noticed fs path w \<and> noticed fs path w'" if out: shown
  proof -
    obtain w1 where "\<not> noticed fs path w" and mk: "sf_mkdir fs w (go_dir path) = (True, w1)"
      and wr: "sf_write fs w1 path (noticeRevision @ [newline]) = (True, w')"
      using assms(2) out
      by (auto simp: maybeShowFirstRunNotice_def noticed_def Let_def split: if_splits prod.splits)
    moreover have "sf_read fs w' path \<in> {Read_ok (noticeRevision @ [newline]), Read_failed}"
      using assms(1) wr by (simp add: honest_files_def)
    ultimately show ?thesis using revision_read_back by (auto simp: noticed_def)
  qed
  then show "shown \<Longrightarrow> \<not> noticed fs path w \<and> noticed fs path w'" .
  show "noticed fs path w \<Longrightarrow> w' = w"
    using assms(2) by (auto simp: maybeShowFirstRunNotice_def noticed_def split: if_splits)
qed

lemma DeviceID_reads:
  assumes "honest_files fs" and "DeviceID fs parse fresh home w = (r, w')" and "q \<noteq> DeviceIDPath home"
  shows "sf_read fs w' q = sf_read fs w q"
proof -
  have mk: "sf_mkdir fs w d = (b, w1) \<Longrightarrow> sf_read fs w1 q = sf_read fs w q" for w d b w1
    using assms(1) by (simp add: honest_files_def)
  have wr: "sf_write fs w (DeviceIDPath home) c = (b, w1) \<Longrightarrow> sf_read fs w1 q = sf_read fs w q" for w c b w1
    using assms(1,3) by (simp add: honest_files_def)
  show ?thesis using assms(2)
    by (auto simp: DeviceID_def Let_def split: option.splits if_splits prod.splits dest!: mk wr)
qed

lemma DeviceID_notice:
  "honest_files fs \<Longrightarrow> DeviceID fs parse fresh home w = (r, w') \<Longrightarrow> home \<noteq> [] \<Longrightarrow>
   noticed fs (FirstRunNoticePath home) w' = noticed fs (FirstRunNoticePath home) w"
  using DeviceID_reads state_paths_differ by (metis noticed_def)

definition wants_event :: "environment \<Rightarrow> string \<Rightarrow> bool" where
  "wants_event env configValue \<longleftrightarrow>
     go_lower (Getenv env ''GCX_TELEMETRY'') = ''enabled'' \<or>
     (Getenv env ''GCX_TELEMETRY'' = [] \<and> \<not> isDoNotTrack (Getenv env ''DO_NOT_TRACK'') \<and>
      (configValue = [] \<or> go_lower configValue = ''enabled''))"

lemma resolveMode_enabled: "resolveMode env configValue = ModeEnabled \<longleftrightarrow> wants_event env configValue"
  by (auto simp: resolveMode_def parseMode_def wants_event_def)

definition sends :: "invocation \<Rightarrow> bool" where
  "sends iv \<longleftrightarrow> \<not> ti_Suppress (usage_info iv) \<and> wants_event (pr_env (iv_process iv)) (pr_configValue (iv_process iv))"

definition invocation_home :: "invocation \<Rightarrow> string" where
  "invocation_home iv = StateHome (pr_env (iv_process iv)) (pr_home (iv_process iv))"

lemma build_files:
  "snd (buildUsageEvent fs pr caps req info code w) =
   snd (DeviceID fs (pr_uuid_parse pr) (pr_newRandom pr) (StateHome (pr_env pr) (pr_home pr)) w)"
  by (simp add: buildUsageEvent_def Let_def case_prod_beta)

lemma emit_cases:
  obtains "ti_Suppress (usage_info iv)" "emitUsageEvent fs iv u = u"
  | shown w1 w2 lines posts where "\<not> ti_Suppress (usage_info iv)"
    "maybeShowFirstRunNotice fs (resolveMode (pr_env (iv_process iv)) (pr_configValue (iv_process iv)))
       (pr_stderrTTY (iv_process iv)) (snd (detectCI (pr_env (iv_process iv)))) (ag_agentMode (pr_agent (iv_process iv)))
       (FirstRunNoticePath (invocation_home iv)) (us_files u) = (shown, w1)"
    "w2 = w1 \<or> (\<exists>r. DeviceID fs (pr_uuid_parse (iv_process iv)) (pr_newRandom (iv_process iv)) (invocation_home iv) w1 = (r, w2))"
    "Notice \<notin> set lines" "length posts = (if sends iv then 1 else 0)" "set (map fst posts) \<subseteq> {endpoint_of (pr_env (iv_process iv))}"
    "emitUsageEvent fs iv u =
       u\<lparr>us_files := w2, us_said := us_said u @ (if shown then [Notice] else []) @ lines, us_sent := us_sent u @ posts\<rparr>"
proof (cases "ti_Suppress (usage_info iv)")
  case True
  then show ?thesis using that(1) by (simp add: emitUsageEvent_def)
next
  case False
  let ?pr = "iv_process iv"
  obtain shown w1 where notice: "maybeShowFirstRunNotice fs (resolveMode (pr_env ?pr) (pr_configValue ?pr)) (pr_stderrTTY ?pr)
      (snd (detectCI (pr_env ?pr))) (ag_agentMode (pr_agent ?pr)) (FirstRunNoticePath (invocation_home iv)) (us_files u) = (shown, w1)"
    by (meson surj_pair)
  obtain event w2 where event: "buildUsageEvent fs ?pr (iv_captures iv) (iv_api iv) (usage_info iv) (iv_exitCode iv) w1 = (event, w2)"
    by (meson surj_pair)
  have files: "\<exists>r. DeviceID fs (pr_uuid_parse ?pr) (pr_newRandom ?pr) (invocation_home iv) w1 = (r, w2)"
    using build_files [of fs ?pr "iv_captures iv" "iv_api iv" "usage_info iv" "iv_exitCode iv" w1] event
    by (simp add: invocation_home_def) (metis prod.collapse)
  note emit = emitUsageEvent_def Let_def event
  show ?thesis
  proof (cases "resolveMode (pr_env ?pr) (pr_configValue ?pr)")
    case ModeEnabled
    then have "sends iv" using False by (simp add: sends_def resolveMode_enabled)
    then show ?thesis using False ModeEnabled notice files
      by (intro that(2) [of shown w1 w2 "[]" "[(endpoint_of (pr_env ?pr), event)]"]) (simp_all add: emit notice [unfolded invocation_home_def ModeEnabled])
  next
    case ModeDisabled
    then have "\<not> sends iv" using resolveMode_enabled by (metis sends_def usage_mode.distinct(1))
    then show ?thesis using False ModeDisabled notice
      by (intro that(2) [of shown w1 w1 "[]" "[]"]) (simp_all add: emit notice [unfolded invocation_home_def ModeDisabled])
  next
    case ModeLog
    then have "\<not> sends iv" using resolveMode_enabled by (metis sends_def usage_mode.distinct(3))
    then show ?thesis using False ModeLog notice files
      by (intro that(2) [of shown w1 w2 "[Event_line event]" "[]"]) (simp_all add: emit notice [unfolded invocation_home_def ModeLog])
  qed
qed

text \<open>Whether the notice was shown or need not be shown any more.\<close>

definition notice_budget :: "'w state_files \<Rightarrow> string \<Rightarrow> 'w usage_world \<Rightarrow> nat" where
  "notice_budget fs home u =
     count_list (us_said u) Notice + (if home = [] \<or> noticed fs (FirstRunNoticePath home) (us_files u) then 0 else 1)"

lemma emit_budget:
  assumes honest: "honest_files fs" and home: "invocation_home iv = home"
  shows "notice_budget fs home (emitUsageEvent fs iv u) \<le> notice_budget fs home u"
proof (cases rule: emit_cases [of iv fs u])
  case (2 shown w1 w2 lines posts)
  let ?p = "FirstRunNoticePath home"
  have none: "count_list lines Notice = 0" using 2 by (simp add: count_list_0_iff)
  have keep: "noticed fs ?p w2 = noticed fs ?p w1" if "home \<noteq> []"
    using 2 DeviceID_notice [OF honest] that home by metis
  have empty: "\<not> shown" if "home = []"
    using 2(2) that by (auto simp: home maybeShowFirstRunNotice_def FirstRunNoticePath_def state_path_def split: if_splits)
  have turn: "shown \<Longrightarrow> \<not> noticed fs ?p (us_files u) \<and> noticed fs ?p w1" "noticed fs ?p (us_files u) \<Longrightarrow> w1 = us_files u"
    using notice_shown [OF honest 2(2)] home by simp_all
  show ?thesis using none keep empty turn by (cases shown) (auto simp: notice_budget_def 2)
qed simp

lemma emit_sent:
  "map fst (us_sent (emitUsageEvent fs iv u)) =
   map fst (us_sent u) @ (if sends iv then [endpoint_of (pr_env (iv_process iv))] else [])"
proof (cases rule: emit_cases [of iv fs u])
  case 1
  then show ?thesis by (simp add: sends_def)
next
  case (2 shown w1 w2 lines posts)
  then show ?thesis by (cases posts) (auto split: if_splits)
qed

text \<open>
  C38. Over any sequence of invocations of one user, on a file system that gives back what was written, the notice is
  shown once at most, and exactly those invocations post an event that are not suppressed and were not opted out of:
  the variable of gcx says enabled, or it is empty, do-not-track is off and the configuration is empty or says enabled.
  Each posts one event, to its endpoint.
\<close>

theorem usage_consent:
  assumes "honest_files fs" and "list_all (\<lambda>iv. invocation_home iv = home) invs"
  shows "count_list (us_said (fold (emitUsageEvent fs) invs u)) Notice \<le> count_list (us_said u) Notice + 1 \<and>
    map fst (us_sent (fold (emitUsageEvent fs) invs u)) =
      map fst (us_sent u) @ map (\<lambda>iv. endpoint_of (pr_env (iv_process iv))) (filter sends invs)"
proof
  have "notice_budget fs home (fold (emitUsageEvent fs) invs u) \<le> notice_budget fs home u"
    using assms(2)
  proof (induction invs arbitrary: u)
    case (Cons iv invs)
    then show ?case using emit_budget [OF assms(1), of iv home u] by (fastforce intro: le_trans)
  qed simp
  also have "\<dots> \<le> count_list (us_said u) Notice + 1" by (simp add: notice_budget_def)
  finally show "count_list (us_said (fold (emitUsageEvent fs) invs u)) Notice \<le> count_list (us_said u) Notice + 1"
    by (simp add: notice_budget_def)
  show "map fst (us_sent (fold (emitUsageEvent fs) invs u)) =
      map fst (us_sent u) @ map (\<lambda>iv. endpoint_of (pr_env (iv_process iv))) (filter sends invs)"
    by (induction invs arbitrary: u) (simp_all add: emit_sent)
qed

text \<open>A file system in memory, and two invocations of one interactive user: the second one opts out by a misspelt
  setting.\<close>

definition memory_files :: "(string \<Rightarrow> string option) state_files" where
  "memory_files =
     \<lparr>sf_read = (\<lambda>w p. case w p of Some c \<Rightarrow> Read_ok c | None \<Rightarrow> Not_exist),
      sf_mkdir = (\<lambda>w d. (True, w)), sf_write = (\<lambda>w p c. (True, w(p := Some c)))\<rparr>"

definition sample_invocation :: "(string \<times> string) list \<Rightarrow> invocation" where
  "sample_invocation vars =
     \<lparr>iv_process = sample_process vars, iv_captures = sample_captures,
      iv_api = None,
      iv_recorded = Some \<lparr>ti_Command = ''resources get'', ti_Flags = ''output'', ti_OutputFormat = ''json'', ti_Help = False,
                          ti_Suppress = False\<rparr>,
      iv_found = None, iv_exitCode = 0\<rparr>"

lemma memory_files_honest: "honest_files memory_files"
  by (auto simp: honest_files_def memory_files_def)

lemma sample_fields:
  "pr_env (iv_process (sample_invocation vars)) = map_of vars" "pr_home (iv_process (sample_invocation vars)) = Some ''/home/u''"
  "pr_configValue (iv_process (sample_invocation vars)) = []" "ti_Suppress (usage_info (sample_invocation vars)) = False"
  by (simp_all add: sample_invocation_def sample_process_def usage_info_def)

lemma sample_homes: "invocation_home (sample_invocation []) = ''/home/u/.local/state''"
  "invocation_home (sample_invocation [(''GCX_TELEMETRY'', ''of'')]) = ''/home/u/.local/state''"
proof -
  have "go_path_join (go_path_join ''/home/u'' ''.local'') ''state'' = ''/home/u/.local/state''" by code_simp
  then show "invocation_home (sample_invocation []) = ''/home/u/.local/state''"
    "invocation_home (sample_invocation [(''GCX_TELEMETRY'', ''of'')]) = ''/home/u/.local/state''"
    by (simp_all add: invocation_home_def sample_fields StateHome_def Getenv_def)
qed

lemma sample_sends: "sends (sample_invocation [])" "\<not> sends (sample_invocation [(''GCX_TELEMETRY'', ''of'')])"
proof -
  have "go_lower ''of'' = ''of''" by code_simp
  then show "\<not> sends (sample_invocation [(''GCX_TELEMETRY'', ''of'')])"
    by (simp add: sends_def sample_fields wants_event_def Getenv_def)
  show "sends (sample_invocation [])"
    by (simp add: sends_def sample_fields wants_event_def Getenv_def isDoNotTrack_def)
qed

theorem usage_consent_witness:
  "count_list (us_said (fold (emitUsageEvent memory_files)
     [sample_invocation [], sample_invocation [(''GCX_TELEMETRY'', ''of'')], sample_invocation []]
     \<lparr>us_files = (\<lambda>p. None), us_said = [], us_sent = []\<rparr>)) Notice \<le> 1 \<and>
   map fst (us_sent (fold (emitUsageEvent memory_files)
     [sample_invocation [], sample_invocation [(''GCX_TELEMETRY'', ''of'')], sample_invocation []]
     \<lparr>us_files = (\<lambda>p. None), us_said = [], us_sent = []\<rparr>)) =
     [''https://stats.grafana.org/gcx-usage-report'', ''https://stats.grafana.org/gcx-usage-report'']"
proof -
  let ?invs = "[sample_invocation [], sample_invocation [(''GCX_TELEMETRY'', ''of'')], sample_invocation []]"
  have "list_all (\<lambda>iv. invocation_home iv = ''/home/u/.local/state'') ?invs" by (simp add: sample_homes)
  moreover have "endpoint_of (pr_env (iv_process (sample_invocation []))) = ''https://stats.grafana.org/gcx-usage-report''"
    by (simp add: endpoint_of_def sample_fields Getenv_def)
  ultimately show ?thesis
    using usage_consent [OF memory_files_honest, of "''/home/u/.local/state''" ?invs "\<lparr>us_files = (\<lambda>p. None), us_said = [], us_sent = []\<rparr>"]
      sample_sends
    by simp
qed

section \<open>The device identifier\<close>

text \<open>An identifier that was persisted and can be read is the one of every later invocation.\<close>

lemma DeviceID_stable:
  assumes "honest_files fs" and "DeviceID fs parse fresh home w = ((ident, True), w')"
    and "sf_read fs w' (DeviceIDPath home) \<noteq> Read_failed"
    and "\<And>i. fresh = Some i \<Longrightarrow> parse i = Some i \<and> go_trim_space (i @ [newline]) = i"
  shows "DeviceID fs parse fresh' home w' = ((ident, True), w')"
proof (cases "case sf_read fs w (DeviceIDPath home) of Read_ok contents \<Rightarrow> parse (go_trim_space contents) | _ \<Rightarrow> None")
  case None
  then obtain w1 where i: "fresh = Some ident" and wr: "sf_write fs w1 (DeviceIDPath home) (ident @ [newline]) = (True, w')"
    using assms(2) by (auto simp: DeviceID_def Let_def split: option.splits if_splits prod.splits)
  have "sf_read fs w' (DeviceIDPath home) = Read_ok (ident @ [newline])"
    using assms(1,3) wr by (auto simp: honest_files_def)
  then show ?thesis using assms(4) [OF i] by (simp add: DeviceID_def)
next
  case (Some parsed)
  then show ?thesis using assms(2) by (auto simp: DeviceID_def Let_def)
qed

end
