(* ===== verification/Gcx_Watcher.thy ===== *)
theory Gcx_Watcher
  imports Gcx_Slugs
begin

text \<open>
  Manifests of Watchers (\<^verbatim>\<open>assistant/watcher/watcher.go\<close>), the answers and requests of their API
  (\<^verbatim>\<open>assistant/watchers\<close>: \<^verbatim>\<open>types.go\<close>, \<^verbatim>\<open>write_types.go\<close>, \<^verbatim>\<open>evidence.go\<close>), and the conversions and the
  normal form of \<^verbatim>\<open>adapter.go\<close> and \<^verbatim>\<open>reconcile.go\<close>. The lemmas show that what a manifest asks for is what a
  server that stores it gives back.
\<close>

section \<open>Manifests\<close>

record auto_stop =
  st_Enabled :: bool
  st_At :: string
  st_Archive :: bool

record slack_notification =
  sl_Enabled :: bool
  sl_TargetType :: string
  sl_ChannelID :: string
  sl_UserID :: string
  sl_TeamID :: string
  sl_Severity :: string

record channel_notification =
  ch_Enabled :: bool
  ch_ChannelID :: string
  ch_Severity :: string

record alerting_notification =
  an_Enabled :: bool
  an_Severity :: string
  an_RoutingTree :: string

record secret_input =
  si_FromEnv :: string
  si_FromFile :: string
  si_Preserve :: bool
  si_Clear :: bool

record webhook_notification =
  wn_Enabled :: bool
  wn_Severity :: string
  wn_URL :: "secret_input option"
  wn_BearerToken :: "secret_input option"
  wn_SigningSecret :: "secret_input option"

record investigation =
  iv_Enabled :: bool
  iv_TeamAccess :: "string list"

record mutation_outcome =
  mo_Changed :: bool
  mo_Configuration :: string
  mo_Enrollment :: string
  mo_Readback :: string

text \<open>A map of labels is an association list whose keys are distinct.\<close>

record watcher =
  wt_Title :: string
  wt_Description :: string
  wt_Prompt :: string
  wt_DatasourceUIDs :: "string list"
  wt_Interval :: string
  wt_Sensitivity :: string
  wt_SkipReviewOnCleanRuns :: bool
  wt_AutoStop :: auto_stop
  wt_Labels :: "(string \<times> string) list"
  wt_AutomaticRecalibration :: bool
  wt_Slack :: slack_notification
  wt_Teams :: channel_notification
  wt_Alerting :: alerting_notification
  wt_Webhook :: webhook_notification
  wt_Investigation :: investigation
  wt_mutation :: mutation_outcome
  wt_serverID :: string

text \<open>The duration parser of Prometheus (in nanoseconds), the printing of a number of seconds as a duration and the
  functions of the time package are parameters.\<close>

record 't time_lib =
  tl_parse_duration :: "string \<Rightarrow> int option"
  tl_seconds_string :: "int \<Rightarrow> string"
  tl_parse :: "string \<Rightarrow> 't option"
  tl_zero :: 't
  tl_utc :: "'t \<Rightarrow> 't"
  tl_format :: "'t \<Rightarrow> string"

definition go_second :: int where
  "go_second = 1000000000"

definition ParseDuration :: "'t time_lib \<Rightarrow> string \<Rightarrow> int option" where
  "ParseDuration lib s = (if s = [] then Some 0 else tl_parse_duration lib s)"

text \<open>Division of Go rounds towards zero; durations are divided by a second.\<close>

definition interval_seconds :: "'t time_lib \<Rightarrow> string \<Rightarrow> int" where
  "interval_seconds lib s =
     (let d = (case ParseDuration lib s of Some d \<Rightarrow> d | None \<Rightarrow> 0) in
      if d < 0 then - ((- d) div go_second) else d div go_second)"

section \<open>Validation\<close>

datatype watcher_invalid =
  Blank_field string | Bad_interval | Interval_range | Bad_auto_stop | Missing_auto_stop | Archive_without_stop
| Missing_target string | Bad_secret string | Missing_webhook_url

definition blank_text :: "string \<Rightarrow> bool" where
  "blank_text s \<longleftrightarrow> go_trim_space s = []"

definition secret_valid :: "secret_input \<Rightarrow> bool" where
  "secret_valid s \<longleftrightarrow>
     (let count = (if \<not> blank_text (si_FromEnv s) then 1 else 0) + (if \<not> blank_text (si_FromFile s) then 1 else 0) +
                  (if si_Preserve s then 1 else 0) + (if si_Clear s then 1 else (0 :: nat))
      in \<not> (count \<noteq> 1 \<or> (si_FromEnv s \<noteq> [] \<and> blank_text (si_FromEnv s)) \<or>
            (si_FromFile s \<noteq> [] \<and> blank_text (si_FromFile s))))"

definition ValidateIntervalSeconds :: "int \<Rightarrow> bool" where
  "ValidateIntervalSeconds seconds \<longleftrightarrow> \<not> (seconds < 300 \<or> seconds > 10800)"

definition validateSlackTarget :: "slack_notification \<Rightarrow> watcher_invalid option" where
  "validateSlackTarget slack =
     (if blank_text (sl_TargetType slack) then Some (Blank_field ''slack.targetType'')
      else if sl_TargetType slack = ''channel'' then
        (if (sl_Enabled slack \<or> sl_ChannelID slack \<noteq> []) \<and> blank_text (sl_ChannelID slack)
         then Some (Missing_target ''slack.channelId'') else None)
      else if sl_TargetType slack = ''dm'' then
        (if blank_text (sl_UserID slack) then Some (Missing_target ''slack.userId'') else None)
      else None)"

text \<open>The checks in their order: the first that fails gives the error.\<close>

definition watcher_checks :: "'t time_lib \<Rightarrow> watcher \<Rightarrow> (bool \<times> watcher_invalid) list" where
  "watcher_checks lib w =
     (let stop = wt_AutoStop w; hook = wt_Webhook w;
          secret = (\<lambda>s. case s of Some v \<Rightarrow> \<not> secret_valid v | None \<Rightarrow> False)
      in [(blank_text (wt_Title w), Blank_field ''title''),
          (blank_text (wt_Prompt w), Blank_field ''prompt''),
          (case ParseDuration lib (wt_Interval w) of None \<Rightarrow> True | Some d \<Rightarrow> d \<le> 0 \<or> d mod go_second \<noteq> 0, Bad_interval),
          (\<not> ValidateIntervalSeconds (interval_seconds lib (wt_Interval w)), Interval_range),
          (blank_text (wt_Sensitivity w), Blank_field ''sensitivity''),
          (st_At stop \<noteq> [] \<and> tl_parse lib (st_At stop) = None, Bad_auto_stop),
          (st_Enabled stop \<and> st_At stop = [], Missing_auto_stop),
          (st_Archive stop \<and> \<not> st_Enabled stop, Archive_without_stop),
          (validateSlackTarget (wt_Slack w) \<noteq> None,
           case validateSlackTarget (wt_Slack w) of Some e \<Rightarrow> e | None \<Rightarrow> Bad_interval),
          (ch_Enabled (wt_Teams w) \<and> blank_text (ch_ChannelID (wt_Teams w)), Missing_target ''teams.channelId''),
          (blank_text (sl_Severity (wt_Slack w)), Blank_field ''slack.severity''),
          (blank_text (ch_Severity (wt_Teams w)), Blank_field ''teams.severity''),
          (blank_text (an_Severity (wt_Alerting w)), Blank_field ''alerting.severity''),
          (blank_text (wn_Severity hook), Blank_field ''webhook.severity''),
          (secret (wn_URL hook), Bad_secret ''url''),
          (secret (wn_BearerToken hook), Bad_secret ''bearerToken''),
          (secret (wn_SigningSecret hook), Bad_secret ''signingSecret''),
          (wn_Enabled hook \<and> (case wn_URL hook of None \<Rightarrow> True | Some u \<Rightarrow> si_Clear u), Missing_webhook_url)])"

definition Validate :: "'t time_lib \<Rightarrow> watcher \<Rightarrow> watcher_invalid option" where
  "Validate lib w = map_option snd (find fst (watcher_checks lib w))"

section \<open>Answers and requests\<close>

record chat_target =
  tg_ChannelID :: string
  tg_Type :: string
  tg_UserID :: string
  tg_TeamID :: string
  tg_unsupported :: "string list"

record chat_action =
  ca_Enabled :: bool
  ca_Target :: "chat_target option"
  ca_MinSeverity :: string
  ca_unsupported :: "string list"

record secure_fields =
  sf_URL :: bool
  sf_HMACSecret :: bool
  sf_AuthorizationCredentials :: bool
  sf_unsupported :: "string list"

record webhook_action =
  wa_Enabled :: bool
  wa_MinSeverity :: string
  wa_SecureFields :: "secure_fields option"
  wa_AuthorizationScheme :: string
  wa_unsupported :: "string list"

record alerting_action =
  aa_Enabled :: bool
  aa_MinSeverity :: string
  aa_RoutingTree :: "string option"
  aa_unsupported :: "string list"

record investigation_action =
  ia_Enabled :: bool
  ia_TeamNames :: "string list"
  ia_unsupported :: "string list"

record 't stop_setting =
  ss_PauseAt :: "'t option"
  ss_Archive :: bool
  ss_unsupported :: "string list"

text \<open>Of an answer the configuration, which is all the code modelled here reads.\<close>

record 't raw_watcher =
  rw_ID :: string
  rw_Name :: string
  rw_Description :: string
  rw_Prompt :: string
  rw_TriggerIntervalSeconds :: int
  rw_Sensitivity :: string
  rw_DisableDecisionSkip :: bool
  rw_DatasourceUIDs :: "string list"
  rw_Labels :: "(string \<times> string) list"
  rw_AutoStop :: "'t stop_setting option"
  rw_Slack :: "chat_action option"
  rw_MSTeams :: "chat_action option"
  rw_Webhook :: "webhook_action option"
  rw_Alerting :: "alerting_action option"
  rw_Investigation :: "investigation_action option"
  rw_unsupported :: "string list"

record enrollment =
  en_Enabled :: bool
  en_ScheduleCron :: string
  en_ScheduleTimezone :: string
  en_unsupported :: "string list"

record webhook_write =
  ww_Enabled :: bool
  ww_MinSeverity :: string
  ww_URL :: "string option"
  ww_AuthorizationScheme :: "string option"
  ww_HMACSecret :: "string option"
  ww_AuthorizationCredentials :: "string option"

record 't configuration_request =
  cr_Name :: string
  cr_Description :: string
  cr_Prompt :: string
  cr_TriggerIntervalSeconds :: int
  cr_Sensitivity :: string
  cr_DisableDecisionSkip :: bool
  cr_DatasourceUIDs :: "string list"
  cr_Labels :: "(string \<times> string) list"
  cr_AutoStop :: "'t stop_setting"
  cr_Slack :: chat_action
  cr_MSTeams :: chat_action
  cr_Alerting :: alerting_action
  cr_Investigation :: investigation_action
  cr_Webhook :: webhook_write

section \<open>Settings that a manifest cannot express\<close>

definition target_beyond_channel :: "chat_action option \<Rightarrow> string list" where
  "target_beyond_channel a =
     (case a of None \<Rightarrow> []
      | Some act \<Rightarrow>
          (case ca_Target act of None \<Rightarrow> []
           | Some t \<Rightarrow>
               if tg_Type t \<noteq> [] \<and> tg_Type t \<noteq> ''channel'' \<or> tg_UserID t \<noteq> [] \<or> tg_TeamID t \<noteq> []
               then [''notification targeting''] else []))"

definition chat_unsupported :: "chat_action option \<Rightarrow> string list" where
  "chat_unsupported a =
     (case a of None \<Rightarrow> []
      | Some act \<Rightarrow> ca_unsupported act @ (case ca_Target act of None \<Rightarrow> [] | Some t \<Rightarrow> tg_unsupported t))"

definition sortedUnique :: "string list \<Rightarrow> string list" where
  "sortedUnique values = remdups_adj (sort values)"

definition UnsupportedConfiguration :: "'t raw_watcher \<Rightarrow> string list" where
  "UnsupportedConfiguration w =
     sortedUnique
       ((case rw_AutoStop w of None \<Rightarrow> [] | Some s \<Rightarrow> ss_unsupported s) @ rw_unsupported w @
        chat_unsupported (rw_Slack w) @ chat_unsupported (rw_MSTeams w) @ target_beyond_channel (rw_MSTeams w) @
        (case rw_Webhook w of None \<Rightarrow> []
         | Some a \<Rightarrow>
             wa_unsupported a @ (case wa_SecureFields a of None \<Rightarrow> [] | Some f \<Rightarrow> sf_unsupported f) @
             (if wa_AuthorizationScheme a \<noteq> [] \<and> wa_AuthorizationScheme a \<noteq> ''Bearer''
              then [''webhook authorization settings''] else [])) @
        (case rw_Alerting w of None \<Rightarrow> [] | Some a \<Rightarrow> aa_unsupported a) @
        (case rw_Investigation w of None \<Rightarrow> [] | Some a \<Rightarrow> ia_unsupported a))"

definition Enrollment_Unsupported :: "enrollment \<Rightarrow> string list" where
  "Enrollment_Unsupported e =
     sortedUnique
       (en_unsupported e @
        (if en_ScheduleCron e \<noteq> [] \<and> go_trim_space (en_ScheduleCron e) \<noteq> ''0 9 * * 1'' \<or>
            en_ScheduleTimezone e \<noteq> [] \<and> en_ScheduleTimezone e \<noteq> ''UTC''
         then [''automatic recalibration scheduling''] else []))"

section \<open>From an answer to a manifest\<close>

definition legacyRoutingLabel :: "string" where
  "legacyRoutingLabel = ''__grafana_managed_route__''"

definition configurationLabels :: "(string \<times> string) list \<Rightarrow> (string \<times> string) list" where
  "configurationLabels labels = filter (\<lambda>(k, v). k \<noteq> legacyRoutingLabel) labels"

definition severityToRequest :: "string \<Rightarrow> string" where
  "severityToRequest value = (if value = ''warning-and-critical'' then ''warning'' else value)"

definition severityFromResponse :: "string \<Rightarrow> string" where
  "severityFromResponse raw =
     (if raw = ''critical'' then ''critical''
      else if raw = [] \<or> raw = ''warning'' then ''warning-and-critical''
      else raw)"

definition preserveMarker :: "bool \<Rightarrow> secret_input option" where
  "preserveMarker configured =
     (if configured then Some \<lparr>si_FromEnv = [], si_FromFile = [], si_Preserve = True, si_Clear = False\<rparr> else None)"

definition channelFromResponse :: "chat_action \<Rightarrow> channel_notification" where
  "channelFromResponse raw =
     \<lparr>ch_Enabled = ca_Enabled raw, ch_ChannelID = (case ca_Target raw of Some t \<Rightarrow> tg_ChannelID t | None \<Rightarrow> []),
      ch_Severity = severityFromResponse (ca_MinSeverity raw)\<rparr>"

definition webhookFromResponse :: "webhook_action \<Rightarrow> webhook_notification" where
  "webhookFromResponse raw =
     (let fields = (case wa_SecureFields raw of
                      Some f \<Rightarrow> f
                    | None \<Rightarrow> \<lparr>sf_URL = False, sf_HMACSecret = False, sf_AuthorizationCredentials = False, sf_unsupported = []\<rparr>)
      in \<lparr>wn_Enabled = wa_Enabled raw, wn_Severity = severityFromResponse (wa_MinSeverity raw),
          wn_URL = preserveMarker (sf_URL fields), wn_BearerToken = preserveMarker (sf_AuthorizationCredentials fields),
          wn_SigningSecret = preserveMarker (sf_HMACSecret fields)\<rparr>)"

definition default_severity :: "string" where
  "default_severity = ''warning-and-critical''"

definition slackFromResponse :: "chat_action option \<Rightarrow> slack_notification" where
  "slackFromResponse a =
     (case a of
        None \<Rightarrow> \<lparr>sl_Enabled = False, sl_TargetType = ''channel'', sl_ChannelID = [], sl_UserID = [], sl_TeamID = [],
                 sl_Severity = default_severity\<rparr>
      | Some act \<Rightarrow>
          (let base = \<lparr>sl_Enabled = ca_Enabled act, sl_TargetType = ''channel'', sl_ChannelID = [], sl_UserID = [],
                       sl_TeamID = [], sl_Severity = severityFromResponse (ca_MinSeverity act)\<rparr>
           in case ca_Target act of
                None \<Rightarrow> base
              | Some t \<Rightarrow>
                  base\<lparr>sl_TargetType := (if tg_Type t \<noteq> [] then tg_Type t else ''channel''),
                       sl_ChannelID := tg_ChannelID t, sl_UserID := tg_UserID t, sl_TeamID := tg_TeamID t\<rparr>))"

definition alertingFromResponse :: "(string \<times> string) list \<Rightarrow> alerting_action option \<Rightarrow> alerting_notification" where
  "alertingFromResponse labels a =
     (let legacy = (case map_of labels legacyRoutingLabel of Some v \<Rightarrow> v | None \<Rightarrow> []) in
      case a of
        None \<Rightarrow> \<lparr>an_Enabled = False, an_Severity = default_severity, an_RoutingTree = legacy\<rparr>
      | Some act \<Rightarrow>
          \<lparr>an_Enabled = aa_Enabled act, an_Severity = severityFromResponse (aa_MinSeverity act),
           an_RoutingTree = (case aa_RoutingTree act of Some t \<Rightarrow> t | None \<Rightarrow> legacy)\<rparr>)"

definition stopFromResponse :: "'t time_lib \<Rightarrow> 't stop_setting option \<Rightarrow> auto_stop" where
  "stopFromResponse lib a =
     (case a of
        None \<Rightarrow> \<lparr>st_Enabled = False, st_At = [], st_Archive = False\<rparr>
      | Some s \<Rightarrow>
          (case ss_PauseAt s of
             None \<Rightarrow> \<lparr>st_Enabled = False, st_At = [], st_Archive = ss_Archive s\<rparr>
           | Some t \<Rightarrow> \<lparr>st_Enabled = True, st_At = tl_format lib t, st_Archive = ss_Archive s\<rparr>))"

definition no_mutation :: mutation_outcome where
  "no_mutation = \<lparr>mo_Changed = False, mo_Configuration = [], mo_Enrollment = [], mo_Readback = []\<rparr>"

definition WatcherFromResponse :: "'t time_lib \<Rightarrow> 't raw_watcher \<Rightarrow> bool \<Rightarrow> watcher" where
  "WatcherFromResponse lib raw automaticRecalibration =
     \<lparr>wt_Title = rw_Name raw, wt_Description = rw_Description raw, wt_Prompt = rw_Prompt raw,
      wt_DatasourceUIDs = rw_DatasourceUIDs raw, wt_Interval = tl_seconds_string lib (rw_TriggerIntervalSeconds raw),
      wt_Sensitivity = rw_Sensitivity raw, wt_SkipReviewOnCleanRuns = (\<not> rw_DisableDecisionSkip raw),
      wt_AutoStop = stopFromResponse lib (rw_AutoStop raw), wt_Labels = configurationLabels (rw_Labels raw),
      wt_AutomaticRecalibration = automaticRecalibration, wt_Slack = slackFromResponse (rw_Slack raw),
      wt_Teams = (case rw_MSTeams raw of
                    Some a \<Rightarrow> channelFromResponse a
                  | None \<Rightarrow> \<lparr>ch_Enabled = False, ch_ChannelID = [], ch_Severity = default_severity\<rparr>),
      wt_Alerting = alertingFromResponse (rw_Labels raw) (rw_Alerting raw),
      wt_Webhook = (case rw_Webhook raw of
                      Some a \<Rightarrow> webhookFromResponse a
                    | None \<Rightarrow> \<lparr>wn_Enabled = False, wn_Severity = default_severity, wn_URL = None,
                               wn_BearerToken = None, wn_SigningSecret = None\<rparr>),
      wt_Investigation = (case rw_Investigation raw of
                            Some a \<Rightarrow> \<lparr>iv_Enabled = ia_Enabled a, iv_TeamAccess = ia_TeamNames a\<rparr>
                          | None \<Rightarrow> \<lparr>iv_Enabled = False, iv_TeamAccess = []\<rparr>),
      wt_mutation = no_mutation, wt_serverID = rw_ID raw\<rparr>"

section \<open>The normal form\<close>

definition hour_divisors :: "int list" where
  "hour_divisors = [1, 2, 3, 4, 5, 6, 10, 12, 15, 20, 30, 60]"

definition nearer :: "int \<Rightarrow> int \<Rightarrow> int \<Rightarrow> int" where
  "nearer minutes best n = (if \<bar>n - minutes\<bar> < \<bar>best - minutes\<bar> then n else best)"

text \<open>The divisions are of numbers that are not negative here: a negative one is at most -1 minute, which the maximum
  replaces by one minute.\<close>

definition effectiveCadence :: "int \<Rightarrow> int" where
  "effectiveCadence seconds =
     (let minutes = max 1 (seconds div 60) in
      if 60 \<le> minutes then max 1 ((minutes + 30) div 60) * 3600
      else foldl (nearer minutes) 1 hour_divisors * 60)"

definition canonicalRoutingTree :: "string \<Rightarrow> string" where
  "canonicalRoutingTree value =
     (let v = go_trim_space value in if v = ''default'' \<or> v = ''user-defined'' then [] else v)"

text \<open>The interval of a normal form is the printed number of seconds, kept here as the number.\<close>

record normal_watcher =
  nw_watcher :: watcher
  nw_seconds :: int

definition normalized :: "'t time_lib \<Rightarrow> watcher \<Rightarrow> normal_watcher" where
  "normalized lib w =
     (let stop = wt_AutoStop w;
          stop' = (if \<not> st_Enabled stop then \<lparr>st_Enabled = False, st_At = [], st_Archive = False\<rparr>
                   else case tl_parse lib (st_At stop) of
                     Some t \<Rightarrow> stop\<lparr>st_At := tl_format lib (tl_utc lib t)\<rparr>
                   | None \<Rightarrow> stop)
      in \<lparr>nw_watcher =
            w\<lparr>wt_serverID := [], wt_mutation := no_mutation, wt_AutomaticRecalibration := False,
              wt_Webhook := \<lparr>wn_Enabled = wn_Enabled (wt_Webhook w), wn_Severity = severityToRequest (wn_Severity (wt_Webhook w)),
                             wn_URL = None, wn_BearerToken = None, wn_SigningSecret = None\<rparr>,
              wt_Slack := (wt_Slack w)\<lparr>sl_Severity := severityToRequest (sl_Severity (wt_Slack w))\<rparr>,
              wt_Teams := (wt_Teams w)\<lparr>ch_Severity := severityToRequest (ch_Severity (wt_Teams w))\<rparr>,
              wt_Alerting := (wt_Alerting w)\<lparr>an_Severity := severityToRequest (an_Severity (wt_Alerting w))\<rparr>,
              wt_Interval := [], wt_AutoStop := stop', wt_DatasourceUIDs := sortedUnique (wt_DatasourceUIDs w),
              wt_Investigation := (wt_Investigation w)\<lparr>iv_TeamAccess := sortedUnique (iv_TeamAccess (wt_Investigation w))\<rparr>,
              wt_Labels := configurationLabels (wt_Labels w)\<rparr>,
          nw_seconds = effectiveCadence (interval_seconds lib (wt_Interval w))\<rparr>)"

text \<open>\<^verbatim>\<open>reflect.DeepEqual\<close> of normal forms: the maps of labels are equal as maps.\<close>

definition same_map :: "(string \<times> string) list \<Rightarrow> (string \<times> string) list \<Rightarrow> bool" where
  "same_map a b \<longleftrightarrow> list_all (\<lambda>k. map_of a k = map_of b k) (map fst a @ map fst b)"

definition DeepEqual :: "normal_watcher \<Rightarrow> normal_watcher \<Rightarrow> bool" where
  "DeepEqual a b \<longleftrightarrow>
     (nw_watcher a)\<lparr>wt_Labels := []\<rparr> = (nw_watcher b)\<lparr>wt_Labels := []\<rparr> \<and> nw_seconds a = nw_seconds b \<and>
     same_map (wt_Labels (nw_watcher a)) (wt_Labels (nw_watcher b))"

section \<open>From a manifest to a request\<close>

definition plain_target :: "string \<Rightarrow> string \<Rightarrow> string \<Rightarrow> string \<Rightarrow> chat_target" where
  "plain_target kind channel user team =
     \<lparr>tg_ChannelID = channel, tg_Type = kind, tg_UserID = user, tg_TeamID = team, tg_unsupported = []\<rparr>"

definition slack_request :: "slack_notification \<Rightarrow> chat_action" where
  "slack_request slack =
     \<lparr>ca_Enabled = sl_Enabled slack,
      ca_Target =
        (if sl_Enabled slack \<or> sl_ChannelID slack \<noteq> [] \<or> sl_UserID slack \<noteq> [] \<or> sl_TeamID slack \<noteq> [] \<or>
            sl_TargetType slack \<noteq> ''channel''
         then Some (plain_target (sl_TargetType slack) (sl_ChannelID slack) (sl_UserID slack) (sl_TeamID slack))
         else None),
      ca_MinSeverity = severityToRequest (sl_Severity slack), ca_unsupported = []\<rparr>"

definition channel_request :: "channel_notification \<Rightarrow> chat_action" where
  "channel_request n =
     \<lparr>ca_Enabled = ch_Enabled n,
      ca_Target = (if ch_ChannelID n \<noteq> [] then Some (plain_target ''channel'' (ch_ChannelID n) [] []) else None),
      ca_MinSeverity = severityToRequest (ch_Severity n), ca_unsupported = []\<rparr>"

definition stop_request :: "'t time_lib \<Rightarrow> auto_stop \<Rightarrow> 't stop_setting" where
  "stop_request lib stop =
     (if st_Enabled stop
      then \<lparr>ss_PauseAt = Some (case tl_parse lib (st_At stop) of Some t \<Rightarrow> t | None \<Rightarrow> tl_zero lib), ss_Archive = st_Archive stop, ss_unsupported = []\<rparr>
      else \<lparr>ss_PauseAt = None, ss_Archive = False, ss_unsupported = []\<rparr>)"

definition configurationRequest :: "'t time_lib \<Rightarrow> watcher \<Rightarrow> 't configuration_request" where
  "configurationRequest lib w =
     \<lparr>cr_Name = wt_Title w, cr_Description = wt_Description w, cr_Prompt = wt_Prompt w,
      cr_TriggerIntervalSeconds = effectiveCadence (interval_seconds lib (wt_Interval w)),
      cr_Sensitivity = wt_Sensitivity w, cr_DisableDecisionSkip = (\<not> wt_SkipReviewOnCleanRuns w),
      cr_DatasourceUIDs = wt_DatasourceUIDs w, cr_Labels = configurationLabels (wt_Labels w),
      cr_AutoStop = stop_request lib (wt_AutoStop w), cr_Slack = slack_request (wt_Slack w),
      cr_MSTeams = channel_request (wt_Teams w),
      cr_Alerting = \<lparr>aa_Enabled = an_Enabled (wt_Alerting w), aa_MinSeverity = severityToRequest (an_Severity (wt_Alerting w)),
                     aa_RoutingTree = Some (an_RoutingTree (wt_Alerting w)), aa_unsupported = []\<rparr>,
      cr_Investigation = \<lparr>ia_Enabled = iv_Enabled (wt_Investigation w), ia_TeamNames = iv_TeamAccess (wt_Investigation w),
                          ia_unsupported = []\<rparr>,
      cr_Webhook = \<lparr>ww_Enabled = wn_Enabled (wt_Webhook w), ww_MinSeverity = severityToRequest (wn_Severity (wt_Webhook w)),
                    ww_URL = None, ww_AuthorizationScheme = None, ww_HMACSecret = None, ww_AuthorizationCredentials = None\<rparr>\<rparr>"

section \<open>What a server that stores a request gives back\<close>

text \<open>The answer says of each setting what the request said: lists in any order, a time in any zone.\<close>

definition target_of :: "chat_target option \<Rightarrow> (string \<times> string \<times> string \<times> string) option" where
  "target_of t = map_option (\<lambda>t. (tg_Type t, tg_ChannelID t, tg_UserID t, tg_TeamID t)) t"

definition chat_reflects :: "chat_action \<Rightarrow> chat_action option \<Rightarrow> bool" where
  "chat_reflects q r \<longleftrightarrow>
     (case r of
        None \<Rightarrow> False
      | Some a \<Rightarrow> ca_Enabled a = ca_Enabled q \<and> ca_MinSeverity a = ca_MinSeverity q \<and> target_of (ca_Target a) = target_of (ca_Target q))"

definition stop_reflects :: "'t time_lib \<Rightarrow> 't stop_setting \<Rightarrow> 't stop_setting option \<Rightarrow> bool" where
  "stop_reflects lib q r \<longleftrightarrow>
     (case ss_PauseAt q of
        None \<Rightarrow> (case r of None \<Rightarrow> True | Some s \<Rightarrow> ss_PauseAt s = None)
      | Some t \<Rightarrow>
          (case r of
             None \<Rightarrow> False
           | Some s \<Rightarrow> map_option (tl_utc lib) (ss_PauseAt s) = Some (tl_utc lib t) \<and> ss_Archive s = ss_Archive q))"

definition reflects :: "'t time_lib \<Rightarrow> 't configuration_request \<Rightarrow> 't raw_watcher \<Rightarrow> bool" where
  "reflects lib q raw \<longleftrightarrow>
     rw_Name raw = cr_Name q \<and> rw_Description raw = cr_Description q \<and> rw_Prompt raw = cr_Prompt q \<and>
     rw_TriggerIntervalSeconds raw = cr_TriggerIntervalSeconds q \<and> rw_Sensitivity raw = cr_Sensitivity q \<and>
     rw_DisableDecisionSkip raw = cr_DisableDecisionSkip q \<and>
     set (rw_DatasourceUIDs raw) = set (cr_DatasourceUIDs q) \<and> same_map (rw_Labels raw) (cr_Labels q) \<and>
     stop_reflects lib (cr_AutoStop q) (rw_AutoStop raw) \<and>
     chat_reflects (cr_Slack q) (rw_Slack raw) \<and> chat_reflects (cr_MSTeams q) (rw_MSTeams raw) \<and>
     (case rw_Alerting raw of None \<Rightarrow> False
      | Some a \<Rightarrow> aa_Enabled a = aa_Enabled (cr_Alerting q) \<and> aa_MinSeverity a = aa_MinSeverity (cr_Alerting q) \<and>
                 aa_RoutingTree a = aa_RoutingTree (cr_Alerting q)) \<and>
     (case rw_Investigation raw of None \<Rightarrow> False
      | Some a \<Rightarrow> ia_Enabled a = ia_Enabled (cr_Investigation q) \<and>
                 set (ia_TeamNames a) = set (ia_TeamNames (cr_Investigation q))) \<and>
     (case rw_Webhook raw of None \<Rightarrow> False
      | Some a \<Rightarrow> wa_Enabled a = ww_Enabled (cr_Webhook q) \<and> wa_MinSeverity a = ww_MinSeverity (cr_Webhook q))"

text \<open>What the code relies on of durations and times: a printed number of seconds, of those a Watcher may have, is parsed
  as itself, and a printed time as the same instant (\<open>'t\<close> stands for the times that can be written in RFC 3339, which
  are those that an answer or a manifest can hold).\<close>

definition time_laws :: "'t time_lib \<Rightarrow> bool" where
  "time_laws lib \<longleftrightarrow>
     (\<forall>n. 0 < n \<and> n \<le> 10800 \<longrightarrow> tl_seconds_string lib n \<noteq> [] \<and> tl_parse_duration lib (tl_seconds_string lib n) = Some (n * go_second)) \<and>
     (\<forall>t. map_option (tl_utc lib) (tl_parse lib (tl_format lib t)) = Some (tl_utc lib t))"

lemma severity_round:
  "s \<noteq> [] \<Longrightarrow> severityToRequest (severityFromResponse (severityToRequest s)) = severityToRequest s"
  by (simp add: severityToRequest_def severityFromResponse_def)

lemma foldl_nearer:
  "foldl (nearer m) b xs \<in> set (b # xs) \<and> (\<forall>n \<in> set (b # xs). \<bar>foldl (nearer m) b xs - m\<bar> \<le> \<bar>n - m\<bar>)"
proof (induction xs arbitrary: b)
  case (Cons x xs)
  show ?case using Cons [of "nearer m b x"] by (auto simp: nearer_def split: if_splits)
qed simp

lemma nearest_divisor:
  obtains n where "foldl (nearer m) 1 hour_divisors = n" "n \<in> set hour_divisors" "5 \<le> m \<Longrightarrow> 5 \<le> n"
proof -
  let ?n = "foldl (nearer m) 1 hour_divisors"
  have "1 \<in> set hour_divisors" "5 \<in> set hour_divisors" by (simp_all add: hour_divisors_def)
  then have "?n \<in> set hour_divisors" "\<bar>?n - m\<bar> \<le> \<bar>5 - m\<bar>" using foldl_nearer [of m 1 hour_divisors] by auto
  moreover have "5 \<le> n" if "\<bar>n - m\<bar> \<le> \<bar>5 - m\<bar>" "5 \<le> m" for n using that by linarith
  ultimately show ?thesis using that by blast
qed

lemma divisor_cadence: "n \<in> set hour_divisors \<Longrightarrow> effectiveCadence (n * 60) = n * 60 \<and> 1 \<le> n \<and> n \<le> 60"
  by (auto simp: hour_divisors_def effectiveCadence_def nearer_def)

lemma cadence_cases:
  obtains n where "n \<in> set hour_divisors" "effectiveCadence s = n * 60" "300 \<le> s \<Longrightarrow> 5 \<le> n"
  | h where "1 \<le> h" "h = (max 1 (s div 60) + 30) div 60" "effectiveCadence s = h * 3600"
proof (cases "60 \<le> max 1 (s div 60)")
  case True
  then have "1 \<le> (max 1 (s div 60) + 30) div 60" by linarith
  then show ?thesis using True that(2) by (simp add: effectiveCadence_def Let_def)
next
  case False
  obtain n where "foldl (nearer (max 1 (s div 60))) 1 hour_divisors = n" "n \<in> set hour_divisors"
    "5 \<le> max 1 (s div 60) \<Longrightarrow> 5 \<le> n"
    using nearest_divisor [of "max 1 (s div 60)"] by blast
  moreover have "300 \<le> s \<Longrightarrow> 5 \<le> max 1 (s div 60)" by linarith
  ultimately show ?thesis using False by (intro that(1) [of n]) (simp_all add: effectiveCadence_def Let_def)
qed

lemma effectiveCadence_idem: "effectiveCadence (effectiveCadence s) = effectiveCadence s"
proof (cases rule: cadence_cases [of s])
  case (1 n)
  then show ?thesis using divisor_cadence [of n] by simp
next
  case (2 h)
  have "h * 3600 div 60 = h * 60" "(h * 60 + 30) div 60 = h" by linarith+
  then have "effectiveCadence (h * 3600) = h * 3600" using 2(1) by (simp add: effectiveCadence_def max_def)
  then show ?thesis using 2(3) by simp
qed

lemma effectiveCadence_range: "ValidateIntervalSeconds s \<Longrightarrow> ValidateIntervalSeconds (effectiveCadence s)"
proof -
  assume "ValidateIntervalSeconds s"
  then have s: "300 \<le> s" "s \<le> 10800" by (auto simp: ValidateIntervalSeconds_def)
  show ?thesis
  proof (cases rule: cadence_cases [of s])
    case (1 n)
    then show ?thesis using divisor_cadence [of n] s by (simp add: ValidateIntervalSeconds_def)
  next
    case (2 h)
    then have "h \<le> 3" using s by linarith
    then show ?thesis using 2(1) unfolding 2(3) ValidateIntervalSeconds_def by linarith
  qed
qed

lemma same_map_iff: "same_map a b \<longleftrightarrow> map_of a = map_of b"
proof
  assume "same_map a b"
  then have "k \<in> fst ` set a \<union> fst ` set b \<Longrightarrow> map_of a k = map_of b k" for k
    by (auto simp: same_map_def list_all_iff)
  moreover have "k \<notin> fst ` set a \<union> fst ` set b \<Longrightarrow> map_of a k = map_of b k" for k
    by (simp add: map_of_eq_None_iff [symmetric])
  ultimately show "map_of a = map_of b" by blast
qed (simp add: same_map_def list_all_iff)

lemma map_of_configurationLabels:
  "map_of (configurationLabels labels) = (map_of labels)(legacyRoutingLabel := None)"
  by (induction labels) (auto simp: configurationLabels_def fun_eq_iff)

lemma distinct_sorted_adj: "sorted xs \<Longrightarrow> distinct (remdups_adj xs)" for xs :: "string list"
  by (induction xs rule: remdups_adj.induct) auto

lemma sortedUnique_set: "set a = set b \<Longrightarrow> sortedUnique a = sortedUnique b"
proof -
  have "sorted (remdups_adj (sort xs)) \<and> distinct (remdups_adj (sort xs)) \<and> set (remdups_adj (sort xs)) = set xs"
    for xs :: "string list"
    by (simp add: distinct_sorted_adj)
  then show "set a = set b \<Longrightarrow> sortedUnique a = sortedUnique b"
    unfolding sortedUnique_def by (metis sorted_distinct_set_unique)
qed

lemma interval_round:
  "time_laws lib \<Longrightarrow> ValidateIntervalSeconds n \<Longrightarrow> interval_seconds lib (tl_seconds_string lib n) = n"
  by (simp add: interval_seconds_def ParseDuration_def time_laws_def go_second_def ValidateIntervalSeconds_def)

lemma Validate_None: "Validate lib w = None \<longleftrightarrow> list_all (\<lambda>c. \<not> fst c) (watcher_checks lib w)"
  by (auto simp: Validate_def find_None_iff list_all_iff)

lemma blank_Nil: "\<not> blank_text s \<Longrightarrow> s \<noteq> []"
  by (auto simp: blank_text_def)

lemma validated:
  assumes "Validate lib w = None"
  shows "sl_Severity (wt_Slack w) \<noteq> []" "ch_Severity (wt_Teams w) \<noteq> []" "an_Severity (wt_Alerting w) \<noteq> []"
    "wn_Severity (wt_Webhook w) \<noteq> []" "sl_TargetType (wt_Slack w) \<noteq> []"
    "st_Enabled (wt_AutoStop w) \<Longrightarrow> \<exists>t. tl_parse lib (st_At (wt_AutoStop w)) = Some t"
    "ValidateIntervalSeconds (interval_seconds lib (wt_Interval w))"
proof -
  have checks: "list_all (\<lambda>c. \<not> fst c) (watcher_checks lib w)" using assms by (simp add: Validate_None)
  then show "sl_Severity (wt_Slack w) \<noteq> []" "ch_Severity (wt_Teams w) \<noteq> []" "an_Severity (wt_Alerting w) \<noteq> []"
    "wn_Severity (wt_Webhook w) \<noteq> []"
    by (auto simp: watcher_checks_def Let_def dest: blank_Nil)
  have "validateSlackTarget (wt_Slack w) = None" using checks by (simp add: watcher_checks_def Let_def)
  then show "sl_TargetType (wt_Slack w) \<noteq> []"
    by (auto simp: validateSlackTarget_def blank_text_def split: if_splits)
  show "\<exists>t. tl_parse lib (st_At (wt_AutoStop w)) = Some t" if "st_Enabled (wt_AutoStop w)"
    using checks that by (auto simp: watcher_checks_def Let_def)
  show "ValidateIntervalSeconds (interval_seconds lib (wt_Interval w))" using checks by (simp add: watcher_checks_def Let_def)
qed

lemma slack_round:
  assumes "chat_reflects (slack_request s) r" and "sl_TargetType s \<noteq> []" and "sl_Severity s \<noteq> []"
  shows "(slackFromResponse r)\<lparr>sl_Severity := severityToRequest (sl_Severity (slackFromResponse r))\<rparr> =
         s\<lparr>sl_Severity := severityToRequest (sl_Severity s)\<rparr>"
proof -
  obtain a where r: "r = Some a" and a: "ca_Enabled a = sl_Enabled s" "ca_MinSeverity a = severityToRequest (sl_Severity s)"
    "target_of (ca_Target a) = target_of (ca_Target (slack_request s))"
    using assms(1) by (cases r) (auto simp: chat_reflects_def slack_request_def)
  show ?thesis
  proof (cases "ca_Target a")
    case None
    then have "\<not> sl_Enabled s" "sl_ChannelID s = []" "sl_UserID s = []" "sl_TeamID s = []" "sl_TargetType s = ''channel''"
      using a(3) by (auto simp: slack_request_def target_of_def split: if_splits)
    then show ?thesis using a None severity_round [OF assms(3)] by (simp add: r slackFromResponse_def)
  next
    case (Some t)
    then have "tg_Type t = sl_TargetType s" "tg_ChannelID t = sl_ChannelID s" "tg_UserID t = sl_UserID s" "tg_TeamID t = sl_TeamID s"
      using a(3) by (auto simp: slack_request_def target_of_def plain_target_def split: if_splits)
    then show ?thesis using a Some severity_round [OF assms(3)] assms(2) by (simp add: r slackFromResponse_def)
  qed
qed

lemma channel_round:
  assumes "chat_reflects (channel_request n) (Some a)" and "ch_Severity n \<noteq> []"
  shows "(channelFromResponse a)\<lparr>ch_Severity := severityToRequest (ch_Severity (channelFromResponse a))\<rparr> =
         n\<lparr>ch_Severity := severityToRequest (ch_Severity n)\<rparr>"
  using assms severity_round [OF assms(2)]
  by (cases "ca_Target a")
     (auto simp: chat_reflects_def channel_request_def channelFromResponse_def target_of_def plain_target_def split: if_splits)

definition normal_stop :: "'t time_lib \<Rightarrow> auto_stop \<Rightarrow> auto_stop" where
  "normal_stop lib stop =
     (if \<not> st_Enabled stop then \<lparr>st_Enabled = False, st_At = [], st_Archive = False\<rparr>
      else case tl_parse lib (st_At stop) of
        Some t \<Rightarrow> stop\<lparr>st_At := tl_format lib (tl_utc lib t)\<rparr>
      | None \<Rightarrow> stop)"

lemma stop_round:
  assumes laws: "time_laws lib" and r: "stop_reflects lib (stop_request lib stop) r"
    and at: "st_Enabled stop \<Longrightarrow> \<exists>t. tl_parse lib (st_At stop) = Some t"
  shows "normal_stop lib (stopFromResponse lib r) = normal_stop lib stop"
proof (cases "st_Enabled stop")
  case False
  then show ?thesis using r
    by (auto simp: stop_reflects_def stop_request_def stopFromResponse_def normal_stop_def split: option.splits)
next
  case True
  then obtain t where t: "tl_parse lib (st_At stop) = Some t" using at by blast
  then obtain s u where su: "r = Some s" "ss_PauseAt s = Some u" "tl_utc lib u = tl_utc lib t" "ss_Archive s = st_Archive stop"
    using r True by (auto simp: stop_reflects_def stop_request_def split: option.splits)
  obtain v where "tl_parse lib (tl_format lib u) = Some v" "tl_utc lib v = tl_utc lib u"
    using laws by (auto simp: time_laws_def)
  then show ?thesis using t su True by (simp add: normal_stop_def stopFromResponse_def)
qed

lemma labels_round:
  assumes "same_map labels (configurationLabels l)"
  shows "same_map (configurationLabels (configurationLabels labels)) (configurationLabels l)"
  using assms by (auto simp: same_map_iff map_of_configurationLabels)

text \<open>A server that stores the request of a valid manifest gives back the manifest in normal form.\<close>

lemma request_round:
  assumes laws: "time_laws lib" and valid: "Validate lib w = None"
    and r: "reflects lib (configurationRequest lib w) raw"
  shows "DeepEqual (normalized lib (WatcherFromResponse lib raw e)) (normalized lib w)"
proof -
  note v = validated [OF valid]
  obtain a1 a2 a3 a4 where acts: "rw_MSTeams raw = Some a1" "rw_Alerting raw = Some a2" "rw_Investigation raw = Some a3" "rw_Webhook raw = Some a4"
    using r by (auto simp: reflects_def chat_reflects_def split: option.splits)
  note q = r [unfolded reflects_def configurationRequest_def, simplified]
  let ?w = "WatcherFromResponse lib raw e"
  have slack: "(wt_Slack ?w)\<lparr>sl_Severity := severityToRequest (sl_Severity (wt_Slack ?w))\<rparr> =
      (wt_Slack w)\<lparr>sl_Severity := severityToRequest (sl_Severity (wt_Slack w))\<rparr>"
    using q v slack_round by (simp add: WatcherFromResponse_def)
  have teams: "(wt_Teams ?w)\<lparr>ch_Severity := severityToRequest (ch_Severity (wt_Teams ?w))\<rparr> =
      (wt_Teams w)\<lparr>ch_Severity := severityToRequest (ch_Severity (wt_Teams w))\<rparr>"
    using q v channel_round acts by (simp add: WatcherFromResponse_def)
  have alerting: "(wt_Alerting ?w)\<lparr>an_Severity := severityToRequest (an_Severity (wt_Alerting ?w))\<rparr> =
      (wt_Alerting w)\<lparr>an_Severity := severityToRequest (an_Severity (wt_Alerting w))\<rparr>"
    using q v(3) severity_round acts by (simp add: WatcherFromResponse_def alertingFromResponse_def)
  have stop: "normal_stop lib (wt_AutoStop ?w) = normal_stop lib (wt_AutoStop w)"
    using q v(6) stop_round [OF laws] by (simp add: WatcherFromResponse_def)
  have "interval_seconds lib (wt_Interval ?w) = effectiveCadence (interval_seconds lib (wt_Interval w))"
    using q interval_round [OF laws effectiveCadence_range [OF v(7)]] by (simp add: WatcherFromResponse_def)
  then have seconds: "effectiveCadence (interval_seconds lib (wt_Interval ?w)) = effectiveCadence (interval_seconds lib (wt_Interval w))"
    by (simp add: effectiveCadence_idem)
  have uids: "sortedUnique (wt_DatasourceUIDs ?w) = sortedUnique (wt_DatasourceUIDs w)"
    using q by (intro sortedUnique_set) (simp add: WatcherFromResponse_def)
  have teamAccess: "(wt_Investigation ?w)\<lparr>iv_TeamAccess := sortedUnique (iv_TeamAccess (wt_Investigation ?w))\<rparr> =
      (wt_Investigation w)\<lparr>iv_TeamAccess := sortedUnique (iv_TeamAccess (wt_Investigation w))\<rparr>"
    using q acts sortedUnique_set [of "ia_TeamNames a3" "iv_TeamAccess (wt_Investigation w)"] by (simp add: WatcherFromResponse_def)
  have hook: "wn_Enabled (wt_Webhook ?w) = wn_Enabled (wt_Webhook w)"
    "severityToRequest (wn_Severity (wt_Webhook ?w)) = severityToRequest (wn_Severity (wt_Webhook w))"
    using q v(4) severity_round acts by (simp_all add: WatcherFromResponse_def webhookFromResponse_def Let_def)
  have labels: "same_map (configurationLabels (wt_Labels ?w)) (configurationLabels (wt_Labels w))"
    using q labels_round by (simp add: WatcherFromResponse_def)
  have plain: "wt_Title ?w = wt_Title w" "wt_Description ?w = wt_Description w" "wt_Prompt ?w = wt_Prompt w"
    "wt_Sensitivity ?w = wt_Sensitivity w" "wt_SkipReviewOnCleanRuns ?w = wt_SkipReviewOnCleanRuns w"
    using q by (simp_all add: WatcherFromResponse_def)
  show ?thesis
    unfolding DeepEqual_def normalized_def Let_def normal_stop_def [symmetric]
    using slack teams alerting stop seconds uids teamAccess hook labels plain by (simp add: watcher.equality)
qed

end
