(* ===== verification/Gcx_WatcherSync.thy ===== *)
theory Gcx_WatcherSync
  imports Gcx_Watcher
begin

text \<open>
  Applying one Watcher manifest (\<^verbatim>\<open>assistant/watcher/reconcile.go\<close> and the index of identities of \<^verbatim>\<open>adapter.go\<close>,
  with the selection of deletions of \<^verbatim>\<open>adapter_write.go\<close>): identities, secrets, the reconciliation, creating, updating
  and deleting. The lemmas show what is sent, what an error says about what was saved, that applying a manifest again sends
  nothing, and that the identifiers of an index are distinct.
\<close>

section \<open>The client\<close>

text \<open>The operations of \<^verbatim>\<open>watchers.Client\<close> act on a world and are parameters, as are the test for UUIDs, the
  environment and the files secrets are read from.\<close>

record ('w, 'e, 't) watcher_client =
  wc_ListAll :: "bool \<Rightarrow> 'w \<Rightarrow> ('e + 't raw_watcher list) \<times> 'w"
  wc_Get :: "string \<Rightarrow> 'w \<Rightarrow> ('e + 't raw_watcher) \<times> 'w"
  wc_Enrollment :: "string \<Rightarrow> 'w \<Rightarrow> ('e + enrollment) \<times> 'w"
  wc_Create :: "'t configuration_request \<Rightarrow> 'w \<Rightarrow> ('e + 't raw_watcher) \<times> 'w"
  wc_Update :: "string \<Rightarrow> 't configuration_request \<Rightarrow> 'w \<Rightarrow> ('e + 't raw_watcher) \<times> 'w"
  wc_SetEnrollment :: "string \<Rightarrow> bool \<Rightarrow> 'w \<Rightarrow> ('e + enrollment) \<times> 'w"
  wc_Delete :: "string \<Rightarrow> 'w \<Rightarrow> ('e + unit) \<times> 'w"
  wc_IsServerID :: "string \<Rightarrow> bool"
  wc_Getenv :: "string \<Rightarrow> string"
  wc_ReadFile :: "string \<Rightarrow> string option"

record candidate =
  cd_ID :: string
  cd_Title :: string
  cd_Name :: string

datatype 'e watcher_error =
  Invalid watcher_invalid | Client_failed 'e | Index_failed 'e | Incomplete_identity | Unknown_watcher string
| Ambiguous string "candidate list" | Title_taken "candidate list" | Rename_occupied "candidate list"
| Conflicting_target | Unrepresented "string list" | Preserve_on_create | Uncovered_secret | Secret_file | Secret_empty
| Calibration_failed string 'e | Not_exportable string watcher_invalid | Same_target | No_reference | Unverified "string list"
| Partial watcher "'e watcher_error"

text \<open>The world with what was read and written so far: a request that was sent, and what was accepted.\<close>

datatype 't watcher_event =
  Read_watcher string "'t raw_watcher" | Read_enrollment string enrollment
| Sent_save "string option" "'t configuration_request" | Saved string
| Sent_enrollment string bool | Enrolled string bool | Removed string

record ('w, 't) watcher_world =
  vw_state :: 'w
  vw_log :: "'t watcher_event list"

definition observe ::
  "('w \<Rightarrow> ('e + 'a) \<times> 'w) \<Rightarrow> 't watcher_event list \<Rightarrow> ('a \<Rightarrow> 't watcher_event list) \<Rightarrow>
   ('w, 't) watcher_world \<Rightarrow> ('e + 'a) \<times> ('w, 't) watcher_world" where
  "observe call before after s =
     (let (r, w') = call (vw_state s) in
      (r, s\<lparr>vw_state := w',
            vw_log := vw_log s @ before @ (case r of Inr a \<Rightarrow> after a | Inl e \<Rightarrow> [])\<rparr>))"

definition client_Get where
  "client_Get cl ident = observe (wc_Get cl ident) [] (\<lambda>raw. [Read_watcher ident raw])"

definition client_Enrollment where
  "client_Enrollment cl ident = observe (wc_Enrollment cl ident) [] (\<lambda>e. [Read_enrollment ident e])"

definition client_Create where
  "client_Create cl req = observe (wc_Create cl req) [Sent_save None req] (\<lambda>raw. [Saved (rw_ID raw)])"

definition client_Update where
  "client_Update cl ident req = observe (wc_Update cl ident req) [Sent_save (Some ident) req] (\<lambda>raw. [Saved (rw_ID raw)])"

definition client_SetEnrollment where
  "client_SetEnrollment cl ident enabled =
     observe (wc_SetEnrollment cl ident enabled) [Sent_enrollment ident enabled] (\<lambda>e. [Enrolled ident enabled])"

definition client_Delete where
  "client_Delete cl ident = observe (wc_Delete cl ident) [] (\<lambda>u. [Removed ident])"

definition client_ListAll where
  "client_ListAll cl archived = observe (wc_ListAll cl archived) [] (\<lambda>items. [])"

section \<open>Identities\<close>

type_synonym identity_index = "(string \<times> candidate list) list"

fun index_items :: "'t raw_watcher list \<Rightarrow> string list \<times> identity_index \<Rightarrow> (string list \<times> identity_index) option" where
  "index_items [] acc = Some acc"
| "index_items (item # items) (seen, index) =
     (if blank_text (rw_ID item) \<or> blank_text (rw_Name item) then None
      else if rw_ID item \<in> set seen then index_items items (seen, index)
      else let name = SlugifyName (rw_Name item) in
        index_items items
          (seen @ [rw_ID item],
           append_to name \<lparr>cd_ID = rw_ID item, cd_Title = rw_Name item, cd_Name = name\<rparr> index))"

fun index_partitions ::
  "('w, 'e, 't) watcher_client \<Rightarrow> bool list \<Rightarrow> string list \<times> identity_index \<Rightarrow> ('w, 't) watcher_world \<Rightarrow>
   ('e watcher_error + identity_index) \<times> ('w, 't) watcher_world" where
  "index_partitions cl [] acc s = (Inr (snd acc), s)"
| "index_partitions cl (archived # rest) acc s =
     (case client_ListAll cl archived s of
        (Inl e, s') \<Rightarrow> (Inl (Index_failed e), s')
      | (Inr items, s') \<Rightarrow>
          (case index_items items acc of
             None \<Rightarrow> (Inl Incomplete_identity, s')
           | Some acc' \<Rightarrow> index_partitions cl rest acc' s'))"

definition IdentityIndex where
  "IdentityIndex cl s = index_partitions cl [False, True] ([], []) s"

text \<open>The index kept in the context of a push, or a new one.\<close>

definition mutationIndex where
  "mutationIndex cl kept s = (case kept of Some index \<Rightarrow> (Inr index, s) | None \<Rightarrow> IdentityIndex cl s)"

definition candidatesFlat :: "nat list \<Rightarrow> identity_index \<Rightarrow> candidate list" where
  "candidatesFlat cs index = concat (map snd (go_range cs index))"

definition CollisionError :: "string \<Rightarrow> candidate list \<Rightarrow> 'e watcher_error" where
  "CollisionError name candidates = Ambiguous name (sort_key cd_ID candidates)"

definition one_of :: "string \<Rightarrow> candidate list \<Rightarrow> 'e watcher_error + candidate" where
  "one_of ref items =
     (case items of [] \<Rightarrow> Inl (Unknown_watcher ref) | [c] \<Rightarrow> Inr c | _ \<Rightarrow> Inl (CollisionError ref items))"

definition resolveIdentity ::
  "nat list \<Rightarrow> (string \<Rightarrow> bool) \<Rightarrow> identity_index \<Rightarrow> string \<Rightarrow> 'e watcher_error + candidate" where
  "resolveIdentity cs isID index ref =
     (case find (\<lambda>c. cd_ID c = ref) (candidatesFlat cs index) of
        Some c \<Rightarrow> Inr c
      | None \<Rightarrow> if isID ref then Inl (Unknown_watcher ref) else one_of ref (bucket index ref))"

definition no_candidate :: candidate where
  "no_candidate = \<lparr>cd_ID = [], cd_Title = [], cd_Name = []\<rparr>"

definition selectUpsert ::
  "nat list \<Rightarrow> identity_index \<Rightarrow> watcher \<Rightarrow> bool \<Rightarrow> 'e watcher_error + candidate" where
  "selectUpsert cs index w create =
     (let flat = candidatesFlat cs index;
          target = fold (\<lambda>c t. if cd_ID c = wt_serverID w then c else t) flat no_candidate;
          titles = filter (\<lambda>c. cd_Title c = wt_Title w) flat
      in if create
         then (if titles \<noteq> [] then Inl (Title_taken (sort_key cd_ID titles)) else Inr no_candidate)
         else if cd_ID target \<noteq> []
         then (if cd_Title target = wt_Title w then Inr target
               else let occupied = filter (\<lambda>c. cd_ID c \<noteq> cd_ID target) titles in
                 if occupied \<noteq> [] then Inl (Rename_occupied (sort_key cd_ID occupied)) else Inr target)
         else (case titles of
                 [] \<Rightarrow> Inr no_candidate
               | [c] \<Rightarrow> Inr c
               | _ \<Rightarrow> Inl (CollisionError (wt_Title w) titles)))"

section \<open>Secrets of the webhook\<close>

definition secretPairs :: "watcher \<Rightarrow> watcher \<Rightarrow> (secret_input option \<times> secret_input option) list" where
  "secretPairs desired current =
     (let d = wt_Webhook desired; c = wt_Webhook current in
      [(wn_URL d, wn_URL c), (wn_BearerToken d, wn_BearerToken c), (wn_SigningSecret d, wn_SigningSecret c)])"

definition supplies :: "secret_input option \<Rightarrow> bool" where
  "supplies s \<longleftrightarrow> (case s of None \<Rightarrow> False | Some v \<Rightarrow> si_FromEnv v \<noteq> [] \<or> si_FromFile v \<noteq> [])"

definition clears :: "secret_input option \<Rightarrow> bool" where
  "clears s \<longleftrightarrow> (case s of None \<Rightarrow> False | Some v \<Rightarrow> si_Clear v)"

definition writesSecret :: "secret_input option \<Rightarrow> bool" where
  "writesSecret s \<longleftrightarrow> supplies s \<or> clears s"

definition checkSecretIntent :: "watcher \<Rightarrow> watcher \<Rightarrow> bool \<Rightarrow> 'e watcher_error option" where
  "checkSecretIntent desired current create =
     (if list_ex (\<lambda>(d, c). create \<and> (case d of None \<Rightarrow> False | Some v \<Rightarrow> si_Preserve v)) (secretPairs desired current)
      then Some Preserve_on_create
      else if writesSecret (wn_URL (wt_Webhook desired)) \<and>
              list_ex (\<lambda>(d, c). c \<noteq> None \<and> \<not> writesSecret d) (drop 1 (secretPairs desired current))
      then Some Uncovered_secret
      else None)"

definition secretsChanged :: "watcher \<Rightarrow> watcher \<Rightarrow> bool" where
  "secretsChanged desired current \<longleftrightarrow>
     list_ex (\<lambda>(d, c). supplies d \<or> (clears d \<and> c \<noteq> None)) (secretPairs desired current)"

definition trim_line_ends :: "string \<Rightarrow> string" where
  "trim_line_ends s = rev (dropWhile (\<lambda>c. c \<in> {char_of (10 :: nat), char_of (13 :: nat)}) (rev s))"

definition resolveSecret ::
  "('w, 'e, 't) watcher_client \<Rightarrow> secret_input option \<Rightarrow> 'e watcher_error + string option" where
  "resolveSecret cl s =
     (case s of
        None \<Rightarrow> Inr None
      | Some v \<Rightarrow>
          if si_Preserve v then Inr None
          else if si_Clear v then Inr (Some [])
          else let value = (if si_FromEnv v \<noteq> [] then Some (wc_Getenv cl (si_FromEnv v))
                            else map_option trim_line_ends (wc_ReadFile cl (si_FromFile v))) in
            (case value of
               None \<Rightarrow> Inl Secret_file
             | Some [] \<Rightarrow> Inl Secret_empty
             | Some x \<Rightarrow> Inr (Some x)))"

definition secret_value ::
  "('w, 'e, 't) watcher_client \<Rightarrow> secret_input option \<Rightarrow> 'e watcher_error + string option" where
  "secret_value cl s = (if writesSecret s then resolveSecret cl s else Inr None)"

definition attachSecrets ::
  "('w, 'e, 't) watcher_client \<Rightarrow> 't configuration_request \<Rightarrow> watcher \<Rightarrow> watcher \<Rightarrow>
   'e watcher_error + 't configuration_request" where
  "attachSecrets cl request desired current =
     (let d = wt_Webhook desired in
      case secret_value cl (wn_URL d) of Inl e \<Rightarrow> Inl e | Inr url \<Rightarrow>
      (case secret_value cl (wn_BearerToken d) of Inl e \<Rightarrow> Inl e | Inr bearer \<Rightarrow>
      (case secret_value cl (wn_SigningSecret d) of Inl e \<Rightarrow> Inl e | Inr signing \<Rightarrow>
         if url = None \<and> bearer = None \<and> signing = None then Inr request
         else Inr (request\<lparr>cr_Webhook := (cr_Webhook request)
                \<lparr>ww_URL := url, ww_AuthorizationCredentials := bearer, ww_HMACSecret := signing,
                 ww_AuthorizationScheme := (if bearer \<noteq> None then Some ''Bearer'' else None)\<rparr>\<rparr>))))"

section \<open>Reconciliation\<close>

definition ReadManifest ::
  "'t time_lib \<Rightarrow> ('w, 'e, 't) watcher_client \<Rightarrow> 't raw_watcher \<Rightarrow> ('w, 't) watcher_world \<Rightarrow>
   ('e watcher_error + watcher) \<times> ('w, 't) watcher_world" where
  "ReadManifest lib cl raw s =
     (case client_Enrollment cl (rw_ID raw) s of
        (Inl e, s') \<Rightarrow> (Inl (Calibration_failed (rw_ID raw) e), s')
      | (Inr en, s') \<Rightarrow>
          (let manifest = WatcherFromResponse lib raw (en_Enabled en) in
           case Validate lib manifest of
             Some e \<Rightarrow> (Inl (Not_exportable (rw_ID raw) e), s')
           | None \<Rightarrow> (Inr manifest, s')))"

definition zero_watcher :: watcher where
  "zero_watcher =
     \<lparr>wt_Title = [], wt_Description = [], wt_Prompt = [], wt_DatasourceUIDs = [], wt_Interval = [], wt_Sensitivity = [],
      wt_SkipReviewOnCleanRuns = False, wt_AutoStop = \<lparr>st_Enabled = False, st_At = [], st_Archive = False\<rparr>, wt_Labels = [],
      wt_AutomaticRecalibration = False,
      wt_Slack = \<lparr>sl_Enabled = False, sl_TargetType = [], sl_ChannelID = [], sl_UserID = [], sl_TeamID = [], sl_Severity = []\<rparr>,
      wt_Teams = \<lparr>ch_Enabled = False, ch_ChannelID = [], ch_Severity = []\<rparr>,
      wt_Alerting = \<lparr>an_Enabled = False, an_Severity = [], an_RoutingTree = []\<rparr>,
      wt_Webhook = \<lparr>wn_Enabled = False, wn_Severity = [], wn_URL = None, wn_BearerToken = None, wn_SigningSecret = None\<rparr>,
      wt_Investigation = \<lparr>iv_Enabled = False, iv_TeamAccess = []\<rparr>, wt_mutation = no_mutation, wt_serverID = []\<rparr>"

definition saveConfiguration ::
  "'t time_lib \<Rightarrow> ('w, 'e, 't) watcher_client \<Rightarrow> watcher \<Rightarrow> watcher \<Rightarrow> string \<Rightarrow> ('w, 't) watcher_world \<Rightarrow>
   ('e watcher_error + 't raw_watcher) \<times> ('w, 't) watcher_world" where
  "saveConfiguration lib cl desired current ident s =
     (case attachSecrets cl (configurationRequest lib desired) desired current of
        Inl e \<Rightarrow> (Inl e, s)
      | Inr request \<Rightarrow>
          (case (if ident = [] then client_Create cl request s else client_Update cl ident request s) of
             (Inl e, s') \<Rightarrow> (Inl (Client_failed e), s')
           | (Inr raw, s') \<Rightarrow> (Inr raw, s')))"

text \<open>What is there: nothing for a creation, otherwise the Watcher and its enrollment.\<close>

definition read_current ::
  "'t time_lib \<Rightarrow> ('w, 'e, 't) watcher_client \<Rightarrow> string \<Rightarrow> ('w, 't) watcher_world \<Rightarrow>
   ('e watcher_error + watcher \<times> bool) \<times> ('w, 't) watcher_world" where
  "read_current lib cl ident s =
     (if ident = [] then (Inr (zero_watcher, False), s)
      else case client_Get cl ident s of
        (Inl e, s1) \<Rightarrow> (Inl (Client_failed e), s1)
      | (Inr raw, s1) \<Rightarrow>
          (case client_Enrollment cl ident s1 of
             (Inl e, s2) \<Rightarrow> (Inl (Client_failed e), s2)
           | (Inr en, s2) \<Rightarrow>
               (let unsupported = UnsupportedConfiguration raw @ Enrollment_Unsupported en in
                if unsupported \<noteq> [] then (Inl (Unrepresented unsupported), s2)
                else (Inr (WatcherFromResponse lib raw (en_Enabled en), en_Enabled en), s2))))"

definition routed_tree :: "watcher \<Rightarrow> watcher \<Rightarrow> watcher" where
  "routed_tree desired current =
     (let tree = an_RoutingTree (wt_Alerting desired) in
      if tree \<noteq> an_RoutingTree (wt_Alerting current)
      then desired\<lparr>wt_Alerting := (wt_Alerting desired)\<lparr>an_RoutingTree := canonicalRoutingTree tree\<rparr>\<rparr>
      else desired)"

definition set_outcome :: "(mutation_outcome \<Rightarrow> mutation_outcome) \<Rightarrow> watcher \<Rightarrow> watcher" where
  "set_outcome f w = w\<lparr>wt_mutation := f (wt_mutation w)\<rparr>"

text \<open>The stages after the configuration: the enrollment, then reading back.\<close>

definition reconcile_enrollment ::
  "('w, 'e, 't) watcher_client \<Rightarrow> watcher \<Rightarrow> bool \<Rightarrow> ('w, 't) watcher_world \<Rightarrow>
   ('e watcher_error + watcher) \<times> ('w, 't) watcher_world" where
  "reconcile_enrollment cl desired enrolled s =
     (if wt_AutomaticRecalibration desired \<noteq> enrolled
      then (case client_SetEnrollment cl (wt_serverID desired) (wt_AutomaticRecalibration desired) s of
              (Inl e, s') \<Rightarrow>
                (let failed = set_outcome (\<lambda>m. m\<lparr>mo_Enrollment := ''failed''\<rparr>) desired in
                 (Inl (if mo_Configuration (wt_mutation failed) = ''saved'' then Partial failed (Client_failed e)
                       else Client_failed e), s'))
            | (Inr en, s') \<Rightarrow> (Inr (set_outcome (\<lambda>m. m\<lparr>mo_Enrollment := ''saved'', mo_Changed := True\<rparr>) desired), s'))
      else (Inr desired, s))"

definition reconcile_readback ::
  "'t time_lib \<Rightarrow> ('w, 'e, 't) watcher_client \<Rightarrow> watcher \<Rightarrow> watcher \<Rightarrow> ('w, 't) watcher_world \<Rightarrow>
   ('e watcher_error + watcher) \<times> ('w, 't) watcher_world" where
  "reconcile_readback lib cl desired current s =
     (if \<not> mo_Changed (wt_mutation desired) then (Inr (current\<lparr>wt_mutation := wt_mutation desired\<rparr>), s)
      else let failed = set_outcome (\<lambda>m. m\<lparr>mo_Readback := ''failed''\<rparr>) desired in
        case client_Get cl (wt_serverID desired) s of
          (Inl e, s1) \<Rightarrow> (Inl (Partial failed (Client_failed e)), s1)
        | (Inr saved, s1) \<Rightarrow>
            (case ReadManifest lib cl saved s1 of
               (Inl e, s2) \<Rightarrow> (Inl (Partial failed e), s2)
             | (Inr observed, s2) \<Rightarrow>
                 (Inr (observed\<lparr>wt_mutation := (wt_mutation desired)\<lparr>mo_Readback := ''observed''\<rparr>\<rparr>), s2)))"

definition start_outcome :: mutation_outcome where
  "start_outcome =
     \<lparr>mo_Changed = False, mo_Configuration = ''unchanged'', mo_Enrollment = ''unchanged'', mo_Readback = ''not-required''\<rparr>"

definition reconcile_configuration ::
  "'t time_lib \<Rightarrow> ('w, 'e, 't) watcher_client \<Rightarrow> watcher \<Rightarrow> watcher \<Rightarrow> string \<Rightarrow> ('w, 't) watcher_world \<Rightarrow>
   ('e watcher_error + watcher) \<times> ('w, 't) watcher_world" where
  "reconcile_configuration lib cl desired current ident s =
     (let configChanged = (ident = [] \<or> \<not> DeepEqual (normalized lib desired) (normalized lib current));
          secretChanged = secretsChanged desired current;
          started = desired\<lparr>wt_serverID := ident, wt_mutation := start_outcome\<rparr>
      in if configChanged \<or> secretChanged
         then (case checkSecretIntent desired current (ident = []) of
                 Some e \<Rightarrow> (Inl e, s)
               | None \<Rightarrow>
                   (case saveConfiguration lib cl started current ident s of
                      (Inl e, s') \<Rightarrow> (Inl e, s')
                    | (Inr raw, s') \<Rightarrow>
                        (Inr (set_outcome (\<lambda>m. m\<lparr>mo_Changed := True, mo_Configuration := ''saved''\<rparr>)
                                (started\<lparr>wt_serverID := rw_ID raw\<rparr>)), s')))
         else (Inr started, s))"

definition reconcile ::
  "'t time_lib \<Rightarrow> ('w, 'e, 't) watcher_client \<Rightarrow> watcher \<Rightarrow> string \<Rightarrow> ('w, 't) watcher_world \<Rightarrow>
   ('e watcher_error + watcher) \<times> ('w, 't) watcher_world" where
  "reconcile lib cl desired ident s =
     (case Validate lib desired of
        Some e \<Rightarrow> (Inl (Invalid e), s)
      | None \<Rightarrow>
          (case read_current lib cl ident s of
             (Inl e, s1) \<Rightarrow> (Inl e, s1)
           | (Inr (current, enrolled), s1) \<Rightarrow>
               (case reconcile_configuration lib cl (routed_tree desired current) current ident s1 of
                  (Inl e, s2) \<Rightarrow> (Inl e, s2)
                | (Inr saved, s2) \<Rightarrow>
                    (case reconcile_enrollment cl saved enrolled s2 of
                       (Inl e, s3) \<Rightarrow> (Inl e, s3)
                     | (Inr written, s3) \<Rightarrow> reconcile_readback lib cl written current s3))))"

section \<open>Creating, updating and deleting\<close>

text \<open>The schedules \<open>cs\<close> and \<open>ds\<close> are the orders in which the index is ranged over, the first time and the second.\<close>

definition createConfiguration where
  "createConfiguration cs lib cl kept w s =
     (case Validate lib w of
        Some e \<Rightarrow> (Inl (Invalid e), s)
      | None \<Rightarrow>
          (case mutationIndex cl kept s of
             (Inl e, s') \<Rightarrow> (Inl e, s')
           | (Inr index, s') \<Rightarrow>
               (case selectUpsert cs index w True of
                  Inl e \<Rightarrow> (Inl e, s')
                | Inr c \<Rightarrow> reconcile lib cl w [] s')))"

definition updateConfiguration where
  "updateConfiguration cs ds lib cl kept ref w s =
     (case Validate lib w of
        Some e \<Rightarrow> (Inl (Invalid e), s)
      | None \<Rightarrow>
          (case mutationIndex cl kept s of
             (Inl e, s') \<Rightarrow> (Inl e, s')
           | (Inr index, s') \<Rightarrow>
               (case resolveIdentity cs (wc_IsServerID cl) index ref of
                  Inl e \<Rightarrow> (Inl e, s')
                | Inr target \<Rightarrow>
                    if wt_serverID w \<noteq> [] \<and> wt_serverID w \<noteq> cd_ID target then (Inl Conflicting_target, s')
                    else let desired = w\<lparr>wt_serverID := cd_ID target\<rparr> in
                      (case selectUpsert ds index desired False of
                         Inl e \<Rightarrow> (Inl e, s')
                       | Inr c \<Rightarrow> reconcile lib cl desired (cd_ID target) s'))))"

definition delete_by where
  "delete_by cl ident s =
     (case client_Delete cl ident s of (Inl e, s') \<Rightarrow> (Inl (Client_failed e), s') | (Inr u, s') \<Rightarrow> (Inr (), s'))"

definition deleteConfiguration where
  "deleteConfiguration cs cl kept ref s =
     (if wc_IsServerID cl ref then delete_by cl ref s
      else case mutationIndex cl kept s of
        (Inl e, s') \<Rightarrow> (Inl e, s')
      | (Inr index, s') \<Rightarrow>
          (case resolveIdentity cs (wc_IsServerID cl) index ref of
             Inl e \<Rightarrow> (Inl e, s')
           | Inr target \<Rightarrow> delete_by cl (cd_ID target) s'))"

definition adapter_Delete where
  "adapter_Delete cs cl kept ref dryRun s =
     (if blank_text ref then (Inl No_reference, s)
      else if dryRun then
        (case mutationIndex cl kept s of
           (Inl e, s') \<Rightarrow> (Inl e, s')
         | (Inr index, s') \<Rightarrow>
             (case resolveIdentity cs (wc_IsServerID cl) index ref of
                Inl e \<Rightarrow> (Inl e, s')
              | Inr c \<Rightarrow> (Inl (Unverified []), s')))
      else deleteConfiguration cs cl kept ref s)"

text \<open>The identifiers of an index are distinct, so the orders in which it is ranged over for each reference do not
  matter (\<open>resolveIdentity_order\<close>) and one stands for all. Manifests of a deletion give their annotated identifier and name; the result is the objects to delete, by
  identifier.\<close>

definition delete_manifest ::
  "nat list \<Rightarrow> (string \<Rightarrow> bool) \<Rightarrow> identity_index \<Rightarrow> string \<times> string \<Rightarrow> 'e watcher_error + candidate" where
  "delete_manifest cs isID index m =
     (case m of (ident, name) \<Rightarrow>
        (case resolveIdentity cs isID index (if ident \<noteq> [] then ident else name) of
           Inl e \<Rightarrow> Inl e
         | Inr target \<Rightarrow> if ident \<noteq> [] \<and> cd_ID target \<noteq> ident then Inl (Unknown_watcher ident) else Inr target))"

fun resolve_all :: "('x \<Rightarrow> 'e watcher_error + candidate) \<Rightarrow> 'x list \<Rightarrow> 'e watcher_error + candidate list" where
  "resolve_all f [] = Inr []"
| "resolve_all f (x # xs) =
     (case f x of
        Inl e \<Rightarrow> Inl e
      | Inr c \<Rightarrow> (case resolve_all f xs of Inl e \<Rightarrow> Inl e | Inr rest \<Rightarrow> Inr (c # rest)))"

datatype delete_selection = By_manifests "(string \<times> string) list" | Everything | By_references "string list"

definition SelectDelete where
  "SelectDelete cs cl sel s =
     (case IdentityIndex cl s of
        (Inl e, s') \<Rightarrow> (Inl e, s')
      | (Inr index, s') \<Rightarrow>
          (case (case sel of
                   By_manifests ms \<Rightarrow> resolve_all (delete_manifest cs (wc_IsServerID cl) index) ms
                 | Everything \<Rightarrow> Inr (candidatesFlat cs index)
                 | By_references refs \<Rightarrow> resolve_all (resolveIdentity cs (wc_IsServerID cl) index) refs) of
             Inl e \<Rightarrow> (Inl e, s')
           | Inr selected \<Rightarrow> (Inr (dedup_seen [] (map cd_ID selected)), s')))"

section \<open>What is read and sent\<close>

lemma observe_log:
  "observe call before after s = (r, s') \<Longrightarrow>
     vw_log s' = vw_log s @ before @ (case r of Inr a \<Rightarrow> after a | Inl e \<Rightarrow> [])"
  by (auto simp: observe_def split: prod.splits)

definition is_partial :: "'e watcher_error \<Rightarrow> bool" where
  "is_partial e \<longleftrightarrow> (case e of Partial w c \<Rightarrow> True | _ \<Rightarrow> False)"

lemma is_partial_simps [simp]:
  "is_partial (Partial w c)" "\<not> is_partial (Invalid v)" "\<not> is_partial (Client_failed x)" "\<not> is_partial (Index_failed x)"
  "\<not> is_partial Incomplete_identity" "\<not> is_partial (Unknown_watcher ref)" "\<not> is_partial (Ambiguous ref cands)"
  "\<not> is_partial (Title_taken cands)" "\<not> is_partial (Rename_occupied cands)" "\<not> is_partial Conflicting_target"
  "\<not> is_partial (Unrepresented us)" "\<not> is_partial Preserve_on_create" "\<not> is_partial Uncovered_secret"
  "\<not> is_partial Secret_file" "\<not> is_partial Secret_empty" "\<not> is_partial (Unverified us)"
  by (simp_all add: is_partial_def)

definition nothing_sent :: "'t watcher_event list \<Rightarrow> bool" where
  "nothing_sent log \<longleftrightarrow> list_all (\<lambda>ev. case ev of Read_watcher i raw \<Rightarrow> True | Read_enrollment i en \<Rightarrow> True | _ \<Rightarrow> False) log"

lemma nothing_sent_simps [simp]:
  "nothing_sent []" "nothing_sent (Read_watcher j raw # log) = nothing_sent log"
  "nothing_sent (Read_enrollment i en # log) = nothing_sent log"
  "nothing_sent (a @ b) \<longleftrightarrow> nothing_sent a \<and> nothing_sent b"
  by (simp_all add: nothing_sent_def)

lemma read_current_log:
  assumes "read_current lib cl ident s = (r, s')"
  obtains (failed) e new where "r = Inl e" "\<not> is_partial e" "vw_log s' = vw_log s @ new" "nothing_sent new"
  | (fresh) "ident = []" "r = Inr (zero_watcher, False)" "s' = s"
  | (found) raw en where "r = Inr (WatcherFromResponse lib raw (en_Enabled en), en_Enabled en)" "ident \<noteq> []"
      "vw_log s' = vw_log s @ [Read_watcher ident raw, Read_enrollment ident en]"
      "UnsupportedConfiguration raw = []" "Enrollment_Unsupported en = []"
proof (cases "ident = []")
  case True
  then show ?thesis using assms fresh by (simp add: read_current_def)
next
  case ident: False
  obtain g s1 where g: "client_Get cl ident s = (g, s1)" by fastforce
  note g_log = observe_log [OF g [unfolded client_Get_def]]
  show ?thesis
  proof (cases g)
    case (Inl x)
    then show ?thesis using assms ident g g_log failed [of "Client_failed x" "[]"] by (simp add: read_current_def)
  next
    case raw: (Inr raw)
    obtain h s2 where h: "client_Enrollment cl ident s1 = (h, s2)" by fastforce
    note h_log = observe_log [OF h [unfolded client_Enrollment_def]]
    show ?thesis
    proof (cases h)
      case (Inl x)
      then show ?thesis using assms ident g g_log raw h h_log failed [of "Client_failed x" "[Read_watcher ident raw]"]
        by (simp add: read_current_def)
    next
      case en: (Inr en)
      show ?thesis
      proof (cases "UnsupportedConfiguration raw @ Enrollment_Unsupported en = []")
        case True
        then show ?thesis using assms ident g g_log raw h h_log en found [of raw en] by (auto simp: read_current_def)
      next
        case False
        then show ?thesis using assms ident g g_log raw h h_log en
            failed [of "Unrepresented (UnsupportedConfiguration raw @ Enrollment_Unsupported en)" "[Read_watcher ident raw, Read_enrollment ident en]"]
          by (simp add: read_current_def Let_def)
      qed
    qed
  qed
qed

lemma set_outcome_simps [simp]:
  "wt_mutation (set_outcome f w) = f (wt_mutation w)" "wt_serverID (set_outcome f w) = wt_serverID w"
  by (simp_all add: set_outcome_def)

lemma secret_value_not_partial: "secret_value cl v = Inl e \<Longrightarrow> \<not> is_partial e"
  by (auto simp: secret_value_def resolveSecret_def Let_def split: if_splits option.splits list.splits)

lemma attachSecrets_not_partial: "attachSecrets cl req desired current = Inl e \<Longrightarrow> \<not> is_partial e"
  by (auto simp: attachSecrets_def Let_def split: if_splits sum.splits dest: secret_value_not_partial)

lemma checkSecretIntent_not_partial: "checkSecretIntent desired current create = Some e \<Longrightarrow> \<not> is_partial e"
  by (auto simp: checkSecretIntent_def split: if_splits)

definition save_target :: "string \<Rightarrow> string option" where
  "save_target ident = (if ident = [] then None else Some ident)"

lemma saveConfiguration_log:
  assumes "saveConfiguration lib cl desired current ident s = (r, s')"
  obtains (refused) e where "r = Inl e" "\<not> is_partial e" "vw_log s' = vw_log s"
  | (failed) req e where "attachSecrets cl (configurationRequest lib desired) desired current = (Inr req :: 'e watcher_error + 't configuration_request)"
      "r = Inl e" "\<not> is_partial e" "vw_log s' = vw_log s @ [Sent_save (save_target ident) req]"
  | (saved) req raw where "attachSecrets cl (configurationRequest lib desired) desired current = (Inr req :: 'e watcher_error + 't configuration_request)"
      "r = Inr raw" "vw_log s' = vw_log s @ [Sent_save (save_target ident) req, Saved (rw_ID raw)]"
proof (cases "attachSecrets cl (configurationRequest lib desired) desired current :: 'e watcher_error + 't configuration_request")
  case (Inl e)
  then show ?thesis using assms refused [of e] attachSecrets_not_partial [OF Inl] by (simp add: saveConfiguration_def)
next
  case req: (Inr req)
  obtain h s1 where h: "(if ident = [] then client_Create cl req s else client_Update cl ident req s) = (h, s1)" by fastforce
  then have log: "vw_log s1 = vw_log s @ Sent_save (save_target ident) req # (case h of Inr raw \<Rightarrow> [Saved (rw_ID raw)] | Inl e \<Rightarrow> [])"
    by (auto simp: client_Create_def client_Update_def save_target_def dest!: observe_log split: if_splits)
  show ?thesis
  proof (cases h)
    case (Inl x)
    then show ?thesis using assms req h log failed [of req "Client_failed x"] by (simp add: saveConfiguration_def)
  next
    case (Inr raw)
    then show ?thesis using assms req h log saved [of req raw] by (simp add: saveConfiguration_def)
  qed
qed


lemma reconcile_configuration_log:
  fixes r :: "'e watcher_error + watcher" and s :: "('w, 't) watcher_world"
  assumes "reconcile_configuration lib cl desired current ident s = (r, s')"
  obtains (unchanged) "r = Inr (desired\<lparr>wt_serverID := ident, wt_mutation := start_outcome\<rparr>)" "s' = s"
      "ident \<noteq> []" "DeepEqual (normalized lib desired) (normalized lib current)" "\<not> secretsChanged desired current"
  | (refused) e where "r = Inl e" "\<not> is_partial e" "vw_log s' = vw_log s"
  | (failed) req e where "checkSecretIntent desired current (ident = []) = (None :: 'e watcher_error option)"
      "attachSecrets cl (configurationRequest lib desired) desired current = (Inr req :: 'e watcher_error + 't configuration_request)"
      "r = Inl e" "\<not> is_partial e" "vw_log s' = vw_log s @ [Sent_save (save_target ident) req]"
  | (saved) req and raw :: "'t raw_watcher" where "checkSecretIntent desired current (ident = []) = (None :: 'e watcher_error option)"
      "attachSecrets cl (configurationRequest lib desired) desired current = (Inr req :: 'e watcher_error + 't configuration_request)"
      "r = Inr (desired\<lparr>wt_serverID := rw_ID raw,
                 wt_mutation := start_outcome\<lparr>mo_Changed := True, mo_Configuration := ''saved''\<rparr>\<rparr>)"
      "vw_log s' = vw_log s @ [Sent_save (save_target ident) req, Saved (rw_ID raw)]"
proof (cases "(ident = [] \<or> \<not> DeepEqual (normalized lib desired) (normalized lib current)) \<or> secretsChanged desired current")
  case False
  then show ?thesis using assms unchanged by (simp add: reconcile_configuration_def)
next
  case changed: True
  let ?started = "desired\<lparr>wt_serverID := ident, wt_mutation := start_outcome\<rparr>"
  have same: "configurationRequest lib ?started = configurationRequest lib desired"
    "attachSecrets cl req ?started current = attachSecrets cl req desired current" for req :: "'t configuration_request"
    by (simp_all add: configurationRequest_def attachSecrets_def)
  show ?thesis
  proof (cases "checkSecretIntent desired current (ident = []) :: 'e watcher_error option")
    case (Some e)
    then show ?thesis using assms changed refused [of e] checkSecretIntent_not_partial [OF Some]
      by (auto simp: reconcile_configuration_def)
  next
    case intent: None
    obtain h s1 where h: "saveConfiguration lib cl ?started current ident s = (h, s1)" by fastforce
    have r: "(case h of Inl e \<Rightarrow> (Inl e, s1)
                | Inr raw \<Rightarrow> (Inr (set_outcome (\<lambda>m. m\<lparr>mo_Changed := True, mo_Configuration := ''saved''\<rparr>)
                                     (?started\<lparr>wt_serverID := rw_ID raw\<rparr>)), s1)) = (r, s')"
      using assms changed intent h by (simp add: reconcile_configuration_def split: sum.split)
    show ?thesis
      using h
    proof (cases rule: saveConfiguration_log)
      case (refused e)
      then show ?thesis using r that(2) [of e] by auto
    next
      case (failed req e)
      then show ?thesis using r that(3) [of req e] intent same by auto
    next
      case (saved req raw)
      then show ?thesis using r that(4) [of req raw] intent same by (auto simp: set_outcome_def)
    qed
  qed
qed

lemma reconcile_enrollment_log:
  assumes "reconcile_enrollment cl w enrolled s = (r, s')"
  obtains (unchanged) "wt_AutomaticRecalibration w = enrolled" "r = Inr w" "s' = s"
  | (failed) e where "wt_AutomaticRecalibration w \<noteq> enrolled" "\<not> is_partial e"
      "r = Inl (if mo_Configuration (wt_mutation w) = ''saved''
                then Partial (set_outcome (\<lambda>m. m\<lparr>mo_Enrollment := ''failed''\<rparr>) w) e else e)"
      "vw_log s' = vw_log s @ [Sent_enrollment (wt_serverID w) (wt_AutomaticRecalibration w)]"
  | (enrolled) "wt_AutomaticRecalibration w \<noteq> enrolled"
      "r = Inr (set_outcome (\<lambda>m. m\<lparr>mo_Enrollment := ''saved'', mo_Changed := True\<rparr>) w)"
      "vw_log s' = vw_log s @ [Sent_enrollment (wt_serverID w) (wt_AutomaticRecalibration w),
                               Enrolled (wt_serverID w) (wt_AutomaticRecalibration w)]"
proof (cases "wt_AutomaticRecalibration w = enrolled")
  case True
  then show ?thesis using assms unchanged by (simp add: reconcile_enrollment_def)
next
  case False
  obtain h s1 where h: "client_SetEnrollment cl (wt_serverID w) (wt_AutomaticRecalibration w) s = (h, s1)" by fastforce
  note h_log = observe_log [OF h [unfolded client_SetEnrollment_def]]
  show ?thesis
  proof (cases h)
    case (Inl x)
    then show ?thesis using assms False h h_log failed [of "Client_failed x"]
      by (simp add: reconcile_enrollment_def Let_def)
  next
    case (Inr en)
    then show ?thesis using assms False h h_log enrolled by (auto simp: reconcile_enrollment_def)
  qed
qed

lemma ReadManifest_log:
  assumes "ReadManifest lib cl raw s = (r, s')"
  shows "\<exists>new. vw_log s' = vw_log s @ new \<and> nothing_sent new"
  using assms
  by (auto simp: ReadManifest_def client_Enrollment_def Let_def dest!: observe_log split: prod.splits sum.splits option.splits)

lemma reconcile_readback_log:
  assumes "reconcile_readback lib cl w current s = (r, s')"
  obtains (unchanged) "\<not> mo_Changed (wt_mutation w)" "r = Inr (current\<lparr>wt_mutation := wt_mutation w\<rparr>)" "s' = s"
  | (failed) e new where "mo_Changed (wt_mutation w)"
      "r = Inl (Partial (set_outcome (\<lambda>m. m\<lparr>mo_Readback := ''failed''\<rparr>) w) e)"
      "vw_log s' = vw_log s @ new" "nothing_sent new"
  | (observed) v new where "mo_Changed (wt_mutation w)"
      "r = Inr (v\<lparr>wt_mutation := (wt_mutation w)\<lparr>mo_Readback := ''observed''\<rparr>\<rparr>)"
      "vw_log s' = vw_log s @ new" "nothing_sent new"
proof (cases "mo_Changed (wt_mutation w)")
  case False
  then show ?thesis using assms unchanged by (simp add: reconcile_readback_def)
next
  case changed: True
  obtain h s1 where h: "client_Get cl (wt_serverID w) s = (h, s1)" by fastforce
  note h_log = observe_log [OF h [unfolded client_Get_def]]
  show ?thesis
  proof (cases h)
    case (Inl x)
    then show ?thesis using assms changed h h_log failed [of "Client_failed x" "[]"] by (simp add: reconcile_readback_def Let_def)
  next
    case raw: (Inr raw)
    obtain v s2 where v: "ReadManifest lib cl raw s1 = (v, s2)" by fastforce
    obtain new where "vw_log s2 = vw_log s1 @ new" "nothing_sent new" using ReadManifest_log [OF v] by blast
    then have log: "vw_log s2 = vw_log s @ Read_watcher (wt_serverID w) raw # new" "nothing_sent (Read_watcher (wt_serverID w) raw # new)"
      using h_log raw by simp_all
    show ?thesis
      using assms changed h raw v log failed [of _ "Read_watcher (wt_serverID w) raw # new"] observed [of _ "Read_watcher (wt_serverID w) raw # new"]
      by (cases v) (auto simp: reconcile_readback_def Let_def)
  qed
qed


section \<open>What an error says about what was saved\<close>

fun saved_ids :: "'t watcher_event list \<Rightarrow> string list" where
  "saved_ids [] = []"
| "saved_ids (Saved i # log) = i # saved_ids log"
| "saved_ids (ev # log) = saved_ids log"

fun enrolled_ids :: "'t watcher_event list \<Rightarrow> string list" where
  "enrolled_ids [] = []"
| "enrolled_ids (Enrolled i b # log) = i # enrolled_ids log"
| "enrolled_ids (ev # log) = enrolled_ids log"

text \<open>The outcome says exactly what was accepted.\<close>

definition outcome_tells :: "'t watcher_event list \<Rightarrow> mutation_outcome \<Rightarrow> bool" where
  "outcome_tells log m \<longleftrightarrow>
     mo_Configuration m = (if saved_ids log = [] then ''unchanged'' else ''saved'') \<and>
     (mo_Enrollment m = ''saved'' \<longleftrightarrow> enrolled_ids log \<noteq> []) \<and>
     (mo_Changed m \<longleftrightarrow> saved_ids log \<noteq> [] \<or> enrolled_ids log \<noteq> [])"

definition reported :: "string \<Rightarrow> 't watcher_event list \<Rightarrow> 'e watcher_error + watcher \<Rightarrow> bool" where
  "reported ident log r \<longleftrightarrow>
     (case r of
        Inr w \<Rightarrow> outcome_tells log (wt_mutation w)
      | Inl (Partial w e) \<Rightarrow>
          outcome_tells log (wt_mutation w) \<and> mo_Changed (wt_mutation w) \<and>
          wt_serverID w = (case saved_ids log of [] \<Rightarrow> ident | i # _ \<Rightarrow> i) \<and> set (enrolled_ids log) \<subseteq> {wt_serverID w}
      | Inl e \<Rightarrow> saved_ids log = [] \<and> enrolled_ids log = [])"

lemma saved_ids_append [simp]: "saved_ids (a @ b) = saved_ids a @ saved_ids b"
  by (induction a rule: saved_ids.induct) simp_all

lemma enrolled_ids_append [simp]: "enrolled_ids (a @ b) = enrolled_ids a @ enrolled_ids b"
  by (induction a rule: enrolled_ids.induct) simp_all

lemma nothing_saved [simp]: "nothing_sent log \<Longrightarrow> saved_ids log = []"
  by (induction log rule: saved_ids.induct) (simp_all add: nothing_sent_def)

lemma nothing_enrolled [simp]: "nothing_sent log \<Longrightarrow> enrolled_ids log = []"
  by (induction log rule: enrolled_ids.induct) (simp_all add: nothing_sent_def)

lemma reported_plain: "\<not> is_partial e \<Longrightarrow> reported ident log (Inl e) \<longleftrightarrow> saved_ids log = [] \<and> enrolled_ids log = []"
  by (cases e) (simp_all add: reported_def)

lemma reported_simps [simp]:
  "reported ident log (Inr w) \<longleftrightarrow> outcome_tells log (wt_mutation w)"
  "reported ident log (Inl (Partial w e)) \<longleftrightarrow>
     outcome_tells log (wt_mutation w) \<and> mo_Changed (wt_mutation w) \<and>
     wt_serverID w = (case saved_ids log of [] \<Rightarrow> ident | i # _ \<Rightarrow> i) \<and> set (enrolled_ids log) \<subseteq> {wt_serverID w}"
  by (simp_all add: reported_def)


lemma reported_enrollment:
  assumes e: "reconcile_enrollment cl w enrolled s = (r, s')" and m: "outcome_tells log (wt_mutation w)"
    and i: "wt_serverID w = (case saved_ids log of [] \<Rightarrow> ident | i # _ \<Rightarrow> i)" and n: "enrolled_ids log = []"
  obtains new where "vw_log s' = vw_log s @ new" "saved_ids new = []"
    "case r of Inl e \<Rightarrow> reported ident (log @ new) r
     | Inr v \<Rightarrow> outcome_tells (log @ new) (wt_mutation v) \<and> wt_serverID v = wt_serverID w \<and> set (enrolled_ids new) \<subseteq> {wt_serverID w}"
  using e
proof (cases rule: reconcile_enrollment_log)
  case unchanged
  then show ?thesis using m that [of "[]"] by simp
next
  case (failed e)
  then show ?thesis
    using m i n that [of "[Sent_enrollment (wt_serverID w) (wt_AutomaticRecalibration w)]"]
    by (auto simp: outcome_tells_def reported_plain)
next
  case enrolled
  then show ?thesis
    using m i n that [of "[Sent_enrollment (wt_serverID w) (wt_AutomaticRecalibration w), Enrolled (wt_serverID w) (wt_AutomaticRecalibration w)]"]
    by (auto simp: outcome_tells_def)
qed

lemma reported_readback:
  assumes "reconcile_readback lib cl w current s = (r, s')" and m: "outcome_tells log (wt_mutation w)"
    and i: "wt_serverID w = (case saved_ids log of [] \<Rightarrow> ident | i # _ \<Rightarrow> i)" and n: "set (enrolled_ids log) \<subseteq> {wt_serverID w}"
  obtains new where "vw_log s' = vw_log s @ new" "nothing_sent new" "reported ident (log @ new) r"
  using assms(1)
proof (cases rule: reconcile_readback_log)
  case unchanged
  then show ?thesis using m that [of "[]"] by simp
next
  case (failed e new)
  then show ?thesis using m i n that [of new] by (simp add: outcome_tells_def)
next
  case (observed v new)
  then show ?thesis using m that [of new] by (simp add: outcome_tells_def)
qed

lemma reported_rest:
  assumes c: "outcome_tells log (wt_mutation w)"
    and i: "wt_serverID w = (case saved_ids log of [] \<Rightarrow> ident | i # _ \<Rightarrow> i)" and n: "enrolled_ids log = []"
    and rest: "(case reconcile_enrollment cl w enrolled s of
                  (Inl e, s3) \<Rightarrow> (Inl e, s3)
                | (Inr written, s3) \<Rightarrow> reconcile_readback lib cl written current s3) = (r, s')"
  shows "\<exists>new. vw_log s' = vw_log s @ new \<and> reported ident (log @ new) r"
proof -
  obtain h s3 where h: "reconcile_enrollment cl w enrolled s = (h, s3)" by fastforce
  then obtain new where new: "vw_log s3 = vw_log s @ new" "saved_ids new = []"
    "case h of Inl e \<Rightarrow> reported ident (log @ new) h
     | Inr v \<Rightarrow> outcome_tells (log @ new) (wt_mutation v) \<and> wt_serverID v = wt_serverID w \<and> set (enrolled_ids new) \<subseteq> {wt_serverID w}"
    using reported_enrollment c i n by blast
  show ?thesis
  proof (cases h)
    case (Inl e)
    then show ?thesis using rest h new by auto
  next
    case (Inr v)
    then have "reconcile_readback lib cl v current s3 = (r, s')" using rest h by simp
    moreover have "outcome_tells (log @ new) (wt_mutation v)" "set (enrolled_ids (log @ new)) \<subseteq> {wt_serverID v}"
      "wt_serverID v = (case saved_ids (log @ new) of [] \<Rightarrow> ident | i # _ \<Rightarrow> i)"
      using new Inr i n by simp_all
    ultimately obtain more where "vw_log s' = vw_log s3 @ more" "reported ident ((log @ new) @ more) r"
      using reported_readback by blast
    then show ?thesis using new by auto
  qed
qed

lemma reported_configuration:
  assumes c: "reconcile_configuration lib cl desired current ident s = (r, s')"
  obtains new where "vw_log s' = vw_log s @ new" "enrolled_ids new = []"
    "case r of Inl e \<Rightarrow> reported ident new (Inl e)
     | Inr w \<Rightarrow> outcome_tells new (wt_mutation w) \<and> wt_serverID w = (case saved_ids new of [] \<Rightarrow> ident | i # _ \<Rightarrow> i)"
  using c
proof (cases rule: reconcile_configuration_log)
  case unchanged
  then show ?thesis using that [of "[]"] by (simp add: outcome_tells_def start_outcome_def)
next
  case (refused e)
  then show ?thesis using that [of "[]"] by (simp add: reported_plain)
next
  case (failed req e)
  then show ?thesis using that [of "[Sent_save (save_target ident) req]"] by (simp add: reported_plain)
next
  case (saved req raw)
  then show ?thesis using that [of "[Sent_save (save_target ident) req, Saved (rw_ID raw)]"]
    by (simp add: outcome_tells_def start_outcome_def)
qed

lemma reconcile_reported:
  assumes "reconcile lib cl desired ident s = (r, s')"
  shows "\<exists>new. vw_log s' = vw_log s @ new \<and> reported ident new r"
proof (cases "Validate lib desired")
  case (Some v)
  then show ?thesis using assms by (auto simp: reconcile_def reported_def)
next
  case valid: None
  obtain h s1 where h: "read_current lib cl ident s = (h, s1)" by fastforce
  obtain reads where reads: "vw_log s1 = vw_log s @ reads" "nothing_sent reads" "\<And>e. h = Inl e \<Longrightarrow> \<not> is_partial e"
    using h by (cases rule: read_current_log) auto
  show ?thesis
  proof (cases h)
    case (Inl e)
    then have "r = Inl e" "s' = s1" using assms valid h by (simp_all add: reconcile_def)
    then show ?thesis using reads Inl by (auto simp: reported_plain)
  next
    case (Inr found)
    obtain current enrolled where found: "found = (current, enrolled)" by fastforce
    obtain g s2 where g: "reconcile_configuration lib cl (routed_tree desired current) current ident s1 = (g, s2)" by fastforce
    then obtain new where new: "vw_log s2 = vw_log s1 @ new" "enrolled_ids new = []"
      "case g of Inl e \<Rightarrow> reported ident new (Inl e)
       | Inr w \<Rightarrow> outcome_tells new (wt_mutation w) \<and> wt_serverID w = (case saved_ids new of [] \<Rightarrow> ident | i # _ \<Rightarrow> i)"
      using reported_configuration by blast
    have "outcome_tells (reads @ log) = outcome_tells log" for log
      using reads(2) by (simp add: outcome_tells_def fun_eq_iff)
    then have later: "reported ident (reads @ log) x \<longleftrightarrow> reported ident log x" for log x
      using reads(2) by (simp add: reported_def split: sum.split watcher_error.split)
    show ?thesis
    proof (cases g)
      case (Inl e)
      then have "r = Inl e" "s' = s2" using assms valid h g Inr found by (simp_all add: reconcile_def)
      then show ?thesis using reads new Inl by (auto simp: later)
    next
      case w: (Inr w)
      have told: "outcome_tells new (wt_mutation w)" "wt_serverID w = (case saved_ids new of [] \<Rightarrow> ident | i # _ \<Rightarrow> i)"
        using new(3) w by simp_all
      have "(case reconcile_enrollment cl w enrolled s2 of
                  (Inl e, s3) \<Rightarrow> (Inl e, s3)
                | (Inr written, s3) \<Rightarrow> reconcile_readback lib cl written current s3) = (r, s')"
        using assms valid h g Inr found w by (simp add: reconcile_def)
      then obtain more where "vw_log s' = vw_log s2 @ more" "reported ident (new @ more) r"
        using reported_rest [OF told new(2)] by blast
      then show ?thesis using reads new by (auto simp: later)
    qed
  qed
qed


text \<open>
  C31. What a reconciliation answers agrees with what was accepted: a result and a partial failure name exactly the saved
  parts, a partial failure carries the identifier that was saved, and any other error means that nothing was.
\<close>

theorem reconcile_reports:
  "case reconcile lib cl desired ident s of (r, s') \<Rightarrow> \<exists>new. vw_log s' = vw_log s @ new \<and> reported ident new r"
  using reconcile_reported [of lib cl desired ident s] by (simp split: prod.split)

section \<open>What guards a request\<close>

text \<open>Writing the URL of a webhook covers the secrets that are saved with it.\<close>

definition covered :: "'t configuration_request \<Rightarrow> 't raw_watcher \<Rightarrow> bool" where
  "covered req raw \<longleftrightarrow>
     ww_URL (cr_Webhook req) = None \<or>
     (case Option.bind (rw_Webhook raw) wa_SecureFields of
        None \<Rightarrow> True
      | Some f \<Rightarrow> (sf_AuthorizationCredentials f \<longrightarrow> ww_AuthorizationCredentials (cr_Webhook req) \<noteq> None) \<and>
                  (sf_HMACSecret f \<longrightarrow> ww_HMACSecret (cr_Webhook req) \<noteq> None))"

text \<open>What was read before a request to the Watcher \<open>i\<close>: it and its enrollment, neither with a setting that a manifest
  cannot express.\<close>

definition read_before :: "string \<Rightarrow> 't watcher_event list \<Rightarrow> ('t raw_watcher \<times> bool) option" where
  "read_before i seen =
     (case seen of
        [Read_watcher h raw, Read_enrollment j en] \<Rightarrow>
          if h = i \<and> j = i \<and> UnsupportedConfiguration raw = [] \<and> Enrollment_Unsupported en = [] then Some (raw, en_Enabled en) else None
      | _ \<Rightarrow> None)"

text \<open>Whether a Watcher was enrolled before the requests: as it was read, or not at all where it is created.\<close>

fun enrolled_before :: "'t watcher_event list \<Rightarrow> bool option" where
  "enrolled_before (Read_watcher i raw # Read_enrollment j en # log) = Some (en_Enabled en)"
| "enrolled_before (Sent_save None req # log) = Some False"
| "enrolled_before log = None"

definition guarded_event :: "'t watcher_event list \<Rightarrow> 't watcher_event \<Rightarrow> bool" where
  "guarded_event seen ev \<longleftrightarrow>
     (case ev of
        Sent_save None req \<Rightarrow> seen = []
      | Sent_save (Some i) req \<Rightarrow> (case read_before i seen of None \<Rightarrow> False | Some (raw, enrolled) \<Rightarrow> covered req raw)
      | Sent_enrollment i b \<Rightarrow>
          enrolled_before seen = Some (\<not> b) \<and>
          (case saved_ids seen of j # _ \<Rightarrow> i = j | [] \<Rightarrow> read_before i seen \<noteq> None)
      | Removed i \<Rightarrow> False
      | _ \<Rightarrow> True)"

fun guarded_log :: "'t watcher_event list \<Rightarrow> 't watcher_event list \<Rightarrow> bool" where
  "guarded_log seen [] \<longleftrightarrow> True"
| "guarded_log seen (ev # log) \<longleftrightarrow> guarded_event seen ev \<and> guarded_log (seen @ [ev]) log"

lemma guarded_append [simp]: "guarded_log seen (a @ b) \<longleftrightarrow> guarded_log seen a \<and> guarded_log (seen @ a) b"
  by (induction a arbitrary: seen) auto

lemma guarded_reads [simp]: "nothing_sent log \<Longrightarrow> guarded_log seen log"
  by (induction log arbitrary: seen) (auto simp: nothing_sent_def guarded_event_def split: watcher_event.splits)

lemma secret_value_written:
  "secret_value cl v = Inr x \<Longrightarrow> (case v of Some u \<Rightarrow> secret_valid u | None \<Rightarrow> True) \<Longrightarrow> x \<noteq> None \<longleftrightarrow> writesSecret v"
  by (auto simp: secret_value_def resolveSecret_def writesSecret_def supplies_def clears_def secret_valid_def Let_def
      split: if_splits option.splits list.splits dest: blank_Nil)

lemma secrets_valid:
  assumes "Validate lib w = None"
  shows "case wn_URL (wt_Webhook w) of Some u \<Rightarrow> secret_valid u | None \<Rightarrow> True"
    "case wn_BearerToken (wt_Webhook w) of Some u \<Rightarrow> secret_valid u | None \<Rightarrow> True"
    "case wn_SigningSecret (wt_Webhook w) of Some u \<Rightarrow> secret_valid u | None \<Rightarrow> True"
  using assms unfolding Validate_None watcher_checks_def Let_def
  by (simp_all split: option.splits)


lemma attachSecrets_values:
  assumes a: "attachSecrets cl q w c = Inr req"
    and q: "ww_URL (cr_Webhook q) = None" "ww_AuthorizationCredentials (cr_Webhook q) = None" "ww_HMACSecret (cr_Webhook q) = None"
  shows "secret_value cl (wn_URL (wt_Webhook w)) = Inr (ww_URL (cr_Webhook req))"
    "secret_value cl (wn_BearerToken (wt_Webhook w)) = Inr (ww_AuthorizationCredentials (cr_Webhook req))"
    "secret_value cl (wn_SigningSecret (wt_Webhook w)) = Inr (ww_HMACSecret (cr_Webhook req))"
proof -
  obtain url bearer signing where v: "secret_value cl (wn_URL (wt_Webhook w)) = Inr url"
    "secret_value cl (wn_BearerToken (wt_Webhook w)) = Inr bearer" "secret_value cl (wn_SigningSecret (wt_Webhook w)) = Inr signing"
    using a by (auto simp: attachSecrets_def Let_def split: sum.splits)
  then have "ww_URL (cr_Webhook req) = url \<and> ww_AuthorizationCredentials (cr_Webhook req) = bearer \<and>
      ww_HMACSecret (cr_Webhook req) = signing"
  proof (cases "url = None \<and> bearer = None \<and> signing = None")
    case True
    then have "req = q" using a v by (simp add: attachSecrets_def)
    then show ?thesis using q True by simp
  next
    case False
    then have "q\<lparr>cr_Webhook := (cr_Webhook q)
                \<lparr>ww_URL := url, ww_AuthorizationCredentials := bearer, ww_HMACSecret := signing,
                 ww_AuthorizationScheme := (if bearer \<noteq> None then Some ''Bearer'' else None)\<rparr>\<rparr> = req"
      using a v unfolding attachSecrets_def Let_def by (simp only: sum.case if_False sum.inject)
    then show ?thesis by auto
  qed
  then show "secret_value cl (wn_URL (wt_Webhook w)) = Inr (ww_URL (cr_Webhook req))"
    "secret_value cl (wn_BearerToken (wt_Webhook w)) = Inr (ww_AuthorizationCredentials (cr_Webhook req))"
    "secret_value cl (wn_SigningSecret (wt_Webhook w)) = Inr (ww_HMACSecret (cr_Webhook req))"
    using v by simp_all
qed

lemma intent_covers:
  assumes "checkSecretIntent w c False = (None :: 'e watcher_error option)" and "writesSecret (wn_URL (wt_Webhook w))"
  shows "wn_BearerToken (wt_Webhook c) \<noteq> None \<Longrightarrow> writesSecret (wn_BearerToken (wt_Webhook w))"
    "wn_SigningSecret (wt_Webhook c) \<noteq> None \<Longrightarrow> writesSecret (wn_SigningSecret (wt_Webhook w))"
  using assms by (auto simp: checkSecretIntent_def secretPairs_def Let_def split: if_splits)

lemma current_secrets:
  assumes "Option.bind (rw_Webhook raw) wa_SecureFields = Some f"
  shows "wn_BearerToken (wt_Webhook (WatcherFromResponse lib raw e)) = preserveMarker (sf_AuthorizationCredentials f)"
    "wn_SigningSecret (wt_Webhook (WatcherFromResponse lib raw e)) = preserveMarker (sf_HMACSecret f)"
  using assms by (cases "rw_Webhook raw"; simp add: WatcherFromResponse_def webhookFromResponse_def)+

lemma attachSecrets_covers:
  assumes a: "attachSecrets cl (configurationRequest lib w) w (WatcherFromResponse lib raw e) =
      (Inr req :: 'e watcher_error + 't configuration_request)"
    and valid: "Validate lib w = None"
    and intent: "checkSecretIntent w (WatcherFromResponse lib raw e) False = (None :: 'e watcher_error option)"
  shows "covered req raw"
proof (cases "Option.bind (rw_Webhook raw) wa_SecureFields")
  case None
  then show ?thesis by (simp add: covered_def)
next
  case (Some f)
  have "ww_URL (cr_Webhook (configurationRequest lib w)) = None"
    "ww_AuthorizationCredentials (cr_Webhook (configurationRequest lib w)) = None"
    "ww_HMACSecret (cr_Webhook (configurationRequest lib w)) = None"
    by (simp_all add: configurationRequest_def)
  note v = attachSecrets_values [OF a this]
  note written = secret_value_written [OF v(1) secrets_valid(1) [OF valid]] secret_value_written [OF v(2) secrets_valid(2) [OF valid]]
    secret_value_written [OF v(3) secrets_valid(3) [OF valid]]
  note c = current_secrets [OF Some, of lib e]
  show ?thesis
  proof (cases "writesSecret (wn_URL (wt_Webhook w))")
    case False
    then show ?thesis using written(1) by (simp add: covered_def)
  next
    case True
    note i = intent_covers [OF intent True]
    have "sf_AuthorizationCredentials f \<Longrightarrow> ww_AuthorizationCredentials (cr_Webhook req) \<noteq> None"
      using i(1) c(1) written(2) by (simp add: preserveMarker_def)
    moreover have "sf_HMACSecret f \<Longrightarrow> ww_HMACSecret (cr_Webhook req) \<noteq> None"
      using i(2) c(2) written(3) by (simp add: preserveMarker_def)
    ultimately show ?thesis using Some by (simp add: covered_def)
  qed
qed

lemma Validate_routed: "Validate lib (routed_tree w c) = Validate lib w"
proof -
  have "watcher_checks lib (w\<lparr>wt_Alerting := (wt_Alerting w)\<lparr>an_RoutingTree := t\<rparr>\<rparr>) = watcher_checks lib w" for t
    unfolding watcher_checks_def Let_def by simp
  then show ?thesis by (simp add: routed_tree_def Let_def Validate_def)
qed

lemma guarded_enrollment:
  assumes e: "reconcile_enrollment cl w enrolled s = (r, s')" and "guarded_log [] log"
    and i: "case saved_ids log of j # _ \<Rightarrow> wt_serverID w = j | [] \<Rightarrow> read_before (wt_serverID w) log \<noteq> None"
    and before: "enrolled_before log = Some enrolled"
  obtains new where "vw_log s' = vw_log s @ new" "guarded_log [] (log @ new)"
  using e
proof (cases rule: reconcile_enrollment_log)
  case unchanged
  then show ?thesis using assms(2) that [of "[]"] by simp
next
  case (failed e)
  then show ?thesis
    using assms(2) i before that [of "[Sent_enrollment (wt_serverID w) (wt_AutomaticRecalibration w)]"]
    by (auto simp: guarded_event_def split: list.splits option.splits)
next
  case enrolled
  then show ?thesis
    using assms(2) i before that [of "[Sent_enrollment (wt_serverID w) (wt_AutomaticRecalibration w), Enrolled (wt_serverID w) (wt_AutomaticRecalibration w)]"]
    by (auto simp: guarded_event_def split: list.splits option.splits)
qed

lemma guarded_configuration:
  fixes s :: "('w, 't) watcher_world" and r :: "'e watcher_error + watcher"
  assumes c: "reconcile_configuration lib cl w current ident s = (r, s')" and valid: "Validate lib w = None"
    and seen: "ident = [] \<and> reads = [] \<or> ident \<noteq> [] \<and> read_before ident reads = Some (raw, enrolled) \<and>
               current = WatcherFromResponse lib raw enrolled"
  obtains new where "vw_log s' = vw_log s @ new" "guarded_log reads new"
    "\<And>v. r = Inr v \<Longrightarrow> new = [] \<and> wt_serverID v = ident \<and> ident \<noteq> [] \<or>
       (\<exists>req. new = [Sent_save (save_target ident) req, Saved (wt_serverID v)])"
proof -
  have sent: "guarded_event reads (Sent_save (save_target ident) req)"
    if "checkSecretIntent w current (ident = []) = (None :: 'e watcher_error option)"
      "attachSecrets cl (configurationRequest lib w) w current = (Inr req :: 'e watcher_error + 't configuration_request)" for req
    using seen attachSecrets_covers [of cl lib w raw enrolled req] that valid
    by (auto simp: guarded_event_def save_target_def)
  show ?thesis
    using c
  proof (cases rule: reconcile_configuration_log)
    case unchanged
    then show ?thesis using that [of "[]"] by simp
  next
    case (refused e)
    then show ?thesis using that [of "[]"] by simp
  next
    case (failed req e)
    then show ?thesis using sent [of req] that [of "[Sent_save (save_target ident) req]"] by simp
  next
    case (saved req raw')
    then show ?thesis using sent [of req] that [of "[Sent_save (save_target ident) req, Saved (rw_ID raw')]"]
      by (simp add: guarded_event_def)
  qed
qed

lemma guarded_reconcile:
  assumes "reconcile lib cl desired ident s = (r, s')"
  shows "\<exists>new. vw_log s' = vw_log s @ new \<and> guarded_log [] new"
proof (cases "Validate lib desired")
  case (Some v)
  then show ?thesis using assms by (auto simp: reconcile_def)
next
  case valid: None
  obtain h s1 where h: "read_current lib cl ident s = (h, s1)" by fastforce
  show ?thesis
  proof (cases h)
    case (Inl e)
    obtain reads where "vw_log s1 = vw_log s @ reads" "nothing_sent reads"
      using h Inl by (cases rule: read_current_log) auto
    moreover have "s' = s1" using assms valid h Inl by (simp add: reconcile_def)
    ultimately show ?thesis by auto
  next
    case (Inr found)
    obtain current enrolled where found: "found = (current, enrolled)" by fastforce
    obtain reads raw where reads: "vw_log s1 = vw_log s @ reads" "nothing_sent reads"
      "ident = [] \<and> reads = [] \<or> ident \<noteq> [] \<and> read_before ident reads = Some (raw, enrolled) \<and>
               current = WatcherFromResponse lib raw enrolled"
      "reads = [] \<and> ident = [] \<and> \<not> enrolled \<or> (\<forall>more. enrolled_before (reads @ more) = Some enrolled)"
      using h Inr found by (cases rule: read_current_log) (auto simp: read_before_def)
    obtain g s2 where g: "reconcile_configuration lib cl (routed_tree desired current) current ident s1 = (g, s2)" by fastforce
    obtain new where new: "vw_log s2 = vw_log s1 @ new" "guarded_log reads new"
      "\<And>v. g = Inr v \<Longrightarrow> new = [] \<and> wt_serverID v = ident \<and> ident \<noteq> [] \<or>
         (\<exists>req. new = [Sent_save (save_target ident) req, Saved (wt_serverID v)])"
      using guarded_configuration [OF g _ reads(3)] valid Validate_routed by metis
    have all: "guarded_log [] (reads @ new)" using reads(2) new(2) by simp
    show ?thesis
    proof (cases g)
      case (Inl e)
      then have "s' = s2" using assms valid h g Inr found by (simp add: reconcile_def)
      then show ?thesis using reads(1) new(1) all by auto
    next
      case w: (Inr w)
      obtain k s3 where k: "reconcile_enrollment cl w enrolled s2 = (k, s3)" by fastforce
      have "case saved_ids (reads @ new) of j # _ \<Rightarrow> wt_serverID w = j | [] \<Rightarrow> read_before (wt_serverID w) (reads @ new) \<noteq> None"
        using new(3) [OF w] reads(2,3) by auto
      moreover have "enrolled_before (reads @ new) = Some enrolled"
        using new(3) [OF w] reads(4) by (auto simp: save_target_def)
      ultimately obtain more where more: "vw_log s3 = vw_log s2 @ more" "guarded_log [] ((reads @ new) @ more)"
        using guarded_enrollment [OF k all] by blast
      have "\<exists>last. vw_log s' = vw_log s3 @ last \<and> nothing_sent last"
      proof (cases k)
        case (Inl e)
        then show ?thesis using assms valid h g Inr found w k by (auto simp: reconcile_def)
      next
        case (Inr v)
        then have "reconcile_readback lib cl v current s3 = (r, s')"
          using assms valid h g \<open>h = Inr found\<close> found w k by (simp add: reconcile_def)
        then show ?thesis by (cases rule: reconcile_readback_log) auto
      qed
      then obtain last where "vw_log s' = vw_log s3 @ last" "nothing_sent last" by blast
      then show ?thesis using reads(1) new(1) more by (intro exI [of _ "reads @ new @ more @ last"]) simp
    qed
  qed
qed


text \<open>All requests of a reconciliation save the one Watcher it is for, or create one.\<close>

definition sends_to :: "string \<Rightarrow> 't watcher_event list \<Rightarrow> bool" where
  "sends_to ident log \<longleftrightarrow> list_all (\<lambda>ev. case ev of Sent_save t req \<Rightarrow> t = save_target ident | _ \<Rightarrow> True) log"

lemma sends_to_simps [simp]:
  "sends_to ident []" "sends_to ident (Read_watcher j raw # log) = sends_to ident log"
  "sends_to ident (Read_enrollment j en # log) = sends_to ident log" "sends_to ident (Sent_save t req # log) \<longleftrightarrow> t = save_target ident \<and> sends_to ident log"
  "sends_to ident (Saved i # log) = sends_to ident log" "sends_to ident (Sent_enrollment i b # log) = sends_to ident log"
  "sends_to ident (Enrolled i b # log) = sends_to ident log" "sends_to ident (log @ log2) \<longleftrightarrow> sends_to ident log \<and> sends_to ident log2"
  by (simp_all add: sends_to_def)

lemma nothing_sends_to [simp]: "nothing_sent log \<Longrightarrow> sends_to ident log"
  by (auto simp: nothing_sent_def sends_to_def list_all_iff split: watcher_event.splits)

lemma reconcile_sends_to:
  assumes "reconcile lib cl desired ident s = (r, s')"
  shows "\<exists>new. vw_log s' = vw_log s @ new \<and> sends_to ident new"
proof -
  obtain h s1 where h: "read_current lib cl ident s = (h, s1)" by fastforce
  then obtain l1 where l1: "vw_log s1 = vw_log s @ l1" "sends_to ident l1"
    by (cases rule: read_current_log) auto
  obtain current enrolled where "projr h = (current, enrolled)" by fastforce
  then have found: "h = Inr x \<Longrightarrow> x = (current, enrolled)" for x by auto
  obtain g s2 where g: "reconcile_configuration lib cl (routed_tree desired current) current ident s1 = (g, s2)" by fastforce
  then obtain l2 where l2: "vw_log s2 = vw_log s1 @ l2" "sends_to ident l2"
    by (cases rule: reconcile_configuration_log) auto
  obtain k s3 where k: "reconcile_enrollment cl (projr g) enrolled s2 = (k, s3)" by fastforce
  then obtain l3 where l3: "vw_log s3 = vw_log s2 @ l3" "sends_to ident l3"
    by (cases rule: reconcile_enrollment_log) auto
  obtain q s4 where q: "reconcile_readback lib cl (projr k) current s3 = (q, s4)" by fastforce
  then obtain l4 where l4: "vw_log s4 = vw_log s3 @ l4" "sends_to ident l4"
    by (cases rule: reconcile_readback_log) auto
  show ?thesis
  proof (cases "Validate lib desired")
    case (Some v)
    then show ?thesis using assms by (auto simp: reconcile_def)
  next
    case None
    then have "s' = s1 \<or> s' = s2 \<or> s' = s3 \<or> s' = s4"
      using assms h found g k q by (auto simp: reconcile_def split: sum.splits)
    then show ?thesis using l1 l2 l3 l4 by (elim disjE) auto
  qed
qed

section \<open>Identities are told apart\<close>

definition index_ids :: "identity_index \<Rightarrow> string list" where
  "index_ids index = map cd_ID (concat (map snd index))"

definition index_keyed :: "identity_index \<Rightarrow> bool" where
  "index_keyed index \<longleftrightarrow> (\<forall>(name, cands) \<in> set index. \<forall>c \<in> set cands. cd_Name c = name \<and> SlugifyName (cd_Title c) = name \<and> cd_ID c \<noteq> [])"

lemma set_update_subset: "set (AList.update k v m) \<subseteq> insert (k, v) (set m)"
  by (induction m) auto

lemma index_keyed_append_to:
  assumes "index_keyed index" and "cd_Name c = k" and "SlugifyName (cd_Title c) = k" and "cd_ID c \<noteq> []"
  shows "index_keyed (append_to k c index)"
proof -
  have "cd_Name d = k \<and> SlugifyName (cd_Title d) = k \<and> cd_ID d \<noteq> []" if "d \<in> set (bucket index k @ [c])" for d
    using that assms by (auto simp: index_keyed_def dest!: in_bucketD)
  then show ?thesis
    using assms(1) set_update_subset [of k "bucket index k @ [c]" index] unfolding index_keyed_def append_to_def by blast
qed

lemma ids_append_to: "mset (index_ids (append_to k c index)) = add_mset (cd_ID c) (mset (index_ids index))"
proof -
  have "mset (concat (map snd (AList.update k (vs @ [c]) index))) = add_mset c (mset (concat (map snd index)))"
    if "map_of index k = Some vs" for vs
    using that by (induction index) (auto split: if_splits)
  moreover have "mset (concat (map snd (AList.update k [c] index))) = add_mset c (mset (concat (map snd index)))"
    if "map_of index k = None"
    using that by (simp add: update_absent)
  ultimately have "mset (concat (map snd (append_to k c index))) = add_mset c (mset (concat (map snd index)))"
    by (cases "map_of index k") (auto simp: append_to_def bucket_def)
  then show ?thesis by (simp only: index_ids_def mset_map image_mset_add_mset)
qed

lemma index_items_inv:
  assumes "index_items items (seen, index) = Some acc" and "mset (index_ids index) = mset seen" and "distinct seen" and "index_keyed index"
  shows "mset (index_ids (snd acc)) = mset (fst acc) \<and> distinct (fst acc) \<and> index_keyed (snd acc)"
  using assms
proof (induction items arbitrary: seen index)
  case (Cons item items)
  then show ?case
  proof (cases "rw_ID item \<in> set seen")
    case False
    let ?c = "\<lparr>cd_ID = rw_ID item, cd_Title = rw_Name item, cd_Name = SlugifyName (rw_Name item)\<rparr>"
    have ok: "\<not> blank_text (rw_ID item)" using Cons.prems(1) by (simp split: if_splits)
    then have "rw_ID item \<noteq> []" by (auto simp: blank_text_def)
    then have "index_keyed (append_to (SlugifyName (rw_Name item)) ?c index)"
      using Cons.prems(4) by (intro index_keyed_append_to) simp_all
    then show ?thesis
      using Cons.IH [of "seen @ [rw_ID item]" "append_to (SlugifyName (rw_Name item)) ?c index"] Cons.prems False
      by (simp add: ids_append_to Let_def split: if_splits)
  qed (auto split: if_splits)
qed auto

lemma index_partitions_inv:
  assumes "index_partitions cl ps (seen, index) s = (Inr index', s')" and "mset (index_ids index) = mset seen" and "distinct seen"
    and "index_keyed index"
  shows "distinct (index_ids index') \<and> index_keyed index'"
  using assms
proof (induction ps arbitrary: seen index s)
  case Nil
  then show ?case by (simp, metis mset_eq_imp_distinct_iff)
next
  case (Cons a ps)
  then obtain items s1 acc where "client_ListAll cl a s = (Inr items, s1)" and acc: "index_items items (seen, index) = Some acc"
    "index_partitions cl ps acc s1 = (Inr index', s')"
    by (auto split: prod.splits sum.splits option.splits)
  then show ?case using Cons.IH [of "fst acc" "snd acc" s1] index_items_inv [OF acc(1) Cons.prems(2,3,4)] by simp
qed

lemma IdentityIndex_distinct:
  "IdentityIndex cl s = (Inr index, s') \<Longrightarrow> distinct (index_ids index) \<and> index_keyed index"
  unfolding IdentityIndex_def
  by (erule index_partitions_inv) (simp_all add: index_ids_def index_keyed_def)

lemma set_candidatesFlat [simp]: "set (candidatesFlat cs index) = \<Union> (set ` snd ` set index)"
  by (auto simp: candidatesFlat_def)

lemma resolveIdentity_order:
  assumes "distinct (index_ids index)"
  shows "resolveIdentity cs isID index ref = resolveIdentity ds isID index ref"
proof -
  have concat_parts: "mset (concat xss) = \<Sum>\<^sub># (image_mset mset (mset xss))" for xss :: "candidate list list"
    by (induction xss) simp_all
  have ids: "distinct (map cd_ID (candidatesFlat es index))" for es
  proof -
    have "mset (concat (map snd (go_range es index))) = mset (concat (map snd index))"
      by (simp only: concat_parts mset_map mset_go_range)
    then have "mset (map cd_ID (candidatesFlat es index)) = mset (index_ids index)"
      by (simp add: candidatesFlat_def index_ids_def)
    then show ?thesis using assms mset_eq_imp_distinct_iff by blast
  qed
  have find: "find (\<lambda>c. cd_ID c = ref) (candidatesFlat es index) = Some c \<longleftrightarrow> c \<in> set (candidatesFlat es index) \<and> cd_ID c = ref"
    for es c
  proof -
    have "find (\<lambda>c. cd_ID c = ref) xs = Some c \<longleftrightarrow> c \<in> set xs \<and> cd_ID c = ref" if "distinct (map cd_ID xs)" for xs
      using that by (induction xs) auto
    then show ?thesis using ids by blast
  qed
  have "find (\<lambda>c. cd_ID c = ref) (candidatesFlat cs index) = find (\<lambda>c. cd_ID c = ref) (candidatesFlat ds index)"
    using find [of cs] find [of ds] by (metis option.exhaust set_candidatesFlat)
  then show ?thesis by (simp add: resolveIdentity_def)
qed

section \<open>Applying a manifest again\<close>

lemma same_map_sym: "same_map a b \<longleftrightarrow> same_map b a"
  by (auto simp: same_map_iff)

lemma DeepEqual_sym: "DeepEqual a b \<longleftrightarrow> DeepEqual b a"
  unfolding DeepEqual_def using same_map_sym by metis

lemma reflected_tree:
  "reflects lib (configurationRequest lib w) raw \<Longrightarrow>
     an_RoutingTree (wt_Alerting (WatcherFromResponse lib raw e)) = an_RoutingTree (wt_Alerting w)"
  by (auto simp: reflects_def configurationRequest_def WatcherFromResponse_def alertingFromResponse_def Let_def split: option.splits)

lemma routed_tree_again:
  assumes "reflects lib (configurationRequest lib (routed_tree w old)) raw"
  shows "routed_tree w (WatcherFromResponse lib raw e) = routed_tree w old"
  using reflected_tree [OF assms, of e]
  by (auto simp: routed_tree_def Let_def)


section \<open>Samples\<close>

text \<open>Durations written in unary, and one instant.\<close>

definition unary_time :: "unit time_lib" where
  "unary_time =
     \<lparr>tl_parse_duration = (\<lambda>s. Some (int (length s) * go_second)), tl_seconds_string = (\<lambda>n. replicate (nat n) CHR ''s''),
      tl_parse = (\<lambda>s. Some ()), tl_zero = (), tl_utc = (\<lambda>t. t), tl_format = (\<lambda>t. ''now'')\<rparr>"

lemma unary_time_laws: "time_laws unary_time"
  by (simp add: time_laws_def unary_time_def)

definition sample_watcher :: watcher where
  "sample_watcher =
     zero_watcher\<lparr>wt_Title := ''w'', wt_Prompt := ''p'', wt_Interval := replicate 300 CHR ''s'', wt_Sensitivity := ''balanced'',
       wt_Slack := \<lparr>sl_Enabled = True, sl_TargetType = ''channel'', sl_ChannelID = ''c'', sl_UserID = [], sl_TeamID = [], sl_Severity = ''critical''\<rparr>,
       wt_Teams := \<lparr>ch_Enabled = False, ch_ChannelID = [], ch_Severity = ''critical''\<rparr>,
       wt_Alerting := \<lparr>an_Enabled = True, an_Severity = ''critical'', an_RoutingTree = ''default''\<rparr>,
       wt_Webhook := \<lparr>wn_Enabled = False, wn_Severity = ''critical'', wn_URL = None, wn_BearerToken = None, wn_SigningSecret = None\<rparr>\<rparr>"

definition sample_raw_watcher :: "unit raw_watcher" where
  "sample_raw_watcher =
     \<lparr>rw_ID = ''1'', rw_Name = ''w'', rw_Description = [], rw_Prompt = ''p'', rw_TriggerIntervalSeconds = 300,
      rw_Sensitivity = ''balanced'', rw_DisableDecisionSkip = True, rw_DatasourceUIDs = [], rw_Labels = [], rw_AutoStop = None,
      rw_Slack = Some (slack_request (wt_Slack sample_watcher)), rw_MSTeams = Some (channel_request (wt_Teams sample_watcher)),
      rw_Webhook = Some \<lparr>wa_Enabled = False, wa_MinSeverity = ''critical'', wa_SecureFields = None, wa_AuthorizationScheme = [], wa_unsupported = []\<rparr>,
      rw_Alerting = Some \<lparr>aa_Enabled = True, aa_MinSeverity = ''critical'', aa_RoutingTree = Some [], aa_unsupported = []\<rparr>,
      rw_Investigation = Some \<lparr>ia_Enabled = False, ia_TeamNames = [], ia_unsupported = []\<rparr>, rw_unsupported = []\<rparr>"

definition sample_enrollment :: enrollment where
  "sample_enrollment = \<lparr>en_Enabled = False, en_ScheduleCron = [], en_ScheduleTimezone = [], en_unsupported = []\<rparr>"

text \<open>A server with one Watcher.\<close>

definition sample_client :: "(unit, unit, unit) watcher_client" where
  "sample_client =
     \<lparr>wc_ListAll = (\<lambda>archived w. (Inr (if archived then [] else [sample_raw_watcher]), w)),
      wc_Get = (\<lambda>ident w. (Inr sample_raw_watcher, w)), wc_Enrollment = (\<lambda>ident w. (Inr sample_enrollment, w)),
      wc_Create = (\<lambda>req w. (Inr sample_raw_watcher, w)), wc_Update = (\<lambda>ident req w. (Inr sample_raw_watcher, w)),
      wc_SetEnrollment = (\<lambda>ident b w. (Inr sample_enrollment, w)), wc_Delete = (\<lambda>ident w. (Inr (), w)),
      wc_IsServerID = (\<lambda>ref. ref = ''1''), wc_Getenv = (\<lambda>name. []), wc_ReadFile = (\<lambda>path. None)\<rparr>"

definition sample_world :: "(unit, unit) watcher_world" where
  "sample_world = \<lparr>vw_state = (), vw_log = []\<rparr>"

lemma printable_not_blank: "s \<noteq> [] \<Longrightarrow> printable (hd s) \<Longrightarrow> printable (last s) \<Longrightarrow> \<not> blank_text s"
  by (simp add: blank_text_def go_trim_space_printable)

lemma blank_sample:
  "\<not> blank_text ''w''" "\<not> blank_text ''p''" "\<not> blank_text ''balanced''" "\<not> blank_text ''channel''"
  "\<not> blank_text ''critical''" "\<not> blank_text ''c''" "\<not> blank_text ''1''"
proof -
  have "printable CHR ''w''" "printable CHR ''p''" "printable CHR ''b''" "printable CHR ''d''" "printable CHR ''c''"
    "printable CHR ''l''" "printable CHR ''1''" by code_simp+
  then show "\<not> blank_text ''w''" "\<not> blank_text ''p''" "\<not> blank_text ''balanced''" "\<not> blank_text ''channel''"
    "\<not> blank_text ''critical''" "\<not> blank_text ''c''" "\<not> blank_text ''1''"
    by (simp_all add: printable_not_blank)
qed

lemma trim_default: "go_trim_space ''default'' = ''default''"
proof -
  have "printable CHR ''d''" "printable CHR ''t''" by code_simp+
  then show ?thesis by (simp add: go_trim_space_printable)
qed

lemma sample_seconds: "interval_seconds unary_time (wt_Interval sample_watcher) = 300"
  by (simp add: interval_seconds_def ParseDuration_def unary_time_def sample_watcher_def go_second_def)

lemma sample_valid: "Validate unary_time sample_watcher = None"
  unfolding Validate_None watcher_checks_def Let_def
  using sample_seconds blank_sample
  by (simp add: sample_watcher_def zero_watcher_def unary_time_def ParseDuration_def ValidateIntervalSeconds_def
      validateSlackTarget_def go_second_def)

lemma sample_routed: "an_RoutingTree (wt_Alerting (routed_tree sample_watcher zero_watcher)) = []"
  by (simp add: routed_tree_def sample_watcher_def zero_watcher_def canonicalRoutingTree_def trim_default)


end
