(* ===== verification/Gcx_WatcherPush.thy ===== *)
theory Gcx_WatcherPush
  imports Gcx_WatcherSync
begin

text \<open>
  Pushes and pulls of Watcher manifests (\<^verbatim>\<open>assistant/watcher/adapter_write.go\<close>, \<^verbatim>\<open>adapter_pull.go\<close> and the
  resolution of references in \<^verbatim>\<open>adapter.go\<close>). The lemmas show what guards the requests of a push and that the
  manifests that its preflight accepts have different targets.
\<close>

section \<open>Pushing manifests\<close>

definition warning_fields :: "watcher \<Rightarrow> (string \<times> string \<times> string list) list" where
  "warning_fields w =
     (let severities = [''warning-and-critical'', ''critical''] in
      [(''spec.sensitivity'', wt_Sensitivity w, [''sensitive'', ''balanced'', ''relaxed'']),
       (''spec.notifications.slack.severity'', sl_Severity (wt_Slack w), severities),
       (''spec.notifications.slack.targetType'', sl_TargetType (wt_Slack w), [''channel'', ''dm'']),
       (''spec.notifications.alerting.severity'', an_Severity (wt_Alerting w), severities),
       (''spec.notifications.teams.severity'', ch_Severity (wt_Teams w), severities),
       (''spec.notifications.webhook.severity'', wn_Severity (wt_Webhook w), severities)])"

text \<open>A warning is the path of the field.\<close>

definition Warnings :: "watcher \<Rightarrow> string list" where
  "Warnings w = map fst (filter (\<lambda>(path, value, known). value \<notin> set known) (warning_fields w))"

text \<open>The schedules give the order of the index for each resource, and that of the groups. The resources of a push with what their manifests decode to; a resource is told apart by its address.\<close>

type_synonym ('r, 'e) push_item = "'r \<times> ('e watcher_error + watcher)"

record ('r, 'e) preflight =
  pf_failures :: "('r \<times> 'e watcher_error) list"
  pf_groups :: "(string \<times> 'r list) list"
  pf_targets :: "('r \<times> candidate) list"

definition title_key :: "watcher \<Rightarrow> string" where
  "title_key w = ''title:'' @ wt_Title w"

definition id_key :: "candidate \<Rightarrow> string" where
  "id_key c = ''id:'' @ cd_ID c"

definition preflight_item ::
  "('r \<Rightarrow> nat list) \<Rightarrow> identity_index \<Rightarrow> ('r, 'e) push_item \<Rightarrow> ('r, 'e) preflight \<Rightarrow> ('r, 'e) preflight" where
  "preflight_item cs index item p =
     (case item of (res, decoded) \<Rightarrow>
        (case decoded of
           Inl e \<Rightarrow> p\<lparr>pf_failures := AList.update res e (pf_failures p)\<rparr>
         | Inr w \<Rightarrow>
             (case selectUpsert (cs res) index w False of
                Inl e \<Rightarrow> p\<lparr>pf_failures := AList.update res e (pf_failures p)\<rparr>
              | Inr target \<Rightarrow>
                  (let g1 = (if cd_ID target = [] \<or> cd_Title target \<noteq> wt_Title w
                             then append_to (title_key w) res (pf_groups p) else pf_groups p);
                       g2 = (if cd_ID target \<noteq> [] then append_to (id_key target) res g1 else g1)
                   in p\<lparr>pf_targets := AList.update res target (pf_targets p), pf_groups := g2\<rparr>))))"

definition reject_shared :: "(string \<times> 'r list) list \<Rightarrow> ('r \<times> 'e watcher_error) list \<Rightarrow> ('r \<times> 'e watcher_error) list" where
  "reject_shared groups failures =
     fold (\<lambda>(key, items) fs. if 1 < length items then fold (\<lambda>res. AList.update res Same_target) items fs else fs)
       groups failures"

definition NewPushPreflight ::
  "('r \<Rightarrow> nat list) \<Rightarrow> nat list \<Rightarrow> identity_index \<Rightarrow> ('r, 'e) push_item list \<Rightarrow> ('r, 'e) preflight" where
  "NewPushPreflight cs ks index items =
     (let p = fold (preflight_item cs index) items \<lparr>pf_failures = [], pf_groups = [], pf_targets = []\<rparr> in
      p\<lparr>pf_failures := reject_shared (go_range ks (pf_groups p)) (pf_failures p)\<rparr>)"

text \<open>The check of a resource: its failure, or the plan kept for it under a fresh token.\<close>

definition preflight_check ::
  "identity_index \<Rightarrow> ('r, 'e) preflight \<Rightarrow> 'r \<Rightarrow> 'e watcher_error + (candidate \<times> identity_index)" where
  "preflight_check index p res =
     (case map_of (pf_failures p) res of
        Some e \<Rightarrow> Inl e
      | None \<Rightarrow> Inr (case map_of (pf_targets p) res of Some t \<Rightarrow> t | None \<Rightarrow> no_candidate, index))"

definition PushEnvelope where
  "PushEnvelope cs ds lib cl plan decoded dryRun s =
     (case decoded of
        Inl e \<Rightarrow> (Inl e, s)
      | Inr w \<Rightarrow>
          if dryRun then (Inl (Unverified (Warnings w)), s)
          else case (case plan of
                       Some p \<Rightarrow> (Inr p, s)
                     | None \<Rightarrow>
                         (case IdentityIndex cl s of
                            (Inl e, s') \<Rightarrow> (Inl e, s')
                          | (Inr index, s') \<Rightarrow>
                              (case selectUpsert cs index w False of
                                 Inl e \<Rightarrow> (Inl e, s') | Inr target \<Rightarrow> (Inr (target, index), s')))) of
            (Inl e, s') \<Rightarrow> (Inl e, s')
          | (Inr (target, index), s') \<Rightarrow>
              if cd_ID target = [] then createConfiguration ds lib cl (Some index) w s'
              else updateConfiguration cs ds lib cl (Some index) (cd_ID target) (w\<lparr>wt_serverID := cd_ID target\<rparr>) s')"

section \<open>Reading\<close>

definition resolve_watcher where
  "resolve_watcher cs cl ref s =
     (let get = (\<lambda>ident s. case client_Get cl ident s of
                   (Inl e, s') \<Rightarrow> (Inl (Client_failed e), s') | (Inr raw, s') \<Rightarrow> (Inr raw, s'))
      in if blank_text ref then (Inl No_reference, s)
         else if wc_IsServerID cl ref then get ref s
         else case IdentityIndex cl s of
           (Inl e, s') \<Rightarrow> (Inl e, s')
         | (Inr index, s') \<Rightarrow>
             (case find (\<lambda>c. cd_ID c = ref) (candidatesFlat cs index) of
                Some c \<Rightarrow> get (cd_ID c) s'
              | None \<Rightarrow> (case one_of ref (bucket index ref) of Inl e \<Rightarrow> (Inl e, s') | Inr c \<Rightarrow> get (cd_ID c) s')))"

definition get_watcher where
  "get_watcher cs lib cl ref s =
     (case resolve_watcher cs cl ref s of
        (Inl e, s') \<Rightarrow> (Inl e, s')
      | (Inr raw, s') \<Rightarrow> ReadManifest lib cl raw s')"

text \<open>The check of a pulled object against the selections and the index, which is read once.\<close>

record pull_item =
  pi_ID :: string
  pi_Title :: string
  pi_Name :: string

fun selected_names :: "pull_item list \<Rightarrow> string list \<Rightarrow> identity_index \<Rightarrow> identity_index" where
  "selected_names [] seen sel = sel"
| "selected_names (i # is) seen sel =
     (if pi_ID i \<in> set seen then selected_names is seen sel
      else selected_names is (seen @ [pi_ID i])
             (append_to (pi_Name i) \<lparr>cd_ID = pi_ID i, cd_Title = pi_Title i, cd_Name = pi_Name i\<rparr> sel))"

record 'e pull_preflight =
  pp_loaded :: "('e watcher_error + identity_index) option"
  pp_selected :: identity_index

definition watcher_pull_check where
  "watcher_pull_check cl single uids item p s =
     (let explicitID = (pi_ID item \<noteq> [] \<and> pi_ID item \<in> set uids);
          chosen = bucket (pp_selected p) (pi_Name item)
      in if length chosen < 2 \<and> (single \<or> explicitID) then (None, p, s)
         else let (loaded, s') = (case pp_loaded p of Some r \<Rightarrow> (r, s) | None \<Rightarrow> IdentityIndex cl s);
                  p' = p\<lparr>pp_loaded := Some loaded\<rparr>
           in case loaded of
                Inl e \<Rightarrow> (Some e, p', s')
              | Inr index \<Rightarrow>
                  (let candidates = (if length (bucket index (pi_Name item)) < 2 then chosen
                                     else bucket index (pi_Name item))
                   in (if 1 < length candidates then Some (CollisionError (pi_Name item) candidates) else None, p', s')))"

section \<open>What guards the requests of a push\<close>

lemma index_partitions_log: "index_partitions cl ps acc s = (r, s') \<Longrightarrow> vw_log s' = vw_log s"
proof (induction ps arbitrary: acc s)
  case (Cons a ps)
  obtain h s1 where h: "client_ListAll cl a s = (h, s1)" by fastforce
  then have "vw_log s1 = vw_log s" by (auto simp: client_ListAll_def dest!: observe_log split: sum.splits)
  then show ?case using Cons h by (auto split: sum.splits option.splits)
qed simp

lemma IdentityIndex_log: "IdentityIndex cl s = (r, s') \<Longrightarrow> vw_log s' = vw_log s"
  unfolding IdentityIndex_def by (rule index_partitions_log)

text \<open>What a creation or an update comes down to.\<close>

lemma createConfiguration_cases:
  assumes "createConfiguration cs lib cl (Some index) w s = (r, s')"
  obtains (refused) e where "r = Inl e" "s' = s" | (run) "reconcile lib cl w [] s = (r, s')"
  using assms by (auto simp: createConfiguration_def mutationIndex_def split: option.splits sum.splits)

lemma updateConfiguration_cases:
  fixes r :: "'e watcher_error + watcher"
  assumes "updateConfiguration cs ds lib cl (Some index) ref w s = (r, s')" and "wt_serverID w \<noteq> []"
  obtains (refused) e where "r = Inl e" "s' = s"
  | (run) "reconcile lib cl (w\<lparr>wt_serverID := wt_serverID w\<rparr>) (wt_serverID w) s = (r, s')"
proof (cases "Validate lib w")
  case (Some v)
  then show ?thesis using assms refused by (auto simp: updateConfiguration_def)
next
  case valid: None
  show ?thesis
  proof (cases "resolveIdentity cs (wc_IsServerID cl) index ref :: 'e watcher_error + candidate")
    case (Inl e)
    then show ?thesis using assms valid refused by (auto simp: updateConfiguration_def mutationIndex_def)
  next
    case target: (Inr target)
    show ?thesis
    proof (cases "wt_serverID w = cd_ID target")
      case False
      then show ?thesis using assms valid target refused by (auto simp: updateConfiguration_def mutationIndex_def)
    next
      case True
      then show ?thesis using assms valid target refused run
        by (cases "selectUpsert ds index (w\<lparr>wt_serverID := cd_ID target\<rparr>) False :: 'e watcher_error + candidate")
           (auto simp: updateConfiguration_def mutationIndex_def)
    qed
  qed
qed

lemma PushEnvelope_cases:
  fixes r :: "'e watcher_error + watcher"
  assumes "PushEnvelope cs ds lib cl plan (Inr w) False s = (r, s')"
  obtains (refused) e where "r = Inl e" "vw_log s' = vw_log s"
  | (run) s1 target where "vw_log s1 = vw_log s"
      "reconcile lib cl (if cd_ID target = [] then w else w\<lparr>wt_serverID := cd_ID target\<rparr>) (cd_ID target) s1 = (r, s')"
      "case plan of Some (t, index) \<Rightarrow> target = t
       | None \<Rightarrow> (\<exists>index. IdentityIndex cl s = (Inr index, s1) \<and> selectUpsert cs index w False = (Inr target :: 'e watcher_error + candidate))"
proof -
  have applied: "\<exists>e. r = Inl e \<and> s' = s1 \<or>
      reconcile lib cl (if cd_ID target = [] then w else w\<lparr>wt_serverID := cd_ID target\<rparr>) (cd_ID target) s1 = (r, s')"
    if "(if cd_ID target = [] then createConfiguration ds lib cl (Some index) w s1
         else updateConfiguration cs ds lib cl (Some index) (cd_ID target) (w\<lparr>wt_serverID := cd_ID target\<rparr>) s1) = (r, s')"
    for target index s1
  proof (cases "cd_ID target = []")
    case True
    then have "createConfiguration ds lib cl (Some index) w s1 = (r, s')" using that by simp
    then show ?thesis using True by (cases rule: createConfiguration_cases) auto
  next
    case False
    then have "updateConfiguration cs ds lib cl (Some index) (cd_ID target) (w\<lparr>wt_serverID := cd_ID target\<rparr>) s1 = (r, s')"
      "wt_serverID (w\<lparr>wt_serverID := cd_ID target\<rparr>) \<noteq> []"
      using that False by simp_all
    then show ?thesis using False by (cases rule: updateConfiguration_cases) auto
  qed
  show ?thesis
  proof (cases plan)
    case (Some p)
    then obtain t index where p: "plan = Some (t, index)" by (cases p) auto
    then have "(if cd_ID t = [] then createConfiguration ds lib cl (Some index) w s
         else updateConfiguration cs ds lib cl (Some index) (cd_ID t) (w\<lparr>wt_serverID := cd_ID t\<rparr>) s) = (r, s')"
      using assms by (simp add: PushEnvelope_def)
    then show ?thesis using applied refused run [of s t] p by (auto dest!: applied)
  next
    case None
    obtain h s1 where h: "IdentityIndex cl s = (h, s1)" by fastforce
    note log = IdentityIndex_log [OF h]
    show ?thesis
    proof (cases h)
      case (Inl e)
      then show ?thesis using assms None h log refused by (auto simp: PushEnvelope_def)
    next
      case index: (Inr index)
      show ?thesis
      proof (cases "selectUpsert cs index w False :: 'e watcher_error + candidate")
        case (Inl e)
        then show ?thesis using assms None h index log refused by (auto simp: PushEnvelope_def)
      next
        case (Inr t)
        then have "(if cd_ID t = [] then createConfiguration ds lib cl (Some index) w s1
         else updateConfiguration cs ds lib cl (Some index) (cd_ID t) (w\<lparr>wt_serverID := cd_ID t\<rparr>) s1) = (r, s')"
          using assms None h index by (simp add: PushEnvelope_def)
        then show ?thesis using applied refused run [of s1 t] None h index log Inr by (auto dest!: applied)
      qed
    qed
  qed
qed

text \<open>
  C20. A dry run push changes nothing. Any other reads a Watcher and its enrollment before it updates it, refuses settings that
  a manifest cannot express, writes the URL of a webhook only with every secret that is saved beside it, changes an
  enrollment only where it differs from the one read (or from none, where the Watcher is created) and only of the Watcher
  just saved or read, and sends all its saves to the planned target.
\<close>

theorem PushEnvelope_guarded:
  "case PushEnvelope cs ds lib cl plan decoded dryRun s of (r, s') \<Rightarrow>
     if dryRun then s' = s
     else \<exists>new target. vw_log s' = vw_log s @ new \<and> guarded_log [] new \<and> sends_to target new \<and>
            (case plan of Some (t, index) \<Rightarrow> target = cd_ID t | None \<Rightarrow> True)"
proof (cases decoded)
  case (Inl e)
  obtain target where "case plan of Some (t, index) \<Rightarrow> target = cd_ID t | None \<Rightarrow> True"
    by (cases plan) auto
  then show ?thesis using Inl by (auto simp: PushEnvelope_def)
next
  case w: (Inr w)
  show ?thesis
  proof (cases dryRun)
    case True
    then show ?thesis using w by (simp add: PushEnvelope_def)
  next
    case False
    obtain r s' where r: "PushEnvelope cs ds lib cl plan (Inr w) False s = (r, s')" by fastforce
    have "\<exists>new target. vw_log s' = vw_log s @ new \<and> guarded_log [] new \<and> sends_to target new \<and>
            (case plan of Some (t, index) \<Rightarrow> target = cd_ID t | None \<Rightarrow> True)"
      using r
    proof (cases rule: PushEnvelope_cases)
      case (refused e)
      then show ?thesis by (intro exI [of _ "[]"] exI [of _ "case plan of Some (t, index) \<Rightarrow> cd_ID t | None \<Rightarrow> []"]) (auto split: option.splits)
    next
      case (run s1 target)
      obtain new where new: "vw_log s' = vw_log s1 @ new" "guarded_log [] new" using guarded_reconcile [OF run(2)] by blast
      moreover have "sends_to (cd_ID target) new" using reconcile_sends_to [OF run(2)] new(1) by auto
      ultimately show ?thesis using run(1,3)
        by (intro exI [of _ new] exI [of _ "cd_ID target"]) (auto split: option.splits)
    qed
    then show ?thesis using r w False by simp
  qed
qed

section \<open>Manifests of a push have different targets\<close>

lemma selectUpsert_target:
  assumes "selectUpsert cs index w False = Inr t"
  shows "t = no_candidate \<and> (\<forall>c \<in> set (candidatesFlat cs index). cd_Title c \<noteq> wt_Title w) \<or>
     t \<in> set (candidatesFlat cs index) \<and>
     (cd_Title t = wt_Title w \<or> (\<forall>c \<in> set (candidatesFlat cs index). cd_Title c = wt_Title w \<longrightarrow> cd_ID c = cd_ID t))"
proof -
  let ?flat = "candidatesFlat cs index"
  let ?target = "fold (\<lambda>c t. if cd_ID c = wt_serverID w then c else t) ?flat no_candidate"
  have "fold (\<lambda>c t. if cd_ID c = wt_serverID w then c else t) xs d \<in> insert d (set xs)" for xs and d :: candidate
    by (induction xs arbitrary: d) auto
  then have t: "?target \<in> insert no_candidate (set ?flat)" .
  have titles: "set (filter (\<lambda>c. cd_Title c = wt_Title w) ?flat) = {c \<in> set ?flat. cd_Title c = wt_Title w}" by auto
  show ?thesis
  proof (cases "cd_ID ?target = []")
    case True
    then consider "filter (\<lambda>c. cd_Title c = wt_Title w) ?flat = []" "t = no_candidate"
      | "filter (\<lambda>c. cd_Title c = wt_Title w) ?flat = [t]"
      using assms by (auto simp: selectUpsert_def Let_def split: list.splits)
    then show ?thesis
    proof cases
      case 1
      then show ?thesis by (simp only: filter_empty_conv) simp
    next
      case 2
      then have "t \<in> set ?flat \<and> cd_Title t = wt_Title w" using titles by (metis (mono_tags, lifting) list.set_intros(1) mem_Collect_eq)
      then show ?thesis by blast
    qed
  next
    case False
    then have "?target \<noteq> no_candidate" by (auto simp: no_candidate_def)
    then have "?target \<in> set ?flat" using t by blast
    moreover have "t = ?target \<and> (cd_Title t = wt_Title w \<or> (\<forall>c \<in> set ?flat. cd_Title c = wt_Title w \<longrightarrow> cd_ID c = cd_ID t))"
    proof (cases "cd_Title ?target = wt_Title w")
      case True
      then show ?thesis using assms False by (simp add: selectUpsert_def Let_def)
    next
      case rename: False
      have "filter (\<lambda>c. cd_ID c \<noteq> cd_ID ?target) (filter (\<lambda>c. cd_Title c = wt_Title w) ?flat) = [] \<and> t = ?target"
        using assms False rename unfolding selectUpsert_def Let_def by (simp del: filter_filter split: if_splits)
      then show ?thesis unfolding filter_empty_conv titles by blast
    qed
    ultimately show ?thesis by blast
  qed
qed


lemma preflight_fold_append:
  "\<exists>more. bucket (pf_groups (fold (preflight_item cs index) items p)) key = bucket (pf_groups p) key @ more"
proof (induction items arbitrary: p)
  case (Cons item items)
  have "\<exists>more. bucket (pf_groups (preflight_item cs index item p)) key = bucket (pf_groups p) key @ more"
    by (cases item) (auto simp: preflight_item_def Let_def go_map split: sum.split)
  then show ?case using Cons [of "preflight_item cs index item p"] by auto
qed simp

lemma preflight_fold_targets:
  "res \<notin> fst ` set items \<Longrightarrow>
     map_of (pf_targets (fold (preflight_item cs index) items p)) res = map_of (pf_targets p) res"
  by (induction items arbitrary: p) (auto simp: preflight_item_def Let_def go_map split: sum.split)

lemma preflight_fold_failures:
  "map_of (pf_failures p) res \<noteq> None \<Longrightarrow> map_of (pf_failures (fold (preflight_item cs index) items p)) res \<noteq> None"
  by (induction items arbitrary: p) (auto simp: preflight_item_def Let_def go_map split: sum.split)

text \<open>What is kept of a manifest that has a target.\<close>

lemma preflight_fold_item:
  fixes items :: "('r, 'e) push_item list"
  assumes "distinct (map fst items)" and "(res, Inr w) \<in> set items"
    and "map_of (pf_failures (fold (preflight_item cs index) items p)) res = None"
  obtains t where "selectUpsert (cs res) index w False = (Inr t :: 'e watcher_error + candidate)"
    "map_of (pf_targets (fold (preflight_item cs index) items p)) res = Some t"
    "cd_ID t = [] \<or> cd_Title t \<noteq> wt_Title w \<longrightarrow> res \<in> set (bucket (pf_groups (fold (preflight_item cs index) items p)) (title_key w))"
    "cd_ID t \<noteq> [] \<longrightarrow> res \<in> set (bucket (pf_groups (fold (preflight_item cs index) items p)) (id_key t))"
  using assms
proof (induction items arbitrary: p thesis)
  case (Cons item items)
  let ?p = "preflight_item cs index item p"
  show ?case
  proof (cases "item = (res, Inr w)")
    case False
    then show ?thesis using Cons.IH [of ?p thesis] Cons.prems by simp
  next
    case True
    have fresh: "res \<notin> fst ` set items" using Cons.prems(2) True by simp
    have ok: "map_of (pf_failures ?p) res = None" using preflight_fold_failures Cons.prems(4) by (metis fold_simps(2))
    obtain t where t: "selectUpsert (cs res) index w False = (Inr t :: 'e watcher_error + candidate)"
      using ok True by (cases "selectUpsert (cs res) index w False :: 'e watcher_error + candidate")
        (auto simp: preflight_item_def go_map)
    have "map_of (pf_targets ?p) res = Some t"
      "cd_ID t = [] \<or> cd_Title t \<noteq> wt_Title w \<Longrightarrow> res \<in> set (bucket (pf_groups ?p) (title_key w))"
      "cd_ID t \<noteq> [] \<Longrightarrow> res \<in> set (bucket (pf_groups ?p) (id_key t))"
      using True t by (auto simp: preflight_item_def Let_def go_map)
    then show ?thesis
      using Cons.prems(1) [OF t] preflight_fold_targets [OF fresh, of cs index ?p]
        preflight_fold_append [of cs index items ?p "title_key w"] preflight_fold_append [of cs index items ?p "id_key t"]
      by (metis Un_iff fold_simps(2) set_append)
  qed
qed simp

lemma fold_update_keeps: "map_of fs res \<noteq> None \<or> res \<in> set items \<Longrightarrow> map_of (fold (\<lambda>r. AList.update r e) items fs) res \<noteq> None"
  by (induction items arbitrary: fs) (auto simp: go_map)

lemma reject_shared_keeps: "map_of fs res \<noteq> None \<Longrightarrow> map_of (reject_shared groups fs) res \<noteq> None"
proof (induction groups arbitrary: fs)
  case (Cons g gs)
  then show ?case using fold_update_keeps [of fs res "snd g" Same_target] by (cases g) (auto simp: reject_shared_def)
qed (simp add: reject_shared_def)

lemma reject_shared_member:
  "(key, items) \<in> set groups \<Longrightarrow> 1 < length items \<Longrightarrow> res \<in> set items \<Longrightarrow> map_of (reject_shared groups fs) res \<noteq> None"
proof (induction groups arbitrary: fs)
  case (Cons g gs)
  show ?case
  proof (cases "g = (key, items)")
    case True
    then have "reject_shared (g # gs) fs = reject_shared gs (fold (\<lambda>res. AList.update res Same_target) items fs)"
      using Cons.prems(2) by (simp add: reject_shared_def)
    then show ?thesis using reject_shared_keeps fold_update_keeps Cons.prems(3) by metis
  next
    case False
    then show ?thesis using Cons by (cases g) (auto simp: reject_shared_def)
  qed
qed simp

lemma accepted_alone:
  assumes "map_of (reject_shared (go_range ks groups) fs) a = None" and "a \<in> set (bucket groups key)" and "b \<in> set (bucket groups key)"
  shows "a = b"
proof (rule ccontr)
  assume "a \<noteq> b"
  then have "card {a, b} \<le> card (set (bucket groups key))" using assms(2,3) by (intro card_mono) auto
  then have "1 < length (bucket groups key)" using \<open>a \<noteq> b\<close> card_length [of "bucket groups key"] by simp
  moreover have "(key, bucket groups key) \<in> set (go_range ks groups)"
    using assms(2) by (cases "map_of groups key") (auto simp: bucket_def dest: map_of_SomeD)
  ultimately show False
    using reject_shared_member [of key "bucket groups key" "go_range ks groups" a fs] assms(1,2) by simp
qed

text \<open>
  C16. Two manifests that the preflight of a push accepts never update the same Watcher, and share a title only if both
  address existing Watchers that have this title already: no push writes one Watcher twice or creates or renames two
  Watchers into one title.
\<close>

theorem push_targets_apart:
  fixes items :: "('r, 'e) push_item list"
  assumes index: "IdentityIndex cl s = (Inr index, s')" and d: "distinct (map fst items)"
    and a: "(a, Inr v) \<in> set items" "preflight_check index (NewPushPreflight cs ks index items) a = Inr (t, i)"
    and b: "(b, Inr w) \<in> set items" "preflight_check index (NewPushPreflight cs ks index items) b = Inr (u, j)" and "a \<noteq> b"
  shows "(cd_ID t = cd_ID u \<longrightarrow> cd_ID t = []) \<and>
    (wt_Title v = wt_Title w \<longrightarrow> cd_ID t \<noteq> [] \<and> cd_ID u \<noteq> [] \<and> cd_Title t = wt_Title v \<and> cd_Title u = wt_Title w)"
proof -
  let ?p = "fold (preflight_item cs index) items \<lparr>pf_failures = [], pf_groups = [], pf_targets = []\<rparr>"
  have final: "map_of (reject_shared (go_range ks (pf_groups ?p)) (pf_failures ?p)) r = None \<and>
      (case map_of (pf_targets ?p) r of Some t \<Rightarrow> t | None \<Rightarrow> no_candidate) = x"
    if "preflight_check index (NewPushPreflight cs ks index items) r = Inr (x, k)" for r x k
    using that by (auto simp: preflight_check_def NewPushPreflight_def Let_def split: option.splits)
  note fa = final [OF a(2)] and fb = final [OF b(2)]
  have "map_of (pf_failures ?p) a = None" "map_of (pf_failures ?p) b = None" using fa fb reject_shared_keeps by metis+
  note ia = preflight_fold_item [OF d a(1) this(1)] and ib = preflight_fold_item [OF d b(1) this(2)]
  obtain t' where t': "selectUpsert (cs a) index v False = (Inr t' :: 'e watcher_error + candidate)" "map_of (pf_targets ?p) a = Some t'"
    "cd_ID t' = [] \<or> cd_Title t' \<noteq> wt_Title v \<longrightarrow> a \<in> set (bucket (pf_groups ?p) (title_key v))"
    "cd_ID t' \<noteq> [] \<longrightarrow> a \<in> set (bucket (pf_groups ?p) (id_key t'))"
    by (rule ia)
  obtain u' where u': "selectUpsert (cs b) index w False = (Inr u' :: 'e watcher_error + candidate)" "map_of (pf_targets ?p) b = Some u'"
    "cd_ID u' = [] \<or> cd_Title u' \<noteq> wt_Title w \<longrightarrow> b \<in> set (bucket (pf_groups ?p) (title_key w))"
    "cd_ID u' \<noteq> [] \<longrightarrow> b \<in> set (bucket (pf_groups ?p) (id_key u'))"
    by (rule ib)
  have eq: "t' = t" "u' = u" using fa fb unfolding t'(2) u'(2) by simp_all
  have apart: "cd_ID t = []" if "cd_ID t = cd_ID u"
  proof (rule ccontr)
    assume "cd_ID t \<noteq> []"
    then have "a \<in> set (bucket (pf_groups ?p) (id_key t))" "b \<in> set (bucket (pf_groups ?p) (id_key u))"
      using t'(4) u'(4) that unfolding eq by metis+
    moreover have "id_key t = id_key u" using that by (simp only: id_key_def)
    ultimately show False using accepted_alone [OF conjunct1 [OF fa]] \<open>a \<noteq> b\<close> by metis
  qed
  have ids: "cd_ID c \<noteq> []" if "c \<in> set (candidatesFlat es index)" for c es
    using IdentityIndex_distinct [OF index] that by (fastforce simp: index_keyed_def)
  have none: "cd_ID no_candidate = []" by (simp add: no_candidate_def)
  have same_flat: "set (candidatesFlat es index) = set (candidatesFlat es' index)" for es es' by simp
  note st = selectUpsert_target [OF t'(1), unfolded eq same_flat [of "cs a" "[]"]]
  note su = selectUpsert_target [OF u'(1), unfolded eq same_flat [of "cs b" "[]"]]
  have "cd_ID t \<noteq> [] \<and> cd_ID u \<noteq> [] \<and> cd_Title t = wt_Title v \<and> cd_Title u = wt_Title w" if title: "wt_Title v = wt_Title w"
  proof -
    have "\<not> ((cd_ID t = [] \<or> cd_Title t \<noteq> wt_Title v) \<and> (cd_ID u = [] \<or> cd_Title u \<noteq> wt_Title w))"
    proof
      assume "(cd_ID t = [] \<or> cd_Title t \<noteq> wt_Title v) \<and> (cd_ID u = [] \<or> cd_Title u \<noteq> wt_Title w)"
      then have "a \<in> set (bucket (pf_groups ?p) (title_key v))" "b \<in> set (bucket (pf_groups ?p) (title_key w))"
        using t'(3) u'(3) unfolding eq by metis+
      moreover have "title_key v = title_key w" using title by (simp only: title_key_def)
      ultimately show False using accepted_alone [OF conjunct1 [OF fa]] \<open>a \<noteq> b\<close> by metis
    qed
    then show ?thesis using st su ids [of t "[]"] ids [of u "[]"] apart title none by metis
  qed
  then show ?thesis using apart by blast
qed

section \<open>A sample push\<close>

definition sample_candidate :: candidate where
  "sample_candidate = \<lparr>cd_ID = ''1'', cd_Title = ''w'', cd_Name = SlugifyName ''w''\<rparr>"

definition sample_identities_index :: identity_index where
  "sample_identities_index = [(SlugifyName ''w'', [sample_candidate])]"

lemma sample_identities: "IdentityIndex sample_client sample_world = (Inr sample_identities_index, sample_world)"
proof -
  have "client_ListAll sample_client False sample_world = (Inr [sample_raw_watcher], sample_world)"
    "client_ListAll sample_client True sample_world = (Inr [], sample_world)"
    by (simp_all add: client_ListAll_def observe_def sample_client_def sample_world_def)
  moreover have "index_items [sample_raw_watcher] ([], []) = Some ([''1''], sample_identities_index)"
    using blank_sample
    by (simp add: sample_raw_watcher_def sample_identities_index_def sample_candidate_def append_to_def bucket_def Let_def)
  ultimately show ?thesis unfolding IdentityIndex_def index_partitions.simps by simp
qed

definition sample_push :: "(nat, unit) push_item list" where
  "sample_push = [(0, Inr sample_watcher), (1, Inr (sample_watcher\<lparr>wt_Title := ''v''\<rparr>))]"

lemma sample_flat: "candidatesFlat [] sample_identities_index = [sample_candidate]"
  by (simp add: candidatesFlat_def sample_identities_index_def)

lemma sample_selected:
  "selectUpsert [] sample_identities_index sample_watcher False = Inr sample_candidate"
  "selectUpsert [] sample_identities_index (sample_watcher\<lparr>wt_Title := ''v''\<rparr>) False = Inr no_candidate"
  by (simp_all add: selectUpsert_def sample_flat sample_candidate_def no_candidate_def sample_watcher_def zero_watcher_def)

lemma sample_checked:
  "preflight_check sample_identities_index (NewPushPreflight (\<lambda>res. []) [] sample_identities_index sample_push) 0 = Inr (sample_candidate, sample_identities_index)"
  "preflight_check sample_identities_index (NewPushPreflight (\<lambda>res. []) [] sample_identities_index sample_push) 1 = Inr (no_candidate, sample_identities_index)"
proof -
  have title: "wt_Title sample_watcher = ''w''" by (simp add: sample_watcher_def zero_watcher_def)
  have "fold (preflight_item (\<lambda>res. []) sample_identities_index) sample_push \<lparr>pf_failures = [], pf_groups = [], pf_targets = []\<rparr> =
      \<lparr>pf_failures = [], pf_groups = [(''id:1'', [0]), (''title:v'', [1])], pf_targets = [(0, sample_candidate), (1, no_candidate)]\<rparr>"
    by (simp add: sample_push_def preflight_item_def sample_selected title append_to_def bucket_def title_key_def id_key_def Let_def)
       (simp add: sample_candidate_def no_candidate_def)
  then show "preflight_check sample_identities_index (NewPushPreflight (\<lambda>res. []) [] sample_identities_index sample_push) 0 = Inr (sample_candidate, sample_identities_index)"
    "preflight_check sample_identities_index (NewPushPreflight (\<lambda>res. []) [] sample_identities_index sample_push) 1 = Inr (no_candidate, sample_identities_index)"
    by (simp_all add: preflight_check_def NewPushPreflight_def reject_shared_def)
qed

theorem push_targets_apart_witness:
  "preflight_check sample_identities_index (NewPushPreflight (\<lambda>res. []) [] sample_identities_index sample_push) 0 = Inr (sample_candidate, sample_identities_index) \<and>
   preflight_check sample_identities_index (NewPushPreflight (\<lambda>res. []) [] sample_identities_index sample_push) 1 = Inr (no_candidate, sample_identities_index) \<and>
   cd_ID sample_candidate \<noteq> cd_ID no_candidate"
proof -
  have "cd_ID sample_candidate = cd_ID no_candidate \<longrightarrow> cd_ID sample_candidate = []"
    using push_targets_apart [OF sample_identities, of sample_push 0 sample_watcher "\<lambda>res. []" "[]" sample_candidate sample_identities_index 1
        "sample_watcher\<lparr>wt_Title := ''v''\<rparr>" no_candidate sample_identities_index] sample_checked
    by (simp add: sample_push_def)
  moreover have "cd_ID sample_candidate = ''1''" "cd_ID no_candidate = []" by (simp_all add: sample_candidate_def no_candidate_def)
  ultimately show ?thesis using sample_checked by simp
qed

end
