(* ===== verification/Spec2Isabelle.thy ===== *)
theory Spec2Isabelle
  imports Gcx_Registry Gcx_Slugs Gcx_Push Gcx_Pull Gcx_Delete Gcx_Paths Gcx_Retry Gcx_Auth
    Gcx_ConfigEdit Gcx_AuthSelect Gcx_Local Gcx_LoginRace Gcx_Usage Gcx_WatcherPush
begin

text \<open>
  A verification development for gcx, the command line client of Grafana: its resource engine (selecting,
  pulling, pushing and deleting resources over a Kubernetes style API), the HTTP layers below it and the
  configuration that says which server to talk to and how to authenticate.

  \<^bold>\<open>The program.\<close> A command parses selectors, looks them up in a registry of resource kinds built from a
  server's discovery answer and from the providers compiled into gcx, and hands filters or local
  resources to a puller, pusher or deleter. These call a router, which sends an operation to the adapter
  of a provider or to the dynamic client of the Kubernetes API; for pushes and deletions that client is
  wrapped by retries on conflicts and by a guard that keeps dry runs from reaching servers that would
  not honour them. Requests go through a retrying transport and one that refreshes OAuth tokens.
  Layers of configuration files are merged, the contexts of the result are wired to their stacks and cloud entries,
  and the selected context decides on a credential, from which the REST configuration is built.
  At its end an invocation may post an anonymous usage event and log its arguments without their values.

  \<^bold>\<open>Theories and sources\<close> (below \<^verbatim>\<open>src/internal\<close>):
  \<^item> \<open>Gcx_Prelude\<close>: strings, maps kept as association lists, iteration over Go maps, error groups, and the
    locale \<open>keeping_step\<close> of steps that keep a relation, which pushing, pulling, deleting and the guard
    instantiate.
  \<^item> \<open>Gcx_Selectors\<close>: \<^verbatim>\<open>resources/descriptor.go\<close>, \<^verbatim>\<open>gvk_normalize.go\<close>, \<^verbatim>\<open>selector.go\<close>, \<^verbatim>\<open>filter.go\<close>.
  \<^item> \<open>Gcx_Discovery\<close>: \<^verbatim>\<open>resources/discovery/registry_index.go\<close>; \<open>Gcx_Registry\<close>: \<^verbatim>\<open>discovery/registry.go\<close>.
  \<^item> \<open>Gcx_Slugs\<close>: \<^verbatim>\<open>resources/adapter/slug.go\<close> and the slugs of \<^verbatim>\<open>local/title_namer.go\<close>;
    \<open>Gcx_Paths\<close>: the file names of \<^verbatim>\<open>local/title_namer.go\<close> and \<^verbatim>\<open>local/writer.go\<close>;
    \<open>Gcx_Local\<close>: the writer of \<^verbatim>\<open>local/writer.go\<close> and \<^verbatim>\<open>local/reader.go\<close>.
  \<^item> \<open>Gcx_Objects\<close>: \<^verbatim>\<open>resources/resources.go\<close>, \<^verbatim>\<open>native_identity.go\<close>, \<^verbatim>\<open>adapter/natural_key.go\<close>, \<^verbatim>\<open>process\<close>.
  \<^item> \<open>Gcx_Folders\<close>: \<^verbatim>\<open>resources/remote/folder_hierarchy.go\<close>.
  \<^item> \<open>Gcx_Adapters\<close>: \<^verbatim>\<open>resources/adapter\<close> (registrations, typed adapters, router).
  \<^item> \<open>Gcx_DryRun\<close>: \<^verbatim>\<open>remote/dryrun_allowlist.go\<close>, \<^verbatim>\<open>dryrun_guard.go\<close>, \<^verbatim>\<open>conflict_retry.go\<close>.
  \<^item> \<open>Gcx_Summary\<close>, \<open>Gcx_Push\<close>, \<open>Gcx_Pull\<close>, \<open>Gcx_Delete\<close>: \<^verbatim>\<open>remote/summary.go\<close>, \<^verbatim>\<open>pusher.go\<close> with the
    natural key files, \<^verbatim>\<open>puller.go\<close>, \<^verbatim>\<open>deleter.go\<close>.
  \<^item> \<open>Gcx_Retry\<close>: \<^verbatim>\<open>retry/transport.go\<close>; \<open>Gcx_Auth\<close>: \<^verbatim>\<open>auth/transport.go\<close>.
  \<^item> \<open>Gcx_LoginURL\<close>, \<open>Gcx_Login\<close>, \<open>Gcx_LoginRace\<close>: the browser login, that is \<^verbatim>\<open>auth/flow.go\<close>,
    \<^verbatim>\<open>callback.go\<close>, \<^verbatim>\<open>manual.go\<close>, \<^verbatim>\<open>paste.go\<close> and \<^verbatim>\<open>gcom.go\<close>: its URLs, what a callback or a pasted line does,
    and the race of both.
  \<^item> \<open>Gcx_ConfigEdit\<close>: \<^verbatim>\<open>config/editor.go\<close>, the types of \<^verbatim>\<open>types.go\<close> and the walk of \<^verbatim>\<open>envparse.go\<close>;
    \<open>Gcx_Config\<close>: \<^verbatim>\<open>config/merge.go\<close>, \<^verbatim>\<open>path.go\<close>, \<^verbatim>\<open>targetkind.go\<close>, the operations of \<^verbatim>\<open>types.go\<close>;
    \<open>Gcx_AuthSelect\<close>: \<^verbatim>\<open>config/grafana_auth.go\<close>, \<^verbatim>\<open>credential_rejection.go\<close>, \<^verbatim>\<open>stack_id.go\<close> and
    the construction of \<^verbatim>\<open>rest.go\<close>.
  \<^item> \<open>Gcx_UsageAPI\<close>: \<^verbatim>\<open>telemetry/api.go\<close> and its vocabularies; \<open>Gcx_UsageCapture\<close>: \<^verbatim>\<open>telemetry/capture\<close>;
    \<open>Gcx_Agent\<close>: \<^verbatim>\<open>agent/agent.go\<close>, \<^verbatim>\<open>agentlog/agentlog.go\<close>; \<open>Gcx_Usage\<close>: the rest of \<^verbatim>\<open>telemetry\<close> with
    \<^verbatim>\<open>telemetry.go\<close> and \<^verbatim>\<open>root/telemetry.go\<close> of \<^verbatim>\<open>cmd/gcx\<close>.
  \<^item> \<open>Gcx_Watcher\<close>, \<open>Gcx_WatcherSync\<close>, \<open>Gcx_WatcherPush\<close>: Watchers, a kind of resource with an adapter of its own
    (\<^verbatim>\<open>assistant/watcher\<close>): manifests and what a server says of them (\<^verbatim>\<open>watcher.go\<close>, the types of
    \<^verbatim>\<open>assistant/watchers\<close>), the reconciliation of one (\<^verbatim>\<open>reconcile.go\<close>, the identities of \<^verbatim>\<open>adapter.go\<close>), and
    pushes and pulls of several (\<^verbatim>\<open>adapter_write.go\<close>, \<^verbatim>\<open>adapter_pull.go\<close>).

  \<^bold>\<open>Conventions.\<close> A definition has the name of the Go function it models; a part of a function has a
  name of its own and maps to its lines. State is passed explicitly: a world, whose type is a
  parameter, stands for everything outside the code (the server, the clock, files), and interfaces the
  code calls are records of functions on it. Errors are values (sums, options, records with the flags
  the code asks for with \<^verbatim>\<open>errors.Is\<close> and \<^verbatim>\<open>errors.As\<close>). A nil that Go would dereference is an error value.
  Go iterates over maps in any order and runs the callbacks of an error group in any order: both
  take a schedule, a list of choices, and \<open>go_range_complete\<close> says that every order is some schedule.
  Callbacks of error groups are atomic steps; in \<open>Gcx_Auth\<close>, where the mutex is the point, the critical
  sections are the steps, in \<open>Gcx_LoginRace\<close> a step that would block is not enabled, and in \<open>Gcx_UsageCapture\<close>
  the steps are the atomic accesses of one pointer. Integers whose overflow matters (a delay in \<open>Gcx_Retry\<close>) are words.

  \<^bold>\<open>Fuel.\<close> Three searches carry fuel, each with a lemma that it is enough: \<open>traverse\<close> of the folders as many
  steps as folders, \<open>fresh_key\<close> of a collection its size plus two, \<open>allocate\<close> of file names twice the
  entries plus the files. A refresh takes at most four phases. No other recursion needs any.

  \<^bold>\<open>What the lemmas show.\<close> Parsing and printing of selectors are inverse; the index is consistent in every
  reachable state, lookups in it are sound, and complete where no group alias of another resource comes first; slugs, identities and keys are unique where
  the code needs it, and the places where they are not are stated as such; folder levels respect the
  hierarchy; dry runs change nothing through all layers; pushes, pulls and deletions account for every
  resource, report every error and touch only what they should; files are written below the root of the
  writer only, and the reader accounts for every file; an upsert refines the update of a map;
  a refresh of tokens has one leader, always ends and fails closed; a login exchanges one code at most,
  with a trusted host, and cannot succeed any more once a pasted URL failed. An edit of a configuration keeps its types, is read
  back and changes nothing else; merged entries come from one layer as a whole; a rejected credential is
  never replaced by another one, and a REST configuration carries one credential only. A usage event is made of
  the names of the program's commands and flags, an identifier of the device and fixed vocabularies, is posted only where nobody opted out, and the slot of its authentication method has a value
  that does not depend on the interleaving of its writers, each of which takes five steps at most. Applying the manifest of
  a Watcher tells in its result or error what was saved, keeps secrets and settings it cannot express, and sends nothing
  when it is repeated; the manifests that a push accepts have different targets.

  \<^bold>\<open>Not modelled.\<close> The commands (\<^verbatim>\<open>cmd\<close>), the providers and their REST clients (\<^verbatim>\<open>providers\<close>,
  \<^verbatim>\<open>query\<close>, \<^verbatim>\<open>datasources\<close>, \<^verbatim>\<open>cloud\<close>, \<^verbatim>\<open>fleet\<close>, the clients of \<^verbatim>\<open>assistant\<close>), which translate flags to requests and
  responses to tables; the prompts around a login; the stores of credentials, the loader and the migration of
  configuration files, whose behaviour is that of the operating system's files and secret stores; the
  linter, the development server, notices and output. The PROJECT manifest lists them.
\<close>

end
